(* ===== verification/Decimal.thy ===== *)
theory Decimal
  imports Prelude
begin

text \<open>
  Python's \<open>decimal\<close> module as the settlement code uses it. A finite \<open>Decimal\<close> is the
  rational number it denotes; a context rounds a result to \<open>prec\<close> significant digits,
  half to even. Two contexts occur in the code: the module's own \<open>CTX\<close> (precision 34) and
  the interpreter's default one (precision 28), which the operators \<open>*\<close>, \<open>/\<close>, unary
  \<open>-\<close> and \<open>sum\<close> use. NaN, infinities, the sign of zero and the exponent limits of
  the contexts are left out.
\<close>

section \<open>Rounding half to even\<close>

definition half_even :: "rat \<Rightarrow> int" where
  "half_even x =
     (let f = \<lfloor>x\<rfloor>; d = x - of_int f
      in if d < 1/2 then f else if 1/2 < d then f + 1 else if even f then f else f + 1)"

lemma half_even_of_int [simp]: "half_even (of_int k) = k"
  by (simp add: half_even_def)

lemma half_even_error: "\<bar>of_int (half_even x) - x\<bar> \<le> 1/2"
proof -
  have "of_int \<lfloor>x\<rfloor> \<le> x" and "x < of_int \<lfloor>x\<rfloor> + 1" by linarith+
  then show ?thesis by (auto simp: half_even_def Let_def abs_le_iff)
qed

lemma half_even_mono_int: "of_int k \<le> x \<Longrightarrow> k \<le> half_even x"
proof -
  assume "of_int k \<le> x"
  then have "k \<le> \<lfloor>x\<rfloor>" by (simp add: le_floor_iff)
  then show ?thesis by (auto simp: half_even_def Let_def)
qed

lemma half_even_le_int: "x \<le> of_int k \<Longrightarrow> half_even x \<le> k"
proof -
  assume h: "x \<le> of_int k"
  have "of_int (half_even x) \<le> x + 1/2" using half_even_error [of x] by linarith
  then have "of_int (half_even x) \<le> (of_int k :: rat) + 1/2" using h by linarith
  then have "(of_int (half_even x) :: rat) < of_int (k + 1)" by simp
  then have "half_even x < k + 1" by (simp only: of_int_less_iff)
  then show ?thesis by simp
qed

lemma half_even_eqI: "\<bar>of_int k - x\<bar> < 1/2 \<Longrightarrow> half_even x = k"
proof -
  assume "\<bar>of_int k - x\<bar> < 1/2"
  then have "\<bar>of_int (half_even x - k) :: rat\<bar> < of_int 1"
    using half_even_error [of x] unfolding abs_less_iff abs_le_iff of_int_diff of_int_1 by linarith
  then have "\<bar>half_even x - k\<bar> < 1" by (metis of_int_abs of_int_less_iff)
  then show ?thesis by simp
qed

section \<open>Significant digits\<close>

fun ndig :: "nat \<Rightarrow> nat" where
  "ndig n = (if n = 0 then 0 else Suc (ndig (n div 10)))"

declare ndig.simps [simp del]

lemma ndig_0 [simp]: "ndig 0 = 0"
  by (simp add: ndig.simps)

lemma ndig_upper: "n < 10 ^ ndig n"
proof (induction n rule: ndig.induct)
  case (1 n)
  then show ?case
    by (cases "n = 0") (auto simp: ndig.simps [of n] less_mult_imp_div_less div_less_iff_less_mult)
qed

lemma ndig_lower: "n > 0 \<Longrightarrow> 10 ^ (ndig n - 1) \<le> n"
proof (induction n rule: ndig.induct)
  case (1 n)
  show ?case
  proof (cases "n div 10 = 0")
    case True
    then show ?thesis using 1 by (simp add: ndig.simps [of n])
  next
    case False
    with 1 have ih: "10 ^ (ndig (n div 10) - 1) \<le> n div 10" by simp
    from False have "ndig (n div 10) = Suc (ndig (n div 10) - 1)"
      by (simp add: ndig.simps [of "n div 10"])
    then have "(10::nat) ^ ndig (n div 10) = 10 * 10 ^ (ndig (n div 10) - 1)" by (metis power_Suc)
    also have "\<dots> \<le> 10 * (n div 10)" using ih by simp
    also have "\<dots> \<le> n" by simp
    finally show ?thesis using 1 by (simp add: ndig.simps [of n])
  qed
qed

text \<open>The exponent of the leading digit: \<open>10 ^ adj x \<le> \<bar>x\<bar> < 10 ^ (adj x + 1)\<close>.\<close>

definition adj :: "rat \<Rightarrow> int" where
  "adj x =
     (let (a, b) = quotient_of \<bar>x\<bar>; e = int (ndig (nat a)) - int (ndig (nat b))
      in if \<bar>x\<bar> < 10 powi e then e - 1 else e)"

lemma powi_10_pos [simp]: "(0::rat) < 10 powi e"
  by simp

lemma powi_10_less_imp: "(10::rat) powi a < 10 powi b \<Longrightarrow> a < b"
  by (meson linorder_not_le one_le_numeral power_int_increasing)

lemma adj_bounds:
  assumes "x \<noteq> 0"
  shows "10 powi (adj x) \<le> \<bar>x\<bar>" and "\<bar>x\<bar> < 10 powi (adj x + 1)"
proof -
  obtain a b where q: "quotient_of \<bar>x\<bar> = (a, b)" by (cases "quotient_of \<bar>x\<bar>")
  have b: "b > 0" using q by (rule quotient_of_denom_pos)
  have x: "\<bar>x\<bar> = of_int a / of_int b" using q by (rule quotient_of_div)
  have a: "a > 0"
  proof -
    have "of_int a / of_int b > (0::rat)" using x assms by (metis zero_less_abs_iff)
    then show ?thesis using b by (simp add: zero_less_divide_iff)
  qed
  define m where "m = nat a"
  define n where "n = nat b"
  have mn: "m > 0" "n > 0" and x': "\<bar>x\<bar> = of_nat m / of_nat n"
    using a b x by (auto simp: m_def n_def)
  define da where "da = ndig m"
  define db where "db = ndig n"
  have dpos: "da \<ge> 1" "db \<ge> 1" using mn by (simp_all add: da_def db_def ndig.simps [of m] ndig.simps [of n])
  have am: "(10::rat) ^ (da - 1) \<le> of_nat m" "(of_nat m :: rat) < 10 ^ da"
    using ndig_lower [OF mn(1)] ndig_upper [of m]
    by (metis da_def of_nat_le_iff of_nat_numeral of_nat_power,
        metis da_def of_nat_less_iff of_nat_numeral of_nat_power)
  have bn: "(10::rat) ^ (db - 1) \<le> of_nat n" "(of_nat n :: rat) < 10 ^ db"
    using ndig_lower [OF mn(2)] ndig_upper [of n]
    by (metis db_def of_nat_le_iff of_nat_numeral of_nat_power,
        metis db_def of_nat_less_iff of_nat_numeral of_nat_power)
  let ?e = "int da - int db"
  have npos: "(0::rat) < of_nat n" using mn by simp
  have lo: "10 powi (?e - 1) \<le> \<bar>x\<bar>"
  proof -
    have "(10::rat) powi (?e - 1) = 10 powi (int (da - 1) - int db)"
      using dpos by (intro arg_cong2 [where f = "power_int"]) (simp_all add: of_nat_diff)
    also have "\<dots> = 10 ^ (da - 1) / 10 ^ db" by (subst power_int_diff) simp_all
    also have "\<dots> \<le> of_nat m / of_nat n"
      using am bn mn by (intro frac_le) auto
    finally show ?thesis using x' by simp
  qed
  have hi: "\<bar>x\<bar> < 10 powi (?e + 1)"
  proof -
    have "(10::rat) powi (?e + 1) = 10 powi (int da - int (db - 1))"
      using dpos by (intro arg_cong2 [where f = "power_int"]) (simp_all add: of_nat_diff)
    also have "\<dots> = 10 ^ da / 10 ^ (db - 1)" by (subst power_int_diff) simp_all
    finally have "(10::rat) powi (?e + 1) = 10 ^ da / 10 ^ (db - 1)" .
    moreover have "of_nat m / of_nat n < (10::rat) ^ da / 10 ^ (db - 1)"
      using am bn mn by (intro frac_less) auto
    ultimately show ?thesis using x' by simp
  qed
  have adj: "adj x = (if \<bar>x\<bar> < 10 powi ?e then ?e - 1 else ?e)"
    by (simp add: adj_def q da_def db_def m_def n_def)
  show "10 powi (adj x) \<le> \<bar>x\<bar>" using lo adj by (simp split: if_splits)
  show "\<bar>x\<bar> < 10 powi (adj x + 1)" using hi adj by (simp split: if_splits)
qed

definition round_sig :: "nat \<Rightarrow> rat \<Rightarrow> rat" where
  "round_sig p x =
     (if x = 0 then 0
      else let u = 10 powi (adj x - int p + 1) in of_int (half_even (x / u)) * u)"

lemma adj_eqI:
  assumes "10 powi m \<le> \<bar>x\<bar>" and "\<bar>x\<bar> < 10 powi (m + 1)"
  shows "adj x = m"
proof -
  have x: "x \<noteq> 0" using assms(1) by (metis abs_zero not_le powi_10_pos)
  have "m < adj x + 1" using adj_bounds(2) [OF x] assms(1) by (intro powi_10_less_imp) linarith
  moreover have "adj x < m + 1" using adj_bounds(1) [OF x] assms(2) by (intro powi_10_less_imp) linarith
  ultimately show ?thesis by linarith
qed

lemma round_sig_eqI:
  assumes "10 powi m \<le> \<bar>x\<bar>" and "\<bar>x\<bar> < 10 powi (m + 1)"
  shows "round_sig p x = of_int (half_even (x / 10 powi (m - int p + 1))) * 10 powi (m - int p + 1)"
proof -
  have "x \<noteq> 0" using assms(1) by (metis abs_zero not_le powi_10_pos)
  then show ?thesis using adj_eqI [OF assms] by (simp add: round_sig_def Let_def)
qed

text \<open>A result that fits in \<open>p\<close> digits is not rounded.\<close>

lemma round_sig_exact:
  assumes "x = of_int k * 10 powi j" and "\<bar>k\<bar> < 10 ^ p"
  shows "round_sig p x = x"
proof (cases "x = 0")
  case True
  then show ?thesis by (simp add: round_sig_def)
next
  case False
  let ?e = "adj x - int p + 1"
  have "10 powi (adj x) \<le> \<bar>x\<bar>" by (rule adj_bounds(1) [OF False])
  also have "\<bar>x\<bar> = of_int \<bar>k\<bar> * 10 powi j" by (simp add: assms(1) abs_mult)
  also have "\<dots> < 10 ^ p * 10 powi j"
  proof -
    have "(of_int \<bar>k\<bar> :: rat) < of_int (10 ^ p)" using assms(2) by (simp only: of_int_less_iff)
    then show ?thesis by simp
  qed
  also have "\<dots> = 10 powi (int p + j)" by (simp add: power_int_add)
  finally have "adj x < int p + j" by (rule powi_10_less_imp)
  then have e: "?e \<le> j" by linarith
  have "x / 10 powi ?e = of_int (k * 10 ^ nat (j - ?e))"
  proof -
    have "(10::rat) powi j = 10 powi (j - ?e) * 10 powi ?e" by (simp flip: power_int_add)
    moreover have "(10::rat) powi (j - ?e) = 10 ^ nat (j - ?e)" using e by (simp add: power_int_def)
    ultimately show ?thesis by (simp add: assms(1) field_simps)
  qed
  then have "of_int (half_even (x / 10 powi ?e)) = x / 10 powi ?e" by (metis half_even_of_int)
  then show ?thesis using False by (simp add: round_sig_def Let_def)
qed

lemma round_sig_int: "\<bar>k\<bar> < 10 ^ p \<Longrightarrow> round_sig p (of_int k) = of_int k"
  by (rule round_sig_exact [where j = 0]) simp_all

text \<open>The relative error of a rounding is at most half a unit in the last digit.\<close>

lemma round_sig_error: "\<bar>round_sig p x - x\<bar> \<le> \<bar>x\<bar> * 10 powi (1 - int p) / 2"
proof (cases "x = 0")
  case True
  then show ?thesis by (simp add: round_sig_def)
next
  case False
  let ?u = "(10::rat) powi (adj x - int p + 1)"
  have "\<bar>round_sig p x - x\<bar> = \<bar>of_int (half_even (x / ?u)) - x / ?u\<bar> * ?u"
  proof -
    have "round_sig p x - x = (of_int (half_even (x / ?u)) - x / ?u) * ?u"
      using False by (simp add: round_sig_def Let_def algebra_simps)
    then show ?thesis by (simp add: abs_mult)
  qed
  also have "\<dots> \<le> 1/2 * ?u"
    by (rule mult_right_mono [OF half_even_error]) simp
  also have "?u = 10 powi (adj x) * 10 powi (1 - int p)"
    by (simp flip: power_int_add add: algebra_simps)
  also have "1/2 * (10 powi (adj x) * 10 powi (1 - int p)) \<le> \<bar>x\<bar> * 10 powi (1 - int p) / (2::rat)"
    using adj_bounds(1) [OF False] by simp
  finally show ?thesis .
qed

text \<open>Rounding does not take a magnitude below a power of ten it reaches.\<close>

lemma round_sig_ge_pow10:
  assumes "10 powi m \<le> \<bar>x\<bar>" and "p \<ge> 1"
  shows "10 powi m \<le> \<bar>round_sig p x\<bar>"
proof -
  have x: "x \<noteq> 0" using assms(1) by (metis abs_zero not_le powi_10_pos)
  let ?u = "(10::rat) powi (adj x - int p + 1)"
  have m: "m \<le> adj x"
  proof -
    have "(10::rat) powi m < 10 powi (adj x + 1)" using adj_bounds(2) [OF x] assms(1) by linarith
    from powi_10_less_imp [OF this] show ?thesis by simp
  qed
  have u: "10 powi (adj x) = of_int (10 ^ (p - 1)) * ?u"
  proof -
    have "of_int (10 ^ (p - 1)) * ?u = 10 powi (int (p - 1) + (adj x - int p + 1))"
      by (subst power_int_add) simp_all
    also have "\<dots> = 10 powi (adj x)"
      using assms(2) by (intro arg_cong2 [where f = "power_int"]) (simp_all add: of_nat_diff)
    finally show ?thesis by simp
  qed
  have big: "of_int (10 ^ (p - 1)) \<le> \<bar>x\<bar> / ?u"
    using adj_bounds(1) [OF x] u by (subst pos_le_divide_eq) simp_all
  have "10 ^ (p - 1) \<le> \<bar>half_even (x / ?u)\<bar>"
  proof (cases "x \<ge> 0")
    case True
    then show ?thesis using half_even_mono_int [of "10 ^ (p - 1)" "x / ?u"] big by simp
  next
    case False
    then have "x / ?u \<le> of_int (- (10 ^ (p - 1)))" using big by simp
    then show ?thesis using half_even_le_int by fastforce
  qed
  then have "(of_int (10 ^ (p - 1)) :: rat) \<le> of_int \<bar>half_even (x / ?u)\<bar>" by (simp only: of_int_le_iff)
  then have "of_int (10 ^ (p - 1)) * ?u \<le> of_int \<bar>half_even (x / ?u)\<bar> * ?u" by (simp add: mult_right_mono)
  also have "\<dots> = \<bar>round_sig p x\<bar>" using x by (simp add: round_sig_def Let_def abs_mult)
  finally have "of_int (10 ^ (p - 1)) * ?u \<le> \<bar>round_sig p x\<bar>" .
  moreover have "(10::rat) powi m \<le> 10 powi (adj x)" using m by (simp add: power_int_increasing)
  ultimately show ?thesis using u by linarith
qed

section \<open>The default context\<close>

text \<open>Precision of \<open>decimal.getcontext()\<close>; \<open>dsum\<close> is \<open>sum(ds, Decimal(0))\<close>.\<close>

definition rnd28 :: "rat \<Rightarrow> rat" where
  "rnd28 = round_sig 28"

fun dsum_from :: "rat \<Rightarrow> rat list \<Rightarrow> rat" where
  "dsum_from a [] = a"
| "dsum_from a (d # ds) = dsum_from (rnd28 (a + d)) ds"

definition dsum :: "rat list \<Rightarrow> rat" where
  "dsum ds = dsum_from 0 ds"

lemma rnd28_int [simp]: "\<bar>k\<bar> < 10 ^ 28 \<Longrightarrow> rnd28 (of_int k) = of_int k"
  by (simp add: rnd28_def round_sig_int)

lemma dsum_from_int:
  "\<bar>a\<bar> + sum_list (map abs ks) < 10 ^ 28 \<Longrightarrow>
   dsum_from (of_int a) (map of_int ks) = of_int (a + sum_list ks)"
proof (induction ks arbitrary: a)
  case Nil
  then show ?case by simp
next
  case (Cons k ks)
  have nn: "0 \<le> sum_list (map abs ks)" by (induction ks) auto
  have "\<bar>a + k\<bar> < 10 ^ 28" using Cons.prems nn abs_triangle_ineq [of a k] by simp
  then have "rnd28 (of_int a + of_int k) = of_int (a + k)" by (metis of_int_add rnd28_int)
  moreover have "\<bar>a + k\<bar> + sum_list (map abs ks) < 10 ^ 28"
    using Cons.prems abs_triangle_ineq [of a k] by simp
  ultimately show ?case using Cons.IH [of "a + k"] by (simp add: algebra_simps)
qed

lemma dsum_int: "sum_list (map abs ks) < 10 ^ 28 \<Longrightarrow> dsum (map of_int ks) = of_int (sum_list ks)"
  using dsum_from_int [of 0 ks] by (simp add: dsum_def)

section \<open>Decimal literals\<close>

text \<open>
  The text a \<open>Decimal\<close> is built from: an optional sign, digits with an optional point, an
  optional exponent. Anything else is \<open>None\<close>, where Python raises
  \<open>decimal.InvalidOperation\<close> (surrounding blanks, underscores and the special values
  are not modelled).
\<close>

definition span :: "('a \<Rightarrow> bool) \<Rightarrow> 'a list \<Rightarrow> 'a list \<times> 'a list" where
  "span P xs = (takeWhile P xs, dropWhile P xs)"

fun sign_of :: "string \<Rightarrow> bool \<times> string" where
  "sign_of [] = (False, [])"
| "sign_of (c # cs) =
     (if c = CHR ''-'' then (True, cs) else if c = CHR ''+'' then (False, cs) else (False, c # cs))"

definition read_exponent :: "string \<Rightarrow> int option" where
  "read_exponent ex =
     (case ex of [] \<Rightarrow> Some 0
      | _ # r \<Rightarrow> (let (neg, ds) = sign_of r
                 in if ds = [] then None
                    else map_option (\<lambda>n. if neg then - int n else int n) (parse_digits 0 ds)))"

definition decimal_of_str :: "string \<Rightarrow> rat option" where
  "decimal_of_str s =
     (let (neg, r) = sign_of s;
          (mant, ex) = span (\<lambda>c. c \<noteq> CHR ''e'' \<and> c \<noteq> CHR ''E'') r;
          (ip, fp') = span (\<lambda>c. c \<noteq> CHR ''.'') mant;
          fp = drop 1 fp'
      in if ip @ fp = [] then None
         else case (parse_digits 0 (ip @ fp), read_exponent ex) of
                (Some n, Some e) \<Rightarrow>
                  Some ((if neg then - 1 else 1) * of_nat n * 10 powi (e - int (length fp)))
              | _ \<Rightarrow> None)"

text \<open>\<open>str(d)\<close> of a decimal with exactly four fractional digits, given in units of 0.0001.\<close>

definition show4 :: "nat \<Rightarrow> string" where
  "show4 k = [digit_char (k div 1000), digit_char (k div 100 mod 10), digit_char (k div 10 mod 10),
              digit_char (k mod 10)]"

definition show_units :: "int \<Rightarrow> string" where
  "show_units u =
     (let n = nat \<bar>u\<bar>
      in (if u < 0 then ''-'' else []) @ show_nat (n div 10000) @ [CHR ''.''] @ show4 (n mod 10000))"

lemma four_digits:
  "10 * p + q = r \<Longrightarrow> 10 * r + s = t \<Longrightarrow> 10 * t + u = (k::nat) \<Longrightarrow>
   10 * (10 * (10 * (10 * a + p) + q) + s) + u = 10000 * a + k"
  by simp

lemma parse_show4:
  assumes "k < 10000" shows "parse_digits a (show4 k) = Some (10000 * a + k)"
proof -
  have d: "k div 1000 < 10" using assms by simp
  have "parse_digits a (show4 k) =
        Some (10 * (10 * (10 * (10 * a + k div 1000) + k div 100 mod 10) + k div 10 mod 10) + k mod 10)"
    using d by (simp add: show4_def)
  moreover have "10 * (10 * (10 * (10 * a + k div 1000) + k div 100 mod 10) + k div 10 mod 10) + k mod 10
                 = 10000 * a + k"
  proof -
    have "10 * (k div 1000) + k div 100 mod 10 = k div 100"
      using mult_div_mod_eq [of 10 "k div 100"] by (simp add: div_mult2_eq [symmetric])
    moreover have "10 * (k div 100) + k div 10 mod 10 = k div 10"
      using mult_div_mod_eq [of 10 "k div 10"] by (simp add: div_mult2_eq [symmetric])
    moreover have "10 * (k div 10) + k mod 10 = k" by simp
    ultimately show ?thesis by (rule four_digits)
  qed
  ultimately show ?thesis by simp
qed

lemma digit_facts:
  "c \<in> set ''0123456789'' \<Longrightarrow> c \<noteq> CHR ''.'' \<and> c \<noteq> CHR ''e'' \<and> c \<noteq> CHR ''E'' \<and> c \<noteq> CHR ''-'' \<and> c \<noteq> CHR ''+''"
  by auto

lemma show4_digits: "k < 10000 \<Longrightarrow> set (show4 k) \<subseteq> set ''0123456789''"
proof -
  assume "k < 10000"
  then have "k div 1000 < 10" by simp
  then show ?thesis using digit_char_mem by (simp add: show4_def)
qed

lemma sign_of_digits: "xs \<noteq> [] \<Longrightarrow> set xs \<subseteq> set ''0123456789'' \<Longrightarrow> sign_of (xs @ ys) = (False, xs @ ys)"
  by (cases xs) (use digit_facts in auto)

lemma span_all: "(\<forall>c \<in> set xs. P c) \<Longrightarrow> span P xs = (xs, [])"
  by (simp add: span_def)

lemma span_stop: "(\<forall>c \<in> set xs. P c) \<Longrightarrow> \<not> P c \<Longrightarrow> span P (xs @ c # ys) = (xs, c # ys)"
  by (simp add: span_def)

text \<open>Printing and reading an amount of scale 4 is a round trip.\<close>

lemma decimal_of_show_units: "decimal_of_str (show_units u) = Some (of_int u / 10000)"
proof -
  define n where "n = nat \<bar>u\<bar>"
  define ip where "ip = show_nat (n div 10000)"
  define fp where "fp = show4 (n mod 10000)"
  have ds: "set ip \<subseteq> set ''0123456789''" "set fp \<subseteq> set ''0123456789''"
    using show_nat_digits show4_digits by (simp_all add: ip_def fp_def)
  have ip: "ip \<noteq> []" by (simp add: ip_def)
  have len: "length fp = 4" by (simp add: fp_def show4_def)
  let ?body = "ip @ [CHR ''.''] @ fp"
  have body: "show_units u = (if u < 0 then ''-'' else []) @ ?body"
    by (simp add: show_units_def Let_def n_def ip_def fp_def)
  have sgn: "sign_of (show_units u) = (u < 0, ?body)"
    using sign_of_digits [OF ip ds(1), of "CHR ''.'' # fp"] by (simp add: body)
  have "\<forall>c \<in> set ?body. c \<noteq> CHR ''e'' \<and> c \<noteq> CHR ''E''" using ds digit_facts by auto
  then have sp1: "span (\<lambda>c. c \<noteq> CHR ''e'' \<and> c \<noteq> CHR ''E'') ?body = (?body, [])" by (rule span_all)
  have sp2: "span (\<lambda>c. c \<noteq> CHR ''.'') ?body = (ip, CHR ''.'' # fp)"
    using ds(1) digit_facts span_stop [of ip "\<lambda>c. c \<noteq> CHR ''.''" "CHR ''.''" fp] by auto
  have "parse_digits 0 (ip @ fp) = Some (10000 * (n div 10000) + n mod 10000)"
    by (simp add: parse_digits_append ip_def fp_def parse_show4)
  then have pd: "parse_digits 0 (ip @ fp) = Some n" by simp
  have "decimal_of_str (show_units u) = Some ((if u < 0 then - 1 else 1) * of_nat n * 10 powi (- 4))"
    using ip len by (simp add: decimal_of_str_def sgn sp1 sp2 pd read_exponent_def del: append_Cons)
  moreover have "(if u < 0 then - 1 else 1) * (of_nat n :: rat) = of_int u" by (simp add: n_def)
  ultimately show ?thesis by (simp add: power_int_minus)
qed

end
