(* ===== verification/Money.thy ===== *)
theory Money
  imports Decimal
begin

text \<open>
  \<open>src/infra/settle/money.py\<close>: the \<open>Money\<close> type and the largest-remainder split. A
  \<open>Money\<close> holds a decimal already quantized to scale 4, so it is kept as its integer number
  of 0.0001 units; every operation goes through the rounding the code goes through.
\<close>

section \<open>Amounts\<close>

text \<open>The Python values that reach a money parameter, by type.\<close>

datatype money_arg = ABool bool | AFloat | ADecimal rat | AInt int | AStr string | AOther

definition to_decimal :: "money_arg \<Rightarrow> rat res" where
  "to_decimal a =
     (case a of
        ABool _ \<Rightarrow> Inl TypeError
      | AFloat \<Rightarrow> Inl TypeError
      | ADecimal d \<Rightarrow> Inr d
      | AInt i \<Rightarrow> Inr (of_int i)
      | AStr s \<Rightarrow> (case decimal_of_str s of Some d \<Rightarrow> Inr d | None \<Rightarrow> Inl InvalidOperation)
      | AOther \<Rightarrow> Inl TypeError)"

text \<open>\<open>QUANT\<close> is 0.0001 and \<open>CTX.prec\<close> is 34: a quotient of more digits is refused.\<close>

definition quantize4 :: "rat \<Rightarrow> int res" where
  "quantize4 d =
     (let u = half_even (d * 10000) in if \<bar>u\<bar> < 10 ^ 34 then Inr u else Inl InvalidOperation)"

definition ctx :: "rat \<Rightarrow> rat" where
  "ctx = round_sig 34"

record money =
  units :: int
  currency :: string

abbreviation Mny :: "int \<Rightarrow> string \<Rightarrow> money" where
  "Mny u c \<equiv> \<lparr>units = u, currency = c\<rparr>"

definition amount :: "money \<Rightarrow> rat" where
  "amount m = of_int (units m) / 10000"

definition money_of :: "money_arg \<Rightarrow> string \<Rightarrow> money res" where
  "money_of a c = bindR (to_decimal a) (\<lambda>d. bindR (quantize4 d) (\<lambda>u. Inr \<lparr>units = u, currency = c\<rparr>))"

definition money_zero :: "string \<Rightarrow> money res" where
  "money_zero c = money_of (AInt 0) c"

definition money_same :: "money \<Rightarrow> money \<Rightarrow> unit res" where
  "money_same a b = (if currency b \<noteq> currency a then Inl ValueError else Inr ())"

definition money_add :: "money \<Rightarrow> money \<Rightarrow> money res" where
  "money_add a b =
     bindR (money_same a b) (\<lambda>_. money_of (ADecimal (ctx (amount a + amount b))) (currency a))"

definition money_sub :: "money \<Rightarrow> money \<Rightarrow> money res" where
  "money_sub a b =
     bindR (money_same a b) (\<lambda>_. money_of (ADecimal (ctx (amount a - amount b))) (currency a))"

text \<open>Unary minus is the operator, so it rounds in the default context.\<close>

definition money_neg :: "money \<Rightarrow> money res" where
  "money_neg a = money_of (ADecimal (rnd28 (- amount a))) (currency a)"

definition money_scale :: "money \<Rightarrow> money_arg \<Rightarrow> money res" where
  "money_scale a r =
     bindR (to_decimal r) (\<lambda>d. money_of (ADecimal (ctx (amount a * d))) (currency a))"

definition money_eq :: "money \<Rightarrow> money \<Rightarrow> bool" where
  "money_eq a b \<longleftrightarrow> currency b = currency a \<and> amount b = amount a"

definition money_lt :: "money \<Rightarrow> money \<Rightarrow> bool res" where
  "money_lt a b = bindR (money_same a b) (\<lambda>_. Inr (amount a < amount b))"

definition money_le :: "money \<Rightarrow> money \<Rightarrow> bool res" where
  "money_le a b = bindR (money_same a b) (\<lambda>_. Inr (amount a \<le> amount b))"

definition money_is_zero :: "money \<Rightarrow> bool" where
  "money_is_zero a \<longleftrightarrow> amount a = 0"

text \<open>\<open>str(m.amount)\<close>: what the postings carry.\<close>

definition amount_str :: "money \<Rightarrow> string" where
  "amount_str m = show_units (units m)"

section \<open>Facts about the operations\<close>

lemma money_eq_iff [simp]: "money_eq a b \<longleftrightarrow> a = b"
  by (cases a; cases b) (auto simp: money_eq_def amount_def)

lemma money_is_zero_iff [simp]: "money_is_zero a \<longleftrightarrow> units a = 0"
  by (simp add: money_is_zero_def amount_def)

lemma money_lt_eq: "money_lt a b = (if currency b = currency a then Inr (units a < units b) else Inl ValueError)"
  by (simp add: money_lt_def money_same_def amount_def divide_less_cancel)

lemma money_le_eq: "money_le a b = (if currency b = currency a then Inr (units a \<le> units b) else Inl ValueError)"
  by (simp add: money_le_def money_same_def amount_def divide_le_cancel)

lemma quantize4_units: "\<bar>u\<bar> < 10 ^ 34 \<Longrightarrow> quantize4 (of_int u / 10000) = Inr u"
  by (simp add: quantize4_def)

lemma quantize4_error: "quantize4 d = Inr u \<Longrightarrow> \<bar>of_int u - d * 10000\<bar> \<le> 1/2 \<and> \<bar>u\<bar> < 10 ^ 34"
  using half_even_error [of "d * 10000"] by (auto simp: quantize4_def Let_def split: if_splits)

lemma of_int_scale4: "(of_int u :: rat) / 10000 = of_int u * 10 powi (- 4)"
  by (simp add: power_int_minus)

text \<open>Rounding a scale-4 number to 34 digits and quantizing it: exact, or refused.\<close>

lemma quantize4_ctx:
  "quantize4 (ctx (of_int u / 10000)) = (if \<bar>u\<bar> < 10 ^ 34 then Inr u else Inl InvalidOperation)"
proof (cases "\<bar>u\<bar> < 10 ^ 34")
  case True
  then have "ctx (of_int u / 10000) = of_int u / 10000"
    unfolding ctx_def of_int_scale4 by (rule round_sig_exact [OF refl])
  then show ?thesis using True by (simp only: quantize4_units if_True)
next
  case False
  let ?x = "(of_int u :: rat) / 10000"
  have "(of_int (10 ^ 34) :: rat) \<le> of_int \<bar>u\<bar>" using False by (simp only: of_int_le_iff not_less)
  then have "10 powi 30 \<le> \<bar>?x\<bar>" by simp
  then have "10 powi 30 \<le> \<bar>ctx ?x\<bar>" unfolding ctx_def by (rule round_sig_ge_pow10) simp
  then have "of_int (10 ^ 34) \<le> \<bar>ctx ?x * 10000\<bar>" by (simp add: abs_mult)
  then have "10 ^ 34 \<le> \<bar>half_even (ctx ?x * 10000)\<bar>"
    using half_even_mono_int [of "10 ^ 34" "ctx ?x * 10000"]
      half_even_le_int [of "ctx ?x * 10000" "- (10 ^ 34)"]
    by (cases "ctx ?x \<ge> 0") simp_all
  then show ?thesis using False by (simp add: quantize4_def Let_def)
qed

lemma money_add_eq:
  "money_add a b =
     (if currency b \<noteq> currency a then Inl ValueError
      else if \<bar>units a + units b\<bar> < 10 ^ 34 then Inr (Mny (units a + units b) (currency a))
      else Inl InvalidOperation)"
proof -
  have "amount a + amount b = of_int (units a + units b) / 10000" by (simp add: amount_def)
  then have "quantize4 (ctx (amount a + amount b)) =
     (if \<bar>units a + units b\<bar> < 10 ^ 34 then Inr (units a + units b) else Inl InvalidOperation)"
    by (simp only: quantize4_ctx)
  then show ?thesis by (simp add: money_add_def money_same_def money_of_def to_decimal_def)
qed

lemma money_sub_eq:
  "money_sub a b =
     (if currency b \<noteq> currency a then Inl ValueError
      else if \<bar>units a - units b\<bar> < 10 ^ 34 then Inr (Mny (units a - units b) (currency a))
      else Inl InvalidOperation)"
proof -
  have "amount a - amount b = of_int (units a - units b) / 10000" by (simp add: amount_def)
  then have "quantize4 (ctx (amount a - amount b)) =
     (if \<bar>units a - units b\<bar> < 10 ^ 34 then Inr (units a - units b) else Inl InvalidOperation)"
    by (simp only: quantize4_ctx)
  then show ?thesis by (simp add: money_sub_def money_same_def money_of_def to_decimal_def)
qed

lemma rnd28_units: "\<bar>u\<bar> < 10 ^ 28 \<Longrightarrow> rnd28 (of_int u / 10000) = of_int u / 10000"
  unfolding rnd28_def of_int_scale4 by (rule round_sig_exact [OF refl])

lemma money_neg_eq:
  "\<bar>units a\<bar> < 10 ^ 28 \<Longrightarrow> money_neg a = Inr (Mny (- units a) (currency a))"
proof -
  assume h: "\<bar>units a\<bar> < 10 ^ 28"
  have "- amount a = of_int (- units a) / 10000" by (simp add: amount_def)
  moreover have "\<bar>- units a\<bar> < 10 ^ 28" using h by simp
  moreover have "\<bar>- units a\<bar> < 10 ^ 34" using h by simp
  ultimately have "quantize4 (rnd28 (- amount a)) = Inr (- units a)"
    by (simp only: rnd28_units quantize4_units)
  then show ?thesis by (simp add: money_neg_def money_of_def to_decimal_def)
qed

lemma money_of_str: "\<bar>units m\<bar> < 10 ^ 34 \<Longrightarrow> money_of (AStr (amount_str m)) (currency m) = Inr m"
  by (simp add: money_of_def to_decimal_def amount_str_def decimal_of_show_units quantize4_units)

lemma money_of_int: "\<bar>i\<bar> < 10 ^ 30 \<Longrightarrow> money_of (AInt i) c = Inr (Mny (i * 10000) c)"
proof -
  assume "\<bar>i\<bar> < 10 ^ 30"
  then have "quantize4 (of_int i) = Inr (i * 10000)"
    using quantize4_units [of "i * 10000"] by (simp add: abs_mult)
  then show ?thesis by (simp add: money_of_def to_decimal_def)
qed

lemma money_zero_eq [simp]: "money_zero c = Inr (Mny 0 c)"
  by (simp add: money_zero_def money_of_int)

lemma money_of_bounded: "money_of a c = Inr m \<Longrightarrow> \<bar>units m\<bar> < 10 ^ 34 \<and> currency m = c"
  by (auto simp: money_of_def res_simps dest!: quantize4_error)

lemma money_of_str_cases:
  "money_of (AStr s) c =
     (case decimal_of_str s of None \<Rightarrow> Inl InvalidOperation
      | Some d \<Rightarrow> bindR (quantize4 d) (\<lambda>u. Inr (Mny u c)))"
  by (simp add: money_of_def to_decimal_def split: option.splits)

section \<open>The largest-remainder split\<close>

definition floor_dec :: "rat \<Rightarrow> rat" where
  "floor_dec r = of_int \<lfloor>r\<rfloor>"

text \<open>\<open>sorted(range(n), key=(raw - floor, -i), reverse=True)\<close>: larger remainder first, then lower index.\<close>

definition remainder_order :: "rat list \<Rightarrow> rat list \<Rightarrow> nat list" where
  "remainder_order raw floors =
     sort_key (\<lambda>i. - rnd28 (raw ! i - floors ! i)) [0..<length raw]"

definition bump :: "nat list \<Rightarrow> rat list \<Rightarrow> nat \<Rightarrow> rat list" where
  "bump order alloc k =
     (let i = order ! (k mod length order) in alloc[i := rnd28 (alloc ! i + 1)])"

definition raw_shares :: "rat \<Rightarrow> rat list \<Rightarrow> rat \<Rightarrow> rat list" where
  "raw_shares u ws tw = map (\<lambda>w. rnd28 (rnd28 (u * w) / tw)) ws"

definition split_alloc :: "rat \<Rightarrow> rat list \<Rightarrow> rat list" where
  "split_alloc u raw =
     (let floors = map floor_dec raw;
          remainder = nat \<lfloor>rnd28 (u - dsum floors)\<rfloor>
      in foldl (bump (remainder_order raw floors)) floors [0..<remainder])"

definition money_split :: "money \<Rightarrow> money_arg list \<Rightarrow> money list res" where
  "money_split tot weights =
     bindR (mapR to_decimal weights) (\<lambda>ws.
       if ws = [] \<or> (\<exists>w \<in> set ws. w < 0) then Inl ValueError
       else let tw = dsum ws in
         if tw = 0 then Inl ValueError
         else let u = of_int (half_even (rnd28 (amount tot / (1/10000))));
                  raw = raw_shares u ws tw
              in mapR (\<lambda>a. money_of (ADecimal (rnd28 (a / 10000))) (currency tot)) (split_alloc u raw))"


subsection \<open>The allocation\<close>

lemma remainder_order_perm:
  "distinct (remainder_order raw fs)" "set (remainder_order raw fs) = {..<length raw}"
  "length (remainder_order raw fs) = length raw"
  by (simp_all add: remainder_order_def atLeast_upt)

text \<open>One unit goes to each of the first \<open>r\<close> indices of the order.\<close>

lemma bump_fold:
  assumes "distinct order" "set order = {..<length fl}" "length order = length fl" "r \<le> length fl"
    and small: "\<And>i. i < length fl \<Longrightarrow> \<bar>fl ! i + 1\<bar> < 10 ^ 28"
  shows "foldl (bump order) (map of_int fl) [0..<r]
         = map (\<lambda>i. of_int (fl ! i + (if i \<in> set (take r order) then 1 else 0))) [0..<length fl]"
  using assms(4)
proof (induction r)
  case 0
  then show ?case by (intro nth_equalityI) simp_all
next
  case (Suc r)
  then have r: "r < length order" using assms(3) by simp
  let ?i = "order ! r"
  have i: "?i < length fl" using r assms(2) nth_mem by fastforce
  have new: "?i \<notin> set (take r order)"
    using assms(1) r by (metis distinct_take in_set_conv_nth length_take min.absorb4 nth_eq_iff_index_eq
      nth_take order_less_imp_not_eq order_less_trans)
  have tk: "set (take (Suc r) order) = insert ?i (set (take r order))"
    using r by (simp add: take_Suc_conv_app_nth)
  have one: "rnd28 (of_int (fl ! ?i) + 1) = of_int (fl ! ?i + 1)"
    using rnd28_int [OF small [OF i]] by simp
  have "foldl (bump order) (map of_int fl) [0..<Suc r]
        = bump order (map (\<lambda>i. of_int (fl ! i + (if i \<in> set (take r order) then 1 else 0))) [0..<length fl]) r"
    using Suc by simp
  also have "\<dots> = map (\<lambda>i. of_int (fl ! i + (if i \<in> set (take (Suc r) order) then 1 else 0))) [0..<length fl]"
    using i new r one tk by (intro nth_equalityI) (auto simp: bump_def Let_def nth_list_update)
  finally show ?case .
qed

lemma sum_indicator:
  "sum_list (map (\<lambda>i. f i + (if i \<in> A then 1 else (0::int))) [0..<n])
   = sum_list (map f [0..<n]) + int (card (A \<inter> {..<n}))"
proof (induction n)
  case (Suc n)
  have "A \<inter> {..<Suc n} = (if n \<in> A then insert n (A \<inter> {..<n}) else A \<inter> {..<n})"
    by (auto simp: less_Suc_eq)
  then show ?case using Suc by simp
qed simp

text \<open>
  When the shares are close enough to exact ones that their floors cannot exceed the whole, the
  allocation gives back the whole and moves no share by more than one unit.
\<close>

lemma split_alloc_exact:
  assumes "raw \<noteq> []" and u: "\<bar>u\<bar> \<le> 10 ^ 26" and len: "length raw < 10 ^ 26"
    and near: "\<bar>sum_list raw - of_int u\<bar> < 1"
    and small: "sum_list (map abs raw) \<le> 10 ^ 27"
  obtains as where "split_alloc (of_int u) raw = map of_int as" "length as = length raw"
    "sum_list as = u" "\<And>i. i < length raw \<Longrightarrow> as ! i = \<lfloor>raw ! i\<rfloor> \<or> as ! i = \<lfloor>raw ! i\<rfloor> + 1"
proof -
  let ?fl = "map floor raw"
  have fl: "map floor_dec raw = map of_int ?fl" by (simp add: floor_dec_def)
  have bnd: "\<bar>raw ! i\<bar> \<le> 10 ^ 27" if "i < length raw" for i
  proof -
    have "\<bar>raw ! i\<bar> \<le> sum_list (map abs raw)"
      using that by (intro member_le_sum_list) auto
    then show ?thesis using small by linarith
  qed
  have lo: "sum_list (map of_int ?fl) \<le> sum_list raw"
    by (simp add: comp_def) (induction raw; force intro: add_mono)
  have hi: "sum_list raw < sum_list (map of_int ?fl) + of_nat (length raw)"
    using \<open>raw \<noteq> []\<close>
  proof (induction raw rule: list_nonempty_induct)
    case (single x)
    then show ?case by simp linarith
  next
    case (cons x xs)
    have "x < of_int \<lfloor>x\<rfloor> + 1" by linarith
    then show ?case using cons by simp
  qed
  have sums: "(of_int (sum_list ks) :: rat) = sum_list (map of_int ks)" for ks
    by (induction ks) auto
  define d where "d = u - sum_list ?fl"
  have "(of_int d :: rat) > - 1" "(of_int d :: rat) < of_nat (length raw) + 1"
    using lo hi near by (simp_all add: d_def sums abs_less_iff)
  then have d0: "0 \<le> d" and d1: "d \<le> int (length raw)"
    by (metis of_int_1 of_int_less_iff of_int_minus zle_add1_eq_le add.left_inverse zless_imp_add1_zle, linarith)
  have sumabs: "(of_int (sum_list (map abs ?fl)) :: rat) \<le> sum_list (map abs raw) + of_nat (length raw)"
  proof (induction raw)
    case (Cons x xs)
    have "(of_int \<bar>\<lfloor>x\<rfloor>\<bar> :: rat) \<le> \<bar>x\<bar> + 1" by linarith
    then show ?case using Cons by simp
  qed simp
  have "(of_nat (length raw) :: rat) < 10 ^ 26" using len by (metis of_nat_less_iff of_nat_numeral of_nat_power)
  then have "(of_int (sum_list (map abs ?fl)) :: rat) < of_int (10 ^ 28)" using sumabs small by simp
  then have absfl: "sum_list (map abs ?fl) < 10 ^ 28" by (simp only: of_int_less_iff)
  have sm: "dsum (map of_int ?fl) = of_int (sum_list ?fl)" using absfl by (rule dsum_int)
  have "int (length raw) < 10 ^ 26" using len by (metis of_nat_less_iff of_nat_numeral of_nat_power)
  then have "\<bar>d\<bar> < 10 ^ 28" using d0 d1 by simp
  then have "rnd28 (of_int u - of_int (sum_list ?fl)) = of_int d"
    by (simp only: d_def rnd28_int flip: of_int_diff)
  then have rem: "nat \<lfloor>rnd28 (of_int u - dsum (map floor_dec raw))\<rfloor> = nat d"
    by (simp only: fl sm floor_of_int)
  let ?o = "remainder_order raw (map floor_dec raw)"
  define A where "A = set (take (nat d) ?o)"
  define as where "as = map (\<lambda>i. ?fl ! i + (if i \<in> A then 1 else 0)) [0..<length raw]"
  have fsmall: "\<bar>?fl ! i + 1\<bar> < 10 ^ 28" if "i < length ?fl" for i
  proof -
    have "(of_int \<bar>\<lfloor>raw ! i\<rfloor> + 1\<bar> :: rat) \<le> \<bar>raw ! i\<bar> + 1" by linarith
    also have "\<dots> < of_int (10 ^ 28)" using bnd [of i] that by simp
    finally have "\<bar>\<lfloor>raw ! i\<rfloor> + 1\<bar> < 10 ^ 28" by (simp only: of_int_less_iff)
    then show ?thesis using that by simp
  qed
  have "split_alloc (of_int u) raw = foldl (bump ?o) (map of_int ?fl) [0..<nat d]"
    using rem by (simp add: split_alloc_def Let_def fl)
  also have "\<dots> = map (\<lambda>i. of_int (?fl ! i + (if i \<in> set (take (nat d) ?o) then 1 else 0))) [0..<length ?fl]"
    using d1 fsmall remainder_order_perm by (intro bump_fold) auto
  also have "\<dots> = map of_int as" by (simp add: as_def A_def)
  finally have 1: "split_alloc (of_int u) raw = map of_int as" .
  have "A \<subseteq> {..<length raw}" using remainder_order_perm(2) set_take_subset by (metis A_def)
  then have "A \<inter> {..<length raw} = A" by blast
  moreover have "card A = nat d"
    using remainder_order_perm d0 d1 by (simp add: A_def distinct_card)
  moreover have "map (\<lambda>i. ?fl ! i) [0..<length raw] = ?fl" by (metis length_map map_nth)
  ultimately have 2: "sum_list as = u" using d0 by (simp add: as_def sum_indicator d_def)
  show ?thesis by (rule that [OF 1 _ 2]) (simp_all add: as_def)
qed

subsection \<open>The shares\<close>

lemma rnd28_error: "\<bar>rnd28 x - x\<bar> \<le> \<bar>x\<bar> * (1 / 10 ^ 27)"
proof -
  have "10 powi (1 - int 28) = (1::rat) / 10 ^ 27" by (simp add: power_int_minus inverse_eq_divide)
  then show ?thesis using round_sig_error [of 28 x] by (simp add: rnd28_def)
qed

lemma rnd28_nonneg: "0 \<le> x \<Longrightarrow> 0 \<le> rnd28 x"
  using rnd28_error [of x] by (cases "rnd28 x < 0") auto

lemma share_error:
  assumes "W > 0"
  shows "\<bar>rnd28 (rnd28 (u * w) / W) - u * w / W\<bar> \<le> \<bar>u * w / W\<bar> * (3 / 10 ^ 27)"
proof -
  define e :: rat where "e = 1 / 10 ^ 27"
  define y where "y = rnd28 (u * w) / W"
  define q where "q = u * w / W"
  have yq: "\<bar>y - q\<bar> \<le> \<bar>q\<bar> * e"
  proof -
    have "\<bar>rnd28 (u * w) - u * w\<bar> / W \<le> \<bar>u * w\<bar> * e / W"
      using rnd28_error [of "u * w"] assms by (intro divide_right_mono) (simp_all add: e_def)
    moreover have "y - q = (rnd28 (u * w) - u * w) / W" by (simp add: y_def q_def diff_divide_distrib)
    ultimately show ?thesis using assms by (simp add: q_def abs_divide)
  qed
  have "\<bar>y\<bar> \<le> \<bar>q\<bar> * 2"
  proof -
    have "\<bar>q\<bar> * e \<le> \<bar>q\<bar> * 1" by (intro mult_left_mono) (simp_all add: e_def)
    then show ?thesis using yq by linarith
  qed
  then have "\<bar>y\<bar> * e \<le> \<bar>q\<bar> * 2 * e" by (intro mult_right_mono) (simp_all add: e_def)
  moreover have "\<bar>rnd28 y - y\<bar> \<le> \<bar>y\<bar> * e" using rnd28_error [of y] by (simp add: e_def)
  ultimately have "\<bar>rnd28 y - q\<bar> \<le> \<bar>q\<bar> * (3 * e)" using yq by linarith
  then show ?thesis by (simp add: y_def q_def e_def)
qed

lemma dsum_scaled:
  "sum_list (map abs ks) < 10 ^ 28 \<Longrightarrow>
   dsum (map (\<lambda>k. of_int k * 10 powi j) ks) = of_int (sum_list ks) * 10 powi j"
proof -
  have "\<bar>a\<bar> + sum_list (map abs ks) < 10 ^ 28 \<Longrightarrow>
    dsum_from (of_int a * 10 powi j) (map (\<lambda>k. of_int k * 10 powi j) ks)
    = of_int (a + sum_list ks) * 10 powi j" for a
  proof (induction ks arbitrary: a)
    case (Cons k ks)
    have nn: "0 \<le> sum_list (map abs ks)" by (induction ks) auto
    have "\<bar>a + k\<bar> < 10 ^ 28" using Cons.prems nn abs_triangle_ineq [of a k] by simp
    then have "rnd28 (of_int (a + k) * 10 powi j) = of_int (a + k) * 10 powi j"
      unfolding rnd28_def by (rule round_sig_exact [OF refl])
    moreover have "\<bar>a + k\<bar> + sum_list (map abs ks) < 10 ^ 28"
      using Cons.prems abs_triangle_ineq [of a k] by simp
    ultimately show ?case using Cons.IH [of "a + k"] by (simp add: algebra_simps)
  qed simp
  from this [of 0] show "sum_list (map abs ks) < 10 ^ 28 \<Longrightarrow> ?thesis" by (simp add: dsum_def)
qed

lemma sum_list_bounds:
  assumes "\<And>x. x \<in> set xs \<Longrightarrow> \<bar>f x - g x\<bar> \<le> h x * (c::rat)"
  shows "\<bar>sum_list (map f xs) - sum_list (map g xs)\<bar> \<le> sum_list (map h xs) * c"
  using assms
proof (induction xs)
  case (Cons x xs)
  have "\<bar>f x - g x\<bar> \<le> h x * c" using Cons.prems by simp
  moreover have "\<bar>sum_list (map f xs) - sum_list (map g xs)\<bar> \<le> sum_list (map h xs) * c"
    using Cons by simp
  ultimately show ?case
    using abs_triangle_ineq [of "f x - g x" "sum_list (map f xs) - sum_list (map g xs)"]
    by (simp add: algebra_simps)
qed simp

lemma raw_shares_near:
  fixes j :: int
  assumes ks: "\<forall>k \<in> set ks. 0 \<le> k" and "sum_list ks > 0" and u: "\<bar>u\<bar> \<le> 10 ^ 26"
  defines "ws \<equiv> map (\<lambda>k. of_int k * 10 powi j) ks"
  defines "W \<equiv> of_int (sum_list ks) * (10 powi j :: rat)"
  shows "\<bar>sum_list (raw_shares (of_int u) ws W) - of_int u\<bar> < 1"
    and "sum_list (map abs (raw_shares (of_int u) ws W)) \<le> 10 ^ 27"
    and "i < length ks \<Longrightarrow>
         \<bar>raw_shares (of_int u) ws W ! i - of_int u * of_int (ks ! i) / of_int (sum_list ks)\<bar> < 1"
proof -
  let ?r = "\<lambda>k. rnd28 (rnd28 (of_int u * (of_int k * 10 powi j)) / W)"
  let ?q = "\<lambda>k. of_int u * of_int k / (of_int (sum_list ks) :: rat)"
  have W: "W > 0" using assms(2) by (simp add: W_def)
  have raw: "raw_shares (of_int u) ws W = map ?r ks" by (simp add: raw_shares_def ws_def)
  have q: "of_int u * (of_int k * 10 powi j) / W = ?q k" for k by (simp add: W_def)
  have err: "\<bar>?r k - ?q k\<bar> \<le> \<bar>?q k\<bar> * (3 / 10 ^ 27)" for k
    using share_error [OF W, of "of_int u" "of_int k * 10 powi j"] by (simp only: q)
  have S: "(of_int (sum_list xs) :: rat) = sum_list (map of_int xs)" for xs by (induction xs) auto
  have u': "\<bar>of_int u :: rat\<bar> \<le> 10 ^ 26"
  proof -
    have "(of_int \<bar>u\<bar> :: rat) \<le> of_int (10 ^ 26)" using u by (simp only: of_int_le_iff)
    then show ?thesis by simp
  qed
  have sq: "sum_list (map (\<lambda>k. c * of_int k / of_int (sum_list ks)) ks) = (c::rat)" for c
  proof -
    have "sum_list (map (\<lambda>k. c * of_int k / of_int (sum_list ks)) ks)
          = c / of_int (sum_list ks) * sum_list (map of_int ks)"
      by (simp add: sum_list_const_mult [symmetric] mult.commute divide_inverse mult.left_commute)
    then show ?thesis using assms(2) by (simp flip: S)
  qed
  have absq: "\<bar>?q k\<bar> = \<bar>of_int u\<bar> * of_int k / of_int (sum_list ks)" if "k \<in> set ks" for k
    using that ks assms(2) by (simp add: abs_mult abs_divide)
  then have sabs: "sum_list (map (\<lambda>k. \<bar>?q k\<bar>) ks) = \<bar>of_int u\<bar>"
    using sq [of "\<bar>of_int u\<bar>"] by (simp cong: map_cong)
  have "\<bar>sum_list (map ?r ks) - sum_list (map ?q ks)\<bar> \<le> sum_list (map (\<lambda>k. \<bar>?q k\<bar>) ks) * (3 / 10 ^ 27)"
    by (rule sum_list_bounds) (rule err)
  then show "\<bar>sum_list (raw_shares (of_int u) ws W) - of_int u\<bar> < 1"
    unfolding raw sq sabs using u' by simp
  have "\<bar>sum_list (map (\<lambda>k. \<bar>?r k\<bar>) ks) - sum_list (map (\<lambda>k. \<bar>?q k\<bar>) ks)\<bar>
        \<le> sum_list (map (\<lambda>k. \<bar>?q k\<bar>) ks) * (3 / 10 ^ 27)"
    by (rule sum_list_bounds) (metis (no_types) abs_triangle_ineq3 err order_trans)
  then show "sum_list (map abs (raw_shares (of_int u) ws W)) \<le> 10 ^ 27"
  proof -
    have "\<bar>of_int u\<bar> * (3 / 10 ^ 27) \<le> (1::rat)" using u' by simp
    moreover have "(10::rat) ^ 26 + 1 \<le> 10 ^ 27" by simp
    ultimately have "sum_list (map (\<lambda>k. \<bar>?r k\<bar>) ks) \<le> 10 ^ 27" if "\<bar>sum_list (map (\<lambda>k. \<bar>?r k\<bar>) ks) - \<bar>of_int u\<bar>\<bar> \<le> \<bar>of_int u\<bar> * (3 / 10 ^ 27)"
      using u' that unfolding abs_le_iff by linarith
    then show ?thesis if "\<bar>sum_list (map (\<lambda>k. \<bar>?r k\<bar>) ks) - sum_list (map (\<lambda>k. \<bar>?q k\<bar>) ks)\<bar>
        \<le> sum_list (map (\<lambda>k. \<bar>?q k\<bar>) ks) * (3 / 10 ^ 27)"
      using that by (simp only: sabs raw map_map comp_def)
  qed
  show "\<bar>raw_shares (of_int u) ws W ! i - of_int u * of_int (ks ! i) / of_int (sum_list ks)\<bar> < 1"
    if i: "i < length ks"
  proof -
    have "\<bar>?q (ks ! i)\<bar> \<le> sum_list (map (\<lambda>k. \<bar>?q k\<bar>) ks)"
      using i by (intro member_le_sum_list) auto
    then have "\<bar>?q (ks ! i)\<bar> \<le> 10 ^ 26" using u' unfolding sabs by linarith
    then have "\<bar>?q (ks ! i)\<bar> * (3 / 10 ^ 27) \<le> 10 ^ 26 * (3 / 10 ^ 27)" by (rule mult_right_mono) simp
    also have "\<dots> < 1" by simp
    finally have "\<bar>?r (ks ! i) - ?q (ks ! i)\<bar> < 1" using err [of "ks ! i"] by (rule order.strict_trans1 [rotated])
    then show ?thesis using i by (simp only: raw nth_map)
  qed
qed

subsection \<open>The split returns the whole\<close>

lemma mapR_money_of_units:
  "(\<And>a. a \<in> set as \<Longrightarrow> \<bar>a\<bar> < 10 ^ 28) \<Longrightarrow>
   mapR (\<lambda>a. money_of (ADecimal (rnd28 (a / 10000))) c) (map of_int as) = Inr (map (\<lambda>a. Mny a c) as)"
proof (induction as)
  case (Cons a as)
  have "\<bar>a\<bar> < 10 ^ 28" using Cons.prems by simp
  then have "quantize4 (rnd28 (of_int a / 10000)) = Inr a"
    by (simp only: rnd28_units) (rule quantize4_units, simp)
  then show ?case using Cons by (simp add: money_of_def to_decimal_def)
qed simp

lemma split_units:
  assumes "\<bar>units t\<bar> \<le> 10 ^ 26"
  shows "half_even (rnd28 (amount t / (1/10000))) = units t"
proof -
  have "amount t / (1/10000) = of_int (units t)" by (simp add: amount_def)
  moreover have "\<bar>units t\<bar> < 10 ^ 28" using assms by simp
  ultimately show ?thesis by (simp only: rnd28_int half_even_of_int)
qed

lemma abs_floor_bound:
  "\<bar>r\<bar> \<le> (10::rat) ^ 27 \<Longrightarrow> a = \<lfloor>r\<rfloor> \<or> a = \<lfloor>r\<rfloor> + 1 \<Longrightarrow> \<bar>a\<bar> < 10 ^ 28"
proof -
  assume "\<bar>r\<bar> \<le> (10::rat) ^ 27" and a: "a = \<lfloor>r\<rfloor> \<or> a = \<lfloor>r\<rfloor> + 1"
  then have "r \<le> of_int (10 ^ 27)" "of_int (- (10 ^ 27)) \<le> r" by (auto simp: abs_le_iff)
  then have "\<lfloor>r\<rfloor> \<le> 10 ^ 27" "- (10 ^ 27) \<le> \<lfloor>r\<rfloor>" by (metis floor_mono floor_of_int, simp only: le_floor_iff)
  moreover have "(10::int) ^ 27 + 1 < 10 ^ 28" by simp
  ultimately show ?thesis using a by linarith
qed

lemma close_floor:
  "\<bar>r - q\<bar> < 1 \<Longrightarrow> a = \<lfloor>r\<rfloor> \<or> a = \<lfloor>r\<rfloor> + 1 \<Longrightarrow> \<bar>of_int a - q\<bar> < (2::rat)"
  by (auto simp: abs_less_iff) linarith+

lemma money_split_parts:
  fixes j :: int
  assumes ws: "mapR to_decimal weights = Inr (map (\<lambda>k. of_int k * 10 powi j) ks)"
    and ks: "\<forall>k \<in> set ks. 0 \<le> k" and pos: "0 < sum_list ks" "sum_list ks < 10 ^ 28"
    and t: "\<bar>units t\<bar> \<le> 10 ^ 26" and len: "length ks < 10 ^ 26"
  shows "\<exists>as. money_split t weights = Inr (map (\<lambda>a. Mny a (currency t)) as)
              \<and> length as = length ks \<and> sum_list as = units t
              \<and> (\<forall>i < length ks. \<bar>of_int (as ! i) - of_int (units t) * of_int (ks ! i) / of_int (sum_list ks)\<bar> < (2::rat))
              \<and> (0 \<le> units t \<longrightarrow> (\<forall>a \<in> set as. 0 \<le> a))"
proof -
  let ?ws = "map (\<lambda>k. of_int k * 10 powi j) ks :: rat list"
  let ?W = "of_int (sum_list ks) * 10 powi j :: rat"
  let ?raw = "raw_shares (of_int (units t)) ?ws ?W"
  have ne: "ks \<noteq> []" using pos by auto
  have "0 \<le> (of_int k :: rat) * 10 powi j" if "k \<in> set ks" for k
    using that ks by (intro mult_nonneg_nonneg) (auto intro: less_imp_le)
  then have neg: "\<not> (\<exists>w \<in> set ?ws. w < 0)" by (auto simp: not_less)
  have "sum_list (map abs ks) = sum_list ks" using ks by (simp add: map_idI)
  then have tw: "dsum ?ws = ?W" using pos by (intro dsum_scaled) simp
  note near = raw_shares_near [OF ks pos(1) t, where j = j]
  have raw: "?raw \<noteq> []" "length ?raw = length ks" using ne by (simp_all add: raw_shares_def)
  have "length ?raw < 10 ^ 26" using len raw by simp
  from split_alloc_exact [OF raw(1) t this near(1,2)]
  obtain as where as: "split_alloc (of_int (units t)) ?raw = map of_int as" "length as = length ?raw"
    "sum_list as = units t"
    "\<And>i. i < length ?raw \<Longrightarrow> as ! i = \<lfloor>?raw ! i\<rfloor> \<or> as ! i = \<lfloor>?raw ! i\<rfloor> + 1" by blast
  have close: "\<bar>of_int (as ! i) - of_int (units t) * of_int (ks ! i) / of_int (sum_list ks)\<bar> < (2::rat)"
    if "i < length ks" for i
  proof (rule close_floor [OF near(3) [OF that]])
    show "as ! i = \<lfloor>?raw ! i\<rfloor> \<or> as ! i = \<lfloor>?raw ! i\<rfloor> + 1" using as(4) that raw(2) by simp
  qed
  have small: "\<bar>a\<bar> < 10 ^ 28" if "a \<in> set as" for a
  proof -
    from that obtain i where "i < length as" "as ! i = a" unfolding in_set_conv_nth by blast
    then have i: "i < length ?raw" "a = as ! i" using as(2) by simp_all
    have "\<bar>?raw ! i\<bar> \<le> sum_list (map abs ?raw)" using i by (intro member_le_sum_list) auto
    then have "\<bar>?raw ! i\<bar> \<le> 10 ^ 27" using near(2) by linarith
    then show ?thesis by (rule abs_floor_bound) (use as(4) [OF i(1)] i(2) in simp)
  qed
  have nonneg: "0 \<le> a" if "0 \<le> units t" "a \<in> set as" for a
  proof -
    from that(2) obtain i where i: "i < length ?raw" "as ! i = a" using as(2) unfolding in_set_conv_nth by auto
    have "0 \<le> w" if "w \<in> set ?ws" for w using neg that by (meson not_less)
    moreover have "0 \<le> ?W" using pos(1) by (intro mult_nonneg_nonneg) (auto intro: less_imp_le)
    ultimately have "0 \<le> rnd28 (rnd28 (of_int (units t) * w) / ?W)" if "w \<in> set ?ws" for w
      using that \<open>0 \<le> units t\<close> by (meson rnd28_nonneg divide_nonneg_nonneg mult_nonneg_nonneg of_int_0_le_iff)
    then have "0 \<le> r" if "r \<in> set ?raw" for r using that unfolding raw_shares_def by auto
    then have "0 \<le> \<lfloor>?raw ! i\<rfloor>" using i(1) by simp
    then show ?thesis using as(4) [OF i(1)] i(2) by auto
  qed
  have "money_split t weights = Inr (map (\<lambda>a. Mny a (currency t)) as)"
    using ws ne neg tw pos(1) as(1) split_units [OF t] mapR_money_of_units [OF small]
    by (simp add: money_split_def Let_def)
  then show ?thesis using as(2,3) raw(2) close nonneg by auto
qed

text \<open>
  C28: \<open>split\<close> never creates or loses money: for a total of at most 10^26 units (10^22
  currency units) and non-negative weights that are decimals of a common scale with a sum of at
  most 28 digits, it returns one part per weight in the total's currency, the parts add up to
  the total exactly, no part of a non-negative total is negative, and each part is less than two
  units from its exact proportional share.
\<close>

theorem money_split_exact:
  fixes j :: int
  assumes "mapR to_decimal weights = Inr (map (\<lambda>k. of_int k * 10 powi j) ks)"
    and "\<forall>k \<in> set ks. 0 \<le> k" and "0 < sum_list ks" and "sum_list ks < 10 ^ 28"
    and "\<bar>units t\<bar> \<le> 10 ^ 26" and "length ks < 10 ^ 26"
  shows "\<exists>parts. money_split t weights = Inr parts
     \<and> length parts = length ks \<and> sum_list (map units parts) = units t
     \<and> (\<forall>p \<in> set parts. currency p = currency t \<and> (0 \<le> units t \<longrightarrow> 0 \<le> units p))
     \<and> (\<forall>i < length ks. \<bar>of_int (units (parts ! i))
             - of_int (units t) * of_int (ks ! i) / of_int (sum_list ks)\<bar> < (2::rat))"
proof -
  obtain as where "money_split t weights = Inr (map (\<lambda>a. Mny a (currency t)) as)"
    "length as = length ks" "sum_list as = units t"
    "\<forall>i < length ks. \<bar>of_int (as ! i) - of_int (units t) * of_int (ks ! i) / of_int (sum_list ks)\<bar> < (2::rat)"
    "0 \<le> units t \<longrightarrow> (\<forall>a \<in> set as. 0 \<le> a)"
    using money_split_parts [OF assms] by blast
  then show ?thesis by (intro exI [of _ "map (\<lambda>a. Mny a (currency t)) as"]) (auto simp: comp_def)
qed

text \<open>One dollar between three equal claimants, and weights written as decimals.\<close>

theorem money_split_exact_witness:
  "\<exists>parts. money_split (Mny 10000 ''USD'') [AInt 1, AInt 1, AInt 1] = Inr parts
     \<and> length parts = 3 \<and> sum_list (map units parts) = 10000"
  using money_split_exact [of "[AInt 1, AInt 1, AInt 1]" 0 "[1, 1, 1]" "Mny 10000 ''USD''"]
  by (auto simp: to_decimal_def)

text \<open>
  Addition of two amounts succeeds exactly when the currencies agree and the sum stays below
  34 digits of 0.0001 units, and then it is the exact sum: there is no silent rounding, and a
  mismatch or an overflow raises.
\<close>

theorem money_add_exact:
  "money_add a b = Inr c \<longleftrightarrow>
     currency a = currency b \<and> \<bar>units a + units b\<bar> < 10 ^ 34
     \<and> c = Mny (units a + units b) (currency a)"
  by (auto simp: money_add_eq)

text \<open>
  the text of an amount that the postings carry reads back as the same amount.
\<close>

theorem amount_str_roundtrip:
  "money_of a c = Inr m \<Longrightarrow> money_of (AStr (amount_str m)) c = Inr m"
  using money_of_bounded [of a c m] money_of_str [of m] by auto

theorem amount_str_roundtrip_witness:
  "money_of (AStr (amount_str (Mny (-12345) ''EUR''))) ''EUR'' = Inr (Mny (-12345) ''EUR'')"
  by (rule amount_str_roundtrip [of "ADecimal (- 12345 / 10000)"])
    (simp add: money_of_def to_decimal_def quantize4_def half_even_def Let_def)

text \<open>
  Above 28 digits the split works in the interpreter's default decimal context and loses the last
  digit of the total.
\<close>

lemma rnd28_29_digits: "rnd28 (of_int (10 ^ 28 + 1)) = of_int (10 ^ 28)"
proof -
  have "rnd28 (of_int (10 ^ 28 + 1)) = of_int (half_even (of_int (10 ^ 28 + 1) / 10)) * 10"
    unfolding rnd28_def by (subst round_sig_eqI [where m = 28]) simp_all
  also have "half_even (of_int (10 ^ 28 + 1) / 10) = 10 ^ 27" by (rule half_even_eqI) simp
  finally show ?thesis by simp
qed

lemma money_split_loses_digits:
  "money_split (Mny (10 ^ 28 + 1) ''USD'') [AInt 1] = Inr [Mny (10 ^ 28) ''USD'']"
proof -
  have u: "amount (Mny (10 ^ 28 + 1) ''USD'') / (1/10000) = of_int (10 ^ 28 + 1)" by (simp add: amount_def)
  have r: "rnd28 (of_int (10 ^ 28)) = of_int (10 ^ 28)"
    unfolding rnd28_def by (rule round_sig_exact [of _ 1 28]) simp_all
  have o: "rnd28 1 = 1" "rnd28 0 = 0" using rnd28_int [of 1] rnd28_int [of 0] by simp_all
  have tw: "dsum [of_int 1] = 1" using dsum_int [of "[1]"] by simp
  have raw: "raw_shares (of_int (10 ^ 28)) [1] 1 = [of_int (10 ^ 28)]" using r by (simp add: raw_shares_def)
  have d: "dsum [of_int (10 ^ 28)] = of_int (10 ^ 28)" using r by (simp add: dsum_def)
  have al: "split_alloc (of_int (10 ^ 28)) [of_int (10 ^ 28)] = [of_int (10 ^ 28)]"
    using d o by (simp add: split_alloc_def floor_dec_def)
  have "rnd28 (of_int (10 ^ 28) / 10000) = of_int (10 ^ 28) / 10000"
    unfolding rnd28_def by (rule round_sig_exact [of _ 1 24]) simp_all
  then have m: "money_of (ADecimal (rnd28 (of_int (10 ^ 28) / 10000))) ''USD'' = Inr (Mny (10 ^ 28) ''USD'')"
    using quantize4_units [of "10 ^ 28"] by (simp add: money_of_def to_decimal_def)
  show ?thesis
    unfolding money_split_def u rnd28_29_digits half_even_of_int using tw raw al m
    by (simp add: to_decimal_def Let_def)
qed

end
