(* ===== verification/Json.thy ===== *)
theory Json
  imports Prelude
begin

text \<open>
  JSON values and \<open>src/infra/cwp/canonical.py\<close>: the RFC 8785 canonical text every digest of
  the code is taken over. Objects are dictionaries in insertion order. Characters are the code
  points below 256 of the type \<open>char\<close>, for which the order of UTF-16 code units is the order
  of code points; doubles are not JSON values of the model. \<open>H\<close> stands for the hexadecimal
  SHA-256 of a text and is a parameter wherever it occurs.
\<close>

section \<open>Values\<close>

datatype json =
    JNull
  | JBool bool
  | JInt int
  | JStr string
  | JList "json list"
  | JObj "(string, json) dict"

text \<open>\<open>o.get(k)\<close> of a dictionary, with \<open>None\<close> for a missing key.\<close>

definition jget :: "json \<Rightarrow> string \<Rightarrow> json" where
  "jget j k = (case j of JObj kvs \<Rightarrow> (case dget kvs k of Some v \<Rightarrow> v | None \<Rightarrow> JNull) | _ \<Rightarrow> JNull)"

definition is_obj :: "json \<Rightarrow> bool" where
  "is_obj j = (case j of JObj _ \<Rightarrow> True | _ \<Rightarrow> False)"

definition obj_members :: "json \<Rightarrow> (string, json) dict" where
  "obj_members j = (case j of JObj kvs \<Rightarrow> kvs | _ \<Rightarrow> [])"

definition jhas :: "json \<Rightarrow> string \<Rightarrow> bool" where
  "jhas j k \<longleftrightarrow> dget (obj_members j) k \<noteq> None"

definition jget_or :: "json \<Rightarrow> string \<Rightarrow> json \<Rightarrow> json" where
  "jget_or j k d = (case dget (obj_members j) k of Some v \<Rightarrow> v | None \<Rightarrow> d)"

text \<open>\<open>o[k]\<close>, which raises for a missing key.\<close>

definition item :: "json \<Rightarrow> string \<Rightarrow> json res" where
  "item j k = (case dget (obj_members j) k of Some v \<Rightarrow> Inr v | None \<Rightarrow> Inl KeyError)"

text \<open>Python's truth value of a JSON value.\<close>

fun truthy :: "json \<Rightarrow> bool" where
  "truthy JNull = False"
| "truthy (JBool b) = b"
| "truthy (JInt i) = (i \<noteq> 0)"
| "truthy (JStr s) = (s \<noteq> [])"
| "truthy (JList xs) = (xs \<noteq> [])"
| "truthy (JObj kvs) = (kvs \<noteq> [])"

section \<open>Canonical text\<close>

abbreviation "ch_quote \<equiv> CHR 0x22"
abbreviation "ch_back \<equiv> CHR 0x5C"

definition hex_digit :: "nat \<Rightarrow> char" where
  "hex_digit d = ''0123456789abcdef'' ! d"

definition escape_char :: "char \<Rightarrow> string" where
  "escape_char c =
     (if c = ch_quote then [ch_back, ch_quote]
      else if c = ch_back then [ch_back, ch_back]
      else if c = CHR 0x08 then [ch_back, CHR ''b'']
      else if c = CHR 0x09 then [ch_back, CHR ''t'']
      else if c = CHR 0x0A then [ch_back, CHR ''n'']
      else if c = CHR 0x0C then [ch_back, CHR ''f'']
      else if c = CHR 0x0D then [ch_back, CHR ''r'']
      else if of_char c < (32::nat) then
        [ch_back, CHR ''u'', CHR ''0'', CHR ''0'', hex_digit (of_char c div 16), hex_digit (of_char c mod 16)]
      else [c])"

definition escape :: "string \<Rightarrow> string" where
  "escape s = [ch_quote] @ concat (map escape_char s) @ [ch_quote]"

fun join_comma :: "string list \<Rightarrow> string" where
  "join_comma [] = []"
| "join_comma [s] = s"
| "join_comma (s # t # r) = s @ '','' @ join_comma (t # r)"

text \<open>The members are sorted by key; the sort is stable.\<close>

fun canonicalize :: "json \<Rightarrow> string" where
  "canonicalize (JBool b) = (if b then ''true'' else ''false'')"
| "canonicalize JNull = ''null''"
| "canonicalize (JStr s) = escape s"
| "canonicalize (JInt i) = show_int i"
| "canonicalize (JList xs) = ''['' @ join_comma (map canonicalize xs) @ '']''"
| "canonicalize (JObj kvs) =
     ''{'' @ join_comma (map (\<lambda>(k, t). escape k @ '':'' @ t)
                          (sort_key fst (map (\<lambda>(k, v). (k, canonicalize v)) kvs))) @ ''}''"

definition digest :: "(string \<Rightarrow> string) \<Rightarrow> json \<Rightarrow> string" where
  "digest H j = H (canonicalize j)"

section \<open>The canonical text determines the value\<close>

text \<open>The value with the members of every object in canonical order.\<close>

fun jnorm :: "json \<Rightarrow> json" where
  "jnorm (JList xs) = JList (map jnorm xs)"
| "jnorm (JObj kvs) = JObj (sort_key fst (map (\<lambda>(k, v). (k, jnorm v)) kvs))"
| "jnorm v = v"

fun render :: "json \<Rightarrow> string" where
  "render (JBool b) = (if b then ''true'' else ''false'')"
| "render JNull = ''null''"
| "render (JStr s) = escape s"
| "render (JInt i) = show_int i"
| "render (JList xs) = ''['' @ join_comma (map render xs) @ '']''"
| "render (JObj kvs) = ''{'' @ join_comma (map (\<lambda>(k, v). escape k @ '':'' @ render v) kvs) @ ''}''"

lemma sort_key_map_snd:
  "sort_key fst (map (\<lambda>(k, v). (k, f v)) kvs) = map (\<lambda>(k, v). (k, f v)) (sort_key fst kvs)"
proof -
  have ins: "insort_key fst (k, f v) (map (\<lambda>(k, v). (k, f v)) xs)
             = map (\<lambda>(k, v). (k, f v)) (insort_key fst (k, v) xs)" for k v xs
    by (induction xs) auto
  show ?thesis by (induction kvs) (auto simp: ins)
qed

lemma canonicalize_render: "canonicalize v = render (jnorm v)"
proof (induction v rule: jnorm.induct)
  case (1 xs)
  then show ?case by (simp add: comp_def cong: map_cong)
next
  case (2 kvs)
  have "map (\<lambda>(k, v). (k, canonicalize v)) kvs
        = map (\<lambda>(k, v). (k, render v)) (map (\<lambda>(k, v). (k, jnorm v)) kvs)"
    using 2 by (auto simp: comp_def)
  then have "sort_key fst (map (\<lambda>(k, v). (k, canonicalize v)) kvs)
        = map (\<lambda>(k, v). (k, render v)) (sort_key fst (map (\<lambda>(k, v). (k, jnorm v)) kvs))"
    by (simp only: sort_key_map_snd)
  then show ?case by (simp add: comp_def case_prod_beta')
qed simp_all

definition hex_val :: "char \<Rightarrow> nat" where
  "hex_val c = (if of_char c < (58::nat) then of_char c - 48 else of_char c - 87)"

lemma hex_val_digit: "d < 16 \<Longrightarrow> hex_val (hex_digit d) = d"
proof -
  have "\<forall>d \<in> set [0..<16]. hex_val (hex_digit d) = d" by (simp add: hex_val_def hex_digit_def upt_rec)
  then show "d < 16 \<Longrightarrow> ?thesis" by simp
qed

definition unescape1 :: "string \<Rightarrow> char \<times> string" where
  "unescape1 s =
     (if hd s \<noteq> ch_back then (hd s, tl s)
      else let e = s ! 1; r = drop 2 s in
        if e = ch_quote \<or> e = ch_back then (e, r)
        else if e = CHR ''b'' then (CHR 0x08, r)
        else if e = CHR ''t'' then (CHR 0x09, r)
        else if e = CHR ''n'' then (CHR 0x0A, r)
        else if e = CHR ''f'' then (CHR 0x0C, r)
        else if e = CHR ''r'' then (CHR 0x0D, r)
        else (char_of (16 * hex_val (r ! 2) + hex_val (r ! 3)), drop 4 r))"

lemma unescape1_escape: "unescape1 (escape_char c @ r) = (c, r)"
proof (cases "escape_char c = [ch_back, CHR ''u'', CHR ''0'', CHR ''0'', hex_digit (of_char c div 16), hex_digit (of_char c mod 16)]
              \<and> of_char c < (32::nat)")
  case True
  then have "(of_char c :: nat) div 16 < 16" by linarith
  with True have "unescape1 (escape_char c @ r) = (char_of (16 * (of_char c div 16) + of_char c mod 16 :: nat), r)"
    by (simp add: unescape1_def Let_def hex_val_digit)
  then show ?thesis by simp
next
  case False
  then show ?thesis by (auto simp: escape_char_def unescape1_def Let_def split: if_splits)
qed

lemma escape_char_inj: "escape_char c @ r = escape_char d @ s \<Longrightarrow> c = d \<and> r = s"
  by (metis unescape1_escape prod.inject)

lemma escape_char_hd: "escape_char c @ r \<noteq> ch_quote # s"
  by (auto simp: escape_char_def split: if_splits)

lemma escape_body_inj:
  "concat (map escape_char a) @ [ch_quote] @ x = concat (map escape_char b) @ [ch_quote] @ y \<Longrightarrow> a = b \<and> x = y"
proof (induction a arbitrary: b)
  case Nil
  then show ?case using escape_char_hd by (cases b) (auto, metis)
next
  case (Cons c a)
  show ?case
  proof (cases b)
    case Nil
    then show ?thesis using Cons.prems escape_char_hd by auto
  next
    case (Cons d b')
    have "escape_char c @ (concat (map escape_char a) @ [ch_quote] @ x)
          = escape_char d @ (concat (map escape_char b') @ [ch_quote] @ y)"
      using Cons.prems Cons by simp
    from escape_char_inj [OF this] show ?thesis using Cons.IH Cons by auto
  qed
qed

lemma escape_inj: "escape a @ x = escape b @ y \<Longrightarrow> a = b \<and> x = y"
  using escape_body_inj [of a x b y] by (simp add: escape_def)

text \<open>What can follow a value: the end, or a delimiter.\<close>

definition stop :: "string \<Rightarrow> bool" where
  "stop x = (case x of [] \<Rightarrow> True | c # _ \<Rightarrow> c \<in> set '',]}'')"

lemma stop_Cons: "stop (c # x) \<Longrightarrow> c \<notin> set ''-0123456789''"
  by (auto simp: stop_def)

lemma minus_not_digit: "CHR ''-'' # x \<noteq> show_nat n"
proof
  assume "CHR ''-'' # x = show_nat n"
  then have "CHR ''-'' \<in> set (show_nat n)" by (metis list.set_intros(1))
  then have "CHR ''-'' \<in> set ''0123456789''" using show_nat_digits by blast
  then show False by simp
qed

lemma show_int_chars: "set (show_int i) \<subseteq> set ''-0123456789''"
proof -
  have "set ''0123456789'' \<subseteq> set ''-0123456789''" by simp
  then have d: "set (show_nat n) \<subseteq> set ''-0123456789''" for n
    by (rule order_trans [OF show_nat_digits])
  have "set (CHR ''-'' # show_nat n) \<subseteq> set ''-0123456789''" for n
    using d [of n] by (simp only: list.set insert_subset) simp
  then show ?thesis using d by (simp only: show_int_def append_Cons append_Nil split: if_split) simp
qed

lemma show_int_nonempty [simp]: "show_int i \<noteq> []"
  by (simp add: show_int_def)

lemma show_int_inj: "show_int i = show_int j \<Longrightarrow> i = j"
proof -
  assume h: "show_int i = show_int j"
  have neg: "(i < 0) = (j < 0)"
    using h minus_not_digit [of "show_nat (nat (- i))" "nat j"] minus_not_digit [of "show_nat (nat (- j))" "nat i"]
    by (auto simp: show_int_def split: if_splits)
  show ?thesis
  proof (cases "i < 0")
    case True
    then have "show_nat (nat (- i)) = show_nat (nat (- j))" using h neg by (simp add: show_int_def)
    then have "nat (- i) = nat (- j)" by (rule show_nat_inj)
    then show ?thesis using True neg by simp
  next
    case False
    then have "show_nat (nat i) = show_nat (nat j)" using h neg by (simp add: show_int_def)
    then have "nat i = nat j" by (rule show_nat_inj)
    then show ?thesis using False neg by simp
  qed
qed

lemma takeWhile_stop: "set a \<subseteq> A \<Longrightarrow> x = [] \<or> hd x \<notin> A \<Longrightarrow> takeWhile (\<lambda>c. c \<in> A) (a @ x) = a"
proof -
  assume a: "set a \<subseteq> A" and x: "x = [] \<or> hd x \<notin> A"
  have "takeWhile (\<lambda>c. c \<in> A) (a @ x) = a @ takeWhile (\<lambda>c. c \<in> A) x"
    using a by (intro takeWhile_append2) blast
  moreover have "takeWhile (\<lambda>c. c \<in> A) x = []" using x by (cases x) simp_all
  ultimately show ?thesis by simp
qed

lemma show_int_stop_inj:
  assumes "show_int i @ x = show_int j @ y" "stop x" "stop y"
  shows "i = j \<and> x = y"
proof -
  let ?N = "set ''-0123456789''"
  have hd: "z = [] \<or> hd z \<notin> ?N" if "stop z" for z
    using that stop_Cons by (cases z) auto
  have "takeWhile (\<lambda>c. c \<in> ?N) (show_int i @ x) = show_int i"
    by (rule takeWhile_stop [OF show_int_chars hd [OF assms(2)]])
  moreover have "takeWhile (\<lambda>c. c \<in> ?N) (show_int j @ y) = show_int j"
    by (rule takeWhile_stop [OF show_int_chars hd [OF assms(3)]])
  ultimately have "show_int i = show_int j" using assms(1) by simp
  then show ?thesis using assms(1) show_int_inj by simp
qed

text \<open>The elements after the first, up to and including the closing bracket.\<close>

lemma join_comma_Cons: "join_comma (s # ss) = s @ concat (map (\<lambda>t. '','' @ t) ss)"
  by (induction ss arbitrary: s) auto

lemma concat_comma_stop: "stop (concat (map (\<lambda>t. '','' @ t) ss) @ c # x) \<longleftrightarrow> ss \<noteq> [] \<or> c \<in> set '',]}''"
  by (cases ss) (auto simp: stop_def)

definition self_delimiting :: "('a \<Rightarrow> string) \<Rightarrow> 'a \<Rightarrow> bool" where
  "self_delimiting f a = (\<forall>b x y. f a @ x = f b @ y \<longrightarrow> stop x \<longrightarrow> stop y \<longrightarrow> a = b \<and> x = y)"

lemma tail_inj:
  assumes "\<forall>a \<in> set as. self_delimiting f a" and "c \<in> set '']}''"
    and "concat (map (\<lambda>t. '','' @ f t) as) @ c # x = concat (map (\<lambda>t. '','' @ f t) bs) @ c # y"
  shows "as = bs \<and> x = y"
  using assms(1,3)
proof (induction as arbitrary: bs)
  case Nil
  then show ?case using assms(2) by (cases bs) auto
next
  case (Cons a as)
  obtain b bs' where bs: "bs = b # bs'" using Cons.prems(2) assms(2) by (cases bs) auto
  let ?r = "\<lambda>as x. concat (map (\<lambda>t. '','' @ f t) as) @ c # x"
  have eq: "f a @ ?r as x = f b @ ?r bs' y" using Cons.prems(2) bs by simp
  have st: "stop (?r as x)" for as x
    using assms(2) by (cases as) (auto simp: stop_def)
  have "a = b \<and> ?r as x = ?r bs' y"
    using Cons.prems(1) eq st unfolding self_delimiting_def by (metis list.set_intros(1))
  then show ?case using Cons.IH [of bs'] Cons.prems(1) bs by simp
qed

lemma bracket_inj:
  assumes "\<forall>a \<in> set as. self_delimiting f a" and "c \<in> set '']}''" and hd: "\<And>b r. f b @ r \<noteq> c # y"
    and hd': "\<And>b r. f b @ r \<noteq> c # x"
    and "join_comma (map f as) @ c # x = join_comma (map f bs) @ c # y"
  shows "as = bs \<and> x = y"
proof (cases as)
  case Nil
  show ?thesis
  proof (cases bs)
    case (Cons b bs')
    then have "f b @ (concat (map (\<lambda>t. '','' @ f t) bs') @ c # y) = c # x"
      using assms(5) Nil by (simp add: join_comma_Cons comp_def)
    then show ?thesis using hd' by metis
  qed (use assms(5) Nil in simp)
next
  case (Cons a as')
  show ?thesis
  proof (cases bs)
    case Nil
    then have "f a @ (concat (map (\<lambda>t. '','' @ f t) as') @ c # x) = c # y"
      using assms(5) Cons by (simp add: join_comma_Cons comp_def)
    then show ?thesis using hd by metis
  next
    case (Cons b bs')
    let ?r = "\<lambda>as x. concat (map (\<lambda>t. '','' @ f t) as) @ c # x"
    have eq: "f a @ ?r as' x = f b @ ?r bs' y"
      using assms(5) Cons \<open>as = a # as'\<close> by (simp add: join_comma_Cons comp_def)
    have st: "stop (?r as x)" for as x
      using assms(2) by (cases as) (auto simp: stop_def)
    have "a = b \<and> ?r as' x = ?r bs' y"
      using assms(1) eq st \<open>as = a # as'\<close> unfolding self_delimiting_def by (metis list.set_intros(1))
    then show ?thesis using tail_inj [of as' f c x bs' y] assms(1,2) Cons \<open>as = a # as'\<close> by auto
  qed
qed

lemma render_hd: "render v @ r \<noteq> '']'' @ x" "escape k @ r \<noteq> ''}'' @ x"
proof -
  have h: "hd (show_int i) \<in> set ''-0123456789''" for i
    using show_int_chars [of i] by (meson hd_in_set show_int_nonempty subsetD)
  have "show_int i @ r \<noteq> '']'' @ x" for i
    using h [of i] by (cases "show_int i") (simp, auto)
  then show "render v @ r \<noteq> '']'' @ x" "escape k @ r \<noteq> ''}'' @ x"
    by (cases v; simp add: escape_def)+
qed

text \<open>The first character of a rendered value tells the constructor.\<close>

definition shape :: "char \<Rightarrow> nat" where
  "shape c = (if c = CHR ''t'' then 0 else if c = CHR ''f'' then 1 else if c = CHR ''n'' then 2
              else if c = ch_quote then 3 else if c = CHR ''['' then 4 else if c = CHR ''{'' then 5 else 6)"

fun shape_of :: "json \<Rightarrow> nat" where
  "shape_of (JBool b) = (if b then 0 else 1)"
| "shape_of JNull = 2"
| "shape_of (JStr s) = 3"
| "shape_of (JList xs) = 4"
| "shape_of (JObj kvs) = 5"
| "shape_of (JInt i) = 6"

lemma shape_render: "shape (hd (render v @ r)) = shape_of v"
proof -
  have "\<forall>c \<in> set ''-0123456789''. shape c = 6" by (simp add: shape_def)
  moreover have "hd (show_int i) \<in> set ''-0123456789''" for i
    using show_int_chars [of i] by (meson hd_in_set show_int_nonempty subsetD)
  ultimately have "shape (hd (show_int i)) = 6" for i by blast
  then show ?thesis by (cases v) (auto simp: shape_def escape_def hd_append show_int_nonempty)
qed

lemma render_self_delimiting: "self_delimiting render v"
  unfolding self_delimiting_def
proof (induction v)
  case JNull
  show ?case
  proof (intro allI impI)
    fix b x y assume h: "render JNull @ x = render b @ y"
    have "shape_of b = 2" using h shape_render by (metis shape_of.simps(2))
    then show "JNull = b \<and> x = y" using h by (cases b) (auto split: if_splits)
  qed
next
  case (JBool p)
  show ?case
  proof (intro allI impI)
    fix b x y assume h: "render (JBool p) @ x = render b @ y"
    have "shape_of b = shape_of (JBool p)" using h shape_render by metis
    then show "JBool p = b \<and> x = y" using h by (cases b) (auto split: if_splits)
  qed
next
  case (JStr s)
  show ?case
  proof (intro allI impI)
    fix b x y assume h: "render (JStr s) @ x = render b @ y"
    have "shape_of b = 3" using h shape_render by (metis shape_of.simps(3))
    then obtain t where "b = JStr t" by (cases b) (auto split: if_splits)
    then show "JStr s = b \<and> x = y" using h escape_inj [of s x t y] by simp
  qed
next
  case (JInt i)
  show ?case
  proof (intro allI impI)
    fix b x y assume h: "render (JInt i) @ x = render b @ y" "stop x" "stop y"
    have "shape_of b = 6" using h(1) shape_render by (metis shape_of.simps(6))
    then obtain t where "b = JInt t" by (cases b) (auto split: if_splits)
    then show "JInt i = b \<and> x = y" using h show_int_stop_inj [of i x t y] by simp
  qed
next
  case (JList as)
  show ?case
  proof (intro allI impI)
    fix b x y
    assume h: "render (JList as) @ x = render b @ y" "stop x" "stop y"
    have "shape_of b = 4" using h(1) shape_render by (metis shape_of.simps(4))
    then obtain bs where b: "b = JList bs" by (cases b) (auto split: if_splits)
    have "join_comma (map render as) @ CHR '']'' # x = join_comma (map render bs) @ CHR '']'' # y"
      using h(1) b by simp
    from bracket_inj [OF _ _ _ _ this] render_hd JList
    show "JList as = b \<and> x = y" unfolding self_delimiting_def b by simp
  qed
next
  case (JObj as)
  let ?m = "\<lambda>(k, v). escape k @ '':'' @ render v"
  have sd: "\<forall>a \<in> set as. self_delimiting ?m a"
  proof
    fix a assume a: "a \<in> set as"
    obtain k v where kv: "a = (k, v)" by (cases a)
    show "self_delimiting ?m a"
      unfolding self_delimiting_def
    proof (intro allI impI)
      fix b x y
      assume h: "?m a @ x = ?m b @ y" "stop x" "stop y"
      obtain k' v' where b: "b = (k', v')" by (cases b)
      have "escape k @ ('':'' @ render v @ x) = escape k' @ ('':'' @ render v' @ y)"
        using h(1) kv b by simp
      from escape_inj [OF this] have k: "k = k'" and "render v @ x = render v' @ y" by auto
      moreover have "v \<in> Basic_BNFs.snds a" using kv by (simp add: snds.intros)
      ultimately have "v = v' \<and> x = y" using JObj [OF a] h(2,3) by blast
      then show "a = b \<and> x = y" using k kv b by simp
    qed
  qed
  show ?case
  proof (intro allI impI)
    fix b x y
    assume h: "render (JObj as) @ x = render b @ y" "stop x" "stop y"
    have "shape_of b = 5" using h(1) shape_render by (metis shape_of.simps(5))
    then obtain bs where b: "b = JObj bs" by (cases b) (auto split: if_splits)
    have eq: "join_comma (map ?m as) @ CHR ''}'' # x = join_comma (map ?m bs) @ CHR ''}'' # y"
      using h(1) b by simp
    have hd: "?m b @ r \<noteq> CHR ''}'' # z" for b r z
      using render_hd(2) [of "fst b" "'':'' @ render (snd b) @ r" z] by (simp add: case_prod_beta)
    show "JObj as = b \<and> x = y" using bracket_inj [OF sd _ hd hd eq] b by simp
  qed
qed

lemma canonicalize_inj_iff: "canonicalize a = canonicalize b \<longleftrightarrow> jnorm a = jnorm b"
proof -
  have "stop []" by (simp add: stop_def)
  then show ?thesis
    using render_self_delimiting [of "jnorm a"]
    by (auto simp: canonicalize_render self_delimiting_def dest: spec [of _ "[]"])
qed

text \<open>
  the canonical text determines the JSON value up to the order of object members: two values
  with the same canonical text have the same canonical form, so equal digests mean equal values
  or a collision of the hash.
\<close>

theorem digest_equal_or_collision:
  "digest H a = digest H b \<longleftrightarrow>
     jnorm a = jnorm b
     \<or> (H (canonicalize a) = H (canonicalize b) \<and> canonicalize a \<noteq> canonicalize b)"
  by (auto simp: digest_def simp flip: canonicalize_inj_iff)

end
