(* ===== verification/Chain.thy ===== *)
theory Chain
  imports Json
begin

text \<open>
  \<open>src/infra/cwp/chainverify.py\<close> and the in-memory write path of
  \<open>src/infra/cwp/ledger.py\<close>: the prev-hash chain every ledger of the program is an instance
  of. \<open>H\<close> is the hexadecimal SHA-256. A record is a JSON object; what the verifier reports is a
  value of the type \<open>problem\<close> instead of a message.
\<close>

section \<open>Link digests\<close>

definition current_major :: int where
  "current_major = 2"

definition zero_prev :: string where
  "zero_prev = replicate 64 CHR ''0''"

definition link_of :: "json \<Rightarrow> json" where
  "link_of e = (case e of JObj kvs \<Rightarrow> JObj (filter (\<lambda>kv. fst kv \<noteq> ''prev'') kvs) | _ \<Rightarrow> e)"

text \<open>\<open>json.dumps(v, sort_keys=True)\<close>: blanks after the separators, everything but printable
  ASCII escaped.\<close>

definition dumps_char :: "char \<Rightarrow> string" where
  "dumps_char c =
     (if (32::nat) \<le> of_char c \<and> of_char c < (127::nat) \<or> escape_char c \<noteq> [c] then escape_char c
      else [ch_back, CHR ''u'', CHR ''0'', CHR ''0'', hex_digit (of_char c div 16), hex_digit (of_char c mod 16)])"

definition dumps_str :: "string \<Rightarrow> string" where
  "dumps_str s = [ch_quote] @ concat (map dumps_char s) @ [ch_quote]"

fun join_comma_blank :: "string list \<Rightarrow> string" where
  "join_comma_blank [] = []"
| "join_comma_blank [s] = s"
| "join_comma_blank (s # t # r) = s @ '', '' @ join_comma_blank (t # r)"

fun dumps_sorted :: "json \<Rightarrow> string" where
  "dumps_sorted (JBool b) = (if b then ''true'' else ''false'')"
| "dumps_sorted JNull = ''null''"
| "dumps_sorted (JStr s) = dumps_str s"
| "dumps_sorted (JInt i) = show_int i"
| "dumps_sorted (JList xs) = ''['' @ join_comma_blank (map dumps_sorted xs) @ '']''"
| "dumps_sorted (JObj kvs) =
     ''{'' @ join_comma_blank (map (\<lambda>(k, t). dumps_str k @ '': '' @ t)
                (sort_key fst (map (\<lambda>(k, v). (k, dumps_sorted v)) kvs))) @ ''}''"

definition link_digest_v1 :: "(string \<Rightarrow> string) \<Rightarrow> json \<Rightarrow> string" where
  "link_digest_v1 H l = H (dumps_sorted l)"

definition link_digest_v2 :: "(string \<Rightarrow> string) \<Rightarrow> json \<Rightarrow> string" where
  "link_digest_v2 H l = digest H l"

definition link_digest :: "(string \<Rightarrow> string) \<Rightarrow> json \<Rightarrow> int \<Rightarrow> string res" where
  "link_digest H l schema =
     (if schema = 1 then Inr (link_digest_v1 H l)
      else if schema = 2 then Inr (link_digest_v2 H l)
      else Inl ValueError)"

definition head_of :: "(string \<Rightarrow> string) \<Rightarrow> json list \<Rightarrow> int \<Rightarrow> string res" where
  "head_of H es schema = foldR (\<lambda>_ e. link_digest H (link_of e) schema) zero_prev es"

section \<open>Verification\<close>

datatype problem =
    EmptyChain
  | GenesisNotObject
  | NotGenesis
  | GenesisPrevNotZero
  | NoOrigin
  | RunMismatch
  | PlanMismatch
  | NotObject nat
  | SecondGenesis nat
  | PrevMismatch nat
  | SeqNotInt nat
  | SeqGap nat

definition seq_int :: "json \<Rightarrow> int option" where
  "seq_int v = (case v of JInt i \<Rightarrow> Some i | _ \<Rightarrow> None)"

definition genesis_problems :: "json \<Rightarrow> string option \<Rightarrow> string option \<Rightarrow> problem list" where
  "genesis_problems g run plan =
     (if jget g ''type'' \<noteq> JStr ''genesis'' then [NotGenesis] else [])
     @ (if jget g ''prev'' \<noteq> JStr zero_prev then [GenesisPrevNotZero] else [])
     @ (if \<not> ((truthy (jget g ''run_id'') \<and> truthy (jget g ''plan_sha''))
              \<or> truthy (jget g ''supersedes_head'') \<or> truthy (jget g ''supersedes''))
        then [NoOrigin] else [])
     @ (case run of None \<Rightarrow> [] | Some r \<Rightarrow> if jget g ''run_id'' \<noteq> JStr r then [RunMismatch] else [])
     @ (case plan of None \<Rightarrow> [] | Some p \<Rightarrow> if jget g ''plan_sha'' \<noteq> JStr p then [PlanMismatch] else [])"

text \<open>The loop over the entries: position, digest the next \<open>prev\<close> must equal, last sequence number.\<close>

fun verify_entries :: "(string \<Rightarrow> string) \<Rightarrow> int \<Rightarrow> nat \<Rightarrow> string \<Rightarrow> int option \<Rightarrow> json list \<Rightarrow> problem list res" where
  "verify_entries H schema i prev ls [] = Inr []"
| "verify_entries H schema i prev ls (e # es) =
     (if \<not> is_obj e then Inr [NotObject i]
      else if i > 0 \<and> (jget e ''type'' = JStr ''genesis'' \<or> jget e ''prev'' = JStr zero_prev)
      then Inr [SecondGenesis i]
      else if jget e ''prev'' \<noteq> JStr prev then Inr [PrevMismatch i]
      else let s = seq_int (jget e ''seq''); next = (\<lambda>ls'.
             bindR (link_digest H (link_of e) schema) (\<lambda>d. verify_entries H schema (Suc i) d ls' es))
           in if i = 0 then next s
              else if s = None then Inr [SeqNotInt i]
              else if ls \<noteq> None \<and> the s \<noteq> the ls + 1 then Inr [SeqGap i]
              else next s)"

definition verify_chain ::
  "(string \<Rightarrow> string) \<Rightarrow> json list \<Rightarrow> int \<Rightarrow> string option \<Rightarrow> string option \<Rightarrow> (bool \<times> problem list) res" where
  "verify_chain H es schema run plan =
     (case es of
        [] \<Rightarrow> Inr (False, [EmptyChain])
      | g # _ \<Rightarrow>
          if \<not> is_obj g then Inr (False, [GenesisNotObject])
          else let ps = genesis_problems g run plan in
            if ps \<noteq> [] then Inr (False, ps)
            else bindR (verify_entries H schema 0 zero_prev None es) (\<lambda>qs. Inr (qs = [], qs)))"

section \<open>Writing\<close>

definition genesis :: "string \<Rightarrow> string \<Rightarrow> int \<Rightarrow> json" where
  "genesis run plan schema =
     JObj [(''type'', JStr ''genesis''), (''schema'', JInt schema), (''seq'', JInt 0),
           (''run_id'', JStr run), (''plan_sha'', JStr plan), (''prev'', JStr zero_prev)]"

text \<open>
  \<open>int(v)\<close> of a JSON value. A text may be padded with white space, signed, and its digits grouped by single
  underscores.
\<close>

definition int_blank :: "char \<Rightarrow> bool" where
  "int_blank c = (let n = of_char c :: nat in (9 \<le> n \<and> n \<le> 13) \<or> n = 32 \<or> n = 133 \<or> n = 160)"

definition int_padless :: "string \<Rightarrow> string" where
  "int_padless s = rev (dropWhile int_blank (rev (dropWhile int_blank s)))"

definition grouped_digits :: "string \<Rightarrow> nat option" where
  "grouped_digits s =
     (if s = [] \<or> hd s = CHR ''_'' \<or> List.last s = CHR ''_'' \<or> (CHR ''_'', CHR ''_'') \<in> set (zip s (tl s)) then None
      else parse_digits 0 (filter (\<lambda>c. c \<noteq> CHR ''_'') s))"

definition int_of_json :: "json \<Rightarrow> int res" where
  "int_of_json v =
     (case v of
        JInt i \<Rightarrow> Inr i
      | JBool b \<Rightarrow> Inr (if b then 1 else 0)
      | JStr s \<Rightarrow>
          (let p = int_padless s; neg = (p \<noteq> [] \<and> hd p = CHR ''-''); t = (if p \<noteq> [] \<and> hd p \<in> set ''-+'' then tl p else p)
           in case grouped_digits t of None \<Rightarrow> Inl ValueError | Some n \<Rightarrow> Inr (if neg then - int n else int n))
      | _ \<Rightarrow> Inl TypeError)"

lemma int_of_json_texts:
  "int_of_json (JStr '' 1_0 '') = Inr 10" "int_of_json (JStr ''-7'') = Inr (-7)" "int_of_json (JStr ''1__0'') = Inl ValueError"
  "int_of_json (JStr ''+'') = Inl ValueError"
  by code_simp+

definition jput :: "string \<Rightarrow> json \<Rightarrow> json \<Rightarrow> json" where
  "jput k v j = JObj (dput k v (obj_members j))"

definition chain_append :: "(string \<Rightarrow> string) \<Rightarrow> json list \<Rightarrow> json \<Rightarrow> int \<Rightarrow> json list res" where
  "chain_append H es record schema =
     (if es = [] then Inl IndexError
      else let prev = last es in
        bindR (case dget (obj_members prev) ''seq'' of
                 None \<Rightarrow> Inr (int (length es) - 1) | Some v \<Rightarrow> int_of_json v) (\<lambda>s.
        bindR (link_digest H (link_of prev) schema) (\<lambda>d.
          Inr (es @ [jput ''prev'' (JStr d) (jput ''seq'' (JInt (s + 1)) record)]))))"

section \<open>Basic facts\<close>

lemma jget_JObj: "jget (JObj kvs) k = (case dget kvs k of Some v \<Rightarrow> v | None \<Rightarrow> JNull)"
  by (simp add: jget_def)

lemma map_of_sort_key [simp]: "map_of (sort_key fst kvs) = map_of kvs"
proof
  have f: "map_of xs k = map_option snd (find (\<lambda>p. fst p = k) xs)" for xs :: "('a \<times> 'b) list" and k by (induction xs) auto
  have g: "find P xs = (case filter P xs of [] \<Rightarrow> None | x # _ \<Rightarrow> Some x)" for P and xs :: "('a \<times> 'b) list" by (induction xs) auto
  fix k show "map_of (sort_key fst kvs) k = map_of kvs k" by (simp add: f g sort_key_stable)
qed

lemma jget_jnorm: "jget (jnorm j) k = jnorm (jget j k)"
proof (cases j)
  case (JObj kvs)
  have "map_of (map (\<lambda>(k, v). (k, jnorm v)) kvs) = map_option jnorm \<circ> map_of kvs" by (simp add: map_of_map)
  then show ?thesis using JObj by (simp add: jget_def split: option.splits)
qed (simp_all add: jget_def)

lemma is_obj_JObj [simp]: "is_obj (JObj kvs)"
  by (simp add: is_obj_def)

lemma jget_jput [simp]: "is_obj j \<Longrightarrow> jget (jput k v j) k' = (if k' = k then v else jget j k')"
  by (cases j) (simp_all add: jput_def jget_JObj is_obj_def obj_members_def dget_dput)

lemma is_obj_jput [simp]: "is_obj (jput k v j)"
  by (simp add: jput_def is_obj_def)

lemma is_obj_link_of [simp]: "is_obj (link_of e) = is_obj e"
  by (cases e) (simp_all add: link_of_def is_obj_def)

lemma dget_filter_key: "P k \<Longrightarrow> dget (filter (\<lambda>kv. P (fst kv)) kvs) k = dget kvs k"
  by (induction kvs) auto

lemma jget_link_of: "k \<noteq> ''prev'' \<Longrightarrow> jget (link_of e) k = jget e k"
  by (cases e) (simp_all add: link_of_def jget_JObj jget_def dget_filter_key [where P = "\<lambda>k. k \<noteq> ''prev''"])

lemma filter_dput_same: "filter (\<lambda>kv. fst kv \<noteq> k) (dput k v d) = filter (\<lambda>kv. fst kv \<noteq> k) d"
  by (induction d) auto

lemma link_of_jput_prev: "is_obj e \<Longrightarrow> link_of (jput ''prev'' v e) = link_of e"
  by (cases e) (simp_all add: link_of_def jput_def is_obj_def obj_members_def filter_dput_same)

lemma head_of_snoc: "head_of H (es @ [e]) schema =
    bindR (head_of H es schema) (\<lambda>_. link_digest H (link_of e) schema)"
  by (simp add: head_of_def foldR_append bindR_def split: sum.split)

lemma link_digest_total: "schema = 1 \<or> schema = 2 \<Longrightarrow> \<exists>d. link_digest H l schema = Inr d"
  by (auto simp: link_digest_def)

lemma link_digest_major [simp]: "link_digest H l current_major = Inr (digest H l)"
  by (simp add: link_digest_def current_major_def link_digest_v2_def)

lemma link_digest_link: "link_digest H l schema = Inr d \<Longrightarrow> \<exists>d'. link_digest H l' schema = Inr d'"
  by (auto simp: link_digest_def split: if_splits)

lemma verify_entries_Cons_ok:
  "verify_entries H schema i prev ls (e # es) = Inr [] \<longleftrightarrow>
     is_obj e \<and> (i > 0 \<longrightarrow> jget e ''type'' \<noteq> JStr ''genesis'' \<and> jget e ''prev'' \<noteq> JStr zero_prev)
     \<and> jget e ''prev'' = JStr prev
     \<and> (i > 0 \<longrightarrow> (\<exists>s. jget e ''seq'' = JInt s \<and> (\<forall>l. ls = Some l \<longrightarrow> s = l + 1)))
     \<and> (\<exists>d. link_digest H (link_of e) schema = Inr d
            \<and> verify_entries H schema (Suc i) d (seq_int (jget e ''seq'')) es = Inr [])"
  by (auto simp: Let_def bindR_eq_Inr seq_int_def split: json.splits option.splits)

declare verify_entries.simps(2) [simp del]

lemma verify_entries_append:
  assumes "verify_entries H schema i prev ls es = Inr []" and "es \<noteq> []"
  obtains d where "link_digest H (link_of (last es)) schema = Inr d"
    and "\<And>fs. verify_entries H schema i prev ls (es @ fs) = Inr [] \<longleftrightarrow>
              verify_entries H schema (i + length es) d (seq_int (jget (last es) ''seq'')) fs = Inr []"
  using assms
proof (induction es arbitrary: i prev ls thesis)
  case (Cons e es)
  from Cons.prems(2) obtain d where d: "link_digest H (link_of e) schema = Inr d"
    "verify_entries H schema (Suc i) d (seq_int (jget e ''seq'')) es = Inr []"
    by (auto simp: verify_entries_Cons_ok)
  have step: "verify_entries H schema i prev ls (e # fs) = Inr [] \<longleftrightarrow>
              verify_entries H schema (Suc i) d (seq_int (jget e ''seq'')) fs = Inr []" for fs
    using Cons.prems(2) d(1) by (auto simp: verify_entries_Cons_ok)
  show ?case
  proof (cases "es = []")
    case True
    show ?thesis by (rule Cons.prems(1) [of d]) (use True d(1) step in auto)
  next
    case False
    from Cons.IH [OF _ d(2) False] obtain d' where "link_digest H (link_of (last es)) schema = Inr d'"
      "\<And>fs. verify_entries H schema (Suc i) d (seq_int (jget e ''seq'')) (es @ fs) = Inr [] \<longleftrightarrow>
            verify_entries H schema (Suc i + length es) d' (seq_int (jget (last es) ''seq'')) fs = Inr []"
      by blast
    then show ?thesis using Cons.prems(1) False step by simp
  qed
qed simp

lemma verify_entries_prefix:
  "verify_entries H schema i prev ls (es @ fs) = Inr [] \<Longrightarrow> verify_entries H schema i prev ls es = Inr []"
  by (induction es arbitrary: i prev ls) (auto simp: verify_entries_Cons_ok)

lemma verify_entries_linked:
  assumes "verify_entries H schema i prev ls es = Inr []" and "Suc k < length es"
  shows "\<exists>d. link_digest H (link_of (es ! k)) schema = Inr d \<and> jget (es ! Suc k) ''prev'' = JStr d"
  using assms
proof (induction es arbitrary: i prev ls k)
  case (Cons e es)
  show ?case
  proof (cases k)
    case 0
    then show ?thesis using Cons.prems by (cases es) (auto simp: verify_entries_Cons_ok)
  next
    case (Suc k')
    then show ?thesis using Cons.prems Cons.IH by (auto simp: verify_entries_Cons_ok)
  qed
qed simp

lemma verify_chain_ok_iff:
  "verify_chain H es schema run plan = Inr (True, ps) \<longleftrightarrow>
     ps = [] \<and> es \<noteq> [] \<and> is_obj (hd es) \<and> genesis_problems (hd es) run plan = []
     \<and> verify_entries H schema 0 zero_prev None es = Inr []"
  by (cases es) (auto simp: verify_chain_def Let_def bindR_eq_Inr)

section \<open>What a verified chain is\<close>

lemma chain_append_step:
  assumes "verify_chain H es schema run plan = Inr (True, [])"
    and "chain_append H es r schema = Inr es'"
    and "is_obj r" and "jget r ''type'' \<noteq> JStr ''genesis''"
    and "link_digest H (link_of (last es)) schema \<noteq> Inr zero_prev"
  shows "verify_chain H es' schema run plan = Inr (True, [])"
proof -
  have v: "es \<noteq> []" "is_obj (hd es)" "genesis_problems (hd es) run plan = []"
    "verify_entries H schema 0 zero_prev None es = Inr []"
    using assms(1) by (simp_all add: verify_chain_ok_iff)
  from verify_entries_append [OF v(4,1)] obtain d where
    d: "link_digest H (link_of (last es)) schema = Inr d"
    "\<And>fs. verify_entries H schema 0 zero_prev None (es @ fs) = Inr [] \<longleftrightarrow>
          verify_entries H schema (0 + length es) d (seq_int (jget (last es) ''seq'')) fs = Inr []" by blast
  obtain s where s: "es' = es @ [jput ''prev'' (JStr d) (jput ''seq'' (JInt (s + 1)) r)]"
    and seq: "(case dget (obj_members (last es)) ''seq'' of
                 None \<Rightarrow> Inr (int (length es) - 1) | Some v \<Rightarrow> int_of_json v) = Inr s"
    using assms(2) v(1) d(1) by (auto simp: chain_append_def Let_def bindR_eq_Inr)
  have ls: "l = s" if "seq_int (jget (last es) ''seq'') = Some l" for l
    using that seq
    by (cases "last es") (auto simp: seq_int_def jget_def obj_members_def int_of_json_def split: option.splits json.splits)
  have "verify_entries H schema 0 zero_prev None es' = Inr []"
    unfolding s d(2) using assms(3-5) d(1) ls v(1)
    by (auto simp: verify_entries_Cons_ok link_digest_link [OF d(1)])
  then show ?thesis using v s by (simp add: verify_chain_ok_iff)
qed

text \<open>
  C17: linking a record onto a verified chain gives a verified chain with the same origin, unless
  the digest of the last link is the all-zero root or the record claims to be a genesis.
\<close>

theorem chain_append_verifies:
  assumes "verify_chain H es schema run plan = Inr (True, [])"
    and "chain_append H es r schema = Inr es'"
    and "is_obj r" and "jget r ''type'' \<noteq> JStr ''genesis''"
    and "link_digest H (link_of (last es)) schema \<noteq> Inr zero_prev"
  shows "verify_chain H es' schema run plan = Inr (True, [])"
  using assms by (rule chain_append_step)

theorem chain_append_verifies_witness:
  "verify_chain (\<lambda>s. ''h'' @ s)
     [genesis ''r'' ''p'' 2,
      jput ''prev'' (JStr (digest (\<lambda>s. ''h'' @ s) (link_of (genesis ''r'' ''p'' 2)))) (jput ''seq'' (JInt 1) (JObj []))]
     2 None None = Inr (True, [])"
proof (rule chain_append_verifies [where es = "[genesis ''r'' ''p'' 2]" and r = "JObj []"])
  show "verify_chain (\<lambda>s. ''h'' @ s) [genesis ''r'' ''p'' 2] 2 None None = Inr (True, [])"
    by (simp add: verify_chain_ok_iff verify_entries_Cons_ok genesis_problems_def genesis_def jget_def
        is_obj_def link_digest_def)
  show "chain_append (\<lambda>s. ''h'' @ s) [genesis ''r'' ''p'' 2] (JObj []) 2 =
        Inr [genesis ''r'' ''p'' 2,
          jput ''prev'' (JStr (digest (\<lambda>s. ''h'' @ s) (link_of (genesis ''r'' ''p'' 2)))) (jput ''seq'' (JInt 1) (JObj []))]"
    by (simp add: chain_append_def Let_def genesis_def obj_members_def int_of_json_def link_digest_def link_digest_v2_def)
qed (simp_all add: is_obj_def jget_def link_digest_def link_digest_v2_def digest_def zero_prev_def
      replicate_Suc eval_nat_numeral)

text \<open>
  in a verified chain the back-pointers pin the content: two verified chains that carry the
  same \<open>prev\<close> in every entry have the same content in every entry that has a successor, unless
  the hash collides on two of their canonical texts.
\<close>

theorem prev_fields_pin_content:
  assumes "verify_chain H es 2 run plan = Inr (True, [])" and "verify_chain H fs 2 run' plan' = Inr (True, [])"
    and "length es = length fs" and "\<forall>i < length es. jget (es ! i) ''prev'' = jget (fs ! i) ''prev''"
    and "Suc k < length es"
  shows "jnorm (link_of (es ! k)) = jnorm (link_of (fs ! k))
     \<or> (H (canonicalize (link_of (es ! k))) = H (canonicalize (link_of (fs ! k)))
        \<and> canonicalize (link_of (es ! k)) \<noteq> canonicalize (link_of (fs ! k)))"
proof -
  have "verify_entries H 2 0 zero_prev None es = Inr []" "verify_entries H 2 0 zero_prev None fs = Inr []"
    using assms(1,2) by (simp_all add: verify_chain_ok_iff)
  from verify_entries_linked [OF this(1) assms(5)] verify_entries_linked [OF this(2), of k] assms(3,4,5)
  have "link_digest H (link_of (es ! k)) 2 = link_digest H (link_of (fs ! k)) 2" by auto
  then have "digest H (link_of (es ! k)) = digest H (link_of (fs ! k))"
    by (simp add: link_digest_def link_digest_v2_def)
  then show ?thesis using canonicalize_inj_iff by (auto simp: digest_def)
qed

text \<open>With a constant hash two chains of different origin share their back-pointers.\<close>

theorem prev_fields_pin_content_witness:
  defines "H \<equiv> \<lambda>_::string. ''h''" and "es \<equiv> \<lambda>r. [genesis r ''p'' 2, jput ''prev'' (JStr ''h'') (jput ''seq'' (JInt 1) (JObj []))]"
  shows "verify_chain H (es ''r1'') 2 None None = Inr (True, []) \<and> verify_chain H (es ''r2'') 2 None None = Inr (True, [])
     \<and> (jnorm (link_of (es ''r1'' ! 0)) = jnorm (link_of (es ''r2'' ! 0))
     \<or> (H (canonicalize (link_of (es ''r1'' ! 0))) = H (canonicalize (link_of (es ''r2'' ! 0)))
        \<and> canonicalize (link_of (es ''r1'' ! 0)) \<noteq> canonicalize (link_of (es ''r2'' ! 0))))"
proof -
  have v: "verify_chain H (es r) 2 None None = Inr (True, [])" if "r \<noteq> []" for r
    using that by (simp add: es_def H_def verify_chain_ok_iff verify_entries_Cons_ok genesis_problems_def genesis_def
        jget_JObj seq_int_def link_digest_def link_digest_v2_def digest_def zero_prev_def replicate_Suc eval_nat_numeral)
  have p: "\<forall>i < length (es ''r1''). jget (es ''r1'' ! i) ''prev'' = jget (es ''r2'' ! i) ''prev''"
    by (simp add: es_def less_Suc_eq genesis_def jget_JObj)
  show ?thesis using v prev_fields_pin_content [OF v v _ p, of 0] by (simp add: es_def)
qed

text \<open>
  The digest of a link leaves the entry's own \<open>prev\<close> out, so the head of a chain depends on
  its last record only.
\<close>

lemma head_of_last: "es \<noteq> [] \<Longrightarrow> schema = 1 \<or> schema = 2 \<Longrightarrow> head_of H es schema = link_digest H (link_of (last es)) schema"
proof -
  assume s: "schema = 1 \<or> schema = 2"
  have "\<exists>d. head_of H xs schema = Inr d" for xs
    by (induction xs rule: rev_induct) (use link_digest_total [OF s] in \<open>auto simp: head_of_snoc, simp add: head_of_def\<close>)
  then show "es \<noteq> [] \<Longrightarrow> ?thesis"
    by (cases es rule: rev_cases) (auto simp: head_of_snoc, metis bindR_Inr)
qed

text \<open>
  history can be rewritten under an unchanged head. In a verified chain, replace any record
  after the genesis and before the last by one with other content but the same sequence number
  and back-pointer, and update the one field \<open>prev\<close> of its successor: the chain still verifies,
  every other record is untouched and the head digest is the same.
\<close>

theorem head_does_not_commit_history:
  assumes "verify_chain H (pre @ e # n # post) schema run plan = Inr (True, [])" and "pre \<noteq> []"
    and "is_obj e'" and "jget e' ''type'' \<noteq> JStr ''genesis''"
    and "jget e' ''prev'' = jget e ''prev''" and "jget e' ''seq'' = jget e ''seq''"
    and "link_digest H (link_of e') schema = Inr d" and "d \<noteq> zero_prev"
  shows "verify_chain H (pre @ e' # jput ''prev'' (JStr d) n # post) schema run plan = Inr (True, [])
         \<and> head_of H (pre @ e' # jput ''prev'' (JStr d) n # post) schema = head_of H (pre @ e # n # post) schema"
proof -
  let ?n = "jput ''prev'' (JStr d) n"
  have v: "is_obj (hd pre)" "genesis_problems (hd pre) run plan = []"
    "verify_entries H schema 0 zero_prev None (pre @ e # n # post) = Inr []"
    using assms(1,2) by (simp_all add: verify_chain_ok_iff)
  from verify_entries_append [OF verify_entries_prefix [OF v(3)] assms(2)] obtain p where
    p: "\<And>fs. verify_entries H schema 0 zero_prev None (pre @ fs) = Inr [] \<longleftrightarrow>
       verify_entries H schema (0 + length pre) p (seq_int (jget (last pre) ''seq'')) fs = Inr []" by blast
  have rest: "verify_entries H schema (length pre) p (seq_int (jget (last pre) ''seq'')) (e # n # post) = Inr []"
    using v(3) p by simp
  then have n: "is_obj n" "link_of ?n = link_of n" by (auto simp: verify_entries_Cons_ok link_of_jput_prev)
  have "verify_entries H schema 0 zero_prev None (pre @ e' # ?n # post) = Inr []"
    unfolding p using rest n assms(2-8) by (auto simp: verify_entries_Cons_ok)
  moreover have "schema = 1 \<or> schema = 2" using assms(7) by (auto simp: link_digest_def split: if_splits)
  ultimately show ?thesis using v n assms(2)
    by (cases post) (auto simp: verify_chain_ok_iff head_of_last)
qed

theorem head_does_not_commit_history_witness:
  defines "H \<equiv> \<lambda>s. ''h'' @ s"
  shows "\<exists>es fs. verify_chain H es 2 None None = Inr (True, []) \<and> verify_chain H fs 2 None None = Inr (True, [])
     \<and> head_of H es 2 = head_of H fs 2 \<and> jget (es ! 1) ''amount'' \<noteq> jget (fs ! 1) ''amount''"
proof -
  let ?g = "genesis ''r'' ''p'' 2"
  let ?r = "\<lambda>a. jput ''prev'' (JStr (digest H (link_of ?g))) (jput ''seq'' (JInt 1) (JObj [(''amount'', JInt a)]))"
  let ?n = "\<lambda>a. jput ''prev'' (JStr (digest H (link_of (?r a)))) (jput ''seq'' (JInt 2) (JObj []))"
  have nz: "H x \<noteq> zero_prev" for x by (simp add: H_def zero_prev_def replicate_Suc eval_nat_numeral)
  have g: "is_obj ?g" "genesis_problems ?g None None = []" "jget ?g ''prev'' = JStr zero_prev" "jget ?g ''seq'' = JInt 0"
    by (simp_all add: genesis_def is_obj_def genesis_problems_def jget_def)
  have v: "verify_chain H ([?g] @ ?r 1 # ?n 1 # []) 2 None None = Inr (True, [])"
    using g
    by (simp add: verify_chain_ok_iff verify_entries_Cons_ok link_digest_def link_digest_v2_def jget_JObj
        seq_int_def digest_def nz)
  have "verify_chain H ([?g] @ ?r 2 # jput ''prev'' (JStr (digest H (link_of (?r 2)))) (?n 1) # []) 2 None None
        = Inr (True, []) \<and>
        head_of H ([?g] @ ?r 2 # jput ''prev'' (JStr (digest H (link_of (?r 2)))) (?n 1) # []) 2
        = head_of H ([?g] @ ?r 1 # ?n 1 # []) 2"
    by (rule head_does_not_commit_history [OF v])
      (simp_all add: jget_JObj link_digest_def link_digest_v2_def digest_def nz)
  then show ?thesis using v
    by (intro exI [of _ "[?g] @ ?r 1 # ?n 1 # []"]
        exI [of _ "[?g] @ ?r 2 # jput ''prev'' (JStr (digest H (link_of (?r 2)))) (?n 1) # []"])
      (simp add: jget_JObj)
qed

end
