(* ===== verification/RewardLedger.thy ===== *)
theory RewardLedger
  imports Money Chain
begin

text \<open>
  \<open>src/infra/settle/reward_ledger.py\<close>: the reward ledger, a chain whose records are balanced
  posting sets. Amounts stay the strings the code stores. \<open>acct_sum\<close> is the abstract ledger:
  what an account holds, as an integer number of 0.0001 units.
\<close>

section \<open>Records\<close>

record posting =
  account :: string
  amount_s :: string
  pcur :: string

datatype body =
    GenesisRec string string int
  | PostingSet "posting list" string

record entry =
  body :: body
  seq :: int
  prev :: string

definition posting_json :: "posting \<Rightarrow> json" where
  "posting_json p = JObj [(''account'', JStr (account p)), (''amount'', JStr (amount_s p)),
                          (''currency'', JStr (pcur p))]"

definition body_json :: "body \<Rightarrow> (string, json) dict" where
  "body_json b =
     (case b of
        GenesisRec run plan schema \<Rightarrow>
          [(''type'', JStr ''genesis''), (''schema'', JInt schema), (''run_id'', JStr run), (''plan_sha'', JStr plan)]
      | PostingSet ps memo \<Rightarrow>
          [(''type'', JStr ''posting_set''), (''postings'', JList (map posting_json ps)), (''memo'', JStr memo)])"

definition entry_json :: "entry \<Rightarrow> json" where
  "entry_json e = jput ''prev'' (JStr (prev e)) (jput ''seq'' (JInt (seq e)) (JObj (body_json (body e))))"

section \<open>Operations\<close>

definition escrow_pool :: string where
  "escrow_pool = ''escrow''"

definition escrow_for :: "string \<Rightarrow> string" where
  "escrow_for quote_sha = escrow_pool @ '':'' @ take 32 quote_sha"

definition mk_posting :: "string \<Rightarrow> money \<Rightarrow> posting" where
  "mk_posting a m = \<lparr>account = a, amount_s = amount_str m, pcur = currency m\<rparr>"

text \<open>\<open>d[k] = (d.get(k) or Money.zero(c)) + Money(s, c)\<close>.\<close>

definition add_money :: "('k, money) dict \<Rightarrow> 'k \<Rightarrow> string \<Rightarrow> money res \<Rightarrow> ('k, money) dict res" where
  "add_money d k c m1 =
     bindR (case dget d k of Some m \<Rightarrow> Inr m | None \<Rightarrow> money_zero c) (\<lambda>m0.
     bindR m1 (\<lambda>m1. bindR (money_add m0 m1) (\<lambda>m. Inr (dput k m d))))"

definition is_balanced :: "posting list \<Rightarrow> bool res" where
  "is_balanced ps =
     bindR (foldR (\<lambda>d p. add_money d (pcur p) (pcur p) (money_of (AStr (amount_s p)) (pcur p))) [] ps)
       (\<lambda>by_cur. Inr (\<forall>m \<in> snd ` set by_cur. money_is_zero m))"

definition open_ledger :: "string \<Rightarrow> string \<Rightarrow> entry list" where
  "open_ledger run plan =
     [\<lparr>body = GenesisRec run plan current_major, seq = 0, prev = zero_prev\<rparr>]"

definition post :: "(string \<Rightarrow> string) \<Rightarrow> entry list \<Rightarrow> posting list \<Rightarrow> string \<Rightarrow> entry list res" where
  "post H es ps memo =
     bindR (is_balanced ps) (\<lambda>ok.
       if \<not> ok then Inl ValueError
       else if es = [] then Inl IndexError
       else bindR (link_digest H (link_of (entry_json (last es))) current_major) (\<lambda>d.
         Inr (es @ [\<lparr>body = PostingSet ps memo, seq = seq (last es) + 1, prev = d\<rparr>])))"

definition fund_escrow ::
  "(string \<Rightarrow> string) \<Rightarrow> entry list \<Rightarrow> string \<Rightarrow> money \<Rightarrow> string \<Rightarrow> string \<Rightarrow> entry list res" where
  "fund_escrow H es funder amt escrow_acct memo =
     bindR (money_neg amt) (\<lambda>n. post H es [mk_posting funder n, mk_posting escrow_acct amt] memo)"

definition release ::
  "(string \<Rightarrow> string) \<Rightarrow> entry list \<Rightarrow> string \<Rightarrow> string \<Rightarrow> money \<Rightarrow> money_arg \<Rightarrow> money_arg \<Rightarrow> string \<Rightarrow> string
   \<Rightarrow> entry list res" where
  "release H es payee fee_account amt fee_weight payee_weight memo escrow_acct =
     bindR (money_split amt [fee_weight, payee_weight]) (\<lambda>parts.
       case parts of
         [fee_part, payee_part] \<Rightarrow>
           bindR (money_neg amt) (\<lambda>n.
             post H es [mk_posting escrow_acct n, mk_posting fee_account fee_part, mk_posting payee payee_part] memo)
       | _ \<Rightarrow> Inl ValueError)"

definition entry_postings :: "entry \<Rightarrow> posting list" where
  "entry_postings e = (case body e of PostingSet ps _ \<Rightarrow> ps | GenesisRec _ _ _ \<Rightarrow> [])"

definition entry_memo :: "entry \<Rightarrow> string option" where
  "entry_memo e = (case body e of PostingSet _ m \<Rightarrow> Some m | GenesisRec _ _ _ \<Rightarrow> None)"

type_synonym balance_map = "(string \<times> string, money) dict"

definition balances :: "entry list \<Rightarrow> balance_map res" where
  "balances es =
     foldR (\<lambda>bal e. foldR (\<lambda>bal p. add_money bal (account p, pcur p) (pcur p)
                                     (money_of (AStr (amount_s p)) (pcur p))) bal (entry_postings e)) [] es"

definition global_zero :: "entry list \<Rightarrow> bool res" where
  "global_zero es =
     bindR (balances es) (\<lambda>bal.
     bindR (foldR (\<lambda>d kv. add_money d (snd (fst kv)) (snd (fst kv)) (Inr (snd kv))) [] bal) (\<lambda>by_cur.
       Inr (\<forall>m \<in> snd ` set by_cur. money_is_zero m)))"

text \<open>The balance of one account, \<open>balances(entries).get((a, c), Money.zero(c))\<close>.\<close>

definition balance_of :: "entry list \<Rightarrow> string \<Rightarrow> string \<Rightarrow> money res" where
  "balance_of es a c =
     bindR (balances es) (\<lambda>bal. case dget bal (a, c) of Some m \<Rightarrow> Inr m | None \<Rightarrow> money_zero c)"

section \<open>The abstract ledger\<close>

text \<open>The value of a posting, in units.\<close>

definition pval :: "posting \<Rightarrow> int" where
  "pval p = (case money_of (AStr (amount_s p)) (pcur p) of Inr m \<Rightarrow> units m | Inl _ \<Rightarrow> 0)"

definition post_sum :: "posting list \<Rightarrow> string \<Rightarrow> string \<Rightarrow> int" where
  "post_sum ps a c = sum_list (map pval (filter (\<lambda>p. account p = a \<and> pcur p = c) ps))"

definition cur_sum :: "posting list \<Rightarrow> string \<Rightarrow> int" where
  "cur_sum ps c = sum_list (map pval (filter (\<lambda>p. pcur p = c) ps))"

definition all_postings :: "entry list \<Rightarrow> posting list" where
  "all_postings es = concat (map entry_postings es)"

definition acct_sum :: "entry list \<Rightarrow> string \<Rightarrow> string \<Rightarrow> int" where
  "acct_sum es a c = post_sum (all_postings es) a c"

text \<open>What an account gains from one ledger to another.\<close>

abbreviation gain :: "entry list \<Rightarrow> entry list \<Rightarrow> string \<Rightarrow> string \<Rightarrow> int" where
  "gain es es' a c \<equiv> acct_sum es' a c - acct_sum es a c"

definition total_sum :: "entry list \<Rightarrow> string \<Rightarrow> int" where
  "total_sum es c = cur_sum (all_postings es) c"

definition memos :: "entry list \<Rightarrow> string list" where
  "memos es = List.map_filter entry_memo es"

lemma post_sum_simps [simp]:
  "post_sum [] a c = 0"
  "post_sum (p # ps) a c = (if account p = a \<and> pcur p = c then pval p else 0) + post_sum ps a c"
  "post_sum (ps @ qs) a c = post_sum ps a c + post_sum qs a c"
  by (simp_all add: post_sum_def)

lemma cur_sum_simps [simp]:
  "cur_sum [] c = 0"
  "cur_sum (p # ps) c = (if pcur p = c then pval p else 0) + cur_sum ps c"
  "cur_sum (ps @ qs) c = cur_sum ps c + cur_sum qs c"
  by (simp_all add: cur_sum_def)

lemma acct_sum_append: "acct_sum (es @ fs) a c = acct_sum es a c + acct_sum fs a c"
  by (simp add: acct_sum_def all_postings_def)

lemma total_sum_append: "total_sum (es @ fs) c = total_sum es c + total_sum fs c"
  by (simp add: total_sum_def all_postings_def)

lemma pval_mk_posting: "\<bar>units m\<bar> < 10 ^ 34 \<Longrightarrow> pval (mk_posting a m) = units m"
  using money_of_str [of m] by (simp add: pval_def mk_posting_def)

lemma mk_posting_fields [simp]: "account (mk_posting a m) = a" "pcur (mk_posting a m) = currency m"
  by (simp_all add: mk_posting_def)

subsection \<open>Accumulating\<close>

text \<open>
  A dictionary of amounts agrees with a function that gives a key's value and currency.
\<close>

definition agrees :: "('k, money) dict \<Rightarrow> ('k \<Rightarrow> string) \<Rightarrow> ('k \<Rightarrow> int) \<Rightarrow> bool" where
  "agrees d cur f \<longleftrightarrow> (\<forall>k. case dget d k of Some m \<Rightarrow> m = Mny (f k) (cur k) | None \<Rightarrow> f k = 0)"

lemma agrees_Nil: "agrees [] cur (\<lambda>_. 0)"
  by (simp add: agrees_def)

lemma agrees_add:
  assumes "agrees d cur f" and "add_money d k (cur k) m1 = Inr d'"
  shows "\<exists>m. m1 = Inr m \<and> currency m = cur k \<and> agrees d' cur (\<lambda>x. if x = k then f k + units m else f x)"
proof -
  have z: "(case dget d k of Some m \<Rightarrow> Inr m | None \<Rightarrow> money_zero (cur k)) = Inr (Mny (f k) (cur k))"
    using assms(1) by (auto simp: agrees_def split: option.splits dest: spec [of _ k])
  from assms(2) obtain m where m: "m1 = Inr m" "currency m = cur k" "d' = dput k (Mny (f k + units m) (cur k)) d"
    unfolding add_money_def z by (auto simp: bindR_eq_Inr money_add_eq split: if_splits)
  then show ?thesis using assms(1) by (auto simp: agrees_def dget_dput split: option.splits)
qed

lemma agrees_add_ok:
  assumes "agrees d cur f" and "m1 = Inr m" and "currency m = cur k" and "\<bar>f k + units m\<bar> < 10 ^ 34"
  shows "\<exists>d'. add_money d k (cur k) m1 = Inr d'"
proof -
  have z: "(case dget d k of Some m \<Rightarrow> Inr m | None \<Rightarrow> money_zero (cur k)) = Inr (Mny (f k) (cur k))"
    using assms(1) by (auto simp: agrees_def split: option.splits dest: spec [of _ k])
  show ?thesis unfolding add_money_def z using assms by (simp add: money_add_eq)
qed

lemma agrees_keys: "agrees d cur f \<Longrightarrow> dget d k = Some m \<Longrightarrow> m = Mny (f k) (cur k)"
  unfolding agrees_def by (drule spec [of _ k]) simp

lemma agrees_None: "agrees d cur f \<Longrightarrow> dget d k = None \<Longrightarrow> f k = 0"
  unfolding agrees_def by (drule spec [of _ k]) simp

text \<open>The loop of \<open>is_balanced\<close> and \<open>balances\<close>, over any key.\<close>

lemma fold_postings:
  assumes "agrees d cur f" and "\<And>p. cur (key p) = pcur p"
    and "foldR (\<lambda>d p. add_money d (key p) (pcur p) (money_of (AStr (amount_s p)) (pcur p))) d ps = Inr d'"
  shows "agrees d' cur (\<lambda>k. f k + sum_list (map pval (filter (\<lambda>p. key p = k) ps)))"
  using assms(1,3)
proof (induction ps arbitrary: d f)
  case Nil
  then show ?case by simp
next
  case (Cons p ps)
  from Cons.prems(2) obtain d1 where
    d1: "add_money d (key p) (pcur p) (money_of (AStr (amount_s p)) (pcur p)) = Inr d1"
    "foldR (\<lambda>d p. add_money d (key p) (pcur p) (money_of (AStr (amount_s p)) (pcur p))) d1 ps = Inr d'"
    by (auto simp: bindR_eq_Inr)
  from agrees_add [OF Cons.prems(1), of "key p"] d1(1) assms(2) [of p]
  obtain m where m: "money_of (AStr (amount_s p)) (pcur p) = Inr m"
    and ag: "agrees d1 cur (\<lambda>x. if x = key p then f (key p) + units m else f x)" by auto
  have "units m = pval p" by (simp add: pval_def m)
  then have "(\<lambda>k. (if k = key p then f (key p) + units m else f k) + sum_list (map pval (filter (\<lambda>p. key p = k) ps)))
             = (\<lambda>k. f k + sum_list (map pval (filter (\<lambda>q. key q = k) (p # ps))))"
    by (intro ext) simp
  then show ?case using Cons.IH [OF ag d1(2)] by simp
qed

lemma dget_mem: "dget d k = Some m \<Longrightarrow> m \<in> snd ` set d"
  by (metis image_eqI map_of_SomeD snd_conv)

definition dkeys_distinct :: "('k, 'v) dict \<Rightarrow> bool" where
  "dkeys_distinct d \<longleftrightarrow> distinct (map fst d)"

lemma dput_distinct: "dkeys_distinct d \<Longrightarrow> dkeys_distinct (dput k v d)"
  by (simp add: dkeys_distinct_def distinct_update)

lemma add_money_distinct: "dkeys_distinct d \<Longrightarrow> add_money d k c m1 = Inr d' \<Longrightarrow> dkeys_distinct d'"
  by (auto simp: add_money_def bindR_eq_Inr dput_distinct)

lemma fold_postings_distinct:
  "dkeys_distinct d \<Longrightarrow>
   foldR (\<lambda>d p. add_money d (key p) (pcur p) (money_of (AStr (amount_s p)) (pcur p))) d ps = Inr d' \<Longrightarrow>
   dkeys_distinct d'"
  by (erule foldR_invariant [where P = dkeys_distinct]) (auto intro: add_money_distinct)

lemma agrees_all_zero:
  assumes "agrees d cur f" and "dkeys_distinct d"
  shows "(\<forall>m \<in> snd ` set d. money_is_zero m) \<longleftrightarrow> (\<forall>k. f k = 0)"
proof
  assume z: "\<forall>m \<in> snd ` set d. money_is_zero m"
  show "\<forall>k. f k = 0"
  proof
    fix k show "f k = 0"
      using z dget_mem [of d k] agrees_keys [OF assms(1)] agrees_None [OF assms(1)]
      by (cases "dget d k") fastforce+
  qed
next
  assume z: "\<forall>k. f k = 0"
  show "\<forall>m \<in> snd ` set d. money_is_zero m"
  proof
    fix m assume "m \<in> snd ` set d"
    then obtain k where "(k, m) \<in> set d" by auto
    then have "dget d k = Some m" using assms(2) by (simp add: dkeys_distinct_def)
    from agrees_keys [OF assms(1) this] show "money_is_zero m" using z by simp
  qed
qed

subsection \<open>The two checks\<close>

lemma is_balanced_cases: "is_balanced ps = Inr b \<Longrightarrow> b = (\<forall>c. cur_sum ps c = 0)"
proof -
  assume "is_balanced ps = Inr b"
  then obtain d where d: "foldR (\<lambda>d p. add_money d (pcur p) (pcur p) (money_of (AStr (amount_s p)) (pcur p))) [] ps = Inr d"
    and b: "b = (\<forall>m \<in> snd ` set d. money_is_zero m)"
    by (auto simp: is_balanced_def bindR_eq_Inr)
  have "agrees d (\<lambda>c. c) (\<lambda>c. 0 + sum_list (map pval (filter (\<lambda>p. pcur p = c) ps)))"
    by (rule fold_postings [OF agrees_Nil _ d]) simp
  moreover have "dkeys_distinct d" by (rule fold_postings_distinct [OF _ d]) (simp add: dkeys_distinct_def)
  ultimately show ?thesis using b agrees_all_zero by (simp add: cur_sum_def)
qed

text \<open>
  When \<open>is_balanced\<close> returns, its answer is right: the signed amounts add up to exactly zero
  in every currency.
\<close>

theorem is_balanced_correct:
  "is_balanced ps = Inr b \<Longrightarrow> b = (\<forall>c. cur_sum ps c = 0)"
  by (rule is_balanced_cases)

theorem is_balanced_correct_witness:
  "False = (\<forall>c. cur_sum [mk_posting ''x'' (Mny 1 ''USD'')] c = 0)"
proof (rule is_balanced_correct)
  have "money_of (AStr (amount_str (Mny 1 ''USD''))) ''USD'' = Inr (Mny 1 ''USD'')"
    using money_of_str [of "Mny 1 ''USD''"] by simp
  then show "is_balanced [mk_posting ''x'' (Mny 1 ''USD'')] = Inr False"
    by (simp add: is_balanced_def add_money_def mk_posting_def money_add_eq)
qed

lemma balances_fold:
  "balances es = foldR (\<lambda>bal p. add_money bal (account p, pcur p) (pcur p) (money_of (AStr (amount_s p)) (pcur p)))
     [] (all_postings es)"
proof -
  have "foldR (\<lambda>bal e. foldR f bal (entry_postings e)) d es = foldR f d (all_postings es)" for f d
  proof (induction es arbitrary: d)
    case (Cons e es)
    then show ?case by (cases "foldR f d (entry_postings e)") (simp_all add: all_postings_def foldR_append)
  qed (simp add: all_postings_def)
  then show ?thesis by (simp add: balances_def)
qed

lemma balances_agrees:
  assumes "balances es = Inr bal"
  shows "agrees bal snd (\<lambda>k. acct_sum es (fst k) (snd k))" and "dkeys_distinct bal"
proof -
  note d = assms [unfolded balances_fold]
  have "agrees bal snd (\<lambda>k. 0 + sum_list (map pval (filter (\<lambda>p. (account p, pcur p) = k) (all_postings es))))"
    by (rule fold_postings [OF agrees_Nil _ d]) simp
  moreover have "(\<lambda>k. 0 + sum_list (map pval (filter (\<lambda>p. (account p, pcur p) = k) (all_postings es))))
                 = (\<lambda>k. acct_sum es (fst k) (snd k))"
  proof
    fix k :: "string \<times> string"
    obtain a c where "k = (a, c)" by (cases k)
    then show "0 + sum_list (map pval (filter (\<lambda>p. (account p, pcur p) = k) (all_postings es)))
               = acct_sum es (fst k) (snd k)"
      by (simp add: acct_sum_def post_sum_def)
  qed
  ultimately show "agrees bal snd (\<lambda>k. acct_sum es (fst k) (snd k))" by (simp only:)
  show "dkeys_distinct bal" by (rule fold_postings_distinct [OF _ d]) (simp add: dkeys_distinct_def)
qed

text \<open>
  \<open>balances\<close> refines the abstract ledger: whenever the fold over the chain returns, every
  account holds exactly the sum of its postings, and an account it leaves out holds zero.
\<close>

theorem balances_refine:
  "balances es = Inr bal \<Longrightarrow>
   (case dget bal (a, c) of Some m \<Rightarrow> m = Mny (acct_sum es a c) c | None \<Rightarrow> acct_sum es a c = 0)"
  using agrees_keys [OF balances_agrees(1), of es bal "(a, c)"] agrees_None [OF balances_agrees(1), of es bal "(a, c)"]
  by (simp split: option.split)

theorem balances_refine_witness:
  "acct_sum (open_ledger ''r'' ''p'') ''a'' ''USD'' = 0"
  using balances_refine [of "open_ledger ''r'' ''p''" "[]" "''a''" "''USD''"]
  by (simp add: balances_def open_ledger_def entry_postings_def)

lemma balance_of_eq: "balance_of es a c = Inr m \<Longrightarrow> m = Mny (acct_sum es a c) c"
  using agrees_keys [OF balances_agrees(1), of es _ "(a, c)"] agrees_None [OF balances_agrees(1), of es _ "(a, c)"]
  by (fastforce simp: balance_of_def bindR_eq_Inr split: option.splits)

subsection \<open>Appending\<close>

lemma link_digest_2 [simp]: "link_digest H l current_major = Inr (digest H l)"
  by (simp add: link_digest_def current_major_def link_digest_v2_def)

lemma post_eq_Inr:
  "post H es ps memo = Inr es' \<longleftrightarrow>
     is_balanced ps = Inr True \<and> es \<noteq> [] \<and>
     es' = es @ [\<lparr>body = PostingSet ps memo, seq = seq (last es) + 1,
                  prev = digest H (link_of (entry_json (last es)))\<rparr>]"
  by (auto simp: post_def bindR_eq_Inr)

lemma post_acct: "post H es ps memo = Inr es' \<Longrightarrow> acct_sum es' a c = acct_sum es a c + post_sum ps a c"
  by (auto simp: post_eq_Inr acct_sum_append) (simp add: acct_sum_def all_postings_def entry_postings_def)

lemma post_total: "post H es ps memo = Inr es' \<Longrightarrow> total_sum es' c = total_sum es c + cur_sum ps c"
  by (auto simp: post_eq_Inr total_sum_append) (simp add: total_sum_def all_postings_def entry_postings_def)

lemma post_zero: "post H es ps memo = Inr es' \<Longrightarrow> cur_sum ps c = 0"
  using is_balanced_cases by (auto simp: post_eq_Inr)

lemma post_memos: "post H es ps memo = Inr es' \<Longrightarrow> memos es' = memos es @ [memo]"
  by (auto simp: post_eq_Inr memos_def entry_memo_def map_filter_def)

section \<open>The contract of a double-entry ledger\<close>

text \<open>
  What the settlement components rely on: posting changes an account by the posted amounts, the
  posted amounts cancel per currency, and the memo is recorded. Clients are verified against this
  interface.
\<close>

locale double_entry =
  fixes do_post :: "'l \<Rightarrow> posting list \<Rightarrow> string \<Rightarrow> 'l res"
    and bal :: "'l \<Rightarrow> string \<Rightarrow> string \<Rightarrow> int"
    and tot :: "'l \<Rightarrow> string \<Rightarrow> int"
    and tags :: "'l \<Rightarrow> string list"
  assumes post_bal: "do_post l ps m = Inr l' \<Longrightarrow> bal l' a c = bal l a c + post_sum ps a c"
    and post_tot: "do_post l ps m = Inr l' \<Longrightarrow> tot l' c = tot l c + cur_sum ps c"
    and post_bal0: "do_post l ps m = Inr l' \<Longrightarrow> cur_sum ps c = 0"
    and post_tag: "do_post l ps m = Inr l' \<Longrightarrow> tags l' = tags l @ [m]"
begin

inductive reaches :: "'l \<Rightarrow> 'l \<Rightarrow> bool" where
  reaches_refl: "reaches l l"
| reaches_post: "reaches l l1 \<Longrightarrow> do_post l1 ps m = Inr l2 \<Longrightarrow> reaches l l2"

lemma reaches_conserves: "reaches l l' \<Longrightarrow> tot l' c = tot l c"
  by (induction rule: reaches.induct) (use post_tot post_bal0 in auto)

lemma reaches_tags: "reaches l l' \<Longrightarrow> \<exists>ms. tags l' = tags l @ ms"
  by (induction rule: reaches.induct) (auto dest: post_tag)

lemma reaches_trans: "reaches l1 l2 \<Longrightarrow> reaches l l1 \<Longrightarrow> reaches l l2"
  by (induction rule: reaches.induct) (auto intro: reaches_post)

lemma untouched: "do_post l ps m = Inr l' \<Longrightarrow> \<forall>p \<in> set ps. account p \<noteq> a \<Longrightarrow> bal l' a c = bal l a c"
proof -
  have z: "\<forall>p \<in> set ps. account p \<noteq> a \<Longrightarrow> post_sum ps a c = 0" by (induction ps) auto
  assume "do_post l ps m = Inr l'" and "\<forall>p \<in> set ps. account p \<noteq> a"
  then show ?thesis by (simp add: post_bal z)
qed

text \<open>A fold of operations each of which posts a finite number of times.\<close>

lemma fold_reaches:
  assumes "\<And>l x l'. f l x = Inr l' \<Longrightarrow> reaches l l'" and "foldR f l xs = Inr l'"
  shows "reaches l l'"
  using assms(2)
proof (induction xs arbitrary: l)
  case Nil
  then show ?case by (simp add: reaches_refl)
next
  case (Cons x xs)
  from Cons.prems obtain l1 where "f l x = Inr l1" "foldR f l1 xs = Inr l'" by (auto simp: bindR_eq_Inr)
  then show ?case using reaches_trans [OF Cons.IH assms(1)] by blast
qed

end

interpretation rl: double_entry "post H" acct_sum total_sum memos for H
  by unfold_locales (auto intro: post_acct post_total post_zero post_memos)

lemmas ledger_simps = post_acct post_memos post_total

section \<open>Conservation\<close>

lemma total_open [simp]: "total_sum (open_ledger r p) c = 0" "acct_sum (open_ledger r p) a c = 0"
  by (simp_all add: total_sum_def acct_sum_def open_ledger_def all_postings_def entry_postings_def)

lemma cur_sum_accounts:
  assumes "finite A" and "account ` set ps \<subseteq> A"
  shows "(\<Sum>a \<in> A. post_sum ps a c) = cur_sum ps c"
  using assms(2)
proof (induction ps)
  case (Cons p ps)
  have "(\<Sum>a \<in> A. post_sum (p # ps) a c)
        = (\<Sum>a \<in> A. if account p = a then (if pcur p = c then pval p else 0) else 0) + (\<Sum>a \<in> A. post_sum ps a c)"
    by (simp flip: sum.distrib)
  also have "\<dots> = cur_sum (p # ps) c" using Cons assms(1) by (simp add: sum.delta)
  finally show ?case .
qed simp

lemma fold_by_currency:
  assumes "agrees d (\<lambda>c. c) f" and "\<forall>kv \<in> set kvs. currency (snd kv) = snd (fst kv)"
    and "foldR (\<lambda>d kv. add_money d (snd (fst kv)) (snd (fst kv)) (Inr (snd kv))) d kvs = Inr d'"
  shows "agrees d' (\<lambda>c. c) (\<lambda>c. f c + sum_list (map (\<lambda>kv. units (snd kv)) (filter (\<lambda>kv. snd (fst kv) = c) kvs)))"
  using assms
proof (induction kvs arbitrary: d f)
  case (Cons kv kvs)
  from Cons.prems(3) obtain d1 where
    d1: "add_money d (snd (fst kv)) (snd (fst kv)) (Inr (snd kv)) = Inr d1"
    "foldR (\<lambda>d kv. add_money d (snd (fst kv)) (snd (fst kv)) (Inr (snd kv))) d1 kvs = Inr d'"
    by (auto simp: bindR_eq_Inr)
  from agrees_add [OF Cons.prems(1) d1(1)]
  have ag: "agrees d1 (\<lambda>c. c) (\<lambda>x. if x = snd (fst kv) then f (snd (fst kv)) + units (snd kv) else f x)" by auto
  have "(\<lambda>c. (if c = snd (fst kv) then f (snd (fst kv)) + units (snd kv) else f c)
              + sum_list (map (\<lambda>kv. units (snd kv)) (filter (\<lambda>kv. snd (fst kv) = c) kvs)))
        = (\<lambda>c. f c + sum_list (map (\<lambda>kv. units (snd kv)) (filter (\<lambda>kv. snd (fst kv) = c) (kv # kvs))))"
    by (intro ext) simp
  then show ?case using Cons.IH [OF ag _ d1(2)] Cons.prems(2) by simp
qed simp

lemma balances_total:
  assumes "balances es = Inr bal"
  shows "sum_list (map (\<lambda>kv. units (snd kv)) (filter (\<lambda>kv. snd (fst kv) = c) bal)) = total_sum es c"
proof -
  note ag = balances_agrees(1) [OF assms] and dd = balances_agrees(2) [OF assms]
  let ?K = "fst ` set bal"
  have val: "units (snd kv) = acct_sum es (fst (fst kv)) (snd (fst kv))" if "kv \<in> set bal" for kv
    using agrees_keys [OF ag, of "fst kv" "snd kv"] that dd by (simp add: dkeys_distinct_def)
  have dist: "distinct (map fst (filter (\<lambda>kv. snd (fst kv) = c) bal))"
    using dd by (simp add: dkeys_distinct_def distinct_map_filter)
  have "sum_list (map (\<lambda>kv. units (snd kv)) (filter (\<lambda>kv. snd (fst kv) = c) bal))
        = sum_list (map (\<lambda>k. acct_sum es (fst k) c) (map fst (filter (\<lambda>kv. snd (fst kv) = c) bal)))"
    by (simp add: comp_def, rule arg_cong [where f = sum_list]) (use val in auto)
  also have "\<dots> = (\<Sum>k \<in> {k \<in> ?K. snd k = c}. acct_sum es (fst k) c)"
    by (subst sum_list_distinct_conv_sum_set [OF dist]) (rule sum.cong; force)
  also have "\<dots> = (\<Sum>a \<in> fst ` {k \<in> ?K. snd k = c}. acct_sum es a c)"
    by (rule sum.reindex [symmetric, unfolded comp_def]) (auto simp: inj_on_def prod_eq_iff)
  also have "\<dots> = (\<Sum>a \<in> fst ` {k \<in> ?K. snd k = c} \<union> account ` set (all_postings es). acct_sum es a c)"
  proof (rule sum.mono_neutral_left)
    show "\<forall>a \<in> fst ` {k \<in> ?K. snd k = c} \<union> account ` set (all_postings es) - fst ` {k \<in> ?K. snd k = c}. acct_sum es a c = 0"
    proof
      fix a assume "a \<in> fst ` {k \<in> ?K. snd k = c} \<union> account ` set (all_postings es) - fst ` {k \<in> ?K. snd k = c}"
      then have "(a, c) \<notin> ?K" by force
      then have "dget bal (a, c) = None" by (simp add: map_of_eq_None_iff)
      then show "acct_sum es a c = 0" using agrees_None [OF ag, of "(a, c)"] by simp
    qed
  qed auto
  also have "\<dots> = total_sum es c"
    unfolding acct_sum_def total_sum_def by (rule cur_sum_accounts) auto
  finally show ?thesis .
qed

lemma global_zero_eq: "global_zero es = Inr ok \<Longrightarrow> ok = (\<forall>c. total_sum es c = 0)"
proof -
  assume "global_zero es = Inr ok"
  then obtain bal d where bal: "balances es = Inr bal"
    and d: "foldR (\<lambda>d kv. add_money d (snd (fst kv)) (snd (fst kv)) (Inr (snd kv))) [] bal = Inr d"
    and ok: "ok = (\<forall>m \<in> snd ` set d. money_is_zero m)"
    by (auto simp: global_zero_def bindR_eq_Inr)
  have cur: "\<forall>kv \<in> set bal. currency (snd kv) = snd (fst kv)"
  proof
    fix kv assume "kv \<in> set bal"
    then have "dget bal (fst kv) = Some (snd kv)"
      using balances_agrees(2) [OF bal] by (simp add: dkeys_distinct_def)
    from agrees_keys [OF balances_agrees(1) [OF bal] this] show "currency (snd kv) = snd (fst kv)" by simp
  qed
  have "agrees d (\<lambda>c. c) (\<lambda>c. 0 + total_sum es c)"
    using fold_by_currency [OF agrees_Nil cur d] by (simp add: balances_total [OF bal])
  moreover have "dkeys_distinct d"
    by (rule foldR_invariant [OF d, where P = dkeys_distinct]) (auto simp: dkeys_distinct_def [of "[]"] intro: add_money_distinct)
  ultimately show ?thesis using ok agrees_all_zero [of d] by simp
qed

text \<open>
  C12: value is conserved by every run of the ledger: whatever sequence of posting sets has been
  accepted on top of a fresh ledger, the balances add up to zero in every currency, and the code's
  own check \<open>global_zero\<close> answers true whenever it returns.
\<close>

theorem ledger_conserves_value:
  "rl.reaches H (open_ledger run plan) es \<Longrightarrow>
   total_sum es c = 0 \<and> (global_zero es = Inr ok \<longrightarrow> ok)"
  using rl.reaches_conserves [of H "open_ledger run plan" es] global_zero_eq [of es ok] by auto

theorem ledger_conserves_value_witness:
  "\<exists>es. rl.reaches (\<lambda>s. s) (open_ledger ''r'' ''p'') es \<and> length es = 2 \<and> total_sum es ''USD'' = 0"
proof -
  let ?ps = "[mk_posting ''x'' (Mny (- 1) ''USD''), mk_posting ''y'' (Mny 1 ''USD'')]"
  have "money_of (AStr (amount_str (Mny u ''USD''))) ''USD'' = Inr (Mny u ''USD'')" if "\<bar>u\<bar> < 10" for u
    using money_of_str [of "Mny u ''USD''"] that by simp
  then have "is_balanced ?ps = Inr True"
    by (simp add: is_balanced_def add_money_def mk_posting_def money_add_eq)
  then obtain es where es: "post (\<lambda>s. s) (open_ledger ''r'' ''p'') ?ps ''m'' = Inr es"
    by (simp add: post_def open_ledger_def)
  then have len: "length es = 2" by (simp add: post_eq_Inr open_ledger_def)
  have r: "rl.reaches (\<lambda>s. s) (open_ledger ''r'' ''p'') es"
    by (rule rl.reaches_post [OF rl.reaches_refl es])
  from ledger_conserves_value [OF r, of "''USD''"] r len show ?thesis by blast
qed

section \<open>Posting succeeds\<close>

definition well_formed_posting :: "posting \<Rightarrow> bool" where
  "well_formed_posting p \<longleftrightarrow> (\<exists>m. money_of (AStr (amount_s p)) (pcur p) = Inr m)"

definition weight_of :: "posting list \<Rightarrow> int" where
  "weight_of ps = sum_list (map (\<lambda>p. \<bar>pval p\<bar>) ps)"

lemma weight_of_simps [simp]:
  "weight_of [] = 0" "weight_of (p # ps) = \<bar>pval p\<bar> + weight_of ps" "weight_of (ps @ qs) = weight_of ps + weight_of qs"
  by (simp_all add: weight_of_def)

lemma well_formed_mk_posting: "\<bar>units m\<bar> < 10 ^ 34 \<Longrightarrow> well_formed_posting (mk_posting a m)"
  using money_of_str [of m] by (auto simp: well_formed_posting_def mk_posting_def)

lemma well_formed_value: "well_formed_posting p \<Longrightarrow> money_of (AStr (amount_s p)) (pcur p) = Inr (Mny (pval p) (pcur p))"
  using money_of_bounded by (fastforce simp: well_formed_posting_def pval_def)

text \<open>The loop returns while the running amounts stay below 34 digits.\<close>

lemma fold_postings_ok:
  assumes "agrees d cur f" and "\<And>p. cur (key p) = pcur p" and "\<forall>p \<in> set ps. well_formed_posting p"
    and "\<And>k. \<bar>f k\<bar> + weight_of ps < 10 ^ 34"
  shows "\<exists>d'. foldR (\<lambda>d p. add_money d (key p) (pcur p) (money_of (AStr (amount_s p)) (pcur p))) d ps = Inr d'"
  using assms(1,3,4)
proof (induction ps arbitrary: d f)
  case (Cons p ps)
  have v: "money_of (AStr (amount_s p)) (pcur p) = Inr (Mny (pval p) (pcur p))"
    using Cons.prems(2) well_formed_value by simp
  have nn: "0 \<le> weight_of qs" for qs by (induction qs) auto
  have b: "\<bar>f (key p) + pval p\<bar> < 10 ^ 34"
    using Cons.prems(3) [of "key p"] nn [of ps] abs_triangle_ineq [of "f (key p)" "pval p"] by simp
  obtain d1 where d1: "add_money d (key p) (pcur p) (money_of (AStr (amount_s p)) (pcur p)) = Inr d1"
    using agrees_add_ok [OF Cons.prems(1) v, of "key p"] b assms(2) [of p] by auto
  have ag: "agrees d1 cur (\<lambda>x. if x = key p then f (key p) + pval p else f x)"
    using agrees_add [OF Cons.prems(1), of "key p" "Inr (Mny (pval p) (pcur p))" d1] d1 assms(2) [of p] v
    by (simp cong: if_cong)
  have "\<exists>d'. foldR (\<lambda>d p. add_money d (key p) (pcur p) (money_of (AStr (amount_s p)) (pcur p))) d1 ps = Inr d'"
  proof (rule Cons.IH [OF ag])
    fix k
    show "\<bar>if k = key p then f (key p) + pval p else f k\<bar> + weight_of ps < 10 ^ 34"
      using Cons.prems(3) [of k] abs_triangle_ineq [of "f (key p)" "pval p"] by auto
  qed (use Cons.prems(2) in simp)
  then show ?case using d1 by simp
qed simp

lemma is_balanced_returns:
  assumes "\<forall>p \<in> set ps. well_formed_posting p" and "weight_of ps < 10 ^ 34"
  shows "is_balanced ps = Inr (\<forall>c. cur_sum ps c = 0)"
proof -
  have "\<exists>d. foldR (\<lambda>d p. add_money d (pcur p) (pcur p) (money_of (AStr (amount_s p)) (pcur p))) [] ps = Inr d"
    by (rule fold_postings_ok [OF agrees_Nil]) (use assms in simp_all)
  then obtain b where "is_balanced ps = Inr b" by (auto simp: is_balanced_def)
  then show ?thesis using is_balanced_cases by simp
qed

lemma post_returns:
  assumes "es \<noteq> []" and "\<forall>p \<in> set ps. well_formed_posting p" and "weight_of ps < 10 ^ 34" and "\<And>c. cur_sum ps c = 0"
  shows "\<exists>es'. post H es ps memo = Inr es'"
  using assms is_balanced_returns [OF assms(2,3)] by (simp add: post_def)

lemma balances_returns:
  assumes "\<forall>p \<in> set (all_postings es). well_formed_posting p" and "weight_of (all_postings es) < 10 ^ 34"
  shows "\<exists>bal. balances es = Inr bal"
  unfolding balances_fold by (rule fold_postings_ok [OF agrees_Nil, where cur = snd]) (use assms in simp_all)

text \<open>A transfer between two accounts is a balanced posting set.\<close>

lemma post_pair:
  assumes "es \<noteq> []" and "\<bar>units m\<bar> < 10 ^ 33"
  obtains es' where "post H es [mk_posting a (Mny (- units m) (currency m)), mk_posting b m] memo = Inr es'"
    and "\<And>x c. acct_sum es' x c = acct_sum es x c
        + (if c = currency m then (if x = b then units m else 0) - (if x = a then units m else 0) else 0)"
proof -
  let ?ps = "[mk_posting a (Mny (- units m) (currency m)), mk_posting b m]"
  have v: "pval (mk_posting a (Mny (- units m) (currency m))) = - units m" "pval (mk_posting b m) = units m"
    using assms(2) by (simp_all add: pval_mk_posting)
  have "\<exists>es'. post H es ?ps memo = Inr es'"
    by (rule post_returns) (use assms v in \<open>auto intro: well_formed_mk_posting\<close>)
  then obtain es' where es': "post H es ?ps memo = Inr es'" by blast
  show thesis by (rule that [OF es']) (use v in \<open>simp add: post_acct [OF es']\<close>)
qed

lemma balance_of_returns:
  assumes "\<forall>p \<in> set (all_postings es). well_formed_posting p" and "weight_of (all_postings es) < 10 ^ 34"
  shows "balance_of es a c = Inr (Mny (acct_sum es a c) c)"
proof -
  obtain bal where "balances es = Inr bal" using balances_returns [OF assms] by blast
  then have "\<exists>m. balance_of es a c = Inr m" by (auto simp: balance_of_def split: option.split)
  then show ?thesis using balance_of_eq by metis
qed

text \<open>A fresh ledger with one funding: the start of the concrete runs.\<close>

lemma funded_ledger:
  assumes "\<bar>u\<bar> < 10 ^ 33" and "a \<noteq> b"
  obtains es where "es \<noteq> []" "memos es = [memo]" "balance_of es b c = Inr (Mny u c)"
    "\<And>x. acct_sum es x c = (if x = b then u else 0) - (if x = a then u else 0)"
proof -
  let ?m = "Mny u c" and ?l = "open_ledger ''r'' ''p''"
  have ne: "?l \<noteq> []" by (simp add: open_ledger_def)
  have u: "\<bar>units ?m\<bar> < 10 ^ 33" using assms(1) by simp
  obtain es where po: "post H ?l [mk_posting a (Mny (- units ?m) (currency ?m)), mk_posting b ?m] memo = Inr es"
    and sums: "\<And>x c. acct_sum es x c = acct_sum ?l x c
        + (if c = currency ?m then (if x = b then units ?m else 0) - (if x = a then units ?m else 0) else 0)"
    using post_pair [OF ne u] by metis
  have "all_postings es = [mk_posting a (Mny (- u) c), mk_posting b ?m]"
    using po by (auto simp: post_eq_Inr all_postings_def open_ledger_def entry_postings_def)
  then have "balance_of es b c = Inr (Mny (acct_sum es b c) c)"
    using assms(1) by (intro balance_of_returns) (auto simp: pval_mk_posting intro!: well_formed_mk_posting)
  moreover have "memos es = [memo]"
    using post_memos [OF po] by (simp add: memos_def open_ledger_def entry_memo_def map_filter_simps)
  moreover have "acct_sum es x c = (if x = b then u else 0) - (if x = a then u else 0)" for x by (simp add: sums)
  moreover have "es \<noteq> []" using po by (simp add: post_eq_Inr)
  ultimately show thesis using assms(2) by (intro that [of es]) simp_all
qed

section \<open>The escrow cycle\<close>

lemma fund_escrow_sum:
  assumes "fund_escrow H es funder amt acct memo = Inr es'" and "\<bar>units amt\<bar> < 10 ^ 28"
  shows "acct_sum es' x c = acct_sum es x c
     + (if c = currency amt then (if x = acct then units amt else 0) - (if x = funder then units amt else 0) else 0)"
proof -
  let ?n = "Mny (- units amt) (currency amt)"
  have "post H es [mk_posting funder ?n, mk_posting acct amt] memo = Inr es'"
    using assms by (simp add: fund_escrow_def money_neg_eq)
  moreover have "pval (mk_posting funder ?n) = - units amt" "pval (mk_posting acct amt) = units amt"
    using assms(2) by (simp_all add: pval_mk_posting)
  ultimately show ?thesis by (simp add: post_acct)
qed

lemma money_of_in_split: "money_split t ws = Inr ps \<Longrightarrow> p \<in> set ps \<Longrightarrow> \<bar>units p\<bar> < 10 ^ 34 \<and> currency p = currency t"
  by (auto simp: money_split_def Let_def bindR_eq_Inr mapR_eq_Inr list_all2_conv_all_nth in_set_conv_nth
      split: if_splits dest!: money_of_bounded spec)

lemma release_sum:
  assumes "release H es payee fee amt fw pw memo acct = Inr es'" and "\<bar>units amt\<bar> < 10 ^ 28"
  obtains f p where "money_split amt [fw, pw] = Inr [Mny f (currency amt), Mny p (currency amt)]"
    and "f + p = units amt"
    and "\<And>x c. acct_sum es' x c = acct_sum es x c
     + (if c = currency amt then (if x = fee then f else 0) + (if x = payee then p else 0)
                                 - (if x = acct then units amt else 0) else 0)"
proof -
  let ?n = "Mny (- units amt) (currency amt)"
  from assms obtain parts where pt: "money_split amt [fw, pw] = Inr parts"
    and pc: "(case parts of [fp, pp] \<Rightarrow> bindR (money_neg amt) (\<lambda>n.
        post H es [mk_posting acct n, mk_posting fee fp, mk_posting payee pp] memo) | _ \<Rightarrow> Inl ValueError) = Inr es'"
    by (auto simp: release_def bindR_eq_Inr)
  have "money_neg amt = Inr ?n" using assms(2) by (rule money_neg_eq)
  then obtain fp pp where s: "money_split amt [fw, pw] = Inr [fp, pp]"
    and po: "post H es [mk_posting acct ?n, mk_posting fee fp, mk_posting payee pp] memo = Inr es'"
    using pt pc by (auto split: list.split_asm)
  have b: "\<bar>units fp\<bar> < 10 ^ 34" "currency fp = currency amt" "\<bar>units pp\<bar> < 10 ^ 34" "currency pp = currency amt"
    using money_of_in_split [OF s] by simp_all
  have v: "pval (mk_posting acct ?n) = - units amt" "pval (mk_posting fee fp) = units fp" "pval (mk_posting payee pp) = units pp"
    using assms(2) b by (simp_all add: pval_mk_posting)
  have z: "units fp + units pp = units amt" using post_zero [OF po, of "currency amt"] v b by simp
  show thesis
  proof (rule that [of "units fp" "units pp"])
    show "money_split amt [fw, pw] = Inr [Mny (units fp) (currency amt), Mny (units pp) (currency amt)]"
      using s b by (metis money.surjective old.unit.exhaust)
  qed (use z v b in \<open>simp_all add: post_acct [OF po]\<close>)
qed

text \<open>Two integer weights: the parts add up, stay small, and are not negative when the amount is not.\<close>

lemma split_two:
  assumes "\<bar>units amt\<bar> \<le> 10 ^ 26" and "0 \<le> fw" "0 \<le> pw" "0 < fw + pw" "fw + pw < 10 ^ 28"
  obtains f p where "money_split amt [AInt fw, AInt pw] = Inr [Mny f (currency amt), Mny p (currency amt)]"
    and "f + p = units amt" and "\<bar>f\<bar> < 10 ^ 27" "\<bar>p\<bar> < 10 ^ 27" and "0 \<le> units amt \<Longrightarrow> 0 \<le> f \<and> 0 \<le> p"
proof -
  obtain as where as: "money_split amt [AInt fw, AInt pw] = Inr (map (\<lambda>a. Mny a (currency amt)) as)"
    "length as = 2" "sum_list as = units amt"
    "\<forall>i<2. \<bar>of_int (as ! i) - of_int (units amt) * of_int ([fw, pw] ! i) / of_int (fw + pw)\<bar> < (2::rat)"
    "0 \<le> units amt \<longrightarrow> (\<forall>a \<in> set as. 0 \<le> a)"
    using money_split_parts [of "[AInt fw, AInt pw]" 0 "[fw, pw]" amt] assms
    by (auto simp: to_decimal_def)
  obtain f p where fp: "as = [f, p]" using as(2) by (auto simp: length_Suc_conv numeral_2_eq_2)
  have small: "\<bar>x\<bar> < 10 ^ 27" if "\<bar>of_int x - of_int (units amt) * of_int w / of_int (fw + pw)\<bar> < (2::rat)"
    and w: "0 \<le> w" "w \<le> fw + pw" for x w
  proof -
    have "\<bar>of_int (units amt) * of_int w / of_int (fw + pw) :: rat\<bar> \<le> \<bar>of_int (units amt)\<bar>"
      using w assms(4) by (simp add: abs_mult abs_divide pos_divide_le_eq mult_left_mono flip: of_int_add)
    then have "(of_int \<bar>x\<bar> :: rat) < of_int (\<bar>units amt\<bar> + 2)" using that(1)
      unfolding of_int_abs of_int_add of_int_numeral by linarith
    then have "\<bar>x\<bar> < \<bar>units amt\<bar> + 2" by (simp only: of_int_less_iff)
    also have "\<dots> \<le> 10 ^ 26 + 2" using assms(1) by simp
    also have "\<dots> < 10 ^ 27" by simp
    finally show ?thesis .
  qed
  have "\<bar>f\<bar> < 10 ^ 27" using small [of f fw] as(4) fp assms(2,3) by (auto dest: spec [of _ 0])
  moreover have "\<bar>p\<bar> < 10 ^ 27" using small [of p pw] as(4) fp assms(2,3) by (auto dest: spec [of _ 1])
  ultimately show thesis using that [of f p] as(1,3,5) fp by simp
qed

lemma release_returns:
  assumes "es \<noteq> []" and "\<bar>units amt\<bar> \<le> 10 ^ 26" and "0 \<le> fw" "0 \<le> pw" "0 < fw + pw" "fw + pw < 10 ^ 28"
  shows "\<exists>es'. release H es payee fee amt (AInt fw) (AInt pw) memo acct = Inr es'"
proof -
  let ?c = "currency amt"
  have u28: "\<bar>units amt\<bar> < 10 ^ 28" using assms(2) by simp
  obtain f p where fp: "money_split amt [AInt fw, AInt pw] = Inr [Mny f ?c, Mny p ?c]" "f + p = units amt"
    and small: "\<bar>f\<bar> < 10 ^ 27" "\<bar>p\<bar> < 10 ^ 27"
    using split_two [OF assms(2-)] by blast
  let ?ps = "[mk_posting acct (Mny (- units amt) ?c), mk_posting fee (Mny f ?c), mk_posting payee (Mny p ?c)]"
  have v: "pval (mk_posting acct (Mny (- units amt) ?c)) = - units amt"
    "pval (mk_posting fee (Mny f ?c)) = f" "pval (mk_posting payee (Mny p ?c)) = p"
    using u28 small by (simp_all add: pval_mk_posting)
  have "\<exists>es'. post H es ?ps memo = Inr es'"
    by (rule post_returns) (use assms(1) u28 small v fp in \<open>auto intro!: well_formed_mk_posting\<close>)
  then show ?thesis using fp u28 by (simp add: release_def money_neg_eq)
qed

text \<open>
  A fund and release cycle nets the escrow account to zero change, and the fee account and
  the payee together receive exactly the amount the funder paid.
\<close>

theorem escrow_cycle:
  assumes "fund_escrow H es funder amt acct m1 = Inr es1"
    and "release H es1 payee fee amt fw pw m2 acct = Inr es2"
    and "\<bar>units amt\<bar> < 10 ^ 28" and "distinct [funder, acct, payee, fee]"
  shows "acct_sum es2 acct c = acct_sum es acct c
     \<and> (acct_sum es2 payee (currency amt) - acct_sum es payee (currency amt))
       + (acct_sum es2 fee (currency amt) - acct_sum es fee (currency amt)) = units amt
     \<and> acct_sum es2 funder (currency amt) = acct_sum es funder (currency amt) - units amt"
proof -
  from release_sum [OF assms(2,3)] obtain f p where fp: "f + p = units amt"
    and r: "\<And>x c. acct_sum es2 x c = acct_sum es1 x c
     + (if c = currency amt then (if x = fee then f else 0) + (if x = payee then p else 0)
                                 - (if x = acct then units amt else 0) else 0)" by metis
  show ?thesis unfolding r fund_escrow_sum [OF assms(1,3)] using fp assms(4) by auto
qed

theorem escrow_cycle_witness:
  "\<exists>es. acct_sum es ''escrow'' ''USD'' = 0 \<and> acct_sum es ''alice'' ''USD'' = - 1000000
      \<and> acct_sum es ''bob'' ''USD'' + acct_sum es ''fee'' ''USD'' = 1000000"
proof -
  let ?m = "Mny 1000000 ''USD''" and ?l = "open_ledger ''r'' ''p''" and ?H = "\<lambda>s::string. s"
  have ne: "?l \<noteq> []" by (simp add: open_ledger_def)
  obtain e1 where "post ?H ?l [mk_posting ''alice'' (Mny (- units ?m) ''USD''), mk_posting ''escrow'' ?m] ''fund'' = Inr e1"
    by (rule post_pair [OF ne, of ?m ?H "''alice''" "''escrow''" "''fund''"]) auto
  then have f: "fund_escrow ?H ?l ''alice'' ?m ''escrow'' ''fund'' = Inr e1" and "e1 \<noteq> []"
    by (auto simp: fund_escrow_def money_neg_eq post_eq_Inr)
  obtain e2 where r: "release ?H e1 ''bob'' ''fee'' ?m (AInt 5) (AInt 95) ''rel'' ''escrow'' = Inr e2"
    using release_returns [OF \<open>e1 \<noteq> []\<close>, of ?m 5 95 ?H "''bob''" "''fee''" "''rel''" "''escrow''"] by auto
  from escrow_cycle [OF f r, of "''USD''"] show ?thesis by (intro exI [of _ e2]) simp
qed

section \<open>The ledger is a verified chain\<close>

text \<open>Posting is \<open>ledger.append\<close> on the records.\<close>

lemma entry_seq: "dget (obj_members (entry_json e)) ''seq'' = Some (JInt (seq e))"
  by (simp add: entry_json_def jput_def obj_members_def dget_dput)

lemma post_is_chain_append:
  "post H es ps memo = Inr es' \<Longrightarrow>
   chain_append H (map entry_json es) (JObj (body_json (PostingSet ps memo))) current_major = Inr (map entry_json es')"
  by (auto simp: post_eq_Inr chain_append_def last_map entry_seq int_of_json_def) (simp add: entry_json_def)

text \<open>
  Every ledger the posting operations can build passes the chain verifier bound to its
  origin, provided no digest is the all-zero root.
\<close>

theorem ledger_chain_verifies:
  assumes "rl.reaches H (open_ledger run plan) es" and "run \<noteq> []" "plan \<noteq> []" and "\<And>s. H s \<noteq> zero_prev"
  shows "verify_chain H (map entry_json es) current_major (Some run) (Some plan) = Inr (True, [])"
proof -
  have "verify_chain H (map entry_json es) current_major (Some run) (Some plan) = Inr (True, [])"
    if "rl.reaches H l es" "l = open_ledger run plan" for l
    using that
  proof (induction rule: rl.reaches.induct)
    case (reaches_refl l)
    then show ?case using assms(2,3)
      by (simp add: open_ledger_def entry_json_def body_json_def verify_chain_ok_iff verify_entries_Cons_ok
          genesis_problems_def jget_JObj)
  next
    case (reaches_post l l1 ps m l2)
    show ?case
      by (rule chain_append_step [OF reaches_post.IH [OF reaches_post.prems] post_is_chain_append [OF reaches_post.hyps(2)]])
        (use assms(4) in \<open>simp_all add: body_json_def jget_JObj digest_def\<close>)
  qed
  then show ?thesis using assms(1) by blast
qed

theorem ledger_chain_verifies_witness:
  "verify_chain (\<lambda>s. ''h'' @ s) (map entry_json (open_ledger ''r'' ''p'')) current_major (Some ''r'') (Some ''p'') = Inr (True, [])"
  by (rule ledger_chain_verifies [OF rl.reaches_refl]) (simp_all add: zero_prev_def replicate_Suc eval_nat_numeral)

end
