(* ===== verification/Idem.thy ===== *)
theory Idem
  imports RewardLedger
begin

text \<open>
  The contract of the operations that are idempotent on a key: the ledger remembers the key in the
  memo of the posting set, and a call whose key is remembered changes nothing. Each settlement
  component that promises this interprets the locale on its own operation.
\<close>

definition posted :: "entry list \<Rightarrow> string \<Rightarrow> bool" where
  "posted es tag \<longleftrightarrow> (\<exists>e \<in> set es. entry_memo e = Some tag)"

lemma posted_memos: "posted es tag \<longleftrightarrow> tag \<in> set (memos es)"
  by (induction es) (auto simp: posted_def memos_def map_filter_simps split: option.splits)

lemma posted_append: "posted (es @ fs) t \<longleftrightarrow> posted es t \<or> posted fs t"
  by (auto simp: posted_def)

lemma posted_post: "post H es ps memo = Inr es' \<Longrightarrow> posted es' t \<longleftrightarrow> posted es t \<or> t = memo"
  by (auto simp: posted_memos post_memos)

text \<open>
  The weaker contract of an operation that chooses its own tag: it either changes nothing or
  records one tag the ledger has not seen.
\<close>

locale fresh_tags =
  fixes step :: "'l \<Rightarrow> 'x \<Rightarrow> ('l \<times> 'r) res"
    and seen :: "'l \<Rightarrow> string list"
  assumes fresh: "step l x = Inr (l', r) \<Longrightarrow> l' = l \<or> (\<exists>t. t \<notin> set (seen l) \<and> seen l' = seen l @ [t])"
begin

definition runs :: "'l \<Rightarrow> 'x list \<Rightarrow> 'l res" where
  "runs l xs = foldR (\<lambda>l x. bindR (step l x) (\<lambda>p. Inr (fst p))) l xs"

lemma count_step: "step l x = Inr (l', r) \<Longrightarrow> count_list (seen l') t \<le> max 1 (count_list (seen l) t)"
  using fresh [of l x l' r] by (auto simp: count_list_0_iff)

lemma count_runs: "runs l xs = Inr l' \<Longrightarrow> count_list (seen l') t \<le> max 1 (count_list (seen l) t)"
proof (induction xs arbitrary: l)
  case (Cons x xs)
  from Cons.prems obtain l1 r where s: "step l x = Inr (l1, r)" and rest: "runs l1 xs = Inr l'"
    by (auto simp: runs_def bindR_eq_Inr)
  have "count_list (seen l') t \<le> max 1 (count_list (seen l1) t)" using Cons.IH [OF rest] .
  also have "\<dots> \<le> max 1 (count_list (seen l) t)" using count_step [OF s, of t] by simp
  finally show ?case .
qed (simp add: runs_def)

end

locale once =
  fixes step :: "'l \<Rightarrow> 'k \<Rightarrow> 'x \<Rightarrow> ('l \<times> 'r) res"
    and mark :: "'k \<Rightarrow> string"
    and seen :: "'l \<Rightarrow> string list"
  assumes replay: "step l k x = Inr (l', r) \<Longrightarrow> mark k \<in> set (seen l) \<Longrightarrow> l' = l"
    and effect: "step l k x = Inr (l', r) \<Longrightarrow> mark k \<notin> set (seen l) \<Longrightarrow> l' = l \<or> seen l' = seen l @ [mark k]"
    and mark_inj: "mark k = mark k' \<Longrightarrow> k = k'"
begin

definition run :: "'l \<Rightarrow> ('k \<times> 'x) list \<Rightarrow> 'l res" where
  "run l calls = foldR (\<lambda>l (k, x). bindR (step l k x) (\<lambda>p. Inr (fst p))) l calls"

lemma seen_mono: "step l k x = Inr (l', r) \<Longrightarrow> set (seen l) \<subseteq> set (seen l')"
  using replay effect by (cases "mark k \<in> set (seen l)") fastforce+

lemma replay_anywhere:
  "step l k x = Inr (l1, r) \<Longrightarrow> mark k \<in> set (seen l1) \<Longrightarrow> run l1 calls = Inr l2 \<Longrightarrow> step l2 k y = Inr (l3, r') \<Longrightarrow> l3 = l2"
proof -
  assume k: "mark k \<in> set (seen l1)" and run: "run l1 calls = Inr l2" and s: "step l2 k y = Inr (l3, r')"
  have "set (seen l1) \<subseteq> set (seen l2)"
    using run unfolding run_def
  proof (rule foldR_invariant [where P = "\<lambda>l. set (seen l1) \<subseteq> set (seen l)"])
    fix l c l'
    assume "set (seen l1) \<subseteq> set (seen l)" and "(\<lambda>(k, x). bindR (step l k x) (\<lambda>p. Inr (fst p))) c = Inr l'"
    then show "set (seen l1) \<subseteq> set (seen l')" using seen_mono by (fastforce simp: bindR_eq_Inr split: prod.splits)
  qed simp
  then show "l3 = l2" using k s replay by blast
qed

end

sublocale once \<subseteq> keyed: fresh_tags "\<lambda>l c. step l (fst c) (snd c)" seen
proof
  fix l c l' r
  assume s: "step l (fst c) (snd c) = Inr (l', r)"
  show "l' = l \<or> (\<exists>t. t \<notin> set (seen l) \<and> seen l' = seen l @ [t])"
    using replay [OF s] effect [OF s] by blast
qed

text \<open>However often and in whatever order a key is retried, it takes effect at most once.\<close>

context once
begin

lemma run_runs: "run l calls = keyed.runs l calls"
  by (simp add: run_def keyed.runs_def case_prod_beta')

lemma at_most_once: "run l calls = Inr l' \<Longrightarrow> count_list (seen l') t \<le> max 1 (count_list (seen l) t)"
  using keyed.count_runs [of l calls l' t] by (simp add: run_runs)

end

end
