(* ===== verification/Credits.thy ===== *)
theory Credits
  imports Idem
begin

text \<open>
  \<open>src/infra/settle/credits.py\<close> and the in-memory half of
  \<open>src/infra/settle/budget.py\<close>: prepaid balances that every run debits, in the reward ledger.
  The dictionaries the functions return become the constructors of a result type.
\<close>

section \<open>Operator credits\<close>

definition usage_prefix :: string where "usage_prefix = ''usage:''"
definition topup_prefix :: string where "topup_prefix = ''topup:''"

definition credit_account :: "string \<Rightarrow> string" where
  "credit_account operator = ''credit:'' @ operator"

definition credit_balance :: "entry list \<Rightarrow> string \<Rightarrow> string \<Rightarrow> money res" where
  "credit_balance es operator c = balance_of es (credit_account operator) c"

record charge =
  ch_currency :: string
  ch_total :: string
  ch_breakdown :: "(string \<times> string) list"

datatype credit_result =
    Duplicate string
  | Credited string string
  | Insufficient string string
  | Debited string string
  | RefRequired string

definition topup :: "(string \<Rightarrow> string) \<Rightarrow> entry list \<Rightarrow> string \<Rightarrow> money \<Rightarrow> string \<Rightarrow> string
    \<Rightarrow> (entry list \<times> credit_result) res" where
  "topup H es operator amt source ref =
     (if ref \<noteq> [] \<and> posted es (topup_prefix @ ref) then
        bindR (credit_balance es operator (currency amt)) (\<lambda>b. Inr (es, Duplicate (amount_str b)))
      else
        bindR (money_neg amt) (\<lambda>n.
        bindR (post H es [mk_posting (credit_account operator) amt, mk_posting (''topup:'' @ source) n]
                 (topup_prefix @ (if ref \<noteq> [] then ref else source))) (\<lambda>es'.
        bindR (credit_balance es' operator (currency amt)) (\<lambda>b.
          Inr (es', Credited (amount_str amt) (amount_str b))))))"

definition admits :: "entry list \<Rightarrow> string \<Rightarrow> money_arg \<Rightarrow> string \<Rightarrow> bool res" where
  "admits es operator tax c =
     bindR (credit_balance es operator c) (\<lambda>b.
     bindR (money_of tax c) (\<lambda>t. money_le t b))"

definition debit_usage :: "(string \<Rightarrow> string) \<Rightarrow> entry list \<Rightarrow> string \<Rightarrow> charge \<Rightarrow> string
    \<Rightarrow> (entry list \<times> credit_result) res" where
  "debit_usage H es operator ch idem =
     (let cur = ch_currency ch in
      if posted es (usage_prefix @ idem) then
        bindR (credit_balance es operator cur) (\<lambda>b. Inr (es, Duplicate (amount_str b)))
      else
        bindR (money_of (AStr (ch_total ch)) cur) (\<lambda>total.
        bindR (credit_balance es operator cur) (\<lambda>bal.
        bindR (money_lt bal total) (\<lambda>short.
          if short then Inr (es, Insufficient (ch_total ch) (amount_str bal))
          else
            bindR (money_neg total) (\<lambda>n.
            bindR (mapR (\<lambda>b. bindR (money_of (AStr (snd b)) cur) (\<lambda>m. Inr (mk_posting (fst b) m))) (ch_breakdown ch)) (\<lambda>ps.
            bindR (post H es (mk_posting (credit_account operator) n # ps) (usage_prefix @ idem)) (\<lambda>es'.
            bindR (credit_balance es' operator cur) (\<lambda>b.
              Inr (es', Debited (ch_total ch) (amount_str b))))))))))"

section \<open>Actor budgets\<close>

definition credits_cur :: string where "credits_cur = ''CREDITS''"
definition seed_prefix :: string where "seed_prefix = ''bud-seed:''"
definition bud_topup_prefix :: string where "bud_topup_prefix = ''bud-topup:''"
definition bud_usage_prefix :: string where "bud_usage_prefix = ''bud-usage:''"

definition account_of :: "string \<Rightarrow> string" where
  "account_of actor = ''budget:'' @ actor"

definition configured_allowance :: "json \<Rightarrow> json" where
  "configured_allowance spec =
     (if \<not> is_obj spec then JNull
      else let v = jget spec ''credits'' in if v \<noteq> JNull then v else jget spec ''budget'')"

definition bud_balance :: "entry list \<Rightarrow> string \<Rightarrow> money res" where
  "bud_balance es actor = balance_of es (account_of actor) credits_cur"

definition seed :: "(string \<Rightarrow> string) \<Rightarrow> entry list \<Rightarrow> string \<Rightarrow> money \<Rightarrow> string option
    \<Rightarrow> (entry list \<times> credit_result) res" where
  "seed H es actor allowance ref0 =
     (let ref = (case ref0 of Some r \<Rightarrow> if r \<noteq> [] then r else actor | None \<Rightarrow> actor) in
      if posted es (seed_prefix @ ref) then
        bindR (bud_balance es actor) (\<lambda>b. Inr (es, Duplicate (amount_str b)))
      else
        bindR (money_neg allowance) (\<lambda>n.
        bindR (post H es [mk_posting (account_of actor) allowance, mk_posting ''budget:grant'' n] (seed_prefix @ ref)) (\<lambda>es'.
        bindR (bud_balance es' actor) (\<lambda>b. Inr (es', Credited (amount_str allowance) (amount_str b))))))"

definition bud_topup :: "(string \<Rightarrow> string) \<Rightarrow> entry list \<Rightarrow> string \<Rightarrow> money \<Rightarrow> string \<Rightarrow> string
    \<Rightarrow> (entry list \<times> credit_result) res" where
  "bud_topup H es actor amt source ref =
     (if ref = [] then bindR (bud_balance es actor) (\<lambda>b. Inr (es, RefRequired (amount_str b)))
      else if posted es (bud_topup_prefix @ ref) then
        bindR (bud_balance es actor) (\<lambda>b. Inr (es, Duplicate (amount_str b)))
      else
        bindR (money_neg amt) (\<lambda>n.
        bindR (post H es [mk_posting (account_of actor) amt, mk_posting (''budget:topup:'' @ source) n]
                 (bud_topup_prefix @ ref)) (\<lambda>es'.
        bindR (bud_balance es' actor) (\<lambda>b. Inr (es', Credited (amount_str amt) (amount_str b))))))"

definition debit :: "(string \<Rightarrow> string) \<Rightarrow> entry list \<Rightarrow> string \<Rightarrow> money \<Rightarrow> string
    \<Rightarrow> (entry list \<times> credit_result) res" where
  "debit H es actor price idem =
     (if posted es (bud_usage_prefix @ idem) then
        bindR (bud_balance es actor) (\<lambda>b. Inr (es, Duplicate (amount_str b)))
      else
        bindR (bud_balance es actor) (\<lambda>bal.
        bindR (money_lt bal price) (\<lambda>short.
          if short then Inr (es, Insufficient (amount_str price) (amount_str bal))
          else
            bindR (money_neg price) (\<lambda>n.
            bindR (post H es [mk_posting (account_of actor) n, mk_posting (''budget:spent:'' @ actor) price]
                     (bud_usage_prefix @ idem)) (\<lambda>es'.
            bindR (bud_balance es' actor) (\<lambda>b. Inr (es', Debited (amount_str price) (amount_str b))))))))"

datatype budget_problem =
    BudgetUnmetered string
  | BudgetUnavailable string
  | InsufficientCredits string string string

definition budget_ok :: "string \<Rightarrow> money \<Rightarrow> money option \<Rightarrow> bool \<Rightarrow> (bool \<times> budget_problem option) res" where
  "budget_ok actor price bal configured =
     (if \<not> configured then Inr (False, Some (BudgetUnmetered actor))
      else case bal of
        None \<Rightarrow> Inr (False, Some (BudgetUnavailable actor))
      | Some b \<Rightarrow>
          bindR (money_lt b price) (\<lambda>short.
            if short then Inr (False, Some (InsufficientCredits actor (amount_str price) (amount_str b)))
            else Inr (True, None)))"

section \<open>Exactly once\<close>

text \<open>Each of the five operations honours the contract of \<open>once\<close> on its own memo prefix.\<close>

lemma once_post: "post H es ps m = Inr es' \<Longrightarrow> memos es' = memos es @ [m]"
  by (rule post_memos)

interpretation usage: once "\<lambda>es k x. debit_usage H es (fst x) (snd x) k" "\<lambda>k. usage_prefix @ k" memos for H
  by unfold_locales (auto simp: debit_usage_def Let_def bindR_eq_Inr posted_memos post_memos split: if_splits)

interpretation bud_debit: once "\<lambda>es k x. debit H es (fst x) (snd x) k" "\<lambda>k. bud_usage_prefix @ k" memos for H
  by unfold_locales (auto simp: debit_def bindR_eq_Inr posted_memos post_memos split: if_splits)

interpretation bud_recharge: once "\<lambda>es k x. bud_topup H es (fst x) (fst (snd x)) (snd (snd x)) k"
    "\<lambda>k. bud_topup_prefix @ k" memos for H
  by unfold_locales (auto simp: bud_topup_def bindR_eq_Inr posted_memos post_memos split: if_splits)

text \<open>
  Metering is exactly-once: in any sequence of usage debits, with any retries, interleaving
  of operators and changed charges, the ledger gains at most one posting set per run key, and a
  call whose key has been debited leaves the ledger as it is.
\<close>

theorem usage_debit_exactly_once:
  "usage.run H es calls = Inr es' \<Longrightarrow> \<not> posted es (usage_prefix @ k) \<Longrightarrow>
   count_list (memos es') (usage_prefix @ k) \<le> 1
   \<and> (posted es' (usage_prefix @ k) \<longrightarrow> debit_usage H es' op ch k = Inr (es'', r) \<longrightarrow> es'' = es')"
  using usage.at_most_once [of H es calls es' "usage_prefix @ k"] usage.replay [where H = H and l = es' and k = k and x = "(op, ch)"]
  by (auto simp: posted_memos)

theorem usage_debit_exactly_once_witness:
  "count_list (memos (open_ledger ''r'' ''p'')) (usage_prefix @ ''k'') \<le> 1"
  using usage_debit_exactly_once [of "\<lambda>s. s" "open_ledger ''r'' ''p''" "[]" "open_ledger ''r'' ''p''" "''k''"]
  by (simp add: usage.run_def posted_def open_ledger_def entry_memo_def)

section \<open>No overdraft\<close>

definition ordinary_actor :: "string \<Rightarrow> bool" where
  "ordinary_actor a \<longleftrightarrow> a \<noteq> ''grant'' \<and> \<not> starts_with a ''topup:''"

datatype bud_op =
    SeedOp string money "string option"
  | TopupOp string money string string
  | DebitOp string money string

definition run_bud :: "(string \<Rightarrow> string) \<Rightarrow> entry list \<Rightarrow> bud_op \<Rightarrow> entry list res" where
  "run_bud H es oper =
     bindR (case oper of
              SeedOp a m ref \<Rightarrow> seed H es a m ref
            | TopupOp a m src ref \<Rightarrow> bud_topup H es a m src ref
            | DebitOp a m idem \<Rightarrow> debit H es a m idem) (\<lambda>p. Inr (fst p))"

definition op_amount :: "bud_op \<Rightarrow> money" where
  "op_amount oper = (case oper of SeedOp _ m _ \<Rightarrow> m | TopupOp _ m _ _ \<Rightarrow> m | DebitOp _ m _ \<Rightarrow> m)"

lemma account_of_other:
  "ordinary_actor a \<Longrightarrow> account_of a \<noteq> ''budget:grant''"
  "ordinary_actor a \<Longrightarrow> account_of a \<noteq> ''budget:topup:'' @ src"
  "account_of a \<noteq> ''budget:spent:'' @ a"
proof -
  show "account_of a \<noteq> ''budget:spent:'' @ a"
  proof
    assume "account_of a = ''budget:spent:'' @ a"
    then have "length (account_of a) = length (''budget:spent:'' @ a)" by simp
    then show False by (simp add: account_of_def)
  qed
qed (auto simp: ordinary_actor_def account_of_def)

lemma pair_sum:
  assumes "post H es [mk_posting a n, mk_posting b m] memo = Inr es'" and "money_neg m = Inr n" and "\<bar>units m\<bar> < 10 ^ 28"
  shows "acct_sum es' x c = acct_sum es x c
    + (if c = currency m then (if x = b then units m else 0) - (if x = a then units m else 0) else 0)"
    and "post H es [mk_posting b m, mk_posting a n] memo = Inr es'' \<Longrightarrow> acct_sum es'' x c = acct_sum es' x c"
  using assms by (auto simp: money_neg_eq post_acct pval_mk_posting)

lemma pair_sum':
  assumes "post H es [mk_posting b m, mk_posting a n] memo = Inr es'" and "money_neg m = Inr n" and "\<bar>units m\<bar> < 10 ^ 28"
  shows "acct_sum es' x c = acct_sum es x c
    + (if c = currency m then (if x = b then units m else 0) - (if x = a then units m else 0) else 0)"
  using assms by (auto simp: money_neg_eq post_acct pval_mk_posting)

lemma run_bud_nonneg:
  assumes "run_bud H es oper = Inr es'" and "0 \<le> units (op_amount oper)" "units (op_amount oper) < 10 ^ 28"
    and "ordinary_actor a" and "0 \<le> acct_sum es (account_of a) credits_cur"
  shows "0 \<le> acct_sum es' (account_of a) credits_cur"
proof -
  note o = account_of_other(1,2) [OF assms(4)]
  show ?thesis
  proof (cases oper)
    case (SeedOp b m ref)
    then show ?thesis using assms o
      by (auto simp: run_bud_def seed_def Let_def bindR_eq_Inr op_amount_def pair_sum' split: if_splits)
  next
    case (TopupOp b m src ref)
    then show ?thesis using assms o
      by (auto simp: run_bud_def bud_topup_def bindR_eq_Inr op_amount_def pair_sum' split: if_splits)
  next
    case (DebitOp b m idem)
    then have m: "0 \<le> units m" "\<bar>units m\<bar> < 10 ^ 28" using assms(2,3) by (simp_all add: op_amount_def)
    consider "es' = es" | n where "units m \<le> acct_sum es (account_of b) credits_cur" "currency m = credits_cur"
      "money_neg m = Inr n"
      "post H es [mk_posting (account_of b) n, mk_posting (''budget:spent:'' @ b) m] (bud_usage_prefix @ idem) = Inr es'"
      using assms(1) DebitOp
      by (auto simp: run_bud_def debit_def bindR_eq_Inr bud_balance_def money_lt_eq not_less
          split: if_splits dest!: balance_of_eq)
    then show ?thesis
    proof cases
      case 2
      show ?thesis
        unfolding pair_sum(1) [OF 2(4,3) m(2)] using 2(1,2) assms(5) m account_of_other(3) [of b]
        by (auto simp: account_of_def)
    qed (use assms(5) in simp)
  qed
qed

text \<open>
  C24: an actor's credit balance is never overdrawn: whatever sequence of seeds, top-ups and
  debits with non-negative amounts the ledger accepts, for any actors and with any retries, no
  balance becomes negative. The accounts named like a funding source (\<open>grant\<close>,
  \<open>topup:...\<close>) are the exception: their names coincide with the source's account.
\<close>

theorem budget_never_overdrawn:
  assumes "foldR (run_bud H) (open_ledger run plan) ops = Inr es"
    and "\<forall>oper \<in> set ops. 0 \<le> units (op_amount oper) \<and> units (op_amount oper) < 10 ^ 28"
    and "ordinary_actor a"
  shows "0 \<le> acct_sum es (account_of a) credits_cur"
  using assms(1)
  by (rule foldR_invariant [where P = "\<lambda>es. 0 \<le> acct_sum es (account_of a) credits_cur"])
    (use assms(2,3) run_bud_nonneg in auto)

text \<open>Seeding, then debiting more than the seed, then debiting within it.\<close>

theorem budget_never_overdrawn_witness:
  "\<exists>es. 0 \<le> acct_sum es (account_of ''bob'') credits_cur
      \<and> acct_sum es (account_of ''bob'') credits_cur = 10000"
proof -
  let ?l = "open_ledger ''r'' ''p''" and ?m = "Mny 10000 ''CREDITS''" and ?H = "\<lambda>s::string. s"
  have n: "money_neg ?m = Inr (Mny (- 10000) ''CREDITS'')" by (simp add: money_neg_eq)
  have v: "\<bar>u\<bar> < 10 ^ 34 \<Longrightarrow> money_of (AStr (amount_str (Mny u ''CREDITS''))) ''CREDITS'' = Inr (Mny u ''CREDITS'')" for u
    using money_of_str [of "Mny u ''CREDITS''"] by simp
  have b: "is_balanced [mk_posting (account_of ''bob'') ?m, mk_posting ''budget:grant'' (Mny (- 10000) ''CREDITS'')] = Inr True"
    by (subst is_balanced_returns)
      (auto simp: pval_mk_posting intro!: well_formed_mk_posting)
  obtain es where es: "post ?H ?l [mk_posting (account_of ''bob'') ?m, mk_posting ''budget:grant'' (Mny (- 10000) ''CREDITS'')]
      (seed_prefix @ ''bob'') = Inr es" by (simp add: post_def b open_ledger_def)
  have a: "acct_sum es (account_of ''bob'') credits_cur = 10000"
    using es by (simp add: post_acct pval_mk_posting account_of_def credits_cur_def)
  obtain bal where "bud_balance es ''bob'' = Inr bal"
  proof -
    have "all_postings es = [mk_posting (account_of ''bob'') ?m, mk_posting ''budget:grant'' (Mny (- 10000) ''CREDITS'')]"
      using es by (auto simp: post_eq_Inr all_postings_def open_ledger_def entry_postings_def)
    then obtain m where "balances es = Inr m"
      using balances_returns [of es] by (auto simp: pval_mk_posting well_formed_mk_posting)
    then show thesis using that
      by (cases "dget m (account_of ''bob'', credits_cur)") (auto simp: bud_balance_def balance_of_def)
  qed
  then have "foldR (run_bud ?H) ?l [SeedOp ''bob'' ?m None] = Inr es"
    using n es by (simp add: run_bud_def seed_def posted_def open_ledger_def entry_memo_def)
  then have "0 \<le> acct_sum es (account_of ''bob'') credits_cur"
    by (rule budget_never_overdrawn) (simp_all add: op_amount_def ordinary_actor_def)
  then show ?thesis using a by blast
qed

end
