(* ===== verification/Rails.thy ===== *)
theory Rails
  imports Credits
begin

text \<open>
  The collection rails of \<open>src/infra/settle/rails.py\<close>, the settlement adapters of
  \<open>src/infra/settle/adapter.py\<close> and the cent boundary of \<open>src/infra/settle/dust.py\<close>.
  The payment provider's HTTP API, the key file and the record signer are parameters.
\<close>

section \<open>Charges\<close>

definition tax_prefix :: string where "tax_prefix = ''tax:''"

text \<open>\<open>int(d)\<close> of a decimal truncates towards zero.\<close>

definition int_trunc :: "rat \<Rightarrow> int" where
  "int_trunc x = (if 0 \<le> x then \<lfloor>x\<rfloor> else \<lceil>x\<rceil>)"

definition usd_to_minor :: "money_arg \<Rightarrow> string \<Rightarrow> int res" where
  "usd_to_minor amt c =
     bindR (money_of amt c) (\<lambda>m. bindR (money_scale m (AInt 100)) (\<lambda>s. Inr (int_trunc (amount s))))"

record price_quote =
  pq_currency :: "string option"
  pq_llm_cost :: string
  pq_tool_fee :: string
  pq_marketplace_fee :: string
  pq_total :: string

definition charge_from_price :: "price_quote \<Rightarrow> string \<Rightarrow> charge" where
  "charge_from_price pq plan_sha =
     \<lparr>ch_currency = (case pq_currency pq of Some c \<Rightarrow> c | None \<Rightarrow> ''USD''),
      ch_total = pq_total pq,
      ch_breakdown = [(''substrate'', pq_llm_cost pq), (''skill_author'', pq_tool_fee pq),
                      (''marketplace'', pq_marketplace_fee pq)]\<rparr>"

text \<open>The sum of a breakdown, the loop of \<open>split_balances\<close> and of \<open>breakdown_balances\<close>.\<close>

definition sum_breakdown :: "string \<Rightarrow> (string \<times> string) list \<Rightarrow> money res" where
  "sum_breakdown c bs =
     bindR (money_zero c) (\<lambda>z.
       foldR (\<lambda>t b. bindR (money_of (AStr (snd b)) c) (\<lambda>m. money_add t m)) z bs)"

definition split_balances :: "charge \<Rightarrow> bool res" where
  "split_balances ch =
     bindR (sum_breakdown (ch_currency ch) (ch_breakdown ch)) (\<lambda>t.
     bindR (money_of (AStr (ch_total ch)) (ch_currency ch)) (\<lambda>m. Inr (money_eq t m)))"

section \<open>Rails\<close>

datatype receipt_result =
    RDuplicate
  | RCollected string
  | RUnconfigured string
  | RBelowMinimum string
  | RCharged string
  | RHttpError int string
  | RCredit credit_result

datatype http = HttpOk string string | HttpError int string | UrlError string

type_synonym provider = "string \<Rightarrow> (string \<times> string) list \<Rightarrow> string \<Rightarrow> string \<Rightarrow> http"

definition breakdown_postings :: "string \<Rightarrow> (string \<times> string) list \<Rightarrow> posting list res" where
  "breakdown_postings c bs = mapR (\<lambda>b. bindR (money_of (AStr (snd b)) c) (\<lambda>m. Inr (mk_posting (fst b) m))) bs"

definition ledger_collect :: "(string \<Rightarrow> string) \<Rightarrow> entry list \<Rightarrow> charge \<Rightarrow> string
    \<Rightarrow> (entry list \<times> receipt_result) res" where
  "ledger_collect H es ch idem =
     (if posted es (tax_prefix @ idem) then Inr (es, RDuplicate)
      else
        bindR (money_of (AStr (ch_total ch)) (ch_currency ch)) (\<lambda>t.
        bindR (money_neg t) (\<lambda>n.
        bindR (breakdown_postings (ch_currency ch) (ch_breakdown ch)) (\<lambda>ps.
        bindR (post H es (mk_posting ''operator'' n # ps) (tax_prefix @ idem)) (\<lambda>es'.
          Inr (es', RCollected (ch_total ch)))))))"

record stripe_config =
  key_file :: "string option"
  payment_method :: string
  connect_account :: "string option"

definition lower :: "string \<Rightarrow> string" where
  "lower s = map (\<lambda>c. if (65::nat) \<le> of_char c \<and> of_char c \<le> (90::nat) then char_of (of_char c + 32 :: nat) else c) s"

definition stripe_api :: string where "stripe_api = ''https://api.stripe.com/v1/payment_intents''"

definition stripe_charge :: "provider \<Rightarrow> (string \<Rightarrow> string) \<Rightarrow> stripe_config \<Rightarrow> charge \<Rightarrow> string \<Rightarrow> string
    \<Rightarrow> receipt_result res" where
  "stripe_charge send read_key cfg ch idem kf =
     bindR (usd_to_minor (AStr (ch_total ch)) (ch_currency ch)) (\<lambda>cents.
       if cents \<le> 0 then Inr (RBelowMinimum (ch_total ch))
       else
         let flds = [(''amount'', show_int cents), (''currency'', lower (ch_currency ch)), (''confirm'', ''true''),
                       (''payment_method'', payment_method cfg), (''payment_method_types[]'', ''card''),
                       (''description'', ''cyberware tax '' @ take 16 idem)]
                      @ map (\<lambda>b. (''metadata['' @ fst b @ '']'', snd b)) (ch_breakdown ch)
         in case send stripe_api flds idem (read_key kf) of
              HttpOk pid status \<Rightarrow> Inr (RCharged (ch_total ch))
            | HttpError code detail \<Rightarrow> Inr (RHttpError code (take 300 detail))
            | UrlError detail \<Rightarrow> Inl OSError)"

definition stripe_collect :: "provider \<Rightarrow> (string \<Rightarrow> string) \<Rightarrow> stripe_config \<Rightarrow> charge \<Rightarrow> string \<Rightarrow> receipt_result res" where
  "stripe_collect send read_key cfg ch idem =
     (case key_file cfg of
        None \<Rightarrow> Inr (RUnconfigured (ch_total ch))
      | Some kf \<Rightarrow> if kf = [] then Inr (RUnconfigured (ch_total ch)) else stripe_charge send read_key cfg ch idem kf)"

datatype rail = LedgerRail | CreditRail string | StripeRail stripe_config

definition make_rail :: "string \<Rightarrow> bool \<Rightarrow> string \<Rightarrow> stripe_config \<Rightarrow> rail res" where
  "make_rail name has_entries operator cfg =
     (if name = ''stripe'' then Inr (StripeRail cfg)
      else if name = ''credit'' \<or> name = ''ledger'' then
        (if \<not> has_entries then Inl ValueError
         else Inr (if name = ''credit'' then CreditRail operator else LedgerRail))
      else Inl ValueError)"

definition rail_collect :: "(string \<Rightarrow> string) \<Rightarrow> provider \<Rightarrow> (string \<Rightarrow> string) \<Rightarrow> rail \<Rightarrow> entry list \<Rightarrow> charge \<Rightarrow> string
    \<Rightarrow> (entry list \<times> receipt_result) res" where
  "rail_collect H send read_key r es ch idem =
     (case r of
        LedgerRail \<Rightarrow> ledger_collect H es ch idem
      | CreditRail operator \<Rightarrow> bindR (debit_usage H es operator ch idem) (\<lambda>p. Inr (fst p, RCredit (snd p)))
      | StripeRail cfg \<Rightarrow> bindR (stripe_collect send read_key cfg ch idem) (\<lambda>r. Inr (es, r)))"

definition collect_tax :: "(string \<Rightarrow> string) \<Rightarrow> provider \<Rightarrow> (string \<Rightarrow> string) \<Rightarrow> rail \<Rightarrow> entry list \<Rightarrow> charge \<Rightarrow> string
    \<Rightarrow> (entry list \<times> receipt_result) res" where
  "collect_tax H send read_key r es ch idem =
     bindR (split_balances ch) (\<lambda>ok. if \<not> ok then Inl ValueError else rail_collect H send read_key r es ch idem)"

section \<open>Adapters\<close>

text \<open>The internal adapter: the shared ledger and the memo set it built when it was constructed.\<close>

record adapter =
  ad_source :: string
  ad_seen :: "string set"

definition new_adapter :: "entry list \<Rightarrow> string \<Rightarrow> adapter" where
  "new_adapter es source = \<lparr>ad_source = source, ad_seen = set (memos es)\<rparr>"

definition adapter_post :: "(string \<Rightarrow> string) \<Rightarrow> entry list \<times> adapter \<Rightarrow> string \<Rightarrow> string \<Rightarrow> posting list
    \<Rightarrow> ((entry list \<times> adapter) \<times> bool) res" where
  "adapter_post H s prefx idem ps =
     (let memo = prefx @ idem in
      if memo \<in> ad_seen (snd s) then Inr (s, False)
      else bindR (post H (fst s) ps memo) (\<lambda>es'.
             Inr ((es', (snd s)\<lparr>ad_seen := insert memo (ad_seen (snd s))\<rparr>), True)))"

definition adapter_fund :: "(string \<Rightarrow> string) \<Rightarrow> entry list \<times> adapter \<Rightarrow> string \<Rightarrow> string \<Rightarrow> money
    \<Rightarrow> ((entry list \<times> adapter) \<times> bool) res" where
  "adapter_fund H s idem acct amt =
     bindR (money_neg amt) (\<lambda>n.
       adapter_post H s ''adapter-fund:'' idem
         [mk_posting acct amt, mk_posting (''fund:'' @ ad_source (snd s)) n])"

definition adapter_payout :: "(string \<Rightarrow> string) \<Rightarrow> entry list \<times> adapter \<Rightarrow> string \<Rightarrow> string \<Rightarrow> money
    \<Rightarrow> ((entry list \<times> adapter) \<times> bool) res" where
  "adapter_payout H s idem dest amt =
     bindR (money_neg amt) (\<lambda>n.
       adapter_post H s ''adapter-payout:'' idem
         [mk_posting dest amt, mk_posting (''payout:'' @ ad_source (snd s)) n])"

definition adapter_status :: "adapter \<Rightarrow> string \<Rightarrow> string" where
  "adapter_status a event_id = (if event_id \<in> ad_seen a then ''recorded'' else ''unknown'')"

definition minor :: "money \<Rightarrow> int" where
  "minor m = half_even (rnd28 (amount m * 100))"

datatype psp_result =
    PspUnconfigured | PspNoConnectAccount | PspBelowMinimum | PspOk string string | PspError string

definition psp_call :: "provider \<Rightarrow> string \<Rightarrow> string \<Rightarrow> string \<Rightarrow> int \<Rightarrow> (string \<times> string) list \<Rightarrow> psp_result" where
  "psp_call send api idem key amt flds =
     (if amt \<le> 0 then PspBelowMinimum
      else case send api ((''amount'', show_int amt) # flds) idem key of
             HttpOk eid status \<Rightarrow> PspOk eid status
           | HttpError code detail \<Rightarrow> PspError (take 300 detail)
           | UrlError reason \<Rightarrow> PspError (take 300 reason))"

definition keyed :: "stripe_config \<Rightarrow> bool" where
  "keyed cfg = (case key_file cfg of None \<Rightarrow> False | Some k \<Rightarrow> k \<noteq> [])"

definition psp_fund :: "provider \<Rightarrow> (string \<Rightarrow> string) \<Rightarrow> stripe_config \<Rightarrow> string \<Rightarrow> money \<Rightarrow> psp_result" where
  "psp_fund send read_key cfg idem amt =
     (if \<not> keyed cfg then PspUnconfigured
      else psp_call send ''https://api.stripe.com/v1/payment_intents'' idem (read_key (the (key_file cfg))) (minor amt)
             [(''currency'', lower (currency amt)), (''confirm'', ''true''), (''payment_method'', payment_method cfg),
              (''payment_method_types[]'', ''card''), (''description'', ''cyberware fund '' @ take 16 idem)])"

definition psp_payout :: "provider \<Rightarrow> (string \<Rightarrow> string) \<Rightarrow> stripe_config \<Rightarrow> string \<Rightarrow> money \<Rightarrow> psp_result" where
  "psp_payout send read_key cfg idem amt =
     (if \<not> keyed cfg then PspUnconfigured
      else case connect_account cfg of
        None \<Rightarrow> PspNoConnectAccount
      | Some acct \<Rightarrow>
          if acct = [] then PspNoConnectAccount
          else psp_call send ''https://api.stripe.com/v1/transfers'' idem (read_key (the (key_file cfg))) (minor amt)
                 [(''currency'', lower (currency amt)), (''destination'', acct), (''transfer_group'', take 32 idem)])"

section \<open>The cent boundary\<close>

definition dust_account :: "string \<Rightarrow> string" where
  "dust_account adapter_id = ''dust:adapter:'' @ adapter_id"

text \<open>The quantization to cents runs in the default context, of 28 digits.\<close>

definition split_cents :: "money \<Rightarrow> (money \<times> money) res" where
  "split_cents m =
     (let q = half_even (amount m * 100) in
      if \<bar>q\<bar> < 10 ^ 28 then
        bindR (money_of (ADecimal (of_int q / 100)) (currency m)) (\<lambda>cents.
        bindR (money_sub m cents) (\<lambda>dust. Inr (cents, dust)))
      else Inl InvalidOperation)"

definition to_minor :: "money \<Rightarrow> int res" where
  "to_minor m = bindR (split_cents m) (\<lambda>p. Inr (half_even (rnd28 (amount (fst p) * 100))))"

definition boundary_posting :: "string \<Rightarrow> string \<Rightarrow> money \<Rightarrow> string \<Rightarrow> posting list res" where
  "boundary_posting payer dest amt adapter_id =
     bindR (split_cents amt) (\<lambda>(cents, dust).
     bindR (money_neg amt) (\<lambda>n.
       Inr ([mk_posting payer n, mk_posting dest cents]
            @ (if money_is_zero dust then [] else [mk_posting (dust_account adapter_id) dust]))))"

definition settle_at_boundary :: "(string \<Rightarrow> string) \<Rightarrow> entry list \<Rightarrow> string \<Rightarrow> string \<Rightarrow> money \<Rightarrow> string \<Rightarrow> string
    \<Rightarrow> entry list res" where
  "settle_at_boundary H es payer dest amt adapter_id memo =
     bindR (boundary_posting payer dest amt adapter_id) (\<lambda>ps.
       post H es ps (if memo \<noteq> [] then memo else ''boundary:'' @ adapter_id))"

record 's sweep_result =
  swept :: string
  signed :: "'s option"
  noop :: bool

definition sweep_dust :: "(string \<Rightarrow> string) \<Rightarrow> (json \<Rightarrow> 's) \<Rightarrow> entry list \<Rightarrow> string \<Rightarrow> string \<Rightarrow> string \<Rightarrow> string
    \<Rightarrow> (entry list \<times> 's sweep_result) res" where
  "sweep_dust H sign es adapter_id treasury c period =
     (let acct = dust_account adapter_id in
      bindR (balance_of es acct c) (\<lambda>bal.
        if money_is_zero bal
        then bindR (money_zero c) (\<lambda>z. Inr (es, \<lparr>swept = amount_str z, signed = None, noop = True\<rparr>))
        else
          bindR (money_neg bal) (\<lambda>n.
          bindR (post H es [mk_posting acct n, mk_posting treasury bal] (''dust-sweep:'' @ adapter_id @ '':'' @ period)) (\<lambda>es'.
            Inr (es', \<lparr>swept = amount_str bal,
                       signed = Some (sign (JObj [(''adapter'', JStr adapter_id), (''swept'', JStr (amount_str bal)),
                          (''currency'', JStr c), (''treasury'', JStr treasury), (''period'', JStr period)])),
                       noop = False\<rparr>)))))"

section \<open>Collecting a tax\<close>

interpretation tax: once "\<lambda>es k ch. ledger_collect H es ch k" "\<lambda>k. tax_prefix @ k" memos for H
  by unfold_locales (auto simp: ledger_collect_def bindR_eq_Inr posted_memos post_memos split: if_splits)

lemma half_even_cent: "\<bar>100 * half_even (of_int u / 100) - u\<bar> \<le> 50"
proof -
  have "\<bar>of_int (100 * half_even (of_int u / 100) - u) :: rat\<bar> \<le> of_int 50"
    using half_even_error [of "of_int u / 100"] by (simp add: abs_le_iff field_simps)
  then show ?thesis by (metis of_int_abs of_int_le_iff)
qed

lemma split_cents_eq:
  assumes "split_cents m = Inr (cents, dust)"
  shows "units cents + units dust = units m \<and> 100 dvd units cents \<and> \<bar>units dust\<bar> \<le> 50
         \<and> currency cents = currency m \<and> currency dust = currency m
         \<and> \<bar>units cents\<bar> < 10 ^ 34 \<and> \<bar>units dust\<bar> < 10 ^ 34"
proof -
  let ?q = "half_even (of_int (units m) / 100)"
  have "amount m * 100 = of_int (units m) / 100" by (simp add: amount_def)
  with assms have q: "\<bar>?q\<bar> < 10 ^ 28"
    and c: "money_of (ADecimal (of_int ?q / 100)) (currency m) = Inr cents" and d: "money_sub m cents = Inr dust"
    by (auto simp: split_cents_def Let_def bindR_eq_Inr split: if_splits)
  have "(of_int ?q / 100 :: rat) = of_int (100 * ?q) / 10000" by simp
  moreover have "\<bar>100 * ?q\<bar> < 10 ^ 34" using q by simp
  ultimately have "quantize4 (of_int ?q / 100) = Inr (100 * ?q)" by (simp only: quantize4_units)
  then have c': "cents = Mny (100 * ?q) (currency m)" using c by (simp add: money_of_def to_decimal_def)
  then have "dust = Mny (units m - 100 * ?q) (currency m) \<and> \<bar>units m - 100 * ?q\<bar> < 10 ^ 34"
    using d by (simp add: money_sub_eq split: if_splits)
  then show ?thesis using c' half_even_cent [of "units m"] \<open>\<bar>100 * ?q\<bar> < 10 ^ 34\<close>
    by (auto simp: abs_minus_commute)
qed

lemma settle_at_boundary_sum:
  assumes "settle_at_boundary H es payer dest amt ad memo = Inr es'" and "\<bar>units amt\<bar> < 10 ^ 28"
  obtains cents dust where "split_cents amt = Inr (cents, dust)"
    and "\<And>x c. acct_sum es' x c = acct_sum es x c
      + (if c = currency amt then (if x = dest then units cents else 0) + (if x = dust_account ad then units dust else 0)
                                  - (if x = payer then units amt else 0) else 0)"
proof -
  from assms obtain cents dust ps m' where s: "split_cents amt = Inr (cents, dust)"
    and ps: "ps = [mk_posting payer (Mny (- units amt) (currency amt)), mk_posting dest cents]
                  @ (if money_is_zero dust then [] else [mk_posting (dust_account ad) dust])"
    and po: "post H es ps m' = Inr es'"
    by (auto simp: settle_at_boundary_def boundary_posting_def bindR_eq_Inr money_neg_eq)
  note sc = split_cents_eq [OF s]
  show thesis
    by (rule that [OF s]) (use sc assms(2) in \<open>auto simp: post_acct [OF po] ps pval_mk_posting\<close>)
qed

text \<open>
  no sub-cent residue is created or destroyed at the cent boundary: a boundary transfer debits
  the payer by the whole amount, credits the destination with whole cents, and the adapter's dust
  account with the rest, which is at most half a cent in magnitude.
\<close>

theorem cent_boundary_conserves:
  assumes "settle_at_boundary H es payer dest amt ad memo = Inr es'" and "\<bar>units amt\<bar> < 10 ^ 28"
    and "distinct [payer, dest, dust_account ad]"
  shows "acct_sum es' payer (currency amt) = acct_sum es payer (currency amt) - units amt
     \<and> 100 dvd acct_sum es' dest (currency amt) - acct_sum es dest (currency amt)
     \<and> (acct_sum es' dest (currency amt) - acct_sum es dest (currency amt))
       + (acct_sum es' (dust_account ad) (currency amt) - acct_sum es (dust_account ad) (currency amt)) = units amt
     \<and> \<bar>acct_sum es' (dust_account ad) (currency amt) - acct_sum es (dust_account ad) (currency amt)\<bar> \<le> 50"
proof -
  from settle_at_boundary_sum [OF assms(1,2)] obtain cents dust where s: "split_cents amt = Inr (cents, dust)"
    and e: "\<And>x c. acct_sum es' x c = acct_sum es x c
      + (if c = currency amt then (if x = dest then units cents else 0) + (if x = dust_account ad then units dust else 0)
                                  - (if x = payer then units amt else 0) else 0)" by metis
  show ?thesis using split_cents_eq [OF s] assms(3) by (auto simp: e)
qed

theorem cent_boundary_conserves_witness:
  "\<exists>es. acct_sum es ''a'' ''USD'' = - 12351 \<and> 100 dvd acct_sum es ''b'' ''USD''
      \<and> acct_sum es ''b'' ''USD'' + acct_sum es (dust_account ''psp'') ''USD'' = 12351"
proof -
  let ?m = "Mny 12351 ''USD''" and ?l = "open_ledger ''r'' ''p''" and ?H = "\<lambda>s::string. s"
  have q: "half_even (amount ?m * 100) = 124" by (rule half_even_eqI) (simp add: amount_def)
  have "quantize4 (of_int 124 / 100) = Inr 12400" using quantize4_units [of 12400] by simp
  then have sc: "split_cents ?m = Inr (Mny 12400 ''USD'', Mny (- 49) ''USD'')"
    using q by (simp add: split_cents_def money_of_def to_decimal_def money_sub_eq)
  let ?ps = "[mk_posting ''a'' (Mny (- 12351) ''USD''), mk_posting ''b'' (Mny 12400 ''USD''),
              mk_posting (dust_account ''psp'') (Mny (- 49) ''USD'')]"
  have "\<exists>es. post ?H ?l ?ps ''boundary:psp'' = Inr es"
    by (rule post_returns) (auto simp: open_ledger_def pval_mk_posting well_formed_mk_posting)
  then obtain es where "post ?H ?l ?ps ''boundary:psp'' = Inr es" by blast
  then have "settle_at_boundary ?H ?l ''a'' ''b'' ?m ''psp'' [] = Inr es"
    by (simp add: settle_at_boundary_def boundary_posting_def sc money_neg_eq)
  from cent_boundary_conserves [OF this] show ?thesis
    by (intro exI [of _ es]) (auto simp: dust_account_def)
qed

lemma sweep_dust_drains:
  assumes "sweep_dust H sign es ad treasury c period = Inr (es', r)" and "treasury \<noteq> dust_account ad"
    and "\<bar>acct_sum es (dust_account ad) c\<bar> < 10 ^ 28"
  shows "acct_sum es' (dust_account ad) c = 0"
    and "acct_sum es' treasury c = acct_sum es treasury c + acct_sum es (dust_account ad) c"
  using assms
  by (auto simp: sweep_dust_def Let_def bindR_eq_Inr money_neg_eq post_acct pval_mk_posting
      split: if_splits dest!: balance_of_eq)

section \<open>The internal adapter\<close>

datatype adapter_op = Fund string string money | Payout string string money

definition run_adapter :: "(string \<Rightarrow> string) \<Rightarrow> entry list \<times> adapter \<Rightarrow> adapter_op \<Rightarrow> (entry list \<times> adapter) res" where
  "run_adapter H s oper =
     bindR (case oper of Fund k a m \<Rightarrow> adapter_fund H s k a m | Payout k d m \<Rightarrow> adapter_payout H s k d m)
       (\<lambda>p. Inr (fst p))"

definition adapter_synced :: "entry list \<times> adapter \<Rightarrow> bool" where
  "adapter_synced s \<longleftrightarrow> ad_seen (snd s) = set (memos (fst s))"

lemma adapter_post_synced:
  assumes "adapter_post H s pfx k ps = Inr (s', fresh)" and "adapter_synced s"
  shows "adapter_synced s' \<and> count_list (memos (fst s')) t \<le> max 1 (count_list (memos (fst s)) t)"
proof (cases "pfx @ k \<in> ad_seen (snd s)")
  case True
  then have "s' = s" using assms(1) by (simp add: adapter_post_def)
  then show ?thesis using assms(2) by simp
next
  case False
  from assms(1) False obtain es' where po: "post H (fst s) ps (pfx @ k) = Inr es'"
    and s': "s' = (es', (snd s)\<lparr>ad_seen := insert (pfx @ k) (ad_seen (snd s))\<rparr>)"
    by (auto simp: adapter_post_def Let_def bindR_eq_Inr)
  have "count_list (memos (fst s)) (pfx @ k) = 0"
    using False assms(2) by (simp add: adapter_synced_def count_list_0_iff)
  then show ?thesis using assms(2) s'
    by (cases "pfx @ k = t") (auto simp: adapter_synced_def post_memos [OF po])
qed

lemma run_adapter_synced:
  assumes "run_adapter H s oper = Inr s'" and "adapter_synced s"
  shows "adapter_synced s' \<and> count_list (memos (fst s')) t \<le> max 1 (count_list (memos (fst s)) t)"
proof -
  from assms(1) obtain pfx k ps fresh where "adapter_post H s pfx k ps = Inr (s', fresh)"
    by (cases oper) (auto simp: run_adapter_def adapter_fund_def adapter_payout_def bindR_eq_Inr)
  then show ?thesis using assms(2) by (rule adapter_post_synced)
qed

lemma stale_post_again:
  assumes "adapter_post H (es, a) pfx k ps = Inr ((es1, a1), True)"
  shows "\<exists>es2 a2. adapter_post H (es1, a) pfx k ps = Inr ((es2, a2), True)"
  using assms by (auto simp: adapter_post_def Let_def bindR_eq_Inr post_eq_Inr split: if_splits)

text \<open>
  the internal adapter is exactly-once only while it is the sole writer. A run of funds and
  payouts through one adapter records every idempotency key at most once; but two adapters built
  over the same ledger both pay the same key, because the set of seen memos is read from the
  ledger only at construction.
\<close>

theorem adapter_once_per_instance:
  assumes "memos es = []"
  shows "(foldR (run_adapter H) (es, new_adapter es src) ops = Inr s' \<longrightarrow> count_list (memos (fst s')) t \<le> 1)
    \<and> (adapter_payout H (es, new_adapter es src) k d m = Inr ((es1, a1), True) \<longrightarrow>
        (\<exists>es2 a2. adapter_payout H (es1, new_adapter es src) k d m = Inr ((es2, a2), True)))"
proof (intro conjI impI)
  assume "foldR (run_adapter H) (es, new_adapter es src) ops = Inr s'"
  then have "adapter_synced s' \<and> count_list (memos (fst s')) t \<le> 1"
  proof (rule foldR_invariant [where P = "\<lambda>s. adapter_synced s \<and> count_list (memos (fst s)) t \<le> 1"])
    show "adapter_synced (es, new_adapter es src) \<and> count_list (memos (fst (es, new_adapter es src))) t \<le> 1"
      using assms by (simp add: adapter_synced_def new_adapter_def)
  next
    fix s oper s1
    assume "adapter_synced s \<and> count_list (memos (fst s)) t \<le> 1" and "run_adapter H s oper = Inr s1"
    then show "adapter_synced s1 \<and> count_list (memos (fst s1)) t \<le> 1"
      using run_adapter_synced [of H s oper s1 t] by auto
  qed
  then show "count_list (memos (fst s')) t \<le> 1" by blast
next
  assume h: "adapter_payout H (es, new_adapter es src) k d m = Inr ((es1, a1), True)"
  then obtain n where "money_neg m = Inr n"
    "adapter_post H (es, new_adapter es src) ''adapter-payout:'' k
       [mk_posting d m, mk_posting (''payout:'' @ src) n] = Inr ((es1, a1), True)"
    by (auto simp: adapter_payout_def bindR_eq_Inr new_adapter_def)
  then show "\<exists>es2 a2. adapter_payout H (es1, new_adapter es src) k d m = Inr ((es2, a2), True)"
    using stale_post_again by (auto simp: adapter_payout_def new_adapter_def)
qed

theorem adapter_once_per_instance_witness:
  "\<exists>es1 a1 es2 a2. adapter_payout (\<lambda>s. s) (open_ledger ''r'' ''p'', new_adapter (open_ledger ''r'' ''p'') ''psp'') ''k'' ''bob''
        (Mny 10000 ''USD'') = Inr ((es1, a1), True)
     \<and> adapter_payout (\<lambda>s. s) (es1, new_adapter (open_ledger ''r'' ''p'') ''psp'') ''k'' ''bob'' (Mny 10000 ''USD'')
        = Inr ((es2, a2), True)"
proof -
  let ?l = "open_ledger ''r'' ''p''" and ?m = "Mny 10000 ''USD''"
  have z: "memos ?l = []" by (simp add: memos_def open_ledger_def entry_memo_def map_filter_simps)
  have "\<exists>es. post (\<lambda>s. s) ?l [mk_posting ''bob'' ?m, mk_posting ''payout:psp'' (Mny (- 10000) ''USD'')] ''adapter-payout:k'' = Inr es"
    by (rule post_returns) (auto simp: open_ledger_def pval_mk_posting well_formed_mk_posting)
  then obtain es1 a1 where
    p: "adapter_payout (\<lambda>s. s) (?l, new_adapter ?l ''psp'') ''k'' ''bob'' ?m = Inr ((es1, a1), True)"
    by (auto simp: adapter_payout_def adapter_post_def new_adapter_def z money_neg_eq)
  then show ?thesis
    using adapter_once_per_instance [OF z, of "\<lambda>s. s" "''psp''" "[]" "(?l, new_adapter ?l ''psp'')" "[]"
        "''k''" "''bob''" ?m es1 a1] by blast
qed

end
