(* ===== verification/Price.thy ===== *)
theory Price
  imports Rails
begin

text \<open>
  \<open>src/infra/settle/price.py\<close>, \<open>credit_price.py\<close> and \<open>metered.py\<close>, and the tax
  collection of one run from \<open>rails.py\<close>. The skill tree on disk is a parameter: \<open>rd\<close>
  is what \<open>_read\<close> returns for a path (the empty text when the file cannot be read), \<open>ls\<close>
  lists a directory, \<open>sdir\<close> is \<open>registry.skill_dir\<close>, \<open>loads\<close> is the JSON parser. The
  pricing table is the JSON object of \<open>pricing.json\<close>.
\<close>

section \<open>JSON tables\<close>

definition arg_of_json :: "json \<Rightarrow> money_arg" where
  "arg_of_json v =
     (case v of JStr s \<Rightarrow> AStr s | JInt i \<Rightarrow> AInt i | JBool b \<Rightarrow> ABool b | _ \<Rightarrow> AOther)"

definition str_of_json :: "json \<Rightarrow> string res" where
  "str_of_json v = (case v of JStr s \<Rightarrow> Inr s | _ \<Rightarrow> Inl TypeError)"

text \<open>\<open>Decimal(v)\<close>, which takes a bool as an integer.\<close>

definition decimal_of_json :: "json \<Rightarrow> rat res" where
  "decimal_of_json v =
     (case v of
        JStr s \<Rightarrow> (case decimal_of_str s of Some d \<Rightarrow> Inr d | None \<Rightarrow> Inl InvalidOperation)
      | JInt i \<Rightarrow> Inr (of_int i)
      | JBool b \<Rightarrow> Inr (if b then 1 else 0)
      | _ \<Rightarrow> Inl TypeError)"

section \<open>The skill tree\<close>

record skill_tree =
  rd :: "string \<Rightarrow> string"
  ls :: "string \<Rightarrow> string list option"
  sdir :: "string \<Rightarrow> string"
  loads :: "string \<Rightarrow> json option"

definition path_join :: "string \<Rightarrow> string \<Rightarrow> string" where
  "path_join a b = a @ ''/'' @ b"

definition est_tokens :: "string \<Rightarrow> int" where
  "est_tokens text = max 0 (int (length text) div 4)"

definition perk_dir :: "skill_tree \<Rightarrow> string \<Rightarrow> string \<Rightarrow> string" where
  "perk_dir T skill perk = path_join (path_join (sdir T skill) ''perks'') perk"

definition context_tokens :: "skill_tree \<Rightarrow> string \<Rightarrow> string \<Rightarrow> int" where
  "context_tokens T skill perk =
     est_tokens (concat (map (\<lambda>f. rd T (path_join (sdir T skill) f)) [''SKILL.md'', ''blueprint.json''])
       @ concat (map (\<lambda>f. rd T (path_join (perk_dir T skill perk) f))
           [''metadata.json'', ''manifesto.json'', ''src/contracts.json'']))"

definition ends_with :: "string \<Rightarrow> string \<Rightarrow> bool" where
  "ends_with s t \<longleftrightarrow> suffix t s"

definition output_tokens :: "skill_tree \<Rightarrow> string \<Rightarrow> string \<Rightarrow> string \<Rightarrow> int" where
  "output_tokens T skill perk mode =
     (if mode = ''freeform'' then
        let srcdir = path_join (perk_dir T skill perk) ''src'' in
        est_tokens (case ls T srcdir of
            None \<Rightarrow> []
          | Some fns \<Rightarrow> concat (map (\<lambda>fn. if ends_with fn ''.sh'' \<or> ends_with fn ''.py'' then rd T (path_join srcdir fn) else [])
                                 (sort fns)))
      else est_tokens (rd T (path_join (path_join (perk_dir T skill perk) ''src'') ''contracts.json'')))"

section \<open>The dollar price\<close>

definition llm_cost :: "int \<Rightarrow> int \<Rightarrow> json \<Rightarrow> money res" where
  "llm_cost in_tokens out_tokens rate =
     bindR (item rate ''in_per_1k'') (\<lambda>ri.
     bindR (money_of (arg_of_json ri) ''USD'') (\<lambda>m1.
     bindR (money_scale m1 (ADecimal (of_int in_tokens))) (\<lambda>m2.
     bindR (money_scale m2 (ADecimal (1/1000))) (\<lambda>c_in.
     bindR (item rate ''out_per_1k'') (\<lambda>ro.
     bindR (money_of (arg_of_json ro) ''USD'') (\<lambda>m3.
     bindR (money_scale m3 (ADecimal (of_int out_tokens))) (\<lambda>m4.
     bindR (money_scale m4 (ADecimal (1/1000))) (\<lambda>c_out.
       money_add c_in c_out))))))))"

definition skill_leaf :: "string \<Rightarrow> string" where
  "skill_leaf skill = (case split1 CHR '':'' skill of Some (a, b) \<Rightarrow> b | None \<Rightarrow> skill)"

text \<open>\<open>next((t[k] for k in keys if k in t), None)\<close>.\<close>

fun first_key :: "json \<Rightarrow> string list \<Rightarrow> json" where
  "first_key t [] = JNull"
| "first_key t (k # ks) = (if jhas t k then jget t k else first_key t ks)"

definition metadata_text :: "skill_tree \<Rightarrow> string \<Rightarrow> string \<Rightarrow> string" where
  "metadata_text T skill perk =
     (let t = rd T (path_join (perk_dir T skill perk) ''metadata.json'') in if t = [] then ''{}'' else t)"

definition declared_price :: "skill_tree \<Rightarrow> string \<Rightarrow> string \<Rightarrow> json" where
  "declared_price T skill perk =
     (case loads T (metadata_text T skill perk) of
        None \<Rightarrow> JNull
      | Some md \<Rightarrow>
          if \<not> is_obj md then JNull
          else let p = jget md ''price''; q = (if truthy p then p else JObj []) in
            if is_obj q then jget q ''amount'' else JNull)"

definition tool_fee :: "skill_tree \<Rightarrow> string \<Rightarrow> string \<Rightarrow> json \<Rightarrow> money res" where
  "tool_fee T skill perk pricing =
     (let fees = jget_or pricing ''tool_fees'' (JObj []);
          leaf = skill_leaf skill;
          v0 = first_key fees [skill @ ''/'' @ perk, leaf @ ''/'' @ perk, skill, leaf];
          v1 = (if v0 = JNull then declared_price T skill perk else v0);
          v2 = (if v1 = JNull then jget_or fees ''_default'' (JStr ''0'') else v1)
      in bindR (str_of_json (jget_or pricing ''currency'' (JStr ''USD''))) (\<lambda>cur. money_of (arg_of_json v2) cur))"

definition pick_rate :: "json \<Rightarrow> string option \<Rightarrow> json res" where
  "pick_rate pricing model =
     bindR (item pricing ''model_rates'') (\<lambda>rates.
       let m = (case model of Some m \<Rightarrow> if m \<noteq> [] then JStr m else jget_or pricing ''default_model'' (JStr ''default'')
                | None \<Rightarrow> jget_or pricing ''default_model'' (JStr ''default''));
           r = (case m of JStr s \<Rightarrow> jget rates s | _ \<Rightarrow> JNull)
       in if truthy r then Inr r else item rates ''default'')"

definition price_plan :: "skill_tree \<Rightarrow> string \<Rightarrow> string \<Rightarrow> string option \<Rightarrow> string \<Rightarrow> json \<Rightarrow> price_quote res" where
  "price_plan T skill perk model mode pricing =
     bindR (pick_rate pricing model) (\<lambda>rate.
     bindR (str_of_json (jget_or pricing ''currency'' (JStr ''USD''))) (\<lambda>cur.
     bindR (llm_cost (context_tokens T skill perk) (output_tokens T skill perk mode) rate) (\<lambda>llm.
     bindR (tool_fee T skill perk pricing) (\<lambda>fee.
     bindR (money_add llm fee) (\<lambda>subtotal.
     bindR (decimal_of_json (jget_or pricing ''marketplace_fee_pct'' (JStr ''0''))) (\<lambda>pct.
     bindR (money_scale subtotal (ADecimal pct)) (\<lambda>mkt.
     bindR (money_add subtotal mkt) (\<lambda>tot.
       Inr \<lparr>pq_currency = Some cur, pq_llm_cost = amount_str llm, pq_tool_fee = amount_str fee,
            pq_marketplace_fee = amount_str mkt, pq_total = amount_str tot\<rparr>))))))))"

section \<open>The credit price\<close>

definition skill_declared :: "skill_tree \<Rightarrow> string \<Rightarrow> string \<Rightarrow> json res" where
  "skill_declared T skill perk =
     (case loads T (metadata_text T skill perk) of
        None \<Rightarrow> Inr JNull
      | Some md \<Rightarrow>
          if \<not> is_obj md then Inl AttributeError
          else let cp = jget md ''credit_price'';
                   v = (if is_obj cp then jget cp ''amount'' else cp)
               in Inr (case v of JStr s \<Rightarrow> JStr s | _ \<Rightarrow> JNull))"

definition credit_price :: "skill_tree \<Rightarrow> string \<Rightarrow> string \<Rightarrow> json \<Rightarrow> money res" where
  "credit_price T skill perk pricing =
     (let table = jget_or pricing ''credit_prices'' (JObj []);
          leaf = skill_leaf skill;
          ns = (case split1 CHR '':'' skill of Some (a, b) \<Rightarrow> a | None \<Rightarrow> []);
          keys = [skill @ ''/'' @ perk, leaf @ ''/'' @ perk, skill, leaf] @ (if ns \<noteq> [] then [ns] else []);
          v0 = first_key table keys
      in bindR (if v0 = JNull then skill_declared T skill perk else Inr v0) (\<lambda>v1.
           money_of (arg_of_json (if v1 = JNull then jget_or table ''_default'' (JStr ''1.0000'') else v1)) credits_cur))"

section \<open>Collecting the tax of one run\<close>

definition collect_run_tax :: "(string \<Rightarrow> string) \<Rightarrow> provider \<Rightarrow> (string \<Rightarrow> string) \<Rightarrow> skill_tree \<Rightarrow> string \<Rightarrow> string \<Rightarrow> string
    \<Rightarrow> rail \<Rightarrow> json \<Rightarrow> string option \<Rightarrow> string \<Rightarrow> entry list \<Rightarrow> (entry list \<times> receipt_result) res" where
  "collect_run_tax H send read_key T skill perk plan_sha rail pricing model mode es =
     bindR (price_plan T skill perk model mode pricing) (\<lambda>pq.
       collect_tax H send read_key rail es (charge_from_price pq plan_sha) plan_sha)"

section \<open>Metered steps\<close>

record meter =
  m_by :: string
  m_in :: int
  m_out :: int

record receipt_rec =
  r_currency :: "string option"
  r_in :: int
  r_out :: int
  r_cost :: "money_arg option"

definition tokens :: "int \<Rightarrow> int \<Rightarrow> int" where
  "tokens i j = i + j"

definition reconcile :: "meter \<Rightarrow> receipt_rec \<Rightarrow> rat \<Rightarrow> bool" where
  "reconcile m r tol =
     (let mt = tokens (m_in m) (m_out m); rt = tokens (r_in r) (r_out r) in
      if rt = 0 then mt = 0 else of_int \<bar>mt - rt\<bar> \<le> rnd28 (tol * of_int rt))"

definition clamp :: "money \<Rightarrow> money \<Rightarrow> money \<Rightarrow> money" where
  "clamp a lo hi = (if amount a < amount lo then lo else if amount a > amount hi then hi else a)"

datatype meter_result =
    NotSettleable string
  | Settleable string string string bool

definition settleable :: "meter option \<Rightarrow> receipt_rec option \<Rightarrow> json \<Rightarrow> money \<Rightarrow> money \<Rightarrow> rat \<Rightarrow> rat \<Rightarrow> meter_result res" where
  "settleable mo ro rate lo hi tol cost_tol =
     (let cur = currency lo in
      case mo of None \<Rightarrow> Inr (NotSettleable ''meter_not_attested'')
      | Some m \<Rightarrow>
          if m_by m \<noteq> ''exod'' then Inr (NotSettleable ''meter_not_attested'')
          else case ro of
            None \<Rightarrow>
              bindR (llm_cost (m_in m) (m_out m) rate) (\<lambda>raw.
                let a = clamp raw lo hi in Inr (Settleable (amount_str a) cur ''meter'' (amount a \<noteq> amount raw)))
          | Some r \<Rightarrow>
              if (case r_currency r of None \<Rightarrow> False | Some c \<Rightarrow> c \<noteq> [] \<and> c \<noteq> cur) then Inr (NotSettleable ''currency_mismatch'')
              else if \<not> reconcile m r tol then Inr (NotSettleable ''receipt_meter_mismatch'')
              else case r_cost r of
                None \<Rightarrow> Inr (NotSettleable ''receipt_cost_not_exact'')
              | Some c \<Rightarrow>
                  if c = AFloat then Inr (NotSettleable ''receipt_cost_not_exact'')
                  else case money_of c cur of
                    Inl e \<Rightarrow> Inr (NotSettleable ''receipt_cost_malformed'')
                  | Inr raw \<Rightarrow>
                      bindR (llm_cost (m_in m) (m_out m) rate) (\<lambda>est.
                        if amount raw > rnd28 (amount est * rnd28 (1 + cost_tol))
                        then Inr (NotSettleable ''receipt_cost_exceeds_attested'')
                        else let a = clamp raw lo hi
                             in Inr (Settleable (amount_str a) cur ''receipt'' (amount a \<noteq> amount raw))))"

definition reimbursement_posting :: "string \<Rightarrow> string \<Rightarrow> money \<Rightarrow> posting list res" where
  "reimbursement_posting payer provider amt =
     bindR (money_neg amt) (\<lambda>n. Inr [mk_posting payer n, mk_posting provider amt])"

section \<open>A priced charge carries no skim\<close>

lemma llm_cost_usd: "llm_cost i j rate = Inr m \<Longrightarrow> currency m = ''USD'' \<and> \<bar>units m\<bar> < 10 ^ 34"
  by (auto simp: llm_cost_def bindR_eq_Inr money_scale_def money_add_eq split: if_splits dest!: money_of_bounded)

lemma money_scale_bounded: "money_scale m r = Inr m' \<Longrightarrow> currency m' = currency m \<and> \<bar>units m'\<bar> < 10 ^ 34"
  by (auto simp: money_scale_def bindR_eq_Inr dest!: money_of_bounded)

lemma sum_breakdown_three:
  assumes "\<bar>units a\<bar> < 10 ^ 34" "\<bar>units b\<bar> < 10 ^ 34" "\<bar>units d\<bar> < 10 ^ 34"
    and "currency a = c" "currency b = c" "currency d = c"
    and "money_add a b = Inr ab" and "money_add ab d = Inr abd"
  shows "sum_breakdown c [(x, amount_str a), (y, amount_str b), (z, amount_str d)] = Inr abd"
proof -
  have ab: "ab = Mny (units a + units b) c" "\<bar>units a + units b\<bar> < 10 ^ 34"
    using assms by (auto simp: money_add_eq split: if_splits)
  have abd: "abd = Mny (units a + units b + units d) c" "\<bar>units a + units b + units d\<bar> < 10 ^ 34"
    using assms(6,8) ab(1) by (auto simp: money_add_eq split: if_splits)
  show ?thesis
    using assms(1-6) money_of_str [of a] money_of_str [of b] money_of_str [of d] ab(2) abd
    by (simp add: sum_breakdown_def money_add_eq)
qed

lemma price_plan_parts:
  assumes "price_plan T skill perk model mode pricing = Inr pq"
  obtains llm fee sub mkt tot where "pq = \<lparr>pq_currency = Some ''USD'', pq_llm_cost = amount_str llm,
      pq_tool_fee = amount_str fee, pq_marketplace_fee = amount_str mkt, pq_total = amount_str tot\<rparr>"
    and "money_add llm fee = Inr sub" and "money_add sub mkt = Inr tot"
    and "\<forall>m \<in> {llm, fee, sub, mkt, tot}. currency m = ''USD'' \<and> \<bar>units m\<bar> < 10 ^ 34"
proof -
  from assms obtain rate cur llm fee sub pct mkt tot where
    s: "llm_cost (context_tokens T skill perk) (output_tokens T skill perk mode) rate = Inr llm"
      "tool_fee T skill perk pricing = Inr fee" "money_add llm fee = Inr sub"
      "money_scale sub (ADecimal pct) = Inr mkt" "money_add sub mkt = Inr tot"
      "str_of_json (jget_or pricing ''currency'' (JStr ''USD'')) = Inr cur"
    and pq: "pq = \<lparr>pq_currency = Some cur, pq_llm_cost = amount_str llm, pq_tool_fee = amount_str fee,
            pq_marketplace_fee = amount_str mkt, pq_total = amount_str tot\<rparr>"
    by (auto simp: price_plan_def bindR_eq_Inr)
  have fee: "currency fee = cur" "\<bar>units fee\<bar> < 10 ^ 34"
    using s(2,6) by (auto simp: tool_fee_def Let_def bindR_eq_Inr dest!: money_of_bounded)
  show thesis
    by (rule that [of llm fee mkt tot sub])
      (use s(3,5) pq fee llm_cost_usd [OF s(1)] money_scale_bounded [OF s(4)]
        in \<open>auto simp: money_add_eq split: if_splits\<close>)
qed

text \<open>
  the charge built from a price quote is transparent: whenever a plan is priced at all, the
  named split (model cost, skill author, marketplace) re-sums to the charged total exactly, so the
  collector's skim check accepts it; and pricing only ever succeeds in US dollars.
\<close>

theorem priced_charge_has_no_skim:
  "price_plan T skill perk model mode pricing = Inr pq \<Longrightarrow>
   split_balances (charge_from_price pq plan_sha) = Inr True \<and> ch_currency (charge_from_price pq plan_sha) = ''USD''"
proof -
  assume "price_plan T skill perk model mode pricing = Inr pq"
  from price_plan_parts [OF this] obtain llm fee sub mkt tot where
    pq: "pq = \<lparr>pq_currency = Some ''USD'', pq_llm_cost = amount_str llm, pq_tool_fee = amount_str fee,
            pq_marketplace_fee = amount_str mkt, pq_total = amount_str tot\<rparr>"
    and a: "money_add llm fee = Inr sub" "money_add sub mkt = Inr tot"
    and b: "\<forall>m \<in> {llm, fee, sub, mkt, tot}. currency m = ''USD'' \<and> \<bar>units m\<bar> < 10 ^ 34" by metis
  have "sum_breakdown ''USD'' [(''substrate'', amount_str llm), (''skill_author'', amount_str fee),
          (''marketplace'', amount_str mkt)] = Inr tot"
    by (rule sum_breakdown_three) (use a b in auto)
  moreover have "money_of (AStr (amount_str tot)) ''USD'' = Inr tot" using b money_of_str [of tot] by simp
  ultimately show ?thesis by (simp add: split_balances_def charge_from_price_def pq)
qed

definition sample_tree :: skill_tree where
  "sample_tree = \<lparr>rd = \<lambda>_. [], ls = \<lambda>_. None, sdir = \<lambda>s. ''skills/'' @ s, loads = \<lambda>_. Some (JObj [])\<rparr>"

definition sample_pricing :: json where
  "sample_pricing = JObj [(''model_rates'', JObj [(''default'', JObj [(''in_per_1k'', JInt 1), (''out_per_1k'', JInt 2)])]),
     (''tool_fees'', JObj [(''_default'', JInt 3)]), (''marketplace_fee_pct'', JInt 0)]"

lemma ctx_zero [simp]: "ctx 0 = 0"
  by (simp add: ctx_def round_sig_def)

lemma quantize4_zero [simp]: "quantize4 0 = Inr 0"
  using quantize4_units [of 0] by simp

lemma sample_priced: "\<exists>pq. price_plan sample_tree ''fs'' ''find'' None ''structured'' sample_pricing = Inr pq"
  by (simp add: price_plan_def pick_rate_def item_def sample_pricing_def obj_members_def jget_or_def jget_def
      str_of_json_def llm_cost_def context_tokens_def output_tokens_def est_tokens_def sample_tree_def
      arg_of_json_def money_of_int money_scale_def to_decimal_def money_of_def [of "ADecimal _"] amount_def
      money_add_eq tool_fee_def declared_price_def jhas_def skill_leaf_def split1_def metadata_text_def
      decimal_of_json_def Let_def quantize4_units [of 30000, simplified])

theorem priced_charge_has_no_skim_witness:
  "\<exists>pq. price_plan sample_tree ''fs'' ''find'' None ''structured'' sample_pricing = Inr pq
      \<and> split_balances (charge_from_price pq ''sha'') = Inr True"
  using sample_priced priced_charge_has_no_skim by blast

section \<open>Metered amounts\<close>

lemma clamp_bounds: "amount lo \<le> amount hi \<Longrightarrow> amount lo \<le> amount (clamp a lo hi) \<and> amount (clamp a lo hi) \<le> amount hi"
  by (auto simp: clamp_def)

text \<open>
  a metered step is settled only on exod's own attested meter and within the configured
  bounds; a provider receipt is passed through only if its tokens agree with that meter within the
  tolerance and its cost is at most the rate-implied cost plus the cost tolerance, otherwise
  nothing is settled.
\<close>

theorem metered_settlement_bounded:
  assumes "settleable mo ro rate lo hi tol cost_tol = Inr (Settleable s c src clamped)" and "amount lo \<le> amount hi"
  shows "\<exists>m a. mo = Some m \<and> m_by m = ''exod'' \<and> s = amount_str a \<and> amount lo \<le> amount a \<and> amount a \<le> amount hi
     \<and> (case ro of None \<Rightarrow> src = ''meter''
        | Some r \<Rightarrow> src = ''receipt'' \<and> reconcile m r tol
            \<and> (\<exists>cost raw est. r_cost r = Some cost \<and> money_of cost (currency lo) = Inr raw
                 \<and> llm_cost (m_in m) (m_out m) rate = Inr est
                 \<and> amount raw \<le> rnd28 (amount est * rnd28 (1 + cost_tol))))"
proof -
  from assms(1) obtain m where m: "mo = Some m" "m_by m = ''exod''"
    by (auto simp: settleable_def Let_def split: option.splits if_splits)
  show ?thesis
  proof (cases ro)
    case None
    from assms(1) m None obtain raw where "s = amount_str (clamp raw lo hi)" "src = ''meter''"
      by (auto simp: settleable_def Let_def bindR_eq_Inr)
    then show ?thesis using m None clamp_bounds [OF assms(2)] by auto
  next
    case (Some r)
    from assms(1) m Some obtain cost raw est where "reconcile m r tol" "r_cost r = Some cost"
      "money_of cost (currency lo) = Inr raw" "llm_cost (m_in m) (m_out m) rate = Inr est"
      "amount raw \<le> rnd28 (amount est * rnd28 (1 + cost_tol))" "s = amount_str (clamp raw lo hi)" "src = ''receipt''"
      by (auto simp: settleable_def Let_def bindR_eq_Inr not_less split: option.splits if_splits sum.splits)
    then show ?thesis using m Some clamp_bounds [OF assms(2)] by (auto intro!: exI [of _ "clamp raw lo hi"])
  qed
qed

theorem metered_settlement_bounded_witness:
  "\<exists>a. amount (Mny 5 ''USD'') \<le> amount a \<and> amount a \<le> amount (Mny 7 ''USD'')"
proof -
  have "\<exists>s cl. settleable (Some \<lparr>m_by = ''exod'', m_in = 0, m_out = 0\<rparr>) None (JObj [(''in_per_1k'', JInt 1), (''out_per_1k'', JInt 2)])
      (Mny 5 ''USD'') (Mny 7 ''USD'') 0 0 = Inr (Settleable s ''USD'' ''meter'' cl)"
    by (simp add: settleable_def llm_cost_def item_def obj_members_def arg_of_json_def money_of_int money_scale_def
        to_decimal_def money_of_def [of "ADecimal _"] amount_def money_add_eq Let_def)
  then obtain s cl where "settleable (Some \<lparr>m_by = ''exod'', m_in = 0, m_out = 0\<rparr>) None
      (JObj [(''in_per_1k'', JInt 1), (''out_per_1k'', JInt 2)])
      (Mny 5 ''USD'') (Mny 7 ''USD'') 0 0 = Inr (Settleable s ''USD'' ''meter'' cl)" by blast
  from metered_settlement_bounded [OF this] show ?thesis by (auto simp: amount_def)
qed

end
