(* ===== verification/Envelope.thy ===== *)
theory Envelope
  imports Json "HOL-Library.Word"
begin

text \<open>
  Signed documents: DSSE envelopes (\<open>src/infra/cwp/sign.py\<close>, \<open>cosign.py\<close>), finalized
  dual-signed receipts (\<open>receipts.py\<close>) and WebAuthn approvals (\<open>webauthn.py\<close>).
  SHA-256, base64, the JSON parser and the two Ed25519 signature schemes are the fields of
  \<open>crypto\<close>, the parameter of every definition; nothing is assumed about them here.
\<close>

record crypto =
  sha_hex :: "string \<Rightarrow> string"
  sha_raw :: "string \<Rightarrow> string"
  b64d :: "string \<Rightarrow> string option"
  b64e :: "string \<Rightarrow> string"
  b64ud :: "string \<Rightarrow> string option"
  b64ue :: "string \<Rightarrow> string"
  parse :: "string \<Rightarrow> json option"
  ed_verify :: "string \<Rightarrow> string \<Rightarrow> string \<Rightarrow> bool"
  ed_sign :: "string \<Rightarrow> string \<Rightarrow> string"
  pub_of :: "string \<Rightarrow> string"
  ph_verify :: "string \<Rightarrow> string \<Rightarrow> string \<Rightarrow> bool"
  ph_sign :: "string \<Rightarrow> string \<Rightarrow> string"

section \<open>Envelopes\<close>

definition jlist :: "json \<Rightarrow> json list" where
  "jlist v = (case v of JList xs \<Rightarrow> xs | _ \<Rightarrow> [])"

definition jstr :: "json \<Rightarrow> string option" where
  "jstr v = (case v of JStr s \<Rightarrow> Some s | _ \<Rightarrow> None)"

definition payload_type :: string where "payload_type = ''application/cwp+json''"

definition keyid :: "crypto \<Rightarrow> string \<Rightarrow> string" where
  "keyid K public_raw = ''ed25519:'' @ take 16 (sha_hex K public_raw)"

definition pae :: "string \<Rightarrow> string \<Rightarrow> string" where
  "pae pt payload =
     ''DSSEv1 '' @ show_nat (length pt) @ '' '' @ pt @ '' '' @ show_nat (length payload) @ '' '' @ payload"

definition mk_envelope :: "crypto \<Rightarrow> string \<Rightarrow> string \<Rightarrow> (string \<times> string) list \<Rightarrow> json" where
  "mk_envelope K payload pt sigs =
     JObj [(''payload'', JStr (b64e K payload)), (''payloadType'', JStr pt),
           (''signatures'', JList (map (\<lambda>(kid, s). JObj [(''keyid'', JStr kid), (''sig'', JStr (b64e K s))]) sigs))]"

definition sign :: "crypto \<Rightarrow> json \<Rightarrow> string \<Rightarrow> string \<Rightarrow> json" where
  "sign K body priv pt =
     (let payload = canonicalize body
      in mk_envelope K payload pt [(keyid K (pub_of K priv), ed_sign K priv (pae pt payload))])"

text \<open>The signed message of an envelope, when its payload and type can be read.\<close>

definition envelope_message :: "crypto \<Rightarrow> json \<Rightarrow> string option" where
  "envelope_message K env =
     (case (jstr (jget env ''payload''), jstr (jget env ''payloadType'')) of
        (Some p, Some pt) \<Rightarrow> (case b64d K p of Some payload \<Rightarrow> Some (pae pt payload) | None \<Rightarrow> None)
      | _ \<Rightarrow> None)"

text \<open>
  An entry that is no object, and a signature that cannot be decoded, are skipped; an object with no \<open>sig\<close> member
  raises.
\<close>

fun any_signature :: "crypto \<Rightarrow> (string \<Rightarrow> string \<Rightarrow> bool) \<Rightarrow> string \<Rightarrow> json list \<Rightarrow> bool res" where
  "any_signature K vf message [] = Inr False"
| "any_signature K vf message (s # ss) =
     (if \<not> is_obj s then any_signature K vf message ss
      else if \<not> jhas s ''sig'' then Inl KeyError
      else case jstr (jget s ''sig'') of
        None \<Rightarrow> any_signature K vf message ss
      | Some t \<Rightarrow>
          (case b64d K t of
             None \<Rightarrow> any_signature K vf message ss
           | Some sig \<Rightarrow> if vf sig message then Inr True else any_signature K vf message ss))"

definition verify :: "crypto \<Rightarrow> json \<Rightarrow> string \<Rightarrow> bool res" where
  "verify K env pub =
     (case envelope_message K env of
        None \<Rightarrow> Inr False
      | Some message \<Rightarrow> any_signature K (\<lambda>sig m. ed_verify K pub sig m) message (jlist (jget env ''signatures'')))"

definition verify_ph :: "crypto \<Rightarrow> json \<Rightarrow> string \<Rightarrow> bool res" where
  "verify_ph K env pub =
     (case envelope_message K env of
        None \<Rightarrow> Inr False
      | Some message \<Rightarrow> any_signature K (\<lambda>sig m. ph_verify K m sig pub) message (jlist (jget env ''signatures'')))"

definition in_toto_type :: string where "in_toto_type = ''application/vnd.in-toto+json''"

definition sign_ph :: "crypto \<Rightarrow> string \<Rightarrow> string \<Rightarrow> string \<Rightarrow> string \<Rightarrow> json" where
  "sign_ph K payload priv pt kid = mk_envelope K payload pt [(kid, ph_sign K (pae pt payload) priv)]"

definition intoto_statement :: "string \<Rightarrow> string \<Rightarrow> string \<Rightarrow> json \<Rightarrow> json" where
  "intoto_statement name sha predicate_type predicate =
     JObj [(''_type'', JStr ''https://in-toto.io/Statement/v0.1''), (''predicateType'', JStr predicate_type),
           (''subject'', JList [JObj [(''name'', JStr name), (''digest'', JObj [(''sha256'', JStr sha)])]]),
           (''predicate'', predicate)]"

definition attest_blob :: "crypto \<Rightarrow> string \<Rightarrow> string \<Rightarrow> string \<Rightarrow> string \<Rightarrow> json \<Rightarrow> json" where
  "attest_blob K name blob priv predicate_type predicate =
     sign_ph K (canonicalize (intoto_statement name (sha_hex K blob) predicate_type predicate)) priv in_toto_type []"

section \<open>Receipts\<close>

definition receipt_predicate :: string where
  "receipt_predicate = ''https://cyberware.dev/predicates/run-receipt/v1''"

definition finalize_receipt ::
  "crypto \<Rightarrow> string \<Rightarrow> string \<Rightarrow> json \<Rightarrow> string \<Rightarrow> string \<Rightarrow> string \<Rightarrow> string \<Rightarrow> json" where
  "finalize_receipt K run_name run_sha predicate priv_a kid_a priv_b kid_b =
     (let payload = canonicalize (intoto_statement run_name run_sha receipt_predicate predicate);
          m = pae in_toto_type payload
      in mk_envelope K payload in_toto_type [(kid_a, ph_sign K m priv_a), (kid_b, ph_sign K m priv_b)])"

definition decode_payload :: "crypto \<Rightarrow> json \<Rightarrow> json option" where
  "decode_payload K env =
     (case jstr (jget env ''payload'') of None \<Rightarrow> None
      | Some p \<Rightarrow> (case b64d K p of None \<Rightarrow> None | Some t \<Rightarrow> parse K t))"

record receipt_report =
  dual_signed :: bool
  consumable :: bool
  r_ok :: bool

definition statement_consumable :: "json option \<Rightarrow> bool" where
  "statement_consumable so =
     (case so of None \<Rightarrow> False
      | Some st \<Rightarrow> truthy st
          \<and> (case jget st ''_type'' of JStr t \<Rightarrow> starts_with t ''https://in-toto.io/Statement'' | _ \<Rightarrow> False)
          \<and> truthy (jget st ''subject'') \<and> truthy (jget st ''predicateType''))"

definition verify_receipt :: "crypto \<Rightarrow> json \<Rightarrow> string \<Rightarrow> string \<Rightarrow> receipt_report res" where
  "verify_receipt K receipt pub_a pub_b =
     (if \<not> is_obj receipt \<or> jget receipt ''payloadType'' \<noteq> JStr in_toto_type
      then Inr \<lparr>dual_signed = False, consumable = False, r_ok = False\<rparr>
      else
        bindR (verify_ph K receipt pub_a) (\<lambda>a_ok.
        bindR (verify_ph K receipt pub_b) (\<lambda>b_ok.
          let distinct_ids = 2 \<le> card (set (map (\<lambda>s. jget s ''keyid'') (jlist (jget receipt ''signatures''))));
              dual = (a_ok \<and> b_ok \<and> distinct_ids);
              cons = statement_consumable (decode_payload K receipt)
          in Inr \<lparr>dual_signed = dual, consumable = cons, r_ok = dual \<and> cons\<rparr>)))"

section \<open>WebAuthn approvals\<close>

definition challenge_for :: "crypto \<Rightarrow> json \<Rightarrow> string" where
  "challenge_for K doc = sha_raw K (canonicalize doc)"

definition flag_up :: "8 word" where "flag_up = 0x01"
definition flag_uv :: "8 word" where "flag_uv = 0x04"

definition byte :: "char \<Rightarrow> 8 word" where
  "byte c = of_nat (of_char c)"

definition big_endian4 :: "nat \<Rightarrow> string" where
  "big_endian4 n = map (\<lambda>i. char_of (n div 256 ^ i mod 256)) [3, 2, 1, 0]"

definition authenticator_data :: "crypto \<Rightarrow> string \<Rightarrow> bool \<Rightarrow> bool \<Rightarrow> nat \<Rightarrow> string" where
  "authenticator_data K rp_id up uv sign_count =
     sha_raw K rp_id
     @ [char_of (unat (Bit_Operations.or (if up then flag_up else 0) (if uv then flag_uv else 0)))]
     @ big_endian4 sign_count"

text \<open>The compact JSON of the client data, as the synthetic authenticator writes it.\<close>

definition client_data_text :: "crypto \<Rightarrow> json \<Rightarrow> string \<Rightarrow> string" where
  "client_data_text K doc origin =
     ''{'' @ escape ''type'' @ '':'' @ escape ''webauthn.get'' @ '','' @ escape ''challenge'' @ '':''
     @ escape (b64ue K (challenge_for K doc)) @ '','' @ escape ''origin'' @ '':'' @ escape origin @ ''}''"

definition make_assertion :: "crypto \<Rightarrow> json \<Rightarrow> string \<Rightarrow> string \<Rightarrow> string \<Rightarrow> bool \<Rightarrow> bool \<Rightarrow> json" where
  "make_assertion K doc priv origin rp_id up uv =
     (let cd = client_data_text K doc origin; ad = authenticator_data K rp_id up uv 1
      in JObj [(''clientDataJSON'', JStr (b64ue K cd)), (''authenticatorData'', JStr (b64ue K ad)),
               (''signature'', JStr (b64ue K (ed_sign K priv (ad @ sha_raw K cd)))),
               (''cose_key'', JObj [(''1'', JInt 1), (''3'', JInt (- 8)), (''-1'', JInt 6),
                                   (''x'', JStr (b64ue K (pub_of K priv)))])])"

definition field64 :: "crypto \<Rightarrow> json \<Rightarrow> string \<Rightarrow> string option" where
  "field64 K j k = (case jstr (jget j k) of None \<Rightarrow> None | Some s \<Rightarrow> b64ud K s)"

datatype assertion_reason =
    AOk | BadClientData | BadType | ChallengeMismatch | OriginMismatch | RpidMismatch
  | UserNotPresent | UserNotVerified | CredentialMismatch | BadSignature

definition verify_assertion ::
  "crypto \<Rightarrow> json \<Rightarrow> json \<Rightarrow> string \<Rightarrow> string \<Rightarrow> string \<Rightarrow> bool \<Rightarrow> (bool \<times> assertion_reason) res" where
  "verify_assertion K doc a origin rp_id cred require_uv =
     (case (field64 K a ''clientDataJSON'', field64 K a ''authenticatorData'', field64 K a ''signature'',
            field64 K (jget a ''cose_key'') ''x'') of
        (Some cdt, Some ad, Some sig, Some pub_raw) \<Rightarrow>
          (case parse K cdt of
             None \<Rightarrow> Inr (False, BadClientData)
           | Some cd \<Rightarrow>
               if \<not> is_obj cd then Inl AttributeError
               else if jget cd ''type'' \<noteq> JStr ''webauthn.get'' then Inr (False, BadType)
               else if jget cd ''challenge'' \<noteq> JStr (b64ue K (challenge_for K doc)) then Inr (False, ChallengeMismatch)
               else if jget cd ''origin'' \<noteq> JStr origin then Inr (False, OriginMismatch)
               else if take 32 ad \<noteq> sha_raw K rp_id then Inr (False, RpidMismatch)
               else if length ad \<le> 32 then Inl IndexError
               else if Bit_Operations.and (byte (ad ! 32)) flag_up = 0 then Inr (False, UserNotPresent)
               else if require_uv \<and> Bit_Operations.and (byte (ad ! 32)) flag_uv = 0 then Inr (False, UserNotVerified)
               else if pub_raw \<noteq> cred then Inr (False, CredentialMismatch)
               else if ed_verify K cred sig (ad @ sha_raw K cdt) then Inr (True, AOk)
               else Inr (False, BadSignature))
      | _ \<Rightarrow> Inr (False, BadClientData))"

definition grant_gate ::
  "crypto \<Rightarrow> json \<Rightarrow> json option \<Rightarrow> json \<Rightarrow> string \<Rightarrow> string \<Rightarrow> string \<Rightarrow> (bool \<times> string) res" where
  "grant_gate K grant assertion doc origin rp_id cred =
     (if \<not> truthy (jget grant ''destructive'') then Inr (True, ''non_destructive'')
      else case assertion of
        None \<Rightarrow> Inr (False, ''approval_missing'')
      | Some a \<Rightarrow>
          if \<not> truthy a then Inr (False, ''approval_missing'')
          else bindR (verify_assertion K doc a origin rp_id cred True) (\<lambda>(ok, reason).
                 Inr (ok, if ok then ''approved'' else ''refused'')))"

section \<open>The signed message is unambiguous\<close>

lemma show_nat_blank_inj: "show_nat m @ '' '' @ x = show_nat n @ '' '' @ y \<Longrightarrow> m = n \<and> x = y"
proof -
  assume h: "show_nat m @ '' '' @ x = show_nat n @ '' '' @ y"
  have t: "takeWhile (\<lambda>c. c \<in> set ''0123456789'') (show_nat k @ '' '' @ z) = show_nat k" for k z
    by (rule takeWhile_stop [OF show_nat_digits]) simp
  have "show_nat m = show_nat n" using t [of m x] t [of n y] h by simp
  then show ?thesis using h show_nat_inj by auto
qed

lemma pae_inj: "pae t p = pae t' p' \<Longrightarrow> t = t' \<and> p = p'"
proof -
  assume "pae t p = pae t' p'"
  then have "show_nat (length t) @ '' '' @ (t @ '' '' @ show_nat (length p) @ '' '' @ p)
           = show_nat (length t') @ '' '' @ (t' @ '' '' @ show_nat (length p') @ '' '' @ p')"
    by (simp add: pae_def)
  from show_nat_blank_inj [OF this] have l: "length t = length t'"
    and r: "t @ ('' '' @ show_nat (length p) @ '' '' @ p) = t' @ ('' '' @ show_nat (length p') @ '' '' @ p')" by auto
  from append_eq_append_conv [OF disjI1 [OF l]] r have t: "t = t'"
    and "show_nat (length p) @ '' '' @ p = show_nat (length p') @ '' '' @ p'" by auto
  from show_nat_blank_inj [OF this(2)] t show ?thesis by blast
qed

text \<open>
  the bytes a signature covers determine both the payload type and the payload, so a
  signature made over a document of one type is never one over another document or under another
  type.
\<close>

theorem pae_unambiguous: "pae t p = pae t' p' \<longleftrightarrow> t = t' \<and> p = p'"
  using pae_inj [of t p t' p'] by blast

lemma any_signature_true:
  "any_signature K vf m ss = Inr True \<Longrightarrow> \<exists>s \<in> set ss. \<exists>t sig. jget s ''sig'' = JStr t \<and> b64d K t = Some sig \<and> vf sig m"
  by (induction ss) (auto simp: jstr_def split: if_splits option.splits json.splits)

lemma verify_ph_true:
  "verify_ph K env pub = Inr True \<Longrightarrow> \<exists>p pt payload sig. jget env ''payload'' = JStr p \<and> jget env ''payloadType'' = JStr pt
     \<and> b64d K p = Some payload \<and> ph_verify K (pae pt payload) sig pub"
  by (auto simp: verify_ph_def envelope_message_def jstr_def split: option.splits json.splits dest!: any_signature_true)

lemma verify_true:
  "verify K env pub = Inr True \<Longrightarrow> \<exists>p pt payload sig. jget env ''payload'' = JStr p \<and> jget env ''payloadType'' = JStr pt
     \<and> b64d K p = Some payload \<and> ed_verify K pub sig (pae pt payload)"
  by (auto simp: verify_def envelope_message_def jstr_def split: option.splits json.splits dest!: any_signature_true)

text \<open>Signing and verifying is a round trip for a signature scheme and a base64 that are.\<close>

lemma sign_verify:
  assumes "\<And>s. b64d K (b64e K s) = Some s" and "\<And>m. ed_verify K (pub_of K priv) (ed_sign K priv m) m"
  shows "verify K (sign K body priv pt) (pub_of K priv) = Inr True"
  using assms by (simp add: verify_def sign_def Let_def mk_envelope_def envelope_message_def jget_def jstr_def jlist_def
      is_obj_def jhas_def obj_members_def)

lemma receipt_dual_signed:
  assumes "verify_receipt K r pa pb = Inr rep" and "dual_signed rep"
  shows "verify_ph K r pa = Inr True" and "verify_ph K r pb = Inr True" and "jget r ''payloadType'' = JStr in_toto_type"
    and "2 \<le> card (set (map (\<lambda>s. jget s ''keyid'') (jlist (jget r ''signatures''))))"
  using assms by (auto simp: verify_receipt_def Let_def bindR_eq_Inr split: if_splits)

section \<open>An approval approves one document\<close>

text \<open>
  What the relying party reads of an assertion, and what it has to say: the client data name the ceremony, the
  document by its challenge, and the origin; the authenticator data the relying party, and in the flags after it
  that the user was there and, where it is asked for, verified; the key is the registered one; and the signature is one of
  that key over exactly those authenticator data and the digest of exactly those client data.
\<close>

definition attests :: "crypto \<Rightarrow> json \<Rightarrow> json \<Rightarrow> string \<Rightarrow> string \<Rightarrow> string \<Rightarrow> bool \<Rightarrow> bool" where
  "attests K doc a origin rp_id cred require_uv \<longleftrightarrow>
     (\<exists>client auth sig cd. field64 K a ''clientDataJSON'' = Some client \<and> field64 K a ''authenticatorData'' = Some auth
        \<and> field64 K a ''signature'' = Some sig \<and> field64 K (jget a ''cose_key'') ''x'' = Some cred
        \<and> parse K client = Some cd \<and> jget cd ''type'' = JStr ''webauthn.get''
        \<and> jget cd ''challenge'' = JStr (b64ue K (sha_raw K (canonicalize doc))) \<and> jget cd ''origin'' = JStr origin
        \<and> 32 < length auth \<and> take 32 auth = sha_raw K rp_id
        \<and> odd (of_char (auth ! 32) :: nat) \<and> (require_uv \<longrightarrow> bit (of_char (auth ! 32) :: nat) 2)
        \<and> ed_verify K cred sig (auth @ sha_raw K client))"

lemma byte_bit: "bit (byte c) n \<longleftrightarrow> n < 8 \<and> bit (of_char c :: nat) n"
  by (simp add: byte_def bit_simps)

lemma flags_read:
  "Bit_Operations.and (byte c) flag_up \<noteq> 0 \<longleftrightarrow> odd (of_char c :: nat)"
  "Bit_Operations.and (byte c) flag_uv \<noteq> 0 \<longleftrightarrow> bit (of_char c :: nat) 2"
proof -
  have m: "flag_up = Bit_Operations.mask 1" "flag_uv = push_bit 2 (1 :: 8 word)" by (simp_all add: flag_up_def flag_uv_def)
  show "Bit_Operations.and (byte c) flag_up \<noteq> 0 \<longleftrightarrow> odd (of_char c :: nat)"
  proof
    assume "Bit_Operations.and (byte c) flag_up \<noteq> 0"
    then obtain n where "bit (Bit_Operations.and (byte c) flag_up) n" using bit_eqI [of "Bit_Operations.and (byte c) flag_up" 0] by auto
    then show "odd (of_char c :: nat)" by (auto simp: bit_simps m byte_bit bit_0)
  next
    assume "odd (of_char c :: nat)"
    then have "bit (byte c) 0" by (subst byte_bit) (simp add: bit_0)
    moreover have "bit flag_up 0" by (simp add: flag_up_def bit_0)
    ultimately have "bit (Bit_Operations.and (byte c) flag_up) 0" by (subst bit_and_iff) blast
    then show "Bit_Operations.and (byte c) flag_up \<noteq> 0" by auto
  qed
  show "Bit_Operations.and (byte c) flag_uv \<noteq> 0 \<longleftrightarrow> bit (of_char c :: nat) 2"
  proof
    assume "Bit_Operations.and (byte c) flag_uv \<noteq> 0"
    then obtain n where "bit (Bit_Operations.and (byte c) flag_uv) n" using bit_eqI [of "Bit_Operations.and (byte c) flag_uv" 0] by auto
    then have n: "bit (byte c) n" "bit flag_uv n" by (auto simp only: bit_and_iff)
    have p: "flag_uv = 2 ^ 2" by (simp add: flag_uv_def)
    have "n = 2" using n(2) unfolding p bit_exp_iff by blast
    then show "bit (of_char c :: nat) 2" using n(1) by (simp add: byte_bit)
  next
    assume "bit (of_char c :: nat) 2"
    then have "bit (Bit_Operations.and (byte c) flag_uv) 2" by (simp add: bit_simps m byte_bit)
    then show "Bit_Operations.and (byte c) flag_uv \<noteq> 0" by auto
  qed
qed

lemma verify_assertion_ok:
  assumes "verify_assertion K doc a origin rp_id cred uv = Inr (True, x)"
  shows "attests K doc a origin rp_id cred uv"
  using assms
  by (auto simp: verify_assertion_def attests_def challenge_for_def flags_read [symmetric] not_le split: option.splits if_splits)

text \<open>
  C30: a WebAuthn approval is a signature of the registered credential over one document. An accepted assertion
  carries client data and authenticator data that name this document, this origin and this relying party, with the user
  present, and verified where it is asked for, and a signature of the registered credential, which is also the key it presents, over exactly these two;
  and if the same assertion is accepted twice, then for one credential, one origin, one relying party and one document, up to member
  order, or SHA-256 collides on the canonical texts of the two.
\<close>

theorem approval_binds_document:
  assumes "verify_assertion K doc a origin rp_id cred uv = Inr (True, x)"
    and "verify_assertion K doc' a origin' rp_id' cred' uv' = Inr (True, x')"
    and "inj (b64ue K)"
  shows "(jnorm doc = jnorm doc' \<or> (sha_raw K (canonicalize doc) = sha_raw K (canonicalize doc') \<and> canonicalize doc \<noteq> canonicalize doc'))
     \<and> origin = origin' \<and> sha_raw K rp_id = sha_raw K rp_id' \<and> cred = cred'
     \<and> attests K doc a origin rp_id cred uv"
proof -
  note a = verify_assertion_ok [OF assms(1)] and b = verify_assertion_ok [OF assms(2)]
  have c: "b64ue K (sha_raw K (canonicalize doc)) = b64ue K (sha_raw K (canonicalize doc'))"
    and r: "origin = origin'" "sha_raw K rp_id = sha_raw K rp_id'" "cred = cred'"
    using a b unfolding attests_def by fastforce+
  have "sha_raw K (canonicalize doc) = sha_raw K (canonicalize doc')"
    using c assms(3) by (simp add: inj_eq)
  then show ?thesis using r a canonicalize_inj_iff [of doc doc'] by auto
qed

definition toy_crypto :: crypto where
  "toy_crypto = \<lparr>sha_hex = \<lambda>s. ''h'' @ s, sha_raw = \<lambda>s. take 32 (s @ replicate 32 CHR ''0''), b64d = Some, b64e = \<lambda>s. s,
     b64ud = Some, b64ue = \<lambda>s. s,
     parse = \<lambda>s. Some (JObj [(''type'', JStr ''webauthn.get''), (''challenge'', JStr (take 32 (''true'' @ replicate 32 CHR ''0''))),
                             (''origin'', JStr ''o'')]),
     ed_verify = \<lambda>k s m. s = k @ m, ed_sign = \<lambda>k m. k @ m, pub_of = \<lambda>k. k,
     ph_verify = \<lambda>m s k. s = k @ m, ph_sign = \<lambda>m k. k @ m\<rparr>"

theorem approval_binds_document_witness:
  "\<exists>a. verify_assertion toy_crypto (JBool True) a ''o'' ''rp'' ''k'' True = Inr (True, AOk)
      \<and> attests toy_crypto (JBool True) a ''o'' ''rp'' ''k'' True
      \<and> verify_assertion toy_crypto (JBool False) a ''o'' ''rp'' ''k'' True = Inr (False, ChallengeMismatch)
      \<and> verify_assertion toy_crypto (JBool True) a ''o'' ''rp'' ''j'' True = Inr (False, CredentialMismatch)"
proof -
  let ?a = "make_assertion toy_crypto (JBool True) ''k'' ''o'' ''rp'' True True"
  note defs = make_assertion_def Let_def verify_assertion_def field64_def jget_def jstr_def toy_crypto_def
        authenticator_data_def is_obj_def challenge_for_def nth_append byte_def flag_up_def flag_uv_def
  have v: "verify_assertion toy_crypto (JBool True) ?a ''o'' ''rp'' ''k'' True = Inr (True, AOk)" by (simp add: defs)
  have w: "verify_assertion toy_crypto (JBool False) ?a ''o'' ''rp'' ''k'' True = Inr (False, ChallengeMismatch)"
    "verify_assertion toy_crypto (JBool True) ?a ''o'' ''rp'' ''j'' True = Inr (False, CredentialMismatch)" by (simp_all add: defs)
  have "inj (b64ue toy_crypto)" by (simp add: toy_crypto_def inj_def)
  from approval_binds_document [OF v v this] v w show ?thesis by blast
qed

end
