(* ===== verification/Settle.thy ===== *)
theory Settle
  imports Price Envelope
begin

text \<open>
  The payout path: quotes (\<open>src/infra/settle/quote.py\<close>), the settlement engine
  (\<open>engine.py\<close>), escrow expiry (\<open>escrow_expiry.py\<close>) and the money-work cross-check
  (\<open>reward_verify.py\<close>). Quotes and receipts are the untrusted JSON the code parses.
\<close>

section \<open>Quotes\<close>

definition quote_type :: string where "quote_type = ''application/vnd.cyberware.quote+json''"

text \<open>\<open>zip\<close> stops at the shorter of the policy's accounts and the parts.\<close>

definition compute_quote :: "string \<Rightarrow> money \<Rightarrow> string list \<Rightarrow> json list \<Rightarrow> string \<Rightarrow> json res" where
  "compute_quote plan_sha amt accounts weights fmv =
     bindR (money_split amt (map arg_of_json weights)) (\<lambda>parts.
       Inr (JObj [(''plan_sha'', JStr plan_sha), (''amount'', JStr (amount_str amt)), (''currency'', JStr (currency amt)),
         (''fmv'', JStr fmv),
         (''split_policy'', JObj [(''accounts'', JList (map JStr accounts)), (''weights'', JList weights)]),
         (''breakdown'', JList (map (\<lambda>(a, p). JObj [(''account'', JStr a), (''amount'', JStr (amount_str p))])
                                    (zip accounts parts)))]))"

definition item_str :: "json \<Rightarrow> string \<Rightarrow> string res" where
  "item_str j k = bindR (item j k) str_of_json"

definition item_list :: "json \<Rightarrow> string \<Rightarrow> json list res" where
  "item_list j k = bindR (item j k) (\<lambda>v. case v of JList xs \<Rightarrow> Inr xs | _ \<Rightarrow> Inl TypeError)"

definition item_money :: "json \<Rightarrow> string \<Rightarrow> string \<Rightarrow> money res" where
  "item_money j k c = bindR (item j k) (\<lambda>v. money_of (arg_of_json v) c)"

definition breakdown_balances :: "json \<Rightarrow> bool res" where
  "breakdown_balances q =
     bindR (item_str q ''currency'') (\<lambda>cur.
     bindR (money_zero cur) (\<lambda>z.
     bindR (item_list q ''breakdown'') (\<lambda>bs.
     bindR (foldR (\<lambda>t b. bindR (item_money b ''amount'' cur) (\<lambda>m. money_add t m)) z bs) (\<lambda>t.
     bindR (item_money q ''amount'' cur) (\<lambda>m. Inr (money_eq t m))))))"

definition sign_quote :: "crypto \<Rightarrow> json \<Rightarrow> string \<Rightarrow> json" where
  "sign_quote K q priv = sign_ph K (canonicalize q) priv quote_type ''govd-quote''"

definition quote_sha :: "crypto \<Rightarrow> json \<Rightarrow> string" where
  "quote_sha K q = digest (sha_hex K) q"

definition verify_quote :: "crypto \<Rightarrow> json \<Rightarrow> string \<Rightarrow> (bool \<times> json option) res" where
  "verify_quote K env pub =
     (if \<not> is_obj env \<or> jget env ''payloadType'' \<noteq> JStr quote_type then Inr (False, None)
      else if \<not> truthy (jget env ''signatures'') then Inr (False, None)
      else bindR (verify_ph K env pub) (\<lambda>ok.
        if \<not> ok then Inr (False, None)
        else case decode_payload K env of
          None \<Rightarrow> Inr (False, None)
        | Some q \<Rightarrow> bindR (breakdown_balances q) (\<lambda>b. Inr (b, Some q))))"

definition payload_json :: "crypto \<Rightarrow> json \<Rightarrow> json res" where
  "payload_json K env = (case decode_payload K env of Some q \<Rightarrow> Inr q | None \<Rightarrow> Inl ValueError)"

definition fund_quote :: "crypto \<Rightarrow> entry list \<Rightarrow> string \<Rightarrow> json \<Rightarrow> entry list res" where
  "fund_quote K es funder env =
     bindR (payload_json K env) (\<lambda>q.
     bindR (item_str q ''currency'') (\<lambda>cur.
     bindR (item_money q ''amount'' cur) (\<lambda>m.
       fund_escrow (sha_hex K) es funder m (escrow_for (quote_sha K q)) (''fund-quote:'' @ take 16 (quote_sha K q)))))"

definition is_funded :: "crypto \<Rightarrow> entry list \<Rightarrow> json \<Rightarrow> bool res" where
  "is_funded K es env =
     bindR (payload_json K env) (\<lambda>q.
     bindR (item_str q ''currency'') (\<lambda>cur.
     bindR (balance_of es (escrow_for (quote_sha K q)) cur) (\<lambda>escrow.
     bindR (item_money q ''amount'' cur) (\<lambda>m.
     bindR (money_lt escrow m) (\<lambda>lt. Inr (\<not> lt))))))"

datatype gate_reason = FreePerk | QuoteMissing | QuoteInvalid | PlanMismatch2 | QuoteUnfunded | FundedQuote

definition grant_admits :: "crypto \<Rightarrow> json option \<Rightarrow> entry list \<Rightarrow> string \<Rightarrow> bool \<Rightarrow> string \<Rightarrow> (bool \<times> gate_reason) res" where
  "grant_admits K env es plan_sha priced pub =
     (if \<not> priced then Inr (True, FreePerk)
      else case env of
        None \<Rightarrow> Inr (False, QuoteMissing)
      | Some e \<Rightarrow>
          if \<not> truthy e then Inr (False, QuoteMissing)
          else bindR (verify_quote K e pub) (\<lambda>(ok, qo).
            case (ok, qo) of
              (True, Some q) \<Rightarrow>
                bindR (item q ''plan_sha'') (\<lambda>p.
                  if p \<noteq> JStr plan_sha then Inr (False, PlanMismatch2)
                  else bindR (is_funded K es e) (\<lambda>f. Inr (if f then (True, FundedQuote) else (False, QuoteUnfunded))))
            | _ \<Rightarrow> Inr (False, QuoteInvalid)))"

section \<open>The settlement engine\<close>

definition settle_prefix :: string where "settle_prefix = ''settle:quote:''"

definition already_settled :: "entry list \<Rightarrow> string \<Rightarrow> bool" where
  "already_settled es sha = posted es (settle_prefix @ sha)"

definition build_receipt :: "crypto \<Rightarrow> string \<Rightarrow> string \<Rightarrow> string \<Rightarrow> money \<Rightarrow> string \<Rightarrow> string \<Rightarrow> json" where
  "build_receipt K run_id sha validation amt priv_exec priv_appr =
     finalize_receipt K run_id sha
       (JObj [(''run_id'', JStr run_id), (''quote_sha'', JStr sha), (''validation'', JStr validation),
              (''amount'', JStr (amount_str amt)), (''currency'', JStr (currency amt))])
       priv_exec ''executor'' priv_appr ''approver''"

definition predicate :: "crypto \<Rightarrow> json \<Rightarrow> json" where
  "predicate K receipt =
     (case decode_payload K receipt of None \<Rightarrow> JObj []
      | Some st \<Rightarrow> if is_obj st then jget_or st ''predicate'' (JObj []) else JObj [])"

datatype settle_result =
    NotDualSigned | ValidationNotPass | InvalidQuote | QuoteUnbound | QuoteAlreadySettled | QuoteNotFunded
  | SettledOk string string json string

definition account_amounts :: "string \<Rightarrow> json list \<Rightarrow> (string, money) dict res" where
  "account_amounts cur bs =
     foldR (\<lambda>d b. bindR (item_str b ''account'') (\<lambda>a.
                  bindR (item_money b ''amount'' cur) (\<lambda>m. Inr (dput a m d)))) [] bs"

definition settle_pay :: "crypto \<Rightarrow> entry list \<Rightarrow> json \<Rightarrow> json \<Rightarrow> string \<Rightarrow> int \<Rightarrow> int \<Rightarrow> (entry list \<times> settle_result) res" where
  "settle_pay K es pred q sha hold_weight keep_weight =
     bindR (item_str q ''currency'') (\<lambda>cur.
     bindR (item_money q ''amount'' cur) (\<lambda>amt.
     bindR (item_list q ''breakdown'') (\<lambda>bs.
     bindR (account_amounts cur bs) (\<lambda>by_acct.
     bindR (money_zero cur) (\<lambda>z.
       let fee_part = dget_default by_acct ''fee'' z; payee_part = dget_default by_acct ''payee'' z in
       bindR (money_split payee_part [AInt hold_weight, AInt keep_weight]) (\<lambda>parts.
         case parts of
           [held, kept] \<Rightarrow>
             bindR (money_neg amt) (\<lambda>n.
             bindR (post (sha_hex K) es
                      [mk_posting (escrow_for sha) n, mk_posting ''fee'' fee_part, mk_posting ''payee'' kept,
                       mk_posting (''hold:'' @ take 16 sha) held] (settle_prefix @ sha)) (\<lambda>es'.
               Inr (es', SettledOk (amount_str amt) (amount_str held) (jget_or pred ''run_id'' (JStr ''run'')) sha)))
         | _ \<Rightarrow> Inl ValueError))))))"

definition settle :: "crypto \<Rightarrow> entry list \<Rightarrow> json \<Rightarrow> json \<Rightarrow> string \<Rightarrow> string \<Rightarrow> string \<Rightarrow> int \<Rightarrow> int
    \<Rightarrow> (entry list \<times> settle_result) res" where
  "settle K es receipt env exec_pub approver_pub govd_pub hold_weight keep_weight =
     bindR (verify_receipt K receipt exec_pub approver_pub) (\<lambda>rep.
       if \<not> dual_signed rep then Inr (es, NotDualSigned)
       else let pred = predicate K receipt in
         if \<not> is_obj pred then Inl AttributeError
         else if jget pred ''validation'' \<noteq> JStr ''pass'' then Inr (es, ValidationNotPass)
         else bindR (verify_quote K env govd_pub) (\<lambda>(qok, qo).
           case (qok, qo) of
             (True, Some q) \<Rightarrow>
               let sha = quote_sha K q in
               if jget pred ''quote_sha'' \<noteq> JStr sha then Inr (es, QuoteUnbound)
               else if already_settled es sha then Inr (es, QuoteAlreadySettled)
               else bindR (is_funded K es env) (\<lambda>f.
                 if \<not> f then Inr (es, QuoteNotFunded)
                 else settle_pay K es pred q sha hold_weight keep_weight)
           | _ \<Rightarrow> Inr (es, InvalidQuote)))"

definition release_holdback :: "crypto \<Rightarrow> entry list \<Rightarrow> string \<Rightarrow> string \<Rightarrow> (entry list \<times> string) res" where
  "release_holdback K es sha c =
     (let acct = ''hold:'' @ take 16 sha in
      bindR (balance_of es acct c) (\<lambda>held.
      bindR (money_neg held) (\<lambda>n.
      bindR (post (sha_hex K) es [mk_posting acct n, mk_posting ''payee'' held] (''release-hold:'' @ take 16 sha)) (\<lambda>es'.
        Inr (es', amount_str held)))))"

section \<open>Escrow expiry\<close>

definition fund_memo :: string where "fund_memo = ''escrow-fund:''"
definition refund_memo :: string where "refund_memo = ''escrow-refund:''"

definition fund_with_expiry :: "crypto \<Rightarrow> entry list \<Rightarrow> string \<Rightarrow> money \<Rightarrow> string \<Rightarrow> int \<Rightarrow> entry list res" where
  "fund_with_expiry K es funder amt key expires_at =
     bindR (money_neg amt) (\<lambda>n.
       post (sha_hex K) es [mk_posting funder n, mk_posting (escrow_for key) amt]
         (fund_memo @ key @ '':exp='' @ show_int expires_at @ '':funder='' @ funder))"

text \<open>\<open>s.split(sep)\<close> for a non-empty separator.\<close>

function str_split :: "string \<Rightarrow> string \<Rightarrow> string \<Rightarrow> string list" where
  "str_split sep acc s =
     (if s = [] then [rev acc]
      else if sep \<noteq> [] \<and> prefix sep s then rev acc # str_split sep [] (drop (length sep) s)
      else str_split sep (hd s # acc) (tl s))"
  by pat_completeness auto

termination
  by (relation "measure (\<lambda>(_, _, s). length s)") (auto simp: diff_less)

declare str_split.simps [simp del]

lemma str_split_step:
  "str_split sep acc [] = [rev acc]"
  "\<not> prefix sep (c # s) \<Longrightarrow> str_split sep acc (c # s) = str_split sep (c # acc) s"
  "prefix sep (c # s) \<Longrightarrow> sep \<noteq> [] \<Longrightarrow>
   str_split sep acc (c # s) = rev acc # str_split sep [] (drop (length sep) (c # s))"
  by (subst str_split.simps, simp)+

definition nth_part :: "string list \<Rightarrow> nat \<Rightarrow> string res" where
  "nth_part xs i = (if i < length xs then Inr (xs ! i) else Inl IndexError)"

definition int_of_str :: "string \<Rightarrow> int res" where
  "int_of_str s = int_of_json (JStr s)"

definition parse_funding :: "string \<Rightarrow> (string \<times> int \<times> string) res" where
  "parse_funding rest =
     bindR (nth_part (str_split '':exp='' [] rest) 0) (\<lambda>key.
     bindR (nth_part (str_split '':exp='' [] rest) 1) (\<lambda>r1.
     bindR (nth_part (str_split '':funder='' [] r1) 0) (\<lambda>exp.
     bindR (nth_part (str_split '':funder='' [] rest) 1) (\<lambda>funder.
     bindR (int_of_str exp) (\<lambda>e. Inr (key, e, funder))))))"

definition fundings :: "entry list \<Rightarrow> (string, int \<times> string) dict res" where
  "fundings es =
     foldR (\<lambda>d e. case entry_memo e of
               None \<Rightarrow> Inr d
             | Some m \<Rightarrow>
                 if starts_with m fund_memo
                 then bindR (parse_funding (drop (length fund_memo) m)) (\<lambda>(key, ex, funder). Inr (dput key (ex, funder) d))
                 else Inr d) [] es"

definition done_key :: "string \<Rightarrow> string option" where
  "done_key m = (if starts_with m settle_prefix then Some (drop (length settle_prefix) m)
                 else if starts_with m refund_memo then Some (drop (length refund_memo) m) else None)"

definition settled_or_refunded :: "entry list \<Rightarrow> string set" where
  "settled_or_refunded es = set (List.map_filter done_key (memos es))"

text \<open>One key of the sweep; the balances are those of the ledger before the sweep.\<close>

definition sweep_key :: "crypto \<Rightarrow> string set \<Rightarrow> balance_map \<Rightarrow> int \<Rightarrow> entry list \<times> string list
    \<Rightarrow> string \<times> int \<times> string \<Rightarrow> (entry list \<times> string list) res" where
  "sweep_key K finished bal now st kf =
     (let (es, refunded) = st; (key, ex, funder) = kf in
      if key \<in> finished \<or> ex > now then Inr st
      else bindR (case dget bal (escrow_for key, ''USD'') of Some m \<Rightarrow> Inr m | None \<Rightarrow> money_zero ''USD'') (\<lambda>held.
        if money_is_zero held then Inr st
        else bindR (money_neg held) (\<lambda>n.
          bindR (post (sha_hex K) es [mk_posting (escrow_for key) n, mk_posting funder held] (refund_memo @ key)) (\<lambda>es'.
            Inr (es', refunded @ [key])))))"

definition sweep_expired :: "crypto \<Rightarrow> entry list \<Rightarrow> int \<Rightarrow> (entry list \<times> string list) res" where
  "sweep_expired K es now =
     (let finished = settled_or_refunded es in
      bindR (balances es) (\<lambda>bal.
      bindR (fundings es) (\<lambda>fs.
        foldR (sweep_key K finished bal now) (es, []) (sort_key fst fs))))"

definition stale_escrow_keys :: "entry list \<Rightarrow> int \<Rightarrow> int \<Rightarrow> string list res" where
  "stale_escrow_keys es now bound =
     (let finished = settled_or_refunded es in
      bindR (balances es) (\<lambda>bal.
      bindR (fundings es) (\<lambda>fs.
        Inr (sort (map fst (filter (\<lambda>(key, ex, funder).
               \<not> (key \<in> finished \<or> now < ex + bound)
               \<and> (case dget bal (escrow_for key, ''USD'') of Some m \<Rightarrow> \<not> money_is_zero m | None \<Rightarrow> False)) fs))))))"

section \<open>Cross-checking money and work\<close>

definition settled_quote_shas :: "entry list \<Rightarrow> string list" where
  "settled_quote_shas es =
     map (drop (length settle_prefix)) (filter (\<lambda>m. starts_with m settle_prefix) (memos es))"

definition authorized_sha :: "crypto \<Rightarrow> (string, json) dict \<Rightarrow> string \<Rightarrow> string \<Rightarrow> string \<Rightarrow> json \<Rightarrow> string option res" where
  "authorized_sha K envs exec_pub approver_pub govd_pub r =
     bindR (verify_receipt K r exec_pub approver_pub) (\<lambda>rep.
       if \<not> dual_signed rep then Inr None
       else let pred = predicate K r in
         if \<not> is_obj pred then Inl AttributeError
         else if jget pred ''validation'' \<noteq> JStr ''pass'' then Inr None
         else case jget pred ''quote_sha'' of
           JStr sha \<Rightarrow>
             (case dget envs sha of
                None \<Rightarrow> Inr None
              | Some env \<Rightarrow>
                  if \<not> truthy env then Inr None
                  else bindR (verify_quote K env govd_pub) (\<lambda>(qok, qo).
                    case (qok, qo) of
                      (True, Some q) \<Rightarrow> Inr (if quote_sha K q = sha then Some sha else None)
                    | _ \<Rightarrow> Inr None))
         | _ \<Rightarrow> Inr None)"

definition authorized_quote_shas :: "crypto \<Rightarrow> json list \<Rightarrow> (string, json) dict \<Rightarrow> string \<Rightarrow> string \<Rightarrow> string \<Rightarrow> string list res" where
  "authorized_quote_shas K store envs exec_pub approver_pub govd_pub =
     foldR (\<lambda>out r. bindR (authorized_sha K envs exec_pub approver_pub govd_pub r)
                      (\<lambda>s. Inr (case s of Some x \<Rightarrow> out @ [x] | None \<Rightarrow> out))) [] store"

record verify_report =
  chain_ok :: bool
  per_record_zero :: bool
  globally_zero :: bool
  money_without_work :: "string list"
  work_without_money :: "string list"
  double_settled :: "string list"
  v_ok :: bool

text \<open>\<open>bool(ledger.verify_chain(...))\<close>: a pair is true whatever it holds.\<close>

definition truth_of_pair :: "bool \<times> problem list \<Rightarrow> bool" where
  "truth_of_pair p = True"

definition all_balanced :: "entry list \<Rightarrow> bool res" where
  "all_balanced es =
     foldR (\<lambda>ok e. case body e of PostingSet ps _ \<Rightarrow> (if ok then is_balanced ps else Inr False) | _ \<Rightarrow> Inr ok) True es"

definition sorted_set :: "string list \<Rightarrow> string list" where
  "sorted_set xs = sort (remdups xs)"

definition reward_verify :: "crypto \<Rightarrow> entry list \<Rightarrow> json list \<Rightarrow> (string, json) dict \<Rightarrow> string \<Rightarrow> string \<Rightarrow> string
    \<Rightarrow> verify_report res" where
  "reward_verify K es store envs exec_pub approver_pub govd_pub =
     bindR (verify_chain (sha_hex K) (map entry_json es) current_major None None) (\<lambda>vc.
     bindR (all_balanced es) (\<lambda>prz.
     bindR (global_zero es) (\<lambda>gz.
     bindR (authorized_quote_shas K store envs exec_pub approver_pub govd_pub) (\<lambda>work.
       let money = settled_quote_shas es;
           mw = sorted_set (filter (\<lambda>s. s \<notin> set work) money);
           wm = sorted_set (filter (\<lambda>s. s \<notin> set money) work);
           ds = sorted_set (filter (\<lambda>s. count_list money s > 1) money)
       in Inr \<lparr>chain_ok = truth_of_pair vc, per_record_zero = prz, globally_zero = gz, money_without_work = mw,
               work_without_money = wm, double_settled = ds,
               v_ok = truth_of_pair vc \<and> prz \<and> gz \<and> mw = [] \<and> wm = [] \<and> ds = []\<rparr>))))"

section \<open>Payment needs both signatures, a pass and a funded quote\<close>

lemma account_amounts_bounded:
  assumes "account_amounts cur bs = Inr d" and "dget d a = Some m"
  shows "currency m = cur \<and> \<bar>units m\<bar> < 10 ^ 34"
proof -
  have "\<forall>a m. dget d a = Some m \<longrightarrow> currency m = cur \<and> \<bar>units m\<bar> < 10 ^ 34"
    using assms(1) unfolding account_amounts_def
    by (rule foldR_invariant) (auto simp: bindR_eq_Inr item_money_def dget_dput split: if_splits dest!: money_of_bounded)
  then show ?thesis using assms(2) by blast
qed

lemma escrow_hd [simp]: "c \<noteq> CHR ''e'' \<Longrightarrow> escrow_for s \<noteq> c # t" "c \<noteq> CHR ''e'' \<Longrightarrow> c # t \<noteq> escrow_for s"
  by (simp_all add: escrow_for_def escrow_pool_def)

lemma settle_pay_effect:
  assumes "settle_pay K es pred q sha hw kw = Inr (es', r)"
  obtains amt a h run where "item_str q ''currency'' = Inr (currency amt)" "item_money q ''amount'' (currency amt) = Inr amt"
    and "r = SettledOk a h run sha" and "memos es' = memos es @ [settle_prefix @ sha]"
    and "\<bar>units amt\<bar> < 10 ^ 28 \<Longrightarrow>
       acct_sum es' (escrow_for sha) (currency amt) = acct_sum es (escrow_for sha) (currency amt) - units amt"
    and "\<bar>units amt\<bar> < 10 ^ 28 \<Longrightarrow>
       (acct_sum es' ''fee'' (currency amt) - acct_sum es ''fee'' (currency amt))
       + (acct_sum es' ''payee'' (currency amt) - acct_sum es ''payee'' (currency amt))
       + (acct_sum es' (''hold:'' @ take 16 sha) (currency amt) - acct_sum es (''hold:'' @ take 16 sha) (currency amt)) = units amt"
proof -
  from assms obtain cur amt bs d parts where c: "item_str q ''currency'' = Inr cur" "item_money q ''amount'' cur = Inr amt"
    "account_amounts cur bs = Inr d"
    and sp: "money_split (dget_default d ''payee'' (Mny 0 cur)) [AInt hw, AInt kw] = Inr parts"
    and rest: "(case parts of [held, kept] \<Rightarrow>
             bindR (money_neg amt) (\<lambda>n.
             bindR (post (sha_hex K) es
                      [mk_posting (escrow_for sha) n, mk_posting ''fee'' (dget_default d ''fee'' (Mny 0 cur)), mk_posting ''payee'' kept,
                       mk_posting (''hold:'' @ take 16 sha) held] (settle_prefix @ sha)) (\<lambda>es'.
               Inr (es', SettledOk (amount_str amt) (amount_str held) (jget_or pred ''run_id'' (JStr ''run'')) sha)))
         | _ \<Rightarrow> Inl ValueError) = Inr (es', r)"
  proof -
    from assms obtain cur where 1: "item_str q ''currency'' = Inr cur" unfolding settle_pay_def bindR_eq_Inr by blast
    note a1 = assms [unfolded settle_pay_def 1 bindR_Inr]
    from a1 obtain amt where 2: "item_money q ''amount'' cur = Inr amt" unfolding bindR_eq_Inr by blast
    note a2 = a1 [unfolded 2 bindR_Inr]
    from a2 obtain bs where 3: "item_list q ''breakdown'' = Inr bs" unfolding bindR_eq_Inr by blast
    note a3 = a2 [unfolded 3 bindR_Inr]
    from a3 obtain d where 4: "account_amounts cur bs = Inr d" unfolding bindR_eq_Inr by blast
    note a4 = a3 [unfolded 4 bindR_Inr money_zero_eq Let_def]
    from a4 obtain parts where 5: "money_split (dget_default d ''payee'' (Mny 0 cur)) [AInt hw, AInt kw] = Inr parts"
      unfolding bindR_eq_Inr by blast
    show thesis by (rule that [OF 1 2 4 5 a4 [unfolded 5 bindR_Inr]])
  qed
  from rest obtain held kept n where hk: "parts = [held, kept]" and n: "money_neg amt = Inr n"
    and po: "post (sha_hex K) es [mk_posting (escrow_for sha) n, mk_posting ''fee'' (dget_default d ''fee'' (Mny 0 cur)),
        mk_posting ''payee'' kept, mk_posting (''hold:'' @ take 16 sha) held] (settle_prefix @ sha) = Inr es'"
    and r: "r = SettledOk (amount_str amt) (amount_str held) (jget_or pred ''run_id'' (JStr ''run'')) sha"
    by (auto simp: bindR_eq_Inr split: list.split_asm)
  let ?fee = "dget_default d ''fee'' (Mny 0 cur)"
  have fee: "currency ?fee = cur" "\<bar>units ?fee\<bar> < 10 ^ 34"
    using account_amounts_bounded [OF c(3), of "''fee''"] by (auto simp: dget_default_def split: option.split)
  have pay: "currency (dget_default d ''payee'' (Mny 0 cur)) = cur"
    using account_amounts_bounded [OF c(3), of "''payee''"] by (auto simp: dget_default_def split: option.split)
  have hb: "\<bar>units held\<bar> < 10 ^ 34" "currency held = cur" "\<bar>units kept\<bar> < 10 ^ 34" "currency kept = cur"
    using money_of_in_split [OF sp] hk pay by simp_all
  have amt: "currency amt = cur" using c(2) by (auto simp: item_money_def bindR_eq_Inr dest!: money_of_bounded)
  have v: "pval (mk_posting a ?fee) = units ?fee" "pval (mk_posting a kept) = units kept" "pval (mk_posting a held) = units held" for a
    using fee hb by (simp_all add: pval_mk_posting)
  have neg: "n = Mny (- units amt) cur" "pval (mk_posting a n) = - units amt" if "\<bar>units amt\<bar> < 10 ^ 28" for a
    using n that amt by (auto simp: money_neg_eq pval_mk_posting)
  have z: "units ?fee + units kept + units held = units amt" if "\<bar>units amt\<bar> < 10 ^ 28"
    using post_zero [OF po, of cur] v neg [OF that] fee hb by simp
  show thesis
    by (rule that [of amt]) (use c amt r post_memos [OF po] v neg z fee hb in \<open>auto simp: post_acct [OF po]\<close>)
qed

lemma settle_cases:
  assumes "settle K es receipt env ep ap gp hw kw = Inr (es', r)"
  obtains "es' = es" "\<And>a h x sha. r \<noteq> SettledOk a h x sha"
  | q sha where "verify_ph K receipt ep = Inr True" "verify_ph K receipt ap = Inr True"
     "jget (predicate K receipt) ''validation'' = JStr ''pass''" "verify_quote K env gp = Inr (True, Some q)"
     "sha = quote_sha K q" "jget (predicate K receipt) ''quote_sha'' = JStr sha" "\<not> already_settled es sha"
     "is_funded K es env = Inr True" "settle_pay K es (predicate K receipt) q sha hw kw = Inr (es', r)"
proof -
  from assms obtain rep where rep: "verify_receipt K receipt ep ap = Inr rep"
    by (auto simp: settle_def bindR_eq_Inr)
  note a = assms [unfolded settle_def rep bindR_Inr Let_def]
  show thesis
  proof (cases "dual_signed rep \<and> jget (predicate K receipt) ''validation'' = JStr ''pass'' \<and> is_obj (predicate K receipt)")
    case False
    then show thesis using a that(1) by (auto split: if_splits)
  next
    case True
    note dual = receipt_dual_signed(1,2) [OF rep]
    from a True obtain ok qo where vq: "verify_quote K env gp = Inr (ok, qo)" by (auto simp: bindR_eq_Inr)
    show thesis
    proof (cases "ok \<and> qo \<noteq> None")
      case False
      then show thesis using a True that(1) by (cases ok; cases qo) (auto simp: vq)
    next
      case True': True
      then obtain q where q: "qo = Some q" "ok" by auto
      note a' = a True vq q
      show thesis
      proof (cases "jget (predicate K receipt) ''quote_sha'' = JStr (quote_sha K q) \<and> \<not> already_settled es (quote_sha K q)")
        case False
        then show thesis using a' that(1) by (auto split: if_splits)
      next
        case True'': True
        then obtain f where f: "is_funded K es env = Inr f" using a' by (auto simp: bindR_eq_Inr)
        show thesis
        proof (cases f)
          case True
          then show thesis using a' True'' f that(2) [OF dual] by (auto split: if_splits)
        next
          case False
          then show thesis using a' True'' f that(1) by (auto split: if_splits)
        qed
      qed
    qed
  qed
qed

text \<open>
  C1: the engine pays only for proven work. If a settlement is reported, then both the executor's
  and the approver's signatures verify on the receipt, its verdict is \<open>pass\<close>, it names the
  quote that verifies under govd's key, that quote had not been paid and was funded; and the
  payout takes exactly the quoted amount out of that quote's escrow and into the fee, payee and
  hold accounts together. In every other case the ledger is unchanged.
\<close>

theorem settlement_requires_proof:
  assumes "settle K es receipt env ep ap gp hw kw = Inr (es', r)"
  shows "case r of
      SettledOk a h x sha \<Rightarrow>
        verify_ph K receipt ep = Inr True \<and> verify_ph K receipt ap = Inr True
        \<and> jget (predicate K receipt) ''validation'' = JStr ''pass''
        \<and> jget (predicate K receipt) ''quote_sha'' = JStr sha
        \<and> \<not> already_settled es sha \<and> already_settled es' sha
        \<and> (\<exists>q amt. verify_quote K env gp = Inr (True, Some q) \<and> sha = quote_sha K q \<and> is_funded K es env = Inr True
             \<and> item_money q ''amount'' (currency amt) = Inr amt
             \<and> (\<bar>units amt\<bar> < 10 ^ 28 \<longrightarrow>
                 acct_sum es' (escrow_for sha) (currency amt) = acct_sum es (escrow_for sha) (currency amt) - units amt
                 \<and> (acct_sum es' ''fee'' (currency amt) - acct_sum es ''fee'' (currency amt))
                   + (acct_sum es' ''payee'' (currency amt) - acct_sum es ''payee'' (currency amt))
                   + (acct_sum es' (''hold:'' @ take 16 sha) (currency amt)
                      - acct_sum es (''hold:'' @ take 16 sha) (currency amt)) = units amt))
    | _ \<Rightarrow> es' = es"
  using assms
proof (cases rule: settle_cases)
  case 1
  then show ?thesis by (cases r) auto
next
  case (2 q sha)
  from settle_pay_effect [OF 2(9)] obtain amt a h run where e:
    "item_str q ''currency'' = Inr (currency amt)" "item_money q ''amount'' (currency amt) = Inr amt" "r = SettledOk a h run sha"
    "memos es' = memos es @ [settle_prefix @ sha]"
    "\<bar>units amt\<bar> < 10 ^ 28 \<Longrightarrow> acct_sum es' (escrow_for sha) (currency amt) = acct_sum es (escrow_for sha) (currency amt) - units amt"
    "\<bar>units amt\<bar> < 10 ^ 28 \<Longrightarrow>
       (acct_sum es' ''fee'' (currency amt) - acct_sum es ''fee'' (currency amt))
       + (acct_sum es' ''payee'' (currency amt) - acct_sum es ''payee'' (currency amt))
       + (acct_sum es' (''hold:'' @ take 16 sha) (currency amt) - acct_sum es (''hold:'' @ take 16 sha) (currency amt)) = units amt"
    by blast
  show ?thesis unfolding e(3) settle_result.case
    by (intro conjI impI exI [of _ q] exI [of _ amt])
      (use 2 e in \<open>simp_all add: already_settled_def posted_memos\<close>)
qed

interpretation engine: fresh_tags "\<lambda>es x. settle K es (fst x) (snd x) ep ap gp hw kw" memos for K ep ap gp hw kw
proof
  fix es es' r and x :: "json \<times> json"
  assume s: "settle K es (fst x) (snd x) ep ap gp hw kw = Inr (es', r)"
  then show "es' = es \<or> (\<exists>t. t \<notin> set (memos es) \<and> memos es' = memos es @ [t])"
  proof (cases rule: settle_cases)
    case (2 q sha)
    from settle_pay_effect [OF 2(9)] have "memos es' = memos es @ [settle_prefix @ sha]" by blast
    then show ?thesis using 2(7) by (auto simp: already_settled_def posted_memos)
  qed simp
qed

text \<open>
  C7: a quote is paid at most once: over any sequence of settlement attempts with any receipts and
  quote envelopes, starting from a ledger that has not paid the quote, at most one settlement
  record for its digest is ever written.
\<close>

theorem quote_settles_at_most_once:
  "engine.runs K ep ap gp hw kw es attempts = Inr es' \<Longrightarrow> \<not> already_settled es sha \<Longrightarrow>
   count_list (memos es') (settle_prefix @ sha) \<le> 1"
  using engine.count_runs [of K ep ap gp hw kw es attempts es' "settle_prefix @ sha"]
  by (simp add: already_settled_def posted_memos)

subsection \<open>A concrete settlement\<close>

definition sample_quote :: json where
  "sample_quote = JObj [(''currency'', JStr ''USD''), (''amount'', JInt 1),
     (''breakdown'', JList [JObj [(''account'', JStr ''fee''), (''amount'', JInt 1)]])]"

definition sample_statement :: json where
  "sample_statement = JObj [(''predicate'', JObj [(''validation'', JStr ''pass''), (''quote_sha'', JStr ''h'')])]"

definition sample_crypto :: crypto where
  "sample_crypto = toy_crypto\<lparr>sha_hex := \<lambda>_. ''h'', ph_verify := \<lambda>_ _ _. True,
     parse := \<lambda>s. if s = ''S'' then Some sample_statement else if s = ''Q'' then Some sample_quote else None\<rparr>"

definition sample_env :: "string \<Rightarrow> string \<Rightarrow> json" where
  "sample_env p t = JObj [(''payload'', JStr p), (''payloadType'', JStr t),
     (''signatures'', JList [JObj [(''keyid'', JStr ''a''), (''sig'', JStr ''s'')], JObj [(''keyid'', JStr ''b''), (''sig'', JStr ''t'')]])]"

lemma sample_fields:
  "jget (sample_env p t) ''payload'' = JStr p" "jget (sample_env p t) ''payloadType'' = JStr t"
  "is_obj (sample_env p t)" "truthy (jget (sample_env p t) ''signatures'')"
  "verify_ph sample_crypto (sample_env p t) k = Inr True"
  "card (set (map (\<lambda>s. jget s ''keyid'') (jlist (jget (sample_env p t) ''signatures'')))) = 2"
  by (simp_all add: sample_env_def jget_JObj verify_ph_def envelope_message_def jstr_def sample_crypto_def toy_crypto_def
      jlist_def jhas_def obj_members_def)

lemma sample_decode:
  "decode_payload sample_crypto (sample_env ''S'' t) = Some sample_statement"
  "decode_payload sample_crypto (sample_env ''Q'' t) = Some sample_quote"
  by (simp_all add: decode_payload_def sample_fields jstr_def sample_crypto_def toy_crypto_def)

lemma split_zero: "money_split (Mny 0 c) [AInt 10, AInt 90] = Inr [Mny 0 c, Mny 0 c]"
proof -
  have r: "rnd28 0 = 0" by (simp add: rnd28_def round_sig_def)
  have tw: "dsum [10, 90] = 100" using dsum_int [of "[10, 90]"] by simp
  have "split_alloc 0 [0, 0] = [0, 0]" by (simp add: split_alloc_def floor_dec_def dsum_def r)
  then show ?thesis
    by (simp add: money_split_def to_decimal_def tw amount_def r raw_shares_def money_of_def quantize4_zero Let_def half_even_def)
qed

lemma sample_quote_facts:
  "verify_quote sample_crypto (sample_env ''Q'' quote_type) k = Inr (True, Some sample_quote)"
  "item_str sample_quote ''currency'' = Inr ''USD''" "item_money sample_quote ''amount'' ''USD'' = Inr (Mny 10000 ''USD'')"
  "quote_sha sample_crypto sample_quote = ''h''"
proof -
  show c: "item_str sample_quote ''currency'' = Inr ''USD''" "item_money sample_quote ''amount'' ''USD'' = Inr (Mny 10000 ''USD'')"
    by (simp_all add: item_str_def item_money_def item_def sample_quote_def obj_members_def str_of_json_def arg_of_json_def money_of_int)
  have "breakdown_balances sample_quote = Inr True"
    unfolding breakdown_balances_def c bindR_Inr
    by (simp add: item_list_def item_money_def item_def sample_quote_def obj_members_def arg_of_json_def money_of_int money_add_eq)
  then show "verify_quote sample_crypto (sample_env ''Q'' quote_type) k = Inr (True, Some sample_quote)"
    by (simp add: verify_quote_def sample_fields sample_decode)
  show "quote_sha sample_crypto sample_quote = ''h''"
    by (simp add: quote_sha_def digest_def sample_crypto_def)
qed

lemma sample_settles:
  obtains es es' a h x where "\<not> already_settled es ''h''"
    "settle sample_crypto es (sample_env ''S'' in_toto_type) (sample_env ''Q'' quote_type) ''e'' ''a'' ''g'' 10 90
     = Inr (es', SettledOk a h x ''h'')"
proof -
  let ?m = "Mny 10000 ''USD''" and ?l = "open_ledger ''r'' ''p''" and ?H = "sha_hex sample_crypto"
  have ne: "?l \<noteq> []" by (simp add: open_ledger_def)
  obtain es where es: "post ?H ?l [mk_posting ''t'' (Mny (- units ?m) (currency ?m)), mk_posting (escrow_for ''h'') ?m] ''fund'' = Inr es"
    "\<And>x c. acct_sum es x c = acct_sum ?l x c
        + (if c = currency ?m then (if x = escrow_for ''h'' then units ?m else 0) - (if x = ''t'' then units ?m else 0) else 0)"
    by (rule post_pair [OF ne, of ?m ?H "''t''" "escrow_for ''h''" "''fund''"]) auto
  have nes: "es \<noteq> []" and unp: "\<not> already_settled es ''h''"
    using es(1) by (auto simp: post_eq_Inr already_settled_def posted_def open_ledger_def entry_memo_def settle_prefix_def)
  have "all_postings es = [mk_posting ''t'' (Mny (- 10000) ''USD''), mk_posting (escrow_for ''h'') ?m]"
    using es(1) by (auto simp: post_eq_Inr all_postings_def open_ledger_def entry_postings_def)
  then obtain bal where bal: "balances es = Inr bal"
    using balances_returns [of es] by (auto simp: pval_mk_posting well_formed_mk_posting)
  then obtain m where m: "balance_of es (escrow_for ''h'') ''USD'' = Inr m"
    by (cases "dget bal (escrow_for ''h'', ''USD'')") (auto simp: balance_of_def)
  have m10: "m = ?m" using balance_of_eq [OF m] es(2) by simp
  have f: "is_funded sample_crypto es (sample_env ''Q'' quote_type) = Inr True"
    using m m10 by (simp add: is_funded_def payload_json_def sample_decode sample_quote_facts money_lt_eq)
  have p: "predicate sample_crypto (sample_env ''S'' in_toto_type) = JObj [(''validation'', JStr ''pass''), (''quote_sha'', JStr ''h'')]"
    by (simp add: predicate_def sample_decode) (simp add: sample_statement_def jget_or_def obj_members_def)
  let ?ps = "[mk_posting (escrow_for ''h'') (Mny (- 10000) ''USD''), mk_posting ''fee'' ?m, mk_posting ''payee'' (Mny 0 ''USD''),
              mk_posting ''hold:h'' (Mny 0 ''USD'')]"
  have "\<exists>es'. post ?H es ?ps (settle_prefix @ ''h'') = Inr es'"
    by (rule post_returns [OF nes]) (auto simp: pval_mk_posting well_formed_mk_posting)
  then obtain es' where po: "post ?H es ?ps (settle_prefix @ ''h'') = Inr es'" by blast
  have aa: "item_list sample_quote ''breakdown'' = Inr [JObj [(''account'', JStr ''fee''), (''amount'', JInt 1)]]"
    "account_amounts ''USD'' [JObj [(''account'', JStr ''fee''), (''amount'', JInt 1)]] = Inr [(''fee'', ?m)]"
    by (simp_all add: item_list_def item_def sample_quote_def obj_members_def account_amounts_def item_str_def
        item_money_def str_of_json_def arg_of_json_def money_of_int)
  have pay: "settle_pay sample_crypto es (predicate sample_crypto (sample_env ''S'' in_toto_type)) sample_quote ''h'' 10 90
        = Inr (es', SettledOk (amount_str ?m) (amount_str (Mny 0 ''USD''))
                 (jget_or (predicate sample_crypto (sample_env ''S'' in_toto_type)) ''run_id'' (JStr ''run'')) ''h'')"
    using po by (simp add: settle_pay_def sample_quote_facts aa split_zero money_neg_eq dget_default_def)
  have vr: "verify_receipt sample_crypto (sample_env ''S'' in_toto_type) ''e'' ''a'' =
        Inr \<lparr>dual_signed = True, consumable = statement_consumable (decode_payload sample_crypto (sample_env ''S'' in_toto_type)),
             r_ok = statement_consumable (decode_payload sample_crypto (sample_env ''S'' in_toto_type))\<rparr>"
    unfolding verify_receipt_def sample_fields Let_def by (simp add: sample_fields(3))
  have "settle sample_crypto es (sample_env ''S'' in_toto_type) (sample_env ''Q'' quote_type) ''e'' ''a'' ''g'' 10 90
        = Inr (es', SettledOk (amount_str ?m) (amount_str (Mny 0 ''USD''))
                 (jget_or (predicate sample_crypto (sample_env ''S'' in_toto_type)) ''run_id'' (JStr ''run'')) ''h'')"
    unfolding settle_def vr
    using pay unp f by (simp add: p jget_JObj sample_quote_facts Let_def)
  then show thesis using unp that by blast
qed

theorem settlement_requires_proof_witness:
  "\<exists>es es' a h x. settle sample_crypto es (sample_env ''S'' in_toto_type) (sample_env ''Q'' quote_type) ''e'' ''a'' ''g'' 10 90
       = Inr (es', SettledOk a h x ''h'') \<and> already_settled es' ''h''"
proof -
  obtain es es' a h x where s: "settle sample_crypto es (sample_env ''S'' in_toto_type) (sample_env ''Q'' quote_type) ''e'' ''a'' ''g'' 10 90
       = Inr (es', SettledOk a h x ''h'')" by (rule sample_settles)
  from settlement_requires_proof [OF s] have "already_settled es' ''h''" by simp
  then show ?thesis using s by blast
qed

theorem quote_settles_at_most_once_witness:
  "\<exists>es es'. engine.runs sample_crypto ''e'' ''a'' ''g'' 10 90 es [(sample_env ''S'' in_toto_type, sample_env ''Q'' quote_type)] = Inr es'
       \<and> count_list (memos es') (settle_prefix @ ''h'') \<le> 1"
proof -
  obtain es es' a h x where u: "\<not> already_settled es ''h''" and
    s: "settle sample_crypto es (sample_env ''S'' in_toto_type) (sample_env ''Q'' quote_type) ''e'' ''a'' ''g'' 10 90
       = Inr (es', SettledOk a h x ''h'')" by (rule sample_settles)
  have r: "engine.runs sample_crypto ''e'' ''a'' ''g'' 10 90 es [(sample_env ''S'' in_toto_type, sample_env ''Q'' quote_type)] = Inr es'"
    using s by (simp add: engine.runs_def)
  from quote_settles_at_most_once [OF r u] r show ?thesis by blast
qed

end
