(* ===== verification/Escrow.thy ===== *)
theory Escrow
  imports Settle
begin

text \<open>
  What the expiry sweep and the money-work cross-check of \<open>Settle\<close> guarantee, and what
  they miss.
\<close>

section \<open>The sweep\<close>

lemma memos_append: "memos (es @ fs) = memos es @ memos fs"
  by (induction es) (simp_all add: memos_def map_filter_simps split: option.split)

lemma settled_append: "settled_or_refunded (es @ fs) = settled_or_refunded es \<union> settled_or_refunded fs"
proof -
  have "set (List.map_filter done_key (xs @ ys)) = set (List.map_filter done_key xs) \<union> set (List.map_filter done_key ys)" for xs ys
    by (induction xs) (simp_all add: map_filter_simps split: option.split)
  then show ?thesis by (simp add: settled_or_refunded_def memos_append)
qed

lemma refund_memo_facts:
  "\<not> starts_with (refund_memo @ k) fund_memo" "\<not> starts_with (refund_memo @ k) settle_prefix"
  "done_key (refund_memo @ k) = Some k"
  by (simp_all add: refund_memo_def fund_memo_def settle_prefix_def done_key_def)

definition refund_entry :: "entry \<Rightarrow> string \<Rightarrow> bool" where
  "refund_entry e key \<longleftrightarrow> entry_memo e = Some (refund_memo @ key)"

lemma fundings_refund: "refund_entry e key \<Longrightarrow> fundings (es @ [e]) = fundings es"
  by (cases "fundings es") (simp_all add: fundings_def foldR_append refund_entry_def refund_memo_facts)

lemma settled_refund: "refund_entry e key \<Longrightarrow> settled_or_refunded (es @ [e]) = insert key (settled_or_refunded es)"
  by (simp add: settled_append) (simp add: settled_or_refunded_def memos_def refund_entry_def map_filter_simps refund_memo_facts)

lemma done_key_iff: "done_key m = Some k \<longleftrightarrow> m = settle_prefix @ k \<or> m = refund_memo @ k"
proof
  assume "done_key m = Some k"
  then show "m = settle_prefix @ k \<or> m = refund_memo @ k" by (auto simp: done_key_def prefix_def split: if_split_asm)
next
  assume "m = settle_prefix @ k \<or> m = refund_memo @ k"
  then show "done_key m = Some k" using refund_memo_facts(3) by (elim disjE) (simp_all add: done_key_def)
qed

lemma done_iff: "k \<in> settled_or_refunded es \<longleftrightarrow> settle_prefix @ k \<in> set (memos es) \<or> refund_memo @ k \<in> set (memos es)"
proof -
  have "set (List.map_filter done_key ms) = {k. \<exists>m \<in> set ms. done_key m = Some k}" for ms
    by (induction ms) (auto simp: map_filter_simps split: option.split)
  then show ?thesis by (auto simp: settled_or_refunded_def done_key_iff)
qed

text \<open>A funding whose time is up: nobody has settled or refunded its key, and its account holds dollars.\<close>

definition stale_funding :: "entry list \<Rightarrow> int \<Rightarrow> string \<times> int \<times> string \<Rightarrow> bool" where
  "stale_funding es now kf =
     (case kf of (k, ex, f) \<Rightarrow>
        ex \<le> now \<and> settle_prefix @ k \<notin> set (memos es) \<and> refund_memo @ k \<notin> set (memos es) \<and> acct_sum es (escrow_for k) ''USD'' \<noteq> 0)"

text \<open>What the refund of one funding moves, for the dollars of one account.\<close>

definition refund_move :: "entry list \<Rightarrow> string \<Rightarrow> string \<times> int \<times> string \<Rightarrow> int" where
  "refund_move es a kf =
     (case kf of (k, ex, f) \<Rightarrow>
        (if a = f then acct_sum es (escrow_for k) ''USD'' else 0) - (if a = escrow_for k then acct_sum es (escrow_for k) ''USD'' else 0))"

text \<open>One key: skipped, or refunded in full.\<close>

lemma sweep_key_step:
  assumes "balances es0 = Inr bal" and "\<bar>acct_sum es0 (escrow_for (fst kf)) ''USD''\<bar> < 10 ^ 28" and "es \<noteq> []"
  shows "\<not> stale_funding es0 now kf \<Longrightarrow> sweep_key K (settled_or_refunded es0) bal now (es, r) kf = Inr (es, r)"
    and "stale_funding es0 now kf \<Longrightarrow> \<exists>es'. sweep_key K (settled_or_refunded es0) bal now (es, r) kf = Inr (es', r @ [fst kf]) \<and> es' \<noteq> []
           \<and> memos es' = memos es @ [refund_memo @ fst kf] \<and> fundings es' = fundings es
           \<and> (\<forall>a c. acct_sum es' a c = acct_sum es a c + (if c = ''USD'' then refund_move es0 a kf else 0))"
proof -
  obtain key ex funder where kf: "kf = (key, ex, funder)" by (cases kf)
  let ?h = "acct_sum es0 (escrow_for key) ''USD''"
  have small: "\<bar>?h\<bar> < 10 ^ 28" using assms(2) kf by simp
  have held: "(case dget bal (escrow_for key, ''USD'') of Some m \<Rightarrow> Inr m | None \<Rightarrow> money_zero ''USD'') = Inr (Mny ?h ''USD'')"
    using agrees_keys [OF balances_agrees(1) [OF assms(1)], of "(escrow_for key, ''USD'')"]
      agrees_None [OF balances_agrees(1) [OF assms(1)], of "(escrow_for key, ''USD'')"]
    by (cases "dget bal (escrow_for key, ''USD'')") auto
  show "sweep_key K (settled_or_refunded es0) bal now (es, r) kf = Inr (es, r)" if "\<not> stale_funding es0 now kf"
    using that by (auto simp: kf stale_funding_def sweep_key_def done_iff held)
  assume s: "stale_funding es0 now kf"
  have n: "money_neg (Mny ?h ''USD'') = Inr (Mny (- ?h) ''USD'')" using small by (simp add: money_neg_eq)
  obtain es' where po: "post (sha_hex K) es [mk_posting (escrow_for key) (Mny (- units (Mny ?h ''USD'')) (currency (Mny ?h ''USD''))), mk_posting funder (Mny ?h ''USD'')]
      (refund_memo @ key) = Inr es'"
    and sums: "\<And>x c. acct_sum es' x c = acct_sum es x c
        + (if c = currency (Mny ?h ''USD'') then (if x = funder then units (Mny ?h ''USD'') else 0) - (if x = escrow_for key then units (Mny ?h ''USD'') else 0) else 0)"
    by (rule post_pair [OF assms(3), of "Mny ?h ''USD''"]) (use small in auto)
  obtain e where e: "es' = es @ [e]" "refund_entry e key" using po by (auto simp: post_eq_Inr refund_entry_def entry_memo_def)
  have "sweep_key K (settled_or_refunded es0) bal now (es, r) kf = Inr (es', r @ [key])"
    using s n po by (auto simp: kf stale_funding_def sweep_key_def done_iff held)
  then show "\<exists>es'. sweep_key K (settled_or_refunded es0) bal now (es, r) kf = Inr (es', r @ [fst kf]) \<and> es' \<noteq> []
           \<and> memos es' = memos es @ [refund_memo @ fst kf] \<and> fundings es' = fundings es
           \<and> (\<forall>a c. acct_sum es' a c = acct_sum es a c + (if c = ''USD'' then refund_move es0 a kf else 0))"
    using e fundings_refund [OF e(2)] post_memos [OF po] sums by (auto simp: kf refund_move_def)
qed







text \<open>A ledger with one funding: \<open>bob\<close> put an amount into the escrow of \<open>k\<close>, which expires at 7.\<close>

lemma one_funding:
  fixes m :: money
  assumes "\<bar>units m\<bar> < 10 ^ 28"
  obtains es bal where "es \<noteq> []" "fundings es = Inr [(''k'', 7, ''bob'')]" "balances es = Inr bal"
    "memos es = [fund_memo @ ''k'' @ '':exp='' @ show_int 7 @ '':funder='' @ ''bob'']"
    "\<And>x c. acct_sum es x c = (if c = currency m then (if x = escrow_for ''k'' then units m else 0) - (if x = ''bob'' then units m else 0) else 0)"
proof -
  let ?l = "open_ledger ''r'' ''p''" and ?H = "sha_hex toy_crypto"
  let ?memo = "fund_memo @ ''k'' @ '':exp='' @ show_int 7 @ '':funder='' @ ''bob''"
  have ne: "?l \<noteq> []" by (simp add: open_ledger_def)
  obtain es where po: "post ?H ?l [mk_posting ''bob'' (Mny (- units m) (currency m)), mk_posting (escrow_for ''k'') m] ?memo = Inr es"
    and sums: "\<And>x c. acct_sum es x c = acct_sum ?l x c
        + (if c = currency m then (if x = escrow_for ''k'' then units m else 0) - (if x = ''bob'' then units m else 0) else 0)"
    by (rule post_pair [OF ne, of m ?H "''bob''" "escrow_for ''k''" ?memo]) (use assms in auto)
  have mm: "memos es = [?memo]"
    using post_memos [OF po] by (simp add: memos_def open_ledger_def entry_memo_def map_filter_simps)
  obtain e where e: "es = ?l @ [e]" "entry_memo e = Some ?memo" "entry_postings e = [mk_posting ''bob'' (Mny (- units m) (currency m)), mk_posting (escrow_for ''k'') m]"
    using po by (auto simp: post_eq_Inr entry_memo_def entry_postings_def)
  have "parse_funding (drop (length fund_memo) ?memo) = Inr (''k'', 7, ''bob'')"
    by (simp add: fund_memo_def show_int_def show_nat.simps digit_char_def parse_funding_def str_split_step nth_part_def
        int_of_str_def int_of_json_def grouped_digits_def int_padless_def int_blank_def digit_val_def)
  then have "fundings (?l @ [e]) = Inr [(''k'', 7, ''bob'')]"
    using e(2) by (simp add: fundings_def foldR_append open_ledger_def entry_memo_def [of "\<lparr>body = _, seq = _, prev = _\<rparr>"])
  then have fs: "fundings es = Inr [(''k'', 7, ''bob'')]" using e(1) by simp
  have "all_postings es = [mk_posting ''bob'' (Mny (- units m) (currency m)), mk_posting (escrow_for ''k'') m]"
    using e by (simp add: all_postings_def open_ledger_def entry_postings_def [of "\<lparr>body = _, seq = _, prev = _\<rparr>"])
  then obtain bal where bal: "balances es = Inr bal"
    using balances_returns [of es] assms by (auto simp: pval_mk_posting well_formed_mk_posting)
  have zero: "acct_sum ?l x c = 0" for x c by (simp add: acct_sum_def all_postings_def open_ledger_def entry_postings_def)
  show thesis by (rule that [OF _ fs bal mm]) (use e(1) sums zero in auto)
qed



text \<open>An escrow funded in euros and long expired: the sweep does nothing, the audit is clean, and the euros stay where they are.\<close>

lemma other_currency_is_stranded:
  "\<exists>es. sweep_expired toy_crypto es 100 = Inr (es, []) \<and> stale_escrow_keys es 100 0 = Inr []
     \<and> fundings es = Inr [(''k'', 7, ''bob'')] \<and> acct_sum es (escrow_for ''k'') ''EUR'' = 10000"
proof -
  let ?m = "Mny 10000 ''EUR''"
  obtain es bal where es: "es \<noteq> []" "fundings es = Inr [(''k'', 7, ''bob'')]" "balances es = Inr bal"
    and sums: "\<And>x c. acct_sum es x c = (if c = currency ?m then (if x = escrow_for ''k'' then units ?m else 0) - (if x = ''bob'' then units ?m else 0) else 0)"
    by (rule one_funding [of ?m]) auto
  have ne: "''bob'' \<noteq> escrow_for ''k''" by (simp add: escrow_for_def)
  have z: "acct_sum es (escrow_for ''k'') ''USD'' = 0" by (simp add: sums)
  then have "\<not> stale_funding es 100 (''k'', 7, ''bob'')" by (simp add: stale_funding_def)
  then have "sweep_expired toy_crypto es 100 = Inr (es, [])"
    using sweep_key_step(1) [OF es(3) _ es(1), of "(''k'', 7, ''bob'')" 100 toy_crypto "[]"] z es(2,3)
    by (simp add: sweep_expired_def)
  moreover have "stale_escrow_keys es 100 0 = Inr []"
    using agrees_keys [OF balances_agrees(1) [OF es(3)], of "(escrow_for ''k'', ''USD'')"] z
    by (auto simp: stale_escrow_keys_def es Let_def split: option.split)
  ultimately show ?thesis using es(2) sums ne by (intro exI [of _ es]) auto
qed

section \<open>The cross-check\<close>

lemma verify_entries_total: "\<exists>ps. verify_entries H current_major i p l es = Inr ps"
  by (induction es arbitrary: i p l) (auto simp: verify_entries.simps Let_def)

lemma verify_chain_total: "\<exists>r. verify_chain H es current_major run plan = Inr r"
  using verify_entries_total [of H 0 zero_prev None es]
  by (cases es) (auto simp: verify_chain_def Let_def)









lemma sorted_set_empty [simp]: "sorted_set xs = [] \<longleftrightarrow> xs = []"
  by (metis set_empty set_remdups set_sort sorted_set_def)


text \<open>
  The verdict is the same for any ledger with the same record bodies, whatever its sequence numbers and back-pointers.
\<close>

lemma cross_check_ignores_the_chain:
  assumes "reward_verify K es store envs ep ap gp = Inr rep" and "map body fs = map body es"
  shows "reward_verify K fs store envs ep ap gp = Inr rep"
proof -
  note b = assms(2)
  have m: "memos fs = memos es" "map entry_postings fs = map entry_postings es"
  proof -
    have "memos xs = List.map_filter (\<lambda>b. case b of PostingSet _ m \<Rightarrow> Some m | _ \<Rightarrow> None) (map body xs)" for xs
      by (induction xs) (auto simp: memos_def entry_memo_def map_filter_simps split: body.splits)
    then show "memos fs = memos es" using b by simp
    have ep: "map entry_postings xs = map (\<lambda>b. case b of PostingSet ps _ \<Rightarrow> ps | _ \<Rightarrow> []) (map body xs)" for xs
      by (simp add: entry_postings_def)
    show "map entry_postings fs = map entry_postings es" unfolding ep b by (rule refl)
  qed
  have bal: "balances fs = balances es"
    by (simp only: balances_fold all_postings_def m)
  have ab: "all_balanced fs = all_balanced es"
  proof -
    have fb: "foldR (\<lambda>ok e. case body e of PostingSet ps _ \<Rightarrow> (if ok then is_balanced ps else Inr False) | _ \<Rightarrow> Inr ok) t xs
          = foldR (\<lambda>ok b. case b of PostingSet ps _ \<Rightarrow> (if ok then is_balanced ps else Inr False) | _ \<Rightarrow> Inr ok) t (map body xs)" for t xs
      by (induction xs arbitrary: t) (auto simp: bindR_def split: body.splits sum.splits)
    show ?thesis unfolding all_balanced_def fb b by (rule refl)
  qed
  have sq: "settled_quote_shas fs = settled_quote_shas es" by (simp add: settled_quote_shas_def m)
  obtain r1 r2 where "verify_chain (sha_hex K) (map entry_json fs) current_major None None = Inr r1"
    "verify_chain (sha_hex K) (map entry_json es) current_major None None = Inr r2"
    using verify_chain_total by blast
  then show ?thesis
    using assms(1) by (simp add: reward_verify_def ab sq global_zero_def bal truth_of_pair_def)
qed




end
