(* ===== verification/Merkle.thy ===== *)
theory Merkle
  imports Chain Envelope
begin

text \<open>
  Merkle trees: checkpoints of a chain (\<open>src/infra/cwp/checkpoint.py\<close>), the transparency log
  of releases (\<open>translog.py\<close>) and timestamp anchors (\<open>tsa.py\<close>). \<open>Hb\<close> is SHA-256 as a
  function to its digest bytes, a parameter wherever it occurs; the hexadecimal digest is
  \<open>hex_text (Hb s)\<close>.
\<close>

section \<open>Hexadecimal text\<close>

definition hex_text :: "string \<Rightarrow> string" where
  "hex_text s = concat (map (\<lambda>c. [hex_digit (of_char c div 16), hex_digit (of_char c mod 16)]) s)"

definition nibble :: "char \<Rightarrow> nat option" where
  "nibble c =
     (if c \<in> set ''0123456789'' then Some (of_char c - 48)
      else if c \<in> set ''abcdef'' then Some (of_char c - 87)
      else if c \<in> set ''ABCDEF'' then Some (of_char c - 55)
      else None)"

definition is_space :: "char \<Rightarrow> bool" where
  "is_space c \<longleftrightarrow> c \<in> {CHR 0x20, CHR 0x09, CHR 0x0A, CHR 0x0B, CHR 0x0C, CHR 0x0D}"

text \<open>\<open>bytes.fromhex\<close>: two digits a byte, blanks between the bytes skipped.\<close>

fun from_hex :: "string \<Rightarrow> string res" where
  "from_hex [] = Inr []"
| "from_hex [c] = (if is_space c then Inr [] else Inl ValueError)"
| "from_hex (c # d # s) =
     (if is_space c then from_hex (d # s)
      else case (nibble c, nibble d) of
        (Some x, Some y) \<Rightarrow> bindR (from_hex s) (\<lambda>r. Inr (char_of (16 * x + y) # r))
      | _ \<Rightarrow> Inl ValueError)"

lemma less_16: "(d::nat) < 16 \<Longrightarrow> d \<in> set [0..<16]"
  by simp

lemma nibble_hex_digit: "d < 16 \<Longrightarrow> nibble (hex_digit d) = Some d \<and> \<not> is_space (hex_digit d)"
proof -
  have "\<forall>d \<in> set [0..<16]. nibble (hex_digit d) = Some d \<and> \<not> is_space (hex_digit d)"
    by (simp add: nibble_def hex_digit_def is_space_def upt_rec)
  then show "d < 16 \<Longrightarrow> ?thesis" by (auto dest: less_16)
qed

lemma from_hex_text [simp]: "from_hex (hex_text s) = Inr s"
proof (induction s)
  case Nil
  then show ?case by (simp add: hex_text_def)
next
  case (Cons c s)
  have b: "(of_char c :: nat) < 256" by simp
  then have "(of_char c :: nat) div 16 < 16" by linarith
  moreover have "(of_char c :: nat) mod 16 < 16" by simp
  ultimately show ?case
    using Cons nibble_hex_digit [of "of_char c div 16"] nibble_hex_digit [of "of_char c mod 16"]
    by (simp add: hex_text_def)
qed

lemma hex_text_inj: "hex_text a = hex_text b \<longleftrightarrow> a = b"
  by (metis from_hex_text sum.inject(2))

section \<open>The tree\<close>

text \<open>The texts hashed to make one level from the level below: an odd last node is paired with itself.\<close>

fun pairs :: "string list \<Rightarrow> string list" where
  "pairs [] = []"
| "pairs [a] = [a @ a]"
| "pairs (a # b # r) = (a @ b) # pairs r"

definition next_level :: "(string \<Rightarrow> string) \<Rightarrow> string list \<Rightarrow> string list" where
  "next_level Hb xs = map Hb (pairs xs)"

lemma length_pairs: "length (pairs xs) = (length xs + 1) div 2"
  by (induction xs rule: pairs.induct) auto

lemma length_next_level [simp]: "length (next_level Hb xs) = (length xs + 1) div 2"
  by (simp add: next_level_def length_pairs)

lemma pairs_nth:
  "i < length xs \<Longrightarrow> pairs xs ! (i div 2) =
     (let j = 2 * (i div 2) in xs ! j @ (if j + 1 < length xs then xs ! (j + 1) else xs ! j))"
proof (induction xs arbitrary: i rule: pairs.induct)
  case (3 a b r)
  show ?case
  proof (cases "i < 2")
    case True
    then have "i div 2 = 0" by simp
    then show ?thesis by (simp add: Let_def)
  next
    case False
    then obtain k where k: "i = k + 2" by (metis add.commute le_Suc_ex not_less)
    then have "k < length r" "i div 2 = Suc (k div 2)" using 3(2) by auto
    then show ?thesis using 3(1) [of k] by (simp add: Let_def)
  qed
qed simp_all

text \<open>The loop to the single node of the last level.\<close>

function climb :: "(string \<Rightarrow> string) \<Rightarrow> string list \<Rightarrow> string" where
  "climb Hb xs = (if length xs \<le> 1 then hd xs else climb Hb (next_level Hb xs))"
  by auto
termination
  by (relation "measure (\<lambda>(Hb, xs). length xs)") auto

declare climb.simps [simp del]

definition merkle_root :: "(string \<Rightarrow> string) \<Rightarrow> string list \<Rightarrow> string" where
  "merkle_root Hb leaves = (if leaves = [] then Hb [] else climb Hb leaves)"

section \<open>Inclusion\<close>

function audit_path :: "(string \<Rightarrow> string) \<Rightarrow> nat \<Rightarrow> string list \<Rightarrow> string list" where
  "audit_path Hb idx xs =
     (if length xs \<le> 1 then []
      else let sib = Bit_Operations.xor idx 1; sib' = (if length xs \<le> sib then idx else sib)
           in hex_text (xs ! sib') # audit_path Hb (idx div 2) (next_level Hb xs))"
  by auto
termination
  by (relation "measure (\<lambda>(Hb, idx, xs). length xs)") auto

declare audit_path.simps [simp del]

definition inclusion_proof :: "(string \<Rightarrow> string) \<Rightarrow> int \<Rightarrow> string list \<Rightarrow> string list res" where
  "inclusion_proof Hb index leaves =
     (if 0 \<le> index \<and> index < int (length leaves) then Inr (audit_path Hb (nat index) leaves) else Inl IndexError)"

text \<open>The text hashed at one step of the recomputation.\<close>

definition step_input :: "string \<Rightarrow> nat \<Rightarrow> nat \<Rightarrow> string \<Rightarrow> string" where
  "step_input h idx sz sib =
     (if even idx then h @ (if idx + 1 < sz then sib else h) else sib @ h)"

fun recompute :: "(string \<Rightarrow> string) \<Rightarrow> string \<Rightarrow> nat \<Rightarrow> nat \<Rightarrow> string list \<Rightarrow> string res" where
  "recompute Hb h idx sz [] = Inr h"
| "recompute Hb h idx sz (s # ss) =
     bindR (from_hex s) (\<lambda>sib. recompute Hb (Hb (step_input h idx sz sib)) (idx div 2) ((sz + 1) div 2) ss)"

definition verify_inclusion ::
  "(string \<Rightarrow> string) \<Rightarrow> string \<Rightarrow> int \<Rightarrow> int \<Rightarrow> string list \<Rightarrow> string \<Rightarrow> bool res" where
  "verify_inclusion Hb leaf index tree_size path root_hash_hex =
     (if \<not> (0 \<le> index \<and> index < tree_size) then Inr False
      else bindR (recompute Hb leaf (nat index) (nat tree_size) path) (\<lambda>h. Inr (hex_text h = root_hash_hex)))"

lemma xor_1: "Bit_Operations.xor (n::nat) (Suc 0) = (if even n then n + 1 else n - 1)"
  using xor_one_eq [of n] by auto

lemma pairs_step:
  assumes "i < length xs"
  shows "pairs xs ! (i div 2) = step_input (xs ! i) i (length xs)
           (xs ! (if length xs \<le> Bit_Operations.xor i (Suc 0) then i else Bit_Operations.xor i (Suc 0)))"
proof (cases "even i")
  case True
  then have "2 * (i div 2) = i" by simp
  then show ?thesis using assms True by (auto simp: pairs_nth Let_def step_input_def xor_1)
next
  case False
  then have e: "2 * (i div 2) = i - 1" "0 < i" by (auto elim: oddE)
  then show ?thesis using assms False by (auto simp: pairs_nth Let_def step_input_def xor_1)
qed

lemma half_less: "i < length xs \<Longrightarrow> i div 2 < length (pairs xs)"
  by (simp add: length_pairs)

lemma next_level_nth: "i < length xs \<Longrightarrow> next_level Hb xs ! (i div 2) = Hb (pairs xs ! (i div 2))"
  by (simp add: next_level_def half_less)

lemma recompute_audit_path:
  "i < length xs \<Longrightarrow> recompute Hb (xs ! i) i (length xs) (audit_path Hb i xs) = Inr (climb Hb xs)"
proof (induction Hb i xs rule: audit_path.induct)
  case (1 Hb idx xs)
  show ?case
  proof (cases "length xs \<le> 1")
    case True
    then have "xs = [hd xs]" "idx = 0" using 1(2) by (cases xs; simp)+
    then show ?thesis by (metis True audit_path.simps climb.simps list.sel(1) nth_Cons_0 recompute.simps(1))
  next
    case False
    have l: "idx div 2 < length (next_level Hb xs)" using 1(2) by simp
    from 1(1) [OF False refl refl l] have
      "recompute Hb (next_level Hb xs ! (idx div 2)) (idx div 2) ((length xs + 1) div 2)
         (audit_path Hb (idx div 2) (next_level Hb xs)) = Inr (climb Hb (next_level Hb xs))" by simp
    then show ?thesis using False 1(2)
      by (simp add: audit_path.simps [of Hb idx xs] Let_def climb.simps [of Hb xs] next_level_nth pairs_step)
  qed
qed

text \<open>
  C20: the transparency log is complete: for every log and every leaf of it, the inclusion proof
  the log hands out is accepted for that leaf at that index against the log's Merkle root.
\<close>

theorem inclusion_proof_verifies:
  assumes "i < length leaves"
  shows "\<exists>path. inclusion_proof Hb (int i) leaves = Inr path
     \<and> verify_inclusion Hb (leaves ! i) (int i) (int (length leaves)) path (hex_text (merkle_root Hb leaves)) = Inr True"
proof -
  have "leaves \<noteq> []" using assms by auto
  then show ?thesis using assms by (simp add: inclusion_proof_def verify_inclusion_def merkle_root_def recompute_audit_path)
qed

theorem inclusion_proof_verifies_witness:
  "\<exists>path. verify_inclusion (\<lambda>s. s) ''b'' 1 3 path (hex_text (merkle_root (\<lambda>s. s) [''a'', ''b'', ''c''])) = Inr True"
  using inclusion_proof_verifies [of 1 "[''a'', ''b'', ''c'']" "\<lambda>s. s"] by auto

text \<open>The texts the tree hashes, and those a recomputation hashes.\<close>

function tree_inputs :: "(string \<Rightarrow> string) \<Rightarrow> string list \<Rightarrow> string list" where
  "tree_inputs Hb xs = (if length xs \<le> 1 then [] else pairs xs @ tree_inputs Hb (next_level Hb xs))"
  by auto
termination
  by (relation "measure (\<lambda>(Hb, xs). length xs)") auto

declare tree_inputs.simps [simp del]

fun path_inputs :: "(string \<Rightarrow> string) \<Rightarrow> string \<Rightarrow> nat \<Rightarrow> nat \<Rightarrow> string list \<Rightarrow> string list" where
  "path_inputs Hb h idx sz [] = []"
| "path_inputs Hb h idx sz (s # ss) =
     (case from_hex s of Inl _ \<Rightarrow> []
      | Inr sib \<Rightarrow> let t = step_input h idx sz sib in t # path_inputs Hb (Hb t) (idx div 2) ((sz + 1) div 2) ss)"

lemma step_input_inj:
  "step_input h idx sz s = step_input h' idx sz s' \<Longrightarrow> length h = length h' \<Longrightarrow> h = h'"
  by (auto simp: step_input_def split: if_splits)

lemma recompute_sound:
  assumes "recompute Hb h idx (length xs) ss = Inr (climb Hb xs)" and "idx < length xs"
    and "\<And>s. length (Hb s) = L" and "\<forall>x \<in> set xs. length x = L" and "length h = L"
    and "length ss = length (audit_path Hb idx xs)"
    and "inj_on Hb (set (tree_inputs Hb xs) \<union> set (path_inputs Hb h idx (length xs) ss))"
  shows "h = xs ! idx"
  using assms
proof (induction Hb xs arbitrary: h idx ss rule: tree_inputs.induct)
  case (1 Hb xs)
  show ?case
  proof (cases "length xs \<le> 1")
    case True
    then have "xs = [hd xs]" "idx = 0" using 1(3) by (cases xs; simp)+
    moreover have "ss = []" using 1(7) True by (simp add: audit_path.simps)
    ultimately show ?thesis using 1(2) True by (metis climb.simps nth_Cons_0 recompute.simps(1) sum.inject(2))
  next
    case False
    from 1(7) False obtain s ss' where ss: "ss = s # ss'"
      and l: "length ss' = length (audit_path Hb (idx div 2) (next_level Hb xs))"
      by (cases ss) (simp_all add: audit_path.simps [of Hb idx xs] Let_def)
    from 1(2) ss obtain sib where sib: "from_hex s = Inr sib" by (auto simp: bindR_eq_Inr)
    let ?t = "step_input h idx (length xs) sib"
    have inp: "set (tree_inputs Hb xs) = set (pairs xs) \<union> set (tree_inputs Hb (next_level Hb xs))"
      "set (path_inputs Hb h idx (length xs) ss)
         = insert ?t (set (path_inputs Hb (Hb ?t) (idx div 2) (length (next_level Hb xs)) ss'))"
      using False ss sib by (simp_all add: tree_inputs.simps [of Hb xs] Let_def)
    have "Hb ?t = next_level Hb xs ! (idx div 2)"
    proof (rule 1(1) [OF False])
      show "recompute Hb (Hb ?t) (idx div 2) (length (next_level Hb xs)) ss' = Inr (climb Hb (next_level Hb xs))"
        using 1(2) ss sib False by (simp add: climb.simps [of Hb xs])
      show "idx div 2 < length (next_level Hb xs)" using half_less [OF 1(3)] by (simp add: next_level_def)
      show "\<forall>x \<in> set (next_level Hb xs). length x = L" "length (Hb ?t) = L"
        using 1(4) by (simp_all add: next_level_def)
      show "inj_on Hb (set (tree_inputs Hb (next_level Hb xs))
              \<union> set (path_inputs Hb (Hb ?t) (idx div 2) (length (next_level Hb xs)) ss'))"
        using 1(8) unfolding inp by (rule inj_on_subset) blast
    qed (rule 1(4), rule l)
    then have "Hb ?t = Hb (pairs xs ! (idx div 2))" using next_level_nth [OF 1(3)] by simp
    then have "?t = pairs xs ! (idx div 2)"
      using 1(8) nth_mem [OF half_less [OF 1(3)]] unfolding inp by (simp add: inj_on_def)
    moreover have "length h = length (xs ! idx)" using 1(3,5,6) by simp
    ultimately show ?thesis unfolding pairs_step [OF 1(3)] by (rule step_input_inj)
  qed
qed

text \<open>
  C19: the transparency log is sound: a leaf that a proof of the tree's height places at an index
  of the log is the leaf the log has there, provided SHA-256 does not collide on the finitely many
  texts hashed to build the tree and to check the proof.
\<close>

theorem inclusion_proof_sound:
  assumes "verify_inclusion Hb leaf (int i) (int (length leaves)) path (hex_text (merkle_root Hb leaves)) = Inr True"
    and "\<And>s. length (Hb s) = L" and "\<forall>x \<in> set leaves. length x = L" and "length leaf = L"
    and "length path = length (audit_path Hb i leaves)"
    and "inj_on Hb (set (tree_inputs Hb leaves) \<union> set (path_inputs Hb leaf i (length leaves) path))"
  shows "i < length leaves \<and> leaf = leaves ! i"
proof -
  from assms(1) have i: "i < length leaves" by (simp add: verify_inclusion_def split: if_splits)
  then have "recompute Hb leaf i (length leaves) path = Inr (climb Hb leaves)"
    using assms(1) by (auto simp: verify_inclusion_def merkle_root_def bindR_eq_Inr hex_text_inj)
  from recompute_sound [OF this i assms(2-6)] i show ?thesis by simp
qed

definition toy_hash :: "string \<Rightarrow> string" where
  "toy_hash s = (if s = ''ab'' then ''x'' else ''y'')"

theorem inclusion_proof_sound_witness:
  "verify_inclusion toy_hash ''b'' 1 2 [hex_text ''a''] (hex_text (merkle_root toy_hash [''a'', ''b''])) = Inr True
   \<and> ''b'' = [''a'', ''b''] ! 1"
proof -
  have v: "verify_inclusion toy_hash ''b'' (int 1) (int (length [''a'', ''b''])) [hex_text ''a'']
             (hex_text (merkle_root toy_hash [''a'', ''b''])) = Inr True"
    by (simp add: verify_inclusion_def merkle_root_def climb.simps next_level_def step_input_def toy_hash_def)
  have "inj_on toy_hash (set (tree_inputs toy_hash [''a'', ''b''])
          \<union> set (path_inputs toy_hash ''b'' 1 (length [''a'', ''b'']) [hex_text ''a'']))"
    by (simp add: tree_inputs.simps next_level_def step_input_def)
  moreover have "length (toy_hash s) = 1" for s by (simp add: toy_hash_def)
  moreover have "length [hex_text ''a''] = length (audit_path toy_hash 1 [''a'', ''b''])"
    by (simp add: audit_path.simps Let_def)
  ultimately show ?thesis using inclusion_proof_sound [OF v, of 1] v by simp
qed

text \<open>A proof may be shorter than the tree is high: an interior node is then accepted as a leaf.\<close>

lemma interior_node_accepted:
  "verify_inclusion Hb (Hb (a @ b)) 0 4 [hex_text (Hb (c @ d))] (hex_text (merkle_root Hb [a, b, c, d])) = Inr True"
  by (simp add: verify_inclusion_def merkle_root_def climb.simps next_level_def step_input_def)

text \<open>Repeating the last of three leaves keeps the root.\<close>

lemma merkle_root_repeat: "merkle_root Hb [a, b, c, c] = merkle_root Hb [a, b, c]"
  by (simp add: merkle_root_def climb.simps next_level_def)

end
