(* ===== verification/Checkpoint.thy ===== *)
theory Checkpoint
  imports Merkle
begin

text \<open>
  Merkle checkpoints of a chain (\<open>src/infra/cwp/checkpoint.py\<close>) and the offline transparency
  receipts and timestamp anchors built on the same envelopes (\<open>translog.py\<close>, \<open>tsa.py\<close>).
\<close>

abbreviation hexed :: "(string \<Rightarrow> string) \<Rightarrow> string \<Rightarrow> string" where
  "hexed Hb s \<equiv> hex_text (Hb s)"

section \<open>Checkpoints\<close>

definition checkpoint_leaf :: "(string \<Rightarrow> string) \<Rightarrow> int \<Rightarrow> json \<Rightarrow> string res" where
  "checkpoint_leaf Hb schema e =
     (if \<not> is_obj e then Inl AttributeError else bindR (link_digest (hexed Hb) (link_of e) schema) from_hex)"

definition is_checkpoint :: "json \<Rightarrow> bool" where
  "is_checkpoint e \<longleftrightarrow> is_obj e \<and> jget e ''type'' = JStr ''checkpoint''"

definition window_root :: "(string \<Rightarrow> string) \<Rightarrow> int \<Rightarrow> json list \<Rightarrow> string res" where
  "window_root Hb schema w =
     bindR (mapR (checkpoint_leaf Hb schema) w) (\<lambda>ls. Inr (hex_text (merkle_root Hb ls)))"

definition make_checkpoint :: "(string \<Rightarrow> string) \<Rightarrow> json list \<Rightarrow> int \<Rightarrow> json res" where
  "make_checkpoint Hb w schema =
     bindR (if w = [] then Inr JNull else item (hd w) ''seq'') (\<lambda>ws.
     bindR (if w = [] then Inr JNull else item (last w) ''seq'') (\<lambda>we.
     bindR (window_root Hb schema w) (\<lambda>r.
       Inr (JObj [(''type'', JStr ''checkpoint''), (''window_start'', ws), (''window_end'', we),
                  (''count'', JInt (int (length w))), (''merkle_root'', JStr r)]))))"

definition build_step ::
  "(string \<Rightarrow> string) \<Rightarrow> int \<Rightarrow> json list \<times> json list \<Rightarrow> nat \<Rightarrow> (json list \<times> json list) res" where
  "build_step Hb interval st i =
     (case st of (es, w) \<Rightarrow>
        bindR (chain_append (hexed Hb) es
                 (JObj [(''i'', JInt (int i)), (''data'', JStr (''entry-'' @ show_nat i))]) current_major) (\<lambda>es1.
        let w1 = w @ [last es1] in
        if interval = 0 then Inl ZeroDivisionError
        else if (int i + 1) mod interval = 0 then
          bindR (make_checkpoint Hb w1 current_major) (\<lambda>c.
          bindR (chain_append (hexed Hb) es1 c current_major) (\<lambda>es2. Inr (es2, [])))
        else Inr (es1, w1)))"

definition build_checkpointed_chain ::
  "(string \<Rightarrow> string) \<Rightarrow> nat \<Rightarrow> int \<Rightarrow> string \<Rightarrow> string \<Rightarrow> json list res" where
  "build_checkpointed_chain Hb n interval run_id plan_sha =
     bindR (foldR (build_step Hb interval) ([genesis run_id plan_sha current_major], []) [0..<n]) (\<lambda>st. Inr (fst st))"

text \<open>The backward scan from the tip to the last checkpoint, or to the first entry.\<close>

fun last_checkpoint :: "json list \<Rightarrow> nat \<Rightarrow> nat" where
  "last_checkpoint es 0 = 0"
| "last_checkpoint es (Suc k) = (if is_checkpoint (es ! Suc k) then Suc k else last_checkpoint es k)"

fun relink :: "(string \<Rightarrow> string) \<Rightarrow> int \<Rightarrow> json \<Rightarrow> nat \<Rightarrow> json list \<Rightarrow> (bool \<times> nat) res" where
  "relink Hb schema p tail [] = Inr (True, tail)"
| "relink Hb schema p tail (e # es) =
     (if \<not> is_obj e \<or> \<not> is_obj p then Inl AttributeError
      else bindR (link_digest (hexed Hb) (link_of p) schema) (\<lambda>d.
        if jget e ''prev'' \<noteq> JStr d then Inr (False, tail)
        else relink Hb schema e (tail + 1) es))"

definition cold_verify_from_last_checkpoint ::
  "(string \<Rightarrow> string) \<Rightarrow> json list \<Rightarrow> int \<Rightarrow> (bool \<times> nat) res" where
  "cold_verify_from_last_checkpoint Hb es schema =
     (if es = [] then Inr (True, 0)
      else let c = last_checkpoint es (length es - 1)
           in relink Hb schema (es ! c) 0 (drop (c + 1) es))"

text \<open>An index or a bound of \<open>range\<close>: Python's booleans count as integers.\<close>

definition index_of :: "json \<Rightarrow> int res" where
  "index_of v = (case v of JInt i \<Rightarrow> Inr i | JBool b \<Rightarrow> Inr (if b then 1 else 0) | _ \<Rightarrow> Inl TypeError)"

text \<open>\<open>by_seq\<close>: the last entry with a sequence number; a list or an object is no dictionary key.\<close>

definition seq_key :: "json \<Rightarrow> json option res" where
  "seq_key e =
     (case e of
        JObj kvs \<Rightarrow> (case dget kvs ''seq'' of None \<Rightarrow> Inr None
                     | Some (JList _) \<Rightarrow> Inl TypeError | Some (JObj _) \<Rightarrow> Inl TypeError
                     | Some v \<Rightarrow> Inr (Some v))
      | JList xs \<Rightarrow> if JStr ''seq'' \<in> set xs then Inl TypeError else Inr None
      | JStr s \<Rightarrow> if list_ex (\<lambda>k. take 3 (drop k s) = ''seq'') [0..<length s] then Inl TypeError else Inr None
      | _ \<Rightarrow> Inl TypeError)"

definition by_seq :: "json list \<Rightarrow> (json, json) dict res" where
  "by_seq es = foldR (\<lambda>d e. bindR (seq_key e) (\<lambda>k.
     Inr (case k of None \<Rightarrow> d | Some v \<Rightarrow> dput v e d))) [] es"

definition window_of :: "(json, json) dict \<Rightarrow> int \<Rightarrow> int \<Rightarrow> json list" where
  "window_of d ws we = concat (map (\<lambda>s. case dget d (JInt s) of
       None \<Rightarrow> [] | Some e \<Rightarrow> if is_checkpoint e then [] else [e]) [ws..we])"

record forgery =
  checkpoint_seq :: json
  claimed :: json
  recomputed :: string

fun audit_entries ::
  "(string \<Rightarrow> string) \<Rightarrow> int \<Rightarrow> (json, json) dict \<Rightarrow> json list \<Rightarrow> (bool \<times> forgery option) res" where
  "audit_entries Hb schema d [] = Inr (True, None)"
| "audit_entries Hb schema d (e # es) =
     (if \<not> is_checkpoint e then audit_entries Hb schema d es
      else bindR (index_of (jget e ''window_start'')) (\<lambda>ws.
        bindR (index_of (jget e ''window_end'')) (\<lambda>we.
        bindR (window_root Hb schema (window_of d ws we)) (\<lambda>r.
          if JStr r \<noteq> jget e ''merkle_root''
          then Inr (False, Some \<lparr>checkpoint_seq = jget e ''seq'', claimed = jget e ''merkle_root'', recomputed = r\<rparr>)
          else audit_entries Hb schema d es))))"

definition audit_checkpoints :: "(string \<Rightarrow> string) \<Rightarrow> json list \<Rightarrow> int \<Rightarrow> (bool \<times> forgery option) res" where
  "audit_checkpoints Hb es schema = bindR (by_seq es) (\<lambda>d. audit_entries Hb schema d es)"

section \<open>Chains the builder makes\<close>

definition indexed :: "json list \<Rightarrow> bool" where
  "indexed es \<longleftrightarrow> (\<forall>j < length es. is_obj (es ! j) \<and> jget (es ! j) ''seq'' = JInt (int j))"

definition linked :: "(string \<Rightarrow> string) \<Rightarrow> json list \<Rightarrow> bool" where
  "linked Hb es \<longleftrightarrow> (\<forall>j. Suc j < length es \<longrightarrow> jget (es ! Suc j) ''prev'' = JStr (digest (hexed Hb) (link_of (es ! j))))"

abbreviation leaf_of :: "(string \<Rightarrow> string) \<Rightarrow> json \<Rightarrow> string" where
  "leaf_of Hb e \<equiv> Hb (canonicalize (link_of e))"

definition slice_root :: "(string \<Rightarrow> string) \<Rightarrow> json list \<Rightarrow> nat \<Rightarrow> nat \<Rightarrow> string" where
  "slice_root Hb es a b = hex_text (merkle_root Hb (map (leaf_of Hb) (map ((!) es) [a..<Suc b])))"

definition covers :: "json list \<Rightarrow> nat \<Rightarrow> nat \<Rightarrow> nat \<Rightarrow> bool" where
  "covers es c a b \<longleftrightarrow> a \<le> b \<and> b < c \<and> jget (es ! c) ''window_start'' = JInt (int a)
     \<and> jget (es ! c) ''window_end'' = JInt (int b) \<and> (\<forall>j. a \<le> j \<and> j \<le> b \<longrightarrow> \<not> is_checkpoint (es ! j))"

definition audited :: "(string \<Rightarrow> string) \<Rightarrow> json list \<Rightarrow> bool" where
  "audited Hb es \<longleftrightarrow> (\<forall>c < length es. is_checkpoint (es ! c) \<longrightarrow>
     (\<exists>a b. covers es c a b \<and> jget (es ! c) ''merkle_root'' = JStr (slice_root Hb es a b)))"

lemma checkpoint_leaf_major: "is_obj e \<Longrightarrow> checkpoint_leaf Hb current_major e = Inr (leaf_of Hb e)"
  by (simp add: checkpoint_leaf_def digest_def)

lemma window_root_major:
  "\<forall>e \<in> set w. is_obj e \<Longrightarrow>
     window_root Hb current_major w = Inr (hex_text (merkle_root Hb (map (leaf_of Hb) w)))"
  using mapR_total [of w "checkpoint_leaf Hb current_major" "leaf_of Hb"]
  by (simp add: window_root_def checkpoint_leaf_major)

lemma jget_obj: "is_obj e \<Longrightarrow> jget e k = JInt i \<Longrightarrow> dget (obj_members e) k = Some (JInt i)"
  by (auto simp: is_obj_def jget_def obj_members_def split: json.splits option.splits)

lemma chain_append_indexed:
  assumes "indexed es" and "es \<noteq> []"
  shows "chain_append (hexed Hb) es r current_major =
    Inr (es @ [jput ''prev'' (JStr (digest (hexed Hb) (link_of (last es)))) (jput ''seq'' (JInt (int (length es))) r)])"
proof -
  have "length es - 1 < length es" using assms(2) by simp
  then have "is_obj (es ! (length es - 1)) \<and> jget (es ! (length es - 1)) ''seq'' = JInt (int (length es - 1))"
    using assms(1) unfolding indexed_def by blast
  then have "dget (obj_members (last es)) ''seq'' = Some (JInt (int (length es - 1)))"
    using assms(2) jget_obj by (simp add: last_conv_nth)
  moreover have "int (length es - 1) + 1 = int (length es)" using assms(2) by (cases es) auto
  ultimately show ?thesis using assms(2) by (simp add: chain_append_def Let_def int_of_json_def)
qed

lemma indexed_snoc: "indexed es \<Longrightarrow> is_obj r \<Longrightarrow> indexed (es @ [jput ''prev'' v (jput ''seq'' (JInt (int (length es))) r)])"
  by (auto simp: indexed_def nth_append less_Suc_eq)

lemma linked_snoc:
  assumes "linked Hb es" and "es \<noteq> []" and "is_obj r"
  shows "linked Hb (es @ [jput ''prev'' (JStr (digest (hexed Hb) (link_of (last es)))) r])"
proof -
  have "es ! j = last es" if "Suc j = length es" for j using that by (metis assms(2) diff_Suc_1 last_conv_nth)
  then show ?thesis using assms by (auto simp: linked_def nth_append less_Suc_eq)
qed

lemma slice_root_append: "b < length es \<Longrightarrow> slice_root Hb (es @ fs) a b = slice_root Hb es a b"
proof -
  assume "b < length es"
  then have "map ((!) (es @ fs)) [a..<Suc b] = map ((!) es) [a..<Suc b]"
    by (intro map_cong) (auto simp: nth_append)
  then show ?thesis by (simp only: slice_root_def)
qed

lemma covers_append: "c < length es \<Longrightarrow> covers (es @ fs) c a b = covers es c a b"
  by (auto simp: covers_def nth_append)

lemma audited_snoc:
  assumes "audited Hb es"
    and "is_checkpoint e \<Longrightarrow> \<exists>a b. covers (es @ [e]) (length es) a b \<and> jget e ''merkle_root'' = JStr (slice_root Hb es a b)"
  shows "audited Hb (es @ [e])"
  unfolding audited_def
proof (intro allI impI)
  fix c assume c: "c < length (es @ [e])" and ic: "is_checkpoint ((es @ [e]) ! c)"
  show "\<exists>a b. covers (es @ [e]) c a b \<and> jget ((es @ [e]) ! c) ''merkle_root'' = JStr (slice_root Hb (es @ [e]) a b)"
  proof (cases "c < length es")
    case True
    then obtain a b where ab: "covers es c a b" "jget (es ! c) ''merkle_root'' = JStr (slice_root Hb es a b)"
      using assms(1) ic by (auto simp: audited_def nth_append)
    moreover have "b < length es" using ab(1) True by (simp add: covers_def)
    ultimately show ?thesis using True
      by (intro exI [of _ a] exI [of _ b]) (simp add: covers_append slice_root_append nth_append)
  next
    case False
    then have cl: "c = length es" using c by simp
    then obtain a b where ab: "covers (es @ [e]) c a b" "jget e ''merkle_root'' = JStr (slice_root Hb es a b)"
      using assms(2) ic by auto
    moreover have "b < length es" using ab(1) cl by (simp add: covers_def)
    ultimately show ?thesis using cl
      by (intro exI [of _ a] exI [of _ b]) (simp add: slice_root_append)
  qed
qed

text \<open>The state of the builder's loop: the chain, and the window since the last checkpoint.\<close>

definition build_inv :: "(string \<Rightarrow> string) \<Rightarrow> int \<Rightarrow> nat \<Rightarrow> json list \<Rightarrow> json list \<Rightarrow> bool" where
  "build_inv Hb interval i es w \<longleftrightarrow>
     indexed es \<and> linked Hb es \<and> audited Hb es \<and> length w < length es \<and> int (length w) = int i mod interval
     \<and> w = drop (length es - length w) es \<and> (\<forall>e \<in> set w. \<not> is_checkpoint e)
     \<and> (length es - length w = 1 \<or> is_checkpoint (es ! (length es - length w - 1)))"

lemma make_checkpoint_slice:
  assumes ix: "indexed es" and "w \<noteq> []" and w: "w = drop (length es - length w) es" and "length w < length es"
  shows "make_checkpoint Hb w current_major =
     Inr (JObj [(''type'', JStr ''checkpoint''), (''window_start'', JInt (int (length es - length w))),
                (''window_end'', JInt (int (length es - 1))), (''count'', JInt (int (length w))),
                (''merkle_root'', JStr (slice_root Hb es (length es - length w) (length es - 1)))])"
proof -
  let ?a = "length es - length w"
  have "0 < length w" using assms(2) by simp
  with assms(4) have a: "?a < length es" "length es - 1 < length es" by linarith+
  have h: "hd w = es ! ?a" using w a(1) by (metis hd_drop_conv_nth)
  have l: "last w = es ! (length es - 1)"
    by (metis a(1) assms(2) drop_eq_Nil last_conv_nth last_drop list.size(3) not_less0 w)
  have it: "item (es ! j) ''seq'' = Inr (JInt (int j))" if "j < length es" for j
  proof -
    have "is_obj (es ! j) \<and> jget (es ! j) ''seq'' = JInt (int j)" using ix that unfolding indexed_def by blast
    then show ?thesis using jget_obj by (simp add: item_def)
  qed
  have sl: "w = map ((!) es) [?a..<Suc (length es - 1)]"
  proof -
    have "Suc (length es - 1) = length es" using a(1) by simp
    then show ?thesis using w by (metis drop_map drop_upt map_nth plus_nat.add_0)
  qed
  have "\<forall>e \<in> set w. is_obj e"
  proof
    fix e assume "e \<in> set w"
    then have "e \<in> set es" using w by (metis in_set_dropD)
    then show "is_obj e" using ix by (auto simp: indexed_def in_set_conv_nth)
  qed
  then have "window_root Hb current_major w = Inr (slice_root Hb es ?a (length es - 1))"
    using sl by (simp add: window_root_major slice_root_def)
  then show ?thesis using assms(2) h l it [OF a(1)] it [OF a(2)] by (simp add: make_checkpoint_def)
qed

lemma nth_in_drop: "n \<le> j \<Longrightarrow> j < length xs \<Longrightarrow> xs ! j \<in> set (drop n xs)"
  using nth_mem [of "j - n" "drop n xs"] by simp

lemma build_step_inv:
  assumes inv: "build_inv Hb interval i es w" and "0 < interval"
  shows "\<exists>es' w'. build_step Hb interval (es, w) i = Inr (es', w') \<and> build_inv Hb interval (Suc i) es' w'"
proof -
  let ?d = "\<lambda>es. JStr (digest (hexed Hb) (link_of (last es)))"
  let ?r = "JObj [(''i'', JInt (int i)), (''data'', JStr (''entry-'' @ show_nat i))]"
  let ?e = "jput ''prev'' (?d es) (jput ''seq'' (JInt (int (length es))) ?r)"
  let ?es = "es @ [?e]" and ?w = "w @ [?e]"
  from inv have i: "indexed es" "linked Hb es" "audited Hb es" "length w < length es" "int (length w) = int i mod interval"
    "w = drop (length es - length w) es" "\<forall>e \<in> set w. \<not> is_checkpoint e"
    "length es - length w = 1 \<or> is_checkpoint (es ! (length es - length w - 1))"
    by (simp_all add: build_inv_def)
  have ne: "es \<noteq> []" using i(4) by auto
  have nc: "\<not> is_checkpoint ?e" by (simp add: is_checkpoint_def jget_JObj)
  have c1: "chain_append (hexed Hb) es ?r current_major = Inr ?es" by (rule chain_append_indexed [OF i(1) ne])
  have inv1: "indexed ?es" "linked Hb ?es" "audited Hb ?es"
    using indexed_snoc [OF i(1)] linked_snoc [OF i(2) ne] audited_snoc [OF i(3)] nc by auto
  have w1: "length ?w < length ?es" "?w = drop (length ?es - length ?w) ?es" "\<forall>e \<in> set ?w. \<not> is_checkpoint e"
    using i(4,6,7) nc by auto
  have s1: "length ?es - length ?w = 1 \<or> is_checkpoint (?es ! (length ?es - length ?w - 1))"
    using i(4,8) by (auto simp: nth_append)
  show ?thesis
  proof (cases "(int i + 1) mod interval = 0")
    case False
    have "int (length ?w) = int (Suc i) mod interval"
    proof -
      have "int i mod interval + 1 \<noteq> interval" using False by (metis add_diff_cancel_left' mod_add_left_eq mod_self)
      moreover have "int i mod interval < interval" using assms(2) by simp
      ultimately have "int i mod interval + 1 < interval" by linarith
      moreover have "0 \<le> int i mod interval + 1" using assms(2) by (simp add: add_nonneg_nonneg)
      ultimately have "(int i mod interval + 1) mod interval = int i mod interval + 1" by (rule mod_pos_pos_trivial [rotated])
      then have "(int i + 1) mod interval = int i mod interval + 1" by (metis mod_add_left_eq)
      then show ?thesis using i(5) by (simp add: ac_simps)
    qed
    then have "build_inv Hb interval (Suc i) ?es ?w" using inv1 w1 s1 unfolding build_inv_def by blast
    then show ?thesis using c1 False assms(2) by (simp add: build_step_def Let_def)
  next
    case True
    let ?a = "length ?es - length ?w" and ?b = "length ?es - 1"
    obtain c where mc: "make_checkpoint Hb ?w current_major = Inr c"
      and c: "c = JObj [(''type'', JStr ''checkpoint''), (''window_start'', JInt (int ?a)), (''window_end'', JInt (int ?b)),
                (''count'', JInt (int (length ?w))), (''merkle_root'', JStr (slice_root Hb ?es ?a ?b))]"
      using make_checkpoint_slice [OF inv1(1) _ w1(2,1)] by auto
    let ?f = "jput ''prev'' (?d ?es) (jput ''seq'' (JInt (int (length ?es))) c)"
    have oc: "is_obj c" by (simp add: c)
    have f: "jget ?f ''window_start'' = JInt (int ?a)" "jget ?f ''window_end'' = JInt (int ?b)"
      "jget ?f ''merkle_root'' = JStr (slice_root Hb ?es ?a ?b)" "is_checkpoint ?f"
      using oc by (simp_all add: is_checkpoint_def) (simp_all add: c jget_JObj)
    have "covers (?es @ [?f]) (length ?es) ?a ?b"
      unfolding covers_def
    proof (intro conjI allI impI)
      fix j assume j: "?a \<le> j \<and> j \<le> ?b"
      then have "j < length ?es" by simp
      moreover from this j have "?es ! j \<in> set ?w"
        using nth_in_drop [of ?a j ?es] w1(2) by simp
      ultimately show "\<not> is_checkpoint ((?es @ [?f]) ! j)" using w1(3) nth_append_left [of j ?es "[?f]"] by metis
    qed (use f w1(1) in \<open>simp_all add: nth_append del: append_assoc\<close>)
    then have "audited Hb (?es @ [?f])"
      using audited_snoc [OF inv1(3)] f(3) by blast
    moreover have "indexed (?es @ [?f])" "linked Hb (?es @ [?f])"
      using indexed_snoc [OF inv1(1) oc] linked_snoc [OF inv1(2)] by auto
    ultimately have "build_inv Hb interval (Suc i) (?es @ [?f]) []"
      using True f(4) by (simp add: build_inv_def nth_append ac_simps del: append_assoc)
    moreover have "chain_append (hexed Hb) ?es c current_major = Inr (?es @ [?f])"
      by (rule chain_append_indexed [OF inv1(1)]) simp
    ultimately show ?thesis using c1 True assms(2) mc
      by (simp add: build_step_def Let_def del: append_assoc)
  qed
qed

section \<open>Audit and cold verification\<close>

lemma by_seq_indexed:
  assumes "indexed es"
  shows "\<exists>d. by_seq es = Inr d \<and> (\<forall>j. dget d (JInt (int j)) = (if j < length es then Some (es ! j) else None))"
  using assms
proof (induction es rule: rev_induct)
  case Nil
  then show ?case by (simp add: by_seq_def)
next
  case (snoc e es)
  from snoc.prems have "indexed es" by (auto simp: indexed_def nth_append split: if_splits)
  then obtain d where d: "by_seq es = Inr d" "\<forall>j. dget d (JInt (int j)) = (if j < length es then Some (es ! j) else None)"
    using snoc.IH by blast
  have "is_obj e \<and> jget e ''seq'' = JInt (int (length es))"
    using snoc.prems by (auto simp: indexed_def dest!: spec [of _ "length es"])
  then have "seq_key e = Inr (Some (JInt (int (length es))))"
    by (cases e) (auto simp: seq_key_def jget_def split: option.splits)
  then have "by_seq (es @ [e]) = Inr (dput (JInt (int (length es))) e d)"
    using d(1) by (simp add: by_seq_def foldR_append)
  then show ?case using d(2) by (auto simp: dget_dput nth_append)
qed

lemma upto_nat: "[int a..int b] = map int [a..<Suc b]"
proof (induction b)
  case 0
  then show ?case by (cases "a = 0") auto
next
  case (Suc b)
  then show ?case by (cases "a \<le> Suc b") (auto simp: upto_rec2)
qed

lemma window_of_slice:
  assumes "\<forall>j. dget d (JInt (int j)) = (if j < length es then Some (es ! j) else None)" and "b < length es"
    and "\<forall>j. a \<le> j \<and> j \<le> b \<longrightarrow> \<not> is_checkpoint (es ! j)"
  shows "window_of d (int a) (int b) = map ((!) es) [a..<Suc b]"
proof -
  have "concat (map (\<lambda>s. case dget d (JInt (int s)) of None \<Rightarrow> [] | Some e \<Rightarrow> if is_checkpoint e then [] else [e]) ks)
        = map ((!) es) ks" if "\<forall>k \<in> set ks. a \<le> k \<and> k \<le> b" for ks
    using that assms by (induction ks) auto
  from this [of "[a..<Suc b]"] show ?thesis by (simp add: window_of_def upto_nat comp_def del: upt_Suc)
qed

definition root_matches :: "(string \<Rightarrow> string) \<Rightarrow> (json, json) dict \<Rightarrow> json \<Rightarrow> bool" where
  "root_matches Hb d e \<longleftrightarrow> (\<exists>ws we r. index_of (jget e ''window_start'') = Inr ws \<and> index_of (jget e ''window_end'') = Inr we
     \<and> window_root Hb current_major (window_of d ws we) = Inr r \<and> jget e ''merkle_root'' = JStr r)"

lemma audit_entries_clean:
  "\<forall>e \<in> set es. is_checkpoint e \<longrightarrow> root_matches Hb d e \<Longrightarrow>
     audit_entries Hb current_major d (es @ fs) = audit_entries Hb current_major d fs"
  by (induction es) (auto simp: root_matches_def)

lemma covers_window:
  assumes ix: "indexed es" and "by_seq es = Inr d" and c: "c < length es" and cv: "covers es c a b"
  shows "window_root Hb current_major (window_of d (int a) (int b)) = Inr (slice_root Hb es a b)"
    and "index_of (jget (es ! c) ''window_start'') = Inr (int a)" and "index_of (jget (es ! c) ''window_end'') = Inr (int b)"
proof -
  from by_seq_indexed [OF ix] assms(2) have d: "\<forall>j. dget d (JInt (int j)) = (if j < length es then Some (es ! j) else None)"
    by auto
  have b: "b < length es" using cv c by (simp add: covers_def)
  have "window_of d (int a) (int b) = map ((!) es) [a..<Suc b]"
    by (rule window_of_slice [OF d b]) (use cv in \<open>simp add: covers_def\<close>)
  moreover have "\<forall>e \<in> set (map ((!) es) [a..<Suc b]). is_obj e" using ix b by (auto simp: indexed_def)
  ultimately show "window_root Hb current_major (window_of d (int a) (int b)) = Inr (slice_root Hb es a b)"
    by (simp add: window_root_major slice_root_def del: upt_Suc)
  show "index_of (jget (es ! c) ''window_start'') = Inr (int a)" "index_of (jget (es ! c) ''window_end'') = Inr (int b)"
    using cv by (simp_all add: covers_def index_of_def)
qed

lemma audited_clean:
  assumes "indexed es" and "audited Hb es"
  shows "audit_checkpoints Hb es current_major = Inr (True, None)"
proof -
  from by_seq_indexed [OF assms(1)] obtain d where d: "by_seq es = Inr d" by blast
  have "\<forall>e \<in> set es. is_checkpoint e \<longrightarrow> root_matches Hb d e"
  proof (intro ballI impI)
    fix e assume "e \<in> set es" and ie: "is_checkpoint e"
    then obtain c where c: "c < length es" "e = es ! c" by (auto simp: in_set_conv_nth)
    then obtain a b where ab: "covers es c a b" "jget e ''merkle_root'' = JStr (slice_root Hb es a b)"
      using assms(2) ie by (auto simp: audited_def)
    from covers_window [OF assms(1) d c(1) ab(1)] ab(2) c(2) show "root_matches Hb d e" by (auto simp: root_matches_def)
  qed
  from audit_entries_clean [OF this, of "[]"] show ?thesis using d by (simp add: audit_checkpoints_def)
qed

lemma audited_forged:
  assumes ix: "indexed es" and au: "audited Hb es" and c: "c < length es" "is_checkpoint (es ! c)"
    and x: "JStr x \<noteq> jget (es ! c) ''merkle_root''"
  shows "\<exists>f. audit_checkpoints Hb (es[c := jput ''merkle_root'' (JStr x) (es ! c)]) current_major = Inr (False, Some f)"
proof -
  let ?e = "jput ''merkle_root'' (JStr x) (es ! c)"
  let ?es = "es[c := ?e]"
  have oc: "is_obj (es ! c)" using c(2) by (simp add: is_checkpoint_def)
  have ix': "indexed ?es" using ix oc c(1) by (auto simp: indexed_def nth_list_update)
  have chk: "is_checkpoint (?es ! j) = is_checkpoint (es ! j)" for j
    using oc c(1) by (auto simp: is_checkpoint_def nth_list_update)
  have cov: "covers ?es j a b = covers es j a b" for j a b
    using oc c(1) by (cases "j = c") (simp_all add: covers_def chk)
  have slice: "slice_root Hb ?es a b = slice_root Hb es a b" if "covers es j a b" for j a b
  proof -
    have "c \<notin> set [a..<Suc b]" using that c(2) by (auto simp: covers_def)
    then have "map ((!) ?es) [a..<Suc b] = map ((!) es) [a..<Suc b]" by (intro map_cong) (auto simp: nth_list_update)
    then show ?thesis by (simp only: slice_root_def)
  qed
  from by_seq_indexed [OF ix'] obtain d where d: "by_seq ?es = Inr d" by blast
  have pre: "\<forall>e \<in> set (take c ?es). is_checkpoint e \<longrightarrow> root_matches Hb d e"
  proof (intro ballI impI)
    fix e assume "e \<in> set (take c ?es)" and ie: "is_checkpoint e"
    then obtain j where j: "j < c" "e = ?es ! j" using c(1) by (auto simp: in_set_conv_nth)
    then have "is_checkpoint (es ! j)" "j < length es" using ie chk c(1) by auto
    then obtain a b where ab: "covers es j a b" "jget (es ! j) ''merkle_root'' = JStr (slice_root Hb es a b)"
      using au by (auto simp: audited_def)
    then have "covers ?es j a b" "jget e ''merkle_root'' = JStr (slice_root Hb ?es a b)" using cov slice j by auto
    with covers_window [OF ix' d _ this(1)] j c(1) show "root_matches Hb d e" by (auto simp: root_matches_def)
  qed
  from au c obtain a b where ab: "covers es c a b" by (auto simp: audited_def)
  from au c ab have mr: "\<exists>a b. covers es c a b \<and> jget (es ! c) ''merkle_root'' = JStr (slice_root Hb es a b)"
    by (auto simp: audited_def)
  then obtain a b where ab: "covers es c a b" "jget (es ! c) ''merkle_root'' = JStr (slice_root Hb es a b)" by blast
  have w: "window_root Hb current_major (window_of d (int a) (int b)) = Inr (slice_root Hb es a b)"
    "index_of (jget ?e ''window_start'') = Inr (int a)" "index_of (jget ?e ''window_end'') = Inr (int b)"
    using covers_window [OF ix' d, of c a b] cov ab(1) c(1) slice [OF ab(1)] by simp_all
  have ce: "is_checkpoint ?e" using chk [of c] c by simp
  have "audit_entries Hb current_major d (?e # drop (Suc c) ?es)
      = Inr (False, Some \<lparr>checkpoint_seq = jget ?e ''seq'', claimed = jget ?e ''merkle_root'', recomputed = slice_root Hb es a b\<rparr>)"
    using ce w x ab(2) oc by simp
  moreover have "?es = take c ?es @ ?e # drop (Suc c) ?es" using c(1) by (metis id_take_nth_drop length_list_update nth_list_update_eq)
  moreover have "audit_entries Hb current_major d (take c ?es @ ?e # drop (Suc c) ?es)
      = audit_entries Hb current_major d (?e # drop (Suc c) ?es)"
    by (rule audit_entries_clean [OF pre])
  ultimately have "audit_entries Hb current_major d ?es
      = Inr (False, Some \<lparr>checkpoint_seq = jget ?e ''seq'', claimed = jget ?e ''merkle_root'', recomputed = slice_root Hb es a b\<rparr>)"
    by metis
  then show ?thesis unfolding audit_checkpoints_def d bindR_Inr by blast
qed

lemma last_checkpoint_stop:
  "k \<le> m \<Longrightarrow> (k = 0 \<or> is_checkpoint (es ! k)) \<Longrightarrow> (\<forall>j. k < j \<and> j \<le> m \<longrightarrow> \<not> is_checkpoint (es ! j)) \<Longrightarrow> last_checkpoint es m = k"
  by (induction m) (auto simp: le_Suc_eq)

lemma relink_linked:
  assumes "indexed es" and "linked Hb es" and "k < length es"
  shows "relink Hb current_major (es ! k) t (drop (Suc k) es) = Inr (True, t + (length es - Suc k))"
  using assms(3)
proof (induction "length es - Suc k" arbitrary: k t)
  case 0
  then show ?case by simp
next
  case (Suc n)
  then have k: "Suc k < length es" by simp
  have "relink Hb current_major (es ! Suc k) (t + 1) (drop (Suc (Suc k)) es) = Inr (True, t + 1 + (length es - Suc (Suc k)))"
    by (rule Suc.hyps(1)) (use Suc.hyps(2) k in simp_all)
  moreover have "drop (Suc k) es = es ! Suc k # drop (Suc (Suc k)) es" using k by (rule Cons_nth_drop_Suc [symmetric])
  moreover have "is_obj (es ! k) \<and> is_obj (es ! Suc k)" using assms(1) Suc.prems k by (simp add: indexed_def)
  moreover have "jget (es ! Suc k) ''prev'' = JStr (digest (hexed Hb) (link_of (es ! k)))"
    using assms(2) k unfolding linked_def by blast
  ultimately show ?case using k by simp
qed

lemma build_loop:
  assumes "0 < interval"
  shows "\<exists>es w. foldR (build_step Hb interval) ([genesis run_id plan_sha current_major], []) [0..<n] = Inr (es, w)
     \<and> build_inv Hb interval n es w"
proof (induction n)
  case 0
  show ?case by (simp add: build_inv_def genesis_def indexed_def linked_def audited_def is_checkpoint_def jget_JObj)
next
  case (Suc n)
  then obtain es w where "foldR (build_step Hb interval) ([genesis run_id plan_sha current_major], []) [0..<n] = Inr (es, w)"
    and inv: "build_inv Hb interval n es w" by blast
  with build_step_inv [OF inv assms] show ?case by (fastforce simp: foldR_append)
qed

lemma build_inv_cold:
  assumes "build_inv Hb interval i es w" and "0 < interval"
  shows "\<exists>t. cold_verify_from_last_checkpoint Hb es current_major = Inr (True, t) \<and> int t < interval"
proof -
  let ?k = "length es - length w - 1"
  from assms(1) have i: "indexed es" "linked Hb es" "length w < length es" "int (length w) = int i mod interval"
    "w = drop (length es - length w) es" "\<forall>e \<in> set w. \<not> is_checkpoint e"
    "length es - length w = 1 \<or> is_checkpoint (es ! ?k)" by (simp_all add: build_inv_def)
  have k: "?k < length es" "es \<noteq> []" "length es - Suc ?k = length w" using i(3) by auto
  have "last_checkpoint es (length es - 1) = ?k"
  proof (rule last_checkpoint_stop)
    show "\<forall>j. ?k < j \<and> j \<le> length es - 1 \<longrightarrow> \<not> is_checkpoint (es ! j)"
    proof (intro allI impI)
      fix j assume "?k < j \<and> j \<le> length es - 1"
      then have "length es - length w \<le> j" "j < length es" using i(3) by auto
      from nth_in_drop [OF this] show "\<not> is_checkpoint (es ! j)" using i(5,6) by metis
    qed
  qed (use i(7) in auto)
  then have "cold_verify_from_last_checkpoint Hb es current_major = Inr (True, length w)"
    using relink_linked [OF i(1,2) k(1), of 0] k by (simp add: cold_verify_from_last_checkpoint_def Let_def)
  then show ?thesis using i(4) assms(2) by simp
qed

text \<open>
  C34: checkpoints keep verification cheap and forgery visible. For every number of records and
  every positive interval the builder returns a chain whose deep audit is clean and whose cold
  verification succeeds after re-linking fewer entries than the interval, whatever the length of
  the chain; and replacing the Merkle root of any of its checkpoints by another text makes the
  audit report a forgery.
\<close>

theorem checkpointed_chain_verifies:
  assumes "0 < interval"
  shows "\<exists>es t. build_checkpointed_chain Hb n interval run_id plan_sha = Inr es
     \<and> audit_checkpoints Hb es current_major = Inr (True, None)
     \<and> cold_verify_from_last_checkpoint Hb es current_major = Inr (True, t) \<and> int t < interval
     \<and> (\<forall>c x. c < length es \<longrightarrow> is_checkpoint (es ! c) \<longrightarrow> JStr x \<noteq> jget (es ! c) ''merkle_root'' \<longrightarrow>
          (\<exists>f. audit_checkpoints Hb (es[c := jput ''merkle_root'' (JStr x) (es ! c)]) current_major = Inr (False, Some f)))"
proof -
  from build_loop [OF assms, of Hb run_id plan_sha n] obtain es w
    where es: "foldR (build_step Hb interval) ([genesis run_id plan_sha current_major], []) [0..<n] = Inr (es, w)"
      and inv: "build_inv Hb interval n es w" by blast
  from build_inv_cold [OF inv assms] obtain t
    where t: "cold_verify_from_last_checkpoint Hb es current_major = Inr (True, t)" "int t < interval" by blast
  have ia: "indexed es" "audited Hb es" using inv by (simp_all add: build_inv_def)
  have "build_checkpointed_chain Hb n interval run_id plan_sha = Inr es"
    using es by (simp add: build_checkpointed_chain_def)
  then show ?thesis using t audited_clean [OF ia] audited_forged [OF ia] by blast
qed

theorem checkpointed_chain_verifies_witness:
  "\<exists>es. build_checkpointed_chain (\<lambda>s. s) 5 2 ''r'' ''p'' = Inr es \<and> audit_checkpoints (\<lambda>s. s) es current_major = Inr (True, None)"
  using checkpointed_chain_verifies [of 2 "\<lambda>s. s" 5 "''r''" "''p''"] by auto

end
