(* ===== verification/Translog.thy ===== *)
theory Translog
  imports Checkpoint
begin

text \<open>
  Offline transparency receipts (\<open>src/infra/cwp/translog.py\<close>) and trusted timestamp anchors
  (\<open>src/infra/cwp/tsa.py\<close>): signed tree heads, self-contained proof bundles and TSA tokens over
  the envelopes of \<open>Envelope\<close> and the tree of \<open>Merkle\<close>.
\<close>

section \<open>Signed tree heads\<close>

definition sth_type :: string where "sth_type = ''application/vnd.cyberware.sth+json''"

definition leaf_hash :: "crypto \<Rightarrow> json \<Rightarrow> string" where
  "leaf_hash K envelope = sha_raw K (canonicalize envelope)"

definition sth_body :: "crypto \<Rightarrow> string list \<Rightarrow> json" where
  "sth_body K leaves = JObj [(''tree_size'', JInt (int (length leaves))),
                             (''root_hash'', JStr (hex_text (merkle_root (sha_raw K) leaves)))]"

definition signed_tree_head :: "crypto \<Rightarrow> string list \<Rightarrow> string \<Rightarrow> json" where
  "signed_tree_head K leaves priv = sign_ph K (canonicalize (sth_body K leaves)) priv sth_type ''publisher-root''"

definition verify_sth :: "crypto \<Rightarrow> json \<Rightarrow> string \<Rightarrow> (bool \<times> json option) res" where
  "verify_sth K sth pub =
     (if \<not> is_obj sth \<or> jget sth ''payloadType'' \<noteq> JStr sth_type then Inr (False, None)
      else if \<not> truthy (jget sth ''signatures'') then Inr (False, None)
      else bindR (verify_ph K sth pub) (\<lambda>ok.
        if \<not> ok then Inr (False, None)
        else case decode_payload K sth of None \<Rightarrow> Inr (False, None) | Some body \<Rightarrow> Inr (True, Some body)))"

section \<open>Proof bundles\<close>

definition offline_proof :: "crypto \<Rightarrow> json \<Rightarrow> int \<Rightarrow> string list \<Rightarrow> string \<Rightarrow> json res" where
  "offline_proof K envelope index leaves priv =
     bindR (inclusion_proof (sha_raw K) index leaves) (\<lambda>path.
       Inr (JObj [(''leaf'', JStr (hex_text (leaf_hash K envelope))), (''index'', JInt index),
                  (''tree_size'', JInt (int (length leaves))), (''inclusion'', JList (map JStr path)),
                  (''sth'', signed_tree_head K leaves priv)]))"

text \<open>
  The proof of a bundle is whatever the loop over it yields; a sibling that is not text raises
  when it is reached.
\<close>

definition iterate :: "json \<Rightarrow> json list res" where
  "iterate v = (case v of
       JList xs \<Rightarrow> Inr xs | JStr s \<Rightarrow> Inr (map (\<lambda>c. JStr [c]) s) | JObj kvs \<Rightarrow> Inr (map (\<lambda>kv. JStr (fst kv)) kvs)
     | _ \<Rightarrow> Inl TypeError)"

fun recompute_json :: "(string \<Rightarrow> string) \<Rightarrow> string \<Rightarrow> nat \<Rightarrow> nat \<Rightarrow> json list \<Rightarrow> string res" where
  "recompute_json Hb h idx sz [] = Inr h"
| "recompute_json Hb h idx sz (v # vs) =
     (case v of
        JStr s \<Rightarrow> bindR (from_hex s) (\<lambda>sib.
                    recompute_json Hb (Hb (step_input h idx sz sib)) (idx div 2) ((sz + 1) div 2) vs)
      | _ \<Rightarrow> Inl TypeError)"

lemma recompute_json_strings [simp]: "recompute_json Hb h idx sz (map JStr path) = recompute Hb h idx sz path"
  by (induction path arbitrary: h idx sz) auto

datatype offline_reason = OfflineOk | BadSth | SizeMismatch | BadLeaf | NotIncluded

definition verify_offline :: "crypto \<Rightarrow> json \<Rightarrow> string \<Rightarrow> (bool \<times> offline_reason) res" where
  "verify_offline K bundle pub =
     (if \<not> is_obj bundle then Inl AttributeError
      else bindR (verify_sth K (jget_or bundle ''sth'' (JObj [])) pub) (\<lambda>(ok, body).
        case body of
          None \<Rightarrow> Inr (False, BadSth)
        | Some b \<Rightarrow>
            if \<not> ok then Inr (False, BadSth)
            else if \<not> is_obj b then Inl AttributeError
            else if jget bundle ''tree_size'' \<noteq> jget b ''tree_size'' then Inr (False, SizeMismatch)
            else case jget bundle ''leaf'' of
              JStr t \<Rightarrow>
                (case from_hex t of
                   Inl _ \<Rightarrow> Inr (False, BadLeaf)
                 | Inr leaf \<Rightarrow>
                     bindR (item bundle ''index'') (\<lambda>iv.
                     bindR (item b ''tree_size'') (\<lambda>sv.
                     bindR (item bundle ''inclusion'') (\<lambda>pv.
                     bindR (item b ''root_hash'') (\<lambda>rv.
                     bindR (index_of iv) (\<lambda>i.
                       if i < 0 then Inr (False, NotIncluded)
                       else bindR (index_of sv) (\<lambda>n.
                         if n \<le> i then Inr (False, NotIncluded)
                         else bindR (iterate pv) (\<lambda>vs.
                              bindR (recompute_json (sha_raw K) leaf (nat i) (nat n) vs) (\<lambda>h.
                                if JStr (hex_text h) = rv then Inr (True, OfflineOk) else Inr (False, NotIncluded))))))))))
            | _ \<Rightarrow> Inr (False, BadLeaf)))"

section \<open>Timestamp anchors\<close>

definition default_threshold :: int where "default_threshold = 1000"

definition tsa_type :: string where "tsa_type = ''application/vnd.cyberware.tsa+json''"

definition receipt_digest :: "crypto \<Rightarrow> json \<Rightarrow> string" where
  "receipt_digest K receipt = sha_hex K (canonicalize receipt)"

definition timestamp :: "crypto \<Rightarrow> json \<Rightarrow> int \<Rightarrow> string \<Rightarrow> json" where
  "timestamp K receipt clock priv =
     (let sha = receipt_digest K receipt;
          env = sign_ph K (canonicalize (JObj [(''receipt_sha'', JStr sha), (''time'', JInt clock)])) priv tsa_type ''tsa-anchor''
      in JObj [(''token'', env), (''receipt_sha'', JStr sha), (''time'', JInt clock)])"

definition verify_token :: "crypto \<Rightarrow> json \<Rightarrow> json \<Rightarrow> string \<Rightarrow> bool res" where
  "verify_token K token receipt pub =
     (if \<not> is_obj token \<or> jget token ''receipt_sha'' \<noteq> JStr (receipt_digest K receipt) then Inr False
      else verify_ph K (jget_or token ''token'' (JObj [])) pub)"

datatype tsa_reason = BelowThreshold | TsaMissing | TsaInvalid | TsaVerified

definition settlement_eligible :: "crypto \<Rightarrow> json \<Rightarrow> json \<Rightarrow> int \<Rightarrow> string \<Rightarrow> int \<Rightarrow> (bool \<times> tsa_reason) res" where
  "settlement_eligible K receipt token value pub threshold =
     (if value < threshold then Inr (True, BelowThreshold)
      else if \<not> truthy token then Inr (False, TsaMissing)
      else bindR (verify_token K token receipt pub) (\<lambda>ok.
        if \<not> ok then Inr (False, TsaInvalid) else Inr (True, TsaVerified)))"

section \<open>Receipts for the log verify offline\<close>

lemma verify_ph_signed:
  assumes "\<And>s. b64d K (b64e K s) = Some s" and "\<And>m. ph_verify K m (ph_sign K m priv) pub"
  shows "verify_ph K (sign_ph K payload priv pt kid) pub = Inr True"
  using assms by (simp add: verify_ph_def sign_ph_def mk_envelope_def envelope_message_def jget_def jstr_def jlist_def
      is_obj_def jhas_def obj_members_def)

lemma decode_signed:
  assumes "\<And>s. b64d K (b64e K s) = Some s"
  shows "decode_payload K (sign_ph K payload priv pt kid) = parse K payload"
  using assms by (simp add: decode_payload_def sign_ph_def mk_envelope_def jget_def jstr_def)

lemma sign_ph_fields:
  "jget (sign_ph K payload priv pt kid) ''payloadType'' = JStr pt" "is_obj (sign_ph K payload priv pt kid)"
  "truthy (jget (sign_ph K payload priv pt kid) ''signatures'')"
  by (simp_all add: sign_ph_def mk_envelope_def jget_def is_obj_def)

text \<open>A parser reads a canonical text back with its members in order.\<close>

lemma jnorm_sth: "jnorm (sth_body K leaves) = JObj [(''root_hash'', JStr (hex_text (merkle_root (sha_raw K) leaves))),
                                                 (''tree_size'', JInt (int (length leaves)))]"
  by (simp add: sth_body_def)

lemma verify_sth_signed:
  assumes "\<And>s. b64d K (b64e K s) = Some s" and "\<And>m. ph_verify K m (ph_sign K m priv) pub"
    and "parse K (canonicalize (sth_body K leaves)) = Some (jnorm (sth_body K leaves))"
  shows "verify_sth K (signed_tree_head K leaves priv) pub = Inr (True, Some (jnorm (sth_body K leaves)))"
  using assms by (simp add: verify_sth_def signed_tree_head_def sign_ph_fields verify_ph_signed decode_signed)

text \<open>
  A release published in the log can be checked offline: for every log and every index of it,
  the bundle the log ships for the envelope at that index is accepted under the publisher's key,
  when the signature scheme, base64 and the JSON parser invert what signed, encoded and printed.
\<close>

theorem offline_proof_verifies:
  assumes "i < length leaves" and "leaves ! i = leaf_hash K envelope"
    and "\<And>s. b64d K (b64e K s) = Some s" and "\<And>m. ph_verify K m (ph_sign K m priv) pub"
    and "parse K (canonicalize (sth_body K leaves)) = Some (jnorm (sth_body K leaves))"
  shows "\<exists>bundle. offline_proof K envelope (int i) leaves priv = Inr bundle
     \<and> verify_offline K bundle pub = Inr (True, OfflineOk)"
proof -
  have ne: "leaves \<noteq> []" using assms(1) by auto
  have "recompute (sha_raw K) (leaf_hash K envelope) i (length leaves) (audit_path (sha_raw K) i leaves)
        = Inr (merkle_root (sha_raw K) leaves)"
    using recompute_audit_path [OF assms(1), of "sha_raw K"] ne assms(2) by (simp add: merkle_root_def)
  then show ?thesis
    using assms(1) verify_sth_signed [OF assms(3-5)]
    by (simp add: offline_proof_def inclusion_proof_def verify_offline_def jget_JObj jget_or_def item_def obj_members_def
        jnorm_sth is_obj_def index_of_def iterate_def)
qed

definition log_crypto :: crypto where
  "log_crypto = toy_crypto \<lparr>parse := \<lambda>s. Some (jnorm (sth_body toy_crypto [leaf_hash toy_crypto JNull]))\<rparr>"

theorem offline_proof_verifies_witness:
  "\<exists>bundle. offline_proof log_crypto JNull 0 [leaf_hash log_crypto JNull] ''k'' = Inr bundle
     \<and> verify_offline log_crypto bundle ''k'' = Inr (True, OfflineOk)"
  using offline_proof_verifies [of 0 "[leaf_hash log_crypto JNull]" log_crypto JNull "''k''" "''k''"]
  by (simp add: log_crypto_def toy_crypto_def leaf_hash_def sth_body_def)

section \<open>What a timestamp anchors\<close>

lemma high_value_needs_token:
  "settlement_eligible K receipt token value pub threshold = Inr (True, reason) \<Longrightarrow>
     value < threshold \<or> (truthy token \<and> verify_token K token receipt pub = Inr True)"
  by (auto simp: settlement_eligible_def bindR_eq_Inr split: if_splits)

text \<open>
  At or above the threshold a receipt is eligible exactly when it carries a token whose
  outer digest is the receipt's and whose envelope verifies under the pinned key; the digest
  inside the signed payload is not compared, so one envelope the authority ever signed makes
  every receipt eligible.
\<close>

theorem tsa_envelope_transplants:
  assumes "threshold \<le> value"
  shows "(settlement_eligible K receipt token value pub threshold = Inr (True, reason) \<longleftrightarrow>
           reason = TsaVerified \<and> is_obj token \<and> truthy token
           \<and> jget token ''receipt_sha'' = JStr (receipt_digest K receipt)
           \<and> verify_ph K (jget_or token ''token'' (JObj [])) pub = Inr True)
     \<and> (verify_ph K env pub = Inr True \<longrightarrow>
          settlement_eligible K receipt (JObj [(''token'', env), (''receipt_sha'', JStr (receipt_digest K receipt))])
            value pub threshold = Inr (True, TsaVerified))"
  using assms by (auto simp: settlement_eligible_def verify_token_def bindR_eq_Inr jget_JObj jget_or_def obj_members_def
      split: if_splits)

theorem tsa_envelope_transplants_witness:
  "settlement_eligible toy_crypto (JInt 9)
     (JObj [(''token'', jget (timestamp toy_crypto (JInt 7) 1 ''k'') ''token''),
            (''receipt_sha'', JStr (receipt_digest toy_crypto (JInt 9)))]) 5000 ''k'' 1000 = Inr (True, TsaVerified)"
proof -
  have "verify_ph toy_crypto (jget (timestamp toy_crypto (JInt 7) 1 ''k'') ''token'') ''k'' = Inr True"
    by (simp add: timestamp_def Let_def jget_JObj verify_ph_signed toy_crypto_def)
  with tsa_envelope_transplants [of 1000 5000 toy_crypto "JInt 9" JNull "''k''" TsaMissing
      "jget (timestamp toy_crypto (JInt 7) 1 ''k'') ''token''"]
  show ?thesis by simp
qed

end
