(* ===== verification/Durable.thy ===== *)
theory Durable
  imports Chain
begin

text \<open>
  The durable file of a chain (\<open>src/infra/cwp/ledger.py\<close>): one JSON text a line, appended under
  an exclusive lock. A file is the text of its bytes; the JSON parser is the parameter \<open>loads\<close>.
  A crash may cut a write after any number of bytes, so a file may end in a torn fragment; an
  appender drops it before it writes, a reader reports it.
\<close>

section \<open>Reading the tip\<close>

abbreviation "nl \<equiv> CHR 0x0A"

definition is_ascii_blank :: "char \<Rightarrow> bool" where
  "is_ascii_blank c \<longleftrightarrow> c \<in> {CHR 0x20, CHR 0x09, CHR 0x0A, CHR 0x0B, CHR 0x0C, CHR 0x0D}"

definition loads_res :: "(string \<Rightarrow> json option) \<Rightarrow> string \<Rightarrow> json res" where
  "loads_res loads s = (case loads s of Some v \<Rightarrow> Inr v | None \<Rightarrow> Inl JSONDecodeError)"

text \<open>\<open>chunk.rfind(newline)\<close>.\<close>

definition rfind :: "char \<Rightarrow> string \<Rightarrow> nat option" where
  "rfind c s = (if c \<in> set s then Some (length s - 1 - length (takeWhile (\<lambda>x. x \<noteq> c) (rev s))) else None)"

definition read_line :: "(string \<Rightarrow> json option) \<Rightarrow> string \<Rightarrow> json option res" where
  "read_line loads line =
     (if list_all is_ascii_blank line then Inr None else bindR (loads_res loads line) (\<lambda>v. Inr (Some v)))"

text \<open>
  The loop over ever wider windows at the end of the file: the window of round \<open>k\<close> is
  \<open>min(size, 65536 * 4 ^ k)\<close> bytes.
\<close>

definition window_size :: "string \<Rightarrow> nat \<Rightarrow> nat" where
  "window_size f k = min (length f) (65536 * 4 ^ k)"

lemma window_grow: "65536 * 4 ^ k < n \<Longrightarrow> n - 262144 * 4 ^ k < n - 65536 * (4::nat) ^ k"
proof -
  have "0 < (4::nat) ^ k" by simp
  then show "65536 * 4 ^ k < n \<Longrightarrow> ?thesis" by linarith
qed

function tail_loop :: "(string \<Rightarrow> json option) \<Rightarrow> string \<Rightarrow> nat \<Rightarrow> (json option \<times> nat) res" where
  "tail_loop loads f k =
     (let size = length f; w = window_size f k; chunk = drop (size - w) f
      in case rfind nl chunk of
           None \<Rightarrow> if size \<le> w then Inr (None, 0) else tail_loop loads f (Suc k)
         | Some last_nl \<Rightarrow>
             (let clean_end = (size - w) + last_nl + 1; start = rfind nl (take last_nl chunk)
              in if start = None \<and> w < size then tail_loop loads f (Suc k)
                 else let beg = (case start of None \<Rightarrow> 0 | Some i \<Rightarrow> i + 1);
                          line = drop beg (take last_nl chunk)
                      in bindR (read_line loads line) (\<lambda>tip. Inr (tip, clean_end))))"
  by auto
termination
  by (relation "measure (\<lambda>(loads, f, k). length f - 65536 * 4 ^ k)") (auto simp: window_size_def not_le intro!: window_grow)

declare tail_loop.simps [simp del]

definition tail_record :: "(string \<Rightarrow> json option) \<Rightarrow> string \<Rightarrow> (json option \<times> nat) res" where
  "tail_record loads f = (if length f = 0 then Inr (None, 0) else tail_loop loads f 0)"

text \<open>The reference: the complete part of the file, and its last line.\<close>

definition complete_part :: "string \<Rightarrow> string" where
  "complete_part f = rev (dropWhile (\<lambda>c. c \<noteq> nl) (rev f))"

definition final_line :: "string \<Rightarrow> string" where
  "final_line f = rev (takeWhile (\<lambda>c. c \<noteq> nl) (rev (butlast (complete_part f))))"

definition tail_reference :: "(string \<Rightarrow> json option) \<Rightarrow> string \<Rightarrow> (json option \<times> nat) res" where
  "tail_reference loads f =
     (if complete_part f = [] then Inr (None, 0)
      else bindR (read_line loads (final_line f)) (\<lambda>tip. Inr (tip, length (complete_part f))))"

section \<open>Writing\<close>

text \<open>\<open>os.write\<close> accepts some number of bytes at each call; what is left is written next.\<close>

fun write_all :: "nat list \<Rightarrow> string \<Rightarrow> string \<times> string" where
  "write_all [] buf = ([], buf)"
| "write_all (n # ns) buf =
     (if buf = [] then ([], [])
      else let (w, r) = write_all ns (drop n buf) in (take n buf @ w, r))"

lemma write_all_prefix: "write_all ns buf = (w, r) \<Longrightarrow> w @ r = buf"
  by (induction ns arbitrary: buf w r) (auto split: if_splits prod.splits)

definition heal_and_append :: "string \<Rightarrow> string \<Rightarrow> nat \<Rightarrow> string" where
  "heal_and_append f line clean_end = take clean_end f @ line"

definition record_line :: "json \<Rightarrow> string" where
  "record_line e = dumps_sorted e @ [nl]"

definition append_line :: "(string \<Rightarrow> json option) \<Rightarrow> string \<Rightarrow> json \<Rightarrow> string res" where
  "append_line loads f e = bindR (tail_record loads f) (\<lambda>(tip, clean_end). Inr (heal_and_append f (record_line e) clean_end))"

definition write_chain :: "json list \<Rightarrow> string" where
  "write_chain es = concat (map record_line es)"

text \<open>The record linked to the tip: a falsy tip starts a new chain.\<close>

definition link_to_tip :: "(string \<Rightarrow> string) \<Rightarrow> json option \<Rightarrow> json \<Rightarrow> int \<Rightarrow> json res" where
  "link_to_tip H tip record schema =
     (case tip of
        Some t \<Rightarrow>
          if truthy t then
            if \<not> is_obj t then Inl AttributeError
            else bindR (case dget (obj_members t) ''seq'' of None \<Rightarrow> Inr 0 | Some v \<Rightarrow> int_of_json v) (\<lambda>s.
                 bindR (link_digest H (link_of t) schema) (\<lambda>d.
                   Inr (jput ''prev'' (JStr d) (jput ''seq'' (JInt (s + 1)) record))))
          else Inr (jput ''prev'' (JStr zero_prev) (jput ''seq'' (JInt 0) record))
      | None \<Rightarrow> Inr (jput ''prev'' (JStr zero_prev) (jput ''seq'' (JInt 0) record)))"

definition durable_append ::
  "(string \<Rightarrow> string) \<Rightarrow> (string \<Rightarrow> json option) \<Rightarrow> string \<Rightarrow> json \<Rightarrow> int \<Rightarrow> (string \<times> json) res" where
  "durable_append H loads f record schema =
     bindR (tail_record loads f) (\<lambda>(tip, clean_end).
     bindR (link_to_tip H tip record schema) (\<lambda>e.
       Inr (heal_and_append f (record_line e) clean_end, e)))"

section \<open>Reading a chain\<close>

definition is_line_break :: "char \<Rightarrow> bool" where
  "is_line_break c \<longleftrightarrow> c \<in> {CHR 0x0A, CHR 0x0B, CHR 0x0C, CHR 0x0D, CHR 0x1C, CHR 0x1D, CHR 0x1E, CHR 0x85}"

definition is_blank :: "char \<Rightarrow> bool" where
  "is_blank c \<longleftrightarrow> is_line_break c \<or> c \<in> {CHR 0x20, CHR 0x09, CHR 0x1F, CHR 0xA0}"

text \<open>\<open>text.splitlines()\<close>; the pairs of carriage return and newline were translated when reading.\<close>

fun splitlines_from :: "string \<Rightarrow> string \<Rightarrow> string list" where
  "splitlines_from acc [] = (if acc = [] then [] else [rev acc])"
| "splitlines_from acc (c # cs) =
     (if is_line_break c then rev acc # splitlines_from [] cs else splitlines_from (c # acc) cs)"

definition record_lines :: "string \<Rightarrow> string list" where
  "record_lines text = filter (\<lambda>l. \<not> list_all is_blank l) (splitlines_from [] text)"

record truncation =
  last_valid_seq :: "int option"
  torn_line_idx :: nat

fun parse_lines ::
  "(string \<Rightarrow> json option) \<Rightarrow> bool \<Rightarrow> nat \<Rightarrow> int option \<Rightarrow> string list \<Rightarrow> (json list \<times> truncation option) res" where
  "parse_lines loads torn_ok i ls [] = Inr ([], None)"
| "parse_lines loads torn_ok i ls (t # ts) =
     (case loads t of
        None \<Rightarrow> if torn_ok \<and> ts = [] then Inr ([], Some \<lparr>last_valid_seq = ls, torn_line_idx = i\<rparr>)
                else Inl JSONDecodeError
      | Some e \<Rightarrow>
          bindR (parse_lines loads torn_ok (Suc i) (case seq_int (jget e ''seq'') of Some s \<Rightarrow> Some s | None \<Rightarrow> ls) ts)
            (\<lambda>(es, tr). Inr (e # es, tr)))"

definition parse_jsonl :: "(string \<Rightarrow> json option) \<Rightarrow> string \<Rightarrow> bool \<Rightarrow> (json list \<times> truncation option) res" where
  "parse_jsonl loads text torn_ok = parse_lines loads torn_ok 0 None (record_lines text)"

definition schema_of_first :: "json list \<Rightarrow> json res" where
  "schema_of_first es =
     (case es of [] \<Rightarrow> Inr (JInt current_major)
      | e # _ \<Rightarrow> if is_obj e then Inr (jget_or e ''schema'' (JInt current_major)) else Inl AttributeError)"

definition read_chain ::
  "(string \<Rightarrow> json option) \<Rightarrow> string \<Rightarrow> bool \<Rightarrow> (json \<times> json \<times> truncation option) res" where
  "read_chain loads text torn_ok =
     (let lines = bindR (parse_jsonl loads text torn_ok) (\<lambda>(es, t).
                  bindR (schema_of_first es) (\<lambda>s. Inr (JList es, s, t)))
      in case loads text of
           Some (JObj kvs) \<Rightarrow>
             (case dget kvs ''entries'' of
                Some v \<Rightarrow> Inr (v, jget_or (JObj kvs) ''schema'' (JInt current_major), None)
              | None \<Rightarrow> lines)
         | Some (JList es) \<Rightarrow> bindR (schema_of_first es) (\<lambda>s. Inr (JList es, s, None))
         | _ \<Rightarrow> lines)"

section \<open>The window loop reads the tip\<close>

lemma rfind_None: "c \<notin> set s \<Longrightarrow> rfind c s = None"
  by (simp add: rfind_def)

lemma rfind_Some: "c \<notin> set b \<Longrightarrow> rfind c (a @ c # b) = Some (length a)"
proof -
  assume "c \<notin> set b"
  then have "takeWhile (\<lambda>x. x \<noteq> c) (rev b @ c # rev a) = rev b"
    by (subst takeWhile_append2) auto
  then show ?thesis by (simp add: rfind_def)
qed

definition upto_last :: "char \<Rightarrow> string \<Rightarrow> string" where
  "upto_last c s = rev (dropWhile (\<lambda>x. x \<noteq> c) (rev s))"

definition after_last :: "char \<Rightarrow> string \<Rightarrow> string" where
  "after_last c s = rev (takeWhile (\<lambda>x. x \<noteq> c) (rev s))"

lemma last_line_split:
  shows "s = upto_last c s @ after_last c s" and "c \<notin> set (after_last c s)"
    and "upto_last c s = [] \<or> last (upto_last c s) = c"
proof -
  show "s = upto_last c s @ after_last c s"
    unfolding upto_last_def after_last_def by (metis rev_append rev_rev_ident takeWhile_dropWhile_id)
  show "c \<notin> set (after_last c s)"
    unfolding after_last_def using set_takeWhileD [of c "\<lambda>x. x \<noteq> c" "rev s"] by auto
  show "upto_last c s = [] \<or> last (upto_last c s) = c"
  proof (cases "dropWhile (\<lambda>x. x \<noteq> c) (rev s)")
    case (Cons x xs)
    then have "\<not> (x \<noteq> c)" by (metis (full_types) hd_dropWhile list.sel(1) list.simps(3))
    then show ?thesis using Cons by (simp add: upto_last_def)
  qed (simp add: upto_last_def)
qed

lemma complete_part_upto: "complete_part f = upto_last nl f"
  by (simp add: complete_part_def upto_last_def)

lemma final_line_after: "final_line f = after_last nl (butlast (complete_part f))"
  by (simp add: final_line_def after_last_def)

lemma file_decomp:
  obtains T where "f = complete_part f @ T" and "nl \<notin> set T"
    and "complete_part f = [] \<or> (\<exists>P. complete_part f = P @ final_line f @ [nl] \<and> nl \<notin> set (final_line f) \<and> (P = [] \<or> last P = nl))"
proof -
  let ?C = "complete_part f" and ?P = "upto_last nl (butlast (complete_part f))"
  have C: "?C = [] \<or> last ?C = nl" unfolding complete_part_upto by (rule last_line_split)
  have "complete_part f = [] \<or> (\<exists>P. complete_part f = P @ final_line f @ [nl] \<and> nl \<notin> set (final_line f) \<and> (P = [] \<or> last P = nl))"
  proof (cases "complete_part f = []")
    case False
    have eq: "butlast ?C = ?P @ final_line f" "nl \<notin> set (final_line f)" "?P = [] \<or> last ?P = nl"
      unfolding final_line_after by (rule last_line_split)+
    have "?C = butlast ?C @ [last ?C]" using append_butlast_last_id [OF False] by (rule sym)
    also have "last ?C = nl" using C False by blast
    also have "butlast ?C @ [nl] = ?P @ final_line f @ [nl]" using arg_cong [OF eq(1), of "\<lambda>x. x @ [nl]"] by (simp only: append_assoc)
    finally have "?C = ?P @ final_line f @ [nl]" .
    then show ?thesis using eq(2,3) by blast
  qed simp
  then show ?thesis
    using that [of "after_last nl f"] last_line_split(1,2) [where s = f and c = nl] unfolding complete_part_upto by blast
qed

lemma tail_loop_reference: "tail_loop loads f k = tail_reference loads f"
proof (induction loads f k rule: tail_loop.induct)
  case (1 loads f k)
  let ?w = "window_size f k" and ?n = "length f"
  let ?chunk = "drop (?n - ?w) f"
  have w: "?w \<le> ?n" by (simp add: window_size_def)
  obtain T where T: "f = complete_part f @ T" "nl \<notin> set T"
    and C: "complete_part f = [] \<or> (\<exists>P. complete_part f = P @ final_line f @ [nl] \<and> nl \<notin> set (final_line f) \<and> (P = [] \<or> last P = nl))"
    by (rule file_decomp)
  show ?case
  proof (cases "rfind nl ?chunk")
    case None
    then have nn: "nl \<notin> set ?chunk" by (auto simp: rfind_def split: if_splits)
    show ?thesis
    proof (cases "?n \<le> ?w")
      case True
      then have "nl \<notin> set f" using nn by simp
      moreover have "nl \<in> set (complete_part f)" if "complete_part f \<noteq> []" using C that by auto
      ultimately have "complete_part f = []" using T(1) by (metis Un_iff set_append)
      then show ?thesis using None True by (simp add: tail_loop.simps [of loads f k] Let_def tail_reference_def)
    next
      case False
      then show ?thesis using 1(1) [OF refl refl refl None] None by (simp add: tail_loop.simps [of loads f k] Let_def)
    qed
  next
    case (Some i)
    then have "nl \<in> set ?chunk" by (auto simp: rfind_def split: if_splits)
    moreover have "?chunk = drop (length T - ?w) T" if "?w \<le> length T"
    proof -
      have "?n = length (complete_part f) + length T" using arg_cong [OF T(1), of length] by simp
      then have "drop (?n - ?w) (complete_part f @ T) = drop (length T - ?w) T" using that by simp
      then show ?thesis using T(1) by simp
    qed
    ultimately have "\<not> ?w \<le> length T" using T(2) by (metis in_set_dropD)
    then have Tw: "length T < ?w" by simp
    obtain P where P: "complete_part f = P @ final_line f @ [nl]" "nl \<notin> set (final_line f)" "P = [] \<or> last P = nl"
      using C T(1) w Tw by auto
    let ?L = "final_line f"
    let ?m = "?n - ?w"
    have f: "f = (P @ ?L) @ nl # T" using T(1) P(1) by simp
    have m: "?m \<le> length (P @ ?L)" using arg_cong [OF f, of length] Tw by simp
    then have "drop ?m ((P @ ?L) @ nl # T) = drop ?m (P @ ?L) @ nl # T" by (simp only: drop_append diff_is_0_eq [THEN iffD2] drop_0)
    then have chunk: "?chunk = drop ?m (P @ ?L) @ nl # T" using f by metis
    then have i: "i = length (drop ?m (P @ ?L))" using Some rfind_Some [OF T(2), of "drop ?m (P @ ?L)"] unfolding chunk by simp
    have i': "i = length (P @ ?L) - ?m" using i by (simp only: length_drop)
    have "?m + i = length (P @ ?L)" unfolding i' using m by (rule le_add_diff_inverse)
    then have ce: "?m + i + 1 = length (complete_part f)" using P(1) by simp
    have tk: "take i ?chunk = drop ?m (P @ ?L)" unfolding chunk i by (rule append_eq_conv_conj [THEN iffD1, OF refl, THEN conjunct1, symmetric])
    have ref: "tail_reference loads f = bindR (read_line loads ?L) (\<lambda>tip. Inr (tip, length (complete_part f)))"
      using P(1) by (simp add: tail_reference_def)
    show ?thesis
    proof (cases "?m < length P")
      case True
      then have P': "P \<noteq> []" "last P = nl" using P(3) by auto
      have "drop ?m P \<noteq> []" "last (drop ?m P) = nl" using True P'(2) by simp_all
      then have b: "drop ?m P = butlast (drop ?m P) @ [nl]" by (metis append_butlast_last_id)
      have "drop ?m (P @ ?L) = drop ?m P @ ?L" using True by simp
      then have d: "drop ?m (P @ ?L) = butlast (drop ?m P) @ nl # ?L" by (subst (asm) b) simp
      then have "rfind nl (take i ?chunk) = Some (length (butlast (drop ?m P)))" using tk rfind_Some [OF P(2)] by simp
      moreover have "drop (length (butlast (drop ?m P)) + 1) (take i ?chunk) = ?L" using tk d by simp
      ultimately show ?thesis using Some ce ref by (simp add: tail_loop.simps [of loads f k] Let_def)
    next
      case False
      then have d: "drop ?m (P @ ?L) = drop (?m - length P) ?L" by simp
      then have st: "rfind nl (take i ?chunk) = None" using tk P(2) by (auto intro!: rfind_None dest: in_set_dropD)
      show ?thesis
      proof (cases "?w < ?n")
        case True
        then show ?thesis using 1(2) [OF refl refl refl Some refl refl] st Some by (simp add: tail_loop.simps [of loads f k] Let_def)
      next
        case F: False
        then have "?m = 0" by simp
        then have "P = []" using False by simp
        then have "take i ?chunk = ?L" using tk \<open>?m = 0\<close> by simp
        then show ?thesis using F st Some ce ref by (simp add: tail_loop.simps [of loads f k] Let_def)
      qed
    qed
  qed
qed

lemma tail_record_reads_tip_lemma: "tail_record loads f = tail_reference loads f"
proof (cases "f = []")
  case True
  then show ?thesis by (simp add: tail_record_def tail_reference_def complete_part_def)
next
  case False
  then show ?thesis by (simp add: tail_record_def tail_loop_reference)
qed

text \<open>
  reading the tip of the file costs a window at its end, however long the chain is, and gives
  what reading the whole file gives: the last complete line, parsed, and the offset just past it.
\<close>

theorem tail_record_reads_tip:
  "tail_record loads f = tail_reference loads f"
  by (rule tail_record_reads_tip_lemma)

section \<open>Printed records are single lines\<close>

definition printable :: "char \<Rightarrow> bool" where
  "printable c \<longleftrightarrow> (32::nat) \<le> of_char c \<and> of_char c < (127::nat)"

lemma printable_not_break: "printable c \<Longrightarrow> \<not> is_line_break c"
  by (auto simp: printable_def is_line_break_def)

lemma hex_printable: "d < 16 \<Longrightarrow> printable (hex_digit d)"
proof -
  have "\<forall>d \<in> set [0..<16]. printable (hex_digit d)" by (simp add: printable_def hex_digit_def upt_rec)
  then show "d < 16 \<Longrightarrow> ?thesis" by simp
qed

lemma nibbles_printable: "printable (hex_digit (of_char c div 16))" "printable (hex_digit (of_char c mod 16))"
proof -
  have "(of_char c :: nat) < 256" by simp
  then have "(of_char c :: nat) div 16 < 16" by linarith
  then show "printable (hex_digit (of_char c div 16))" by (rule hex_printable)
  show "printable (hex_digit (of_char c mod 16))" by (rule hex_printable) simp
qed

lemma dumps_char_printable: "list_all printable (dumps_char c)"
  using nibbles_printable [of c]
  by (auto simp: dumps_char_def escape_char_def printable_def)

lemma dumps_str_printable: "list_all printable (dumps_str s)"
proof -
  have "list_all printable (concat (map dumps_char s))" using dumps_char_printable by (induction s) auto
  then show ?thesis by (simp add: dumps_str_def printable_def)
qed

lemma show_int_printable: "list_all printable (show_int i)"
proof -
  have "\<forall>c \<in> set ''-0123456789''. printable c" by (simp add: printable_def)
  then show ?thesis using show_int_chars [of i] by (auto simp: list_all_iff)
qed

lemma join_printable: "list_all (list_all printable) ss \<Longrightarrow> list_all printable (join_comma_blank ss)"
  by (induction ss rule: join_comma_blank.induct) (auto simp: printable_def)

lemma brackets_printable:
  "printable (CHR ''['')" "printable (CHR '']'')" "printable (CHR ''{'')" "printable (CHR ''}'')" "printable (CHR '':'')"
  "printable (CHR '' '')"
  by (simp_all add: printable_def)

lemma dumps_printable: "list_all printable (dumps_sorted v)"
proof (induction v rule: dumps_sorted.induct)
  case (5 xs)
  then have "list_all (list_all printable) (map dumps_sorted xs)" by (auto simp: list_all_iff)
  from join_printable [OF this] show ?case by (simp add: brackets_printable)
next
  case (6 kvs)
  have "list_all (list_all printable) (map (\<lambda>(k, t). dumps_str k @ '': '' @ t)
          (sort_key fst (map (\<lambda>(k, v). (k, dumps_sorted v)) kvs)))"
    using 6 dumps_str_printable brackets_printable by (auto simp: list_all_iff)
  from join_printable [OF this] show ?case by (simp add: brackets_printable)
qed (auto simp: dumps_str_printable show_int_printable, auto simp: printable_def)

lemma dumps_no_nl: "nl \<notin> set (dumps_sorted v)"
  using dumps_printable [of v] by (auto simp: list_all_iff printable_def)

lemma complete_part_torn:
  assumes "nl \<notin> set T"
  shows "complete_part (write_chain es @ T) = write_chain es"
proof (cases es rule: rev_cases)
  case Nil
  then show ?thesis using assms by (auto simp: complete_part_def write_chain_def)
next
  case (snoc fs e)
  have "rev (write_chain es @ T) = rev T @ nl # rev (write_chain fs @ dumps_sorted e)"
    using snoc by (simp add: write_chain_def record_line_def)
  moreover have "dropWhile (\<lambda>c. c \<noteq> nl) (rev T @ nl # rev (write_chain fs @ dumps_sorted e))
      = nl # rev (write_chain fs @ dumps_sorted e)"
    using assms by (subst dropWhile_append2) auto
  ultimately show ?thesis using snoc by (simp add: complete_part_def write_chain_def record_line_def)
qed

lemma final_line_torn:
  assumes "nl \<notin> set T"
  shows "final_line (write_chain (fs @ [e]) @ T) = dumps_sorted e"
proof -
  have b: "butlast (write_chain (fs @ [e])) = write_chain fs @ dumps_sorted e"
    by (simp add: write_chain_def record_line_def butlast_append)
  have "takeWhile (\<lambda>c. c \<noteq> nl) (rev (write_chain fs @ dumps_sorted e)) = rev (dumps_sorted e)"
  proof (cases fs rule: rev_cases)
    case Nil
    then show ?thesis using dumps_no_nl [of e] by (simp add: write_chain_def takeWhile_eq_all_conv) blast
  next
    case (snoc gs g)
    then have "rev (write_chain fs @ dumps_sorted e) = rev (dumps_sorted e) @ nl # rev (write_chain gs @ dumps_sorted g)"
      by (simp add: write_chain_def record_line_def)
    moreover have "takeWhile (\<lambda>c. c \<noteq> nl) (rev (dumps_sorted e) @ nl # rev (write_chain gs @ dumps_sorted g)) = rev (dumps_sorted e)"
      using dumps_no_nl [of e] by (subst takeWhile_append2) auto
    ultimately show ?thesis by simp
  qed
  then show ?thesis by (simp add: final_line_def complete_part_torn [OF assms] b)
qed

lemma dumps_obj_not_blank: "is_obj e \<Longrightarrow> \<not> list_all is_ascii_blank (dumps_sorted e) \<and> \<not> list_all is_blank (dumps_sorted e)"
  by (cases e) (auto simp: is_obj_def is_ascii_blank_def is_blank_def is_line_break_def)

lemma tail_record_torn:
  assumes "nl \<notin> set T" and "is_obj e"
  shows "tail_record loads (write_chain (fs @ [e]) @ T) =
    bindR (loads_res loads (dumps_sorted e)) (\<lambda>v. Inr (Some v, length (write_chain (fs @ [e]))))"
proof -
  have "write_chain (fs @ [e]) \<noteq> []" by (simp add: write_chain_def record_line_def)
  then show ?thesis using dumps_obj_not_blank [OF assms(2)]
    by (simp add: tail_record_reads_tip_lemma tail_reference_def complete_part_torn [OF assms(1)] final_line_torn [OF assms(1)]
        read_line_def bindR_assoc)
qed

section \<open>Reading back is canonical\<close>

lemma jnorm_obj: "is_obj (jnorm e) = is_obj e"
  by (cases e) (simp_all add: is_obj_def)

lemma jnorm_idem [simp]: "jnorm (jnorm v) = jnorm v"
proof (induction v rule: jnorm.induct)
  case (2 kvs)
  have "map (\<lambda>(k, v). (k, jnorm v)) (map (\<lambda>(k, v). (k, jnorm v)) kvs) = map (\<lambda>(k, v). (k, jnorm v)) kvs"
    using 2 by auto
  moreover have "sort_key fst (sort_key fst xs) = sort_key fst xs" for xs :: "(string \<times> json) list"
    by (rule sort_key_id_if_sorted) simp
  ultimately show ?case by (simp only: jnorm.simps sort_key_map_snd [symmetric])
qed auto

lemma jnorm_link_of: "jnorm (link_of (jnorm e)) = jnorm (link_of e)"
proof (cases e)
  case (JObj kvs)
  let ?P = "\<lambda>kv :: string \<times> json. fst kv \<noteq> ''prev''" and ?m = "map (\<lambda>(k, v). (k, jnorm v)) :: (string \<times> json) list \<Rightarrow> _"
  have fm: "filter ?P (?m kvs) = ?m (filter ?P kvs)" by (induction kvs) auto
  have mm: "?m (?m xs) = ?m xs" for xs by (induction xs) auto
  have "sort_key fst (?m (filter ?P (sort_key fst (?m kvs)))) = sort_key fst (sort_key fst (?m (filter ?P kvs)))"
    by (simp only: filter_sort fm sort_key_map_snd [symmetric] mm)
  then show ?thesis using JObj by (simp add: link_of_def sort_key_id_if_sorted)
qed (simp_all add: link_of_def)

lemma digest_link_jnorm: "digest H (link_of (jnorm e)) = digest H (link_of e)"
  unfolding digest_def using canonicalize_inj_iff [of "link_of (jnorm e)" "link_of e"] jnorm_link_of by simp

section \<open>Appends and crashes\<close>

text \<open>
  What processes appending to one file can leave on disk, with the records whose line was written whole:
  those whose append returned, and those of a process that died between the last byte and its return, which
  leave the same file. The lock makes the appends a sequence; a crash during the write leaves the healed file
  and the bytes the kernel took of the line, fewer than all of them.
\<close>

inductive on_disk :: "(string \<Rightarrow> string) \<Rightarrow> (string \<Rightarrow> json option) \<Rightarrow> string \<Rightarrow> json list \<Rightarrow> bool"
  for H loads where
  disk_new: "on_disk H loads [] []"
| disk_append: "on_disk H loads f es \<Longrightarrow> durable_append H loads f r current_major = Inr (f', e) \<Longrightarrow> on_disk H loads f' (es @ [e])"
| disk_crash: "on_disk H loads f es \<Longrightarrow> durable_append H loads f r current_major = Inr (f', e) \<Longrightarrow>
    tail_record loads f = Inr (tip, n) \<Longrightarrow> write_all ns (record_line e) = (w, left) \<Longrightarrow> left \<noteq> [] \<Longrightarrow>
    on_disk H loads (heal_and_append f w n) es"

inductive_cases on_disk_cases: "on_disk H loads f es"

definition chained :: "(string \<Rightarrow> string) \<Rightarrow> json list \<Rightarrow> bool" where
  "chained H es \<longleftrightarrow> (\<forall>j < length es. is_obj (es ! j) \<and> jget (es ! j) ''seq'' = JInt (int j)
     \<and> jget (es ! j) ''prev'' = JStr (case j of 0 \<Rightarrow> zero_prev | Suc i \<Rightarrow> digest H (link_of (es ! i))))"

lemma jget_jput_any [simp]: "jget (jput k v j) k' = (if k' = k then v else jget j k')"
  by (cases j) (auto simp: jget_def jput_def obj_members_def dget_dput)

lemma chained_snoc:
  assumes "chained H es"
  shows "chained H (es @ [jput ''prev'' (JStr (case length es of 0 \<Rightarrow> zero_prev | Suc i \<Rightarrow> digest H (link_of (es ! i))))
           (jput ''seq'' (JInt (int (length es))) r)])"
proof -
  have "(case j of 0 \<Rightarrow> zero_prev | Suc i \<Rightarrow> digest H (link_of ((es @ [x]) ! i)))
        = (case j of 0 \<Rightarrow> zero_prev | Suc i \<Rightarrow> digest H (link_of (es ! i)))" if "j \<le> length es" for j x
    using that by (auto simp: nth_append split: nat.splits)
  then show ?thesis using assms unfolding chained_def
    by (auto simp: nth_append less_Suc_eq)
qed

definition torn_file :: "string \<Rightarrow> json list \<Rightarrow> string \<Rightarrow> bool" where
  "torn_file f es T \<longleftrightarrow> f = write_chain es @ T \<and> list_all printable T \<and> (T = [] \<or> hd T = CHR ''{'')"

lemma printable_no_nl: "list_all printable T \<Longrightarrow> nl \<notin> set T"
  by (auto simp: list_all_iff printable_def)

definition next_record :: "(string \<Rightarrow> string) \<Rightarrow> json list \<Rightarrow> json \<Rightarrow> json" where
  "next_record H es r = jput ''prev'' (JStr (case length es of 0 \<Rightarrow> zero_prev | Suc i \<Rightarrow> digest H (link_of (es ! i))))
                          (jput ''seq'' (JInt (int (length es))) r)"

lemma append_torn_value:
  assumes "torn_file f es T" and "chained H es"
    and "\<And>e. e \<in> set es \<Longrightarrow> loads (dumps_sorted e) = Some (jnorm e)"
  shows "durable_append H loads f r current_major = Inr (write_chain (es @ [next_record H es r]), next_record H es r)"
    and "\<exists>tip. tail_record loads f = Inr (tip, length (write_chain es))"
proof -
  have f: "f = write_chain es @ T" and T: "nl \<notin> set T" using assms(1) printable_no_nl by (auto simp: torn_file_def)
  have "durable_append H loads f r current_major = Inr (write_chain (es @ [next_record H es r]), next_record H es r)
     \<and> (\<exists>tip. tail_record loads f = Inr (tip, length (write_chain es)))"
  proof (cases es rule: rev_cases)
    case Nil
    then have "complete_part f = []" using complete_part_torn [OF T, of "[]"] f by (simp add: write_chain_def)
    then have t: "tail_record loads f = Inr (None, 0)" by (simp add: tail_record_reads_tip_lemma tail_reference_def)
    then show ?thesis using Nil
      by (simp add: durable_append_def link_to_tip_def heal_and_append_def next_record_def write_chain_def)
  next
    case (snoc fs l)
    have ol: "is_obj l" "jget l ''seq'' = JInt (int (length fs))"
      using assms(2) snoc by (auto simp: chained_def dest!: spec [of _ "length fs"])
    then have t: "tail_record loads f = Inr (Some (jnorm l), length (write_chain es))"
      using tail_record_torn [OF T ol(1), of loads fs] assms(3) [of l] f snoc by (simp add: loads_res_def)
    have on: "is_obj (jnorm l)" "jget (jnorm l) ''seq'' = JInt (int (length fs))"
      using ol by (simp_all add: jnorm_obj jget_jnorm)
    then have sq: "dget (obj_members (jnorm l)) ''seq'' = Some (JInt (int (length fs)))"
      by (auto simp: is_obj_def jget_def obj_members_def split: json.splits option.splits)
    have tr: "truthy (jnorm l)" using sq on(1) by (cases "jnorm l") (auto simp: is_obj_def obj_members_def)
    have "link_to_tip H (Some (jnorm l)) r current_major = Inr (next_record H es r)"
      using tr on(1) sq snoc
      by (simp add: link_to_tip_def int_of_json_def link_digest_def current_major_def link_digest_v2_def digest_link_jnorm
          next_record_def add.commute)
    then show ?thesis using t f by (simp add: durable_append_def heal_and_append_def write_chain_def)
  qed
  then show "durable_append H loads f r current_major = Inr (write_chain (es @ [next_record H es r]), next_record H es r)"
    and "\<exists>tip. tail_record loads f = Inr (tip, length (write_chain es))" by auto
qed

lemma append_to_torn:
  assumes "torn_file f es T" and "chained H es"
    and "\<And>e. e \<in> set es \<Longrightarrow> loads (dumps_sorted e) = Some (jnorm e)"
    and "durable_append H loads f r current_major = Inr (f', e)"
  shows "chained H (es @ [e]) \<and> torn_file f' (es @ [e]) [] \<and> is_obj e
     \<and> (\<exists>tip. tail_record loads f = Inr (tip, length (write_chain es)))"
proof -
  have e: "e = next_record H es r" "f' = write_chain (es @ [e])"
    using append_torn_value(1) [OF assms(1-3), of r] assms(4) by auto
  have "chained H (es @ [e])" using chained_snoc [OF assms(2), of r] e(1) by (simp add: next_record_def)
  moreover have "is_obj e" using e(1) by (simp add: next_record_def)
  ultimately show ?thesis using append_torn_value(2) [OF assms(1-3)] e(2) by (simp add: torn_file_def)
qed

lemma proper_prefix_printable:
  assumes "write_all ns (record_line e) = (w, left)" and "left \<noteq> []" and "is_obj e"
  shows "list_all printable w \<and> (w = [] \<or> hd w = CHR ''{'')"
proof -
  have hd: "hd (dumps_sorted e @ [nl]) = CHR ''{''" using assms(3) by (cases e) (simp_all add: is_obj_def)
  have "w @ left = dumps_sorted e @ [nl]" using write_all_prefix [OF assms(1)] by (simp add: record_line_def)
  then have "w @ butlast left = dumps_sorted e" using assms(2) by (metis butlast_append butlast_snoc)
  then have "set w \<subseteq> set (dumps_sorted e)" by (metis Un_upper1 set_append)
  moreover have "w = [] \<or> hd w = CHR ''{''"
    using hd write_all_prefix [OF assms(1)] unfolding record_line_def by (metis hd_append2)
  ultimately show ?thesis using dumps_printable [of e] by (auto simp: list_all_iff)
qed

lemma on_disk_inv:
  "on_disk H loads f es \<Longrightarrow> (\<And>e. e \<in> set es \<Longrightarrow> loads (dumps_sorted e) = Some (jnorm e)) \<Longrightarrow>
     chained H es \<and> (\<exists>T. torn_file f es T)"
proof (induction rule: on_disk.induct)
  case disk_new
  then show ?case by (simp add: chained_def torn_file_def write_chain_def)
next
  case (disk_append f es r f' e)
  then obtain T where "chained H es" "torn_file f es T" by auto
  from append_to_torn [OF this(2,1) _ disk_append.hyps(2)] disk_append.prems show ?case by auto
next
  case (disk_crash f es r f' e tip n ns w left)
  then obtain T where cT: "chained H es" "torn_file f es T" by auto
  from append_to_torn [OF cT(2,1) _ disk_crash.hyps(2)] disk_crash.prems disk_crash.hyps(3)
  have "n = length (write_chain es)" "is_obj e" by auto
  then have "torn_file (heal_and_append f w n) es w"
    using cT(2) proper_prefix_printable [OF disk_crash.hyps(4,5)] by (simp add: torn_file_def heal_and_append_def)
  then show ?case using cT(1) by blast
qed

lemma splitlines_line: "list_all printable s \<Longrightarrow> splitlines_from acc (s @ nl # r) = (rev acc @ s) # splitlines_from [] r"
  by (induction s arbitrary: acc) (auto simp: printable_not_break is_line_break_def [of nl])

lemma splitlines_rest: "list_all printable s \<Longrightarrow> splitlines_from acc s = (if acc = [] \<and> s = [] then [] else [rev acc @ s])"
  by (induction s arbitrary: acc) (auto simp: printable_not_break)

lemma splitlines_chain:
  "splitlines_from [] (write_chain es @ T) = map dumps_sorted es @ splitlines_from [] T"
proof (induction es)
  case (Cons e es)
  have "splitlines_from [] (dumps_sorted e @ nl # (write_chain es @ T)) = dumps_sorted e # splitlines_from [] (write_chain es @ T)"
    using splitlines_line [OF dumps_printable, of "[]"] by simp
  then show ?case using Cons by (simp add: write_chain_def record_line_def)
qed (simp add: write_chain_def)

lemma record_lines_torn:
  assumes "\<forall>e \<in> set es. is_obj e" and "list_all printable T" and "T = [] \<or> hd T = CHR ''{''"
  shows "record_lines (write_chain es @ T) = map dumps_sorted es @ (if T = [] then [] else [T])"
proof -
  have "filter (\<lambda>l. \<not> list_all is_blank l) (map dumps_sorted es) = map dumps_sorted es"
    using assms(1) dumps_obj_not_blank by (induction es) auto
  moreover have "T \<noteq> [] \<Longrightarrow> \<not> list_all is_blank T"
    using assms(3) by (cases T) (auto simp: is_blank_def is_line_break_def)
  ultimately show ?thesis using splitlines_rest [OF assms(2), of "[]"]
    by (simp add: record_lines_def splitlines_chain)
qed

lemma bindR_right: "bindR m Inr = m"
  by (cases m) simp_all

lemma parse_lines_chain:
  assumes "\<And>e. e \<in> set es \<Longrightarrow> loads (dumps_sorted e) = Some (jnorm e)"
    and "\<And>j. j < length es \<Longrightarrow> jget (es ! j) ''seq'' = JInt (int (i + j))"
  shows "parse_lines loads ok i ls (map dumps_sorted es @ ts) =
    bindR (parse_lines loads ok (i + length es) (if es = [] then ls else Some (int (i + length es) - 1)) ts)
      (\<lambda>(fs, tr). Inr (map jnorm es @ fs, tr))"
  using assms
proof (induction es arbitrary: i ls)
  case Nil
  have "bindR m (\<lambda>(fs, tr). Inr (fs, tr)) = m" for m :: "(json list \<times> truncation option) res" by (cases m) auto
  then show ?case by simp
next
  case (Cons e es)
  have s: "seq_int (jget (jnorm e) ''seq'') = Some (int i)" using Cons.prems(2) [of 0] by (simp add: jget_jnorm seq_int_def)
  have "parse_lines loads ok (Suc i) (Some (int i)) (map dumps_sorted es @ ts) =
    bindR (parse_lines loads ok (Suc i + length es) (if es = [] then Some (int i) else Some (int (Suc i + length es) - 1)) ts)
      (\<lambda>(fs, tr). Inr (map jnorm es @ fs, tr))"
    by (rule Cons.IH) (use Cons.prems(1) Cons.prems(2) [of "Suc _"] in auto)
  then show ?case using Cons.prems(1) [of e] s by (cases "es = []") (simp_all add: bindR_assoc case_prod_unfold bindR_right)
qed

text \<open>
  C10: appends are crash safe. Whatever sequence of appends and of crashes during appends a file
  has seen, the records whose append returned are there in order, numbered from zero and each
  linked to the one before; the next append succeeds; nothing follows them but at most one torn fragment, a file with none
  reads back as exactly those records, and a fragment that is no JSON text is dropped and reported
  with the last valid sequence number. The JSON parser is assumed to read back what was printed.
\<close>

theorem appends_are_crash_safe:
  assumes "on_disk H loads f es" and "\<And>e. e \<in> set es \<Longrightarrow> loads (dumps_sorted e) = Some (jnorm e)"
  shows "chained H es \<and> (\<forall>r. \<exists>f' e. durable_append H loads f r current_major = Inr (f', e))
     \<and> (\<exists>T. f = write_chain es @ T \<and> nl \<notin> set T
     \<and> (T = [] \<longrightarrow> parse_jsonl loads f False = Inr (map jnorm es, None))
     \<and> (T \<noteq> [] \<longrightarrow> loads T = None \<longrightarrow> parse_jsonl loads f True =
          Inr (map jnorm es, Some \<lparr>last_valid_seq = (if es = [] then None else Some (int (length es) - 1)),
                                   torn_line_idx = length es\<rparr>)))"
proof -
  from on_disk_inv [OF assms] obtain T where c: "chained H es" and tf: "torn_file f es T" by blast
  from tf have T: "f = write_chain es @ T" "list_all printable T" "T = [] \<or> hd T = CHR ''{''" by (simp_all add: torn_file_def)
  have "\<forall>e \<in> set es. is_obj e" using c by (auto simp: chained_def in_set_conv_nth)
  then have l: "record_lines f = map dumps_sorted es @ (if T = [] then [] else [T])"
    unfolding T(1) by (rule record_lines_torn [OF _ T(2,3)])
  have rd: "parse_lines loads ok 0 None (map dumps_sorted es @ ts) =
    bindR (parse_lines loads ok (length es) (if es = [] then None else Some (int (length es) - 1)) ts)
      (\<lambda>(fs, tr). Inr (map jnorm es @ fs, tr))" for ok ts
    using parse_lines_chain [of es loads 0 ok None ts] assms(2) c by (simp add: chained_def)
  have r1: "T = [] \<longrightarrow> parse_jsonl loads f False = Inr (map jnorm es, None)"
    using l rd [of False "[]"] by (simp add: parse_jsonl_def)
  have r2: "T \<noteq> [] \<longrightarrow> loads T = None \<longrightarrow> parse_jsonl loads f True =
       Inr (map jnorm es, Some \<lparr>last_valid_seq = (if es = [] then None else Some (int (length es) - 1)), torn_line_idx = length es\<rparr>)"
    using l rd [of True "[T]"] by (simp add: parse_jsonl_def)
  have "\<forall>r. \<exists>f' e. durable_append H loads f r current_major = Inr (f', e)"
    using append_torn_value(1) [OF tf c assms(2)] by blast
  moreover have "f = write_chain es @ T \<and> nl \<notin> set T" using T(1) printable_no_nl [OF T(2)] by simp
  ultimately show ?thesis using c r1 r2 by (intro conjI exI [of _ T]) simp_all
qed

theorem appends_are_crash_safe_witness:
  "\<exists>f e. on_disk (\<lambda>s. s) (\<lambda>s. if s = dumps_sorted e then Some (jnorm e) else None) (f @ ''{'') [e]
     \<and> chained (\<lambda>s. s) [e]"
proof -
  let ?e = "jput ''prev'' (JStr zero_prev) (jput ''seq'' (JInt 0) (JObj [(''k'', JBool True)]))"
  let ?l = "\<lambda>s. if s = dumps_sorted ?e then Some (jnorm ?e) else None"
  have t: "tail_record ?l [] = Inr (None, 0)" by (simp add: tail_record_def)
  have d: "durable_append (\<lambda>s. s) ?l [] (JObj [(''k'', JBool True)]) current_major = Inr (record_line ?e, ?e)"
    by (simp add: durable_append_def t link_to_tip_def heal_and_append_def)
  have o1: "on_disk (\<lambda>s. s) ?l (record_line ?e) ([] @ [?e])" by (rule disk_append [OF disk_new d])
  have t1: "tail_record ?l (record_line ?e) = Inr (Some (jnorm ?e), length (record_line ?e))"
    using tail_record_torn [of "[]" ?e ?l "[]"] by (simp add: write_chain_def loads_res_def)
  have tf: "torn_file (record_line ?e) [?e] []" by (simp add: torn_file_def write_chain_def)
  have ch: "chained (\<lambda>s. s) [?e]" by (simp add: chained_def)
  have d1: "durable_append (\<lambda>s. s) ?l (record_line ?e) (JObj []) current_major
      = Inr (write_chain ([?e] @ [next_record (\<lambda>s. s) [?e] (JObj [])]), next_record (\<lambda>s. s) [?e] (JObj []))"
    by (rule append_torn_value [OF tf ch]) simp
  let ?n = "record_line (next_record (\<lambda>s. s) [?e] (JObj []))"
  have w: "write_all [1] ?n = (''{'', tl ?n)" "tl ?n \<noteq> []"
    by (simp_all add: record_line_def next_record_def jput_def obj_members_def take_Suc drop_Suc)
  have o2: "on_disk (\<lambda>s. s) ?l (record_line ?e @ ''{'') [?e]"
    using disk_crash [OF o1 d1 t1 w] by (simp add: heal_and_append_def)
  from appends_are_crash_safe [OF o2] show ?thesis using o2 by auto
qed

end
