(* ===== verification/Lease.thy ===== *)
theory Lease
  imports Prelude
begin

text \<open>
  The single-writer lease of the shared store: the lease table of both backends
  (\<open>src/infra/store/backend.py\<close>, SQLite and Postgres) and the manager that acquires, renews and
  consults it (\<open>src/infra/govern/lease.py\<close>). Times are rationals; the rounding of a sum of two
  floating-point seconds is not modelled. A method is one atomic step, as the transaction or the
  conditional statement of each backend makes it. All hosts read one clock: where each host reads its own,
  what is proved here holds up to the differences of the clocks. There is no fencing token, as there is none in
  the code.
\<close>

section \<open>The lease tables\<close>

record lease_row =
  holder_id :: string
  expires_at :: rat
  acquired_at :: rat

type_synonym lease_table = "(string, lease_row) dict"

record acquire_answer =
  acquired :: bool
  a_holder :: "string option"
  a_expires :: "rat option"

record renew_answer =
  renewed :: bool
  n_holder :: "string option"
  n_expires :: "rat option"

text \<open>The SQLite backend reads the row inside an immediate transaction and decides in Python.\<close>

definition sqlite_try_acquire_lease ::
  "lease_table \<Rightarrow> string \<Rightarrow> string \<Rightarrow> rat \<Rightarrow> rat \<Rightarrow> lease_table \<times> acquire_answer" where
  "sqlite_try_acquire_lease t lid h ttl now =
     (let grant = (dput lid \<lparr>holder_id = h, expires_at = now + ttl, acquired_at = now\<rparr> t,
                   \<lparr>acquired = True, a_holder = Some h, a_expires = Some (now + ttl)\<rparr>)
      in case dget t lid of
           None \<Rightarrow> grant
         | Some r \<Rightarrow>
             if holder_id r \<noteq> h \<and> now < expires_at r
             then (t, \<lparr>acquired = False, a_holder = Some (holder_id r), a_expires = Some (expires_at r)\<rparr>)
             else grant)"

definition sqlite_renew_lease ::
  "lease_table \<Rightarrow> string \<Rightarrow> string \<Rightarrow> rat \<Rightarrow> rat \<Rightarrow> lease_table \<times> renew_answer" where
  "sqlite_renew_lease t lid h ttl now =
     (case dget t lid of
        None \<Rightarrow> (t, \<lparr>renewed = False, n_holder = None, n_expires = None\<rparr>)
      | Some r \<Rightarrow>
          if holder_id r \<noteq> h then (t, \<lparr>renewed = False, n_holder = Some (holder_id r), n_expires = None\<rparr>)
          else (dput lid (r \<lparr>expires_at := now + ttl\<rparr>) t,
                \<lparr>renewed = True, n_holder = Some h, n_expires = Some (now + ttl)\<rparr>))"

definition sqlite_release_lease :: "lease_table \<Rightarrow> string \<Rightarrow> string \<Rightarrow> lease_table \<times> bool" where
  "sqlite_release_lease t lid h =
     (let released = (case dget t lid of None \<Rightarrow> False | Some r \<Rightarrow> holder_id r = h)
      in (if released then AList.delete lid t else t, released))"

definition lease_holder :: "lease_table \<Rightarrow> string \<Rightarrow> rat \<Rightarrow> string option" where
  "lease_holder t lid now =
     (case dget t lid of None \<Rightarrow> None | Some r \<Rightarrow> if expires_at r \<le> now then None else Some (holder_id r))"

text \<open>The Postgres backend: one conditional upsert, one conditional update, one conditional delete.\<close>

definition upsert_returning ::
  "lease_table \<Rightarrow> string \<Rightarrow> lease_row \<Rightarrow> (lease_row \<Rightarrow> bool) \<Rightarrow> lease_table \<times> lease_row option" where
  "upsert_returning t lid new cond =
     (case dget t lid of
        None \<Rightarrow> (dput lid new t, Some new)
      | Some old \<Rightarrow> if cond old then (dput lid new t, Some new) else (t, None))"

definition pg_try_acquire_lease ::
  "lease_table \<Rightarrow> string \<Rightarrow> string \<Rightarrow> rat \<Rightarrow> rat \<Rightarrow> lease_table \<times> acquire_answer" where
  "pg_try_acquire_lease t lid h ttl now =
     (let (t', r) = upsert_returning t lid \<lparr>holder_id = h, expires_at = now + ttl, acquired_at = now\<rparr>
                      (\<lambda>old. expires_at old \<le> now \<or> holder_id old = h)
      in case r of
           Some row \<Rightarrow> if holder_id row = h
                       then (t', \<lparr>acquired = True, a_holder = Some h, a_expires = Some (now + ttl)\<rparr>)
                       else (t', \<lparr>acquired = False, a_holder = map_option holder_id (dget t' lid),
                                  a_expires = map_option expires_at (dget t' lid)\<rparr>)
         | None \<Rightarrow> (t', \<lparr>acquired = False, a_holder = map_option holder_id (dget t' lid),
                         a_expires = map_option expires_at (dget t' lid)\<rparr>))"

definition pg_renew_lease ::
  "lease_table \<Rightarrow> string \<Rightarrow> string \<Rightarrow> rat \<Rightarrow> rat \<Rightarrow> lease_table \<times> renew_answer" where
  "pg_renew_lease t lid h ttl now =
     (case dget t lid of
        Some r \<Rightarrow>
          if holder_id r = h
          then (dput lid (r \<lparr>expires_at := now + ttl\<rparr>) t, \<lparr>renewed = True, n_holder = Some h, n_expires = Some (now + ttl)\<rparr>)
          else (t, \<lparr>renewed = False, n_holder = None, n_expires = None\<rparr>)
      | None \<Rightarrow> (t, \<lparr>renewed = False, n_holder = None, n_expires = None\<rparr>))"

definition pg_release_lease :: "lease_table \<Rightarrow> string \<Rightarrow> string \<Rightarrow> lease_table \<times> bool" where
  "pg_release_lease t lid h =
     (case dget t lid of
        Some r \<Rightarrow> if holder_id r = h then (AList.delete lid t, True) else (t, False)
      | None \<Rightarrow> (t, False))"

section \<open>The manager\<close>

definition active_lease :: string where "active_lease = ''govd-active''"
definition default_ttl :: rat where "default_ttl = 30"

record lease_manager =
  m_lease :: string
  m_holder :: string
  m_ttl :: rat

definition held :: "lease_table \<Rightarrow> lease_manager \<Rightarrow> rat \<Rightarrow> bool" where
  "held t m now \<longleftrightarrow> lease_holder t (m_lease m) now = Some (m_holder m)"

text \<open>
  \<open>acquire_blocking\<close> over the acquire method of a backend. \<open>clock k\<close> is the \<open>k\<close>-th reading of
  the clock, \<open>others i\<close> what the rest of the world does to the store before poll \<open>i\<close>.
\<close>

partial_function (option) poll_acquire ::
  "(lease_table \<Rightarrow> string \<Rightarrow> string \<Rightarrow> rat \<Rightarrow> rat \<Rightarrow> lease_table \<times> acquire_answer) \<Rightarrow> (nat \<Rightarrow> lease_table \<Rightarrow> lease_table)
   \<Rightarrow> (nat \<Rightarrow> rat) \<Rightarrow> lease_manager \<Rightarrow> rat \<Rightarrow> nat \<Rightarrow> lease_table \<Rightarrow> (lease_table \<times> bool) option" where
  "poll_acquire acq others clock m deadline i t =
     (let (t', a) = acq (others i t) (m_lease m) (m_holder m) (m_ttl m) (clock (2 * i + 1))
      in if acquired a then Some (t', True)
         else if deadline \<le> clock (2 * i + 2) then Some (t', False)
         else poll_acquire acq others clock m deadline (Suc i) t')"

definition acquire_blocking ::
  "(lease_table \<Rightarrow> string \<Rightarrow> string \<Rightarrow> rat \<Rightarrow> rat \<Rightarrow> lease_table \<times> acquire_answer) \<Rightarrow> (nat \<Rightarrow> lease_table \<Rightarrow> lease_table)
   \<Rightarrow> (nat \<Rightarrow> rat) \<Rightarrow> lease_manager \<Rightarrow> rat \<Rightarrow> lease_table \<Rightarrow> (lease_table \<times> bool) option" where
  "acquire_blocking acq others clock m timeout t = poll_acquire acq others clock m (clock 0 + timeout) 0 t"

text \<open>The renewer's loop: one renewal each half lease time until one fails or raises; then the instance demotes.\<close>

fun renewer :: "(nat \<Rightarrow> bool res) \<Rightarrow> (nat \<Rightarrow> bool) \<Rightarrow> nat \<Rightarrow> nat \<Rightarrow> bool option" where
  "renewer renew stop i 0 = None"
| "renewer renew stop i (Suc fuel) =
     (if stop (2 * i) then Some False
      else if stop (2 * i + 1) then Some False
      else case renew i of
             Inr True \<Rightarrow> renewer renew stop (Suc i) fuel
           | _ \<Rightarrow> Some True)"

section \<open>The contract\<close>

text \<open>What the holders of leases know: until when the last positive answer said a holder holds.\<close>

type_synonym beliefs = "string \<times> string \<Rightarrow> rat option"

text \<open>Any instances calling the methods in any order, on a clock that never goes back.\<close>

inductive lease_run ::
  "('t \<Rightarrow> string \<Rightarrow> string \<Rightarrow> rat \<Rightarrow> rat \<Rightarrow> 't \<times> acquire_answer) \<Rightarrow> ('t \<Rightarrow> string \<Rightarrow> string \<Rightarrow> rat \<Rightarrow> rat \<Rightarrow> 't \<times> renew_answer)
   \<Rightarrow> ('t \<Rightarrow> string \<Rightarrow> string \<Rightarrow> 't \<times> bool) \<Rightarrow> 't \<Rightarrow> 't \<Rightarrow> rat \<Rightarrow> beliefs \<Rightarrow> bool"
  for acq ren rel t0 where
  run_start: "lease_run acq ren rel t0 t0 now (\<lambda>_. None)"
| run_wait: "lease_run acq ren rel t0 t c b \<Longrightarrow> c \<le> now \<Longrightarrow> lease_run acq ren rel t0 t now b"
| run_acquire: "lease_run acq ren rel t0 t c b \<Longrightarrow> acq t l h ttl c = (t', a) \<Longrightarrow>
    lease_run acq ren rel t0 t' c (b((l, h) := if acquired a then Some (c + ttl) else None))"
| run_renew: "lease_run acq ren rel t0 t c b \<Longrightarrow> ren t l h ttl c = (t', a) \<Longrightarrow>
    lease_run acq ren rel t0 t' c (b((l, h) := if renewed a then Some (c + ttl) else None))"
| run_release: "lease_run acq ren rel t0 t c b \<Longrightarrow> rel t l h = (t', r) \<Longrightarrow>
    lease_run acq ren rel t0 t' c (b((l, h) := None))"

inductive_cases lease_run_cases: "lease_run acq ren rel t0 t c b"

locale lease_store =
  fixes acq :: "'t \<Rightarrow> string \<Rightarrow> string \<Rightarrow> rat \<Rightarrow> rat \<Rightarrow> 't \<times> acquire_answer"
    and ren :: "'t \<Rightarrow> string \<Rightarrow> string \<Rightarrow> rat \<Rightarrow> rat \<Rightarrow> 't \<times> renew_answer"
    and rel :: "'t \<Rightarrow> string \<Rightarrow> string \<Rightarrow> 't \<times> bool"
    and row :: "'t \<Rightarrow> string \<Rightarrow> (string \<times> rat) option"
    and empty :: 't
  assumes empty_row: "row empty l = None"
    and acq_live: "row t l = Some (h', e) \<Longrightarrow> h' \<noteq> h \<Longrightarrow> now < e \<Longrightarrow> acq t l h ttl now = (t', a) \<Longrightarrow> t' = t \<and> \<not> acquired a"
    and acq_free: "(\<And>h' e. row t l = Some (h', e) \<Longrightarrow> h' = h \<or> e \<le> now) \<Longrightarrow> acq t l h ttl now = (t', a) \<Longrightarrow>
          acquired a \<and> row t' = (row t)(l := Some (h, now + ttl))"
    and ren_own: "row t l = Some (h, e) \<Longrightarrow> ren t l h ttl now = (t', n) \<Longrightarrow> renewed n \<and> row t' = (row t)(l := Some (h, now + ttl))"
    and ren_other: "(\<And>e. row t l \<noteq> Some (h, e)) \<Longrightarrow> ren t l h ttl now = (t', n) \<Longrightarrow> t' = t \<and> \<not> renewed n"
    and rel_own: "row t l = Some (h, e) \<Longrightarrow> rel t l h = (t', r) \<Longrightarrow> row t' = (row t)(l := None)"
    and rel_other: "(\<And>e. row t l \<noteq> Some (h, e)) \<Longrightarrow> rel t l h = (t', r) \<Longrightarrow> t' = t"
begin

lemma beliefs_are_rows:
  "lease_run acq ren rel empty t c b \<Longrightarrow> b (l, h) = Some e \<Longrightarrow> c < e \<Longrightarrow> row t l = Some (h, e)"
proof (induction arbitrary: l h e rule: lease_run.induct)
  case (run_start now)
  then show ?case by simp
next
  case (run_wait t c b now)
  then show ?case by auto
next
  case (run_acquire t c b l' h' ttl t' a)
  show ?case
  proof (cases "\<exists>g x. row t l' = Some (g, x) \<and> g \<noteq> h' \<and> c < x")
    case True
    then have "t' = t \<and> \<not> acquired a" using acq_live run_acquire.hyps(2) by blast
    then show ?thesis using run_acquire.IH run_acquire.prems by (auto split: if_splits)
  next
    case False
    then have "acquired a \<and> row t' = (row t)(l' := Some (h', c + ttl))"
      by (intro acq_free [OF _ run_acquire.hyps(2)]) (metis not_le)
    then show ?thesis using run_acquire.IH [of l h e] run_acquire.prems False
      by (cases "l = l'") (auto split: if_splits)
  qed
next
  case (run_renew t c b l' h' ttl t' a)
  show ?case
  proof (cases "\<exists>x. row t l' = Some (h', x)")
    case True
    then have "renewed a \<and> row t' = (row t)(l' := Some (h', c + ttl))" using ren_own run_renew.hyps(2) by blast
    then show ?thesis using run_renew.IH [of l h e] run_renew.prems True
      by (cases "l = l'") (auto split: if_splits)
  next
    case False
    then have "t' = t \<and> \<not> renewed a" using ren_other run_renew.hyps(2) by blast
    then show ?thesis using run_renew.IH run_renew.prems by (auto split: if_splits)
  qed
next
  case (run_release t c b l' h' t' r)
  show ?case
  proof (cases "\<exists>x. row t l' = Some (h', x)")
    case True
    then have "row t' = (row t)(l' := None)" using rel_own run_release.hyps(2) by blast
    then show ?thesis using run_release.IH [of l h e] run_release.prems True
      by (cases "l = l'") (auto split: if_splits)
  next
    case False
    then have "t' = t" using rel_other run_release.hyps(2) by blast
    then show ?thesis using run_release.IH run_release.prems by (auto split: if_splits)
  qed
qed

lemma one_holder:
  "lease_run acq ren rel empty t c b \<Longrightarrow> b (l, h) = Some e \<Longrightarrow> c < e \<Longrightarrow> b (l, h') = Some e' \<Longrightarrow> c < e' \<Longrightarrow> h' = h"
  using beliefs_are_rows [of t c b l h e] beliefs_are_rows [of t c b l h' e'] by simp

end

definition lease_of :: "lease_table \<Rightarrow> string \<Rightarrow> (string \<times> rat) option" where
  "lease_of t l = map_option (\<lambda>r. (holder_id r, expires_at r)) (dget t l)"

lemma lease_of_dput: "lease_of (dput l r t) = (lease_of t)(l := Some (holder_id r, expires_at r))"
  by (rule ext) (simp add: lease_of_def dget_dput)

lemma lease_of_delete: "lease_of (AList.delete l t) = (lease_of t)(l := None)"
  by (rule ext) (simp add: lease_of_def delete_conv')

lemmas lease_defs = sqlite_try_acquire_lease_def sqlite_renew_lease_def sqlite_release_lease_def
  pg_try_acquire_lease_def pg_renew_lease_def pg_release_lease_def upsert_returning_def

interpretation sqlite: lease_store sqlite_try_acquire_lease sqlite_renew_lease sqlite_release_lease lease_of "[]"
proof unfold_locales
  fix t l h now ttl t' a
  assume free: "\<And>h' e. lease_of t l = Some (h', e) \<Longrightarrow> h' = h \<or> e \<le> now" and r: "sqlite_try_acquire_lease t l h ttl now = (t', a)"
  then show "acquired a \<and> lease_of t' = (lease_of t)(l := Some (h, now + ttl))"
    by (fastforce simp: lease_defs Let_def lease_of_dput lease_of_def split: option.splits if_splits)
qed (auto simp: lease_defs Let_def lease_of_dput lease_of_delete lease_of_def split: option.splits if_splits)

interpretation pg: lease_store pg_try_acquire_lease pg_renew_lease pg_release_lease lease_of "[]"
proof unfold_locales
  fix t l h now ttl t' a
  assume free: "\<And>h' e. lease_of t l = Some (h', e) \<Longrightarrow> h' = h \<or> e \<le> now" and r: "pg_try_acquire_lease t l h ttl now = (t', a)"
  then show "acquired a \<and> lease_of t' = (lease_of t)(l := Some (h, now + ttl))"
    by (fastforce simp: lease_defs Let_def lease_of_dput lease_of_def split: option.splits if_splits)
qed (auto simp: lease_defs Let_def lease_of_dput lease_of_delete lease_of_def split: option.splits if_splits)

section \<open>One writer\<close>

lemma lease_holder_row: "lease_of t l = Some (h, e) \<Longrightarrow> lease_holder t l now = (if e \<le> now then None else Some h)"
  by (auto simp: lease_of_def lease_holder_def)

text \<open>
  C11: there is no split brain. On either backend, whatever instances acquire, renew and release
  leases in whatever order, while a holder's last positive answer has not expired the store names
  that holder, no other holder of the lease has an unexpired positive answer, and an attempt of
  another holder to acquire it is refused.
\<close>

theorem lease_mutual_exclusion:
  assumes "lease_run sqlite_try_acquire_lease sqlite_renew_lease sqlite_release_lease [] t c b
         \<or> lease_run pg_try_acquire_lease pg_renew_lease pg_release_lease [] t c b"
    and "b (l, h) = Some e" and "c < e"
  shows "lease_holder t l c = Some h \<and> (\<forall>h' e'. b (l, h') = Some e' \<longrightarrow> c < e' \<longrightarrow> h' = h)
     \<and> (\<forall>h' ttl. h' \<noteq> h \<longrightarrow> \<not> acquired (snd (sqlite_try_acquire_lease t l h' ttl c)) \<and> \<not> acquired (snd (pg_try_acquire_lease t l h' ttl c)))"
proof -
  have row: "lease_of t l = Some (h, e)"
    using assms sqlite.beliefs_are_rows pg.beliefs_are_rows by blast
  have one: "\<forall>h' e'. b (l, h') = Some e' \<longrightarrow> c < e' \<longrightarrow> h' = h"
    using assms sqlite.one_holder pg.one_holder by blast
  have "\<not> acquired (snd (sqlite_try_acquire_lease t l h' ttl c))" if "h' \<noteq> h" for h' ttl
    using sqlite.acq_live [OF row _ assms(3), of h'] that by (metis prod.collapse)
  moreover have "\<not> acquired (snd (pg_try_acquire_lease t l h' ttl c))" if "h' \<noteq> h" for h' ttl
    using pg.acq_live [OF row _ assms(3), of h'] that by (metis prod.collapse)
  ultimately show ?thesis using one lease_holder_row [OF row, of c] assms(3) by auto
qed

theorem lease_mutual_exclusion_witness:
  "lease_holder [(active_lease, \<lparr>holder_id = ''A'', expires_at = 40, acquired_at = 10\<rparr>)] active_lease 20 = Some ''A''"
proof -
  have "lease_run sqlite_try_acquire_lease sqlite_renew_lease sqlite_release_lease []
      [(active_lease, \<lparr>holder_id = ''A'', expires_at = 40, acquired_at = 10\<rparr>)] 10 ((\<lambda>_. None)((active_lease, ''A'') := Some 40))"
    using run_acquire [OF run_start, of sqlite_try_acquire_lease "[]" active_lease "''A''" 30 10]
    by (simp add: sqlite_try_acquire_lease_def Let_def)
  from run_wait [OF this, of 20]
  have "lease_run sqlite_try_acquire_lease sqlite_renew_lease sqlite_release_lease []
      [(active_lease, \<lparr>holder_id = ''A'', expires_at = 40, acquired_at = 10\<rparr>)] 20 ((\<lambda>_. None)((active_lease, ''A'') := Some 40))" by simp
  from lease_mutual_exclusion [OF disjI1 [OF this], of active_lease "''A''" 40] show ?thesis by simp
qed

text \<open>The two backends decide alike.\<close>

lemma backends_agree:
  "fst (sqlite_try_acquire_lease t l h ttl now) = fst (pg_try_acquire_lease t l h ttl now)
   \<and> snd (sqlite_try_acquire_lease t l h ttl now) = snd (pg_try_acquire_lease t l h ttl now)"
  by (auto simp: lease_defs Let_def split: option.splits)

section \<open>Failover\<close>

lemma poll_until:
  assumes "\<And>j. j < k \<Longrightarrow> clock (2 * j + 2) < deadline" and "i \<le> k"
    and "\<And>j t. i \<le> j \<Longrightarrow> j < k \<Longrightarrow> P t \<Longrightarrow> \<exists>t' a. acq (others j t) (m_lease m) (m_holder m) (m_ttl m) (clock (2 * j + 1)) = (t', a) \<and> (acquired a \<or> P t')"
    and "\<And>t. P t \<Longrightarrow> \<exists>t' a. acq (others k t) (m_lease m) (m_holder m) (m_ttl m) (clock (2 * k + 1)) = (t', a) \<and> acquired a"
    and "P t"
  shows "\<exists>t'. poll_acquire acq others clock m deadline i t = Some (t', True)"
  using assms(2-)
proof (induction "k - i" arbitrary: i t)
  case 0
  then have ik: "i = k" by simp
  from 0(4) [OF 0(5)] show ?case
    unfolding ik by (subst poll_acquire.simps) (force simp: Let_def)
next
  case (Suc n)
  then have ik: "i < k" by simp
  from Suc.prems(2) [OF _ ik Suc.prems(4)] obtain t' a
    where s: "acq (others i t) (m_lease m) (m_holder m) (m_ttl m) (clock (2 * i + 1)) = (t', a)" "acquired a \<or> P t'" by auto
  show ?case
  proof (cases "acquired a")
    case True
    then show ?thesis using s(1) by (subst poll_acquire.simps) simp
  next
    case False
    have "\<exists>t''. poll_acquire acq others clock m deadline (Suc i) t' = Some (t'', True)"
      by (rule Suc.hyps(1)) (use Suc.hyps(2) ik s(2) False Suc.prems in auto)
    then show ?thesis using s(1) False assms(1) [OF ik] by (subst poll_acquire.simps) simp
  qed
qed

text \<open>
  failover happens. When the active instance stops renewing, the standby that polls returns
  holding the lease, provided it polls at some time after the active's expiry before its own
  timeout: with nobody else acting, \<open>acquire_blocking\<close> on either backend returns \<open>True\<close>.
\<close>

theorem standby_takes_over:
  assumes "lease_of t (m_lease m) = Some (h, e)" and "e \<le> clock (2 * k + 1)"
    and "\<And>j. j < k \<Longrightarrow> clock (2 * j + 2) < clock 0 + timeout"
    and "acq = sqlite_try_acquire_lease \<or> acq = pg_try_acquire_lease"
  shows "\<exists>t'. acquire_blocking acq (\<lambda>_ t. t) clock m timeout t = Some (t', True)"
proof -
  let ?P = "\<lambda>s. lease_of s (m_lease m) = Some (h, e)"
  have step: "\<exists>t' a. acq s (m_lease m) (m_holder m) (m_ttl m) now = (t', a) \<and> (acquired a \<or> (t' = s \<and> now < e))"
    if "?P s" for s now
  proof (cases "h \<noteq> m_holder m \<and> now < e")
    case True
    then show ?thesis
      using assms(4) sqlite.acq_live [OF that, of "m_holder m" now] pg.acq_live [OF that, of "m_holder m" now]
      by (metis prod.collapse)
  next
    case False
    have f: "h' = m_holder m \<or> e' \<le> now" if "lease_of s (m_lease m) = Some (h', e')" for h' e'
      using \<open>?P s\<close> that False by auto
    from assms(4) show ?thesis
      using sqlite.acq_free [OF f] pg.acq_free [OF f] by (metis prod.collapse)
  qed
  show ?thesis
    unfolding acquire_blocking_def
  proof (rule poll_until [where P = ?P and k = k])
    show "\<exists>t' a. acq t (m_lease m) (m_holder m) (m_ttl m) (clock (2 * j + 1)) = (t', a) \<and> (acquired a \<or> ?P t')"
      if "0 \<le> j" "j < k" "?P t" for j t
      using step [OF that(3), of "clock (2 * j + 1)"] that(3) by auto
    show "\<exists>t' a. acq t (m_lease m) (m_holder m) (m_ttl m) (clock (2 * k + 1)) = (t', a) \<and> acquired a"
      if "?P t" for t
      using step [OF that, of "clock (2 * k + 1)"] assms(2) by fastforce
  qed (use assms in auto)
qed

theorem standby_takes_over_witness:
  "\<exists>t'. acquire_blocking sqlite_try_acquire_lease (\<lambda>_ t. t) (\<lambda>k. of_nat k)
     \<lparr>m_lease = active_lease, m_holder = ''B'', m_ttl = 10\<rparr> 10
     [(active_lease, \<lparr>holder_id = ''A'', expires_at = 5, acquired_at = 0\<rparr>)] = Some (t', True)"
  by (rule standby_takes_over [where h = "''A''" and e = 5 and k = 2]) (auto simp: lease_of_def)

end
