(* ===== verification/Store.thy ===== *)
theory Store
  imports Durable Money
begin

text \<open>
  The queryable index of the provenance store (\<open>src/infra/store/backend.py\<close>): the tables of the
  two backends as lists of rows in insertion order, with the statements that write and read them,
  and the per-actor credit budget kept in the same store. \<open>loads\<close> is the JSON parser. An atomic
  transaction is one step. The key columns are text and integers; the
  other columns keep the value that was written. An operation that raises leaves the index as it was; the one
  operation of the code for which this is not so is \<open>budget_post\<close>, which commits its row and then adds up the
  balance, so that a row that cannot be read makes it raise after the commit.
\<close>

section \<open>Cells\<close>

text \<open>\<open>json.dumps(v, sort_keys=True, separators=(",", ":"))\<close>.\<close>

fun store_canon :: "json \<Rightarrow> string" where
  "store_canon (JBool b) = (if b then ''true'' else ''false'')"
| "store_canon JNull = ''null''"
| "store_canon (JStr s) = dumps_str s"
| "store_canon (JInt i) = show_int i"
| "store_canon (JList xs) = ''['' @ join_comma (map store_canon xs) @ '']''"
| "store_canon (JObj kvs) =
     ''{'' @ join_comma (map (\<lambda>(k, t). dumps_str k @ '':'' @ t)
                (sort_key fst (map (\<lambda>(k, v). (k, store_canon v)) kvs))) @ ''}''"

record idx_row =
  r_run :: string
  r_seq :: int
  r_prev :: json
  r_link :: string
  r_kind :: json
  r_ts :: json
  r_plan :: json
  r_fields :: string

record dec_row =
  d_run :: json
  d_ts :: json
  d_link :: string
  d_fields :: string

record val_row =
  v_run :: string
  v_step :: string
  v_ts :: string
  v_sha :: string
  v_blob :: string

record bud_row =
  b_actor :: string
  b_delta :: string
  b_memo :: string
  b_idem :: string

record index =
  idx_record :: "idx_row list"
  idx_decision :: "dec_row list"
  idx_origin :: "(string, string) dict"
  run_values :: "val_row list"
  budget_ledger :: "bud_row list"

definition empty_index :: index where
  "empty_index = \<lparr>idx_record = [], idx_decision = [], idx_origin = [], run_values = [], budget_ledger = []\<rparr>"

datatype index_status = Indexed | DuplicateRow | Unconfigured

section \<open>Statements\<close>

text \<open>\<open>INSERT OR IGNORE\<close> / \<open>ON CONFLICT DO NOTHING\<close> under a primary key; the flag is \<open>rowcount == 1\<close>.\<close>

definition insert_ignore :: "('r \<Rightarrow> 'k) \<Rightarrow> 'r \<Rightarrow> 'r list \<Rightarrow> 'r list \<times> bool" where
  "insert_ignore key r rs = (if key r \<in> key ` set rs then (rs, False) else (rs @ [r], True))"

definition set_origin :: "index \<Rightarrow> string \<Rightarrow> string \<Rightarrow> index" where
  "set_origin b run plan =
     (case dget (idx_origin b) run of Some _ \<Rightarrow> b | None \<Rightarrow> b \<lparr>idx_origin := idx_origin b @ [(run, plan)]\<rparr>)"

definition get_origin :: "index \<Rightarrow> string \<Rightarrow> string option" where
  "get_origin b run = dget (idx_origin b) run"

definition record_key :: "idx_row \<Rightarrow> string \<times> int" where
  "record_key r = (r_run r, r_seq r)"

definition index_record ::
  "index \<Rightarrow> string \<Rightarrow> int \<Rightarrow> json \<Rightarrow> string \<Rightarrow> json \<Rightarrow> json \<Rightarrow> json \<Rightarrow> json \<Rightarrow> index \<times> index_status" where
  "index_record b run sq prv link kind ts plan fs =
     (let (rs, new) = insert_ignore record_key
            \<lparr>r_run = run, r_seq = sq, r_prev = prv, r_link = link, r_kind = kind, r_ts = ts, r_plan = plan,
             r_fields = store_canon fs\<rparr> (idx_record b)
      in (b \<lparr>idx_record := rs\<rparr>, if new then Indexed else DuplicateRow))"

definition decision_link :: "(string \<Rightarrow> string) \<Rightarrow> json \<Rightarrow> string" where
  "decision_link H summary = digest H (link_of (JObj [(''type'', JStr ''decision''), (''fields'', summary),
     (''run_id'', jget summary ''run_id''), (''seq'', JInt (- 1))]))"

definition index_decision :: "(string \<Rightarrow> string) \<Rightarrow> index \<Rightarrow> json \<Rightarrow> index \<times> index_status" where
  "index_decision H b summary =
     (b \<lparr>idx_decision := idx_decision b @
         [\<lparr>d_run = jget summary ''run_id'', d_ts = jget_or summary ''ts'' (JStr []),
           d_link = decision_link H summary, d_fields = store_canon summary\<rparr>]\<rparr>, Indexed)"

definition record_values :: "index \<Rightarrow> string \<Rightarrow> string \<Rightarrow> string \<Rightarrow> string \<Rightarrow> json \<Rightarrow> index \<times> index_status" where
  "record_values b run step ts sha blob =
     (let (rs, new) = insert_ignore (\<lambda>r. (v_run r, v_step r))
            \<lparr>v_run = run, v_step = step, v_ts = ts, v_sha = sha, v_blob = store_canon blob\<rparr> (run_values b)
      in (b \<lparr>run_values := rs\<rparr>, if new then Indexed else DuplicateRow))"

definition get_values ::
  "(string \<Rightarrow> json option) \<Rightarrow> index \<Rightarrow> string \<Rightarrow> (string \<times> string \<times> string \<times> json) list res" where
  "get_values loads b run =
     mapR (\<lambda>r. bindR (loads_res loads (v_blob r)) (\<lambda>j. Inr (v_step r, v_ts r, v_sha r, j)))
       (sort_key v_step (filter (\<lambda>r. v_run r = run) (run_values b)))"

definition rows_of :: "index \<Rightarrow> string \<Rightarrow> idx_row list" where
  "rows_of b run = sort_key r_seq (filter (\<lambda>r. r_run r = run) (idx_record b))"

definition rows :: "(string \<Rightarrow> json option) \<Rightarrow> index \<Rightarrow> string \<Rightarrow> (idx_row \<times> json) list res" where
  "rows loads b run = mapR (\<lambda>r. bindR (loads_res loads (r_fields r)) (\<lambda>j. Inr (r, j))) (rows_of b run)"

definition head :: "index \<Rightarrow> string \<Rightarrow> (int \<times> string) option" where
  "head b run = (case rev (rows_of b run) of [] \<Rightarrow> None | r # _ \<Rightarrow> Some (r_seq r, r_link r))"

definition run_ids :: "index \<Rightarrow> string list" where
  "run_ids b = sort (remdups (map r_run (idx_record b)))"

definition reset :: "index \<Rightarrow> index" where
  "reset b = b \<lparr>idx_record := [], idx_decision := [], idx_origin := [], run_values := []\<rparr>"

section \<open>The shared budget\<close>

definition budget_sum :: "string list \<Rightarrow> money res" where
  "budget_sum deltas =
     foldR (\<lambda>bal d. bindR (money_of (AStr d) ''CREDITS'') (\<lambda>m. money_add bal m)) (Mny 0 ''CREDITS'') deltas"

definition actor_deltas :: "index \<Rightarrow> string \<Rightarrow> string list" where
  "actor_deltas b actor = map b_delta (filter (\<lambda>r. b_actor r = actor) (budget_ledger b))"

definition budget_balance :: "index \<Rightarrow> string \<Rightarrow> money res" where
  "budget_balance b actor = budget_sum (actor_deltas b actor)"

definition budget_seen :: "index \<Rightarrow> string \<Rightarrow> string \<Rightarrow> bool" where
  "budget_seen b actor idem \<longleftrightarrow> (\<exists>r \<in> set (budget_ledger b). b_actor r = actor \<and> b_idem r = idem)"

definition budget_insert :: "index \<Rightarrow> string \<Rightarrow> string \<Rightarrow> string \<Rightarrow> string \<Rightarrow> index" where
  "budget_insert b actor delta memo idem =
     b \<lparr>budget_ledger := budget_ledger b @ [\<lparr>b_actor = actor, b_delta = delta, b_memo = memo, b_idem = idem\<rparr>]\<rparr>"

definition budget_post :: "index \<Rightarrow> string \<Rightarrow> money \<Rightarrow> string \<Rightarrow> string \<Rightarrow> (index \<times> bool \<times> string) res" where
  "budget_post b actor delta memo idem =
     (let dup = budget_seen b actor idem;
          b' = (if dup then b else budget_insert b actor (amount_str delta) memo idem)
      in bindR (budget_balance b' actor) (\<lambda>bal. Inr (b', \<not> dup, amount_str bal)))"

record debit_answer =
  d_ok :: bool
  d_duplicate :: bool
  d_balance :: string

definition budget_debit_atomic :: "index \<Rightarrow> string \<Rightarrow> money \<Rightarrow> string \<Rightarrow> (index \<times> debit_answer) res" where
  "budget_debit_atomic b actor price idem =
     bindR (budget_balance b actor) (\<lambda>bal.
       if budget_seen b actor idem then Inr (b, \<lparr>d_ok = True, d_duplicate = True, d_balance = amount_str bal\<rparr>)
       else bindR (money_lt bal price) (\<lambda>short.
         if short then Inr (b, \<lparr>d_ok = False, d_duplicate = False, d_balance = amount_str bal\<rparr>)
         else bindR (money_neg price) (\<lambda>n.
              bindR (money_sub bal price) (\<lambda>left.
                Inr (budget_insert b actor (amount_str n) (''usage:'' @ idem) idem,
                     \<lparr>d_ok = True, d_duplicate = False, d_balance = amount_str left\<rparr>)))))"

definition budget_rows :: "index \<Rightarrow> string \<Rightarrow> bud_row list" where
  "budget_rows b actor = filter (\<lambda>r. b_actor r = actor) (budget_ledger b)"

section \<open>The durable tier\<close>

text \<open>Postgres: inert until a connection is configured; then the same statements.\<close>

record pg_config =
  pg_dsn_file :: string
  pg_dsn :: string

definition pg_configured :: "pg_config \<Rightarrow> bool" where
  "pg_configured c \<longleftrightarrow> pg_dsn_file c \<noteq> [] \<or> pg_dsn c \<noteq> []"

definition pg_index_record ::
  "pg_config \<Rightarrow> index \<Rightarrow> string \<Rightarrow> int \<Rightarrow> json \<Rightarrow> string \<Rightarrow> json \<Rightarrow> json \<Rightarrow> json \<Rightarrow> json \<Rightarrow> index \<times> index_status" where
  "pg_index_record c b run sq prv link kind ts plan fs =
     (if pg_configured c then index_record b run sq prv link kind ts plan fs else (b, Unconfigured))"

definition pg_record_values ::
  "pg_config \<Rightarrow> index \<Rightarrow> string \<Rightarrow> string \<Rightarrow> string \<Rightarrow> string \<Rightarrow> json \<Rightarrow> index \<times> index_status" where
  "pg_record_values c b run step ts sha blob =
     (if pg_configured c then record_values b run step ts sha blob else (b, Unconfigured))"

definition pg_head :: "pg_config \<Rightarrow> index \<Rightarrow> string \<Rightarrow> (int \<times> string) option" where
  "pg_head c b run = (if pg_configured c then head b run else None)"

text \<open>The exact numeric sum of the column.\<close>

definition pg_sum :: "index \<Rightarrow> string \<Rightarrow> money res" where
  "pg_sum b actor =
     bindR (mapR (\<lambda>s. case decimal_of_str s of Some d \<Rightarrow> Inr d | None \<Rightarrow> Inl RuntimeError) (actor_deltas b actor)) (\<lambda>ds.
       money_of (ADecimal (sum_list ds)) ''CREDITS'')"

definition pg_budget_balance :: "pg_config \<Rightarrow> index \<Rightarrow> string \<Rightarrow> money option res" where
  "pg_budget_balance c b actor =
     (if \<not> pg_configured c then Inr None else bindR (pg_sum b actor) (\<lambda>m. Inr (Some m)))"

definition pg_set_origin :: "pg_config \<Rightarrow> index \<Rightarrow> string \<Rightarrow> string \<Rightarrow> index" where
  "pg_set_origin c b run plan = (if pg_configured c then set_origin b run plan else b)"

definition pg_get_origin :: "pg_config \<Rightarrow> index \<Rightarrow> string \<Rightarrow> string option" where
  "pg_get_origin c b run = (if pg_configured c then get_origin b run else None)"

definition pg_index_decision :: "(string \<Rightarrow> string) \<Rightarrow> pg_config \<Rightarrow> index \<Rightarrow> json \<Rightarrow> index \<times> index_status" where
  "pg_index_decision H c b summary = (if pg_configured c then index_decision H b summary else (b, Unconfigured))"

definition pg_get_values ::
  "(string \<Rightarrow> json option) \<Rightarrow> pg_config \<Rightarrow> index \<Rightarrow> string \<Rightarrow> (string \<times> string \<times> string \<times> json) list res" where
  "pg_get_values loads c b run = (if pg_configured c then get_values loads b run else Inr [])"

definition pg_rows :: "(string \<Rightarrow> json option) \<Rightarrow> pg_config \<Rightarrow> index \<Rightarrow> string \<Rightarrow> (idx_row \<times> json) list res" where
  "pg_rows loads c b run = (if pg_configured c then rows loads b run else Inr [])"

definition pg_run_ids :: "pg_config \<Rightarrow> index \<Rightarrow> string list" where
  "pg_run_ids c b = (if pg_configured c then run_ids b else [])"

definition pg_reset :: "pg_config \<Rightarrow> index \<Rightarrow> index" where
  "pg_reset c b = (if pg_configured c then reset b else b)"

definition pg_budget_rows :: "pg_config \<Rightarrow> index \<Rightarrow> string \<Rightarrow> bud_row list" where
  "pg_budget_rows c b actor = (if pg_configured c then budget_rows b actor else [])"

text \<open>The writing budget calls do not ask whether the backend is configured: without a connection they raise.\<close>

definition pg_budget_post ::
  "pg_config \<Rightarrow> index \<Rightarrow> string \<Rightarrow> money \<Rightarrow> string \<Rightarrow> string \<Rightarrow> (index \<times> bool \<times> string) res" where
  "pg_budget_post c b actor delta memo idem =
     (if \<not> pg_configured c then Inl AttributeError
      else let dup = budget_seen b actor idem;
               b' = (if dup then b else budget_insert b actor (amount_str delta) memo idem)
           in bindR (pg_sum b' actor) (\<lambda>bal. Inr (b', \<not> dup, amount_str bal)))"

definition pg_budget_debit_atomic ::
  "pg_config \<Rightarrow> index \<Rightarrow> string \<Rightarrow> money \<Rightarrow> string \<Rightarrow> (index \<times> debit_answer) res" where
  "pg_budget_debit_atomic c b actor price idem =
     (if \<not> pg_configured c then Inl AttributeError
      else bindR (pg_sum b actor) (\<lambda>bal.
        if budget_seen b actor idem then Inr (b, \<lparr>d_ok = True, d_duplicate = True, d_balance = amount_str bal\<rparr>)
        else bindR (money_lt bal price) (\<lambda>short.
          if short then Inr (b, \<lparr>d_ok = False, d_duplicate = False, d_balance = amount_str bal\<rparr>)
          else bindR (money_neg price) (\<lambda>n.
               bindR (money_sub bal price) (\<lambda>left.
                 Inr (budget_insert b actor (amount_str n) (''usage:'' @ idem) idem,
                      \<lparr>d_ok = True, d_duplicate = False, d_balance = amount_str left\<rparr>))))))"

datatype backend_tier = Sqlite | Postgres

definition make_backend :: "pg_config \<Rightarrow> backend_tier" where
  "make_backend c = (if pg_dsn_file c \<noteq> [] \<or> pg_dsn c \<noteq> [] then Postgres else Sqlite)"

section \<open>The index\<close>

lemma insert_ignore_keys: "fst (insert_ignore key r rs) = rs' \<Longrightarrow> key ` set rs' = insert (key r) (key ` set rs)"
  by (auto simp: insert_ignore_def split: if_splits)

lemma insert_ignore_distinct: "distinct (map key rs) \<Longrightarrow> distinct (map key (fst (insert_ignore key r rs)))"
  by (auto simp: insert_ignore_def)

lemma insert_ignore_again: "insert_ignore key r (fst (insert_ignore key r rs)) = (fst (insert_ignore key r rs), False)"
  by (auto simp: insert_ignore_def)

definition keys_unique :: "index \<Rightarrow> bool" where
  "keys_unique b \<longleftrightarrow> distinct (map record_key (idx_record b)) \<and> distinct (map (\<lambda>r. (v_run r, v_step r)) (run_values b))
     \<and> distinct (map fst (idx_origin b))"

lemma index_record_unique: "keys_unique b \<Longrightarrow> keys_unique (fst (index_record b run sq prv link kind ts plan fs))"
  using insert_ignore_distinct [of record_key "idx_record b"]
  by (simp add: index_record_def keys_unique_def Let_def split_beta)

lemma replay_is_noop:
  "index_record b run sq prv link kind ts plan fs = (b', st) \<Longrightarrow>
     index_record b' run sq prv' link' kind' ts' plan' fs' = (b', DuplicateRow)"
  by (auto simp: index_record_def Let_def insert_ignore_def record_key_def split_beta split: if_splits)

lemma rows_sorted: "sorted (map r_seq (rows_of b run))"
  by (simp add: rows_of_def)

lemma rows_set: "set (rows_of b run) = {r \<in> set (idx_record b). r_run r = run}"
  by (simp add: rows_of_def)

lemma head_max:
  assumes "head b run = Some (s, d)"
  shows "\<forall>r \<in> set (rows_of b run). r_seq r \<le> s"
proof -
  from assms obtain r rs where r: "rev (rows_of b run) = r # rs" "r_seq r = s"
    by (auto simp: head_def split: list.splits)
  then have "rows_of b run = rev rs @ [r]" by (metis rev.simps(2) rev_rev_ident)
  then show ?thesis using rows_sorted [of b run] r(2) by (auto simp: sorted_append)
qed

section \<open>The shared budget is never overdrawn\<close>

text \<open>The value of a cell of the ledger, in units; the cells the operations write are texts of amounts.\<close>

definition cell_units :: "string \<Rightarrow> int" where
  "cell_units d = (case money_of (AStr d) ''CREDITS'' of Inr m \<Rightarrow> units m | Inl _ \<Rightarrow> 0)"

definition cell_ok :: "string \<Rightarrow> bool" where
  "cell_ok d \<longleftrightarrow> (\<exists>u. d = show_units u \<and> \<bar>u\<bar> < 10 ^ 34)"

lemma cell_show: "\<bar>u\<bar> < 10 ^ 34 \<Longrightarrow> money_of (AStr (show_units u)) ''CREDITS'' = Inr (Mny u ''CREDITS'')"
  using money_of_str [of "Mny u ''CREDITS''"] by (simp add: amount_str_def)

lemma cell_units_show [simp]: "\<bar>u\<bar> < 10 ^ 34 \<Longrightarrow> cell_units (show_units u) = u"
  by (simp add: cell_units_def cell_show)

lemma budget_sum_from:
  assumes "foldR (\<lambda>bal d. bindR (money_of (AStr d) ''CREDITS'') (\<lambda>m. money_add bal m)) (Mny k ''CREDITS'') ds = Inr m"
  shows "m = Mny (k + sum_list (map cell_units ds)) ''CREDITS''"
  using assms
proof (induction ds arbitrary: k)
  case (Cons d ds)
  from Cons.prems obtain x y where x: "money_of (AStr d) ''CREDITS'' = Inr x" and y: "money_add (Mny k ''CREDITS'') x = Inr y"
    and rest: "foldR (\<lambda>bal d. bindR (money_of (AStr d) ''CREDITS'') (\<lambda>m. money_add bal m)) y ds = Inr m"
    by (auto simp: bindR_eq_Inr)
  have "y = Mny (k + cell_units d) ''CREDITS''"
    using y money_of_bounded [OF x] x by (auto simp: money_add_eq cell_units_def split: if_splits)
  with Cons.IH [of "k + cell_units d"] rest show ?case by simp
qed simp

lemma budget_balance_units:
  "budget_balance b a = Inr m \<Longrightarrow> m = Mny (sum_list (map cell_units (actor_deltas b a))) ''CREDITS''"
  using budget_sum_from [of 0] by (simp add: budget_balance_def budget_sum_def)

definition actor_units :: "index \<Rightarrow> string \<Rightarrow> int" where
  "actor_units b a = sum_list (map cell_units (actor_deltas b a))"

lemma actor_units_insert: "actor_units (budget_insert b a d memo i) a' = actor_units b a' + (if a' = a then cell_units d else 0)"
  by (simp add: actor_units_def actor_deltas_def budget_insert_def)

definition solvent :: "index \<Rightarrow> bool" where
  "solvent b \<longleftrightarrow> (\<forall>a. 0 \<le> actor_units b a) \<and> (\<forall>r \<in> set (budget_ledger b). cell_ok (b_delta r))"

lemma solvent_empty: "solvent empty_index"
  by (simp add: solvent_def empty_index_def actor_units_def actor_deltas_def)

lemma solvent_insert:
  assumes "solvent b" and "\<bar>u\<bar> < 10 ^ 34" and "0 \<le> actor_units b a + u"
  shows "solvent (budget_insert b a (show_units u) memo i)"
proof -
  have "cell_ok (show_units u)" using assms(2) by (auto simp: cell_ok_def)
  moreover have "\<forall>a'. 0 \<le> actor_units (budget_insert b a (show_units u) memo i) a'"
    using assms by (simp add: actor_units_insert solvent_def)
  ultimately show ?thesis using assms(1) by (simp add: solvent_def budget_insert_def)
qed

datatype budget_op = SeedOp string money string string | DebitOp string money string

text \<open>One transaction of any instance; a transaction that raises is rolled back.\<close>

definition budget_step :: "index \<Rightarrow> budget_op \<Rightarrow> index" where
  "budget_step b x =
     (case x of
        SeedOp a m memo i \<Rightarrow> (case budget_post b a m memo i of Inr (b', _, _) \<Rightarrow> b' | Inl _ \<Rightarrow> b)
      | DebitOp a p i \<Rightarrow> (case budget_debit_atomic b a p i of Inr (b', _) \<Rightarrow> b' | Inl _ \<Rightarrow> b))"

definition sane_op :: "budget_op \<Rightarrow> bool" where
  "sane_op x = (case x of SeedOp a m memo i \<Rightarrow> 0 \<le> units m \<and> units m < 10 ^ 34
                | DebitOp a p i \<Rightarrow> 0 \<le> units p \<and> units p < 10 ^ 28)"

lemma budget_step_solvent:
  assumes "solvent b" and "sane_op x"
  shows "solvent (budget_step b x)"
proof (cases x)
  case (SeedOp a m memo i)
  then have m: "\<bar>units m\<bar> < 10 ^ 34" "0 \<le> units m" using assms(2) by (simp_all add: sane_op_def)
  have "0 \<le> actor_units b a + units m" using assms(1) m(2) by (simp add: solvent_def)
  then have "solvent (budget_insert b a (amount_str m) memo i)"
    using solvent_insert [OF assms(1) m(1)] by (simp add: amount_str_def)
  then show ?thesis using SeedOp assms(1)
    by (auto simp: budget_step_def budget_post_def Let_def bindR_def split: sum.splits if_splits)
next
  case (DebitOp a p i)
  then have p: "\<bar>units p\<bar> < 10 ^ 28" "0 \<le> units p" using assms(2) by (simp_all add: sane_op_def)
  show ?thesis
  proof (cases "budget_debit_atomic b a p i")
    case (Inl e)
    then show ?thesis using DebitOp assms(1) by (simp add: budget_step_def)
  next
    case (Inr r)
    then obtain bal where bal: "budget_balance b a = Inr bal" by (auto simp: budget_debit_atomic_def bindR_eq_Inr)
    have u: "units bal = actor_units b a" using budget_balance_units [OF bal] by (simp add: actor_units_def)
    consider "fst r = b" | "units p \<le> units bal" "fst r = budget_insert b a (show_units (- units p)) (''usage:'' @ i) i"
      using Inr bal money_neg_eq [OF p(1)]
      by (auto simp: budget_debit_atomic_def bindR_eq_Inr money_lt_eq amount_str_def split: if_splits)
    then have "solvent (fst r)"
    proof cases
      case 1
      then show ?thesis using assms(1) by simp
    next
      case 2
      have "\<bar>- units p\<bar> < 10 ^ 34" using p(1) by simp
      then show ?thesis using solvent_insert [OF assms(1), of "- units p" a] 2 u by simp
    qed
    then show ?thesis using DebitOp Inr by (simp add: budget_step_def split_beta)
  qed
qed

lemma pg_balance_agrees:
  assumes "solvent b" and "pg_configured c" and "budget_balance b a = Inr m"
  shows "pg_budget_balance c b a = Inr (Some m)"
proof -
  have ok: "\<forall>d \<in> set (actor_deltas b a). cell_ok d" using assms(1) by (auto simp: solvent_def actor_deltas_def)
  have one: "decimal_of_str d = Some (of_int (cell_units d) / 10000)" if "cell_ok d" for d
    using that decimal_of_show_units by (auto simp: cell_ok_def)
  have "mapR (\<lambda>s. case decimal_of_str s of Some d \<Rightarrow> Inr d | None \<Rightarrow> Inl RuntimeError) (actor_deltas b a)
      = Inr (map (\<lambda>d. of_int (cell_units d) / 10000) (actor_deltas b a))"
    by (rule mapR_total) (use ok one in auto)
  moreover have sm: "sum_list (map (\<lambda>d. of_int (cell_units d) / 10000 :: rat) ds) = of_int (sum_list (map cell_units ds)) / 10000" for ds
    by (induction ds) (simp_all add: add_divide_distrib)
  moreover have bd: "\<bar>sum_list (map cell_units (actor_deltas b a))\<bar> < 10 ^ 34"
  proof -
    have "m = Mny (sum_list (map cell_units (actor_deltas b a))) ''CREDITS''" by (rule budget_balance_units [OF assms(3)])
    moreover have "\<bar>units m\<bar> < 10 ^ 34"
    proof (cases "actor_deltas b a" rule: rev_cases)
      case Nil
      then show ?thesis using assms(3) by (auto simp: budget_balance_def budget_sum_def)
    next
      case (snoc ds d)
      then show ?thesis using assms(3)
        by (auto simp: budget_balance_def budget_sum_def foldR_append bindR_eq_Inr money_add_eq split: if_splits)
    qed
    ultimately show ?thesis by simp
  qed
  moreover have "money_of (ADecimal (of_int (sum_list (map cell_units (actor_deltas b a))) / 10000)) ''CREDITS'' = Inr m"
    using budget_balance_units [OF assms(3)] quantize4_units [OF bd] by (simp add: money_of_def to_decimal_def)
  ultimately show ?thesis using assms(2) unfolding pg_budget_balance_def pg_sum_def by (simp only: sm bindR_Inr not_not if_False simp_thms)
qed

text \<open>
  C25: the shared budget is never overdrawn. Whatever credits and debits any number of instances
  commit in whatever order, no actor's balance is negative, and the durable tier, once configured,
  reports the same balance from its exact numeric sum; a debit whose key has been seen, or whose
  price exceeds the balance, writes nothing.
\<close>

theorem shared_budget_never_overdrawn:
  assumes "\<forall>x \<in> set ops. sane_op x" and "b = foldl budget_step empty_index ops" and "budget_balance b a = Inr m"
  shows "0 \<le> units m \<and> (pg_configured c \<longrightarrow> pg_budget_balance c b a = Inr (Some m))
     \<and> (\<forall>i p b' r. (budget_seen b a i \<or> units m < units p) \<longrightarrow> budget_debit_atomic b a p i = Inr (b', r) \<longrightarrow> b' = b)"
proof -
  have "solvent (foldl budget_step b0 ops)" if "solvent b0" for b0
    using that assms(1) by (induction ops arbitrary: b0) (auto simp: budget_step_solvent)
  then have s: "solvent b" using solvent_empty assms(2) by simp
  have "units m = actor_units b a" using budget_balance_units [OF assms(3)] by (simp add: actor_units_def)
  moreover have "b' = b" if "budget_seen b a i \<or> units m < units p" "budget_debit_atomic b a p i = Inr (b', r)" for i p b' r
    using that assms(3) by (auto simp: budget_debit_atomic_def bindR_eq_Inr money_lt_eq split: if_splits)
  ultimately show ?thesis using s pg_balance_agrees [OF s _ assms(3)] by (auto simp: solvent_def)
qed

theorem shared_budget_never_overdrawn_witness:
  "budget_balance (foldl budget_step empty_index [SeedOp ''a'' (Mny 30000 ''CREDITS'') ''m'' ''i'']) ''a'' = Inr (Mny 30000 ''CREDITS'')
   \<and> (0::int) \<le> 30000"
proof -
  have c: "money_of (AStr (show_units 30000)) ''CREDITS'' = Inr (Mny 30000 ''CREDITS'')" by (rule cell_show) simp
  have b: "budget_balance (foldl budget_step empty_index [SeedOp ''a'' (Mny 30000 ''CREDITS'') ''m'' ''i'']) ''a'' = Inr (Mny 30000 ''CREDITS'')"
    by (simp add: budget_step_def budget_post_def Let_def budget_seen_def empty_index_def budget_insert_def budget_balance_def
        budget_sum_def actor_deltas_def amount_str_def c money_add_eq)
  from shared_budget_never_overdrawn [OF _ refl b] b show ?thesis by (simp add: sane_op_def)
qed

end
