(* ===== verification/Mirror.thy ===== *)
theory Mirror
  imports Store Lease
begin

text \<open>
  The write path of the provenance store: the per-run chain files that are the artifact of record
  (\<open>src/infra/store/chainstore.py\<close>), the queue whose single worker mirrors snapshots into the
  chain and then the index (\<open>src/infra/store/mirror.py\<close>), and the gate the active-passive mode of
  \<open>src/infra/govern/lease.py\<close> puts before it. The digest of a plan is a text, as the server writes it; a record
  with another value there is queued with the empty text.
\<close>

section \<open>Chain files\<close>

record files =
  run_chains :: "(string, string) dict"
  decisions_chain :: string

definition store_schema :: int where "store_schema = current_major"

definition chain_file :: "files \<Rightarrow> string \<Rightarrow> string" where
  "chain_file fs run = (case dget (run_chains fs) run of Some t \<Rightarrow> t | None \<Rightarrow> [])"

definition chain_link_digest :: "(string \<Rightarrow> string) \<Rightarrow> json \<Rightarrow> string" where
  "chain_link_digest H e = digest H (link_of e)"

text \<open>The index columns of a chain record: \<open>a or b\<close> is the first truthy value.\<close>

record columns =
  c_run :: json
  c_seq :: json
  c_prev :: json
  c_link :: string
  c_kind :: json
  c_ts :: json
  c_plan :: json
  c_fields :: json

definition py_or :: "json \<Rightarrow> json \<Rightarrow> json" where
  "py_or a b = (if truthy a then a else b)"

definition record_columns :: "(string \<Rightarrow> string) \<Rightarrow> json \<Rightarrow> columns" where
  "record_columns H e =
     (let f = py_or (jget_or e ''fields'' (JObj [])) (JObj [])
      in \<lparr>c_run = jget e ''run_id'', c_seq = jget e ''seq'', c_prev = jget e ''prev'', c_link = chain_link_digest H e,
          c_kind = jget_or e ''kind'' (jget_or e ''type'' (JStr [])),
          c_ts = py_or (jget_or f ''ts'' (JStr [])) (jget_or e ''ts'' (JStr [])),
          c_plan = jget_or e ''plan_sha'' (JStr []), c_fields = f\<rparr>)"

text \<open>Appending to a file that is empty or not there first writes the genesis.\<close>

definition genesis_if_empty ::
  "(string \<Rightarrow> string) \<Rightarrow> (string \<Rightarrow> json option) \<Rightarrow> string \<Rightarrow> string \<Rightarrow> string \<Rightarrow> string res" where
  "genesis_if_empty H loads f run plan =
     (if f = [] then bindR (durable_append H loads f (genesis run plan store_schema) store_schema) (\<lambda>r. Inr (fst r))
      else Inr f)"

definition append_to_chain ::
  "(string \<Rightarrow> string) \<Rightarrow> (string \<Rightarrow> json option) \<Rightarrow> string \<Rightarrow> string \<Rightarrow> string \<Rightarrow> json \<Rightarrow> string \<times> json res" where
  "append_to_chain H loads f run plan e =
     (case genesis_if_empty H loads f run plan of
        Inl x \<Rightarrow> (f, Inl x)
      | Inr g \<Rightarrow> (case durable_append H loads g e store_schema of
                    Inl x \<Rightarrow> (g, Inl x)
                  | Inr (g', e') \<Rightarrow> (g', Inr e')))"

definition append_record ::
  "(string \<Rightarrow> string) \<Rightarrow> (string \<Rightarrow> json option) \<Rightarrow> files \<Rightarrow> string \<Rightarrow> string \<Rightarrow> string \<Rightarrow> json \<Rightarrow> files \<times> json res" where
  "append_record H loads fs run plan kind flds =
     (let (f, r) = append_to_chain H loads (chain_file fs run) run plan
            (JObj [(''type'', JStr ''record''), (''kind'', JStr kind), (''run_id'', JStr run), (''plan_sha'', JStr plan),
                   (''fields'', flds)])
      in (fs \<lparr>run_chains := dput run f (run_chains fs)\<rparr>, r))"

definition append_decision ::
  "(string \<Rightarrow> string) \<Rightarrow> (string \<Rightarrow> json option) \<Rightarrow> files \<Rightarrow> json \<Rightarrow> files \<times> json res" where
  "append_decision H loads fs summary =
     (let (f, r) = append_to_chain H loads (decisions_chain fs) ''decisions-feed'' ''decisions''
            (JObj [(''type'', JStr ''decision''), (''run_id'', jget summary ''run_id''),
                   (''plan_sha'', jget_or summary ''plan_sha'' (JStr [])), (''kind'', JStr ''decision''), (''fields'', summary)])
      in (fs \<lparr>decisions_chain := f\<rparr>, r))"

definition read_run ::
  "(string \<Rightarrow> json option) \<Rightarrow> files \<Rightarrow> string \<Rightarrow> (json \<times> json \<times> truncation option) res" where
  "read_run loads fs run =
     (case dget (run_chains fs) run of None \<Rightarrow> Inr (JList [], JInt store_schema, None)
      | Some t \<Rightarrow> read_chain loads t True)"

definition chain_run_ids :: "files \<Rightarrow> string list" where
  "chain_run_ids fs = sort (remdups (map fst (run_chains fs)))"

section \<open>The mirror\<close>

definition safe_run_keys :: "string list" where
  "safe_run_keys = [''ts'', ''skill'', ''perk'', ''decision'', ''destructive'', ''approved'', ''plan_sha'', ''var_keys'',
                    ''principal'', ''cost'', ''snippet_shas'', ''traceparent'']"

definition safe_event_keys :: "string list" where
  "safe_event_keys = [''ts'', ''type'', ''step'', ''status'', ''exit'', ''reason'', ''span'', ''authority'', ''keyid'',
                      ''snippet_shas'', ''meter'', ''traceparent'', ''values_sha'']"

definition project :: "string list \<Rightarrow> json \<Rightarrow> json" where
  "project keys r = JObj (map (\<lambda>k. (k, jget r k)) (filter (jhas r) keys))"

definition value_free_run :: "json \<Rightarrow> json" where "value_free_run r = project safe_run_keys r"
definition value_free_event :: "json \<Rightarrow> json" where "value_free_event e = project safe_event_keys e"

datatype job =
    RecordJob string string string json "string option"
  | DecisionJob json
  | ValuesJob string string string string json

record mirror =
  enabled :: bool
  max_queue :: nat
  jobs :: "job list"
  blocked :: nat
  attempts :: "job list"

definition put :: "mirror \<Rightarrow> job \<Rightarrow> mirror" where
  "put m j = (if \<not> enabled m then m
              else if max_queue m \<le> length (jobs m) \<and> 0 < max_queue m then m
              else m \<lparr>jobs := jobs m @ [j]\<rparr>)"

definition record_run :: "mirror \<Rightarrow> string \<Rightarrow> json \<Rightarrow> mirror" where
  "record_run m run r =
     (let plan = (case jget_or r ''plan_sha'' (JStr []) of JStr p \<Rightarrow> p | _ \<Rightarrow> [])
      in put m (RecordJob run plan ''create'' (value_free_run r) (Some plan)))"

definition record_event :: "mirror \<Rightarrow> string \<Rightarrow> string \<Rightarrow> json \<Rightarrow> mirror" where
  "record_event m run plan e = put m (RecordJob run plan ''event'' (value_free_event e) None)"

definition decision :: "mirror \<Rightarrow> json \<Rightarrow> mirror" where
  "decision m summary = put m (DecisionJob summary)"

definition mirror_values :: "mirror \<Rightarrow> string \<Rightarrow> string \<Rightarrow> string \<Rightarrow> string \<Rightarrow> json \<Rightarrow> mirror" where
  "mirror_values m run step ts sha blob = put m (ValuesJob run step ts sha blob)"

definition record_blocked :: "mirror \<Rightarrow> job \<Rightarrow> mirror" where
  "record_blocked m j = m \<lparr>blocked := Suc (blocked m), attempts := attempts m @ [j]\<rparr>"

definition index_columns :: "index \<Rightarrow> columns \<Rightarrow> index" where
  "index_columns b c =
     (case (c_run c, c_seq c) of
        (JStr run, JInt sq) \<Rightarrow> fst (index_record b run sq (c_prev c) (c_link c) (c_kind c) (c_ts c) (c_plan c) (c_fields c))
      | _ \<Rightarrow> b)"

text \<open>One job of the worker: the chain first, then the index; an exception leaves what was done.\<close>

definition write_job ::
  "(string \<Rightarrow> string) \<Rightarrow> (string \<Rightarrow> json option) \<Rightarrow> files \<times> index \<Rightarrow> job \<Rightarrow> files \<times> index" where
  "write_job H loads st j =
     (case st of (fs, b) \<Rightarrow>
      (case j of
         DecisionJob s \<Rightarrow>
           (case append_decision H loads fs s of
              (fs', Inl _) \<Rightarrow> (fs', b)
            | (fs', Inr _) \<Rightarrow> (fs', fst (index_decision H b s)))
       | ValuesJob run step ts sha blob \<Rightarrow> (fs, fst (record_values b run step ts sha blob))
       | RecordJob run plan kind flds origin \<Rightarrow>
           (case append_record H loads fs run plan kind flds of
              (fs', Inl _) \<Rightarrow> (fs', b)
            | (fs', Inr e) \<Rightarrow>
                (let b' = (case origin of None \<Rightarrow> b | Some p \<Rightarrow> set_origin b run p)
                 in (fs', index_columns b' (record_columns H e))))))"

definition drain_one ::
  "(string \<Rightarrow> string) \<Rightarrow> (string \<Rightarrow> json option) \<Rightarrow> bool option \<Rightarrow> mirror \<Rightarrow> files \<times> index \<Rightarrow> mirror \<times> (files \<times> index)" where
  "drain_one H loads guard m st =
     (case jobs m of
        [] \<Rightarrow> (m, st)
      | j # js \<Rightarrow>
          let m' = m \<lparr>jobs := js\<rparr>
          in if guard = Some False then (record_blocked m' j, st) else (m', write_job H loads st j))"

section \<open>Active and passive instances\<close>

text \<open>
  \<open>become_active\<close>: the gate is the manager's \<open>held\<close> from then on, whether or not the lease was
  acquired; \<open>None\<close> is a poll that does not return.
\<close>

definition become_active ::
  "(lease_table \<Rightarrow> string \<Rightarrow> string \<Rightarrow> rat \<Rightarrow> rat \<Rightarrow> lease_table \<times> acquire_answer) \<Rightarrow> (nat \<Rightarrow> lease_table \<Rightarrow> lease_table)
   \<Rightarrow> (nat \<Rightarrow> rat) \<Rightarrow> lease_manager \<Rightarrow> rat \<Rightarrow> lease_table \<Rightarrow> (lease_table \<times> bool) option \<times> lease_manager" where
  "become_active acq others clock m timeout t = (acquire_blocking acq others clock m timeout t, m)"

definition gate :: "lease_manager option \<Rightarrow> lease_table \<Rightarrow> rat \<Rightarrow> bool option" where
  "gate mgr t now = map_option (\<lambda>m. held t m now) mgr"

record ha_config =
  ha_enabled :: bool
  lease_ttl :: "rat option"
  instance_id :: "string option"

definition maybe_enable_ha :: "ha_config \<Rightarrow> bool \<Rightarrow> string \<Rightarrow> lease_manager option" where
  "maybe_enable_ha cfg store_enabled fresh_id =
     (if \<not> ha_enabled cfg \<or> \<not> store_enabled then None
      else Some \<lparr>m_lease = active_lease,
                 m_holder = (case instance_id cfg of Some i \<Rightarrow> if i = [] then fresh_id else i | None \<Rightarrow> fresh_id),
                 m_ttl = (case lease_ttl cfg of Some x \<Rightarrow> x | None \<Rightarrow> default_ttl)\<rparr>)"

section \<open>Nothing but allowed keys reaches the chain\<close>

lemma project_keys: "fst ` set (obj_members (project keys r)) \<subseteq> set keys"
  by (auto simp: project_def obj_members_def)

lemma project_get: "jget (project keys r) k = (if k \<in> set keys \<and> jhas r k then jget r k else JNull)"
proof -
  have "map_of (map (\<lambda>k. (k, jget r k)) xs) k = (if k \<in> set xs then Some (jget r k) else None)" for xs
    by (induction xs) auto
  then show ?thesis by (simp add: project_def jget_JObj)
qed

text \<open>The fields of a job come from an allow-list, for runs and events.\<close>

definition job_clean :: "job \<Rightarrow> bool" where
  "job_clean j = (case j of RecordJob run plan kind flds origin \<Rightarrow>
       is_obj flds \<and> fst ` set (obj_members flds) \<subseteq> set safe_run_keys \<union> set safe_event_keys
     | _ \<Rightarrow> True)"

lemma put_clean: "list_all job_clean (jobs m) \<Longrightarrow> job_clean j \<Longrightarrow> list_all job_clean (jobs (put m j))"
  by (simp add: put_def)

lemma project_clean:
  "job_clean (RecordJob run plan kind (project safe_run_keys r) origin)"
  "job_clean (RecordJob run plan kind (project safe_event_keys r) origin)"
proof -
  have "is_obj (project keys r)" for keys by (simp add: project_def)
  then show "job_clean (RecordJob run plan kind (project safe_run_keys r) origin)"
    "job_clean (RecordJob run plan kind (project safe_event_keys r) origin)"
    using project_keys [of safe_run_keys r] project_keys [of safe_event_keys r] by (auto simp: job_clean_def)
qed

lemma recorders_clean:
  "list_all job_clean (jobs m) \<Longrightarrow> list_all job_clean (jobs (record_run m run r))"
  "list_all job_clean (jobs m) \<Longrightarrow> list_all job_clean (jobs (record_event m run plan e))"
  "list_all job_clean (jobs m) \<Longrightarrow> list_all job_clean (jobs (decision m s))"
  "list_all job_clean (jobs m) \<Longrightarrow> list_all job_clean (jobs (mirror_values m run step ts sha blob))"
  by (simp_all add: record_run_def Let_def record_event_def decision_def mirror_values_def value_free_run_def
      value_free_event_def put_clean project_clean, simp_all add: put_clean job_clean_def)

lemma durable_append_shape:
  assumes "durable_append H loads (write_chain es) r schema = Inr (f', e)"
  shows "f' = write_chain (es @ [e]) \<and> (\<exists>p q. e = jput ''prev'' p (jput ''seq'' q r))"
proof -
  from assms obtain tip n where t: "tail_record loads (write_chain es) = Inr (tip, n)"
    and e: "link_to_tip H tip r schema = Inr e" and f: "f' = heal_and_append (write_chain es) (record_line e) n"
    by (auto simp: durable_append_def bindR_eq_Inr)
  have "complete_part (write_chain es) = write_chain es" using complete_part_torn [of "[]" es] by simp
  then have "n = length (write_chain es)"
    using t by (auto simp: tail_record_reads_tip_lemma tail_reference_def bindR_eq_Inr split: if_splits)
  then have "f' = write_chain (es @ [e])" using f by (simp add: heal_and_append_def write_chain_def)
  moreover have "\<exists>p q. e = jput ''prev'' p (jput ''seq'' q r)"
    using e by (auto simp: link_to_tip_def bindR_eq_Inr split: option.splits if_splits)
  ultimately show ?thesis by blast
qed

definition record_clean :: "json \<Rightarrow> bool" where
  "record_clean e \<longleftrightarrow> fst ` set (obj_members (jget e ''fields'')) \<subseteq> set safe_run_keys \<union> set safe_event_keys"

definition file_clean :: "string \<Rightarrow> bool" where
  "file_clean f \<longleftrightarrow> (\<exists>es. f = write_chain es \<and> list_all record_clean es)"

lemma file_clean_append:
  assumes "file_clean f" and "record_clean r" and "durable_append H loads f r schema = Inr (f', e)"
  shows "file_clean f'"
proof -
  obtain es where es: "f = write_chain es" "list_all record_clean es" using assms(1) by (auto simp: file_clean_def)
  from durable_append_shape [OF assms(3) [unfolded es(1)]]
  obtain p q where f: "f' = write_chain (es @ [e])" and e: "e = jput ''prev'' p (jput ''seq'' q r)" by blast
  have "record_clean e" using assms(2) e by (simp add: record_clean_def)
  then have "list_all record_clean (es @ [e])" using es(2) by simp
  then show ?thesis using f by (auto simp: file_clean_def)
qed

lemma genesis_clean: "record_clean (genesis run plan schema)"
  by (simp add: record_clean_def genesis_def jget_JObj obj_members_def)

lemma append_to_chain_clean:
  assumes "file_clean f" and "record_clean r"
  shows "file_clean (fst (append_to_chain H loads f run plan r))"
proof (cases "genesis_if_empty H loads f run plan")
  case (Inr g)
  then have g: "file_clean g"
    using assms(1) file_clean_append [OF assms(1) genesis_clean]
    by (auto simp: genesis_if_empty_def bindR_eq_Inr split: if_splits)
  show ?thesis
  proof (cases "durable_append H loads g r store_schema")
    case (Inr p)
    then show ?thesis using \<open>genesis_if_empty H loads f run plan = Inr g\<close> file_clean_append [OF g assms(2)]
      by (cases p) (auto simp: append_to_chain_def)
  qed (use Inr g in \<open>simp add: append_to_chain_def\<close>)
qed (use assms(1) in \<open>simp add: append_to_chain_def\<close>)

text \<open>Any instance recording and draining, with the gate open or closed.\<close>

datatype mirror_call =
    CallRun string json
  | CallEvent string string json
  | CallDecision json
  | CallValues string string string string json
  | Drain "bool option"

definition mirror_step ::
  "(string \<Rightarrow> string) \<Rightarrow> (string \<Rightarrow> json option) \<Rightarrow> mirror \<times> (files \<times> index) \<Rightarrow> mirror_call \<Rightarrow> mirror \<times> (files \<times> index)" where
  "mirror_step H loads w c =
     (case c of
        CallRun run r \<Rightarrow> (record_run (fst w) run r, snd w)
      | CallEvent run plan e \<Rightarrow> (record_event (fst w) run plan e, snd w)
      | CallDecision s \<Rightarrow> (decision (fst w) s, snd w)
      | CallValues run step ts sha blob \<Rightarrow> (mirror_values (fst w) run step ts sha blob, snd w)
      | Drain g \<Rightarrow> drain_one H loads g (fst w) (snd w))"

definition world_clean :: "mirror \<times> (files \<times> index) \<Rightarrow> bool" where
  "world_clean w \<longleftrightarrow> list_all job_clean (jobs (fst w)) \<and> (\<forall>run. file_clean (chain_file (fst (snd w)) run))"

lemma write_job_clean:
  assumes "\<forall>run. file_clean (chain_file fs run)" and "job_clean j"
  shows "\<forall>run. file_clean (chain_file (fst (write_job H loads (fs, b) j)) run)"
proof (cases j)
  case (RecordJob run plan kind flds origin)
  let ?r = "JObj [(''type'', JStr ''record''), (''kind'', JStr kind), (''run_id'', JStr run), (''plan_sha'', JStr plan), (''fields'', flds)]"
  have "record_clean ?r" using assms(2) RecordJob by (simp add: record_clean_def job_clean_def jget_JObj)
  then have "file_clean (fst (append_to_chain H loads (chain_file fs run) run plan ?r))"
    by (rule append_to_chain_clean [OF assms(1) [rule_format]])
  moreover have "fst (write_job H loads (fs, b) j) = fst (append_record H loads fs run plan kind flds)"
    using RecordJob by (simp add: write_job_def Let_def split: prod.splits sum.splits)
  ultimately show ?thesis using assms(1)
    by (auto simp: append_record_def Let_def split_beta chain_file_def dget_dput)
next
  case (DecisionJob s)
  have "run_chains (fst (append_decision H loads fs s)) = run_chains fs"
    by (simp add: append_decision_def Let_def split_beta)
  moreover have "fst (write_job H loads (fs, b) j) = fst (append_decision H loads fs s)"
    using DecisionJob by (simp add: write_job_def split: prod.splits sum.splits)
  ultimately show ?thesis using assms(1) by (simp add: chain_file_def)
qed (use assms(1) in \<open>simp add: write_job_def\<close>)

lemma mirror_step_clean: "world_clean w \<Longrightarrow> world_clean (mirror_step H loads w c)"
proof (cases c)
  case (Drain g)
  assume w: "world_clean w"
  obtain m fs b where eq: "w = (m, fs, b)" by (cases w) auto
  show ?thesis
  proof (cases "jobs m")
    case (Cons j js)
    then have j: "job_clean j" "list_all job_clean js" and fc: "\<forall>run. file_clean (chain_file fs run)"
      using w eq by (simp_all add: world_clean_def)
    show ?thesis using Drain eq Cons j fc write_job_clean [OF fc j(1), of H loads b]
      by (simp add: mirror_step_def drain_one_def Let_def world_clean_def record_blocked_def)
  qed (use Drain eq w in \<open>simp add: mirror_step_def drain_one_def\<close>)
qed (auto simp: mirror_step_def world_clean_def recorders_clean)

definition start_mirror :: "nat \<Rightarrow> mirror" where
  "start_mirror n = \<lparr>enabled = True, max_queue = n, jobs = [], blocked = 0, attempts = []\<rparr>"

definition no_files :: files where
  "no_files = \<lparr>run_chains = [], decisions_chain = []\<rparr>"

text \<open>
  C27: a secret cannot ride into a run's artifact of record. Whatever records and events are
  handed to the mirror, with whatever other members, and whatever the worker drains with its gate
  open or closed, every chain file is a sequence of printed records whose fields carry only the
  allow-listed keys; and while the gate is closed a drain writes neither the files nor the index.
\<close>

theorem mirror_is_value_free:
  assumes "foldl (mirror_step H loads) (start_mirror n, no_files, empty_index) calls = (m, fs, b)"
  shows "(\<exists>es. chain_file fs run = write_chain es \<and>
            (\<forall>e \<in> set es. \<forall>k. jhas (jget e ''fields'') k \<longrightarrow> k \<in> set safe_run_keys \<union> set safe_event_keys))
     \<and> snd (drain_one H loads (Some False) m (fs, b)) = (fs, b)"
proof -
  have "world_clean (foldl (mirror_step H loads) w calls)" if "world_clean w" for w
    using that by (induction calls arbitrary: w) (auto simp: mirror_step_clean)
  moreover have "world_clean (start_mirror n, no_files, empty_index)"
    by (auto simp: world_clean_def start_mirror_def no_files_def chain_file_def file_clean_def write_chain_def intro: exI [of _ "[]"])
  ultimately have "world_clean (m, fs, b)" using assms by metis
  then obtain es where es: "chain_file fs run = write_chain es" "list_all record_clean es"
    by (auto simp: world_clean_def file_clean_def)
  have "k \<in> set safe_run_keys \<union> set safe_event_keys" if "e \<in> set es" "jhas (jget e ''fields'') k" for e k
  proof -
    have "record_clean e" using es(2) that(1) by (simp add: list_all_iff)
    moreover have "k \<in> fst ` set (obj_members (jget e ''fields''))"
      using that(2) by (auto simp: jhas_def map_of_eq_None_iff)
    ultimately show ?thesis unfolding record_clean_def by blast
  qed
  then show ?thesis using es(1) by (auto simp: drain_one_def Let_def split: list.splits)
qed

theorem mirror_is_value_free_witness:
  "\<exists>m fs b. foldl (mirror_step (\<lambda>s. s) (\<lambda>s. None)) (start_mirror 5, no_files, empty_index)
     [CallRun ''r'' (JObj [(''skill'', JStr ''fs''), (''token'', JStr ''secret'')])] = (m, fs, b)
     \<and> chain_file fs ''r'' = [] \<and> snd (drain_one (\<lambda>s. s) (\<lambda>s. None) (Some False) m (fs, b)) = (fs, b)"
proof -
  let ?w = "foldl (mirror_step (\<lambda>s. s) (\<lambda>s. None)) (start_mirror 5, no_files, empty_index)
     [CallRun ''r'' (JObj [(''skill'', JStr ''fs''), (''token'', JStr ''secret'')])]"
  obtain m fs b where w: "?w = (m, fs, b)" by (cases ?w) auto
  then have "chain_file fs ''r'' = []" by (auto simp: mirror_step_def no_files_def chain_file_def)
  then show ?thesis using mirror_is_value_free [OF w] w by blast
qed

end
