(* ===== verification/Reconcile.thy ===== *)
theory Reconcile
  imports Mirror
begin

text \<open>
  The reconciler (\<open>src/infra/store/reconcile.py\<close>): it re-verifies a run's chain, recomputes its
  link digests and compares them with the rows of the index.
\<close>

section \<open>One run\<close>

datatype divergence =
    NoChain
  | ChainBroken "problem list"
  | OriginMissing
  | DigestMismatch int
  | GapBelowHead int
  | IndexBehind int
  | IndexAhead int

definition is_alarm :: "divergence \<Rightarrow> bool" where
  "is_alarm d = (case d of ChainBroken _ \<Rightarrow> True | OriginMissing \<Rightarrow> True | DigestMismatch _ \<Rightarrow> True
     | GapBelowHead _ \<Rightarrow> True | IndexAhead _ \<Rightarrow> True | NoChain \<Rightarrow> False | IndexBehind _ \<Rightarrow> False)"

record verdict =
  v_ok :: bool
  v_chain_ok :: bool
  divergences :: "divergence list"
  indexed :: nat
  chain_len :: nat
  repaired :: nat

definition schema_int :: "json \<Rightarrow> int" where
  "schema_int v = (case v of JInt i \<Rightarrow> i | JBool b \<Rightarrow> of_bool b | _ \<Rightarrow> 0)"

text \<open>Sequence number to link digest, for the records that are no genesis.\<close>

definition chain_digests :: "(string \<Rightarrow> string) \<Rightarrow> int \<Rightarrow> json list \<Rightarrow> (int, string) dict res" where
  "chain_digests H schema es =
     foldR (\<lambda>d e. bindR (link_digest H (link_of e) schema) (\<lambda>ld.
        if jget e ''type'' = JStr ''genesis'' then Inr d
        else case jget e ''seq'' of JInt s \<Rightarrow> Inr (dput s ld d) | _ \<Rightarrow> Inl KeyError)) [] es"

definition row_links :: "idx_row list \<Rightarrow> (int, string) dict" where
  "row_links rs = foldl (\<lambda>d r. dput (r_seq r) (r_link r) d) [] rs"

definition max_key :: "(int, 'v) dict \<Rightarrow> int" where
  "max_key d = (if d = [] then - 1 else Max (fst ` set d))"

definition classify :: "(int, string) dict \<Rightarrow> int \<times> string \<Rightarrow> divergence list" where
  "classify idx sd =
     (case dget idx (fst sd) of
        Some l \<Rightarrow> if l \<noteq> snd sd then [DigestMismatch (fst sd)] else []
      | None \<Rightarrow> if fst sd \<le> max_key idx then [GapBelowHead (fst sd)] else [IndexBehind (fst sd)])"

text \<open>Repair indexes the first entry of the chain with the missing number.\<close>

definition repair_one :: "(string \<Rightarrow> string) \<Rightarrow> json list \<Rightarrow> index \<Rightarrow> int \<Rightarrow> index" where
  "repair_one H es b s =
     (case find (\<lambda>e. jget e ''seq'' = JInt s) es of None \<Rightarrow> b | Some e \<Rightarrow> index_columns b (record_columns H e))"

definition behind :: "divergence list \<Rightarrow> int list" where
  "behind ds = concat (map (\<lambda>d. case d of IndexBehind s \<Rightarrow> [s] | _ \<Rightarrow> []) ds)"

definition seq_diffs :: "(int, string) dict \<Rightarrow> (int, string) dict \<Rightarrow> divergence list" where
  "seq_diffs idx cd = concat (map (classify idx) (sort_key fst cd))"

definition phantom_rows :: "(int, string) dict \<Rightarrow> (int, string) dict \<Rightarrow> divergence list" where
  "phantom_rows idx cd = concat (map (\<lambda>kv. if dget cd (fst kv) = None then [IndexAhead (fst kv)] else []) idx)"

definition origin_check :: "string option \<Rightarrow> (int, string) dict \<Rightarrow> divergence list" where
  "origin_check origin idx = (if origin = None \<and> idx \<noteq> [] then [OriginMissing] else [])"

definition quiet :: "divergence list \<Rightarrow> bool" where
  "quiet ds \<longleftrightarrow> (\<forall>d \<in> set ds. \<not> is_alarm d)"

definition reconcile_entries ::
  "(string \<Rightarrow> string) \<Rightarrow> (string \<Rightarrow> json option) \<Rightarrow> index \<Rightarrow> string \<Rightarrow> json list \<Rightarrow> int \<Rightarrow> bool \<Rightarrow> (index \<times> verdict) res" where
  "reconcile_entries H loads b run es schema repair =
     (if es = [] then Inr (b, \<lparr>v_ok = False, v_chain_ok = False, divergences = [NoChain], indexed = 0, chain_len = 0, repaired = 0\<rparr>)
      else bindR (verify_chain H es schema (Some run) (get_origin b run)) (\<lambda>(ok, ps).
        if \<not> ok then Inr (b, \<lparr>v_ok = False, v_chain_ok = False, divergences = [ChainBroken (take 2 ps)],
                             indexed = 0, chain_len = 0, repaired = 0\<rparr>)
        else bindR (chain_digests H schema es) (\<lambda>cd.
          bindR (rows loads b run) (\<lambda>_.
            let idx = row_links (rows_of b run);
                diffs = seq_diffs idx cd;
                ds = origin_check (get_origin b run) idx @ diffs @ phantom_rows idx cd
            in Inr (if repair then foldl (repair_one H es) b (behind diffs) else b,
                    \<lparr>v_ok = quiet ds, v_chain_ok = True, divergences = ds, indexed = length idx,
                     chain_len = length cd, repaired = (if repair then length (behind diffs) else 0)\<rparr>)))))"

definition reconcile_run ::
  "(string \<Rightarrow> string) \<Rightarrow> (string \<Rightarrow> json option) \<Rightarrow> files \<Rightarrow> index \<Rightarrow> string \<Rightarrow> bool \<Rightarrow> (index \<times> verdict) res" where
  "reconcile_run H loads fs b run repair =
     bindR (read_run loads fs run) (\<lambda>(es, schema, _).
       case es of JList xs \<Rightarrow> reconcile_entries H loads b run xs (schema_int schema) repair | _ \<Rightarrow> Inl TypeError)"

section \<open>Cycles\<close>

definition reconcile_all ::
  "(string \<Rightarrow> string) \<Rightarrow> (string \<Rightarrow> json option) \<Rightarrow> files \<Rightarrow> index \<Rightarrow> bool \<Rightarrow> (index \<times> bool \<times> verdict list) res" where
  "reconcile_all H loads fs b repair =
     bindR (foldR (\<lambda>(b, alarms) run. bindR (reconcile_run H loads fs b run repair) (\<lambda>(b', v).
              Inr (b', if v_ok v then alarms else alarms @ [v])))
            (b, []) (sort (remdups (chain_run_ids fs @ run_ids b)))) (\<lambda>(b', alarms). Inr (b', alarms = [], alarms))"

text \<open>
  The daemon's loop for a given number of cycles; what happens between cycles is \<open>world i\<close>. A cycle
  that raises counts as an alarm.
\<close>

fun continuous_reconcile ::
  "(string \<Rightarrow> string) \<Rightarrow> (string \<Rightarrow> json option) \<Rightarrow> (nat \<Rightarrow> files \<times> index \<Rightarrow> files \<times> index) \<Rightarrow> nat \<Rightarrow> files \<times> index
   \<Rightarrow> bool \<Rightarrow> nat \<Rightarrow> nat option \<Rightarrow> (files \<times> index) \<times> nat option" where
  "continuous_reconcile H loads world i st repair 0 first = (st, first)"
| "continuous_reconcile H loads world i st repair (Suc n) first =
     (case world i st of (fs, b) \<Rightarrow>
        (case reconcile_all H loads fs b repair of
           Inl _ \<Rightarrow> continuous_reconcile H loads world (Suc i) (fs, b) repair n (if first = None then Some i else first)
         | Inr (b', ok, _) \<Rightarrow>
             continuous_reconcile H loads world (Suc i) (fs, b') repair n (if \<not> ok \<and> first = None then Some i else first)))"

section \<open>What the verdict means\<close>

lemma row_links_get:
  "distinct (map r_seq rs) \<Longrightarrow> r \<in> set rs \<Longrightarrow> dget (row_links rs) (r_seq r) = Some (r_link r)"
proof -
  have "dget (foldl (\<lambda>d r. dput (r_seq r) (r_link r) d) d rs) s =
        (case filter (\<lambda>r. r_seq r = s) rs of [] \<Rightarrow> dget d s | _ \<Rightarrow> Some (r_link (last (filter (\<lambda>r. r_seq r = s) rs))))" for d s
    by (induction rs arbitrary: d) (auto simp: dget_dput split: list.splits)
  moreover assume d: "distinct (map r_seq rs)" and "r \<in> set rs"
  moreover from this have "filter (\<lambda>x. r_seq x = r_seq r) rs = [r]"
    by (induction rs) (auto simp: filter_empty_conv image_iff)
  ultimately show ?thesis by (simp add: row_links_def)
qed

lemma row_links_keys: "fst ` set (row_links rs) = r_seq ` set rs"
proof -
  have "fst ` set (foldl (\<lambda>d r. dput (r_seq r) (r_link r) d) d rs) = fst ` set d \<union> r_seq ` set rs" for d
    by (induction rs arbitrary: d) (auto simp: dput_keys)
  then show ?thesis by (simp add: row_links_def)
qed

definition row_at :: "index \<Rightarrow> string \<Rightarrow> int \<Rightarrow> idx_row option" where
  "row_at b run s = find (\<lambda>r. record_key r = (run, s)) (idx_record b)"

lemma find_unique: "distinct (map f xs) \<Longrightarrow> x \<in> set xs \<Longrightarrow> f x = k \<Longrightarrow> find (\<lambda>y. f y = k) xs = Some x"
  by (induction xs) (auto simp: image_iff)

lemma row_links_at:
  assumes "keys_unique b"
  shows "dget (row_links (rows_of b run)) s = map_option r_link (row_at b run s)"
proof (cases "row_at b run s")
  case None
  then have "s \<notin> r_seq ` set (rows_of b run)"
    by (auto simp: row_at_def find_None_iff rows_set record_key_def)
  then have "dget (row_links (rows_of b run)) s = None" by (simp add: map_of_eq_None_iff row_links_keys)
  then show ?thesis using None by simp
next
  case (Some r)
  then have r: "r \<in> set (idx_record b)" "record_key r = (run, s)" by (auto simp: row_at_def find_Some_iff)
  have "distinct (map record_key (filter (\<lambda>r. r_run r = run) (idx_record b)))"
    using assms by (simp add: keys_unique_def distinct_map_filter)
  moreover have "distinct (map record_key rs) \<Longrightarrow> (\<forall>r \<in> set rs. r_run r = run) \<Longrightarrow> distinct (map r_seq rs)" for rs
    by (induction rs) (auto simp: record_key_def image_iff)
  ultimately have "distinct (map r_seq (filter (\<lambda>r. r_run r = run) (idx_record b)))" by simp
  then have "distinct (map r_seq (rows_of b run))" unfolding rows_of_def by (metis distinct_map distinct_sort set_sort)
  moreover have "r \<in> set (rows_of b run)" using r by (simp add: rows_set record_key_def)
  ultimately have "dget (row_links (rows_of b run)) (r_seq r) = Some (r_link r)" by (rule row_links_get)
  then show ?thesis using Some r by (simp add: record_key_def)
qed

lemma row_at_record:
  "row_at (fst (index_record b run sq prv link kind ts plan fs)) run' s =
     (case row_at b run' s of Some r \<Rightarrow> Some r
      | None \<Rightarrow> if (run', s) = (run, sq)
                then Some \<lparr>r_run = run, r_seq = sq, r_prev = prv, r_link = link, r_kind = kind, r_ts = ts, r_plan = plan,
                           r_fields = store_canon fs\<rparr> else None)"
proof -
  have fa: "find P (xs @ [x]) = (case find P xs of Some y \<Rightarrow> Some y | None \<Rightarrow> if P x then Some x else None)" for P and xs :: "idx_row list" and x
    by (induction xs) auto
  show ?thesis
    by (auto simp: index_record_def insert_ignore_def Let_def row_at_def fa record_key_def find_None_iff split: option.splits)
qed

lemma get_origin_record [simp]: "get_origin (fst (index_record b run sq prv link kind ts plan fs)) x = get_origin b x"
  by (simp add: index_record_def get_origin_def Let_def split_beta)

lemma index_columns_cases:
  "index_columns b c = b \<or> (\<exists>run sq. c_run c = JStr run \<and> c_seq c = JInt sq \<and>
     index_columns b c = fst (index_record b run sq (c_prev c) (c_link c) (c_kind c) (c_ts c) (c_plan c) (c_fields c)))"
  by (auto simp: index_columns_def split: json.splits)

lemma repair_keeps_keys: "keys_unique b \<Longrightarrow> keys_unique (repair_one H es b s)"
  using index_columns_cases [of b] index_record_unique [of b]
  by (auto simp: repair_one_def split: option.splits) metis

lemma repair_keeps_origin: "get_origin (repair_one H es b s) x = get_origin b x"
  using index_columns_cases [of b]
  by (auto simp: repair_one_def split: option.splits) (metis get_origin_record)

section \<open>The numbers of a verified chain\<close>

lemma verified_seqs:
  assumes "verify_entries H schema i prev (Some l) es = Inr []" and "0 < i" and "j < length es"
  shows "jget (es ! j) ''seq'' = JInt (l + 1 + int j) \<and> jget (es ! j) ''type'' \<noteq> JStr ''genesis''"
  using assms
proof (induction es arbitrary: i prev l j)
  case (Cons e es)
  from Cons.prems(1,2) obtain d where e: "jget e ''seq'' = JInt (l + 1)" "jget e ''type'' \<noteq> JStr ''genesis''"
    "verify_entries H schema (Suc i) d (seq_int (jget e ''seq'')) es = Inr []"
    by (auto simp: verify_entries_Cons_ok)
  then have "verify_entries H schema (Suc i) d (Some (l + 1)) es = Inr []" by (simp add: seq_int_def)
  then show ?case using Cons.IH [of "Suc i" d "l + 1" "j - 1"] Cons.prems(3) e by (cases j) auto
qed simp

lemma verified_tail:
  assumes "verify_chain H (g # es) schema run plan = Inr (True, ps)"
  shows "\<exists>l. (\<forall>j < length es. jget (es ! j) ''seq'' = JInt (l + int j) \<and> jget (es ! j) ''type'' \<noteq> JStr ''genesis'')
     \<and> (\<forall>s. jget g ''seq'' = JInt s \<longrightarrow> es \<noteq> [] \<longrightarrow> s < l) \<and> jget g ''type'' = JStr ''genesis''"
proof -
  from assms have g: "genesis_problems g run plan = []" and "verify_entries H schema 0 zero_prev None (g # es) = Inr []"
    by (simp_all add: verify_chain_ok_iff)
  then obtain d where v: "verify_entries H schema (Suc 0) d (seq_int (jget g ''seq'')) es = Inr []"
    by (auto simp: verify_entries_Cons_ok)
  have gt: "jget g ''type'' = JStr ''genesis''" using g by (auto simp: genesis_problems_def split: if_splits)
  show ?thesis
  proof (cases "seq_int (jget g ''seq'')")
    case (Some s)
    then have "jget g ''seq'' = JInt s" by (auto simp: seq_int_def split: json.splits)
    moreover have "\<forall>j < length es. jget (es ! j) ''seq'' = JInt (s + 1 + int j) \<and> jget (es ! j) ''type'' \<noteq> JStr ''genesis''"
      using verified_seqs [of H schema "Suc 0" d s es] v Some by auto
    ultimately show ?thesis using gt by (intro exI [of _ "s + 1"]) auto
  next
    case None
    then have ng: "jget g ''seq'' \<noteq> JInt s" for s by (auto simp: seq_int_def)
    show ?thesis
    proof (cases es)
      case Nil
      then show ?thesis using gt by auto
    next
      case (Cons e fs)
      from v Cons obtain s d' where e: "jget e ''seq'' = JInt s" "jget e ''type'' \<noteq> JStr ''genesis''"
        "verify_entries H schema (Suc (Suc 0)) d' (Some s) fs = Inr []"
        by (auto simp: verify_entries_Cons_ok seq_int_def)
      have "jget (es ! j) ''seq'' = JInt (s + int j) \<and> jget (es ! j) ''type'' \<noteq> JStr ''genesis''" if "j < length es" for j
      proof (cases j)
        case (Suc k)
        then show ?thesis using verified_seqs [OF e(3), of k] that Cons by (simp add: ac_simps)
      qed (use e Cons in simp)
      then show ?thesis using ng gt by blast
    qed
  qed
qed

definition numbered :: "json \<Rightarrow> json list \<Rightarrow> int \<Rightarrow> bool" where
  "numbered g es l \<longleftrightarrow> (\<forall>j < length es. jget (es ! j) ''seq'' = JInt (l + int j) \<and> jget (es ! j) ''type'' \<noteq> JStr ''genesis'')
     \<and> (\<forall>s. jget g ''seq'' = JInt s \<longrightarrow> es \<noteq> [] \<longrightarrow> s < l) \<and> jget g ''type'' = JStr ''genesis''"

lemma verified_numbered: "verify_chain H (g # es) schema run plan = Inr (True, ps) \<Longrightarrow> \<exists>l. numbered g es l"
  using verified_tail unfolding numbered_def by blast

lemma digests_numbered:
  assumes "numbered g es l"
  shows "\<exists>cd. chain_digests H current_major (g # es) = Inr cd
     \<and> (\<forall>s. dget cd s = (if l \<le> s \<and> s < l + int (length es) then Some (digest H (link_of (es ! nat (s - l)))) else None))"
  using assms
proof (induction es rule: rev_induct)
  case Nil
  then show ?case by (simp add: chain_digests_def numbered_def)
next
  case (snoc e es)
  from snoc.prems have n: "numbered g es l" by (auto simp: numbered_def nth_append split: if_splits)
  have e: "jget e ''seq'' = JInt (l + int (length es))" "jget e ''type'' \<noteq> JStr ''genesis''"
    using snoc.prems by (auto simp: numbered_def nth_append dest!: spec [of _ "length es"])
  from snoc.IH [OF n] obtain cd where cd: "chain_digests H current_major (g # es) = Inr cd"
    "\<forall>s. dget cd s = (if l \<le> s \<and> s < l + int (length es) then Some (digest H (link_of (es ! nat (s - l)))) else None)" by blast
  have "chain_digests H current_major (g # es @ [e]) = Inr (dput (l + int (length es)) (digest H (link_of e)) cd)"
    using cd(1) e snoc.prems by (simp add: chain_digests_def foldR_append numbered_def)
  moreover have "dget (dput (l + int (length es)) (digest H (link_of e)) cd) s =
      (if l \<le> s \<and> s < l + int (length (es @ [e])) then Some (digest H (link_of ((es @ [e]) ! nat (s - l)))) else None)" for s
    using cd(2) by (auto simp: dget_dput nth_append)
  ultimately show ?case by simp
qed

lemma find_numbered:
  assumes "numbered g es l" and "j < length es"
  shows "find (\<lambda>e. jget e ''seq'' = JInt (l + int j)) (g # es) = Some (es ! j)"
proof -
  have "jget g ''seq'' \<noteq> JInt (l + int j)" using assms by (auto simp: numbered_def)
  moreover have "find (\<lambda>e. jget e ''seq'' = JInt (l + int j)) es = Some (es ! j)"
    using assms by (auto simp: find_Some_iff numbered_def intro!: exI [of _ j])
  ultimately show ?thesis by simp
qed

definition owned :: "string \<Rightarrow> json list \<Rightarrow> bool" where
  "owned run es \<longleftrightarrow> (\<forall>e \<in> set es. jget e ''run_id'' = JStr run)"

definition row_ok :: "(string \<Rightarrow> json option) \<Rightarrow> index \<Rightarrow> string \<Rightarrow> bool" where
  "row_ok loads b run \<longleftrightarrow> (\<forall>s r. row_at b run s = Some r \<longrightarrow> loads (r_fields r) \<noteq> None)"

lemma repair_row:
  assumes "numbered g es l" and "owned run es" and "j < length es"
  shows "row_at (repair_one H (g # es) b (l + int j)) run s =
     (case row_at b run s of Some r \<Rightarrow> Some r
      | None \<Rightarrow> if s = l + int j
                then Some \<lparr>r_run = run, r_seq = s, r_prev = jget (es ! j) ''prev'', r_link = digest H (link_of (es ! j)),
                           r_kind = c_kind (record_columns H (es ! j)), r_ts = c_ts (record_columns H (es ! j)),
                           r_plan = c_plan (record_columns H (es ! j)),
                           r_fields = store_canon (c_fields (record_columns H (es ! j)))\<rparr>
                else None)"
proof -
  have "c_run (record_columns H (es ! j)) = JStr run" "c_seq (record_columns H (es ! j)) = JInt (l + int j)"
    "c_link (record_columns H (es ! j)) = digest H (link_of (es ! j))" "c_prev (record_columns H (es ! j)) = jget (es ! j) ''prev''"
    using assms by (simp_all add: record_columns_def Let_def owned_def numbered_def chain_link_digest_def)
  then show ?thesis
    unfolding repair_one_def find_numbered [OF assms(1,3)]
    by (simp add: index_columns_def row_at_record split: option.splits)
qed

lemma repair_fold:
  assumes "numbered g es l" and "owned run es" and "\<forall>s \<in> set ss. l \<le> s \<and> s < l + int (length es)"
    and "keys_unique b" and "row_ok loads b run" and "\<forall>j. loads (store_canon j) \<noteq> None"
  shows "keys_unique (foldl (repair_one H (g # es)) b ss) \<and> row_ok loads (foldl (repair_one H (g # es)) b ss) run
     \<and> get_origin (foldl (repair_one H (g # es)) b ss) run = get_origin b run
     \<and> (\<forall>s. map_option r_link (row_at (foldl (repair_one H (g # es)) b ss) run s) =
          (case row_at b run s of Some r \<Rightarrow> Some (r_link r)
           | None \<Rightarrow> if s \<in> set ss then Some (digest H (link_of (es ! nat (s - l)))) else None))"
  using assms(3-5)
proof (induction ss arbitrary: b)
  case Nil
  then show ?case by (auto split: option.splits)
next
  case (Cons x ss)
  let ?b = "repair_one H (g # es) b x"
  obtain j where j: "x = l + int j" "j < length es"
    using Cons.prems(1) by (metis add.commute diff_add_cancel int_nat_eq le_add_same_cancel1 list.set_intros(1) nat_less_iff
        of_nat_less_iff zle_diff1_eq add_less_cancel_left diff_ge_0_iff_ge)
  have row: "row_at ?b run s = (case row_at b run s of Some r \<Rightarrow> Some r
      | None \<Rightarrow> if s = x
                then Some \<lparr>r_run = run, r_seq = s, r_prev = jget (es ! j) ''prev'', r_link = digest H (link_of (es ! j)),
                           r_kind = c_kind (record_columns H (es ! j)), r_ts = c_ts (record_columns H (es ! j)),
                           r_plan = c_plan (record_columns H (es ! j)),
                           r_fields = store_canon (c_fields (record_columns H (es ! j)))\<rparr>
                else None)" for s
    unfolding j(1) by (rule repair_row [OF assms(1,2) j(2)])
  have "row_ok loads ?b run"
    using Cons.prems(3) assms(6) by (auto simp: row_ok_def row split: option.splits if_splits)
  with Cons.IH [of ?b] Cons.prems repair_keeps_keys [OF Cons.prems(2)] repair_keeps_origin
  have ih: "keys_unique (foldl (repair_one H (g # es)) ?b ss)" "row_ok loads (foldl (repair_one H (g # es)) ?b ss) run"
    "get_origin (foldl (repair_one H (g # es)) ?b ss) run = get_origin b run"
    "\<And>s. map_option r_link (row_at (foldl (repair_one H (g # es)) ?b ss) run s) =
          (case row_at ?b run s of Some r \<Rightarrow> Some (r_link r)
           | None \<Rightarrow> if s \<in> set ss then Some (digest H (link_of (es ! nat (s - l)))) else None)" by simp_all
  have "map_option r_link (row_at (foldl (repair_one H (g # es)) ?b ss) run s) =
          (case row_at b run s of Some r \<Rightarrow> Some (r_link r)
           | None \<Rightarrow> if s \<in> set (x # ss) then Some (digest H (link_of (es ! nat (s - l)))) else None)" for s
    unfolding ih(4) row using j(1) by (cases "row_at b run s"; cases "s = x") simp_all
  then show ?case using ih(1-3) by simp
qed

section \<open>One cycle repairs\<close>

lemma rows_readable:
  assumes "keys_unique b"
  shows "(\<exists>xs. rows loads b run = Inr xs) \<longleftrightarrow> row_ok loads b run"
proof -
  have at: "row_at b run (r_seq r) = Some r" if "r \<in> set (idx_record b)" "r_run r = run" for r
    using find_unique [of record_key "idx_record b" r "(run, r_seq r)"] assms that
    by (simp add: keys_unique_def row_at_def record_key_def)
  have inv: "r \<in> set (idx_record b) \<and> r_run r = run" if "row_at b run s = Some r" for s r
    using that by (auto simp: row_at_def find_Some_iff record_key_def)
  have "(\<exists>xs. mapR (\<lambda>r. bindR (loads_res loads (r_fields r)) (\<lambda>j. Inr (r, j))) rs = Inr xs) \<longleftrightarrow> (\<forall>r \<in> set rs. loads (r_fields r) \<noteq> None)" for rs
    by (induction rs) (auto simp: loads_res_def bindR_eq_Inr split: option.splits)
  then have "(\<exists>xs. rows loads b run = Inr xs) \<longleftrightarrow> (\<forall>r \<in> set (rows_of b run). loads (r_fields r) \<noteq> None)"
    by (simp add: rows_def)
  also have "\<dots> \<longleftrightarrow> row_ok loads b run" unfolding row_ok_def rows_set using at inv by blast
  finally show ?thesis .
qed

lemma quiet_classify:
  "\<forall>d \<in> set (classify idx (s, ld)). \<not> is_alarm d \<Longrightarrow> dget idx s = Some ld \<or> (dget idx s = None \<and> classify idx (s, ld) = [IndexBehind s])"
  by (auto simp: classify_def is_alarm_def split: option.splits if_splits)

lemma quiet_append [simp]: "quiet (xs @ ys) \<longleftrightarrow> quiet xs \<and> quiet ys"
  by (auto simp: quiet_def)

lemma behind_append [simp]: "behind (xs @ ys) = behind xs @ behind ys"
  by (simp add: behind_def)

lemma behind_quiet_list:
  "quiet (concat (map (classify idx) kvs)) \<Longrightarrow>
     set (behind (concat (map (classify idx) kvs))) = {s. s \<in> fst ` set kvs \<and> dget idx s = None}
     \<and> (\<forall>(s, ld) \<in> set kvs. dget idx s = Some ld \<or> dget idx s = None)"
proof (induction kvs)
  case (Cons kv kvs)
  obtain s ld where kv: "kv = (s, ld)" by (cases kv) auto
  from Cons.prems have "\<forall>d \<in> set (classify idx (s, ld)). \<not> is_alarm d" by (simp add: kv quiet_def)
  note q = quiet_classify [OF this]
  then have "set (behind (classify idx kv)) = (if dget idx s = None then {s} else {})"
    by (auto simp: kv behind_def classify_def)
  with q Cons show ?case by (auto simp: kv)
qed (simp add: behind_def)

lemma behind_quiet:
  assumes "quiet (seq_diffs idx cd)"
  shows "set (behind (seq_diffs idx cd)) = {s. dget cd s \<noteq> None \<and> dget idx s = None}"
    and "dget cd s = Some ld \<Longrightarrow> dget idx s = Some ld \<or> dget idx s = None"
proof -
  note b = behind_quiet_list [OF assms [unfolded seq_diffs_def]]
  have "fst ` set (sort_key fst cd) = {s. dget cd s \<noteq> None}" by (auto simp: map_of_eq_None_iff image_iff dom_map_of_conv_image_fst)
  then show "set (behind (seq_diffs idx cd)) = {s. dget cd s \<noteq> None \<and> dget idx s = None}"
    using b unfolding seq_diffs_def by auto
  show "dget cd s = Some ld \<Longrightarrow> dget idx s = Some ld \<or> dget idx s = None"
    using b map_of_SomeD [of cd s ld] by fastforce
qed

lemma quiet_phantoms: "quiet (phantom_rows idx cd) \<Longrightarrow> dget cd s = None \<Longrightarrow> dget idx s = None"
proof -
  assume q: "quiet (phantom_rows idx cd)" and n: "dget cd s = None"
  have "dget cd (fst kv) \<noteq> None" if "kv \<in> set idx" for kv
  proof
    assume "dget cd (fst kv) = None"
    then have "IndexAhead (fst kv) \<in> set (phantom_rows idx cd)" using that by (auto simp: phantom_rows_def)
    then show False using q by (auto simp: quiet_def is_alarm_def)
  qed
  then show ?thesis using n by (metis map_of_SomeD fst_conv not_Some_eq)
qed

lemma same_links_quiet:
  assumes "\<And>s. dget idx s = dget cd s" and "distinct (map fst cd)"
  shows "seq_diffs idx cd = []" and "phantom_rows idx cd = []"
proof -
  have "classify idx kv = []" if "kv \<in> set cd" for kv
  proof -
    obtain s ld where kv: "kv = (s, ld)" by fastforce
    then have "dget idx s = Some ld" using that assms by (simp add: map_of_is_SomeI)
    then show ?thesis by (simp add: kv classify_def)
  qed
  then show "seq_diffs idx cd = []" by (simp add: seq_diffs_def)
  have "dget cd (fst kv) \<noteq> None" if "kv \<in> set idx" for kv
    using that assms(1) [of "fst kv"] by (metis map_of_eq_None_iff image_eqI)
  moreover have "(\<forall>kv \<in> set xs. dget cd (fst kv) \<noteq> None) \<Longrightarrow> phantom_rows xs cd = []" for xs
    by (induction xs) (auto simp: phantom_rows_def)
  ultimately show "phantom_rows idx cd = []" by blast
qed

lemma clean_pass:
  assumes "verify_chain H (g # es) current_major (Some run) (get_origin b run) = Inr (True, ps)"
    and "chain_digests H current_major (g # es) = Inr cd" and "distinct (map fst cd)"
    and "keys_unique b" and "row_ok loads b run"
    and "\<And>s. map_option r_link (row_at b run s) = dget cd s"
  shows "\<exists>v. reconcile_entries H loads b run (g # es) current_major False = Inr (b, v)
     \<and> divergences v = (if get_origin b run = None \<and> cd \<noteq> [] then [OriginMissing] else [])
     \<and> (v_ok v \<longleftrightarrow> get_origin b run \<noteq> None \<or> cd = [])"
proof -
  have links: "dget (row_links (rows_of b run)) s = dget cd s" for s
    using row_links_at [OF assms(4)] assms(6) by simp
  obtain xs where r: "rows loads b run = Inr xs" using rows_readable [OF assms(4)] assms(5) by blast
  have "map_of (row_links (rows_of b run)) = map_of cd" using links by (rule ext)
  then have "(row_links (rows_of b run) = []) = (cd = [])" by (metis map_of_eq_empty_iff)
  then show ?thesis
    using assms(1,2) r same_links_quiet [of "row_links (rows_of b run)" cd, OF links assms(3)]
    by (simp add: reconcile_entries_def Let_def origin_check_def quiet_def is_alarm_def)
qed

lemma foldR_dput_distinct:
  "foldR (\<lambda>d e. bindR (m e) (\<lambda>ld. if t e then Inr d else case q e of JInt s \<Rightarrow> Inr (dput s ld d) | _ \<Rightarrow> Inl KeyError)) d es = Inr d' \<Longrightarrow>
     distinct (map fst d) \<Longrightarrow> distinct (map fst (d' :: (int, string) dict))"
proof (induction es arbitrary: d)
  case (Cons e es)
  then obtain d1 where "bindR (m e) (\<lambda>ld. if t e then Inr d else case q e of JInt s \<Rightarrow> Inr (dput s ld d) | _ \<Rightarrow> Inl KeyError) = Inr d1"
    and rest: "foldR (\<lambda>d e. bindR (m e) (\<lambda>ld. if t e then Inr d else case q e of JInt s \<Rightarrow> Inr (dput s ld d) | _ \<Rightarrow> Inl KeyError)) d1 es = Inr d'"
    by (auto simp: bindR_eq_Inr)
  then have "distinct (map fst d1)" using Cons.prems(2)
    by (auto simp: bindR_eq_Inr distinct_update split: if_splits json.splits)
  then show ?case using Cons.IH [OF rest] by simp
qed simp

lemma reconcile_chain_ok:
  assumes "reconcile_entries H loads b run (g # es) schema repair = Inr (b', v)" and "v_ok v"
  shows "\<exists>ps. verify_chain H (g # es) schema (Some run) (get_origin b run) = Inr (True, ps)"
proof (cases "verify_chain H (g # es) schema (Some run) (get_origin b run)")
  case (Inl x)
  then show ?thesis using assms(1) by (simp add: reconcile_entries_def)
next
  case (Inr p)
  then show ?thesis using assms by (cases p; cases "fst p") (auto simp: reconcile_entries_def)
qed

lemma reconcile_repair_result:
  assumes vc: "verify_chain H (g # es) current_major (Some run) (get_origin b run) = Inr (True, ps)"
    and cd: "chain_digests H current_major (g # es) = Inr cd"
    and r: "reconcile_entries H loads b run (g # es) current_major True = Inr (b', v)"
    and idx: "idx = row_links (rows_of b run)"
  shows "(\<exists>xs. rows loads b run = Inr xs) \<and> b' = foldl (repair_one H (g # es)) b (behind (seq_diffs idx cd))
     \<and> (v_ok v \<longrightarrow> quiet (seq_diffs idx cd) \<and> quiet (phantom_rows idx cd))"
proof (cases "rows loads b run")
  case (Inl x)
  then show ?thesis using r by (simp add: reconcile_entries_def vc cd)
next
  case (Inr xs)
  show ?thesis using r unfolding idx by (simp add: reconcile_entries_def vc cd Inr Let_def) (elim conjE, hypsubst, simp)
qed

lemma repaired_links:
  assumes n: "numbered g es l"
    and cd: "\<And>s. dget cd s = (if l \<le> s \<and> s < l + int (length es) then Some (digest H (link_of (es ! nat (s - l)))) else None)"
    and q: "quiet (seq_diffs (row_links (rows_of b run)) cd)" "quiet (phantom_rows (row_links (rows_of b run)) cd)"
    and "owned run es" and ku: "keys_unique b" and ro: "row_ok loads b run" and "\<forall>j. loads (store_canon j) \<noteq> None"
    and b': "b' = foldl (repair_one H (g # es)) b (behind (seq_diffs (row_links (rows_of b run)) cd))"
  shows "keys_unique b' \<and> row_ok loads b' run \<and> get_origin b' run = get_origin b run
     \<and> (\<forall>s. map_option r_link (row_at b' run s) = dget cd s)"
proof -
  let ?idx = "row_links (rows_of b run)"
  have at: "map_option r_link (row_at b run s) = dget ?idx s" for s using row_links_at [OF ku] by simp
  have "\<forall>s \<in> set (behind (seq_diffs ?idx cd)). l \<le> s \<and> s < l + int (length es)"
    unfolding behind_quiet(1) [OF q(1)] using cd by auto
  note fold = repair_fold [OF n assms(5) this ku ro assms(8), of H, folded b']
  have at': "map_option r_link (row_at b' run s) =
      (case row_at b run s of Some r \<Rightarrow> Some (r_link r)
       | None \<Rightarrow> if s \<in> set (behind (seq_diffs ?idx cd)) then Some (digest H (link_of (es ! nat (s - l)))) else None)" for s
    using fold by blast
  have "map_option r_link (row_at b' run s) = dget cd s" for s
  proof (cases "row_at b run s")
    case None
    then have "dget ?idx s = None" using at [of s] by simp
    then have "s \<in> set (behind (seq_diffs ?idx cd)) \<longleftrightarrow> dget cd s \<noteq> None" unfolding behind_quiet(1) [OF q(1)] by simp
    then show ?thesis unfolding at' None using cd [of s] by (simp split: if_splits)
  next
    case (Some r)
    then have i: "dget ?idx s = Some (r_link r)" using at [of s] by simp
    then obtain ld where ld: "dget cd s = Some ld" using quiet_phantoms [OF q(2), of s] by (cases "dget cd s") simp_all
    have "ld = r_link r" using behind_quiet(2) [OF q(1) ld] i by simp
    then show ?thesis unfolding at' Some using ld by simp
  qed
  then show ?thesis using fold by blast
qed

lemma repaired_row:
  assumes n: "numbered g es l"
    and cd: "\<And>s. dget cd s = (if l \<le> s \<and> s < l + int (length es) then Some (digest H (link_of (es ! nat (s - l)))) else None)"
    and links: "\<And>s. map_option r_link (row_at b' run s) = dget cd s"
    and e: "e \<in> set es"
  shows "\<exists>s r. jget e ''seq'' = JInt s \<and> row_at b' run s = Some r \<and> r_link r = digest H (link_of e)"
proof -
  obtain j where j: "j < length es" "e = es ! j" using e by (metis in_set_conv_nth)
  then have "map_option r_link (row_at b' run (l + int j)) = Some (digest H (link_of e))" using links cd by simp
  moreover have "jget e ''seq'' = JInt (l + int j)" using n j by (simp add: numbered_def)
  ultimately show ?thesis by (cases "row_at b' run (l + int j)") simp_all
qed

lemma no_digests_iff:
  assumes "\<And>s. dget cd s = (if l \<le> s \<and> s < l + int (length es) then Some (f s) else None)"
  shows "cd = [] \<longleftrightarrow> es = []"
proof
  assume "cd = []"
  then show "es = []" using assms [of l] by (auto split: if_splits)
next
  assume "es = []"
  then have "\<And>s. dget cd s = None" using assms by simp
  then show "cd = []" by (metis map_of_eq_empty_iff ext)
qed

text \<open>
  C26: one repairing cycle brings the index level with the chain. When a cycle with repair raises
  no alarm on a run, every record of the chain has afterwards a row carrying exactly the digest
  recomputed from the chain; the next cycle finds no divergence at all if the run's origin is on
  record, and alarms that the origin is missing if it is not, although the repairing cycle said the
  run was fine: repair writes rows but never the origin. The chain's records carry the run's id,
  and the JSON parser reads every cell that was written.
\<close>

theorem reconcile_repairs:
  assumes "reconcile_entries H loads b run (g # es) current_major True = Inr (b', v)" and "v_ok v"
    and "keys_unique b" and "owned run es" and "\<forall>j. loads (store_canon j) \<noteq> None"
  shows "(\<forall>e \<in> set es. \<exists>s r. jget e ''seq'' = JInt s \<and> row_at b' run s = Some r \<and> r_link r = digest H (link_of e))
     \<and> (\<exists>v'. reconcile_entries H loads b' run (g # es) current_major False = Inr (b', v')
          \<and> divergences v' = (if get_origin b run = None \<and> es \<noteq> [] then [OriginMissing] else [])
          \<and> (v_ok v' \<longleftrightarrow> get_origin b run \<noteq> None \<or> es = []))"
proof -
  from reconcile_chain_ok [OF assms(1,2)] obtain ps
    where vc: "verify_chain H (g # es) current_major (Some run) (get_origin b run) = Inr (True, ps)" by blast
  from verified_numbered [OF vc] obtain l where n: "numbered g es l" by blast
  from digests_numbered [OF n] obtain cd where cd: "chain_digests H current_major (g # es) = Inr cd"
    "\<And>s. dget cd s = (if l \<le> s \<and> s < l + int (length es) then Some (digest H (link_of (es ! nat (s - l)))) else None)" by blast
  have dcd: "distinct (map fst cd)" using foldR_dput_distinct [OF cd(1) [unfolded chain_digests_def]] by simp
  from reconcile_repair_result [OF vc cd(1) assms(1) refl]
  have r1: "\<exists>xs. rows loads b run = Inr xs"
    and b': "b' = foldl (repair_one H (g # es)) b (behind (seq_diffs (row_links (rows_of b run)) cd))"
    and q: "quiet (seq_diffs (row_links (rows_of b run)) cd)" "quiet (phantom_rows (row_links (rows_of b run)) cd)"
    using assms(2) by simp_all
  have ro: "row_ok loads b run" using r1 rows_readable [OF assms(3)] by blast
  from repaired_links [OF n cd(2) q assms(4,3) ro assms(5) b']
  have ku': "keys_unique b'" and ro': "row_ok loads b' run" and o: "get_origin b' run = get_origin b run"
    and links: "\<And>s. map_option r_link (row_at b' run s) = dget cd s" by simp_all
  have one: "\<exists>s r. jget e ''seq'' = JInt s \<and> row_at b' run s = Some r \<and> r_link r = digest H (link_of e)" if "e \<in> set es" for e
    using repaired_row [OF n cd(2) links that] .
  have "\<exists>v'. reconcile_entries H loads b' run (g # es) current_major False = Inr (b', v')
     \<and> divergences v' = (if get_origin b' run = None \<and> cd \<noteq> [] then [OriginMissing] else [])
     \<and> (v_ok v' \<longleftrightarrow> get_origin b' run \<noteq> None \<or> cd = [])"
    by (rule clean_pass [OF _ cd(1) dcd ku' ro' links]) (simp only: o vc)
  moreover have "cd = [] \<longleftrightarrow> es = []" by (rule no_digests_iff [OF cd(2)])
  ultimately show ?thesis using one by (simp only: o) simp
qed

text \<open>
  The witness: a chain of two records, of which the index has the first, and the origin. The cycle finds the second
  behind, writes its row, and the next cycle finds nothing.
\<close>

definition repair_record :: "string \<Rightarrow> json" where
  "repair_record kind = JObj [(''type'', JStr kind), (''run_id'', JStr ''r''), (''ts'', JStr ''t''), (''plan_sha'', JStr ''p''),
     (''fields'', JObj [(''step'', JStr ''1'')])]"

definition repair_chain :: "json list" where
  "repair_chain =
     (case bindR (chain_append (\<lambda>s. s) [genesis ''r'' ''p'' current_major] (repair_record ''granted'') current_major)
        (\<lambda>c. chain_append (\<lambda>s. s) c (repair_record ''step_result'') current_major) of Inr c \<Rightarrow> c | Inl _ \<Rightarrow> [])"

definition repair_index :: index where
  "repair_index = index_columns (set_origin empty_index ''r'' ''p'') (record_columns (\<lambda>s. s) (repair_chain ! 1))"

lemma repair_cycle:
  "(case reconcile_entries (\<lambda>s. s) (\<lambda>_. Some JNull) repair_index ''r'' repair_chain current_major True of
      Inr (b', v) \<Rightarrow> v_ok v \<and> divergences v = [IndexBehind 2] \<and> map r_seq (idx_record b') = [1, 2] | Inl _ \<Rightarrow> False)
   \<and> map r_seq (idx_record repair_index) = [1]"
  by code_simp

lemma repair_start: "keys_unique repair_index" "get_origin repair_index ''r'' = Some ''p''"
proof -
  have "map record_key (idx_record repair_index) = [(''r'', 1)]" "map fst (idx_origin repair_index) = [''r'']" "run_values repair_index = []" by code_simp+
  moreover show "get_origin repair_index ''r'' = Some ''p''" by code_simp
  ultimately show "keys_unique repair_index" by (simp add: keys_unique_def)
qed

theorem reconcile_repairs_witness:
  "\<exists>es b' v v'. repair_chain = genesis ''r'' ''p'' current_major # es \<and> length es = 2 \<and> map r_seq (idx_record repair_index) = [1]
     \<and> reconcile_entries (\<lambda>s. s) (\<lambda>_. Some JNull) repair_index ''r'' repair_chain current_major True = Inr (b', v)
     \<and> divergences v = [IndexBehind 2] \<and> map r_seq (idx_record b') = [1, 2]
     \<and> (\<forall>e \<in> set es. \<exists>s r. jget e ''seq'' = JInt s \<and> row_at b' ''r'' s = Some r \<and> r_link r = digest (\<lambda>s. s) (link_of e))
     \<and> reconcile_entries (\<lambda>s. s) (\<lambda>_. Some JNull) b' ''r'' repair_chain current_major False = Inr (b', v') \<and> divergences v' = [] \<and> v_ok v'"
proof -
  obtain b' v where r: "reconcile_entries (\<lambda>s. s) (\<lambda>_. Some JNull) repair_index ''r'' repair_chain current_major True = Inr (b', v)"
    and v: "v_ok v" "divergences v = [IndexBehind 2]" "map r_seq (idx_record b') = [1, 2]" and ix: "map r_seq (idx_record repair_index) = [1]"
    using repair_cycle by (auto split: sum.split_asm)
  have c: "hd repair_chain = genesis ''r'' ''p'' current_major" "length repair_chain = 3" "list_all (\<lambda>e. jget e ''run_id'' = JStr ''r'') repair_chain" by code_simp+
  obtain g es where ge: "repair_chain = g # es" using c(2) by (cases repair_chain) auto
  have es: "repair_chain = genesis ''r'' ''p'' current_major # es" "length es = 2" "owned ''r'' es"
    using c unfolding ge by (simp_all add: owned_def list_all_iff)
  have p: "\<forall>j. (\<lambda>_ :: string. Some JNull) (store_canon j) \<noteq> None" by simp
  note all = reconcile_repairs [OF r [unfolded es(1)] v(1) repair_start(1) es(3) p, folded es(1)]
  obtain v' where again: "reconcile_entries (\<lambda>s. s) (\<lambda>_. Some JNull) b' ''r'' repair_chain current_major False = Inr (b', v')"
    and v': "divergences v' = (if get_origin repair_index ''r'' = None \<and> es \<noteq> [] then [OriginMissing] else [])"
      "v_ok v' \<longleftrightarrow> get_origin repair_index ''r'' \<noteq> None \<or> es = []"
    using all [THEN conjunct2] by (elim exE conjE)
  have o: "get_origin repair_index ''r'' \<noteq> None" by (simp add: repair_start(2))
  have quiet: "divergences v' = []" "v_ok v'" using v' o by simp_all
  show ?thesis
    by (rule exI [of _ es], rule exI [of _ b'], rule exI [of _ v], rule exI [of _ v'], intro conjI)
      (fact es(1) es(2) ix r v(2,3) again quiet all [THEN conjunct1])+
qed

end
