(* ===== verification/Text.thy ===== *)
theory Text
  imports Prelude
begin

text \<open>
  The Python string methods the governance and workflow code uses: join, replace, lower, strip and
  the search for a substring, on the character lists that model strings of ASCII and Latin-1
  characters.
\<close>

fun join_with :: "string \<Rightarrow> string list \<Rightarrow> string" where
  "join_with sep [] = []"
| "join_with sep [x] = x"
| "join_with sep (x # y # ys) = x @ sep @ join_with sep (y # ys)"

definition nl :: string where "nl = [CHR 0x0A]"
definition dquoted :: "string \<Rightarrow> string" where "dquoted s = [CHR 0x22] @ s @ [CHR 0x22]"

text \<open>\<open>s.replace(old, new)\<close> for a non-empty \<open>old\<close>: leftmost occurrences, without overlap.\<close>

function replace_str :: "string \<Rightarrow> string \<Rightarrow> string \<Rightarrow> string" where
  "replace_str old new s =
     (if old = [] then s
      else case s of [] \<Rightarrow> []
        | c # cs \<Rightarrow> if prefix old s then new @ replace_str old new (drop (length old) s)
                    else c # replace_str old new cs)"
  by pat_completeness auto
termination by (relation "measure (\<lambda>(old, new, s). length s)") auto

declare replace_str.simps [simp del]

text \<open>\<open>p in s\<close> for strings.\<close>

definition contains :: "string \<Rightarrow> string \<Rightarrow> bool" where
  "contains s p \<longleftrightarrow> list_ex (prefix p) (suffixes s)"

lemma contains_sublist: "contains s p \<longleftrightarrow> (\<exists>u v. s = u @ p @ v)"
proof
  assume "contains s p"
  then obtain t where "suffix t s" "prefix p t" by (auto simp: contains_def list_ex_iff)
  then show "\<exists>u v. s = u @ p @ v" by (auto simp: suffix_def prefix_def)
next
  assume "\<exists>u v. s = u @ p @ v"
  then obtain u v where "s = u @ p @ v" by blast
  then have "p @ v \<in> set (suffixes s)" by (auto simp: suffix_def)
  then show "contains s p" unfolding contains_def list_ex_iff by (rule bexI [rotated]) simp
qed

text \<open>\<open>s.lower()\<close> on ASCII letters.\<close>

definition lower_char :: "char \<Rightarrow> char" where
  "lower_char c = (let n = of_char c :: nat in if 65 \<le> n \<and> n \<le> 90 then char_of (n + 32) else c)"

definition lower :: "string \<Rightarrow> string" where "lower = map lower_char"

text \<open>White space as \<open>str.split\<close> and \<open>str.strip\<close> read it (the ASCII and Latin-1 range).\<close>

definition is_space :: "char \<Rightarrow> bool" where
  "is_space c = (let n = of_char c :: nat in (9 \<le> n \<and> n \<le> 13) \<or> (28 \<le> n \<and> n \<le> 32) \<or> n = 133 \<or> n = 160)"

definition lstrip :: "string \<Rightarrow> string" where "lstrip s = dropWhile is_space s"
definition rstrip :: "string \<Rightarrow> string" where "rstrip s = rev (dropWhile is_space (rev s))"
definition strip :: "string \<Rightarrow> string" where "strip s = rstrip (lstrip s)"

text \<open>\<open>s.split(None, 1)\<close>: at most two parts.\<close>

definition split_ws1 :: "string \<Rightarrow> string list" where
  "split_ws1 s =
     (let t = lstrip s; w = takeWhile (\<lambda>c. \<not> is_space c) t; r = lstrip (dropWhile (\<lambda>c. \<not> is_space c) t)
      in if t = [] then [] else if r = [] then [w] else [w, r])"

lemma strip_no_space: "strip s = [] \<or> \<not> is_space (hd (strip s)) \<and> \<not> is_space (List.last (strip s))"
proof -
  have r: "rstrip t = [] \<or> \<not> is_space (List.last (rstrip t))" for t
  proof (cases "dropWhile is_space (rev t)")
    case (Cons c cs)
    then have "\<not> is_space c" by (metis dropWhile_eq_Cons_conv)
    then show ?thesis using Cons by (simp add: rstrip_def)
  qed (simp add: rstrip_def)
  have "rstrip t = [] \<or> (\<exists>u. t = rstrip t @ u)" for t
    by (metis rstrip_def rev_append rev_rev_ident takeWhile_dropWhile_id)
  then have "rstrip t = [] \<or> hd (rstrip t) = hd t" for t by (metis hd_append2)
  moreover have "lstrip s = [] \<or> \<not> is_space (hd (lstrip s))"
    by (metis lstrip_def hd_dropWhile)
  moreover have "lstrip s = [] \<Longrightarrow> strip s = []" by (simp add: strip_def rstrip_def)
  ultimately show ?thesis using r [of "lstrip s"] unfolding strip_def by metis
qed

end
