(* ===== verification/Workflow.thy ===== *)
theory Workflow
  imports Text
begin

text \<open>
  Workflow model checking (\<open>src/infra/cwp/workflow.py\<close>, \<open>src/infra/cwp/tla_emit.py\<close>): workflows as
  small typed state machines, the TLA+ module emitted for them, the seeded violations, the saga,
  the algebra of sequential and parallel composition, and the settlement lifecycle. The three
  provers are external programs: functions from the files they are given to their output,
  \<open>None\<close> for a time-out.
\<close>

section \<open>Workflows\<close>

datatype fval = VBool bool | VInt int

record flag_spec =
  f_type :: string
  f_init :: fval

record wf_trans =
  t_from :: string
  t_to :: string
  t_set :: "(string, fval) dict"

record workflow =
  wf_name :: string
  wf_states :: "string list"
  wf_entry :: string
  wf_flags :: "(string, flag_spec) dict"
  wf_transitions :: "wf_trans list"
  wf_invariants :: "(string, string) dict"

abbreviation trans_to :: "string \<Rightarrow> string \<Rightarrow> (string, fval) dict \<Rightarrow> wf_trans" where
  "trans_to a b s \<equiv> \<lparr>t_from = a, t_to = b, t_set = s\<rparr>"

abbreviation bool_flag :: "bool \<Rightarrow> flag_spec" where
  "bool_flag b \<equiv> \<lparr>f_type = ''Bool'', f_init = VBool b\<rparr>"

abbreviation int_flag :: "int \<Rightarrow> flag_spec" where
  "int_flag i \<equiv> \<lparr>f_type = ''Int'', f_init = VInt i\<rparr>"

section \<open>The TLA+ module\<close>

definition tla_val :: "fval \<Rightarrow> string" where
  "tla_val v = (case v of VBool b \<Rightarrow> if b then ''TRUE'' else ''FALSE'' | VInt i \<Rightarrow> show_int i)"

definition conj_sep :: string where "conj_sep = '' /'' @ [CHR 0x5C] @ '' ''"
definition and_line :: string where "and_line = nl @ ''  /'' @ [CHR 0x5C] @ '' ''"
definition or_line :: string where "or_line = nl @ ''  '' @ [CHR 0x5C] @ ''/ ''"

definition var_lines :: "(string \<times> string) list \<Rightarrow> string list" where
  "var_lines decls =
     concat (map (\<lambda>(i, v, ty). [''  '' @ [CHR 0x5C] @ ''* @type: '' @ ty @ '';'',
                                ''  '' @ v @ (if i + 1 < length decls then '','' else [])])
                 (zip [0..<length decls] decls))"

definition states_text :: "string list \<Rightarrow> string" where
  "states_text ss = ''{'' @ join_with '', '' (map dquoted ss) @ ''}''"

definition init_conjuncts :: "workflow \<Rightarrow> string list" where
  "init_conjuncts w = (''pc = '' @ dquoted (wf_entry w)) # map (\<lambda>(f, s). f @ '' = '' @ tla_val (f_init s)) (wf_flags w)"

definition type_conjuncts :: "workflow \<Rightarrow> string list" where
  "type_conjuncts w = (''pc '' @ [CHR 0x5C] @ ''in States'') #
     map (\<lambda>(f, s). f @ '' '' @ [CHR 0x5C] @ (if f_type s = ''Bool'' then ''in BOOLEAN'' else ''in Nat'')) (wf_flags w)"

definition trans_text :: "string list \<Rightarrow> wf_trans \<Rightarrow> string" where
  "trans_text flags t =
     ''('' @ join_with conj_sep
        ([''pc = '' @ dquoted (t_from t), ''pc'' @ [CHR 0x27] @ '' = '' @ dquoted (t_to t)]
         @ map (\<lambda>f. case dget (t_set t) f of
                  Some v \<Rightarrow> f @ [CHR 0x27] @ '' = '' @ tla_val v | None \<Rightarrow> ''UNCHANGED '' @ f) flags) @ '')''"

definition terminal_text :: "string list \<Rightarrow> string \<Rightarrow> string" where
  "terminal_text flags s =
     ''('' @ join_with conj_sep ([''pc = '' @ dquoted s, ''UNCHANGED pc''] @ map (\<lambda>f. ''UNCHANGED '' @ f) flags) @ '')''"

definition emit_tla :: "workflow \<Rightarrow> string res" where
  "emit_tla w =
     (let flags = map fst (wf_flags w); varnames = ''pc'' # flags
      in if wf_states w = [] then Inl IndexError
         else Inr (join_with nl
           ([''---- MODULE '' @ wf_name w @ '' ----'', ''EXTENDS Naturals, TLC'', [], ''VARIABLES'']
            @ var_lines ((''pc'', ''Str'') # map (\<lambda>(f, s). (f, f_type s)) (wf_flags w))
            @ [[], ''States == '' @ states_text (wf_states w),
               ''Init =='' @ and_line @ join_with and_line (init_conjuncts w),
               ''Next =='' @ or_line @ join_with or_line
                 (map (trans_text flags) (wf_transitions w) @ [terminal_text flags (List.last (wf_states w))]),
               ''Spec == Init /'' @ [CHR 0x5C] @ '' [][Next]_<<'' @ join_with '', '' varnames @ ''>>'', [],
               ''TypeOK == '' @ join_with conj_sep (type_conjuncts w)]
            @ map (\<lambda>(n, p). n @ '' == '' @ p) (wf_invariants w)
            @ [''====''])
           @ nl))"

definition invariant_names :: "workflow \<Rightarrow> string list" where
  "invariant_names w = ''TypeOK'' # map fst (wf_invariants w)"

section \<open>Seeded violations\<close>

definition py_not :: "fval \<Rightarrow> bool" where
  "py_not v = (case v of VBool b \<Rightarrow> \<not> b | VInt i \<Rightarrow> i = 0)"

definition violating :: "flag_spec \<Rightarrow> fval \<Rightarrow> fval" where
  "violating s v = (if f_type s = ''Bool'' then VBool (py_not v) else VInt 999999)"

definition seed_transition :: "flag_spec \<Rightarrow> string \<Rightarrow> wf_trans \<Rightarrow> wf_trans" where
  "seed_transition s flag t =
     (case dget (t_set t) flag of None \<Rightarrow> t | Some v \<Rightarrow> t \<lparr>t_set := dput flag (violating s v) (t_set t)\<rparr>)"

definition seed_violation :: "workflow \<Rightarrow> string \<Rightarrow> workflow res" where
  "seed_violation w flag =
     bindR (lookup_or_raise (wf_flags w) flag) (\<lambda>s.
       if \<exists>t \<in> set (wf_transitions w). dget (t_set t) flag \<noteq> None
       then Inr (w \<lparr>wf_transitions := map (seed_transition s flag) (wf_transitions w)\<rparr>)
       else case wf_transitions w of
              [] \<Rightarrow> Inl IndexError
            | t # ts \<Rightarrow> Inr (w \<lparr>wf_transitions := t \<lparr>t_set := dput flag (violating s (f_init s)) (t_set t)\<rparr> # ts\<rparr>))"

section \<open>The workflows of the repository\<close>

definition sample_wf :: workflow where
  "sample_wf = \<lparr>wf_name = ''Sample'', wf_states = [''ready'', ''running'', ''done''], wf_entry = ''ready'',
     wf_flags = [(''started'', bool_flag False), (''steps'', int_flag 0)],
     wf_transitions =
       [trans_to ''ready'' ''running'' [(''started'', VBool True), (''steps'', VInt 0)],
        trans_to ''running'' ''done'' [(''started'', VBool True), (''steps'', VInt 1)]],
     wf_invariants = [(''StartedBeforeDone'', ''pc = '' @ dquoted ''done'' @ '' => started''), (''StepsBounded'', ''steps <= 2'')]\<rparr>"

definition saga_wf :: workflow where
  "saga_wf = \<lparr>wf_name = ''Saga'', wf_states = [''ready'', ''running'', ''committed'', ''compensating'', ''done''],
     wf_entry = ''ready'',
     wf_flags = [(''failed'', bool_flag False), (''compensated'', bool_flag False)],
     wf_transitions =
       [trans_to ''ready'' ''running'' [(''failed'', VBool False), (''compensated'', VBool False)],
        trans_to ''running'' ''committed'' [(''failed'', VBool False)],
        trans_to ''running'' ''compensating'' [(''failed'', VBool True)],
        trans_to ''compensating'' ''done'' [(''compensated'', VBool True)],
        trans_to ''committed'' ''done'' []],
     wf_invariants = [(''SagaCompensates'', ''(failed'' @ conj_sep @ ''pc = '' @ dquoted ''done'' @ '') => compensated'')]\<rparr>"

definition buggy_saga :: workflow where
  "buggy_saga = saga_wf \<lparr>wf_name := ''SagaBuggy'',
     wf_transitions := wf_transitions saga_wf @ [trans_to ''compensating'' ''done'' []]\<rparr>"

definition plan_workflow :: workflow where
  "plan_workflow = \<lparr>wf_name = ''PlanWorkflow'',
     wf_states = [''ready'', ''validated'', ''composed'', ''compiled'', ''overseen'', ''executed''], wf_entry = ''ready'',
     wf_flags = [(''oversaw'', bool_flag False)],
     wf_transitions =
       [trans_to ''ready'' ''validated'' [], trans_to ''validated'' ''composed'' [], trans_to ''composed'' ''compiled'' [],
        trans_to ''compiled'' ''overseen'' [(''oversaw'', VBool True)], trans_to ''overseen'' ''executed'' []],
     wf_invariants = [(''GovernedExecution'', ''pc = '' @ dquoted ''executed'' @ '' => oversaw'')]\<rparr>"

definition settlement_workflow :: workflow where
  "settlement_workflow = \<lparr>wf_name = ''Settlement'',
     wf_states = [''quoted'', ''funded'', ''checked'', ''cancelled'', ''settled''], wf_entry = ''quoted'',
     wf_flags = [(''funded'', bool_flag False), (''validated'', bool_flag False), (''paid'', int_flag 0), (''escrow'', bool_flag False)],
     wf_transitions =
       [trans_to ''quoted'' ''funded'' [(''funded'', VBool True), (''escrow'', VBool True)],
        trans_to ''funded'' ''checked'' [(''validated'', VBool True)],
        trans_to ''checked'' ''settled'' [(''paid'', VInt 1), (''escrow'', VBool False)],
        trans_to ''funded'' ''cancelled'' [(''escrow'', VBool False)],
        trans_to ''checked'' ''cancelled'' [(''escrow'', VBool False)],
        trans_to ''cancelled'' ''cancelled'' []],
     wf_invariants =
       [(''SettleNeedsValidate'', ''pc = '' @ dquoted ''settled'' @ '' => validated''),
        (''SettleNeedsFund'', ''pc = '' @ dquoted ''settled'' @ '' => funded''),
        (''AtMostOnePayout'', ''paid <= 1''),
        (''EscrowDrainsAtTerminal'',
         ''(pc = '' @ dquoted ''settled'' @ '' '' @ [CHR 0x5C] @ ''/ pc = '' @ dquoted ''cancelled'' @ '') => escrow = FALSE'')]\<rparr>"

type_synonym corpus_entry = "string \<times> workflow \<times> bool"

definition corpus :: "corpus_entry list res" where
  "corpus =
     bindR (seed_violation sample_wf ''started'') (\<lambda>s1.
     bindR (seed_violation sample_wf ''steps'') (\<lambda>s2.
       Inr [(''sample'', sample_wf, True), (''seed-started'', s1, False), (''seed-steps'', s2, False),
            (''saga-good'', saga_wf, True), (''saga-skip-compensation'', buggy_saga, False),
            (''plan-pipeline'', plan_workflow, True)]))"

definition settlement_corpus :: "corpus_entry list res" where
  "settlement_corpus =
     bindR (seed_violation settlement_workflow ''validated'') (\<lambda>m1.
     bindR (seed_violation settlement_workflow ''paid'') (\<lambda>m2.
     bindR (seed_violation settlement_workflow ''escrow'') (\<lambda>m3.
       Inr [(''settlement-clean'', settlement_workflow, True), (''mutant-settle-before-validate'', m1, False),
            (''mutant-double-settle'', m2, False), (''mutant-strand-escrow'', m3, False)])))"

section \<open>The three provers\<close>

record prover_result =
  prover :: string
  p_cert :: string
  p_verdict :: string
  p_ok :: "bool option"

abbreviation skipped_result :: "string \<Rightarrow> string \<Rightarrow> prover_result" where
  "skipped_result p c \<equiv> \<lparr>prover = p, p_cert = c, p_verdict = ''skipped'', p_ok = None\<rparr>"

abbreviation timeout_result :: "string \<Rightarrow> string \<Rightarrow> prover_result" where
  "timeout_result p c \<equiv> \<lparr>prover = p, p_cert = c, p_verdict = ''timeout'', p_ok = Some False\<rparr>"

text \<open>\<open>run module cfg\<close> is TLC's standard output.\<close>

definition check_tlc :: "bool \<Rightarrow> (string \<Rightarrow> string \<Rightarrow> string option) \<Rightarrow> workflow \<Rightarrow> prover_result res" where
  "check_tlc installed run w =
     (if \<not> installed then Inr (skipped_result ''tlc'' ''EMPIRICAL'')
      else bindR (emit_tla w) (\<lambda>tla.
        let cfg = join_with nl ([''INIT Init'', ''NEXT Next''] @ map (\<lambda>n. ''INVARIANT '' @ n) (invariant_names w)) @ nl
        in Inr (case run tla cfg of
             None \<Rightarrow> timeout_result ''tlc'' ''EMPIRICAL''
           | Some out \<Rightarrow>
               let ok = contains out ''No error has been found''
               in \<lparr>prover = ''tlc'', p_cert = ''EMPIRICAL'', p_verdict = (if ok then ''no_error'' else ''violation''),
                   p_ok = Some ok\<rparr>)))"

definition check_apalache :: "bool \<Rightarrow> (string \<Rightarrow> string option) \<Rightarrow> workflow \<Rightarrow> prover_result res" where
  "check_apalache installed run w =
     (if \<not> installed then Inr (skipped_result ''apalache'' ''SYMBOLIC'')
      else bindR (emit_tla w) (\<lambda>tla.
        let src = replace_str ''===='' (''AllInv == '' @ join_with conj_sep (invariant_names w) @ nl @ ''===='') tla
        in Inr (case run src of
             None \<Rightarrow> timeout_result ''apalache'' ''SYMBOLIC''
           | Some out \<Rightarrow>
               let ok = contains out ''EXITCODE: OK'' \<or> contains out ''No error'';
                   viol = contains out ''EXITCODE: ERROR (12)'' \<or> contains (lower out) ''counterexample''
               in \<lparr>prover = ''apalache'', p_cert = ''SYMBOLIC'',
                   p_verdict = (if ok then ''no_error'' else if viol then ''violation'' else ''error''), p_ok = Some ok\<rparr>)))"

definition tlaps_module :: "workflow \<Rightarrow> string" where
  "tlaps_module w =
     ''---- MODULE '' @ wf_name w @ ''Proof ----'' @ nl @ ''EXTENDS Naturals'' @ nl
     @ ''VARIABLES '' @ join_with '', '' (''pc'' # map fst (wf_flags w)) @ nl
     @ ''States == '' @ states_text (wf_states w) @ nl
     @ ''Init == '' @ join_with conj_sep (init_conjuncts w) @ nl
     @ ''TypeOK == '' @ join_with conj_sep (type_conjuncts w) @ nl
     @ ''THEOREM InitEstablishesType == Init => TypeOK'' @ nl @ ''  BY DEF Init, TypeOK, States'' @ nl @ ''===='' @ nl"

text \<open>The regular expression: \<open>obligation proved\<close> or \<open>obligations proved\<close> at the start of a word.\<close>

definition word_char :: "char \<Rightarrow> bool" where
  "word_char c = (let n = of_char (lower_char c) :: nat in (97 \<le> n \<and> n \<le> 122) \<or> (48 \<le> n \<and> n \<le> 57) \<or> n = 95)"

definition obligations_proved :: "string \<Rightarrow> bool" where
  "obligations_proved out \<longleftrightarrow>
     list_ex (\<lambda>i. (i = 0 \<or> \<not> word_char (out ! (i - 1)))
        \<and> (prefix ''obligation proved'' (drop i out) \<or> prefix ''obligations proved'' (drop i out))) [0..<length out]"

definition check_tlaps :: "bool \<Rightarrow> (string \<Rightarrow> string option) \<Rightarrow> workflow \<Rightarrow> prover_result" where
  "check_tlaps installed run w =
     (if \<not> installed then skipped_result ''tlaps'' ''AXIOMATIC''
      else case run (tlaps_module w) of
             None \<Rightarrow> timeout_result ''tlaps'' ''AXIOMATIC''
           | Some out \<Rightarrow>
               let proved = obligations_proved out \<and> \<not> contains (lower out) ''failed''
               in \<lparr>prover = ''tlaps'', p_cert = ''AXIOMATIC'', p_verdict = (if proved then ''proved'' else ''unproved''),
                   p_ok = Some proved\<rparr>)"

record run_summary =
  rs_results :: "prover_result list"
  rs_certs :: "string list"
  rs_clean :: bool

definition run_all ::
  "(workflow \<Rightarrow> prover_result res) \<Rightarrow> (workflow \<Rightarrow> prover_result res) \<Rightarrow> (workflow \<Rightarrow> prover_result) \<Rightarrow> workflow \<Rightarrow> run_summary res" where
  "run_all tlc apa tlaps w =
     bindR (tlc w) (\<lambda>a. bindR (apa w) (\<lambda>b.
       let results = [a, b, tlaps w];
           actionable = filter (\<lambda>r. p_verdict r \<noteq> ''skipped'') results
       in Inr \<lparr>rs_results = results,
               rs_certs = sort (remdups (map p_cert (filter (\<lambda>r. p_ok r = Some True) results))),
               rs_clean = (actionable \<noteq> [] \<and> (\<forall>r \<in> set actionable. p_ok r = Some True))\<rparr>))"

definition have_all_three ::
  "(workflow \<Rightarrow> prover_result res) \<Rightarrow> (workflow \<Rightarrow> prover_result res) \<Rightarrow> (workflow \<Rightarrow> prover_result) \<Rightarrow> bool res" where
  "have_all_three tlc apa tlaps =
     bindR (run_all tlc apa tlaps saga_wf) (\<lambda>r. Inr (set (rs_certs r) = {''EMPIRICAL'', ''SYMBOLIC'', ''AXIOMATIC''}))"

record corpus_row =
  cr_name :: string
  tlc_correct :: bool
  apalache_correct :: bool
  agree :: "bool option"

definition corpus_row_of ::
  "(workflow \<Rightarrow> prover_result res) \<Rightarrow> (workflow \<Rightarrow> prover_result res) \<Rightarrow> corpus_entry \<Rightarrow> corpus_row res" where
  "corpus_row_of tlc apa e =
     (case e of (name, w, expect_clean) \<Rightarrow>
        bindR (tlc w) (\<lambda>t. bindR (apa w) (\<lambda>a.
          let want = (if expect_clean then ''no_error'' else ''violation'')
          in Inr \<lparr>cr_name = name, tlc_correct = (p_verdict t = want), apalache_correct = (p_verdict a = want),
                  agree = (if p_verdict a \<in> {''no_error'', ''violation''} then Some (p_ok t = p_ok a) else None)\<rparr>)))"

definition run_corpus ::
  "(workflow \<Rightarrow> prover_result res) \<Rightarrow> (workflow \<Rightarrow> prover_result res) \<Rightarrow> bool res" where
  "run_corpus tlc apa =
     bindR corpus (\<lambda>es. bindR (mapR (corpus_row_of tlc apa) es) (\<lambda>rows.
       Inr (length (filter tlc_correct rows) = length rows
            \<and> int (length rows) - 1 \<le> int (length (filter apalache_correct rows))
            \<and> filter (\<lambda>r. agree r = Some False) rows = [])))"

text \<open>The clean model under both provers, and every mutant caught; Apalache may miss one.\<close>

definition prove_settlement ::
  "(workflow \<Rightarrow> prover_result res) \<Rightarrow> (workflow \<Rightarrow> prover_result res) \<Rightarrow> bool res" where
  "prove_settlement tlc apa =
     bindR settlement_corpus (\<lambda>es. bindR (mapR (corpus_row_of tlc apa) es) (\<lambda>rows.
       case rows of
         [] \<Rightarrow> Inl IndexError
       | clean # mutants \<Rightarrow>
           Inr (tlc_correct clean \<and> apalache_correct clean \<and> (\<forall>m \<in> set mutants. tlc_correct m)
                \<and> int (length mutants) - 1 \<le> int (length (filter apalache_correct mutants)))))"

section \<open>The saga\<close>

record saga_log =
  failed_at :: "int option"
  ran :: "int list"
  compensated :: "int list"
  compensation_ran :: bool

fun saga_loop :: "int list \<Rightarrow> int option \<Rightarrow> int list \<Rightarrow> saga_log" where
  "saga_loop [] fail done = \<lparr>failed_at = None, ran = done, compensated = [], compensation_ran = True\<rparr>"
| "saga_loop (i # is) fail done =
     (if fail = Some i
      then let comp = foldl (\<lambda>c j. c @ [j]) [] (rev done)
           in \<lparr>failed_at = Some i, ran = done, compensated = comp, compensation_ran = (comp = rev done)\<rparr>
      else saga_loop is fail (done @ [i]))"

definition run_saga :: "int \<Rightarrow> int option \<Rightarrow> saga_log" where
  "run_saga n fail = saga_loop [0..n - 1] fail []"

section \<open>Reachability and composition\<close>

definition adjacency :: "workflow \<Rightarrow> (string, string list) dict" where
  "adjacency w = foldl (\<lambda>d t. dput (t_from t) (dget_default d (t_from t) [] @ [t_to t]) d) [] (wf_transitions w)"

text \<open>Visiting the successors of one state: the new ones are marked and pushed.\<close>

definition visit :: "string list \<times> string list \<Rightarrow> string \<Rightarrow> string list \<times> string list" where
  "visit sf s = (if s \<in> set (fst sf) then sf else (s # fst sf, snd sf @ [s]))"

partial_function (option) reach_loop ::
  "(string, string list) dict \<Rightarrow> string list \<Rightarrow> string list \<Rightarrow> string list option" where
  "reach_loop adj seen frontier =
     (if frontier = [] then Some seen
      else let (seen', frontier') = foldl visit (seen, butlast frontier) (dget_default adj (List.last frontier) [])
           in reach_loop adj seen' frontier')"

definition reachable_states :: "workflow \<Rightarrow> string list option" where
  "reachable_states w = reach_loop (adjacency w) [wf_entry w] [wf_entry w]"

definition prefixed :: "string \<Rightarrow> string \<Rightarrow> string" where
  "prefixed p s = p @ ''_'' @ s"

definition prefix_wf :: "workflow \<Rightarrow> string \<Rightarrow> workflow" where
  "prefix_wf w p = w \<lparr>wf_states := map (prefixed p) (wf_states w), wf_entry := prefixed p (wf_entry w),
     wf_flags := map (\<lambda>(k, v). (prefixed p k, v)) (wf_flags w),
     wf_transitions := map (\<lambda>t. trans_to (prefixed p (t_from t)) (prefixed p (t_to t))
                                  (map (\<lambda>(k, v). (prefixed p k, v)) (t_set t))) (wf_transitions w)\<rparr>"

definition pair_state :: "string \<Rightarrow> string \<Rightarrow> string" where
  "pair_state s1 s2 = s1 @ ''|'' @ s2"

definition par_transitions :: "workflow \<Rightarrow> workflow \<Rightarrow> wf_trans list" where
  "par_transitions a b =
     concat (map (\<lambda>s1. concat (map (\<lambda>s2.
       map (\<lambda>t. trans_to (pair_state s1 s2) (pair_state (t_to t) s2) (t_set t))
         (filter (\<lambda>t. t_from t = s1) (wf_transitions a))
       @ map (\<lambda>t. trans_to (pair_state s1 s2) (pair_state s1 (t_to t)) (t_set t))
         (filter (\<lambda>t. t_from t = s2) (wf_transitions b))) (wf_states b))) (wf_states a))"

definition compose_wf :: "workflow \<Rightarrow> workflow \<Rightarrow> string \<Rightarrow> workflow res" where
  "compose_wf w1 w2 op =
     (let a = prefix_wf w1 ''a''; b = prefix_wf w2 ''b'';
          flags = foldl (\<lambda>d (k, v). dput k v d) (wf_flags a) (wf_flags b)
      in if op = ''seq'' then
           if wf_states a = [] then Inl IndexError
           else Inr \<lparr>wf_name = ''Seq_'' @ wf_name w1 @ ''_'' @ wf_name w2, wf_states = wf_states a @ wf_states b,
                     wf_entry = wf_entry a, wf_flags = flags,
                     wf_transitions = wf_transitions a @ wf_transitions b
                       @ [trans_to (List.last (wf_states a)) (wf_entry b) []],
                     wf_invariants = []\<rparr>
         else if op = ''par'' then
           if wf_states a = [] \<or> wf_states b = [] then Inl IndexError
           else let states = concat (map (\<lambda>s1. map (pair_state s1) (wf_states b)) (wf_states a));
                    term = pair_state (List.last (wf_states a)) (List.last (wf_states b))
                in Inr \<lparr>wf_name = ''Par_'' @ wf_name w1 @ ''_'' @ wf_name w2,
                        wf_states = filter (\<lambda>s. s \<noteq> term) states @ [term],
                        wf_entry = pair_state (wf_entry a) (wf_entry b), wf_flags = flags,
                        wf_transitions = par_transitions a b, wf_invariants = []\<rparr>
         else Inl ValueError)"

definition algebra_budget :: "nat \<Rightarrow> (bool \<times> bool) option res" where
  "algebra_budget budget =
     bindR (compose_wf sample_wf saga_wf ''seq'') (\<lambda>p. bindR (compose_wf sample_wf saga_wf ''par'') (\<lambda>q.
       Inr (case (reachable_states p, reachable_states q) of
              (Some m, Some n) \<Rightarrow>
                Some (length m \<le> budget \<and> length n \<le> budget,
                      length m < length (wf_states p) + 1 \<and> length n < length (wf_states q) + 1)
            | _ \<Rightarrow> None)))"

section \<open>The lifecycle against its blueprint\<close>

definition edges :: "(string \<times> string) list \<Rightarrow> (string \<times> string) list" where
  "edges ts = filter (\<lambda>(a, b). a \<noteq> b) ts"

definition implemented_lifecycle :: "(string \<times> string) list" where
  "implemented_lifecycle = edges (map (\<lambda>t. (t_from t, t_to t)) (wf_transitions settlement_workflow))"

record bisim_answer =
  bisimilar :: bool
  code_only :: "(string \<times> string) list"
  blueprint_only :: "(string \<times> string) list"

definition bisimilar_to_blueprint :: "(string \<times> string) list \<Rightarrow> bisim_answer" where
  "bisimilar_to_blueprint blueprint =
     (let impl = implemented_lifecycle; bp = edges blueprint;
          co = sort (remdups (filter (\<lambda>e. e \<notin> set bp) impl)); bo = sort (remdups (filter (\<lambda>e. e \<notin> set impl) bp))
      in \<lparr>bisimilar = (co = [] \<and> bo = []), code_only = co, blueprint_only = bo\<rparr>)"

definition prove_bisimulation :: "(string \<times> string) list \<Rightarrow> bool" where
  "prove_bisimulation blueprint \<longleftrightarrow>
     bisimilar (bisimilar_to_blueprint blueprint) \<and> (''funded'', ''settled'') \<notin> set (edges blueprint)"

section \<open>What the modules mean\<close>

text \<open>
  The transition system of an emitted module: a value for the program counter and for each declared
  flag; the last state may stutter. A flag that is set but not declared is not a variable.
\<close>

type_synonym wf_state = "string \<times> (string, fval) dict"

definition init_state :: "workflow \<Rightarrow> wf_state" where
  "init_state w = (wf_entry w, map (\<lambda>(f, s). (f, f_init s)) (wf_flags w))"

definition fire :: "wf_trans \<Rightarrow> (string, fval) dict \<Rightarrow> wf_state" where
  "fire t v = (t_to t, map (\<lambda>(f, x). (f, case dget (t_set t) f of Some y \<Rightarrow> y | None \<Rightarrow> x)) v)"

inductive wf_step :: "workflow \<Rightarrow> wf_state \<Rightarrow> wf_state \<Rightarrow> bool" for w where
  step_fire: "t \<in> set (wf_transitions w) \<Longrightarrow> wf_step w (t_from t, v) (fire t v)"
| step_stay: "wf_states w \<noteq> [] \<Longrightarrow> wf_step w (List.last (wf_states w), v) (List.last (wf_states w), v)"

inductive_simps wf_step_simps: "wf_step w (pc, v) st"

inductive wf_reach :: "workflow \<Rightarrow> wf_state \<Rightarrow> bool" for w where
  reach_init: "wf_reach w (init_state w)"
| reach_step: "wf_reach w st \<Longrightarrow> wf_step w st st' \<Longrightarrow> wf_reach w st'"

text \<open>The invariants are texts; \<open>pred_text\<close> prints the predicates that the repository uses.\<close>

datatype pred = PcIs string | FlagTrue string | FlagFalse string | FlagLe string int
  | PAnd pred pred | POr pred pred | PImp pred pred

fun pred_text :: "pred \<Rightarrow> string" where
  "pred_text (PcIs s) = ''pc = '' @ dquoted s"
| "pred_text (FlagTrue f) = f"
| "pred_text (FlagFalse f) = f @ '' = FALSE''"
| "pred_text (FlagLe f i) = f @ '' <= '' @ show_int i"
| "pred_text (PAnd p q) = ''('' @ pred_text p @ conj_sep @ pred_text q @ '')''"
| "pred_text (POr p q) = ''('' @ pred_text p @ '' '' @ [CHR 0x5C] @ ''/ '' @ pred_text q @ '')''"
| "pred_text (PImp p q) = pred_text p @ '' => '' @ pred_text q"

fun pred_holds :: "wf_state \<Rightarrow> pred \<Rightarrow> bool" where
  "pred_holds st (PcIs s) \<longleftrightarrow> fst st = s"
| "pred_holds st (FlagTrue f) \<longleftrightarrow> dget (snd st) f = Some (VBool True)"
| "pred_holds st (FlagFalse f) \<longleftrightarrow> dget (snd st) f = Some (VBool False)"
| "pred_holds st (FlagLe f i) \<longleftrightarrow> (case dget (snd st) f of Some (VInt n) \<Rightarrow> n \<le> i | _ \<Rightarrow> False)"
| "pred_holds st (PAnd p q) \<longleftrightarrow> pred_holds st p \<and> pred_holds st q"
| "pred_holds st (POr p q) \<longleftrightarrow> pred_holds st p \<or> pred_holds st q"
| "pred_holds st (PImp p q) \<longleftrightarrow> (pred_holds st p \<longrightarrow> pred_holds st q)"

definition value_ok :: "flag_spec \<Rightarrow> fval option \<Rightarrow> bool" where
  "value_ok s v = (case v of Some (VBool _) \<Rightarrow> f_type s = ''Bool'' | Some (VInt i) \<Rightarrow> f_type s \<noteq> ''Bool'' \<and> 0 \<le> i | None \<Rightarrow> False)"

definition type_ok :: "workflow \<Rightarrow> wf_state \<Rightarrow> bool" where
  "type_ok w st \<longleftrightarrow> fst st \<in> set (wf_states w) \<and> list_all (\<lambda>(f, s). value_ok s (dget (snd st) f)) (wf_flags w)"

definition repository_preds :: "pred list" where
  "repository_preds =
     [PImp (PcIs ''done'') (FlagTrue ''started''), FlagLe ''steps'' 2,
      PImp (PAnd (FlagTrue ''failed'') (PcIs ''done'')) (FlagTrue ''compensated''),
      PImp (PcIs ''executed'') (FlagTrue ''oversaw''),
      PImp (PcIs ''settled'') (FlagTrue ''validated''), PImp (PcIs ''settled'') (FlagTrue ''funded''),
      FlagLe ''paid'' 1, PImp (POr (PcIs ''settled'') (PcIs ''cancelled'')) (FlagFalse ''escrow'')]"

definition preds_of :: "workflow \<Rightarrow> pred list" where
  "preds_of w = filter (\<lambda>p. pred_text p \<in> set (map snd (wf_invariants w))) repository_preds"

text \<open>A state a checker accepts: typed, every invariant holds, and it is no deadlock.\<close>

definition succs :: "workflow \<Rightarrow> wf_state \<Rightarrow> wf_state list" where
  "succs w st = map (\<lambda>t. fire t (snd st)) (filter (\<lambda>t. t_from t = fst st) (wf_transitions w))
     @ (if wf_states w \<noteq> [] \<and> fst st = List.last (wf_states w) then [st] else [])"

definition state_clean :: "workflow \<Rightarrow> wf_state \<Rightarrow> bool" where
  "state_clean w st \<longleftrightarrow> type_ok w st \<and> list_all (pred_holds st) (preds_of w) \<and> succs w st \<noteq> []"

lemma succs_iff: "st' \<in> set (succs w st) \<longleftrightarrow> wf_step w st st'"
  by (cases st) (auto simp: succs_def wf_step_simps fire_def)

text \<open>Exploration: a list of states that is closed under the steps contains every reachable state.\<close>

definition closed_under :: "workflow \<Rightarrow> wf_state list \<Rightarrow> bool" where
  "closed_under w sts \<longleftrightarrow> init_state w \<in> set sts \<and> list_all (\<lambda>st. list_all (\<lambda>st'. st' \<in> set sts) (succs w st)) sts"

fun explore :: "nat \<Rightarrow> workflow \<Rightarrow> wf_state list \<Rightarrow> wf_state list" where
  "explore 0 w sts = sts"
| "explore (Suc n) w sts = explore n w (remdups (sts @ concat (map (succs w) sts)))"

lemma explore_reach: "\<forall>st \<in> set sts. wf_reach w st \<Longrightarrow> st \<in> set (explore n w sts) \<Longrightarrow> wf_reach w st"
proof (induction n arbitrary: sts)
  case (Suc n)
  have "\<forall>st \<in> set (remdups (sts @ concat (map (succs w) sts))). wf_reach w st"
    using Suc.prems(1) reach_step by (auto simp: succs_iff)
  from Suc.IH [OF this] Suc.prems(2) show ?case by (simp only: explore.simps)
qed simp

lemma closed_reach: "closed_under w sts \<Longrightarrow> wf_reach w st \<Longrightarrow> st \<in> set sts"
  by (rotate_tac, induction rule: wf_reach.induct) (auto simp: closed_under_def list_all_iff simp flip: succs_iff)

definition explored :: "workflow \<Rightarrow> wf_state list" where
  "explored w = explore 5 w [init_state w]"

definition model_clean :: "workflow \<Rightarrow> bool" where
  "model_clean w \<longleftrightarrow> (\<forall>st. wf_reach w st \<longrightarrow> state_clean w st)"

lemma model_clean_explored:
  assumes "closed_under w (explored w)"
  shows "model_clean w \<longleftrightarrow> list_all (state_clean w) (explored w)"
proof -
  have "wf_reach w st" if "st \<in> set (explored w)" for st
    by (rule explore_reach [OF _ that [unfolded explored_def]]) (simp add: reach_init)
  then have "wf_reach w st \<longleftrightarrow> st \<in> set (explored w)" for st
    using closed_reach [OF assms] by blast
  then show ?thesis by (simp only: model_clean_def list_all_iff Ball_def)
qed

definition verdict_right :: "corpus_entry \<Rightarrow> bool" where
  "verdict_right e = (case e of (n, w, clean) \<Rightarrow>
     map pred_text (preds_of w) = map snd (wf_invariants w) \<and> closed_under w (explored w)
     \<and> (clean \<longleftrightarrow> list_all (state_clean w) (explored w)))"

lemma corpora_explored:
  "case (corpus, settlement_corpus) of (Inr xs, Inr ys) \<Rightarrow> list_all verdict_right (xs @ ys) | _ \<Rightarrow> False"
  by code_simp

text \<open>
  the money-safety model and the workflow corpus say what is expected of them. In each entry of
  both corpora the invariants are the predicates listed here, and the entry is expected to be clean
  exactly when every reachable state of the transition system is typed, satisfies all of them and is no
  deadlock. So the settlement lifecycle pays only validated and funded quotes, at most once, and drains
  the escrow at both ends, and each seeded money defect reaches a state that breaks an invariant.
\<close>

theorem corpora_verdicts:
  "\<exists>xs ys. corpus = Inr xs \<and> settlement_corpus = Inr ys
     \<and> (\<forall>(n, w, clean) \<in> set (xs @ ys).
          map pred_text (preds_of w) = map snd (wf_invariants w)
          \<and> (clean \<longleftrightarrow> (\<forall>st. wf_reach w st \<longrightarrow> type_ok w st \<and> (\<forall>p \<in> set (preds_of w). pred_holds st p) \<and> (\<exists>st'. wf_step w st st'))))"
proof -
  obtain xs ys where c: "corpus = Inr xs" "settlement_corpus = Inr ys" and l: "list_all verdict_right (xs @ ys)"
    using corpora_explored by (auto split: sum.splits)
  have ex: "(\<exists>st'. wf_step w st st') \<longleftrightarrow> succs w st \<noteq> []" for w st
    by (metis list.set_intros(1) neq_Nil_conv set_empty2 empty_iff succs_iff list.set(1))
  have "map pred_text (preds_of w) = map snd (wf_invariants w)
          \<and> (clean \<longleftrightarrow> (\<forall>st. wf_reach w st \<longrightarrow> type_ok w st \<and> (\<forall>p \<in> set (preds_of w). pred_holds st p) \<and> (\<exists>st'. wf_step w st st')))"
    if e: "(n, w, clean) \<in> set (xs @ ys)" for n w clean
  proof -
    have v: "verdict_right (n, w, clean)" using l e by (simp only: list_all_iff)
    then have "clean \<longleftrightarrow> model_clean w" using model_clean_explored [of w] by (simp add: verdict_right_def)
    then show ?thesis using v unfolding model_clean_def state_clean_def list_all_iff ex by (simp add: verdict_right_def)
  qed
  then show ?thesis using c by blast
qed

text \<open>In particular the invariants of the settlement lifecycle hold where it starts, and it moves on from there.\<close>

theorem corpora_verdicts_witness:
  "list_all (pred_holds (init_state settlement_workflow)) (preds_of settlement_workflow)
     \<and> (\<exists>st. wf_step settlement_workflow (init_state settlement_workflow) st)"
proof -
  obtain xs ys where ys: "settlement_corpus = Inr ys"
    and all: "\<forall>(n, w, clean) \<in> set (xs @ ys).
          map pred_text (preds_of w) = map snd (wf_invariants w)
          \<and> (clean \<longleftrightarrow> (\<forall>st. wf_reach w st \<longrightarrow> type_ok w st \<and> (\<forall>p \<in> set (preds_of w). pred_holds st p) \<and> (\<exists>st'. wf_step w st st')))"
    using corpora_verdicts by (elim exE conjE)
  obtain es where "ys = (''settlement-clean'', settlement_workflow, True) # es"
    using ys unfolding settlement_corpus_def bindR_eq_Inr by blast
  then have "(''settlement-clean'', settlement_workflow, True) \<in> set (xs @ ys)" by simp
  from bspec [OF all this]
  have "\<forall>st. wf_reach settlement_workflow st \<longrightarrow> type_ok settlement_workflow st
      \<and> (\<forall>p \<in> set (preds_of settlement_workflow). pred_holds st p) \<and> (\<exists>st'. wf_step settlement_workflow st st')"
    unfolding prod.case simp_thms by (rule conjunct2)
  from this [rule_format, OF reach_init] show ?thesis unfolding list_all_iff by blast
qed

end
