(* ===== verification/Algebra.thy ===== *)
theory Algebra
  imports Workflow
begin

text \<open>
  The reachability search and the workflow algebra of \<open>src/infra/cwp/workflow.py\<close>: the search is
  exact, and the parallel composition is the product automaton.
\<close>

section \<open>Reachability\<close>

definition graph :: "workflow \<Rightarrow> (string \<times> string) set" where
  "graph w = set (map (\<lambda>t. (t_from t, t_to t)) (wf_transitions w))"

definition reach_pcs :: "workflow \<Rightarrow> string set" where
  "reach_pcs w = (graph w)\<^sup>* `` {wf_entry w}"

lemma adjacency_get: "dget_default (adjacency w) s [] = map t_to (filter (\<lambda>t. t_from t = s) (wf_transitions w))"
proof -
  have "dget_default (foldl (\<lambda>d t. dput (t_from t) (dget_default d (t_from t) [] @ [t_to t]) d) d ts) s []
      = dget_default d s [] @ map t_to (filter (\<lambda>t. t_from t = s) ts)" for d :: "(string, string list) dict" and ts
    by (induction ts arbitrary: d) (auto simp: dget_default_def dget_dput)
  from this [of "[]" "wf_transitions w"] show ?thesis by (simp add: adjacency_def) (simp add: dget_default_def)
qed

lemma adjacency_graph: "t \<in> set (dget_default (adjacency w) s []) \<longleftrightarrow> (s, t) \<in> graph w"
  by (auto simp: adjacency_get graph_def)

lemma foldl_visit:
  "\<exists>new. foldl visit (seen, fr) xs = (rev new @ seen, fr @ new) \<and> set new = set xs - set seen
     \<and> (distinct seen \<longrightarrow> distinct (rev new @ seen))"
proof (induction xs arbitrary: seen fr)
  case (Cons x xs)
  show ?case
  proof (cases "x \<in> set seen")
    case True
    then have "foldl visit (seen, fr) (x # xs) = foldl visit (seen, fr) xs" "set (x # xs) - set seen = set xs - set seen"
      by (auto simp: visit_def)
    then show ?thesis using Cons [of seen fr] by (simp only:)
  next
    case False
    from Cons [of "x # seen" "fr @ [x]"] obtain new where
      n: "foldl visit (x # seen, fr @ [x]) xs = (rev new @ x # seen, (fr @ [x]) @ new)" "set new = set xs - set (x # seen)"
      "distinct (x # seen) \<longrightarrow> distinct (rev new @ x # seen)" by blast
    have "foldl visit (seen, fr) (x # xs) = (rev (x # new) @ seen, fr @ x # new)"
      using n(1) False by (simp add: visit_def)
    moreover have "set (x # new) = set (x # xs) - set seen" using n(2) False by auto
    moreover have "distinct seen \<longrightarrow> distinct (rev (x # new) @ seen)" using n(3) False by simp
    ultimately show ?thesis by blast
  qed
qed simp

lemma reach_loop_closed:
  assumes "finite U" and "\<And>s. set (dget_default adj s []) \<subseteq> U" and "distinct seen" and "set frontier \<subseteq> set seen"
    and "\<forall>s \<in> set seen - set frontier. set (dget_default adj s []) \<subseteq> set seen"
  shows "\<exists>r. reach_loop adj seen frontier = Some r \<and> distinct r \<and> set seen \<subseteq> set r
     \<and> (\<forall>s \<in> set r. set (dget_default adj s []) \<subseteq> set r)
     \<and> set r \<subseteq> {(a, b). b \<in> set (dget_default adj a [])}\<^sup>* `` set seen"
  using assms(3-5)
proof (induction "(seen, frontier)" arbitrary: seen frontier
    rule: wf_induct_rule [OF wf_measures [of "[\<lambda>(s, f). card (U - set s), \<lambda>(s, f). length f]"]])
  case 1
  show ?case
  proof (cases "frontier = []")
    case True
    then show ?thesis using 1 by (subst reach_loop.simps) auto
  next
    case False
    let ?s = "List.last frontier" and ?E = "{(a, b). b \<in> set (dget_default adj a [])}"
    let ?xs = "dget_default adj ?s []"
    have s: "?s \<in> set frontier" using False by simp
    have fr: "set frontier = insert ?s (set (butlast frontier))"
      using False by (metis append_butlast_last_id list.set(1) list.simps(15) set_append Un_insert_right Un_empty_right)
    from foldl_visit [of seen "butlast frontier" ?xs] obtain new where
      n: "foldl visit (seen, butlast frontier) ?xs = (rev new @ seen, butlast frontier @ new)"
      and new: "set new = set ?xs - set seen" and d: "distinct (rev new @ seen)" using 1(2) by blast
    have loop: "reach_loop adj seen frontier = reach_loop adj (rev new @ seen) (butlast frontier @ new)"
      using False by (subst reach_loop.simps) (simp add: n)
    have less: "((rev new @ seen, butlast frontier @ new), (seen, frontier))
        \<in> measures [\<lambda>(s, f). card (U - set s), \<lambda>(s, f). length f]"
    proof (cases "new = []")
      case True
      then show ?thesis using False by simp
    next
      case False
      then obtain x where "x \<in> set new" by (cases new) auto
      then have "x \<in> U - set seen" using new assms(2) [of ?s] by auto
      then have "U - set (rev new @ seen) \<subset> U - set seen" using \<open>x \<in> set new\<close> by auto
      then show ?thesis using assms(1) by (simp add: psubset_card_mono)
    qed
    have sub: "set (butlast frontier @ new) \<subseteq> set (rev new @ seen)" using 1(3) fr by auto
    have exp: "\<forall>s \<in> set (rev new @ seen) - set (butlast frontier @ new). set (dget_default adj s []) \<subseteq> set (rev new @ seen)"
      using 1(4) fr new by auto
    from 1(1) [OF less d sub exp] obtain r where r: "reach_loop adj (rev new @ seen) (butlast frontier @ new) = Some r" "distinct r"
      "set (rev new @ seen) \<subseteq> set r" "\<forall>s \<in> set r. set (dget_default adj s []) \<subseteq> set r" "set r \<subseteq> ?E\<^sup>* `` set (rev new @ seen)" by blast
    have "set new \<subseteq> ?E `` set seen" using new s 1(3) by auto
    then have "?E\<^sup>* `` set (rev new @ seen) \<subseteq> ?E\<^sup>* `` set seen"
      by (auto intro: converse_rtrancl_into_rtrancl)
    then show ?thesis using r loop by (intro exI [of _ r]) auto
  qed
qed

lemma reachable_states_lemma:
  "\<exists>r. reachable_states w = Some r \<and> distinct r \<and> set r = reach_pcs w"
proof -
  let ?adj = "adjacency w" and ?U = "set (map t_to (wf_transitions w))"
  have E: "{(a, b). b \<in> set (dget_default ?adj a [])} = graph w" by (auto simp: adjacency_graph)
  have "\<exists>r. reach_loop ?adj [wf_entry w] [wf_entry w] = Some r \<and> distinct r \<and> set [wf_entry w] \<subseteq> set r
     \<and> (\<forall>s \<in> set r. set (dget_default ?adj s []) \<subseteq> set r)
     \<and> set r \<subseteq> {(a, b). b \<in> set (dget_default ?adj a [])}\<^sup>* `` set [wf_entry w]"
    by (rule reach_loop_closed [of ?U]) (auto simp: adjacency_get)
  then obtain r where r: "reach_loop ?adj [wf_entry w] [wf_entry w] = Some r" "distinct r" "wf_entry w \<in> set r"
    and cl: "\<forall>s \<in> set r. set (dget_default ?adj s []) \<subseteq> set r" and sub: "set r \<subseteq> reach_pcs w"
    unfolding E reach_pcs_def by auto
  have "t \<in> set r" if "(wf_entry w, t) \<in> (graph w)\<^sup>*" for t
    using that by (induction rule: rtrancl_induct) (use r(3) cl adjacency_graph in blast)+
  then have "set r = reach_pcs w" using sub by (auto simp: reach_pcs_def)
  then show ?thesis using r by (auto simp: reachable_states_def)
qed
text \<open>
  C36: the search for the reachable program counters always ends, and returns each of them once and
  nothing else, whatever cycles and dangling states the workflow has.
\<close>

theorem reachable_states_exact:
  "\<exists>r. reachable_states w = Some r \<and> distinct r
     \<and> set r = {s. (wf_entry w, s) \<in> {(t_from t, t_to t) | t. t \<in> set (wf_transitions w)}\<^sup>*}"
proof -
  have "{(t_from t, t_to t) | t. t \<in> set (wf_transitions w)} = graph w" by (auto simp: graph_def)
  then show ?thesis using reachable_states_lemma [of w] by (simp add: reach_pcs_def Image_singleton)
qed

section \<open>The parallel product\<close>

definition declared :: "workflow \<Rightarrow> bool" where
  "declared w \<longleftrightarrow> wf_entry w \<in> set (wf_states w) \<and> (\<forall>t \<in> set (wf_transitions w). t_to t \<in> set (wf_states w))"

definition par_pc :: "string \<times> string \<Rightarrow> string" where
  "par_pc x = pair_state (prefixed ''a'' (fst x)) (prefixed ''b'' (snd x))"

lemma bar_split: "c \<notin> set u \<Longrightarrow> c \<notin> set u' \<Longrightarrow> u @ c # v = u' @ c # v' \<Longrightarrow> u = u' \<and> v = v'"
proof (induction u arbitrary: u')
  case Nil
  then show ?case by (cases u') auto
next
  case (Cons x u)
  then show ?case by (cases u') auto
qed

lemma par_pc_inj:
  assumes "CHR ''|'' \<notin> set (fst x)" and "CHR ''|'' \<notin> set (fst y)" and "par_pc x = par_pc y"
  shows "x = y"
proof -
  have "prefixed ''a'' (fst x) @ CHR ''|'' # prefixed ''b'' (snd x) = prefixed ''a'' (fst y) @ CHR ''|'' # prefixed ''b'' (snd y)"
    using assms(3) by (simp add: par_pc_def pair_state_def)
  moreover have "CHR ''|'' \<notin> set (prefixed ''a'' (fst x))" "CHR ''|'' \<notin> set (prefixed ''a'' (fst y))"
    using assms(1,2) by (simp_all add: prefixed_def)
  ultimately have "prefixed ''a'' (fst x) = prefixed ''a'' (fst y) \<and> prefixed ''b'' (snd x) = prefixed ''b'' (snd y)"
    by (intro bar_split)
  then show ?thesis by (simp add: prefixed_def prod_eq_iff)
qed

lemma reach_declared: "declared w \<Longrightarrow> reach_pcs w \<subseteq> set (wf_states w)"
proof -
  assume d: "declared w"
  have "s \<in> set (wf_states w)" if "(wf_entry w, s) \<in> (graph w)\<^sup>*" for s
    using that by (induction rule: rtrancl_induct) (use d in \<open>auto simp: declared_def graph_def\<close>)
  then show ?thesis by (auto simp: reach_pcs_def)
qed

lemma par_transition_iff:
  "t \<in> set (par_transitions a b) \<longleftrightarrow>
     (\<exists>s1 \<in> set (wf_states a). \<exists>s2 \<in> set (wf_states b).
        (\<exists>u \<in> set (wf_transitions a). t_from u = s1 \<and> t = trans_to (pair_state s1 s2) (pair_state (t_to u) s2) (t_set u))
        \<or> (\<exists>u \<in> set (wf_transitions b). t_from u = s2 \<and> t = trans_to (pair_state s1 s2) (pair_state s1 (t_to u)) (t_set u)))"
proof -
  have m: "t \<in> set (map f (filter P ts)) \<longleftrightarrow> (\<exists>u \<in> set ts. P u \<and> t = f u)" for f and P :: "wf_trans \<Rightarrow> bool" and ts
    by auto
  have c: "t \<in> set (concat (map f xs)) \<longleftrightarrow> (\<exists>x \<in> set xs. t \<in> set (f x))" for f and xs :: "string list"
    by auto
  show ?thesis unfolding par_transitions_def c set_append Un_iff m ..
qed

lemma graph_iff: "(x, y) \<in> graph w \<longleftrightarrow> (\<exists>t \<in> set (wf_transitions w). x = t_from t \<and> y = t_to t)"
  by (auto simp: graph_def)

lemma par_edge:
  "(\<exists>t \<in> set (par_transitions a b). x = t_from t \<and> y = t_to t) \<longleftrightarrow>
     (\<exists>s1 \<in> set (wf_states a). \<exists>s2 \<in> set (wf_states b). x = pair_state s1 s2
        \<and> ((\<exists>t. (s1, t) \<in> graph a \<and> y = pair_state t s2) \<or> (\<exists>t. (s2, t) \<in> graph b \<and> y = pair_state s1 t)))"
    (is "?L \<longleftrightarrow> ?R")
proof
  assume ?L
  then obtain t where "t \<in> set (par_transitions a b)" "x = t_from t" "y = t_to t" by blast
  then show ?R unfolding par_transition_iff graph_iff by fastforce
next
  assume ?R
  then obtain s1 s2 where s: "s1 \<in> set (wf_states a)" "s2 \<in> set (wf_states b)" "x = pair_state s1 s2"
    and c: "(\<exists>t. (s1, t) \<in> graph a \<and> y = pair_state t s2) \<or> (\<exists>t. (s2, t) \<in> graph b \<and> y = pair_state s1 t)" by blast
  from c show ?L
  proof
    assume "\<exists>t. (s1, t) \<in> graph a \<and> y = pair_state t s2"
    then obtain u where "u \<in> set (wf_transitions a)" "t_from u = s1" "y = pair_state (t_to u) s2" by (auto simp: graph_iff)
    then show ?L using s
      by (intro bexI [of _ "trans_to (pair_state s1 s2) (pair_state (t_to u) s2) (t_set u)"])
        (simp, unfold par_transition_iff, blast)
  next
    assume "\<exists>t. (s2, t) \<in> graph b \<and> y = pair_state s1 t"
    then obtain u where "u \<in> set (wf_transitions b)" "t_from u = s2" "y = pair_state s1 (t_to u)" by (auto simp: graph_iff)
    then show ?L using s
      by (intro bexI [of _ "trans_to (pair_state s1 s2) (pair_state s1 (t_to u)) (t_set u)"])
        (simp, unfold par_transition_iff, blast)
  qed
qed

lemma prefix_graph: "(x, y) \<in> graph (prefix_wf w p) \<longleftrightarrow> (\<exists>s t. (s, t) \<in> graph w \<and> x = prefixed p s \<and> y = prefixed p t)"
  by (auto simp: graph_def prefix_wf_def image_iff)

lemma par_graph:
  assumes "compose_wf w1 w2 ''par'' = Inr p"
  shows "(x, y) \<in> graph p \<longleftrightarrow>
     (\<exists>s1 \<in> set (wf_states w1). \<exists>s2 \<in> set (wf_states w2). x = par_pc (s1, s2)
        \<and> ((\<exists>t. (s1, t) \<in> graph w1 \<and> y = par_pc (t, s2)) \<or> (\<exists>t. (s2, t) \<in> graph w2 \<and> y = par_pc (s1, t))))"
proof -
  have pre: "prefixed q u = prefixed q v \<longleftrightarrow> u = v" for q u v by (simp add: prefixed_def)
  have "wf_transitions p = par_transitions (prefix_wf w1 ''a'') (prefix_wf w2 ''b'')"
    using assms by (auto simp: compose_wf_def Let_def split: if_splits)
  then have e: "(x, y) \<in> graph p \<longleftrightarrow> (\<exists>t \<in> set (par_transitions (prefix_wf w1 ''a'') (prefix_wf w2 ''b'')). x = t_from t \<and> y = t_to t)"
    by (simp add: graph_iff)
  have s: "set (wf_states (prefix_wf w1 ''a'')) = prefixed ''a'' ` set (wf_states w1)"
    "set (wf_states (prefix_wf w2 ''b'')) = prefixed ''b'' ` set (wf_states w2)" by (simp_all add: prefix_wf_def)
  show ?thesis unfolding e par_edge s prefix_graph bex_simps par_pc_def fst_conv snd_conv using pre by fastforce
qed


lemma rtrancl_par_pc:
  assumes "compose_wf w1 w2 ''par'' = Inr p" and "declared w1" and "declared w2"
    and "s1 \<in> reach_pcs w1" and "s2 \<in> reach_pcs w2"
  shows "par_pc (s1, s2) \<in> reach_pcs p"
proof -
  note g = par_graph [OF assms(1)]
  have e: "wf_entry p = par_pc (wf_entry w1, wf_entry w2)"
    using assms(1) by (auto simp: compose_wf_def Let_def prefix_wf_def par_pc_def split: if_splits)
  have s1: "s1 \<in> set (wf_states w1)" using assms(2,4) reach_declared by blast
  have "(par_pc (wf_entry w1, wf_entry w2), par_pc (s, wf_entry w2)) \<in> (graph p)\<^sup>* \<and> s \<in> set (wf_states w1)"
    if "(wf_entry w1, s) \<in> (graph w1)\<^sup>*" for s
    using that
  proof (induction rule: rtrancl_induct)
    case base
    then show ?case using assms(2) by (simp add: declared_def)
  next
    case (step y z)
    have "(par_pc (y, wf_entry w2), par_pc (z, wf_entry w2)) \<in> graph p"
      unfolding g using step assms(3) by (auto simp: declared_def)
    moreover have "z \<in> set (wf_states w1)" using step(2) assms(2) by (auto simp: declared_def graph_iff)
    ultimately show ?case using step.IH by (meson rtrancl.rtrancl_into_rtrancl)
  qed
  moreover have "(par_pc (s1, wf_entry w2), par_pc (s1, s)) \<in> (graph p)\<^sup>* \<and> s \<in> set (wf_states w2)"
    if "(wf_entry w2, s) \<in> (graph w2)\<^sup>*" for s
    using that
  proof (induction rule: rtrancl_induct)
    case base
    then show ?case using assms(3) by (simp add: declared_def)
  next
    case (step y z)
    have "(par_pc (s1, y), par_pc (s1, z)) \<in> graph p"
      unfolding g using step s1 by auto
    moreover have "z \<in> set (wf_states w2)" using step(2) assms(3) by (auto simp: declared_def graph_iff)
    ultimately show ?case using step.IH by (meson rtrancl.rtrancl_into_rtrancl)
  qed
  ultimately show ?thesis using assms(4,5) unfolding reach_pcs_def e by (auto intro: rtrancl_trans)
qed

lemma par_reach:
  assumes c: "compose_wf w1 w2 ''par'' = Inr p" and d: "declared w1" "declared w2"
    and bar: "\<forall>s \<in> set (wf_states w1). CHR ''|'' \<notin> set s"
  shows "reach_pcs p = par_pc ` (reach_pcs w1 \<times> reach_pcs w2)"
proof (rule subset_antisym)
  have e: "wf_entry p = par_pc (wf_entry w1, wf_entry w2)"
    using c by (auto simp: compose_wf_def Let_def prefix_wf_def par_pc_def split: if_splits)
  have "x \<in> par_pc ` (reach_pcs w1 \<times> reach_pcs w2)" if "(wf_entry p, x) \<in> (graph p)\<^sup>*" for x
    using that
  proof (induction rule: rtrancl_induct)
    case base
    then show ?case unfolding e by (auto simp: reach_pcs_def)
  next
    case (step y z)
    from step.IH obtain s1 s2 where y: "y = par_pc (s1, s2)" and r: "s1 \<in> reach_pcs w1" "s2 \<in> reach_pcs w2" by auto
    from step(2) [unfolded par_graph [OF c]] obtain u1 u2 where u: "u1 \<in> set (wf_states w1)" "y = par_pc (u1, u2)"
      and z: "(\<exists>t. (u1, t) \<in> graph w1 \<and> z = par_pc (t, u2)) \<or> (\<exists>t. (u2, t) \<in> graph w2 \<and> z = par_pc (u1, t))" by blast
    have "s1 \<in> set (wf_states w1)" using r(1) reach_declared [OF d(1)] by blast
    then have "(s1, s2) = (u1, u2)" using par_pc_inj [of "(s1, s2)" "(u1, u2)"] u y bar by simp
    then have "(\<exists>t. t \<in> reach_pcs w1 \<and> z = par_pc (t, s2)) \<or> (\<exists>t. t \<in> reach_pcs w2 \<and> z = par_pc (s1, t))"
      using z r by (auto simp: reach_pcs_def intro: rtrancl_into_rtrancl)
    then show ?case using r by blast
  qed
  then show "reach_pcs p \<subseteq> par_pc ` (reach_pcs w1 \<times> reach_pcs w2)" by (auto simp: reach_pcs_def)
  show "par_pc ` (reach_pcs w1 \<times> reach_pcs w2) \<subseteq> reach_pcs p" using rtrancl_par_pc [OF c d] by auto
qed

lemma par_states:
  assumes "compose_wf w1 w2 ''par'' = Inr p" and "s1 \<in> set (wf_states w1)" and "s2 \<in> set (wf_states w2)"
  shows "par_pc (s1, s2) \<in> set (wf_states p)"
proof -
  define tm where "tm = pair_state (List.last (wf_states (prefix_wf w1 ''a''))) (List.last (wf_states (prefix_wf w2 ''b'')))"
  have "wf_states p = filter (\<lambda>s. s \<noteq> tm)
      (concat (map (\<lambda>s1. map (pair_state s1) (wf_states (prefix_wf w2 ''b''))) (wf_states (prefix_wf w1 ''a'')))) @ [tm]"
    using assms(1) by (auto simp: compose_wf_def Let_def tm_def split: if_splits)
  then have "set (wf_states p) = insert tm
      (set (concat (map (\<lambda>s1. map (pair_state s1) (wf_states (prefix_wf w2 ''b''))) (wf_states (prefix_wf w1 ''a'')))))"
    by auto
  then show ?thesis using assms(2,3) by (auto simp: par_pc_def prefix_wf_def)
qed

text \<open>
  the parallel composition is the product automaton. When both workflows declare their states and
  no state of the first has the separator in its name, the program counters the composition reaches
  are exactly the pairs of a state the first reaches and one the second reaches, each once, so their
  number is the product, and at most the number of declared states.
\<close>

theorem parallel_product:
  assumes "compose_wf w1 w2 ''par'' = Inr p" and "declared w1" and "declared w2"
    and "\<forall>s \<in> set (wf_states w1). CHR ''|'' \<notin> set s"
  shows "\<exists>r1 r2 r. reachable_states w1 = Some r1 \<and> reachable_states w2 = Some r2 \<and> reachable_states p = Some r
     \<and> set r = {pair_state (prefixed ''a'' s1) (prefixed ''b'' s2) | s1 s2. s1 \<in> set r1 \<and> s2 \<in> set r2}
     \<and> length r = length r1 * length r2 \<and> length r \<le> length (wf_states p)"
proof -
  obtain r1 r2 r where r1: "reachable_states w1 = Some r1" "distinct r1" "set r1 = reach_pcs w1"
    and r2: "reachable_states w2 = Some r2" "distinct r2" "set r2 = reach_pcs w2"
    and r: "reachable_states p = Some r" "distinct r" "set r = reach_pcs p"
    using reachable_states_lemma by meson
  have set: "set r = par_pc ` (set r1 \<times> set r2)" using par_reach [OF assms] r1 r2 r by simp
  have "inj_on par_pc (set r1 \<times> set r2)"
  proof (rule inj_onI)
    fix x y assume "x \<in> set r1 \<times> set r2" "y \<in> set r1 \<times> set r2" "par_pc x = par_pc y"
    moreover have "set r1 \<subseteq> set (wf_states w1)" using reach_declared [OF assms(2)] r1 by simp
    ultimately show "x = y" using assms(4) by (intro par_pc_inj) auto
  qed
  then have "card (set r) = card (set r1) * card (set r2)" unfolding set by (simp add: card_image card_cartesian_product)
  then have len: "length r = length r1 * length r2"
    using distinct_card [OF r1(2)] distinct_card [OF r2(2)] distinct_card [OF r(2)] by (simp only:)
  have "set r \<subseteq> set (wf_states p)"
    unfolding set using par_states [OF assms(1)] reach_declared [OF assms(2)] reach_declared [OF assms(3)] r1 r2 by auto
  then have "length r \<le> length (wf_states p)" using r(2) by (metis card_length card_mono distinct_card finite_set le_trans)
  moreover have "set r = {pair_state (prefixed ''a'' s1) (prefixed ''b'' s2) | s1 s2. s1 \<in> set r1 \<and> s2 \<in> set r2}"
    unfolding set par_pc_def by (force simp: image_iff)
  ultimately show ?thesis using r1 r2 r len by blast
qed

lemma sample_reachable: "map_option length (reachable_states sample_wf) = Some 3"
  by (simp add: reachable_states_def adjacency_def sample_wf_def reach_loop.simps visit_def dget_default_def)

lemma saga_reachable: "map_option length (reachable_states saga_wf) = Some 5"
  by (simp add: reachable_states_def adjacency_def saga_wf_def reach_loop.simps visit_def dget_default_def)

theorem parallel_product_witness:
  "\<exists>p r. compose_wf sample_wf saga_wf ''par'' = Inr p \<and> reachable_states p = Some r \<and> length r = 15"
proof -
  obtain p where p: "compose_wf sample_wf saga_wf ''par'' = Inr p"
    by (simp add: compose_wf_def prefix_wf_def sample_wf_def saga_wf_def Let_def)
  have d: "declared sample_wf" "declared saga_wf" by (simp_all add: declared_def sample_wf_def saga_wf_def)
  have b: "\<forall>s \<in> set (wf_states sample_wf). CHR ''|'' \<notin> set s" by (simp add: sample_wf_def)
  from parallel_product [OF p d b] show ?thesis using p sample_reachable saga_reachable by auto
qed

section \<open>Types\<close>

text \<open>
  A workflow is well typed when its entry and its transitions stay within the declared states and the
  initial and assigned values of its flags have the flags' types.
\<close>

definition well_typed :: "workflow \<Rightarrow> bool" where
  "well_typed w \<longleftrightarrow>
     declared w \<and> distinct (map fst (wf_flags w))
     \<and> (\<forall>(f, s) \<in> set (wf_flags w). value_ok s (Some (f_init s)))
     \<and> (\<forall>t \<in> set (wf_transitions w). \<forall>(f, s) \<in> set (wf_flags w). \<forall>v. dget (t_set t) f = Some v \<longrightarrow> value_ok s (Some v))"

lemma well_typedI:
  assumes "declared w" "distinct (map fst (wf_flags w))"
    and "\<And>f s. (f, s) \<in> set (wf_flags w) \<Longrightarrow> value_ok s (Some (f_init s))"
    and "\<And>t f s v. t \<in> set (wf_transitions w) \<Longrightarrow> (f, s) \<in> set (wf_flags w) \<Longrightarrow> dget (t_set t) f = Some v \<Longrightarrow> value_ok s (Some v)"
  shows "well_typed w"
  using assms unfolding well_typed_def by blast

lemma well_typed_set:
  "well_typed w \<Longrightarrow> t \<in> set (wf_transitions w) \<Longrightarrow> (f, s) \<in> set (wf_flags w) \<Longrightarrow> dget (t_set t) f = Some v \<Longrightarrow> value_ok s (Some v)"
  unfolding well_typed_def by blast

lemma well_typed_flags:
  assumes "well_typed w" and "(f, s) \<in> set (wf_flags w)"
  shows "dget (wf_flags w) f = Some s" and "value_ok s (Some (f_init s))"
  using assms unfolding well_typed_def by (simp, blast)

lemma well_typed_init:
  "well_typed w \<Longrightarrow> (f, s) \<in> set (wf_flags w) \<Longrightarrow> value_ok s (map_option f_init (dget (wf_flags w) f))"
  using well_typed_flags [of w f s] by simp

lemma dget_map_values: "dget (map (\<lambda>(k, x). (k, h k x)) d) k = map_option (h k) (dget d k)"
  by (induction d) auto

lemma fire_get: "dget (snd (fire t v)) f = map_option (\<lambda>x. case dget (t_set t) f of Some y \<Rightarrow> y | None \<Rightarrow> x) (dget v f)"
  by (simp add: fire_def dget_map_values [of "\<lambda>f x. case dget (t_set t) f of Some y \<Rightarrow> y | None \<Rightarrow> x"])

lemma well_typed_states:
  assumes "well_typed w" and "wf_reach w st"
  shows "type_ok w st"
  using assms(2)
proof (induction rule: wf_reach.induct)
  case reach_init
  have "value_ok s (dget (map (\<lambda>(f, s). (f, f_init s)) (wf_flags w)) f)" if "(f, s) \<in> set (wf_flags w)" for f s
    using well_typed_init [OF assms(1) that] by (simp add: dget_map_values [of "\<lambda>_. f_init"])
  then show ?case using assms(1) by (auto simp: type_ok_def init_state_def list_all_iff well_typed_def declared_def)
next
  case (reach_step st st')
  from reach_step.hyps(2) show ?case
  proof cases
    case (step_fire t v)
    have "value_ok s (dget (snd (fire t v)) f)" if fs: "(f, s) \<in> set (wf_flags w)" for f s
    proof -
      have old: "value_ok s (dget v f)" using reach_step.IH fs step_fire(1) by (auto simp: type_ok_def list_all_iff)
      then obtain x where "dget v f = Some x" by (cases "dget v f") (auto simp: value_ok_def)
      then show ?thesis using old well_typed_set [OF assms(1) step_fire(3) fs] by (cases "dget (t_set t) f") (simp_all add: fire_get)
    qed
    moreover have "t_to t \<in> set (wf_states w)" using assms(1) step_fire(3) by (auto simp: well_typed_def declared_def)
    ultimately show ?thesis using step_fire(2) by (auto simp: type_ok_def list_all_iff fire_def)
  next
    case (step_stay v)
    then show ?thesis using reach_step.IH by simp
  qed
qed

lemma prefixed_inj [simp]: "prefixed p x = prefixed p y \<longleftrightarrow> x = y"
  by (simp add: prefixed_def)

lemma prefixed_ab [simp]: "prefixed ''a'' x \<noteq> prefixed ''b'' y" "prefixed ''b'' y \<noteq> prefixed ''a'' x"
  by (simp_all add: prefixed_def)

lemma dget_prefixed: "dget (map (\<lambda>(k, v). (prefixed p k, v)) d) (prefixed p k) = dget d k"
  by (induction d) auto

lemma dget_foreign: "\<forall>k'. prefixed p k' \<noteq> x \<Longrightarrow> dget (map (\<lambda>(k, v). (prefixed p k, v)) d) x = None"
  by (induction d) auto

lemma prefix_well_typed:
  assumes "well_typed w"
  shows "well_typed (prefix_wf w p)"
proof (rule well_typedI)
  show "declared (prefix_wf w p)"
    using assms by (auto simp: well_typed_def declared_def prefix_wf_def)
  have "map fst (wf_flags (prefix_wf w p)) = map (prefixed p) (map fst (wf_flags w))"
    by (simp add: prefix_wf_def split_beta)
  then show "distinct (map fst (wf_flags (prefix_wf w p)))"
    using assms by (simp add: well_typed_def distinct_map inj_on_def)
  fix f s
  assume "(f, s) \<in> set (wf_flags (prefix_wf w p))"
  then obtain f0 where f: "f = prefixed p f0" "(f0, s) \<in> set (wf_flags w)" by (auto simp: prefix_wf_def)
  then show "value_ok s (Some (f_init s))" using well_typed_flags(2) [OF assms] by simp
  fix t v
  assume "t \<in> set (wf_transitions (prefix_wf w p))" and "dget (t_set t) f = Some v"
  then obtain t0 where "t0 \<in> set (wf_transitions w)" "dget (t_set t0) f0 = Some v"
    by (auto simp: prefix_wf_def f(1) dget_prefixed)
  then show "value_ok s (Some v)" using well_typed_set [OF assms _ f(2)] by simp
qed

lemma merge_flags:
  assumes "distinct (map fst d)"
  shows "distinct (map fst (foldl (\<lambda>d (k, v). dput k v d) d e)) \<and> set (foldl (\<lambda>d (k, v). dput k v d) d e) \<subseteq> set d \<union> set e"
  using assms
proof (induction e arbitrary: d)
  case (Cons kv e)
  obtain k v where kv: "kv = (k, v)" by (cases kv)
  have sub: "set (dput k v d) \<subseteq> insert (k, v) (set d)" for d :: "('a, 'b) dict"
    by (induction d) (auto split: if_splits)
  show ?case using Cons.IH [of "dput k v d"] Cons.prems kv sub [of d] by (simp add: distinct_update) blast
qed simp

text \<open>No transition of one operand assigns a flag of the other.\<close>

lemma prefix_sets:
  assumes "well_typed a" "well_typed b" "p \<noteq> q" "{p, q} = {''a'', ''b''}"
    and "t \<in> set (wf_transitions (prefix_wf a p))"
    and "(f, s) \<in> set (wf_flags (prefix_wf a p)) \<union> set (wf_flags (prefix_wf b q))" "dget (t_set t) f = Some v"
  shows "value_ok s (Some v)"
proof (cases "(f, s) \<in> set (wf_flags (prefix_wf a p))")
  case True
  then show ?thesis using well_typed_set [OF prefix_well_typed [OF assms(1)] assms(5) _ assms(7)] by blast
next
  case False
  then obtain k where f: "f = prefixed q k" using assms(6) by (auto simp: prefix_wf_def)
  have "\<forall>k'. prefixed p k' \<noteq> f" using f assms(3,4) by (auto simp: doubleton_eq_iff)
  then have "dget (t_set t) f = None" using assms(5) by (auto simp: prefix_wf_def dget_foreign)
  then show ?thesis using assms(7) by simp
qed

lemma par_transition_cases:
  assumes "t \<in> set (par_transitions a b)"
  obtains u s2 where "u \<in> set (wf_transitions a)" "s2 \<in> set (wf_states b)" "t_to t = pair_state (t_to u) s2" "t_set t = t_set u"
  | u s1 where "u \<in> set (wf_transitions b)" "s1 \<in> set (wf_states a)" "t_to t = pair_state s1 (t_to u)" "t_set t = t_set u"
  using assms by (auto simp: par_transitions_def)

text \<open>
  C37: composing well-typed workflows, in sequence or in parallel, gives a well-typed workflow, and every
  reachable state of a well-typed workflow satisfies the invariant \<open>TypeOK\<close> its module declares.
\<close>

theorem composition_well_typed:
  assumes "well_typed a" "well_typed b" and "compose_wf a b op = Inr w"
  shows "well_typed w \<and> wf_reach w \<le> type_ok w"
proof -
  let ?A = "prefix_wf a ''a''" and ?B = "prefix_wf b ''b''"
  let ?F = "foldl (\<lambda>d (k, v). dput k v d) (wf_flags ?A) (wf_flags ?B)"
  note A = prefix_well_typed [OF assms(1), of "''a''"] and B = prefix_well_typed [OF assms(2), of "''b''"]
  have F: "distinct (map fst ?F)" "set ?F \<subseteq> set (wf_flags ?A) \<union> set (wf_flags ?B)"
    using merge_flags [of "wf_flags ?A" "wf_flags ?B"] A by (auto simp: well_typed_def)
  have init: "value_ok s (Some (f_init s))" if "(f, s) \<in> set ?F" for f s
    using F(2) that well_typed_flags(2) [OF A] well_typed_flags(2) [OF B] by blast
  have setA: "value_ok s (Some v)" if "t \<in> set (wf_transitions ?A)" "(f, s) \<in> set ?F" "dget (t_set t) f = Some v" for t f s v
    using prefix_sets [OF assms(1,2), of "''a''" "''b''" t f s v] that F(2) by auto
  have setB: "value_ok s (Some v)" if "t \<in> set (wf_transitions ?B)" "(f, s) \<in> set ?F" "dget (t_set t) f = Some v" for t f s v
    using prefix_sets [OF assms(2,1), of "''b''" "''a''" t f s v] that F(2) by auto
  have dA: "wf_entry ?A \<in> set (wf_states ?A)" "t \<in> set (wf_transitions ?A) \<Longrightarrow> t_to t \<in> set (wf_states ?A)" for t
    using A by (auto simp: well_typed_def declared_def)
  have dB: "wf_entry ?B \<in> set (wf_states ?B)" "t \<in> set (wf_transitions ?B) \<Longrightarrow> t_to t \<in> set (wf_states ?B)" for t
    using B by (auto simp: well_typed_def declared_def)
  have "well_typed w"
  proof (cases "op = ''seq''")
    case True
    then have w: "wf_states w = wf_states ?A @ wf_states ?B" "wf_entry w = wf_entry ?A" "wf_flags w = ?F"
      "wf_transitions w = wf_transitions ?A @ wf_transitions ?B @ [trans_to (List.last (wf_states ?A)) (wf_entry ?B) []]"
      using assms(3) by (auto simp: compose_wf_def Let_def split: if_splits)
    show ?thesis
    proof (rule well_typedI)
      show "declared w" unfolding declared_def w using dA dB by auto
      show "value_ok s (Some v)" if "t \<in> set (wf_transitions w)" "(f, s) \<in> set (wf_flags w)" "dget (t_set t) f = Some v" for t f s v
        using that setA [of t f s v] setB [of t f s v] unfolding w by auto
    qed (use F(1) init w(3) in auto)
  next
    case False
    then have op: "op = ''par''" using assms(3) by (simp add: compose_wf_def Let_def split: if_splits)
    let ?fin = "pair_state (List.last (wf_states ?A)) (List.last (wf_states ?B))"
    from assms(3) op have w: "wf_entry w = pair_state (wf_entry ?A) (wf_entry ?B)" "wf_flags w = ?F"
      "wf_transitions w = par_transitions ?A ?B"
      "wf_states w = filter (\<lambda>s. s \<noteq> ?fin) (concat (map (\<lambda>s1. map (pair_state s1) (wf_states ?B)) (wf_states ?A))) @ [?fin]"
      by (auto simp: compose_wf_def Let_def split: if_splits)
    have st: "pair_state x y \<in> set (wf_states w)" if "x \<in> set (wf_states ?A)" "y \<in> set (wf_states ?B)" for x y
      using that unfolding w by auto
    show ?thesis
    proof (rule well_typedI)
      show "declared w"
        unfolding declared_def w(1,3) using st dA dB by (auto elim!: par_transition_cases)
      show "value_ok s (Some v)" if "t \<in> set (wf_transitions w)" "(f, s) \<in> set (wf_flags w)" "dget (t_set t) f = Some v" for t f s v
        using that(1) unfolding w(3)
      proof (cases rule: par_transition_cases)
        case (1 u s2)
        then show ?thesis using setA [of u f s v] that w(2) by simp
      next
        case (2 u s1)
        then show ?thesis using setB [of u f s v] that w(2) by simp
      qed
    qed (use F(1) init w(2) in auto)
  qed
  then show ?thesis using well_typed_states by (auto intro: predicate1I)
qed

theorem composition_well_typed_witness:
  "\<exists>w. compose_wf sample_wf saga_wf ''par'' = Inr w \<and> type_ok w (init_state w)"
proof -
  have wt: "well_typed sample_wf" "well_typed saga_wf"
    by (simp_all add: well_typed_def declared_def sample_wf_def saga_wf_def value_ok_def)
  obtain w where w: "compose_wf sample_wf saga_wf ''par'' = Inr w"
    by (simp add: compose_wf_def Let_def prefix_wf_def sample_wf_def saga_wf_def)
  have "wf_reach w (init_state w)" by (rule reach_init)
  then show ?thesis using composition_well_typed [OF wt w] w by (auto dest: predicate1D)
qed

end
