(* ===== verification/Principals.thy ===== *)
theory Principals
  imports Mirror Text
begin

text \<open>
  Who is asking and what may they reach: principal authentication and rate limiting
  (\<open>src/infra/govern/principals.py\<close>), organisations (\<open>src/infra/govern/orgs.py\<close>), the access list
  of an actor (\<open>acl_allows\<close>) and the access policy of a skill (\<open>src/infra/govern/skillacl.py\<close>).
  \<open>H\<close> is the hexadecimal SHA-256. Registry entries and access lists are JSON values as the
  operator wrote them, so misauthored ones are inputs too.
\<close>

section \<open>Text of a value\<close>

text \<open>\<open>str(v)\<close>: the text itself for a string, the Python literal otherwise.\<close>

definition repr_char :: "char \<Rightarrow> char \<Rightarrow> string" where
  "repr_char q c =
     (let n = of_char c :: nat in
      if c = q \<or> c = ch_back then [ch_back, c]
      else if n = 9 then [ch_back, CHR ''t''] else if n = 10 then [ch_back, CHR ''n''] else if n = 13 then [ch_back, CHR ''r'']
      else if n < 32 \<or> (127 \<le> n \<and> n \<le> 160) \<or> n = 173 then [ch_back, CHR ''x'', hex_digit (n div 16), hex_digit (n mod 16)]
      else [c])"

definition repr_str :: "string \<Rightarrow> string" where
  "repr_str s =
     (let q = (if CHR 0x27 \<in> set s \<and> ch_quote \<notin> set s then ch_quote else CHR 0x27)
      in [q] @ concat (map (repr_char q) s) @ [q])"

fun py_repr :: "json \<Rightarrow> string" where
  "py_repr JNull = ''None''"
| "py_repr (JBool b) = (if b then ''True'' else ''False'')"
| "py_repr (JInt i) = show_int i"
| "py_repr (JStr s) = repr_str s"
| "py_repr (JList xs) = ''['' @ join_with '', '' (map py_repr xs) @ '']''"
| "py_repr (JObj kvs) = ''{'' @ join_with '', '' (map (\<lambda>(k, v). repr_str k @ '': '' @ py_repr v) kvs) @ ''}''"

definition py_str :: "json \<Rightarrow> string" where
  "py_str v = (case v of JStr s \<Rightarrow> s | _ \<Rightarrow> py_repr v)"

text \<open>\<open>hmac.compare_digest\<close> of two strings: equality, for ASCII strings only.\<close>

definition ascii :: "string \<Rightarrow> bool" where
  "ascii s \<longleftrightarrow> (\<forall>c \<in> set s. of_char c < (128::nat))"

definition compare_digest :: "string \<Rightarrow> string \<Rightarrow> bool res" where
  "compare_digest a b = (if ascii a \<and> ascii b then Inr (a = b) else Inl TypeError)"

section \<open>Identity\<close>

type_synonym registry = "(string, json) dict"

definition token_sha :: "(string \<Rightarrow> string) \<Rightarrow> string \<Rightarrow> string" where
  "token_sha H token = H token"

text \<open>\<open>spec.get(k, d)\<close>: only a dictionary has the method.\<close>

definition spec_get :: "json \<Rightarrow> string \<Rightarrow> json \<Rightarrow> json res" where
  "spec_get spec k d = (if is_obj spec then Inr (jget_or spec k d) else Inl AttributeError)"

fun match_token :: "string \<Rightarrow> registry \<Rightarrow> string option res" where
  "match_token want [] = Inr None"
| "match_token want ((pid, spec) # ps) =
     bindR (spec_get spec ''token_sha'' (JStr [])) (\<lambda>t.
     bindR (compare_digest (py_str t) want) (\<lambda>eq.
       if eq then Inr (Some pid) else match_token want ps))"

definition authenticate :: "(string \<Rightarrow> string) \<Rightarrow> string \<Rightarrow> registry \<Rightarrow> string option res" where
  "authenticate H bearer ps = (if bearer = [] then Inr None else match_token (token_sha H bearer) ps)"

type_synonym verifiers = "(string, string \<Rightarrow> json res) dict"

definition register_verifier :: "verifiers \<Rightarrow> string \<Rightarrow> (string \<Rightarrow> json res) \<Rightarrow> verifiers" where
  "register_verifier vs name fn = dput name fn vs"

definition subject_of :: "verifiers \<Rightarrow> string \<Rightarrow> string \<Rightarrow> json option" where
  "subject_of vs bearer verifier =
     (case dget vs verifier of
        None \<Rightarrow> None
      | Some fn \<Rightarrow>
          if bearer = [] then None
          else case fn bearer of Inl _ \<Rightarrow> None | Inr s \<Rightarrow> if truthy s then Some s else None)"

fun match_subject :: "string \<Rightarrow> registry \<Rightarrow> string option res" where
  "match_subject subj [] = Inr None"
| "match_subject subj ((pid, spec) # ps) =
     bindR (if truthy spec then spec_get spec ''subject'' JNull else Inr JNull) (\<lambda>s.
       let want = py_str (py_or s (JStr []))
       in if want = [] then match_subject subj ps
          else bindR (compare_digest want subj) (\<lambda>eq.
                 if eq then Inr (Some pid) else match_subject subj ps))"

definition resolve_principal ::
  "(string \<Rightarrow> string) \<Rightarrow> verifiers \<Rightarrow> string \<Rightarrow> registry \<Rightarrow> string \<Rightarrow> string option res" where
  "resolve_principal H vs bearer ps verifier =
     (if verifier = [] \<or> verifier = ''token_sha'' then authenticate H bearer ps
      else case subject_of vs bearer verifier of
             None \<Rightarrow> Inr None
           | Some s \<Rightarrow> match_subject (py_str s) ps)"

definition bearer_of :: "string \<Rightarrow> string" where
  "bearer_of authorization =
     (case split_ws1 authorization of
        [scheme, rest] \<Rightarrow> if lower scheme = ''bearer'' then strip rest else []
      | _ \<Rightarrow> [])"

definition record_has_principal :: "json \<Rightarrow> bool" where
  "record_has_principal r = truthy (jget r ''principal'')"

section \<open>The token bucket\<close>

record bucket =
  b_tokens :: "rat option"
  b_ts :: "rat option"

definition empty_bucket :: bucket where
  "empty_bucket = \<lparr>b_tokens = None, b_ts = None\<rparr>"

definition refill :: "bucket \<Rightarrow> rat \<Rightarrow> rat \<Rightarrow> rat \<Rightarrow> rat" where
  "refill b now rate burst =
     min burst ((case b_tokens b of Some t \<Rightarrow> t | None \<Rightarrow> burst)
                + max 0 (now - (case b_ts b of Some t \<Rightarrow> t | None \<Rightarrow> now)) * rate)"

definition rate_ok :: "bucket \<Rightarrow> rat \<Rightarrow> rat \<Rightarrow> rat \<Rightarrow> bucket \<times> bool" where
  "rate_ok b now rate burst =
     (let tokens = refill b now rate burst
      in if 1 \<le> tokens then (\<lparr>b_tokens = Some (tokens - 1), b_ts = Some now\<rparr>, True)
         else (\<lparr>b_tokens = Some tokens, b_ts = Some now\<rparr>, False))"

section \<open>Organisations\<close>

record org_identity =
  oi_org :: string
  oi_principal :: string
  oi_spiffe :: string

definition trust_domain :: string where "trust_domain = ''cyberware''"

definition spiffe_id :: "string \<Rightarrow> string \<Rightarrow> string" where
  "spiffe_id org pid = ''spiffe://'' @ trust_domain @ ''/'' @ org @ ''/'' @ pid"

fun match_in_org :: "string \<Rightarrow> string \<Rightarrow> registry \<Rightarrow> org_identity option res" where
  "match_in_org want org [] = Inr None"
| "match_in_org want org ((pid, spec) # ps) =
     bindR (spec_get spec ''revoked'' JNull) (\<lambda>r.
       if truthy r then match_in_org want org ps
       else bindR (compare_digest (py_str (jget_or spec ''token_sha'' (JStr []))) want) (\<lambda>eq.
              if eq then Inr (Some \<lparr>oi_org = org, oi_principal = pid, oi_spiffe = spiffe_id org pid\<rparr>)
              else match_in_org want org ps))"

fun match_orgs :: "string \<Rightarrow> registry \<Rightarrow> org_identity option res" where
  "match_orgs want [] = Inr None"
| "match_orgs want ((org, ospec) # os) =
     bindR (spec_get ospec ''principals'' (JObj [])) (\<lambda>ps.
       if \<not> is_obj ps then Inl AttributeError
       else bindR (match_in_org want org (obj_members ps)) (\<lambda>r.
              case r of Some i \<Rightarrow> Inr (Some i) | None \<Rightarrow> match_orgs want os))"

definition authorize :: "(string \<Rightarrow> string) \<Rightarrow> string \<Rightarrow> registry \<Rightarrow> org_identity option res" where
  "authorize H bearer orgs = (if bearer = [] then Inr None else match_orgs (token_sha H bearer) orgs)"

definition can_access :: "string \<Rightarrow> string \<Rightarrow> bool" where
  "can_access requester target \<longleftrightarrow> requester = target"

section \<open>The access list of an actor\<close>

datatype acl_problem =
    AclUnscoped
  | AclMalformed
  | AclRevoked
  | AclExpired json
  | AclSkillDenied
  | AclPerkDenied
  | AclDestructiveUnlisted
  | AclSecretDenied
  | AclParamsDenied
  | AclCargoMalformed
  | AclCargoDenied
  | AclCargoRwDenied
  | AclTierDenied json json

definition resolve_scope :: "registry \<Rightarrow> string \<Rightarrow> json" where
  "resolve_scope ps pid = (case dget ps pid of Some (JObj spec) \<Rightarrow> jget (JObj spec) ''acl'' | _ \<Rightarrow> JNull)"

definition acl_body :: "json \<Rightarrow> json \<Rightarrow> json \<Rightarrow> json" where
  "acl_body pid tok a =
     JObj [(''pid'', pid), (''token_sha'', tok), (''skills'', jget a ''skills''), (''perks'', jget a ''perks''),
           (''max_tier'', jget a ''max_tier''), (''secrets'', jget a ''secrets''), (''params'', jget a ''params''),
           (''cargo'', jget a ''cargo'')]"

definition acl_canonical :: "json \<Rightarrow> json \<Rightarrow> json \<Rightarrow> string res" where
  "acl_canonical pid tok acl =
     (let a = py_or acl (JObj []) in if is_obj a then Inr (store_canon (acl_body pid tok a)) else Inl AttributeError)"

definition acl_sha :: "(string \<Rightarrow> string) \<Rightarrow> json \<Rightarrow> json \<Rightarrow> json \<Rightarrow> string res" where
  "acl_sha H pid tok acl = bindR (acl_canonical pid tok acl) (\<lambda>t. Inr (H t))"

definition skill_listed :: "string \<Rightarrow> json \<Rightarrow> bool" where
  "skill_listed skill skills =
     (case skills of
        JList xs \<Rightarrow> JStr skill \<in> set xs \<or>
          (case split1 CHR '':'' skill of
             Some (ns, name) \<Rightarrow> JStr (ns @ '':*'') \<in> set xs \<or> JStr name \<in> set xs
           | None \<Rightarrow> False)
      | _ \<Rightarrow> False)"

text \<open>The perks a map binds to a skill: by its id, or by its leaf.\<close>

definition pmap_entry :: "string \<Rightarrow> json \<Rightarrow> json option" where
  "pmap_entry skill pmap =
     (case pmap of
        JObj kvs \<Rightarrow>
          (case dget kvs skill of
             Some v \<Rightarrow> Some v
           | None \<Rightarrow> (case split1 CHR '':'' skill of Some (ns, leaf) \<Rightarrow> dget kvs leaf | None \<Rightarrow> None))
      | _ \<Rightarrow> None)"

text \<open>\<open>s in v\<close>: an element of a list, a key of a dictionary, but a substring of a string.\<close>

definition py_in :: "string \<Rightarrow> json \<Rightarrow> bool res" where
  "py_in s v =
     (case v of
        JList xs \<Rightarrow> Inr (JStr s \<in> set xs)
      | JObj kvs \<Rightarrow> Inr (dget kvs s \<noteq> None)
      | JStr t \<Rightarrow> Inr (contains t s)
      | _ \<Rightarrow> Inl TypeError)"

text \<open>\<open>now > exp\<close>.\<close>

definition time_gt :: "rat \<Rightarrow> json \<Rightarrow> bool res" where
  "time_gt now e = (case e of JInt i \<Rightarrow> Inr (of_int i < now) | JBool b \<Rightarrow> Inr (of_bool b < now) | _ \<Rightarrow> Inl TypeError)"

definition tier_rank :: "(string, nat) dict" where
  "tier_rank = [(''core'', 0), (''verified'', 1), (''community'', 2)]"

text \<open>\<open>rank.get(t, d)\<close>: a list or a dictionary cannot be a key.\<close>

definition rank_of :: "(string, nat) dict \<Rightarrow> json \<Rightarrow> nat \<Rightarrow> nat res" where
  "rank_of ranks t d =
     (case t of JStr s \<Rightarrow> Inr (dget_default ranks s d) | JList _ \<Rightarrow> Inl TypeError | JObj _ \<Rightarrow> Inl TypeError | _ \<Rightarrow> Inr d)"

record claim =
  cl_skill :: string
  cl_perk :: string
  cl_tier :: json
  cl_destructive :: bool
  cl_credentialed :: bool
  cl_parameterized :: bool
  cl_cargo :: json

definition acl_expiry :: "json \<Rightarrow> rat option \<Rightarrow> bool res" where
  "acl_expiry e now =
     (if e = JNull then Inr False else case now of None \<Rightarrow> Inr True | Some t \<Rightarrow> time_gt t e)"

definition acl_cargo :: "json \<Rightarrow> json \<Rightarrow> acl_problem option" where
  "acl_cargo request granted =
     (if request \<notin> {JNull, JStr ''ro'', JStr ''rw''} then Some AclCargoMalformed
      else if request = JNull then None
      else if granted \<notin> {JStr ''ro'', JStr ''rw''} then Some AclCargoDenied
      else if request = JStr ''rw'' \<and> granted \<noteq> JStr ''rw'' then Some AclCargoRwDenied
      else None)"

definition acl_tier :: "json \<Rightarrow> json \<Rightarrow> acl_problem option res" where
  "acl_tier mx t =
     (if mx = JNull then Inr None
      else bindR (rank_of tier_rank t 2) (\<lambda>want. bindR (rank_of tier_rank mx 0) (\<lambda>cap.
             Inr (if cap < want then Some (AclTierDenied t mx) else None))))"

text \<open>\<open>None\<close> is a grant, \<open>Some\<close> the problem of a refusal.\<close>

definition acl_allows :: "json \<Rightarrow> claim \<Rightarrow> rat option \<Rightarrow> bool \<Rightarrow> acl_problem option res" where
  "acl_allows acl c now strict =
     (if acl = JNull then Inr (if strict then Some AclUnscoped else None)
      else if \<not> is_obj acl then Inr (Some AclMalformed)
      else if truthy (jget acl ''revoked'') then Inr (Some AclRevoked)
      else bindR (acl_expiry (jget acl ''expires_at'') now) (\<lambda>expired.
        if expired then Inr (Some (AclExpired (jget acl ''expires_at'')))
        else
          let skills = jget acl ''skills'';
              entry = pmap_entry (cl_skill c) (py_or (jget acl ''perks'') (JObj []))
          in if \<not> (skills = JList [JStr ''*''] \<or> skill_listed (cl_skill c) skills \<or> entry \<noteq> None)
             then Inr (Some AclSkillDenied)
             else bindR (case entry of None \<Rightarrow> Inr False | Some ps \<Rightarrow> py_in (cl_perk c) ps) (\<lambda>listed.
               if entry \<noteq> None \<and> \<not> listed then Inr (Some AclPerkDenied)
               else if cl_destructive c \<and> \<not> (entry \<noteq> None \<and> listed) then Inr (Some AclDestructiveUnlisted)
               else if cl_credentialed c \<and> \<not> truthy (jget acl ''secrets'') then Inr (Some AclSecretDenied)
               else if cl_parameterized c \<and> \<not> truthy (jget acl ''params'') then Inr (Some AclParamsDenied)
               else case acl_cargo (cl_cargo c) (jget acl ''cargo'') of
                      Some p \<Rightarrow> Inr (Some p)
                    | None \<Rightarrow> acl_tier (jget acl ''max_tier'') (cl_tier c))))"

section \<open>The access policy of a skill\<close>

definition closed_policy :: json where "closed_policy = JObj [(''remote'', JBool False)]"

definition skill_tier :: "(string, nat) dict" where
  "skill_tier = [(''core'', 2), (''verified'', 1), (''community'', 0)]"

text \<open>The file's text, when there is one; \<open>loads\<close> is the JSON parser.\<close>

definition load_access :: "(string \<Rightarrow> json option) \<Rightarrow> string res option \<Rightarrow> json" where
  "load_access loads f =
     (case f of
        None \<Rightarrow> JNull
      | Some (Inl _) \<Rightarrow> closed_policy
      | Some (Inr text) \<Rightarrow> (case loads text of Some a \<Rightarrow> if is_obj a then a else closed_policy | None \<Rightarrow> closed_policy))"

definition tier_at_least :: "json \<Rightarrow> json \<Rightarrow> bool res" where
  "tier_at_least have need =
     bindR (rank_of skill_tier have 0) (\<lambda>h. bindR (rank_of skill_tier need 2) (\<lambda>n. Inr (n \<le> h)))"

datatype access_problem = SkillRemoteClosed | SkillPrincipalDenied json | SkillTierBelowFloor json json

definition access_allows ::
  "json \<Rightarrow> string \<Rightarrow> bool \<Rightarrow> json \<Rightarrow> json \<Rightarrow> bool \<Rightarrow> access_problem option res" where
  "access_allows access mode is_local_dev actor ptier enforce_closed =
     (if mode = ''local'' \<or> is_local_dev then Inr None
      else if access = JNull then Inr (if enforce_closed then Some SkillRemoteClosed else None)
      else if \<not> is_obj access \<or> jget access ''remote'' \<noteq> JBool True then Inr (Some SkillRemoteClosed)
      else if (case jget access ''principals'' of JNull \<Rightarrow> False | JList xs \<Rightarrow> actor \<notin> set xs | _ \<Rightarrow> True)
      then Inr (Some (SkillPrincipalDenied actor))
      else if jget access ''min_tier'' = JNull then Inr None
      else bindR (tier_at_least ptier (jget access ''min_tier'')) (\<lambda>ok.
             Inr (if ok then None else Some (SkillTierBelowFloor ptier (jget access ''min_tier'')))))"

definition access_policy_sha :: "(string \<Rightarrow> string) \<Rightarrow> json \<Rightarrow> string" where
  "access_policy_sha H access = digest H (if is_obj access then access else closed_policy)"

section \<open>What an access list grants\<close>

text \<open>
  The grants of an access list, written as a specification: it is not revoked and provably fresh, it
  names the skill and, if it binds perks to it, the perk; destructive perks only by name; the axes of
  secrets, parameters and cargo each by their own entry; and the tier at most the ceiling.
\<close>

definition acl_fresh :: "json \<Rightarrow> rat option \<Rightarrow> bool" where
  "acl_fresh acl now \<longleftrightarrow> \<not> truthy (jget acl ''revoked'') \<and>
     (jget acl ''expires_at'' = JNull \<or> (\<exists>t. now = Some t \<and> time_gt t (jget acl ''expires_at'') = Inr False))"

definition perk_entry :: "json \<Rightarrow> string \<Rightarrow> json option" where
  "perk_entry acl skill = pmap_entry skill (py_or (jget acl ''perks'') (JObj []))"

definition acl_in_scope :: "json \<Rightarrow> claim \<Rightarrow> bool" where
  "acl_in_scope acl c \<longleftrightarrow>
     (case perk_entry acl (cl_skill c) of
        Some ps \<Rightarrow> py_in (cl_perk c) ps = Inr True
      | None \<Rightarrow> (jget acl ''skills'' = JList [JStr ''*''] \<or> skill_listed (cl_skill c) (jget acl ''skills'')) \<and> \<not> cl_destructive c)"

definition acl_axes :: "json \<Rightarrow> claim \<Rightarrow> bool" where
  "acl_axes acl c \<longleftrightarrow> (cl_credentialed c \<longrightarrow> truthy (jget acl ''secrets'')) \<and> (cl_parameterized c \<longrightarrow> truthy (jget acl ''params''))
     \<and> (cl_cargo c = JNull \<or> cl_cargo c = JStr ''ro'' \<and> jget acl ''cargo'' \<in> {JStr ''ro'', JStr ''rw''}
        \<or> cl_cargo c = JStr ''rw'' \<and> jget acl ''cargo'' = JStr ''rw'')"

definition acl_tier_fits :: "json \<Rightarrow> claim \<Rightarrow> bool" where
  "acl_tier_fits acl c \<longleftrightarrow> jget acl ''max_tier'' = JNull \<or>
     (\<exists>want mx. rank_of tier_rank (cl_tier c) 2 = Inr want \<and> rank_of tier_rank (jget acl ''max_tier'') 0 = Inr mx \<and> want \<le> mx)"

text \<open>A list that no test of the decision raises on.\<close>

definition never_raises :: "json \<Rightarrow> bool" where
  "never_raises acl \<longleftrightarrow>
     (case jget acl ''expires_at'' of JNull \<Rightarrow> True | JInt _ \<Rightarrow> True | JBool _ \<Rightarrow> True | _ \<Rightarrow> False)
     \<and> (\<forall>kv \<in> set (obj_members (jget acl ''perks'')). case snd kv of JList _ \<Rightarrow> True | _ \<Rightarrow> False)
     \<and> (case jget acl ''max_tier'' of JList _ \<Rightarrow> False | JObj _ \<Rightarrow> False | _ \<Rightarrow> True)"

lemma acl_expiry_iff:
  "acl_expiry e now = Inr False \<longleftrightarrow> e = JNull \<or> (\<exists>t. now = Some t \<and> time_gt t e = Inr False)"
  by (auto simp: acl_expiry_def split: option.splits)

lemma acl_cargo_iff:
  "acl_cargo r g = None \<longleftrightarrow> r = JNull \<or> r = JStr ''ro'' \<and> g \<in> {JStr ''ro'', JStr ''rw''} \<or> r = JStr ''rw'' \<and> g = JStr ''rw''"
  by (auto simp: acl_cargo_def)

lemma acl_tier_iff:
  "acl_tier mx t = Inr None \<longleftrightarrow> mx = JNull \<or>
     (\<exists>want m. rank_of tier_rank t 2 = Inr want \<and> rank_of tier_rank mx 0 = Inr m \<and> want \<le> m)"
  by (auto simp: acl_tier_def bindR_eq_Inr not_less split: if_splits)

text \<open>The decision after the freshness and the scope of the claim are settled.\<close>

lemma acl_allows_stages:
  assumes "is_obj acl" and "perk_entry acl (cl_skill c) = entry" and "\<not> truthy (jget acl ''revoked'')"
    and "acl_expiry (jget acl ''expires_at'') now = Inr False"
  shows "acl_allows acl c now strict =
     (if \<not> (jget acl ''skills'' = JList [JStr ''*''] \<or> skill_listed (cl_skill c) (jget acl ''skills'') \<or> entry \<noteq> None)
      then Inr (Some AclSkillDenied)
      else bindR (case entry of None \<Rightarrow> Inr False | Some ps \<Rightarrow> py_in (cl_perk c) ps) (\<lambda>listed.
        if entry \<noteq> None \<and> \<not> listed then Inr (Some AclPerkDenied)
        else if cl_destructive c \<and> \<not> (entry \<noteq> None \<and> listed) then Inr (Some AclDestructiveUnlisted)
        else if cl_credentialed c \<and> \<not> truthy (jget acl ''secrets'') then Inr (Some AclSecretDenied)
        else if cl_parameterized c \<and> \<not> truthy (jget acl ''params'') then Inr (Some AclParamsDenied)
        else case acl_cargo (cl_cargo c) (jget acl ''cargo'') of
               Some p \<Rightarrow> Inr (Some p)
             | None \<Rightarrow> acl_tier (jget acl ''max_tier'') (cl_tier c)))"
proof -
  have "acl \<noteq> JNull" using assms(1) by (auto simp: is_obj_def)
  then show ?thesis using assms by (simp only: acl_allows_def Let_def perk_entry_def bindR_Inr if_True if_False simp_thms)
qed

lemma acl_axes_iff:
  "acl_axes acl c \<longleftrightarrow> \<not> (cl_credentialed c \<and> \<not> truthy (jget acl ''secrets'')) \<and> \<not> (cl_parameterized c \<and> \<not> truthy (jget acl ''params''))
     \<and> acl_cargo (cl_cargo c) (jget acl ''cargo'') = None"
  unfolding acl_axes_def acl_cargo_iff by blast

lemma acl_allows_iff:
  assumes "is_obj acl"
  shows "acl_allows acl c now strict = Inr None \<longleftrightarrow>
     acl_fresh acl now \<and> acl_in_scope acl c \<and> acl_axes acl c \<and> acl_tier_fits acl c"
proof -
  have nn: "acl \<noteq> JNull" using assms by (auto simp: is_obj_def)
  show ?thesis
  proof (cases "truthy (jget acl ''revoked'') \<or> acl_expiry (jget acl ''expires_at'') now \<noteq> Inr False")
    case True
    then have "\<not> acl_fresh acl now" by (auto simp: acl_fresh_def acl_expiry_iff)
    moreover have "acl_allows acl c now strict \<noteq> Inr None"
    proof (cases "truthy (jget acl ''revoked'')")
      case False
      then have "acl_expiry (jget acl ''expires_at'') now \<noteq> Inr False" using True by simp
      then show ?thesis using False nn assms
        by (cases "acl_expiry (jget acl ''expires_at'') now") (simp_all add: acl_allows_def)
    qed (use nn assms in \<open>simp add: acl_allows_def\<close>)
    ultimately show ?thesis by simp
  next
    case False
    then have f: "acl_fresh acl now" by (auto simp: acl_fresh_def acl_expiry_iff)
    have ex: "\<not> truthy (jget acl ''revoked'')" "acl_expiry (jget acl ''expires_at'') now = Inr False" using False by auto
    show ?thesis
    proof (cases "perk_entry acl (cl_skill c)")
      case None
      show ?thesis unfolding acl_allows_stages [OF assms None ex] acl_axes_iff acl_tier_fits_def acl_tier_iff [symmetric]
        using f None by (simp add: acl_in_scope_def split: option.split)
    next
      case (Some ps)
      show ?thesis unfolding acl_allows_stages [OF assms Some ex] acl_axes_iff acl_tier_fits_def acl_tier_iff [symmetric]
        using f Some by (cases "py_in (cl_perk c) ps") (simp_all add: acl_in_scope_def split: option.split)
    qed
  qed
qed

lemma pmap_entry_mem: "pmap_entry s pm = Some v \<Longrightarrow> \<exists>k. (k, v) \<in> set (obj_members pm)"
  by (auto simp: pmap_entry_def obj_members_def dest!: map_of_SomeD split: json.splits option.splits)

lemma acl_allows_total:
  assumes "never_raises acl" and "case cl_tier c of JList _ \<Rightarrow> False | JObj _ \<Rightarrow> False | _ \<Rightarrow> True"
  shows "\<exists>r. acl_allows acl c now strict = Inr r"
proof -
  have t: "\<exists>b. acl_expiry (jget acl ''expires_at'') now = Inr b"
    using assms(1) by (auto simp: never_raises_def acl_expiry_def time_gt_def split: json.splits option.splits)
  have p: "\<exists>b. py_in (cl_perk c) v = Inr b" if v: "perk_entry acl (cl_skill c) = Some v" for v
  proof -
    have "\<exists>k. (k, v) \<in> set (obj_members (jget acl ''perks''))"
      using pmap_entry_mem [OF v [unfolded perk_entry_def]] by (auto simp: py_or_def obj_members_def split: if_splits)
    then show ?thesis using assms(1) by (fastforce simp: never_raises_def py_in_def split: json.splits)
  qed
  have r: "\<exists>x. acl_tier (jget acl ''max_tier'') (cl_tier c) = Inr x"
    using assms by (auto simp: never_raises_def acl_tier_def rank_of_def split: json.splits)
  show ?thesis
  proof (cases "is_obj acl \<and> \<not> truthy (jget acl ''revoked'') \<and> acl_expiry (jget acl ''expires_at'') now = Inr False")
    case False
    then show ?thesis using t by (auto simp: acl_allows_def)
  next
    case True
    then have ex: "is_obj acl" "\<not> truthy (jget acl ''revoked'')" "acl_expiry (jget acl ''expires_at'') now = Inr False" by auto
    obtain x where x: "acl_tier (jget acl ''max_tier'') (cl_tier c) = Inr x" using r by blast
    show ?thesis
    proof (cases "perk_entry acl (cl_skill c)")
      case None
      show ?thesis unfolding acl_allows_stages [OF ex(1) None ex(2,3)] by (simp add: x split: option.split)
    next
      case (Some v)
      then obtain b where "py_in (cl_perk c) v = Inr b" using p by blast
      then show ?thesis unfolding acl_allows_stages [OF ex(1) Some ex(2,3)] by (simp add: x split: option.split)
    qed
  qed
qed

text \<open>
  The decision as an operator reads it. A list is well authored when it is an object whose expiry is a number, whose
  skills are a list, whose perks are lists bound to skills, and whose ceiling is a text; each entry may be absent.
\<close>

definition well_authored :: "json \<Rightarrow> bool" where
  "well_authored acl \<longleftrightarrow> is_obj acl
     \<and> (jget acl ''expires_at'' = JNull \<or> (\<exists>i. jget acl ''expires_at'' = JInt i))
     \<and> (jget acl ''skills'' = JNull \<or> (\<exists>xs. jget acl ''skills'' = JList xs))
     \<and> (jget acl ''perks'' = JNull \<or> (\<exists>kvs. jget acl ''perks'' = JObj kvs \<and> (\<forall>kv \<in> set kvs. \<exists>ps. snd kv = JList ps)))
     \<and> (jget acl ''max_tier'' = JNull \<or> (\<exists>t. jget acl ''max_tier'' = JStr t))"

text \<open>Not revoked, and not expired by a clock that is there to ask.\<close>

definition in_force :: "json \<Rightarrow> rat option \<Rightarrow> bool" where
  "in_force acl now \<longleftrightarrow> \<not> truthy (jget acl ''revoked'')
     \<and> (\<forall>i. jget acl ''expires_at'' = JInt i \<longrightarrow> (\<exists>t. now = Some t \<and> t \<le> of_int i))"

text \<open>An entry names a skill by its id, by \<open>namespace:*\<close>, or by the name after the first colon.\<close>

definition names_skill :: "string \<Rightarrow> string \<Rightarrow> bool" where
  "names_skill x skill \<longleftrightarrow>
     x = skill \<or> (\<exists>ns name. skill = ns @ '':'' @ name \<and> CHR '':'' \<notin> set ns \<and> (x = ns @ '':*'' \<or> x = name))"

definition skill_open :: "json \<Rightarrow> string \<Rightarrow> bool" where
  "skill_open acl skill \<longleftrightarrow>
     jget acl ''skills'' = JList [JStr ''*''] \<or> (\<exists>xs x. jget acl ''skills'' = JList xs \<and> JStr x \<in> set xs \<and> names_skill x skill)"

text \<open>The perks the list binds to the skill: under its id, or, when its id is not there, under its name.\<close>

definition binds_perks :: "json \<Rightarrow> string \<Rightarrow> json list \<Rightarrow> bool" where
  "binds_perks acl skill ps \<longleftrightarrow>
     (\<exists>kvs. jget acl ''perks'' = JObj kvs \<and>
        (dget kvs skill = Some (JList ps)
         \<or> dget kvs skill = None \<and> (\<exists>ns name. skill = ns @ '':'' @ name \<and> CHR '':'' \<notin> set ns \<and> dget kvs name = Some (JList ps))))"

text \<open>Under a ceiling: anything below community, core and verified below verified, core alone below every other.\<close>

definition under_ceiling :: "json \<Rightarrow> json \<Rightarrow> bool" where
  "under_ceiling tier limit \<longleftrightarrow>
     limit = JNull \<or> limit = JStr ''community'' \<or> tier = JStr ''core'' \<or> (limit = JStr ''verified'' \<and> tier = JStr ''verified'')"

definition acl_grants :: "json \<Rightarrow> claim \<Rightarrow> rat option \<Rightarrow> bool" where
  "acl_grants acl c now \<longleftrightarrow> in_force acl now
     \<and> (if \<exists>ps. binds_perks acl (cl_skill c) ps then (\<exists>ps. binds_perks acl (cl_skill c) ps \<and> JStr (cl_perk c) \<in> set ps)
        else skill_open acl (cl_skill c) \<and> \<not> cl_destructive c)
     \<and> (cl_credentialed c \<longrightarrow> truthy (jget acl ''secrets'')) \<and> (cl_parameterized c \<longrightarrow> truthy (jget acl ''params''))
     \<and> (cl_cargo c = JNull \<or> cl_cargo c = JStr ''ro'' \<and> jget acl ''cargo'' \<in> {JStr ''ro'', JStr ''rw''}
        \<or> cl_cargo c = JStr ''rw'' \<and> jget acl ''cargo'' = JStr ''rw'')
     \<and> under_ceiling (cl_tier c) (jget acl ''max_tier'')"

lemma split_name: "split1 CHR '':'' s = Some (ns, name) \<longleftrightarrow> s = ns @ '':'' @ name \<and> CHR '':'' \<notin> set ns"
proof
  assume "s = ns @ '':'' @ name \<and> CHR '':'' \<notin> set ns"
  moreover have "CHR '':'' \<notin> set ns \<Longrightarrow> split1 CHR '':'' (ns @ '':'' @ name) = Some (ns, name)"
    unfolding split1_def by (induction ns) auto
  ultimately show "split1 CHR '':'' s = Some (ns, name)" by simp
qed (auto dest: split1_Some)

lemma listed_names: "skill_listed skill skills \<longleftrightarrow> (\<exists>xs x. skills = JList xs \<and> JStr x \<in> set xs \<and> names_skill x skill)"
proof (cases "split1 CHR '':'' skill")
  case None
  then have "names_skill x skill \<longleftrightarrow> x = skill" for x unfolding names_skill_def by (metis option.distinct(1) split_name)
  then show ?thesis using None by (cases skills) (auto simp: skill_listed_def)
next
  case (Some p)
  obtain ns name where p: "p = (ns, name)" by (cases p)
  have "names_skill x skill \<longleftrightarrow> x = skill \<or> x = ns @ '':*'' \<or> x = name" for x
    unfolding names_skill_def using Some p by (metis option.inject prod.inject split_name)
  then show ?thesis using Some p by (cases skills) (auto simp: skill_listed_def)
qed

lemma entry_binds:
  assumes "well_authored acl"
  shows "perk_entry acl skill = Some v \<longleftrightarrow> (\<exists>ps. v = JList ps \<and> binds_perks acl skill ps)"
proof (cases "jget acl ''perks''")
  case (JObj kvs)
  have l: "\<exists>ps. v = JList ps" if "dget kvs k = Some v" for k v
  proof -
    have "(k, v) \<in> set kvs" using that by (rule map_of_SomeD)
    then show ?thesis using assms JObj by (auto simp: well_authored_def)
  qed
  have o: "perk_entry acl skill = (case dget kvs skill of Some v \<Rightarrow> Some v | None \<Rightarrow> (case split1 CHR '':'' skill of Some (ns, leaf) \<Rightarrow> dget kvs leaf | None \<Rightarrow> None))"
    by (auto simp: perk_entry_def pmap_entry_def JObj py_or_def split: option.splits)
  show ?thesis
  proof (cases "dget kvs skill")
    case None
    show ?thesis
    proof (cases "split1 CHR '':'' skill")
      case none: None
      then have "\<not> (\<exists>ns name. skill = ns @ '':'' @ name \<and> CHR '':'' \<notin> set ns)" by (metis option.distinct(1) split_name)
      then show ?thesis using None none by (auto simp: o binds_perks_def JObj)
    next
      case (Some p)
      obtain ns name where p: "p = (ns, name)" by (cases p)
      have "skill = ns' @ '':'' @ name' \<and> CHR '':'' \<notin> set ns' \<longleftrightarrow> ns' = ns \<and> name' = name" for ns' name'
        unfolding split_name [symmetric] using Some p by auto
      then have "binds_perks acl skill ps \<longleftrightarrow> dget kvs name = Some (JList ps)" for ps
        unfolding binds_perks_def using None JObj by (metis json.inject(5) option.distinct(1))
      moreover have "perk_entry acl skill = dget kvs name" using None Some p by (simp add: o)
      ultimately show ?thesis using l by auto
    qed
  next
    case (Some w)
    then have "perk_entry acl skill = Some w" "binds_perks acl skill ps \<longleftrightarrow> w = JList ps" for ps by (auto simp: o binds_perks_def JObj)
    then show ?thesis using l [OF Some] by auto
  qed
qed (use assms in \<open>auto simp: well_authored_def perk_entry_def pmap_entry_def binds_perks_def py_or_def split: option.split_asm\<close>)

lemma scope_grants:
  assumes "well_authored acl"
  shows "acl_in_scope acl c \<longleftrightarrow>
     (if \<exists>ps. binds_perks acl (cl_skill c) ps then (\<exists>ps. binds_perks acl (cl_skill c) ps \<and> JStr (cl_perk c) \<in> set ps)
      else skill_open acl (cl_skill c) \<and> \<not> cl_destructive c)"
proof (cases "perk_entry acl (cl_skill c)")
  case None
  then have "\<not> (\<exists>ps. binds_perks acl (cl_skill c) ps)" using entry_binds [OF assms, of "cl_skill c"] by auto
  then show ?thesis using None by (simp add: acl_in_scope_def skill_open_def listed_names)
next
  case (Some v)
  then obtain ps where ps: "v = JList ps" "binds_perks acl (cl_skill c) ps" using entry_binds [OF assms] by blast
  then have "binds_perks acl (cl_skill c) qs \<longleftrightarrow> qs = ps" for qs using Some entry_binds [OF assms, of "cl_skill c" "JList qs"] entry_binds [OF assms, of "cl_skill c" v] by auto
  then show ?thesis using Some ps(1) by (simp add: acl_in_scope_def py_in_def)
qed

lemma tier_ranks:
  "rank_of tier_rank (JStr s) d = Inr (if s = ''core'' then 0 else if s = ''verified'' then 1 else if s = ''community'' then 2 else d)"
  "rank_of tier_rank JNull d = Inr d"
  by (simp_all add: rank_of_def tier_rank_def dget_default_def)

lemma tier_under:
  assumes "well_authored acl" and "cl_tier c = JNull \<or> (\<exists>t. cl_tier c = JStr t)"
  shows "acl_tier_fits acl c \<longleftrightarrow> under_ceiling (cl_tier c) (jget acl ''max_tier'')"
proof -
  consider "jget acl ''max_tier'' = JNull" | m where "jget acl ''max_tier'' = JStr m" using assms(1) by (auto simp: well_authored_def)
  then show ?thesis
  proof cases
    case (2 m)
    show ?thesis using assms(2)
    proof (elim disjE exE)
      assume "cl_tier c = JNull"
      then show ?thesis using 2 by (simp add: acl_tier_fits_def under_ceiling_def tier_ranks)
    next
      fix t assume "cl_tier c = JStr t"
      then show ?thesis using 2 by (simp add: acl_tier_fits_def under_ceiling_def tier_ranks)
    qed
  qed (simp add: acl_tier_fits_def under_ceiling_def)
qed

lemma fresh_in_force: "well_authored acl \<Longrightarrow> acl_fresh acl now \<longleftrightarrow> in_force acl now"
  by (auto simp: well_authored_def acl_fresh_def in_force_def time_gt_def not_less)

text \<open>
  C18: the decision over an actor's access list, errors included. On a well-authored list it never raises, and
  grants a claim exactly when the list is in force; the perk is among those bound to the skill, or none are
  bound, the skill is open and the perk is not destructive; secrets, parameters and the shared directory are each
  granted when the claim needs them, and no more; and the tier is under the ceiling, a perk without a known tier
  counting as community and an unknown ceiling as core. What is no object never grants: nothing at all grants
  only when the mode is not strict, and anything else is refused.
\<close>

theorem acl_decision:
  assumes "well_authored acl" and "cl_tier c = JNull \<or> (\<exists>t. cl_tier c = JStr t)"
  shows "(\<exists>r. acl_allows acl c now strict = Inr r)
    \<and> (acl_allows acl c now strict = Inr None \<longleftrightarrow> acl_grants acl c now)
    \<and> acl_allows JNull c now strict = Inr (if strict then Some AclUnscoped else None)
    \<and> (\<not> is_obj x \<and> x \<noteq> JNull \<longrightarrow> acl_allows x c now strict = Inr (Some AclMalformed))"
proof -
  have "case snd kv of JList _ \<Rightarrow> True | _ \<Rightarrow> False" if "kv \<in> set (obj_members (jget acl ''perks''))" for kv
  proof -
    have "\<exists>ps. snd kv = JList ps" using assms(1) that by (auto simp: well_authored_def obj_members_def)
    then show ?thesis by auto
  qed
  then have "never_raises acl" using assms(1) by (auto simp: well_authored_def never_raises_def)
  then have t: "\<exists>r. acl_allows acl c now strict = Inr r" using assms(2) by (intro acl_allows_total) auto
  have "is_obj acl" using assms(1) by (simp add: well_authored_def)
  then have "acl_allows acl c now strict = Inr None \<longleftrightarrow> acl_grants acl c now"
    unfolding acl_allows_iff [OF \<open>is_obj acl\<close>] fresh_in_force [OF assms(1)] scope_grants [OF assms(1)] tier_under [OF assms]
      acl_grants_def acl_axes_def by blast
  then show ?thesis using t by (auto simp: acl_allows_def)
qed

definition sample_acl :: json where
  "sample_acl = JObj [(''skills'', JList [JStr ''cws-fs'']), (''perks'', JObj [(''cws-fs'', JList [JStr ''read''])]),
     (''max_tier'', JStr ''verified''), (''secrets'', JBool False)]"

definition sample_claim :: "string \<Rightarrow> string \<Rightarrow> claim" where
  "sample_claim perk tier = \<lparr>cl_skill = ''cws-fs'', cl_perk = perk, cl_tier = JStr tier, cl_destructive = False,
     cl_credentialed = False, cl_parameterized = False, cl_cargo = JNull\<rparr>"

lemma sample_acl_ok: "well_authored sample_acl"
  by (simp add: well_authored_def sample_acl_def jget_JObj is_obj_def)

lemma sample_grants: "acl_grants sample_acl (sample_claim perk tier) now \<longleftrightarrow> perk = ''read'' \<and> tier \<in> {''core'', ''verified''}"
  by (auto simp: acl_grants_def in_force_def binds_perks_def under_ceiling_def sample_acl_def sample_claim_def jget_JObj)

theorem acl_decision_witness:
  "acl_allows sample_acl (sample_claim ''read'' ''verified'') None True = Inr None
   \<and> (\<exists>p. acl_allows sample_acl (sample_claim ''write'' ''core'') None True = Inr (Some p))
   \<and> (\<exists>p. acl_allows sample_acl (sample_claim ''read'' ''community'') None True = Inr (Some p))
   \<and> acl_allows (JStr ''all'') (sample_claim ''read'' ''core'') None False = Inr (Some AclMalformed)"
proof -
  have t: "cl_tier (sample_claim perk tier) = JNull \<or> (\<exists>t. cl_tier (sample_claim perk tier) = JStr t)" for perk tier
    by (simp add: sample_claim_def)
  note d = acl_decision [OF sample_acl_ok t]
  have no: "\<exists>p. acl_allows sample_acl (sample_claim perk tier) None True = Inr (Some p)"
    if "\<not> acl_grants sample_acl (sample_claim perk tier) None" for perk tier
    using d [of perk tier None True JNull] that by (metis option.exhaust)
  show ?thesis using d [of "''read''" "''verified''" None True JNull] d [of "''read''" "''core''" None False "JStr ''all''"]
    by (intro conjI no) (simp_all add: sample_grants is_obj_def)
qed

text \<open>
  On a list that is not well authored the decision can go wrong both ways: perks given as a text grant every perk
  whose name occurs in the text, destructive ones included; and an expiry that is a text raises.
\<close>

lemma perk_text_is_substring:
  "acl_allows (JObj [(''perks'', JObj [(''fs'', JStr ''readwrite'')])])
     \<lparr>cl_skill = ''fs'', cl_perk = ''write'', cl_tier = JNull, cl_destructive = True, cl_credentialed = False, cl_parameterized = False, cl_cargo = JNull\<rparr>
     (Some 0) True = Inr None"
  by code_simp

lemma expiry_text_raises:
  "acl_allows (JObj [(''skills'', JList [JStr ''*'']), (''expires_at'', JStr ''2030'')]) (sample_claim ''read'' ''core'') (Some 0) True = Inl TypeError"
  by code_simp

section \<open>The rate limiter\<close>

fun rate_run :: "bucket \<Rightarrow> rat \<Rightarrow> rat \<Rightarrow> rat list \<Rightarrow> bool list" where
  "rate_run b rate burst [] = []"
| "rate_run b rate burst (t # ts) = (case rate_ok b t rate burst of (b', ok) \<Rightarrow> ok # rate_run b' rate burst ts)"

definition allowed :: "bool list \<Rightarrow> nat" where "allowed oks = length (filter id oks)"

definition bucket_ok :: "bucket \<Rightarrow> rat \<Rightarrow> bool" where
  "bucket_ok b burst \<longleftrightarrow> (case b_tokens b of Some t \<Rightarrow> 0 \<le> t \<and> t \<le> burst | None \<Rightarrow> True)"

lemma refill_bounds: "bucket_ok b burst \<Longrightarrow> 0 \<le> rate \<Longrightarrow> 0 \<le> burst \<Longrightarrow> 0 \<le> refill b now rate burst \<and> refill b now rate burst \<le> burst"
  by (auto simp: refill_def bucket_ok_def split: option.splits)

lemma rate_ok_bucket:
  assumes "rate_ok b now rate burst = (b', ok)"
  shows "b_ts b' = Some now \<and> b_tokens b' = Some (refill b now rate burst - (if ok then 1 else 0)) \<and> (ok \<longleftrightarrow> 1 \<le> refill b now rate burst)"
  using assms by (auto simp: rate_ok_def Let_def split: if_splits)

lemma rate_ok_keeps: "rate_ok b now rate burst = (b', ok) \<Longrightarrow> bucket_ok b burst \<Longrightarrow> 0 \<le> rate \<Longrightarrow> 0 \<le> burst \<Longrightarrow> bucket_ok b' burst"
  using refill_bounds [of b burst rate now] rate_ok_bucket [of b now rate burst b' ok] by (auto simp: bucket_ok_def)

text \<open>The calls from the first reading on: the tokens there, and what the elapsed time refills.\<close>

lemma rate_run_bound:
  assumes "bucket_ok b burst" and "0 \<le> rate" and "0 \<le> burst" and "sorted (t # ts)"
  shows "of_nat (allowed (rate_run b rate burst (t # ts))) \<le> refill b t rate burst + rate * (List.last (t # ts) - t)"
  using assms
proof (induction ts arbitrary: b t)
  case Nil
  then show ?case using refill_bounds [of b burst rate t] by (auto simp: rate_ok_def Let_def allowed_def)
next
  case (Cons u ts)
  obtain b' ok where r: "rate_ok b t rate burst = (b', ok)" by fastforce
  have b': "bucket_ok b' burst" using rate_ok_keeps [OF r] Cons.prems by simp
  have ih: "of_nat (allowed (rate_run b' rate burst (u # ts))) \<le> refill b' u rate burst + rate * (List.last (u # ts) - u)"
    using Cons.IH [OF b' Cons.prems(2,3)] Cons.prems(4) by simp
  have tu: "t \<le> u" using Cons.prems(4) by simp
  have "refill b' u rate burst \<le> refill b t rate burst - (if ok then 1 else 0) + (u - t) * rate"
    using rate_ok_bucket [OF r] tu by (simp add: refill_def)
  moreover have "of_nat (allowed (rate_run b rate burst (t # u # ts)))
      = (if ok then 1 else 0) + (of_nat (allowed (rate_run b' rate burst (u # ts))) :: rat)"
    by (simp add: r allowed_def)
  moreover have "rate * (List.last (u # ts) - u) + (u - t) * rate = rate * (List.last (u # ts) - t)" by (simp add: algebra_simps)
  ultimately show ?case using ih by simp
qed

lemma rate_run_append:
  "\<exists>b'. rate_run b rate burst (us @ ts) = rate_run b rate burst us @ rate_run b' rate burst ts
     \<and> (bucket_ok b burst \<and> 0 \<le> rate \<and> 0 \<le> burst \<longrightarrow> bucket_ok b' burst)"
proof (induction us arbitrary: b)
  case (Cons u us)
  obtain b1 ok where r: "rate_ok b u rate burst = (b1, ok)" by fastforce
  from Cons [of b1] obtain b' where "rate_run b1 rate burst (us @ ts) = rate_run b1 rate burst us @ rate_run b' rate burst ts"
    "bucket_ok b1 burst \<and> 0 \<le> rate \<and> 0 \<le> burst \<longrightarrow> bucket_ok b' burst" by blast
  then show ?case using r rate_ok_keeps [OF r] by (intro exI [of _ b']) auto
next
  case Nil
  show ?case by (rule exI [of _ b]) simp
qed

lemma rate_run_length: "length (rate_run b rate burst ts) = length ts"
  by (induction ts arbitrary: b) (auto split: prod.splits)

text \<open>
  C40: the rate limit holds over every window. Whatever calls a fresh bucket has seen before, among any
  consecutive calls from time \<open>t\<close> on, with clock readings that do not go back, at most
  \<open>burst + rate * elapsed\<close> are allowed.
\<close>

theorem rate_limited_in_every_window:
  assumes "0 \<le> rate" and "0 \<le> burst" and "sorted (t # ts)"
  shows "of_nat (allowed (drop (length us) (rate_run empty_bucket rate burst (us @ t # ts)))) \<le> burst + rate * (List.last (t # ts) - t)"
proof -
  have "bucket_ok empty_bucket burst" by (simp add: bucket_ok_def empty_bucket_def)
  with rate_run_append [of empty_bucket rate burst us "t # ts"] assms obtain b' where
    r: "rate_run empty_bucket rate burst (us @ t # ts) = rate_run empty_bucket rate burst us @ rate_run b' rate burst (t # ts)"
    and b': "bucket_ok b' burst" by blast
  have "of_nat (allowed (rate_run b' rate burst (t # ts))) \<le> burst + rate * (List.last (t # ts) - t)"
    using rate_run_bound [OF b' assms] refill_bounds [OF b' assms(1,2), of t] by linarith
  then show ?thesis unfolding r by (simp add: rate_run_length)
qed

theorem rate_limited_in_every_window_witness:
  "of_nat (allowed (drop 1 (rate_run empty_bucket 1 3 [1000, 1000, 1000, 1000, 1002]))) \<le> (3 + 1 * (1002 - 1000) :: rat)"
  using rate_limited_in_every_window [of 1 3 1000 "[1000, 1000, 1002]" "[1000]"] by simp

end
