(* ===== verification/Grants.thy ===== *)
theory Grants
  imports Principals Envelope
begin

text \<open>
  The signed documents of delegated execution: capability grants (\<open>src/infra/exec/grants.py\<close>,
  \<open>grantverify.py\<close>), step results (\<open>exodverify.py\<close>), and the operator's access-list attestations
  with the client's token proofs (\<open>aclverify.py\<close>). A verifier answers with a reason, \<open>''ok''\<close> for
  acceptance. The signature scheme, base64 and the parser are the fields of \<open>crypto\<close>.
\<close>

section \<open>Shared pieces\<close>

type_synonym nonces = "(json \<times> string) list"
type_synonym answer = "bool \<times> string"

definition spend :: "nonces \<Rightarrow> json \<Rightarrow> string \<Rightarrow> nonces \<times> bool" where
  "spend seen issuer nonce =
     (if (issuer, nonce) \<in> set seen then (seen, False) else ((issuer, nonce) # seen, True))"

text \<open>Spending in a cache that may be absent.\<close>

definition spend_opt :: "nonces option \<Rightarrow> json \<Rightarrow> string \<Rightarrow> nonces option \<times> bool" where
  "spend_opt cache issuer nonce =
     (case cache of None \<Rightarrow> (None, True) | Some seen \<Rightarrow> (case spend seen issuer nonce of (seen', ok) \<Rightarrow> (Some seen', ok)))"

text \<open>\<open>json.loads(base64.b64decode(envelope["payload"]))\<close>.\<close>

definition signed_body :: "crypto \<Rightarrow> json \<Rightarrow> json res" where
  "signed_body K env =
     (case jget env ''payload'' of
        JStr p \<Rightarrow> (case b64d K p of
                     None \<Rightarrow> Inl ValueError
                   | Some t \<Rightarrow> (case parse K t of None \<Rightarrow> Inl JSONDecodeError | Some j \<Rightarrow> Inr j))
      | _ \<Rightarrow> Inl TypeError)"

text \<open>An instance of \<open>int\<close>: booleans are.\<close>

definition int_claim :: "json \<Rightarrow> int option" where
  "int_claim v = (case v of JInt i \<Rightarrow> Some i | JBool b \<Rightarrow> Some (of_bool b) | _ \<Rightarrow> None)"

definition nonce_claim :: "json \<Rightarrow> string option" where
  "nonce_claim v = (case v of JStr s \<Rightarrow> if s = [] then None else Some s | _ \<Rightarrow> None)"

definition window_problem :: "int \<Rightarrow> int \<Rightarrow> json \<Rightarrow> string option" where
  "window_problem now skew body =
     (case (int_claim (jget body ''nbf''), int_claim (jget body ''exp'')) of
        (Some nbf, Some till) \<Rightarrow>
          if now < nbf - skew then Some ''not_yet_valid'' else if till + skew < now then Some ''expired'' else None
      | _ \<Rightarrow> Some ''malformed_window'')"

text \<open>An expectation of the caller, when it has one.\<close>

definition unexpected :: "json \<Rightarrow> json option \<Rightarrow> bool" where
  "unexpected v e = (case e of None \<Rightarrow> False | Some x \<Rightarrow> v \<noteq> x)"

definition default_skew :: int where "default_skew = 60"

section \<open>Grants\<close>

definition grant_type :: string where "grant_type = ''application/vnd.cyberware.grant+json''"

record grant_spec =
  g_run :: string
  g_plan :: string
  g_snippets :: json
  g_capabilities :: json
  g_credentials :: json
  g_tier :: string
  g_nbf :: int
  g_exp :: int
  g_nonce :: json
  g_sandbox_tier :: json
  g_acl_sha :: json
  g_skill :: json
  g_perk :: json
  g_destructive :: json
  g_cargo :: json
  g_workspace :: json
  g_argv :: json

definition when_set :: "string \<Rightarrow> json \<Rightarrow> (string, json) dict" where
  "when_set k v = (if v = JNull then [] else [(k, v)])"

definition grant_claims :: "grant_spec \<Rightarrow> json" where
  "grant_claims g =
     JObj ([(''run_id'', JStr (g_run g)), (''plan_sha'', JStr (g_plan g)), (''snippet_shas'', py_or (g_snippets g) (JObj [])),
            (''capabilities'', py_or (g_capabilities g) (JList [])), (''credentials'', py_or (g_credentials g) (JList [])),
            (''tier'', JStr (g_tier g)), (''nbf'', JInt (g_nbf g)), (''exp'', JInt (g_exp g)), (''nonce'', g_nonce g)]
           @ when_set ''sandbox_tier'' (g_sandbox_tier g) @ when_set ''acl_sha'' (g_acl_sha g)
           @ when_set ''skill'' (g_skill g) @ when_set ''perk'' (g_perk g)
           @ (if g_destructive g = JNull then [] else [(''destructive'', JBool (truthy (g_destructive g)))])
           @ when_set ''cargo'' (g_cargo g) @ when_set ''workspace'' (g_workspace g) @ when_set ''argv'' (g_argv g))"

definition mint_grant :: "crypto \<Rightarrow> string \<Rightarrow> grant_spec \<Rightarrow> json res" where
  "mint_grant K priv g =
     (if nonce_claim (g_nonce g) = None then Inl ValueError else Inr (sign K (grant_claims g) priv grant_type))"

record grant_expect =
  e_run :: "json option"
  e_plan :: "json option"
  e_workspace :: "json option"
  e_argv :: "json option"

definition no_expect :: grant_expect where
  "no_expect = \<lparr>e_run = None, e_plan = None, e_workspace = None, e_argv = None\<rparr>"

text \<open>A pinned field may be absent; when it is there it must match.\<close>

definition pin_strays :: "json \<Rightarrow> json option \<Rightarrow> bool" where
  "pin_strays v e = (case e of None \<Rightarrow> False | Some x \<Rightarrow> v \<noteq> JNull \<and> v \<noteq> x)"

definition grant_problem :: "json \<Rightarrow> int \<Rightarrow> int \<Rightarrow> grant_expect \<Rightarrow> string option" where
  "grant_problem body now skew e =
     (case window_problem now skew body of
        Some r \<Rightarrow> Some r
      | None \<Rightarrow>
          if unexpected (jget body ''run_id'') (e_run e) then Some ''wrong_run''
          else if unexpected (jget body ''plan_sha'') (e_plan e) then Some ''wrong_plan''
          else if pin_strays (jget body ''workspace'') (e_workspace e) then Some ''wrong_workspace''
          else if pin_strays (jget body ''argv'') (e_argv e) then Some ''wrong_argv''
          else if nonce_claim (jget body ''nonce'') = None then Some ''malformed_nonce''
          else None)"

definition verify_grant ::
  "crypto \<Rightarrow> string \<Rightarrow> json \<Rightarrow> int \<Rightarrow> int \<Rightarrow> grant_expect \<Rightarrow> nonces option \<Rightarrow> (nonces option \<times> answer) res" where
  "verify_grant K pub env now skew e cache =
     bindR (verify K env pub) (\<lambda>signed.
       if \<not> signed then Inr (cache, False, ''bad_signature'')
       else if jget env ''payloadType'' \<noteq> JStr grant_type then Inr (cache, False, ''wrong_type'')
       else bindR (signed_body K env) (\<lambda>body.
         if \<not> is_obj body then Inl AttributeError
         else case grant_problem body now skew e of
           Some r \<Rightarrow> Inr (cache, False, r)
         | None \<Rightarrow>
             (case spend_opt cache (JStr (keyid K pub)) (the (nonce_claim (jget body ''nonce''))) of
                (cache', ok) \<Rightarrow> Inr (cache', if ok then (True, ''ok'') else (False, ''replay'')))))"

section \<open>Step results\<close>

definition step_result_type :: string where "step_result_type = ''application/vnd.cyberware.step-result+json''"

definition statuses :: "json list" where "statuses = [JStr ''ok'', JStr ''error'', JStr ''refused'']"

definition result_problem :: "json \<Rightarrow> json option \<Rightarrow> json option \<Rightarrow> string option" where
  "result_problem body run plan =
     (if unexpected (jget body ''run_id'') run then Some ''wrong_run''
      else if unexpected (jget body ''plan_sha'') plan then Some ''wrong_plan''
      else if jget body ''status'' \<notin> set statuses then Some ''malformed_status''
      else if nonce_claim (jget body ''nonce'') = None then Some ''malformed_nonce''
      else None)"

definition verify_step_result ::
  "crypto \<Rightarrow> string \<Rightarrow> json \<Rightarrow> json option \<Rightarrow> json option \<Rightarrow> nonces option \<Rightarrow> (nonces option \<times> answer) res" where
  "verify_step_result K pub env run plan cache =
     bindR (verify K env pub) (\<lambda>signed.
       if \<not> signed then Inr (cache, False, ''forged_status'')
       else if jget env ''payloadType'' \<noteq> JStr step_result_type then Inr (cache, False, ''wrong_type'')
       else bindR (signed_body K env) (\<lambda>body.
         if \<not> is_obj body then Inl AttributeError
         else case result_problem body run plan of
           Some r \<Rightarrow> Inr (cache, False, r)
         | None \<Rightarrow>
             (case spend_opt cache (JStr (keyid K pub)) (the (nonce_claim (jget body ''nonce''))) of
                (cache', ok) \<Rightarrow> Inr (cache', if ok then (True, ''ok'') else (False, ''replay'')))))"

section \<open>Attestations and token proofs\<close>

definition acl_attestation_type :: string where
  "acl_attestation_type = ''application/vnd.cyberware.acl-attestation+json''"

definition attested_acl :: "json \<Rightarrow> json" where
  "attested_acl body =
     JObj [(''skills'', jget body ''skills''), (''perks'', jget body ''perks''), (''max_tier'', jget body ''max_tier''),
           (''secrets'', jget body ''secrets''), (''params'', jget body ''params''), (''cargo'', jget body ''cargo'')]"

definition attested_sha :: "crypto \<Rightarrow> json \<Rightarrow> string res" where
  "attested_sha K body = acl_sha (sha_hex K) (jget body ''pid'') (jget body ''token_sha'') (attested_acl body)"

definition verify_acl_attestation ::
  "crypto \<Rightarrow> string \<Rightarrow> json \<Rightarrow> int \<Rightarrow> json option \<Rightarrow> int \<Rightarrow> answer res" where
  "verify_acl_attestation K pub env now expect skew =
     bindR (verify K env pub) (\<lambda>signed.
       if \<not> signed then Inr (False, ''bad_signature'')
       else if jget env ''payloadType'' \<noteq> JStr acl_attestation_type then Inr (False, ''wrong_type'')
       else case signed_body K env of
         Inl _ \<Rightarrow> Inr (False, ''malformed_body'')
       | Inr body \<Rightarrow>
           if \<not> is_obj body then Inl AttributeError
           else case window_problem now skew body of
             Some r \<Rightarrow> Inr (False, r)
           | None \<Rightarrow>
               bindR (attested_sha K body) (\<lambda>derived.
                 if jget body ''acl_sha'' \<noteq> JStr derived then Inr (False, ''acl_sha_mismatch'')
                 else if unexpected (JStr derived) expect then Inr (False, ''acl_join_mismatch'')
                 else Inr (True, ''ok'')))"

definition token_proof_type :: string where "token_proof_type = ''application/vnd.cyberware.token-proof+json''"

definition mint_token_proof :: "crypto \<Rightarrow> string \<Rightarrow> json \<Rightarrow> json \<Rightarrow> json \<Rightarrow> json \<Rightarrow> json" where
  "mint_token_proof K priv run plan step tok =
     sign K (JObj [(''run_id'', run), (''plan_sha'', plan), (''step'', JStr (py_str step)), (''token_sha'', tok)])
       priv token_proof_type"

definition hashable :: "json \<Rightarrow> bool" where
  "hashable v = (case v of JList _ \<Rightarrow> False | JObj _ \<Rightarrow> False | _ \<Rightarrow> True)"

text \<open>\<open>valid raw\<close>: the bytes are an Ed25519 public key.\<close>

definition verify_token_proof ::
  "crypto \<Rightarrow> (string \<Rightarrow> bool) \<Rightarrow> string \<Rightarrow> json \<Rightarrow> json \<Rightarrow> json \<Rightarrow> json \<Rightarrow> json \<Rightarrow> string list \<Rightarrow> nonces option
   \<Rightarrow> (nonces option \<times> answer) res" where
  "verify_token_proof K valid raw env run plan step tok banned cache =
     (if raw \<in> set banned then Inr (cache, False, ''proof_degenerate_pubkey'')
      else if \<not> valid raw then Inr (cache, False, ''proof_bad_pubkey'')
      else bindR (verify K env raw) (\<lambda>signed.
        if \<not> signed then Inr (cache, False, ''proof_bad_signature'')
        else if jget env ''payloadType'' \<noteq> JStr token_proof_type then Inr (cache, False, ''proof_wrong_type'')
        else case signed_body K env of
          Inl _ \<Rightarrow> Inr (cache, False, ''proof_malformed_body'')
        | Inr b \<Rightarrow>
            if \<not> is_obj b then Inl AttributeError
            else if jget b ''token_sha'' \<noteq> tok then Inr (cache, False, ''proof_token_mismatch'')
            else if jget b ''run_id'' \<noteq> run \<or> jget b ''plan_sha'' \<noteq> plan \<or> jget b ''step'' \<noteq> JStr (py_str step)
            then Inr (cache, False, ''proof_wrong_step'')
            else if cache \<noteq> None \<and> \<not> hashable tok then Inl TypeError
            else (case spend_opt cache tok (py_str run @ '':'' @ py_str step) of
                    (cache', ok) \<Rightarrow> Inr (cache', if ok then (True, ''ok'') else (False, ''proof_replay'')))))"

section \<open>What acceptance means\<close>

lemma spend_once: "spend seen i n = (seen', True) \<Longrightarrow> (i, n) \<notin> set seen \<and> set seen' = insert (i, n) (set seen)"
  by (auto simp: spend_def split: if_splits)

lemma spend_mono: "spend seen i n = (seen', ok) \<Longrightarrow> set seen \<subseteq> set seen'"
  by (auto simp: spend_def split: if_splits)

lemma nonce_claim_Some: "nonce_claim v = Some n \<longleftrightarrow> v = JStr n \<and> n \<noteq> []"
  by (auto simp: nonce_claim_def split: json.splits)

lemma window_problem_None:
  "window_problem now skew body = None \<longleftrightarrow>
     (\<exists>nbf till. int_claim (jget body ''nbf'') = Some nbf \<and> int_claim (jget body ''exp'') = Some till
        \<and> nbf - skew \<le> now \<and> now \<le> till + skew)"
  by (auto simp: window_problem_def split: option.splits)

lemma grant_problem_None:
  "grant_problem body now skew e = None \<longleftrightarrow>
     window_problem now skew body = None \<and> \<not> unexpected (jget body ''run_id'') (e_run e)
     \<and> \<not> unexpected (jget body ''plan_sha'') (e_plan e) \<and> \<not> pin_strays (jget body ''workspace'') (e_workspace e)
     \<and> \<not> pin_strays (jget body ''argv'') (e_argv e) \<and> (\<exists>n. nonce_claim (jget body ''nonce'') = Some n)"
  by (auto simp: grant_problem_def split: option.splits if_splits)

lemma verify_grant_accepts:
  assumes "verify_grant K pub env now skew e cache = Inr (cache', True, r)"
  shows "\<exists>body n. verify K env pub = Inr True \<and> jget env ''payloadType'' = JStr grant_type
     \<and> signed_body K env = Inr body \<and> grant_problem body now skew e = None \<and> jget body ''nonce'' = JStr n
     \<and> spend_opt cache (JStr (keyid K pub)) n = (cache', True)"
proof -
  from assms obtain body where v: "verify K env pub = Inr True" "jget env ''payloadType'' = JStr grant_type"
    and b: "signed_body K env = Inr body" "grant_problem body now skew e = None"
    and sp: "spend_opt cache (JStr (keyid K pub)) (the (nonce_claim (jget body ''nonce''))) = (cache', True)"
    by (auto simp: verify_grant_def bindR_eq_Inr split: if_splits option.splits prod.splits)
  from b(2) obtain n where "nonce_claim (jget body ''nonce'') = Some n" by (auto simp: grant_problem_None)
  moreover from this have "jget body ''nonce'' = JStr n" by (simp add: nonce_claim_Some)
  ultimately show ?thesis using v b sp by (metis option.sel)
qed

lemma verify_grant_cache:
  assumes "verify_grant K pub env now skew e (Some seen) = Inr (cache', ok, r)"
  shows "\<exists>seen'. cache' = Some seen' \<and> set seen \<subseteq> set seen'"
  using assms
  by (auto simp: verify_grant_def bindR_eq_Inr spend_opt_def spend_def split: if_splits option.splits prod.splits)

lemma signed_body_signed:
  assumes "\<And>s. b64d K (b64e K s) = Some s" and "parse K (canonicalize body) = Some body"
  shows "signed_body K (sign K body priv pt) = Inr body"
  using assms by (simp add: signed_body_def sign_def Let_def mk_envelope_def jget_def)

lemma sign_type [simp]: "jget (sign K body priv pt) ''payloadType'' = JStr pt"
  by (simp add: sign_def Let_def mk_envelope_def jget_def)

lemma when_set_get: "dget (when_set k v) k' = (if k' = k \<and> v \<noteq> JNull then Some v else None)"
  by (simp add: when_set_def)

lemma grant_claims_get:
  "jget (grant_claims g) ''run_id'' = JStr (g_run g)" "jget (grant_claims g) ''plan_sha'' = JStr (g_plan g)"
  "jget (grant_claims g) ''nbf'' = JInt (g_nbf g)" "jget (grant_claims g) ''exp'' = JInt (g_exp g)"
  "jget (grant_claims g) ''nonce'' = g_nonce g" "jget (grant_claims g) ''workspace'' = g_workspace g"
  "jget (grant_claims g) ''argv'' = g_argv g" "jget (grant_claims g) ''tier'' = JStr (g_tier g)"
  "jget (grant_claims g) ''acl_sha'' = g_acl_sha g" "jget (grant_claims g) ''cargo'' = g_cargo g"
  "is_obj (grant_claims g)"
  by (simp_all add: grant_claims_def jget_JObj map_add_def when_set_get split: option.splits)

section \<open>Every grant is spent once\<close>

record grant_attempt =
  at_pub :: string
  at_env :: json
  at_now :: int
  at_expect :: grant_expect

text \<open>One attempt against a shared cache; an exception is no acceptance and spends nothing.\<close>

definition attempt :: "crypto \<Rightarrow> int \<Rightarrow> nonces \<Rightarrow> grant_attempt \<Rightarrow> nonces \<times> bool" where
  "attempt K skew seen a =
     (case verify_grant K (at_pub a) (at_env a) (at_now a) skew (at_expect a) (Some seen) of
        Inr (Some seen', ok, _) \<Rightarrow> (seen', ok)
      | _ \<Rightarrow> (seen, False))"

fun accepted :: "crypto \<Rightarrow> int \<Rightarrow> nonces \<Rightarrow> grant_attempt list \<Rightarrow> grant_attempt list" where
  "accepted K skew seen [] = []"
| "accepted K skew seen (a # as) =
     (case attempt K skew seen a of (seen', ok) \<Rightarrow> (if ok then [a] else []) @ accepted K skew seen' as)"

definition attempt_nonce :: "crypto \<Rightarrow> grant_attempt \<Rightarrow> json \<times> json" where
  "attempt_nonce K a =
     (JStr (keyid K (at_pub a)), case signed_body K (at_env a) of Inr body \<Rightarrow> jget body ''nonce'' | Inl _ \<Rightarrow> JNull)"

definition grant_authentic :: "crypto \<Rightarrow> int \<Rightarrow> grant_attempt \<Rightarrow> bool" where
  "grant_authentic K skew a \<longleftrightarrow>
     verify K (at_env a) (at_pub a) = Inr True \<and> jget (at_env a) ''payloadType'' = JStr grant_type
     \<and> (\<exists>body nbf till. signed_body K (at_env a) = Inr body
          \<and> int_claim (jget body ''nbf'') = Some nbf \<and> int_claim (jget body ''exp'') = Some till
          \<and> nbf - skew \<le> at_now a \<and> at_now a \<le> till + skew
          \<and> (\<forall>x. e_run (at_expect a) = Some x \<longrightarrow> jget body ''run_id'' = x)
          \<and> (\<forall>x. e_plan (at_expect a) = Some x \<longrightarrow> jget body ''plan_sha'' = x)
          \<and> (\<forall>x. e_workspace (at_expect a) = Some x \<longrightarrow> jget body ''workspace'' \<in> {JNull, x})
          \<and> (\<forall>x. e_argv (at_expect a) = Some x \<longrightarrow> jget body ''argv'' \<in> {JNull, x}))"

lemma attempt_cases:
  assumes "attempt K skew seen a = (seen', ok)"
  shows "set seen \<subseteq> set seen'
     \<and> (ok \<longrightarrow> grant_authentic K skew a \<and> (\<exists>n. attempt_nonce K a = (JStr (keyid K (at_pub a)), JStr n)
          \<and> (JStr (keyid K (at_pub a)), n) \<notin> set seen \<and> (JStr (keyid K (at_pub a)), n) \<in> set seen'))"
proof (cases "verify_grant K (at_pub a) (at_env a) (at_now a) skew (at_expect a) (Some seen)")
  case (Inl x)
  then show ?thesis using assms by (auto simp: attempt_def)
next
  case (Inr p)
  obtain c ok' r where p: "p = (c, ok', r)" by (cases p) auto
  note v = Inr [unfolded p]
  from verify_grant_cache [OF v] obtain s where s: "c = Some s" "set seen \<subseteq> set s" by blast
  have e: "seen' = s" "ok = ok'" using assms v s by (auto simp: attempt_def)
  show ?thesis
  proof (cases ok')
    case False
    then show ?thesis using s e by simp
  next
    case True
    have "verify_grant K (at_pub a) (at_env a) (at_now a) skew (at_expect a) (Some seen) = Inr (c, True, r)" using v True by simp
    from verify_grant_accepts [OF this] obtain body n where
      a: "verify K (at_env a) (at_pub a) = Inr True" "jget (at_env a) ''payloadType'' = JStr grant_type"
      "signed_body K (at_env a) = Inr body" "grant_problem body (at_now a) skew (at_expect a) = None" "jget body ''nonce'' = JStr n"
      "spend_opt (Some seen) (JStr (keyid K (at_pub a))) n = (c, True)" by blast
    have "grant_authentic K skew a"
      using a(4) unfolding grant_authentic_def grant_problem_None window_problem_None
      by (auto simp: a(1,2,3) unexpected_def pin_strays_def split: option.splits)
    moreover have "attempt_nonce K a = (JStr (keyid K (at_pub a)), JStr n)" using a(3,5) by (simp add: attempt_nonce_def)
    moreover have "(JStr (keyid K (at_pub a)), n) \<notin> set seen \<and> (JStr (keyid K (at_pub a)), n) \<in> set s"
      using a(6) s(1) by (auto simp: spend_opt_def spend_def split: if_splits prod.splits)
    ultimately show ?thesis using s e by blast
  qed
qed

lemma accepted_distinct:
  "distinct (map (attempt_nonce K) (accepted K skew seen as))
   \<and> (\<forall>a \<in> set (accepted K skew seen as). grant_authentic K skew a \<and> (\<forall>i n. attempt_nonce K a = (i, JStr n) \<longrightarrow> (i, n) \<notin> set seen))"
proof (induction as arbitrary: seen)
  case (Cons a as)
  obtain seen' ok where at: "attempt K skew seen a = (seen', ok)" by fastforce
  note c = attempt_cases [OF at]
  show ?case
  proof (cases ok)
    case False
    then show ?thesis using Cons [of seen'] c at by auto
  next
    case True
    then obtain n where n: "attempt_nonce K a = (JStr (keyid K (at_pub a)), JStr n)" "(JStr (keyid K (at_pub a)), n) \<notin> set seen"
      "(JStr (keyid K (at_pub a)), n) \<in> set seen'" and auth: "grant_authentic K skew a" using c by blast
    have "attempt_nonce K a \<notin> attempt_nonce K ` set (accepted K skew seen' as)"
      using Cons [of seen'] n by (metis imageE)
    moreover have "accepted K skew seen (a # as) = a # accepted K skew seen' as" using at True by simp
    ultimately show ?thesis using Cons [of seen'] n auth c by auto
  qed
qed simp

text \<open>
  C16: a capability grant is spent at most once, and only where it belongs. Over any sequence of
  verifications against one nonce cache, whatever keys, envelopes, clocks and expectations are tried,
  no issuer's nonce is accepted twice; and what is accepted carries the issuer's signature over a grant
  payload, is presented inside its window up to the skew, and matches the run, the plan and, where it
  pins them, the workspace and the command that the caller expects.
\<close>

theorem grants_spent_once:
  "distinct (map (attempt_nonce K) (accepted K skew [] as))
   \<and> (\<forall>a \<in> set (accepted K skew [] as). grant_authentic K skew a)"
  using accepted_distinct [of K skew "[]" as] by blast

definition grant_crypto :: "grant_spec \<Rightarrow> crypto" where
  "grant_crypto g = toy_crypto \<lparr>parse := \<lambda>_. Some (grant_claims g)\<rparr>"

definition sample_grant :: grant_spec where
  "sample_grant = \<lparr>g_run = ''r'', g_plan = ''p'', g_snippets = JNull, g_capabilities = JList [JStr ''run''], g_credentials = JNull,
     g_tier = ''community'', g_nbf = 95, g_exp = 160, g_nonce = JStr ''n1'', g_sandbox_tier = JNull, g_acl_sha = JNull, g_skill = JNull,
     g_perk = JNull, g_destructive = JNull, g_cargo = JNull, g_workspace = JStr ''/ws/r'', g_argv = JList [JStr ''bash'']\<rparr>"

text \<open>A minted grant is accepted, the first time.\<close>

lemma minted_grant_accepted:
  assumes "mint_grant K priv g = Inr env" and "\<And>s. b64d K (b64e K s) = Some s" and "parse K (canonicalize (grant_claims g)) = Some (grant_claims g)"
    and "\<And>m. ed_verify K (pub_of K priv) (ed_sign K priv m) m"
    and "g_nbf g - skew \<le> now" and "now \<le> g_exp g + skew" and "e = \<lparr>e_run = Some (JStr (g_run g)), e_plan = Some (JStr (g_plan g)),
      e_workspace = Some (g_workspace g), e_argv = Some (g_argv g)\<rparr>"
  shows "verify_grant K (pub_of K priv) env now skew e None = Inr (None, True, ''ok'')"
proof -
  from assms(1) obtain n where n: "g_nonce g = JStr n" "n \<noteq> []" and env: "env = sign K (grant_claims g) priv grant_type"
    by (auto simp: mint_grant_def nonce_claim_def split: if_splits json.splits)
  have "verify K env (pub_of K priv) = Inr True" unfolding env by (rule sign_verify [OF assms(2,4)])
  moreover have "signed_body K env = Inr (grant_claims g)" unfolding env by (rule signed_body_signed [OF assms(2,3)])
  moreover have "grant_problem (grant_claims g) now skew e = None"
    using n assms(5,6) by (simp add: grant_problem_None window_problem_None grant_claims_get int_claim_def unexpected_def
        pin_strays_def assms(7) nonce_claim_Some)
  ultimately show ?thesis using n by (simp add: verify_grant_def env grant_claims_get spend_opt_def)
qed

definition sample_attempt :: grant_attempt where
  "sample_attempt = \<lparr>at_pub = ''k'', at_env = sign (grant_crypto sample_grant) (grant_claims sample_grant) ''k'' grant_type,
     at_now = 100, at_expect = \<lparr>e_run = Some (JStr ''r''), e_plan = Some (JStr ''p''), e_workspace = Some (JStr ''/ws/r''),
     e_argv = Some (JList [JStr ''bash''])\<rparr>\<rparr>"

lemma sample_accepted: "accepted (grant_crypto sample_grant) 60 [] [sample_attempt, sample_attempt] = [sample_attempt]"
proof -
  let ?K = "grant_crypto sample_grant"
  have v: "verify ?K (at_env sample_attempt) ''k'' = Inr True"
    using sign_verify [of ?K "''k''" "grant_claims sample_grant" grant_type]
    by (simp add: grant_crypto_def toy_crypto_def sample_attempt_def)
  have b: "signed_body ?K (at_env sample_attempt) = Inr (grant_claims sample_grant)"
    unfolding sample_attempt_def grant_attempt.simps by (rule signed_body_signed) (simp_all add: grant_crypto_def toy_crypto_def)
  have p: "grant_problem (grant_claims sample_grant) 100 60 (at_expect sample_attempt) = None"
    by (simp add: grant_problem_None window_problem_None grant_claims_get int_claim_def unexpected_def
        pin_strays_def nonce_claim_Some) (simp add: sample_grant_def sample_attempt_def)
  have t: "jget (at_env sample_attempt) ''payloadType'' = JStr grant_type" by (simp add: sample_attempt_def)
  have n: "nonce_claim (jget (grant_claims sample_grant) ''nonce'') = Some ''n1''"
    by (simp add: grant_claims_get nonce_claim_Some) (simp add: sample_grant_def)
  have at: "attempt ?K 60 seen sample_attempt = spend seen (JStr (keyid ?K ''k'')) ''n1''" for seen
    using v b p t n by (simp add: attempt_def verify_grant_def grant_claims_get spend_opt_def spend_def sample_attempt_def)
  show ?thesis by (simp add: at spend_def)
qed

theorem grants_spent_once_witness:
  "distinct (map (attempt_nonce (grant_crypto sample_grant)) [sample_attempt])
   \<and> grant_authentic (grant_crypto sample_grant) 60 sample_attempt"
  using grants_spent_once [of "grant_crypto sample_grant" 60 "[sample_attempt, sample_attempt]"] unfolding sample_accepted by simp

end
