(* ===== verification/Sandbox.thy ===== *)
theory Sandbox
  imports Text
begin

text \<open>
  The confinement of a step: the profile and its two renderings (\<open>src/infra/exec/sandbox.py\<close>, bwrap
  and gVisor) and the capability manifest a profile is held to (\<open>src/infra/exec/capmanifest.py\<close>).
  \<open>fs p\<close> says whether the path exists on the host; what bwrap and runsc do with a rendering is theirs.
\<close>

section \<open>Profiles\<close>

definition core_ro :: "string list" where
  "core_ro = [''/usr'', ''/bin'', ''/sbin'', ''/lib'', ''/lib32'', ''/lib64'', ''/libx32'', ''/etc'']"

record profile =
  p_workspace :: string
  p_ro :: "string list"
  p_network :: bool
  p_proc :: bool
  p_dev :: bool
  p_tmpfs :: "string list"
  p_clearenv :: bool
  p_env :: "(string, string) dict"
  p_hostname :: string
  p_uid :: int
  p_gid :: int
  p_mask :: bool
  p_cargo :: "string option"
  p_cargo_path :: string

definition core_profile :: "string \<Rightarrow> bool \<Rightarrow> profile" where
  "core_profile ws network =
     \<lparr>p_workspace = ws, p_ro = core_ro, p_network = network, p_proc = True, p_dev = True, p_tmpfs = [''/tmp''],
      p_clearenv = True, p_env = [(''PATH'', ''/usr/local/bin:/usr/bin:/bin:/usr/sbin:/sbin'')], p_hostname = ''sandbox'',
      p_uid = 65534, p_gid = 65534, p_mask = True, p_cargo = None, p_cargo_path = ''/cyberware_cargo''\<rparr>"

definition masked_files :: "string list" where
  "masked_files = [''/proc/sysrq-trigger'', ''/proc/kcore'', ''/proc/kallsyms'', ''/proc/keys'', ''/proc/timer_list'', ''/proc/sched_debug'']"

definition cargo_bound :: "(string \<Rightarrow> bool) \<Rightarrow> profile \<Rightarrow> bool" where
  "cargo_bound fs p \<longleftrightarrow> p_cargo p \<in> {Some ''ro'', Some ''rw''} \<and> fs (p_cargo_path p)"

text \<open>The pieces of the command line, in the order in which they are emitted.\<close>

definition head_args :: "profile \<Rightarrow> string list" where
  "head_args p =
     [''bwrap'', ''--die-with-parent'', ''--new-session'', ''--unshare-user'', ''--unshare-pid'', ''--unshare-ipc'', ''--unshare-uts'',
      ''--unshare-cgroup-try'', ''--uid'', show_int (p_uid p), ''--gid'', show_int (p_gid p), ''--hostname'', p_hostname p]
     @ (if p_network p then [] else [''--unshare-net''])"

definition bind_args :: "(string \<Rightarrow> bool) \<Rightarrow> profile \<Rightarrow> string list" where
  "bind_args fs p =
     concat (map (\<lambda>q. [''--ro-bind'', q, q]) (filter fs (p_ro p)))
     @ concat (map (\<lambda>t. [''--tmpfs'', t]) (p_tmpfs p))
     @ [''--bind'', p_workspace p, p_workspace p]
     @ (if cargo_bound fs p
        then [if p_cargo p = Some ''rw'' then ''--bind'' else ''--ro-bind'', p_cargo_path p, p_cargo_path p] else [])"

definition proc_args :: "(string \<Rightarrow> bool) \<Rightarrow> profile \<Rightarrow> string list" where
  "proc_args fs p =
     (if \<not> p_proc p then []
      else [''--proc'', ''/proc'']
        @ (if \<not> p_mask p then []
           else [''--ro-bind-try'', ''/proc/sys'', ''/proc/sys'']
             @ concat (map (\<lambda>f. [''--ro-bind'', ''/dev/null'', f]) (filter fs masked_files))))"

definition tail_args :: "profile \<Rightarrow> string list" where
  "tail_args p =
     (if p_dev p then [''--dev'', ''/dev''] else []) @ (if p_clearenv p then [''--clearenv''] else [])
     @ concat (map (\<lambda>(k, v). [''--setenv'', k, v]) (p_env p)) @ [''--chdir'', p_workspace p, ''--'']"

definition bwrap_argv :: "(string \<Rightarrow> bool) \<Rightarrow> profile \<Rightarrow> string list \<Rightarrow> string list" where
  "bwrap_argv fs p argv = head_args p @ bind_args fs p @ proc_args fs p @ tail_args p @ argv"

section \<open>The gVisor rendering\<close>

record oci_mount =
  m_dest :: string
  m_type :: string
  m_source :: string
  m_options :: "string list"

record oci_spec =
  o_hostname :: string
  o_root_readonly :: bool
  o_uid :: int
  o_gid :: int
  o_args :: "string list"
  o_env :: "string list"
  o_cwd :: string
  o_no_new_privs :: bool
  o_caps_bounding :: "string list"
  o_mounts :: "oci_mount list"
  o_namespaces :: "string list"
  o_masked :: "string list"
  o_readonly :: "string list"
  o_uid_map :: "int \<times> int"
  o_gid_map :: "int \<times> int"

definition oci_mounts :: "(string \<Rightarrow> bool) \<Rightarrow> profile \<Rightarrow> oci_mount list" where
  "oci_mounts fs p =
     map (\<lambda>t. \<lparr>m_dest = t, m_type = ''tmpfs'', m_source = ''tmpfs'', m_options = [''nosuid'', ''nodev'', ''noexec'']\<rparr>) (p_tmpfs p)
     @ (if p_proc p then [\<lparr>m_dest = ''/proc'', m_type = ''proc'', m_source = ''proc'', m_options = []\<rparr>] else [])
     @ map (\<lambda>q. \<lparr>m_dest = q, m_type = ''bind'', m_source = q, m_options = [''ro'', ''rbind'', ''nosuid'']\<rparr>) (filter fs (p_ro p))
     @ [\<lparr>m_dest = p_workspace p, m_type = ''bind'', m_source = p_workspace p, m_options = [''rw'', ''rbind'', ''nosuid'']\<rparr>]
     @ (if cargo_bound fs p
        then [\<lparr>m_dest = p_cargo_path p, m_type = ''bind'', m_source = p_cargo_path p,
               m_options = [(case p_cargo p of Some c \<Rightarrow> c | None \<Rightarrow> []), ''rbind'', ''nosuid'']\<rparr>] else [])"

definition oci_config :: "(string \<Rightarrow> bool) \<Rightarrow> int \<times> int \<Rightarrow> profile \<Rightarrow> string list \<Rightarrow> oci_spec" where
  "oci_config fs host p argv =
     \<lparr>o_hostname = p_hostname p, o_root_readonly = True, o_uid = p_uid p, o_gid = p_gid p, o_args = argv,
      o_env = map (\<lambda>(k, v). k @ ''='' @ v) (p_env p), o_cwd = p_workspace p, o_no_new_privs = True, o_caps_bounding = [],
      o_mounts = oci_mounts fs p,
      o_namespaces = [''pid'', ''ipc'', ''uts'', ''mount'', ''user'', ''cgroup''] @ (if p_network p then [] else [''network'']),
      o_masked = filter fs masked_files, o_readonly = [''/proc/sys''],
      o_uid_map = (p_uid p, fst host), o_gid_map = (p_gid p, snd host)\<rparr>"

section \<open>What a rendering confines\<close>

definition bind_flags :: "string list" where
  "bind_flags = [''--ro-bind'', ''--ro-bind-try'', ''--bind'']"

definition bind_cap :: "string \<Rightarrow> string \<Rightarrow> string \<Rightarrow> (string \<times> string) list" where
  "bind_cap flag src dst =
     (if src = dst \<and> \<not> starts_with dst ''/proc'' \<and> src \<noteq> ''/dev/null''
      then [(dst, if flag = ''--bind'' then ''rw'' else ''ro'')] else [])"

text \<open>The loop over the command line: three words at a bind flag, one otherwise.\<close>

fun scan_binds :: "string list \<Rightarrow> (string \<times> string) list" where
  "scan_binds (flag # src # dst # rest) =
     (if flag \<in> set bind_flags then bind_cap flag src dst @ scan_binds rest else scan_binds (src # dst # rest))"
| "scan_binds _ = []"

definition materialized_mounts :: "(string \<Rightarrow> bool) \<Rightarrow> profile \<Rightarrow> (string \<times> string) list" where
  "materialized_mounts fs p = scan_binds (bwrap_argv fs p [''true''])"

datatype backend = Bwrap | Runsc

definition capability_mounts :: "(string \<Rightarrow> bool) \<Rightarrow> int \<times> int \<Rightarrow> profile \<Rightarrow> backend \<Rightarrow> (string \<times> string) list" where
  "capability_mounts fs host p be =
     (case be of
        Bwrap \<Rightarrow> scan_binds (bwrap_argv fs p [''true''])
      | Runsc \<Rightarrow> map (\<lambda>m. (m_dest m, if ''ro'' \<in> set (m_options m) then ''ro'' else ''rw''))
                   (filter (\<lambda>m. m_type m = ''bind'' \<and> m_source m = m_dest m \<and> \<not> starts_with (m_dest m) ''/proc'')
                     (o_mounts (oci_config fs host p [''true'']))))"

definition namespace_flags :: "(string \<times> string) list" where
  "namespace_flags = [(''--unshare-user'', ''user''), (''--unshare-pid'', ''pid''), (''--unshare-ipc'', ''ipc''), (''--unshare-uts'', ''uts''),
     (''--unshare-cgroup-try'', ''cgroup''), (''--unshare-net'', ''network'')]"

definition namespaces_of :: "(string \<Rightarrow> bool) \<Rightarrow> int \<times> int \<Rightarrow> profile \<Rightarrow> backend \<Rightarrow> string list" where
  "namespaces_of fs host p be =
     (case be of
        Bwrap \<Rightarrow> ''mount'' # map snd (filter (\<lambda>(flag, n). flag \<in> set (bwrap_argv fs p [''true''])) namespace_flags)
      | Runsc \<Rightarrow> o_namespaces (oci_config fs host p [''true'']))"

fun scan_masked :: "string list \<Rightarrow> string list" where
  "scan_masked (a # b # c # rest) =
     (if a = ''--ro-bind'' \<and> b = ''/dev/null'' \<and> c \<in> set masked_files then [c] else []) @ scan_masked (b # c # rest)"
| "scan_masked _ = []"

definition masked_proc :: "(string \<Rightarrow> bool) \<Rightarrow> int \<times> int \<Rightarrow> profile \<Rightarrow> backend \<Rightarrow> string list" where
  "masked_proc fs host p be =
     (case be of
        Bwrap \<Rightarrow> scan_masked (bwrap_argv fs p [''true''])
                  @ (if ''/proc/sys'' \<in> set (bwrap_argv fs p [''true'']) then [''/proc/sys''] else [])
      | Runsc \<Rightarrow> filter (\<lambda>f. f \<in> set masked_files) (o_masked (oci_config fs host p [''true'']))
                  @ (if ''/proc/sys'' \<in> set (o_readonly (oci_config fs host p [''true''])) then [''/proc/sys''] else []))"

record confinement =
  c_mounts :: "(string \<times> string) set"
  c_namespaces :: "string set"
  c_net_isolated :: bool
  c_readonly_root :: bool
  c_masked :: "string set"
  c_uid :: "string option"
  c_gid :: "string option"
  c_no_new_privs :: bool
  c_caps_dropped :: bool

text \<open>The word after the first occurrence of a flag; identifiers are compared as their texts.\<close>

fun after :: "string \<Rightarrow> string list \<Rightarrow> string option" where
  "after f (a # b # rest) = (if a = f then Some b else after f (b # rest))"
| "after f _ = None"

definition confinement_of :: "(string \<Rightarrow> bool) \<Rightarrow> int \<times> int \<Rightarrow> profile \<Rightarrow> backend \<Rightarrow> confinement" where
  "confinement_of fs host p be =
     (let mounts = set (capability_mounts fs host p be);
          nss = set (namespaces_of fs host p be);
          argv = bwrap_argv fs p [''true''];
          spec = oci_config fs host p [''true'']
      in \<lparr>c_mounts = mounts, c_namespaces = nss, c_net_isolated = (''network'' \<in> nss),
          c_readonly_root = (fst ` {x \<in> mounts. snd x = ''rw''} = {p_workspace p}),
          c_masked = set (masked_proc fs host p be),
          c_uid = (case be of Bwrap \<Rightarrow> after ''--uid'' argv | Runsc \<Rightarrow> Some (show_int (o_uid spec))),
          c_gid = (case be of Bwrap \<Rightarrow> after ''--gid'' argv | Runsc \<Rightarrow> Some (show_int (o_gid spec))),
          c_no_new_privs = (case be of Bwrap \<Rightarrow> ''--unshare-user'' \<in> set argv | Runsc \<Rightarrow> o_no_new_privs spec),
          c_caps_dropped = (case be of Bwrap \<Rightarrow> ''--unshare-user'' \<in> set argv | Runsc \<Rightarrow> o_caps_bounding spec = [])\<rparr>)"

section \<open>Choosing the backend\<close>

definition sandbox_tiers :: "string list" where "sandbox_tiers = [''core'', ''verified'', ''community'']"

definition tier_backend :: "(string, string) dict" where
  "tier_backend = [(''core'', ''bwrap''), (''verified'', ''bwrap''), (''trusted'', ''bwrap''), (''community'', ''runsc'')]"

definition backend_for_tier :: "string option \<Rightarrow> string" where
  "backend_for_tier t = (case t of None \<Rightarrow> ''bwrap'' | Some s \<Rightarrow> dget_default tier_backend s ''runsc'')"

definition strength :: "string \<Rightarrow> nat" where
  "strength b = dget_default [(''bwrap'', 1), (''runsc'', 2)] b 0"

definition strongest :: "string \<Rightarrow> string \<Rightarrow> string" where
  "strongest a b = (if strength b \<le> strength a then a else b)"

definition backend_enforceable :: "bool \<Rightarrow> bool \<Rightarrow> string \<Rightarrow> bool" where
  "backend_enforceable bwrap_live runsc_live b = (if b = ''runsc'' then runsc_live else bwrap_live)"

text \<open>A run through a backend, or a refusal; what the two programs answer is a parameter.\<close>

definition run_confined ::
  "bool \<Rightarrow> bool \<Rightarrow> (profile \<Rightarrow> string list \<Rightarrow> 'r res) \<Rightarrow> (profile \<Rightarrow> string list \<Rightarrow> 'r res) \<Rightarrow> profile \<Rightarrow> string list \<Rightarrow> string \<Rightarrow> 'r res" where
  "run_confined bwrap_live runsc_live bwrap runsc p argv b =
     (if b = ''runsc'' then (if runsc_live then runsc p argv else Inl RuntimeError)
      else if bwrap_live then bwrap p argv else Inl RuntimeError)"

section \<open>Manifests\<close>

record manifest =
  mf_workspace :: string
  mf_ro :: "string list"
  mf_network :: bool
  mf_tier :: string
  mf_credentials :: "string list"

definition default_manifest :: "string \<Rightarrow> manifest" where
  "default_manifest ws = \<lparr>mf_workspace = ws, mf_ro = core_ro, mf_network = False, mf_tier = ''community'', mf_credentials = []\<rparr>"

definition community_no_secrets :: "manifest \<Rightarrow> string" where
  "community_no_secrets m =
     (if mf_tier m \<notin> {''community'', ''trusted''} then ''unknown_tier:'' @ mf_tier m
      else if mf_tier m = ''community'' \<and> mf_credentials m \<noteq> [] then ''community_tier_cannot_request_secrets''
      else ''ok'')"

definition materialize :: "manifest \<Rightarrow> profile" where
  "materialize m = core_profile (mf_workspace m) (mf_network m) \<lparr>p_ro := mf_ro m\<rparr>"

definition declared_mounts :: "(string \<Rightarrow> bool) \<Rightarrow> manifest \<Rightarrow> (string \<times> string) set" where
  "declared_mounts fs m = insert (mf_workspace m, ''rw'') (set (map (\<lambda>q. (q, ''ro'')) (filter fs (mf_ro m))))"

definition verify_materialized :: "(string \<Rightarrow> bool) \<Rightarrow> profile \<Rightarrow> manifest \<Rightarrow> string" where
  "verify_materialized fs p m =
     (let declared = declared_mounts fs m; actual = set (materialized_mounts fs p)
      in if \<not> actual \<subseteq> declared then ''ungranted_bind''
         else if \<not> declared \<subseteq> actual then ''dropped_bind''
         else if p_network p \<noteq> mf_network m then ''network_mismatch''
         else ''ok'')"

definition materialize_checked :: "(string \<Rightarrow> bool) \<Rightarrow> manifest \<Rightarrow> profile res" where
  "materialize_checked fs m =
     (if community_no_secrets m \<noteq> ''ok'' then Inl ValueError
      else if verify_materialized fs (materialize m) m \<noteq> ''ok'' then Inl ValueError
      else Inr (materialize m))"

section \<open>Reading the command line back\<close>

text \<open>A word that no flag equals; profiles whose words are all plain are read back exactly.\<close>

definition plain :: "string \<Rightarrow> bool" where
  "plain s \<longleftrightarrow> \<not> starts_with s ''--''"

definition plain_profile :: "profile \<Rightarrow> bool" where
  "plain_profile p \<longleftrightarrow> plain (p_workspace p) \<and> list_all plain (p_ro p) \<and> list_all plain (p_tmpfs p) \<and> plain (p_cargo_path p)
     \<and> plain (p_hostname p) \<and> list_all (\<lambda>(k, v). plain k \<and> plain v) (p_env p) \<and> p_workspace p \<noteq> ''/dev/null''
     \<and> ''/dev/null'' \<notin> set (p_ro p) \<and> p_cargo_path p \<noteq> ''/dev/null''"

lemma plain_not_flag: "plain s \<Longrightarrow> s \<notin> set bind_flags"
  by (auto simp: plain_def bind_flags_def)

lemma scan_skip: "x \<notin> set bind_flags \<Longrightarrow> 2 \<le> length rest \<Longrightarrow> scan_binds (x # rest) = scan_binds rest"
  by (cases rest rule: scan_binds.cases) auto

lemma scan_skips: "\<forall>x \<in> set xs. x \<notin> set bind_flags \<Longrightarrow> 2 \<le> length rest \<Longrightarrow> scan_binds (xs @ rest) = scan_binds rest"
  by (induction xs) (auto simp: scan_skip)

lemma scan_binds_concat:
  "flag \<in> set bind_flags \<Longrightarrow> scan_binds (concat (map (\<lambda>q. [flag, f q, g q]) qs) @ rest)
     = concat (map (\<lambda>q. bind_cap flag (f q) (g q)) qs) @ scan_binds rest"
  by (induction qs) auto

lemma plain_words:
  assumes "plain_profile p" and "starts_with w ''--''"
  shows "p_workspace p \<noteq> w" "q \<in> set (p_ro p) \<Longrightarrow> q \<noteq> w" "q \<in> set (p_tmpfs p) \<Longrightarrow> q \<noteq> w" "p_cargo_path p \<noteq> w" "p_hostname p \<noteq> w"
    "(k, v) \<in> set (p_env p) \<Longrightarrow> k \<noteq> w \<and> v \<noteq> w"
  using assms by (auto simp: plain_profile_def list_all_iff plain_def)

lemma show_int_plain: "\<not> starts_with (show_int i) ''--''"
proof
  assume "starts_with (show_int i) ''--''"
  then obtain t where t: "show_int i = ''--'' @ t" by (auto simp: prefix_def)
  have "CHR ''-'' \<notin> set (show_nat n)" for n using show_nat_digits [of n] by auto
  moreover have "set t \<union> {CHR ''-''} \<subseteq> set (show_nat (nat (- i))) \<or> set (show_int i) \<subseteq> set (show_nat (nat i))"
    using t by (auto simp: show_int_def split: if_splits)
  ultimately show False using t by (metis append_Cons insert_subset list.set_intros(1) subsetD Un_insert_right insertI1)
qed

lemma flags_dashed: "f \<in> set bind_flags \<Longrightarrow> starts_with f ''--''"
  by (auto simp: bind_flags_def)

lemma scan_tail: "plain_profile p \<Longrightarrow> scan_binds (tail_args p @ [''true'']) = []"
proof -
  assume p: "plain_profile p"
  let ?pre = "(if p_dev p then [''--dev'', ''/dev''] else []) @ (if p_clearenv p then [''--clearenv''] else [])
     @ concat (map (\<lambda>(k, v). [''--setenv'', k, v]) (p_env p))"
  have e: "k \<notin> set bind_flags \<and> v \<notin> set bind_flags" if "(k, v) \<in> set (p_env p)" for k v
    using plain_words(6) [OF p _ that] flags_dashed by metis
  have "\<forall>x \<in> set ?pre. x \<notin> set bind_flags"
  proof
    fix x assume "x \<in> set ?pre"
    then have "x \<in> {''--dev'', ''/dev'', ''--clearenv'', ''--setenv''} \<or> (\<exists>k v. (k, v) \<in> set (p_env p) \<and> (x = k \<or> x = v))"
      by (auto split: if_splits)
    then show "x \<notin> set bind_flags" using e by (auto simp: bind_flags_def)
  qed
  then have "scan_binds (?pre @ [''--chdir'', p_workspace p, ''--'', ''true'']) = scan_binds [''--chdir'', p_workspace p, ''--'', ''true'']"
    by (rule scan_skips) simp
  moreover have "p_workspace p \<notin> set bind_flags" using plain_words(1) [OF p] flags_dashed by metis
  moreover have "tail_args p @ [''true''] = ?pre @ [''--chdir'', p_workspace p, ''--'', ''true'']" by (simp add: tail_args_def)
  ultimately show ?thesis by (simp only: scan_binds.simps) (simp add: bind_flags_def)
qed

lemma scan_proc: "2 \<le> length rest \<Longrightarrow> scan_binds (proc_args fs p @ rest) = scan_binds rest"
proof -
  assume r: "2 \<le> length rest"
  have m: "concat (map (\<lambda>f. bind_cap ''--ro-bind'' ''/dev/null'' f) (filter fs masked_files)) = []"
    by (auto simp: bind_cap_def masked_files_def)
  have "scan_binds (concat (map (\<lambda>f. [''--ro-bind'', ''/dev/null'', f]) (filter fs masked_files)) @ rest) = scan_binds rest"
    using scan_binds_concat [of "''--ro-bind''" "\<lambda>_. ''/dev/null''" "\<lambda>f. f" "filter fs masked_files" rest] m
    by (simp add: bind_flags_def)
  moreover have "scan_binds ([''--ro-bind-try'', ''/proc/sys'', ''/proc/sys''] @ xs) = scan_binds xs" for xs
    by (simp add: bind_flags_def bind_cap_def)
  moreover have "2 \<le> length xs \<Longrightarrow> scan_binds ([''--proc'', ''/proc''] @ xs) = scan_binds xs" for xs
    by (rule scan_skips) (simp_all add: bind_flags_def)
  ultimately show ?thesis using r by (simp add: proc_args_def)
qed

definition cap_list :: "(string \<Rightarrow> bool) \<Rightarrow> profile \<Rightarrow> (string \<times> string) list" where
  "cap_list fs p =
     concat (map (\<lambda>q. bind_cap ''--ro-bind'' q q) (filter fs (p_ro p))) @ bind_cap ''--bind'' (p_workspace p) (p_workspace p)
     @ (if cargo_bound fs p then bind_cap (if p_cargo p = Some ''rw'' then ''--bind'' else ''--ro-bind'') (p_cargo_path p) (p_cargo_path p) else [])"

lemma materialized_plain:
  assumes p: "plain_profile p"
  shows "materialized_mounts fs p = cap_list fs p"
proof -
  let ?tail = "tail_args p @ [''true'']"
  have len: "2 \<le> length ?tail" by (simp add: tail_args_def)
  have head: "\<forall>x \<in> set (head_args p). x \<notin> set bind_flags"
  proof -
    have "p_hostname p \<notin> set bind_flags" using plain_words(5) [OF p] flags_dashed by metis
    moreover have "show_int i \<notin> set bind_flags" for i using show_int_plain flags_dashed by metis
    ultimately show ?thesis by (auto simp: head_args_def) (auto simp: bind_flags_def)
  qed
  have tmpfs: "\<forall>x \<in> set (concat (map (\<lambda>t. [''--tmpfs'', t]) (p_tmpfs p))). x \<notin> set bind_flags"
  proof -
    have "t \<notin> set bind_flags" if "t \<in> set (p_tmpfs p)" for t using plain_words(3) [OF p _ that] flags_dashed by metis
    moreover have "''--tmpfs'' \<notin> set bind_flags" by (simp add: bind_flags_def)
    ultimately show ?thesis by auto
  qed
  let ?rest = "proc_args fs p @ ?tail"
  let ?cargo = "if cargo_bound fs p
        then [if p_cargo p = Some ''rw'' then ''--bind'' else ''--ro-bind'', p_cargo_path p, p_cargo_path p] else []"
  have fl: "''--bind'' \<in> set bind_flags" "''--ro-bind'' \<in> set bind_flags" by (simp_all add: bind_flags_def)
  have "materialized_mounts fs p = scan_binds (head_args p @ bind_args fs p @ ?rest)"
    by (simp add: materialized_mounts_def bwrap_argv_def)
  also have "\<dots> = scan_binds (bind_args fs p @ ?rest)" by (rule scan_skips [OF head]) (use len in simp)
  also have "\<dots> = concat (map (\<lambda>q. bind_cap ''--ro-bind'' q q) (filter fs (p_ro p)))
      @ scan_binds (concat (map (\<lambda>t. [''--tmpfs'', t]) (p_tmpfs p)) @ [''--bind'', p_workspace p, p_workspace p] @ ?cargo @ ?rest)"
    unfolding bind_args_def append_assoc by (rule scan_binds_concat [OF fl(2)])
  also have "scan_binds (concat (map (\<lambda>t. [''--tmpfs'', t]) (p_tmpfs p)) @ [''--bind'', p_workspace p, p_workspace p] @ ?cargo @ ?rest)
      = scan_binds ([''--bind'', p_workspace p, p_workspace p] @ ?cargo @ ?rest)" by (rule scan_skips [OF tmpfs]) simp
  also have "\<dots> = bind_cap ''--bind'' (p_workspace p) (p_workspace p) @ scan_binds (?cargo @ ?rest)" using fl by simp
  also have "scan_binds (?cargo @ ?rest) =
      (if cargo_bound fs p then bind_cap (if p_cargo p = Some ''rw'' then ''--bind'' else ''--ro-bind'') (p_cargo_path p) (p_cargo_path p) else [])
      @ scan_binds ?rest" using fl by simp
  also have "scan_binds ?rest = []" using scan_proc [OF len] scan_tail [OF p] by simp
  finally show ?thesis by (simp add: cap_list_def)
qed

lemma bind_cap_set:
  "q \<noteq> ''/dev/null'' \<Longrightarrow> set (bind_cap f q q) = (if starts_with q ''/proc'' then {} else {(q, if f = ''--bind'' then ''rw'' else ''ro'')})"
  by (simp add: bind_cap_def)

lemma bind_caps_ro:
  "''/dev/null'' \<notin> set qs \<Longrightarrow> set (concat (map (\<lambda>q. bind_cap ''--ro-bind'' q q) qs)) =
     set (map (\<lambda>q. (q, ''ro'')) (filter (\<lambda>q. \<not> starts_with q ''/proc'') qs))"
  by (induction qs) (auto simp: bind_cap_def)

definition oci_cap :: "oci_mount \<Rightarrow> (string \<times> string) set" where
  "oci_cap m = (if m_type m = ''bind'' \<and> m_source m = m_dest m \<and> \<not> starts_with (m_dest m) ''/proc''
     then {(m_dest m, if ''ro'' \<in> set (m_options m) then ''ro'' else ''rw'')} else {})"

lemma runsc_caps: "set (capability_mounts fs host p Runsc) = (\<Union>m \<in> set (oci_mounts fs p). oci_cap m)"
  by (auto simp: capability_mounts_def oci_config_def oci_cap_def)

lemma runsc_mounts:
  assumes p: "plain_profile p"
  shows "set (capability_mounts fs host p Runsc) = set (cap_list fs p)"
proof -
  have nn: "p_workspace p \<noteq> ''/dev/null''" "''/dev/null'' \<notin> set (p_ro p)" "p_cargo_path p \<noteq> ''/dev/null''"
    using p by (auto simp: plain_profile_def)
  have ro: "''/dev/null'' \<notin> set (filter fs (p_ro p))" using nn(2) by simp
  have ws: "oci_cap \<lparr>m_dest = p_workspace p, m_type = ''bind'', m_source = p_workspace p, m_options = [''rw'', ''rbind'', ''nosuid'']\<rparr>
      = set (bind_cap ''--bind'' (p_workspace p) (p_workspace p))"
    unfolding bind_cap_set [OF nn(1)] by (simp add: oci_cap_def)
  have cg: "(\<Union>m \<in> set (if cargo_bound fs p
        then [\<lparr>m_dest = p_cargo_path p, m_type = ''bind'', m_source = p_cargo_path p,
               m_options = [(case p_cargo p of Some c \<Rightarrow> c | None \<Rightarrow> []), ''rbind'', ''nosuid'']\<rparr>] else []). oci_cap m)
      = set (if cargo_bound fs p then bind_cap (if p_cargo p = Some ''rw'' then ''--bind'' else ''--ro-bind'') (p_cargo_path p) (p_cargo_path p) else [])"
  proof (cases "cargo_bound fs p")
    case True
    then have "p_cargo p = Some ''ro'' \<or> p_cargo p = Some ''rw''" by (auto simp: cargo_bound_def)
    then show ?thesis using True bind_cap_set [OF nn(3)] by (auto simp: oci_cap_def)
  qed simp
  have rm: "(\<Union>m \<in> set (map (\<lambda>q. \<lparr>m_dest = q, m_type = ''bind'', m_source = q, m_options = [''ro'', ''rbind'', ''nosuid'']\<rparr>) qs). oci_cap m)
      = set (map (\<lambda>q. (q, ''ro'')) (filter (\<lambda>q. \<not> starts_with q ''/proc'') qs))" for qs
    by (induction qs) (auto simp: oci_cap_def)
  have t: "(\<Union>m \<in> set (map (\<lambda>t. \<lparr>m_dest = t, m_type = ''tmpfs'', m_source = ''tmpfs'', m_options = [''nosuid'', ''nodev'', ''noexec'']\<rparr>) ts). oci_cap m) = {}" for ts
    by (induction ts) (auto simp: oci_cap_def)
  have pr: "(\<Union>m \<in> set (if p_proc p then [\<lparr>m_dest = ''/proc'', m_type = ''proc'', m_source = ''proc'', m_options = []\<rparr>] else []). oci_cap m) = {}"
    by (simp add: oci_cap_def)
  have "(\<Union>m \<in> set (oci_mounts fs p). oci_cap m)
      = set (map (\<lambda>q. (q, ''ro'')) (filter (\<lambda>q. \<not> starts_with q ''/proc'') (filter fs (p_ro p))))
        \<union> (set (bind_cap ''--bind'' (p_workspace p) (p_workspace p))
        \<union> set (if cargo_bound fs p then bind_cap (if p_cargo p = Some ''rw'' then ''--bind'' else ''--ro-bind'') (p_cargo_path p) (p_cargo_path p) else []))"
    unfolding oci_mounts_def set_append UN_Un t pr rm cg by (simp add: ws)
  then show ?thesis unfolding runsc_caps cap_list_def set_append bind_caps_ro [OF ro] by simp
qed

lemma unshare_net: "plain_profile p \<Longrightarrow> ''--unshare-net'' \<in> set (bwrap_argv fs p [''true'']) \<longleftrightarrow> \<not> p_network p"
proof -
  assume p: "plain_profile p"
  note w = plain_words [OF p, of "''--unshare-net''"]
  have "''--unshare-net'' \<noteq> show_int i" for i
  proof
    assume "''--unshare-net'' = show_int i"
    then have "starts_with (show_int i) ''--''" by (metis append_Cons append_Nil prefixI)
    then show False using show_int_plain by blast
  qed
  then have "''--unshare-net'' \<in> set (head_args p) \<longleftrightarrow> \<not> p_network p" using w(5) by (auto simp: head_args_def)
  moreover have "''--unshare-net'' \<notin> set (bind_args fs p)"
    using w(1-4) by (auto simp: bind_args_def split: if_splits)
  moreover have "''--unshare-net'' \<notin> set (proc_args fs p)" by (auto simp: proc_args_def masked_files_def split: if_splits)
  moreover have "''--unshare-net'' \<notin> set (tail_args p)" using w(1,6) by (auto simp: tail_args_def split: if_splits)
  ultimately show ?thesis by (auto simp: bwrap_argv_def)
qed

lemma bwrap_head: "f \<in> set [''--unshare-user'', ''--unshare-pid'', ''--unshare-ipc'', ''--unshare-uts'', ''--unshare-cgroup-try''] \<Longrightarrow>
    f \<in> set (bwrap_argv fs p [''true''])"
  by (auto simp: bwrap_argv_def head_args_def)

lemma namespaces_parity: "plain_profile p \<Longrightarrow> set (namespaces_of fs host p Bwrap) = set (namespaces_of fs host p Runsc)"
  using unshare_net [of p fs] by (auto simp: namespaces_of_def namespace_flags_def oci_config_def bwrap_head)

text \<open>The masked files: the only places where a read-only bind of the null device is emitted.\<close>

lemma scan_masked_skip: "\<not> (a = ''--ro-bind'' \<and> take 1 rest = [''/dev/null'']) \<Longrightarrow> scan_masked (a # rest) = scan_masked rest"
proof (cases rest)
  case (Cons b r)
  assume "\<not> (a = ''--ro-bind'' \<and> take 1 rest = [''/dev/null''])"
  then show ?thesis using Cons by (cases r) auto
qed simp

lemma scan_masked_skips: "''--ro-bind'' \<notin> set xs \<Longrightarrow> scan_masked (xs @ rest) = scan_masked rest"
  by (induction xs) (auto simp: scan_masked_skip)

lemma scan_masked_binds:
  "\<forall>q \<in> set qs. q \<noteq> ''/dev/null'' \<and> q \<noteq> ''--ro-bind'' \<Longrightarrow>
     scan_masked (concat (map (\<lambda>q. [''--ro-bind'', q, q]) qs) @ rest) = scan_masked rest"
proof (induction qs)
  case (Cons q qs)
  have "''--ro-bind'' \<notin> set [q, q]" using Cons.prems by auto
  then have "scan_masked ([q, q] @ concat (map (\<lambda>q. [''--ro-bind'', q, q]) qs) @ rest) = scan_masked rest"
    using Cons scan_masked_skips [of "[q, q]"] by simp
  then show ?case using Cons.prems by (simp add: scan_masked_skip)
qed simp

lemma scan_masked_files:
  assumes "set qs \<subseteq> set masked_files"
  shows "scan_masked (concat (map (\<lambda>f. [''--ro-bind'', ''/dev/null'', f]) qs) @ rest) = qs @ scan_masked rest"
  using assms
proof (induction qs)
  case (Cons q qs)
  then have "q \<noteq> ''--ro-bind''" by (auto simp: masked_files_def)
  then have "scan_masked (''/dev/null'' # q # concat (map (\<lambda>f. [''--ro-bind'', ''/dev/null'', f]) qs) @ rest) = qs @ scan_masked rest"
    using Cons scan_masked_skips [of "[''/dev/null'', q]"] by simp
  then show ?case using Cons.prems by simp
qed simp

lemma masked_parity:
  assumes p: "plain_profile p" and "p_proc p" and "p_mask p"
  shows "set (masked_proc fs host p Bwrap) = set (masked_proc fs host p Runsc)"
proof -
  note w = plain_words [OF p, of "''--ro-bind''"]
  have nn: "p_workspace p \<noteq> ''/dev/null''" "''/dev/null'' \<notin> set (p_ro p)" "p_cargo_path p \<noteq> ''/dev/null''"
    using p by (auto simp: plain_profile_def)
  have si: "show_int i \<noteq> ''--ro-bind''" for i using show_int_plain [of i] by auto
  let ?tail = "tail_args p @ [''true'']"
  have h: "''--ro-bind'' \<notin> set (head_args p)" using w(5) si by (auto simp: head_args_def) metis+
  have t: "''--ro-bind'' \<notin> set ?tail" using w(1,6) by (auto simp: tail_args_def split: if_splits)
  have t0: "scan_masked ?tail = []" using scan_masked_skips [OF t, of "[]"] by simp
  have tm: "''--ro-bind'' \<notin> set (concat (map (\<lambda>t. [''--tmpfs'', t]) (p_tmpfs p)) @ [''--bind'', p_workspace p, p_workspace p])"
    using w(1,3) by auto
  have ro: "\<forall>q \<in> set (filter fs (p_ro p)). q \<noteq> ''/dev/null'' \<and> q \<noteq> ''--ro-bind''" using w(2) nn by auto
  have cg: "scan_masked ((if cargo_bound fs p
        then [if p_cargo p = Some ''rw'' then ''--bind'' else ''--ro-bind'', p_cargo_path p, p_cargo_path p] else []) @ xs)
      = scan_masked xs" for xs
    using w(4) nn by (simp add: scan_masked_skip)
  have pr: "scan_masked (proc_args fs p @ xs) = filter fs masked_files @ scan_masked xs" for xs
    using assms(2,3) scan_masked_files [of "filter fs masked_files" xs] by (simp add: proc_args_def scan_masked_skip)
  have "scan_masked (bwrap_argv fs p [''true'']) = filter fs masked_files"
    unfolding bwrap_argv_def bind_args_def append_assoc scan_masked_skips [OF h] scan_masked_binds [OF ro]
    using scan_masked_skips [OF tm] by (simp add: cg pr t0)
  moreover have "''/proc/sys'' \<in> set (bwrap_argv fs p [''true''])" using assms(2,3) by (simp add: bwrap_argv_def proc_args_def)
  ultimately show ?thesis by (auto simp: masked_proc_def oci_config_def)
qed

lemma ids_parity:
  "after ''--uid'' (bwrap_argv fs p [''true'']) = Some (show_int (p_uid p))"
  "after ''--gid'' (bwrap_argv fs p [''true'']) = Some (show_int (p_gid p))"
proof -
  have "show_int i \<noteq> ''--uid''" "show_int i \<noteq> ''--gid''" for i using show_int_plain [of i] by auto
  then show "after ''--uid'' (bwrap_argv fs p [''true'']) = Some (show_int (p_uid p))"
    "after ''--gid'' (bwrap_argv fs p [''true'']) = Some (show_int (p_gid p))"
    by (simp_all add: bwrap_argv_def head_args_def)
qed

text \<open>
  C22: gVisor confines exactly what bwrap confines. For every profile that keeps the process file system
  and its masks, and none of whose words is a flag or the null device, the confinement read back from
  the bwrap command line is the one read back from the OCI specification: binds, namespaces, masked
  files, user and group, privileges; and it is the binds the profile lists, whatever exists on the host.
\<close>

theorem backends_confine_alike:
  assumes "plain_profile p" and "p_proc p" and "p_mask p"
  shows "confinement_of fs host p Bwrap = confinement_of fs host p Runsc
     \<and> c_mounts (confinement_of fs host p Bwrap) = set (cap_list fs p)
     \<and> (c_net_isolated (confinement_of fs host p Bwrap) \<longleftrightarrow> \<not> p_network p)"
proof -
  have m: "set (capability_mounts fs host p Bwrap) = set (capability_mounts fs host p Runsc)"
    using runsc_mounts [OF assms(1)] materialized_plain [OF assms(1)]
    by (simp add: capability_mounts_def materialized_mounts_def)
  have u: "''--unshare-user'' \<in> set (bwrap_argv fs p [''true''])" by (rule bwrap_head) simp
  have "confinement_of fs host p Bwrap = confinement_of fs host p Runsc"
    unfolding confinement_of_def Let_def m namespaces_parity [OF assms(1)] masked_parity [OF assms] backend.case ids_parity
    using u by (simp add: oci_config_def)
  moreover have "''network'' \<in> set (namespaces_of fs host p Runsc) \<longleftrightarrow> \<not> p_network p" by (simp add: namespaces_of_def oci_config_def)
  moreover have "c_mounts (confinement_of fs host p Runsc) = set (capability_mounts fs host p Runsc)"
    "c_net_isolated (confinement_of fs host p Runsc) \<longleftrightarrow> ''network'' \<in> set (namespaces_of fs host p Runsc)"
    by (simp_all add: confinement_of_def Let_def)
  ultimately show ?thesis using runsc_mounts [OF assms(1)] by simp
qed

theorem backends_confine_alike_witness:
  "c_mounts (confinement_of (\<lambda>q. q = ''/usr'') (0, 0) (core_profile ''/ws'' False) Bwrap) = {(''/usr'', ''ro''), (''/ws'', ''rw'')}
   \<and> c_net_isolated (confinement_of (\<lambda>q. q = ''/usr'') (0, 0) (core_profile ''/ws'' False) Bwrap)"
proof -
  have c: "plain_profile (core_profile ''/ws'' False)" by (simp add: plain_profile_def core_profile_def core_ro_def plain_def)
  have p: "p_proc (core_profile ''/ws'' False)" "p_mask (core_profile ''/ws'' False)" "\<not> p_network (core_profile ''/ws'' False)"
    by (simp_all add: core_profile_def)
  have m: "set (cap_list (\<lambda>q. q = ''/usr'') (core_profile ''/ws'' False)) = {(''/usr'', ''ro''), (''/ws'', ''rw'')}"
    by (simp add: cap_list_def core_profile_def core_ro_def bind_cap_def cargo_bound_def)
  show ?thesis
    using backends_confine_alike [OF c p(1,2), of "\<lambda>q. q = ''/usr''" "(0, 0)"] p(3) unfolding m by blast
qed

text \<open>Without the masks the two differ: the OCI rendering masks the process files in any case.\<close>

lemma unmasked_backends_differ:
  "set (masked_proc fs host (core_profile ''/ws'' False \<lparr>p_mask := False\<rparr>) Runsc) \<noteq>
   set (masked_proc fs host (core_profile ''/ws'' False \<lparr>p_mask := False\<rparr>) Bwrap)"
proof -
  have "''/proc/sys'' \<in> set (masked_proc fs host (core_profile ''/ws'' False \<lparr>p_mask := False\<rparr>) Runsc)"
    by (simp add: masked_proc_def oci_config_def)
  moreover have "''/proc/sys'' \<notin> set (scan_masked xs)" for xs
    by (induction xs rule: scan_masked.induct) (auto simp: masked_files_def)
  moreover have "''/proc/sys'' \<notin> set (bwrap_argv fs (core_profile ''/ws'' False \<lparr>p_mask := False\<rparr>) [''true''])"
  proof -
    have "''/proc/sys'' \<noteq> show_int i" for i
    proof
      assume "''/proc/sys'' = show_int i"
      then have "CHR ''/'' \<in> set (show_int i)" by (metis list.set_intros(1))
      then show False using show_nat_digits [of "nat i"] show_nat_digits [of "nat (- i)"] by (auto simp: show_int_def split: if_splits)
    qed
    then show ?thesis
      by (auto simp: bwrap_argv_def head_args_def bind_args_def proc_args_def tail_args_def core_profile_def core_ro_def cargo_bound_def)
  qed
  ultimately show ?thesis by (auto simp: masked_proc_def)
qed

lemma core_profile_matches:
  assumes "plain ws" and "\<not> starts_with ws ''/proc''" and "ws \<noteq> ''/dev/null''"
  shows "verify_materialized fs (core_profile ws False) (default_manifest ws) = ''ok''"
proof -
  have p: "plain_profile (core_profile ws False)"
    using assms by (simp add: plain_profile_def core_profile_def core_ro_def plain_def)
  have "set (cap_list fs (core_profile ws False)) = declared_mounts fs (default_manifest ws)"
    using assms by (auto simp: cap_list_def core_profile_def core_ro_def bind_cap_def cargo_bound_def declared_mounts_def default_manifest_def)
  then show ?thesis unfolding verify_materialized_def materialized_plain [OF p] by (simp add: default_manifest_def core_profile_def)
qed

end
