(* ===== verification/Exod.thy ===== *)
theory Exod
  imports Grants Sandbox
begin

text \<open>
  The execution daemon (\<open>src/infra/exec/exod.py\<close>): the only principal that runs a step. It checks a
  request against its signed grant, the operator's attestation and the staged closure
  (\<open>src/infra/exec/closureverify.py\<close>), spends the grant's nonce, runs the step confined and signs the
  outcome; \<open>record_step_result\<close> is the ledger's side. A step that raises has no successor state: that a nonce
  stays spent when the run after it raises is not stated. What the host provides (files, the backend that
  runs a command, the vault, clocks) is the record \<open>host\<close>.
\<close>

section \<open>The staged closure\<close>

text \<open>
  A directory as the check sees it: the sorted relative paths below it, and the digest of the file a
  name leads to, if it leads to one.
\<close>

record staged =
  st_files :: "string list"
  st_digest :: "string \<Rightarrow> string option"

definition unpinned_by_design :: string where "unpinned_by_design = ''contracts.json''"

fun first_stray :: "string \<Rightarrow> (string \<Rightarrow> bool) \<Rightarrow> string list \<Rightarrow> string option" where
  "first_stray tag known [] = None"
| "first_stray tag known (f # fs) =
     (if known f \<or> f = unpinned_by_design then first_stray tag known fs else Some (tag @ f))"

fun first_unblessed :: "staged \<Rightarrow> (string \<times> json) list \<Rightarrow> string option" where
  "first_unblessed st [] = None"
| "first_unblessed st ((name, want) # ps) =
     (case st_digest st name of
        None \<Rightarrow> Some (''closure:missing:'' @ name)
      | Some d \<Rightarrow> if JStr d \<noteq> want then Some (''closure:mismatch:'' @ name) else first_unblessed st ps)"

text \<open>\<open>None\<close> lets the run proceed, \<open>Some\<close> is the reason of the refusal.\<close>

definition closure_decision :: "(string, json) dict \<Rightarrow> staged \<Rightarrow> string option" where
  "closure_decision pinned st =
     (if pinned = [] then first_stray ''closure:unpinned:'' (\<lambda>_. False) (st_files st)
      else case first_unblessed st (sort_key fst pinned) of
             Some r \<Rightarrow> Some r
           | None \<Rightarrow> first_stray ''closure:smuggled:'' (\<lambda>f. dget pinned f \<noteq> None) (st_files st))"

section \<open>The daemon\<close>

record host =
  h_crypto :: crypto
  h_exists :: "string \<Rightarrow> bool"
  h_tree :: "string \<Rightarrow> staged"
  h_runner :: "profile \<Rightarrow> (string, json) dict \<Rightarrow> json \<Rightarrow> string \<Rightarrow> (int \<times> string) res"
  h_vault :: "((string, json) dict \<Rightarrow> json \<Rightarrow> (string, json) dict res) option"
  h_pubkey :: "string \<Rightarrow> bool"
  h_ts :: string
  h_meter :: json

record exod =
  x_key :: string
  x_issuer :: string
  x_acl_issuer :: "string option"
  x_strict :: bool
  x_floor :: string
  x_grants :: nonces
  x_proofs :: nonces

definition exod_init ::
  "crypto \<Rightarrow> string \<Rightarrow> string \<Rightarrow> string option \<Rightarrow> bool \<Rightarrow> string \<Rightarrow> exod res" where
  "exod_init K key issuer acl_issuer strict floor0 =
     (if keyid K issuer = keyid K (pub_of K key) then Inl ValueError
      else if (case acl_issuer of None \<Rightarrow> False
               | Some a \<Rightarrow> keyid K a = keyid K issuer \<or> keyid K a = keyid K (pub_of K key)) then Inl ValueError
      else Inr \<lparr>x_key = key, x_issuer = issuer, x_acl_issuer = acl_issuer, x_strict = strict, x_floor = floor0,
                x_grants = [], x_proofs = []\<rparr>)"

definition banned_proof_pubs :: "crypto \<Rightarrow> exod \<Rightarrow> string list" where
  "banned_proof_pubs K x = [x_issuer x, pub_of K (x_key x)] @ (case x_acl_issuer x of None \<Rightarrow> [] | Some a \<Rightarrow> [a])"

definition sign_result :: "host \<Rightarrow> exod \<Rightarrow> json \<Rightarrow> json \<Rightarrow> string \<Rightarrow> string \<Rightarrow> json \<Rightarrow> json option \<Rightarrow> json" where
  "sign_result h x req exit_code status output_sha nonce meter =
     sign (h_crypto h)
       (JObj ([(''run_id'', jget req ''run_id''), (''plan_sha'', jget req ''plan_sha''), (''step'', jget req ''step''),
               (''exit'', exit_code), (''status'', JStr status), (''output_sha'', JStr output_sha), (''nonce'', nonce),
               (''ts'', JStr (h_ts h))] @ (case meter of None \<Rightarrow> [] | Some m \<Rightarrow> [(''meter'', m)])))
       (x_key x) step_result_type"

definition acl_problem_id :: "acl_problem \<Rightarrow> string" where
  "acl_problem_id p = (case p of AclUnscoped \<Rightarrow> ''acl_unscoped'' | AclMalformed \<Rightarrow> ''acl_malformed'' | AclRevoked \<Rightarrow> ''acl_revoked''
     | AclExpired _ \<Rightarrow> ''acl_expired'' | AclSkillDenied \<Rightarrow> ''acl_skill_denied'' | AclPerkDenied \<Rightarrow> ''acl_perk_denied''
     | AclDestructiveUnlisted \<Rightarrow> ''acl_destructive_unlisted'' | AclSecretDenied \<Rightarrow> ''acl_secret_denied''
     | AclParamsDenied \<Rightarrow> ''acl_params_denied'' | AclCargoMalformed \<Rightarrow> ''acl_cargo_malformed'' | AclCargoDenied \<Rightarrow> ''acl_cargo_denied''
     | AclCargoRwDenied \<Rightarrow> ''acl_cargo_rw_denied'' | AclTierDenied _ _ \<Rightarrow> ''acl_tier_denied'')"

definition fixed_env :: "string list" where "fixed_env = [''PATH'', ''SNIP'', ''RECORD_STORE'']"

definition request_env :: "json \<Rightarrow> (string, json) dict" where
  "request_env req = obj_members (py_or (jget req ''env'') (JObj []))"

text \<open>
  The claim of a grant, as the daemon re-derives it. A grant that binds an access list names its skill
  and perk as texts; anything else raises.
\<close>

definition grant_claim :: "json \<Rightarrow> json \<Rightarrow> claim res" where
  "grant_claim req gbody =
     (case (jget gbody ''skill'', jget gbody ''perk'') of
        (JStr s, JStr p) \<Rightarrow>
          Inr \<lparr>cl_skill = s, cl_perk = p, cl_tier = jget gbody ''sandbox_tier'', cl_destructive = truthy (jget gbody ''destructive''),
               cl_credentialed = truthy (jget gbody ''credentials''),
               cl_parameterized = (\<exists>kv \<in> set (request_env req). fst kv \<notin> set fixed_env), cl_cargo = jget gbody ''cargo''\<rparr>
      | _ \<Rightarrow> Inl TypeError)"

definition some_if_set :: "json \<Rightarrow> json option" where
  "some_if_set v = (if v = JNull then None else Some v)"

text \<open>The token-possession proof, when the operator bound a proof key into the attestation.\<close>

definition proof_check :: "host \<Rightarrow> exod \<Rightarrow> json \<Rightarrow> json \<Rightarrow> json \<Rightarrow> (exod \<times> string option) res" where
  "proof_check h x req gbody body =
     (let K = h_crypto h; key = jget body ''proof_pubkey''; proof = jget req ''token_proof''
      in if \<not> truthy key then Inr (x, None)
         else if \<not> truthy proof then Inr (x, Some ''proof_missing'')
         else case (case key of JStr s \<Rightarrow> b64d K s | _ \<Rightarrow> None) of
           None \<Rightarrow> Inr (x, Some ''proof_bad_pubkey'')
         | Some raw \<Rightarrow>
             bindR (verify_token_proof K (h_pubkey h) raw proof (jget gbody ''run_id'') (jget gbody ''plan_sha'') (jget req ''step'')
                      (jget body ''token_sha'') (banned_proof_pubs K x) (Some (x_proofs x))) (\<lambda>(cache, ok, why).
               Inr (x \<lparr>x_proofs := (case cache of Some c \<Rightarrow> c | None \<Rightarrow> x_proofs x)\<rparr>, if ok then None else Some why)))"

definition acl_check :: "host \<Rightarrow> exod \<Rightarrow> json \<Rightarrow> json \<Rightarrow> int \<Rightarrow> (exod \<times> string option) res" where
  "acl_check h x req gbody now =
     (let K = h_crypto h
      in if jget gbody ''acl_sha'' = JNull then Inr (x, if x_strict x then Some ''unscoped_grant'' else None)
         else case x_acl_issuer x of
           None \<Rightarrow> Inr (x, Some ''no_issuer_pinned'')
         | Some pub \<Rightarrow>
             if \<not> truthy (jget req ''attestation'') then Inr (x, Some ''attestation_missing'')
             else bindR (verify_acl_attestation K pub (jget req ''attestation'') now (Some (jget gbody ''acl_sha'')) default_skew) (\<lambda>(ok, why).
               if \<not> ok then Inr (x, Some why)
               else bindR (signed_body K (jget req ''attestation'')) (\<lambda>body.
                 bindR (grant_claim req gbody) (\<lambda>c.
                   bindR (acl_allows (attested_acl body) c None False) (\<lambda>prob.
                     case prob of
                       Some p \<Rightarrow> Inr (x, Some (acl_problem_id p))
                     | None \<Rightarrow> proof_check h x req gbody body)))))"

text \<open>\<open>env["SNIP"]\<close>, or the \<open>snip\<close> directory of the workspace.\<close>

definition path_join :: "string \<Rightarrow> string \<Rightarrow> string" where
  "path_join a b = (if starts_with b ''/'' \<or> a = [] then b else if List.last a = CHR ''/'' then a @ b else a @ ''/'' @ b)"

definition snip_dir :: "json \<Rightarrow> string res" where
  "snip_dir req =
     (case py_or (jget (JObj (request_env req)) ''SNIP'') JNull of
        JStr s \<Rightarrow> Inr s
      | JNull \<Rightarrow> (case py_or (jget req ''workspace'') (JStr []) of JStr w \<Rightarrow> Inr (path_join w ''snip'') | _ \<Rightarrow> Inl TypeError)
      | _ \<Rightarrow> Inl TypeError)"

definition tier_backend_of :: "json \<Rightarrow> string res" where
  "tier_backend_of t =
     (case t of JNull \<Rightarrow> Inr (backend_for_tier None) | JStr s \<Rightarrow> Inr (backend_for_tier (Some s))
      | JList _ \<Rightarrow> Inl TypeError | JObj _ \<Rightarrow> Inl TypeError | _ \<Rightarrow> Inr ''runsc'')"

text \<open>What was handed to the runner.\<close>

record execution =
  r_profile :: profile
  r_env :: "(string, json) dict"
  r_argv :: json
  r_backend :: string

type_synonym outcome = "exod \<times> json \<times> execution option"

text \<open>The credentials the grant authorizes, resolved into the environment; \<open>Inr (Inl _)\<close> is a refusal.\<close>

definition resolve_secrets :: "host \<Rightarrow> json \<Rightarrow> (string, json) dict \<Rightarrow> string + (string, json) dict" where
  "resolve_secrets h gbody env =
     (let creds = jget gbody ''credentials''
      in if \<not> truthy creds then Inr env
         else if jget_or gbody ''tier'' (JStr ''community'') \<noteq> JStr ''trusted'' then Inl ''tier:community_no_secrets''
         else case h_vault h of
                None \<Rightarrow> Inl ''vault:unavailable''
              | Some inject \<Rightarrow> (case inject env creds of Inl _ \<Rightarrow> Inl ''vault:resolve_failed'' | Inr env' \<Rightarrow> Inr env'))"

definition step_env :: "profile \<Rightarrow> json \<Rightarrow> (string, json) dict" where
  "step_env prof req = foldl (\<lambda>d (k, v). dput k v d) (map (\<lambda>(k, v). (k, JStr v)) (p_env prof)) (request_env req)"

text \<open>Steps 5 to 7 of a run: profile, manifest, secrets, backend, the confined run.\<close>

definition run_authorized :: "host \<Rightarrow> exod \<Rightarrow> json \<Rightarrow> json \<Rightarrow> json \<Rightarrow> outcome res" where
  "run_authorized h x req gbody rnonce =
     (let K = h_crypto h; refuse = (\<lambda>tag. Inr (x, sign_result h x req JNull ''refused'' (sha_hex K tag) rnonce None, None))
      in bindR (item req ''workspace'') (\<lambda>w.
         case w of
           JStr ws \<Rightarrow>
             let prof = core_profile ws False;
                 gws = (case py_or (jget gbody ''workspace'') w of JStr g \<Rightarrow> g | _ \<Rightarrow> ws);
                 verdict = verify_materialized (h_exists h) prof (default_manifest gws)
             in if verdict \<noteq> ''ok'' then refuse (''mount:'' @ verdict)
                else case resolve_secrets h gbody (step_env prof req) of
                  Inl tag \<Rightarrow> refuse tag
                | Inr env \<Rightarrow>
                    bindR (tier_backend_of (jget gbody ''sandbox_tier'')) (\<lambda>tb.
                      case item req ''argv'' of
                        Inl _ \<Rightarrow> refuse ''sandbox:unavailable''
                      | Inr argv \<Rightarrow>
                          let backend = strongest (x_floor x) tb;
                              prof' = prof \<lparr>p_cargo := (case jget gbody ''cargo'' of JStr c \<Rightarrow> if c = ''ro'' \<or> c = ''rw'' then Some c else None
                                                        | _ \<Rightarrow> None)\<rparr>;
                              ex = \<lparr>r_profile = prof', r_env = env, r_argv = argv, r_backend = backend\<rparr>
                          in case h_runner h prof' env argv backend of
                               Inl _ \<Rightarrow> Inr (x, sign_result h x req JNull ''refused'' (sha_hex K ''sandbox:unavailable'') rnonce None, Some ex)
                             | Inr (code, out) \<Rightarrow>
                                 Inr (x, sign_result h x req (JInt code) (if code = 0 then ''ok'' else ''error'') (sha_hex K out) rnonce
                                           (Some (h_meter h)), Some ex))
         | _ \<Rightarrow> Inl AttributeError))"

definition grant_body_of :: "crypto \<Rightarrow> json \<Rightarrow> json" where
  "grant_body_of K req =
     (case bindR (item req ''grant'') (signed_body K) of Inr b \<Rightarrow> b | Inl _ \<Rightarrow> JObj [])"

definition run_step :: "host \<Rightarrow> exod \<Rightarrow> json \<Rightarrow> int \<Rightarrow> string \<Rightarrow> outcome res" where
  "run_step h x req now capability =
     (let K = h_crypto h;
          gbody = grant_body_of K req;
          gnonce = (if is_obj gbody then jget gbody ''nonce'' else JNull);
          rnonce = py_or gnonce (py_or (jget req ''nonce'') (JStr ''ungranted''));
          refuse = (\<lambda>x tag. Inr (x, sign_result h x req JNull ''refused'' (sha_hex K tag) rnonce None, None))
      in bindR (item req ''grant'') (\<lambda>g.
         bindR (verify_grant K (x_issuer x) g now default_skew
                  \<lparr>e_run = some_if_set (jget req ''run_id''), e_plan = some_if_set (jget req ''plan_sha''),
                   e_workspace = some_if_set (jget req ''workspace''), e_argv = some_if_set (jget req ''argv'')\<rparr> None) (\<lambda>(_, ok, reason).
         if \<not> ok then refuse x (''grant:'' @ reason)
         else bindR (acl_check h x req gbody now) (\<lambda>(x1, deny).
           if deny \<noteq> None \<and> x_strict x then refuse x1 (''acl:'' @ the deny)
           else bindR (py_in capability (py_or (jget gbody ''capabilities'') (JList []))) (\<lambda>has.
             if \<not> has then refuse x1 (''capability:'' @ capability)
             else bindR (if capability \<noteq> ''run'' then Inr None
                         else bindR (snip_dir req) (\<lambda>d.
                           let pins = py_or (jget gbody ''snippet_shas'') (JObj [])
                           in if is_obj pins then Inr (closure_decision (obj_members pins) (h_tree h d)) else Inl AttributeError)) (\<lambda>closure.
               case closure of
                 Some why \<Rightarrow> refuse x1 why
               | None \<Rightarrow>
                   (case nonce_claim gnonce of
                      None \<Rightarrow> refuse x1 ''grant:replay''
                    | Some n \<Rightarrow>
                        (case spend (x_grants x1) (JStr (keyid K (x_issuer x))) n of
                           (seen, False) \<Rightarrow> refuse x1 ''grant:replay''
                         | (seen, True) \<Rightarrow> run_authorized h (x1 \<lparr>x_grants := seen\<rparr>) req gbody rnonce))))))))"

definition meter_of :: "crypto \<Rightarrow> json \<Rightarrow> json res" where
  "meter_of K env = bindR (signed_body K env) (\<lambda>b. if is_obj b then Inr (jget b ''meter'') else Inl AttributeError)"

section \<open>The ledger's side\<close>

text \<open>The nonces of the results a ledger has recorded.\<close>

definition seen_nonces :: "json list \<Rightarrow> json list" where
  "seen_nonces runs = filter truthy (map (\<lambda>r. jget r ''result_nonce'') runs)"

definition set_default :: "string \<Rightarrow> json \<Rightarrow> json \<Rightarrow> json" where
  "set_default k v j = (if jhas j k then j else jput k v j)"

definition forged_record :: "string \<Rightarrow> string \<Rightarrow> json \<Rightarrow> json" where
  "forged_record ts reason env =
     JObj [(''ts'', JStr ts), (''event'', JStr ''forged_status_refused''), (''reason'', JStr reason),
           (''presented_keyids'', JList (map (\<lambda>s. jget s ''keyid'') (jlist (jget env ''signatures''))))]"

definition result_record :: "crypto \<Rightarrow> string \<Rightarrow> string \<Rightarrow> json \<Rightarrow> json" where
  "result_record K pub ts body =
     JObj [(''ts'', JStr ts), (''step'', jget body ''step''), (''status'', jget body ''status''), (''exit'', jget body ''exit''),
           (''authority'', JStr ''exod''), (''exod_keyid'', JStr (keyid K pub)), (''stdout_sha'', jget body ''output_sha''),
           (''result_nonce'', jget body ''nonce'')]"

definition record_step_result ::
  "crypto \<Rightarrow> string \<Rightarrow> string \<Rightarrow> json \<Rightarrow> json option \<Rightarrow> json option \<Rightarrow> json \<Rightarrow> (json \<times> bool \<times> json) res" where
  "record_step_result K pub ts env run plan ledger =
     (let run' = (case run of Some r \<Rightarrow> Some r | None \<Rightarrow> some_if_set (jget ledger ''run_id''));
          plan' = (case plan of Some r \<Rightarrow> Some r | None \<Rightarrow> some_if_set (jget ledger ''plan_sha''))
      in bindR (item ledger ''runs'') (\<lambda>rs. bindR (case rs of JList runs \<Rightarrow> Inr runs | _ \<Rightarrow> Inl AttributeError) (\<lambda>runs.
         bindR (verify_step_result K pub env run' plan' None) (\<lambda>(_, ok, reason).
         bindR (if ok then signed_body K env else Inr (JObj [])) (\<lambda>body.
           let replay = (ok \<and> jget body ''nonce'' \<in> set (seen_nonces runs))
           in if \<not> ok \<or> replay
              then let rec = forged_record ts (if replay then ''replay'' else reason) env
                   in Inr (jput ''runs'' (JList (runs @ [rec])) ledger, False, rec)
              else let rec = result_record K pub ts body
                   in Inr (jput ''runs'' (JList (runs @ [rec]))
                             (set_default ''plan_sha'' (jget body ''plan_sha'') (set_default ''run_id'' (jget body ''run_id'') ledger)),
                           True, rec))))))"

section \<open>Only granted steps run\<close>

lemma run_authorized_ran:
  assumes "run_authorized h x req gbody rnonce = Inr (x', env, Some ex)"
  shows "x' = x \<and> jget req ''workspace'' = JStr (p_workspace (r_profile ex)) \<and> p_network (r_profile ex) = False
     \<and> p_ro (r_profile ex) = core_ro
     \<and> jget req ''argv'' = r_argv ex
     \<and> (truthy (jget gbody ''credentials'') \<longrightarrow> jget_or gbody ''tier'' (JStr ''community'') = JStr ''trusted'')
     \<and> (\<exists>tb. tier_backend_of (jget gbody ''sandbox_tier'') = Inr tb \<and> r_backend ex = strongest (x_floor x) tb)"
proof -
  have it: "item req k = Inr v \<Longrightarrow> jget req k = v" for k v
    by (cases req) (auto simp: item_def obj_members_def jget_def split: option.splits)
  from assms obtain ws where w: "item req ''workspace'' = Inr (JStr ws)"
    unfolding run_authorized_def Let_def by (cases "item req ''workspace''") (auto split: json.splits)
  let ?env = "step_env (core_profile ws False) req"
  from assms w obtain e where e: "resolve_secrets h gbody ?env = Inr e"
    unfolding run_authorized_def Let_def by (cases "resolve_secrets h gbody ?env") (auto split: if_splits)
  from assms w e obtain tb where tb: "tier_backend_of (jget gbody ''sandbox_tier'') = Inr tb"
    unfolding run_authorized_def Let_def by (cases "tier_backend_of (jget gbody ''sandbox_tier'')") (auto split: if_splits)
  from assms w e tb obtain argv where argv: "item req ''argv'' = Inr argv"
    unfolding run_authorized_def Let_def by (cases "item req ''argv''") (auto split: if_splits)
  have "truthy (jget gbody ''credentials'') \<longrightarrow> jget_or gbody ''tier'' (JStr ''community'') = JStr ''trusted''"
    using e by (auto simp: resolve_secrets_def Let_def split: if_splits)
  moreover have "x' = x \<and> p_workspace (r_profile ex) = ws \<and> p_network (r_profile ex) = False \<and> p_ro (r_profile ex) = core_ro
      \<and> r_argv ex = argv \<and> r_backend ex = strongest (x_floor x) tb"
    using assms unfolding run_authorized_def Let_def w e tb argv
    by (auto simp: core_profile_def split: if_splits sum.splits)
  ultimately show ?thesis using it [OF w] it [OF argv] tb by simp
qed

definition request_expect :: "json \<Rightarrow> grant_expect" where
  "request_expect req = \<lparr>e_run = some_if_set (jget req ''run_id''), e_plan = some_if_set (jget req ''plan_sha''),
     e_workspace = some_if_set (jget req ''workspace''), e_argv = some_if_set (jget req ''argv'')\<rparr>"

lemma run_step_ran:
  assumes "run_step h x req now ''run'' = Inr (x', env, Some ex)"
  shows "\<exists>g c r x1 deny d n seen.
     item req ''grant'' = Inr g \<and> verify_grant (h_crypto h) (x_issuer x) g now default_skew (request_expect req) None = Inr (c, True, r)
     \<and> acl_check h x req (grant_body_of (h_crypto h) req) now = Inr (x1, deny) \<and> (x_strict x \<longrightarrow> deny = None)
     \<and> py_in ''run'' (py_or (jget (grant_body_of (h_crypto h) req) ''capabilities'') (JList [])) = Inr True
     \<and> snip_dir req = Inr d
     \<and> closure_decision (obj_members (py_or (jget (grant_body_of (h_crypto h) req) ''snippet_shas'') (JObj []))) (h_tree h d) = None
     \<and> jget (grant_body_of (h_crypto h) req) ''nonce'' = JStr n
     \<and> spend (x_grants x1) (JStr (keyid (h_crypto h) (x_issuer x))) n = (seen, True)
     \<and> run_authorized h (x1 \<lparr>x_grants := seen\<rparr>) req (grant_body_of (h_crypto h) req)
          (py_or (jget (grant_body_of (h_crypto h) req) ''nonce'') (py_or (jget req ''nonce'') (JStr ''ungranted'')))
        = Inr (x', env, Some ex)"
proof -
  let ?K = "h_crypto h" and ?b = "grant_body_of (h_crypto h) req"
  note r0 = assms [unfolded run_step_def Let_def, folded request_expect_def]
  from r0 obtain g where g: "item req ''grant'' = Inr g" by (auto simp: bindR_eq_Inr)
  from r0 g obtain c ok r where v: "verify_grant ?K (x_issuer x) g now default_skew (request_expect req) None = Inr (c, ok, r)"
    by (auto simp: bindR_eq_Inr)
  have ok: ok using r0 g v by (cases ok) auto
  from verify_grant_accepts [OF v [unfolded eqTrueI [OF ok]]] obtain b n0 where b: "signed_body ?K g = Inr b" "jget b ''nonce'' = JStr n0" by blast
  have gb: "?b = b" using g b(1) by (simp add: grant_body_of_def)
  have "is_obj b" using b(2) by (cases b) (auto simp: jget_def is_obj_def)
  from r0 g v ok obtain x1 deny where a: "acl_check h x req ?b now = Inr (x1, deny)" by (auto simp: bindR_eq_Inr)
  have strict: "x_strict x \<longrightarrow> deny = None" using r0 g v ok a by (auto split: if_splits)
  from r0 g v ok a strict obtain has where has: "py_in ''run'' (py_or (jget ?b ''capabilities'') (JList [])) = Inr has"
    by (cases "py_in ''run'' (py_or (jget ?b ''capabilities'') (JList []))") (auto split: if_splits)
  have h1: has using r0 g v ok a strict has by (cases has) (auto split: if_splits)
  have cap: "py_in ''run'' (py_or (jget ?b ''capabilities'') (JList [])) = Inr True" using has h1 by simp
  from r0 g v ok a strict cap obtain d where d: "snip_dir req = Inr d" by (cases "snip_dir req") (auto split: if_splits)
  have cl: "is_obj (py_or (jget ?b ''snippet_shas'') (JObj []))
      \<and> closure_decision (obj_members (py_or (jget ?b ''snippet_shas'') (JObj []))) (h_tree h d) = None"
    using r0 g v ok a strict cap d
    by (cases "closure_decision (obj_members (py_or (jget ?b ''snippet_shas'') (JObj []))) (h_tree h d)") (auto split: if_splits)
  obtain n where n: "nonce_claim (jget ?b ''nonce'') = Some n"
    using r0 g v ok a strict cap d cl gb \<open>is_obj b\<close> by (cases "nonce_claim (jget ?b ''nonce'')") (auto split: if_splits)
  obtain seen fresh where sp: "spend (x_grants x1) (JStr (keyid ?K (x_issuer x))) n = (seen, fresh)" by fastforce
  have fr: fresh using r0 g v ok a strict cap d cl gb \<open>is_obj b\<close> n sp by (cases fresh) (auto split: if_splits)
  have "run_authorized h (x1 \<lparr>x_grants := seen\<rparr>) req ?b
          (py_or (jget ?b ''nonce'') (py_or (jget req ''nonce'') (JStr ''ungranted''))) = Inr (x', env, Some ex)"
    using r0 g v ok a strict cap d cl gb \<open>is_obj b\<close> n sp fr by (auto split: if_splits)
  then show ?thesis using g v ok a strict cap d cl n sp fr by (fastforce simp: nonce_claim_Some)
qed

lemma proof_check_keeps: "proof_check h x req gbody body = Inr (x1, deny) \<Longrightarrow> x_grants x1 = x_grants x \<and> x_floor x1 = x_floor x"
  unfolding proof_check_def Let_def by (auto simp: bindR_eq_Inr split: if_splits option.splits)

lemma acl_check_keeps: "acl_check h x req gbody now = Inr (x1, deny) \<Longrightarrow> x_grants x1 = x_grants x \<and> x_floor x1 = x_floor x"
  unfolding acl_check_def Let_def
  by (auto simp: bindR_eq_Inr dest: proof_check_keeps split: if_splits option.splits)

lemma strength_le: "strength b \<le> 2"
  by (simp add: strength_def dget_default_def)

lemma strength_two: "2 \<le> strength b \<Longrightarrow> b = ''runsc''"
  by (simp add: strength_def dget_default_def split: if_splits)

lemma strongest_floor: "strength a \<le> strength (strongest a b)"
  by (simp add: strongest_def)

lemma strongest_runsc: "strongest a ''runsc'' = ''runsc''"
  using strength_two [of a] by (simp add: strongest_def) (simp add: strength_def dget_default_def)

definition pinned_to :: "json \<Rightarrow> string \<Rightarrow> json \<Rightarrow> bool" where
  "pinned_to body k v \<longleftrightarrow> v = JNull \<or> jget body k = JNull \<or> jget body k = v"

text \<open>
  C2: the daemon runs only what was granted. Whenever a run hands a command to the confined runner, the
  request carried a grant signed by the trusted issuer, inside its window, made for the request's run
  and plan and, where it pins them, for its workspace and command; the grant gives the run capability
  and its closure pins agree with what is staged; its nonce was unspent and is spent now; the
  command is the request's, in a profile without network whose only workspace is the request's, on a
  backend at least as strong as the floor, and gVisor for a community perk; secrets were
  resolved only for a trusted grant; and in strict mode the operator's attested access list allows it.
\<close>

theorem exod_runs_only_granted:
  assumes "run_step h x req now ''run'' = Inr (x', env, Some ex)"
  shows "\<exists>g body n nbf till d.
     item req ''grant'' = Inr g \<and> verify (h_crypto h) g (x_issuer x) = Inr True \<and> jget g ''payloadType'' = JStr grant_type
     \<and> signed_body (h_crypto h) g = Inr body
     \<and> int_claim (jget body ''nbf'') = Some nbf \<and> int_claim (jget body ''exp'') = Some till \<and> nbf - 60 \<le> now \<and> now \<le> till + 60
     \<and> jget req ''run_id'' \<in> {JNull, jget body ''run_id''} \<and> jget req ''plan_sha'' \<in> {JNull, jget body ''plan_sha''}
     \<and> pinned_to body ''workspace'' (jget req ''workspace'') \<and> pinned_to body ''argv'' (jget req ''argv'')
     \<and> py_in ''run'' (py_or (jget body ''capabilities'') (JList [])) = Inr True
     \<and> snip_dir req = Inr d \<and> closure_decision (obj_members (py_or (jget body ''snippet_shas'') (JObj []))) (h_tree h d) = None
     \<and> jget body ''nonce'' = JStr n \<and> (JStr (keyid (h_crypto h) (x_issuer x)), n) \<notin> set (x_grants x)
     \<and> (JStr (keyid (h_crypto h) (x_issuer x)), n) \<in> set (x_grants x')
     \<and> jget req ''workspace'' = JStr (p_workspace (r_profile ex)) \<and> jget req ''argv'' = r_argv ex
     \<and> \<not> p_network (r_profile ex) \<and> p_ro (r_profile ex) = core_ro
     \<and> strength (x_floor x) \<le> strength (r_backend ex) \<and> (jget body ''sandbox_tier'' = JStr ''community'' \<longrightarrow> r_backend ex = ''runsc'')
     \<and> (truthy (jget body ''credentials'') \<longrightarrow> jget_or body ''tier'' (JStr ''community'') = JStr ''trusted'')
     \<and> (x_strict x \<longrightarrow> (\<exists>x1. acl_check h x req body now = Inr (x1, None)))"
proof -
  from run_step_ran [OF assms] obtain g c r x1 deny d n seen where
    g: "item req ''grant'' = Inr g" and v: "verify_grant (h_crypto h) (x_issuer x) g now default_skew (request_expect req) None = Inr (c, True, r)"
    and a: "acl_check h x req (grant_body_of (h_crypto h) req) now = Inr (x1, deny)" "x_strict x \<longrightarrow> deny = None"
    and cap: "py_in ''run'' (py_or (jget (grant_body_of (h_crypto h) req) ''capabilities'') (JList [])) = Inr True"
    and d: "snip_dir req = Inr d"
      "closure_decision (obj_members (py_or (jget (grant_body_of (h_crypto h) req) ''snippet_shas'') (JObj []))) (h_tree h d) = None"
    and n: "jget (grant_body_of (h_crypto h) req) ''nonce'' = JStr n"
    and sp: "spend (x_grants x1) (JStr (keyid (h_crypto h) (x_issuer x))) n = (seen, True)"
    and ran: "run_authorized h (x1 \<lparr>x_grants := seen\<rparr>) req (grant_body_of (h_crypto h) req)
          (py_or (jget (grant_body_of (h_crypto h) req) ''nonce'') (py_or (jget req ''nonce'') (JStr ''ungranted''))) = Inr (x', env, Some ex)"
    by blast
  from verify_grant_accepts [OF v] obtain body where b: "verify (h_crypto h) g (x_issuer x) = Inr True"
    "jget g ''payloadType'' = JStr grant_type" "signed_body (h_crypto h) g = Inr body"
    and p: "grant_problem body now default_skew (request_expect req) = None" by blast
  have gb: "grant_body_of (h_crypto h) req = body" using g b(3) by (simp add: grant_body_of_def)
  note a = a [unfolded gb] and cap = cap [unfolded gb] and d = d [unfolded gb] and n = n [unfolded gb] and ran = ran [unfolded gb]
  from p obtain nbf till where w: "int_claim (jget body ''nbf'') = Some nbf" "int_claim (jget body ''exp'') = Some till"
    "nbf - 60 \<le> now" "now \<le> till + 60" by (auto simp: grant_problem_None window_problem_None default_skew_def)
  have e: "jget req ''run_id'' \<in> {JNull, jget body ''run_id''}" "jget req ''plan_sha'' \<in> {JNull, jget body ''plan_sha''}"
    "pinned_to body ''workspace'' (jget req ''workspace'')" "pinned_to body ''argv'' (jget req ''argv'')"
    using p by (auto simp: grant_problem_None request_expect_def some_if_set_def unexpected_def pin_strays_def pinned_to_def split: if_splits)
  note keep = acl_check_keeps [OF a(1)] and s1 = spend_once [OF sp] and rr = run_authorized_ran [OF ran]
  obtain tb where tb: "tier_backend_of (jget body ''sandbox_tier'') = Inr tb" "r_backend ex = strongest (x_floor x) tb"
    using rr keep by auto
  have "jget body ''sandbox_tier'' = JStr ''community'' \<longrightarrow> r_backend ex = ''runsc''"
    using tb strongest_runsc by (auto simp: tier_backend_of_def backend_for_tier_def tier_backend_def dget_default_def)
  moreover have "strength (x_floor x) \<le> strength (r_backend ex)" using tb strongest_floor by simp
  moreover have "(JStr (keyid (h_crypto h) (x_issuer x)), n) \<notin> set (x_grants x)" using s1 keep by simp
  moreover have "(JStr (keyid (h_crypto h) (x_issuer x)), n) \<in> set (x_grants x')" using s1 rr by simp
  moreover have "x_strict x \<longrightarrow> (\<exists>x1. acl_check h x req body now = Inr (x1, None))" using a by auto
  ultimately show ?thesis using g b w e cap d n rr by blast
qed

definition sample_host :: host where
  "sample_host = \<lparr>h_crypto = grant_crypto sample_grant, h_exists = (\<lambda>_. False), h_tree = (\<lambda>_. \<lparr>st_files = [], st_digest = \<lambda>_. None\<rparr>),
     h_runner = (\<lambda>_ _ _ _. Inr (0, ''out'')), h_vault = None, h_pubkey = (\<lambda>_. True), h_ts = ''t'', h_meter = JNull\<rparr>"

definition sample_exod :: exod where
  "sample_exod = \<lparr>x_key = ''x'', x_issuer = ''k'', x_acl_issuer = None, x_strict = False, x_floor = ''bwrap'', x_grants = [], x_proofs = []\<rparr>"

definition sample_req :: json where
  "sample_req = JObj [(''run_id'', JStr ''r''), (''plan_sha'', JStr ''p''), (''step'', JStr ''1''), (''argv'', JList [JStr ''bash'']),
     (''workspace'', JStr ''/ws/r''), (''env'', JObj []), (''grant'', at_env sample_attempt)]"

lemma sample_ran: "\<exists>x' env ex. run_step sample_host sample_exod sample_req 100 ''run'' = Inr (x', env, Some ex)"
proof -
  let ?K = "grant_crypto sample_grant" and ?b = "grant_claims sample_grant" and ?g = "at_env sample_attempt"
  have env: "?g = sign ?K ?b ''k'' grant_type" by (simp add: sample_attempt_def)
  have r: "jget sample_req ''run_id'' = JStr ''r''" "jget sample_req ''plan_sha'' = JStr ''p''" "jget sample_req ''argv'' = JList [JStr ''bash'']"
    "jget sample_req ''workspace'' = JStr ''/ws/r''" "item sample_req ''grant'' = Inr ?g" "item sample_req ''workspace'' = Inr (JStr ''/ws/r'')"
    "item sample_req ''argv'' = Inr (JList [JStr ''bash''])" "request_env sample_req = []"
    by (simp_all add: sample_req_def jget_JObj item_def obj_members_def request_env_def py_or_def)
  have m: "mint_grant ?K ''k'' sample_grant = Inr ?g" unfolding env by (simp add: mint_grant_def nonce_claim_def sample_grant_def)
  have ex: "\<And>s. b64d ?K (b64e ?K s) = Some s" "parse ?K (canonicalize ?b) = Some ?b" "\<And>m. ed_verify ?K (pub_of ?K ''k'') (ed_sign ?K ''k'' m) m"
    by (simp_all add: grant_crypto_def toy_crypto_def)
  have "verify_grant ?K (pub_of ?K ''k'') ?g 100 default_skew \<lparr>e_run = Some (JStr (g_run sample_grant)), e_plan = Some (JStr (g_plan sample_grant)),
      e_workspace = Some (g_workspace sample_grant), e_argv = Some (g_argv sample_grant)\<rparr> None = Inr (None, True, ''ok'')"
    by (rule minted_grant_accepted [OF m ex]) (simp_all add: sample_grant_def default_skew_def)
  then have v: "verify_grant ?K ''k'' ?g 100 default_skew \<lparr>e_run = some_if_set (jget sample_req ''run_id''), e_plan = some_if_set (jget sample_req ''plan_sha''),
      e_workspace = some_if_set (jget sample_req ''workspace''), e_argv = some_if_set (jget sample_req ''argv'')\<rparr> None = Inr (None, True, ''ok'')"
    by (simp add: r some_if_set_def sample_grant_def) (simp add: grant_crypto_def toy_crypto_def)
  have "signed_body ?K ?g = Inr ?b" unfolding env by (rule signed_body_signed [OF ex(1,2)])
  then have gb: "grant_body_of ?K sample_req = ?b" by (simp add: grant_body_of_def r)
  have c: "jget ?b ''capabilities'' = JList [JStr ''run'']" "jget ?b ''snippet_shas'' = JObj []" "jget ?b ''nonce'' = JStr ''n1''"
    "jget ?b ''acl_sha'' = JNull" "jget ?b ''credentials'' = JList []" "jget ?b ''workspace'' = JStr ''/ws/r''"
    "jget ?b ''sandbox_tier'' = JNull" "is_obj ?b"
    by (simp_all add: grant_claims_def jget_JObj sample_grant_def py_or_def when_set_def)
  have acl: "acl_check sample_host sample_exod sample_req ?b 100 = Inr (sample_exod, None)"
    by (simp add: acl_check_def c sample_exod_def)
  have d: "snip_dir sample_req = Inr ''/ws/r/snip''"
    by (simp add: snip_dir_def r py_or_def jget_JObj path_join_def)
  have mt: "verify_materialized (\<lambda>_. False) (core_profile ''/ws/r'' False) (default_manifest ''/ws/r'') = ''ok''"
    by (rule core_profile_matches) (simp_all add: plain_def)
  show ?thesis
    unfolding run_step_def Let_def
    by (simp add: r(5) sample_host_def [THEN arg_cong, of h_crypto] gb c) (insert v acl d mt, simp add: r c py_or_def py_in_def sample_host_def sample_exod_def
        closure_decision_def obj_members_def nonce_claim_def spend_def run_authorized_def Let_def resolve_secrets_def tier_backend_of_def is_obj_def gb acl_check_def)
qed

theorem exod_runs_only_granted_witness:
  "\<exists>x' env ex. run_step sample_host sample_exod sample_req 100 ''run'' = Inr (x', env, Some ex)
     \<and> \<not> p_network (r_profile ex) \<and> x_grants x' \<noteq> []"
proof -
  from sample_ran obtain x' env ex where r: "run_step sample_host sample_exod sample_req 100 ''run'' = Inr (x', env, Some ex)" by blast
  from exod_runs_only_granted [OF r] have "\<not> p_network (r_profile ex) \<and> x_grants x' \<noteq> []" by auto
  then show ?thesis using r by blast
qed

end
