(* ===== verification/Intelligence.thy ===== *)
theory Intelligence
  imports Escrow Principals
begin

text \<open>
  The schema payment gate of metered \<open>llm/*\<close> steps (\<open>src/infra/settle/intelligence.py\<close>): the output
  contract decides whether a step was work, and the settlement drains the quote's escrow in one
  balanced posting set either way.
\<close>

section \<open>The output contract\<close>

lemma size_elem: "(x, y) \<in> set (zip xs ys) \<Longrightarrow> size x < Suc (size_list size xs)"
  by (auto dest!: set_zip_leftD simp: less_Suc_eq_le intro: size_list_estimation')

lemma size_member: "(k, v) \<in> set d \<Longrightarrow> size v < Suc (size_list (size_prod (\<lambda>_. 0) size) d)"
  by (auto simp: less_Suc_eq_le intro: size_list_estimation')

text \<open>Equality of parsed values, where a boolean equals the integer it stands for.\<close>

function py_eq :: "json \<Rightarrow> json \<Rightarrow> bool" where
  "py_eq a b =
     (case (a, b) of
        (JBool x, JInt i) \<Rightarrow> of_bool x = i
      | (JInt i, JBool x) \<Rightarrow> i = of_bool x
      | (JList xs, JList ys) \<Rightarrow> length xs = length ys \<and> (\<forall>(x, y) \<in> set (zip xs ys). py_eq x y)
      | (JObj d, JObj e) \<Rightarrow>
          length d = length e \<and> (\<forall>(k, v) \<in> set d. case dget e k of None \<Rightarrow> False | Some w \<Rightarrow> py_eq v w)
      | _ \<Rightarrow> a = b)"
  by pat_completeness auto

termination
  by (relation "measure (\<lambda>(a, b). size a)") (auto intro: size_elem size_member)

declare py_eq.simps [simp del]

record contract =
  required :: "string list"
  types :: "(string, string) dict"
  enums :: "(string, json list) dict"

definition is_int :: "json \<Rightarrow> bool" where "is_int v = (case v of JInt _ \<Rightarrow> True | _ \<Rightarrow> False)"
definition is_text :: "json \<Rightarrow> bool" where "is_text v = (case v of JStr _ \<Rightarrow> True | _ \<Rightarrow> False)"
definition is_bool :: "json \<Rightarrow> bool" where "is_bool v = (case v of JBool _ \<Rightarrow> True | _ \<Rightarrow> False)"
definition is_list :: "json \<Rightarrow> bool" where "is_list v = (case v of JList _ \<Rightarrow> True | _ \<Rightarrow> False)"

text \<open>The vocabulary, as instance tests: an instance of \<open>bool\<close> is one of \<open>int\<close>.\<close>

definition types_vocab :: "(string, json \<Rightarrow> bool) dict" where
  "types_vocab =
     [(''str'', is_text), (''string'', is_text), (''int'', \<lambda>v. is_int v \<or> is_bool v), (''number'', \<lambda>v. is_int v \<or> is_bool v),
      (''num'', \<lambda>v. is_int v \<or> is_bool v), (''bool'', is_bool), (''list'', is_list), (''array'', is_list),
      (''dict'', is_obj), (''object'', is_obj)]"

fun first_some :: "('a \<Rightarrow> 'b option) \<Rightarrow> 'a list \<Rightarrow> 'b option" where
  "first_some f [] = None"
| "first_some f (x # xs) = (case f x of Some r \<Rightarrow> Some r | None \<Rightarrow> first_some f xs)"

definition type_problem :: "json \<Rightarrow> string \<times> string \<Rightarrow> string option" where
  "type_problem out kt =
     (case kt of (k, tname) \<Rightarrow>
        if \<not> jhas out k then None
        else case dget types_vocab tname of
          None \<Rightarrow> Some (''contract_unknown_type:'' @ tname)
        | Some inst \<Rightarrow>
            if tname \<in> {''int'', ''number'', ''num''} \<and> is_bool (jget out k) then Some (''wrong_type:'' @ k)
            else if \<not> inst (jget out k) then Some (''wrong_type:'' @ k) else None)"

definition enum_problem :: "json \<Rightarrow> string \<times> json list \<Rightarrow> string option" where
  "enum_problem out ka =
     (case ka of (k, vals) \<Rightarrow>
        if jhas out k \<and> \<not> (\<exists>a \<in> set vals. py_eq (jget out k) a) then Some (''enum_violation:'' @ k) else None)"

text \<open>\<open>None\<close> is a pass, \<open>Some\<close> the reason of the failure.\<close>

definition validate_output :: "json \<Rightarrow> contract \<Rightarrow> string option" where
  "validate_output out c =
     (if \<not> is_obj out then Some ''output_not_object''
      else case List.find (\<lambda>k. \<not> jhas out k) (required c) of
        Some k \<Rightarrow> Some (''missing_required:'' @ k)
      | None \<Rightarrow>
          (case first_some (type_problem out) (types c) of
             Some r \<Rightarrow> Some r
           | None \<Rightarrow> first_some (enum_problem out) (enums c)))"

section \<open>Settlement\<close>

definition intel_prefix :: string where "intel_prefix = ''intel:quote:''"

record legs =
  passthrough :: money
  work :: money
  fee_leg :: money

record parties =
  initiator :: string
  provider :: string
  worker :: string
  fee_acct :: string

datatype intel_result =
    IntelAlreadySettled
  | IntelUnfunded string string
  | IntelWork string string string string
  | IntelRefund string string string string string

definition posting_if :: "bool \<Rightarrow> string \<Rightarrow> money \<Rightarrow> posting list" where
  "posting_if b a m = (if b then [mk_posting a m] else [])"

text \<open>The last legs and the outcome, for either verdict.\<close>

definition verdict_legs :: "legs \<Rightarrow> bool \<Rightarrow> parties \<Rightarrow> int \<Rightarrow> int \<Rightarrow> (posting list \<times> (string \<Rightarrow> intel_result)) res" where
  "verdict_legs b pass who rw pw =
     (let p = amount_str (passthrough b); f = amount_str (fee_leg b) in
      if pass then Inr ([mk_posting (worker who) (work b)], \<lambda>change. IntelWork p f change (amount_str (work b)))
      else bindR (money_split (work b) [AInt rw, AInt pw]) (\<lambda>parts.
        case parts of
          [refund, penalty] \<Rightarrow>
            Inr (posting_if (0 < units penalty) (fee_acct who) penalty @ posting_if (0 < units refund) (initiator who) refund,
                 \<lambda>change. IntelRefund p f change (amount_str refund) (amount_str penalty))
        | _ \<Rightarrow> Inl ValueError))"

definition settle_intelligence ::
  "(string \<Rightarrow> string) \<Rightarrow> entry list \<Rightarrow> string \<Rightarrow> legs \<Rightarrow> bool \<Rightarrow> parties \<Rightarrow> int \<Rightarrow> int \<Rightarrow> (entry list \<times> intel_result) res" where
  "settle_intelligence H es sha b pass who rw pw =
     (let cur = currency (passthrough b); esc = escrow_for sha in
      bindR (money_add (passthrough b) (work b)) (\<lambda>t0. bindR (money_add t0 (fee_leg b)) (\<lambda>tot.
      if posted es (intel_prefix @ sha) then Inr (es, IntelAlreadySettled)
      else bindR (balance_of es esc cur) (\<lambda>funded.
      bindR (money_lt funded tot) (\<lambda>short.
      if short then Inr (es, IntelUnfunded (amount_str funded) (amount_str tot))
      else bindR (money_sub funded tot) (\<lambda>change.
      bindR (money_neg funded) (\<lambda>n.
      bindR (verdict_legs b pass who rw pw) (\<lambda>(ps, result).
      bindR (post H es
               ([mk_posting esc n, mk_posting (provider who) (passthrough b), mk_posting (fee_acct who) (fee_leg b)]
                @ ps @ posting_if (0 < units change) (initiator who) change)
               (intel_prefix @ sha)) (\<lambda>es'.
        Inr (es', result (amount_str change)))))))))))"

section \<open>Payment for work, and only for work\<close>

lemma posting_if_sum [simp]:
  assumes "\<bar>units m\<bar> < 10 ^ 34"
  shows "post_sum (posting_if b a m) x c = (if b \<and> a = x \<and> currency m = c then units m else 0)"
    "cur_sum (posting_if b a m) c = (if b \<and> currency m = c then units m else 0)"
    "weight_of (posting_if b a m) = (if b then \<bar>units m\<bar> else 0)"
    "p \<in> set (posting_if b a m) \<Longrightarrow> well_formed_posting p"
  using assms by (auto simp: posting_if_def pval_mk_posting well_formed_mk_posting split: if_splits)

lemma verdict_legs_returns:
  assumes "0 \<le> units (work b)" "units (work b) \<le> 10 ^ 26" and "0 \<le> rw" "0 \<le> pw" "0 < rw + pw" "rw + pw < 10 ^ 28"
  obtains ps r penalty where "verdict_legs b pass who rw pw = Inr (ps, r)"
    and "0 \<le> penalty" "penalty \<le> units (work b)" "pass \<Longrightarrow> penalty = 0"
    and "\<And>p. p \<in> set ps \<Longrightarrow> well_formed_posting p" "weight_of ps = units (work b)"
    and "\<And>c. cur_sum ps c = (if c = currency (work b) then units (work b) else 0)"
    and "\<And>a c. post_sum ps a c = (if c = currency (work b)
           then (if pass \<and> a = worker who then units (work b) else 0) + (if a = fee_acct who then penalty else 0)
                + (if \<not> pass \<and> a = initiator who then units (work b) - penalty else 0) else 0)"
proof (cases pass)
  case True
  have "\<bar>units (work b)\<bar> < 10 ^ 34" using assms(1,2) by simp
  then show thesis using True assms(1)
    by (intro that [of "[mk_posting (worker who) (work b)]" _ 0])
      (auto simp: verdict_legs_def Let_def pval_mk_posting well_formed_mk_posting)
next
  case False
  let ?c = "currency (work b)"
  obtain r q where rq: "money_split (work b) [AInt rw, AInt pw] = Inr [Mny r ?c, Mny q ?c]" "r + q = units (work b)"
    "\<bar>r\<bar> < 10 ^ 27" "\<bar>q\<bar> < 10 ^ 27" "0 \<le> r" "0 \<le> q"
    using split_two [of "work b" rw pw] assms by (metis abs_of_nonneg)
  then have small: "\<bar>units (Mny r ?c)\<bar> < 10 ^ 34" "\<bar>units (Mny q ?c)\<bar> < 10 ^ 34" by simp_all
  show thesis
    by (rule that [of "posting_if (0 < q) (fee_acct who) (Mny q ?c) @ posting_if (0 < r) (initiator who) (Mny r ?c)" _ q])
      (use False rq posting_if_sum [OF small(1)] posting_if_sum [OF small(2)] in \<open>auto simp: verdict_legs_def Let_def\<close>)
qed

text \<open>
  C39: a funded \<open>llm/*\<close> quote always settles, in one posting set: its escrow ends at zero, the provider
  gets the metered cost, the worker the work share exactly when the output met its contract; otherwise
  the work share goes back to the initiator, less a penalty within it that goes to the fee account;
  what was funded beyond the total returns to the initiator. A second call changes nothing.
\<close>

theorem intelligence_pays_for_work:
  fixes b :: legs
  defines "c \<equiv> currency (passthrough b)"
  assumes "currency (work b) = c" "currency (fee_leg b) = c"
    and "0 \<le> units (passthrough b)" "0 \<le> units (work b)" "0 \<le> units (fee_leg b)" "units (work b) \<le> 10 ^ 26"
    and "0 \<le> rw" "0 \<le> pw" "0 < rw + pw" "rw + pw < 10 ^ 28"
    and "es \<noteq> []" "\<not> posted es (intel_prefix @ sha)"
    and "balance_of es (escrow_for sha) c = Inr (Mny funded c)" "funded < 10 ^ 27"
    and "units (passthrough b) + units (work b) + units (fee_leg b) \<le> funded"
    and "distinct [escrow_for sha, initiator who, provider who, worker who, fee_acct who]"
  shows "\<exists>es' r penalty. settle_intelligence H es sha b pass who rw pw = Inr (es', r)
     \<and> 0 \<le> penalty \<and> penalty \<le> units (work b) \<and> (pass \<longrightarrow> penalty = 0)
     \<and> acct_sum es' (escrow_for sha) c = 0
     \<and> gain es es' (provider who) c = units (passthrough b)
     \<and> gain es es' (worker who) c = (if pass then units (work b) else 0)
     \<and> gain es es' (fee_acct who) c = units (fee_leg b) + penalty
     \<and> gain es es' (initiator who) c = funded - units (passthrough b) - units (fee_leg b)
                                     - (if pass then units (work b) else penalty)
     \<and> settle_intelligence H es' sha b pass' who rw pw = Inr (es', IntelAlreadySettled)"
proof -
  let ?P = "units (passthrough b)" and ?W = "units (work b)" and ?F = "units (fee_leg b)"
  let ?ch = "funded - (?P + ?W + ?F)" and ?esc = "escrow_for sha"
  note cur = assms(2,3) c_def [symmetric] and nn = assms(4-6) and big = assms(7,15,16)
  obtain ps r penalty where v: "verdict_legs b pass who rw pw = Inr (ps, r)"
    "0 \<le> penalty" "penalty \<le> ?W" "pass \<Longrightarrow> penalty = 0"
    "\<And>p. p \<in> set ps \<Longrightarrow> well_formed_posting p" "weight_of ps = ?W"
    "\<And>x. cur_sum ps x = (if x = currency (work b) then ?W else 0)"
    "\<And>a x. post_sum ps a x = (if x = currency (work b)
           then (if pass \<and> a = worker who then ?W else 0) + (if a = fee_acct who then penalty else 0)
                + (if \<not> pass \<and> a = initiator who then ?W - penalty else 0) else 0)"
    by (rule verdict_legs_returns [OF assms(5,7-11), of pass who]) (rule that)
  have ch0: "0 \<le> ?ch" using big by linarith
  have small: "\<bar>units (Mny ?ch c)\<bar> < 10 ^ 34" "\<bar>- funded\<bar> < 10 ^ 28" "\<bar>?P\<bar> < 10 ^ 28" "\<bar>?F\<bar> < 10 ^ 28"
    using nn big by simp_all
  let ?chp = "posting_if (0 < ?ch) (initiator who) (Mny ?ch c)"
  let ?ps = "[mk_posting ?esc (Mny (- funded) c), mk_posting (provider who) (passthrough b), mk_posting (fee_acct who) (fee_leg b)]
      @ ps @ ?chp"
  have pv: "pval (mk_posting x (Mny (- funded) c)) = - funded" "pval (mk_posting x (passthrough b)) = ?P"
    "pval (mk_posting x (fee_leg b)) = ?F" for x
    by (rule trans [OF pval_mk_posting]; use small in simp)+
  note sums = posting_if_sum [OF small(1)] v(7,8) pv cur
  have sum: "post_sum ?ps x c = (if x = ?esc then - funded else 0) + (if x = provider who then ?P else 0)
      + (if x = fee_acct who then ?F + penalty else 0) + (if pass \<and> x = worker who then ?W else 0)
      + (if x = initiator who then (if pass then 0 else ?W - penalty) + ?ch else 0)" for x
    using ch0 by (simp add: sums eq_commute [of x])
  have "\<exists>es'. post H es ?ps (intel_prefix @ sha) = Inr es'"
  proof (rule post_returns)
    have "well_formed_posting (mk_posting ?esc (Mny (- funded) c))" "well_formed_posting (mk_posting (provider who) (passthrough b))"
      "well_formed_posting (mk_posting (fee_acct who) (fee_leg b))"
      by (rule well_formed_mk_posting, use small in simp)+
    then show "\<forall>p \<in> set ?ps. well_formed_posting p"
      using v(5) posting_if_sum(4) [OF small(1)] by auto
    show "weight_of ?ps < 10 ^ 34" using nn big ch0 v(6) by (simp add: pv posting_if_sum [OF small(1)])
    show "cur_sum ?ps x = 0" for x using ch0 by (cases "x = c") (simp_all add: sums)
  qed (rule assms(12))
  then obtain es' where po: "post H es ?ps (intel_prefix @ sha) = Inr es'" by blast
  have tot: "money_add (passthrough b) (work b) = Inr (Mny (?P + ?W) c)"
    "money_add (Mny (?P + ?W) c) (fee_leg b) = Inr (Mny (?P + ?W + ?F) c)"
    using nn big by (simp_all add: money_add_eq cur)
  have steps: "money_lt (Mny funded c) (Mny (?P + ?W + ?F) c) = Inr False"
    "money_sub (Mny funded c) (Mny (?P + ?W + ?F) c) = Inr (Mny ?ch c)"
    "money_neg (Mny funded c) = Inr (Mny (- funded) c)"
    using small ch0 by (simp_all add: money_lt_eq money_sub_eq money_neg_eq)
  have s: "settle_intelligence H es sha b pass who rw pw = Inr (es', r (amount_str (Mny ?ch c)))"
    unfolding settle_intelligence_def Let_def cur tot bindR_Inr assms(14) steps v(1) using assms(13) po by simp
  have again: "settle_intelligence H es' sha b pass' who rw pw = Inr (es', IntelAlreadySettled)"
    unfolding settle_intelligence_def Let_def cur tot bindR_Inr using posted_post [OF po] by simp
  have esc: "acct_sum es ?esc c = funded" using balance_of_eq [OF assms(14)] by simp
  note g = post_acct [OF po, of _ c, unfolded sum] and d = assms(17) [simplified] assms(17) [THEN distinct_rev [THEN iffD2], simplified]
  show ?thesis
  proof (intro exI conjI impI)
    show "settle_intelligence H es sha b pass who rw pw = Inr (es', r (amount_str (Mny ?ch c)))" by (rule s)
    show "0 \<le> penalty" "penalty \<le> ?W" by (rule v)+
    show "penalty = 0" if pass using v(4) that .
    show "acct_sum es' ?esc c = 0" using d by (simp add: g esc)
    show "gain es es' (provider who) c = ?P" using d by (simp add: g)
    show "gain es es' (worker who) c = (if pass then ?W else 0)" using d by (simp add: g)
    show "gain es es' (fee_acct who) c = ?F + penalty" using d by (simp add: g)
    show "gain es es' (initiator who) c = funded - ?P - ?F - (if pass then ?W else penalty)" using d by (simp add: g)
    show "settle_intelligence H es' sha b pass' who rw pw = Inr (es', IntelAlreadySettled)" by (rule again)
  qed
qed

text \<open>An output that misses its contract, with a fifth of the work share as the penalty.\<close>

theorem intelligence_pays_for_work_witness:
  "\<exists>es es' r. settle_intelligence (\<lambda>s. s) es ''q'' \<lparr>passthrough = Mny 2000 ''USD'', work = Mny 10000 ''USD'', fee_leg = Mny 500 ''USD''\<rparr>
       False \<lparr>initiator = ''ini'', provider = ''pro'', worker = ''wrk'', fee_acct = ''fee''\<rparr> 80 20 = Inr (es', r)
     \<and> gain es es' ''wrk'' ''USD'' = 0 \<and> gain es es' ''pro'' ''USD'' = 2000"
proof -
  let ?b = "\<lparr>passthrough = Mny 2000 ''USD'', work = Mny 10000 ''USD'', fee_leg = Mny 500 ''USD''\<rparr>"
    and ?who = "\<lparr>initiator = ''ini'', provider = ''pro'', worker = ''wrk'', fee_acct = ''fee''\<rparr>"
  obtain es where es: "es \<noteq> []" "memos es = [''fund'']" "balance_of es (escrow_for ''q'') ''USD'' = Inr (Mny 13000 ''USD'')"
    by (rule funded_ledger [of 13000 "''ini''" "escrow_for ''q''" "''fund''" "''USD''"]) simp_all
  have "\<not> posted es (intel_prefix @ ''q'')" by (simp add: posted_memos es(2) intel_prefix_def)
  with es intelligence_pays_for_work [of ?b 80 20 es "''q''" 13000 ?who "\<lambda>s. s" False True] show ?thesis by (auto simp: escrow_for_def escrow_pool_def)
qed

text \<open>Retries of a settlement are harmless, whatever else the ledger does in between.\<close>

lemma settle_intelligence_cases:
  "settle_intelligence H es sha b pass who rw pw = Inr (es', r) \<Longrightarrow>
   (es' = es \<or> \<not> posted es (intel_prefix @ sha) \<and> memos es' = memos es @ [intel_prefix @ sha])"
  unfolding settle_intelligence_def Let_def
  by (auto simp: bindR_eq_Inr post_memos split: if_splits)

interpretation intel: once "\<lambda>es sha (b, pass, who, rw, pw). settle_intelligence H es sha b pass who rw pw" "\<lambda>sha. intel_prefix @ sha" memos for H
  by unfold_locales (auto simp: posted_memos dest!: settle_intelligence_cases split: prod.splits)

lemma intelligence_settles_once:
  "intel.run H es calls = Inr es' \<Longrightarrow> count_list (memos es') (intel_prefix @ sha) \<le> max 1 (count_list (memos es) (intel_prefix @ sha))"
  by (rule intel.at_most_once)

end
