(* ===== verification/Markets.thy ===== *)
theory Markets
  imports Escrow
begin

text \<open>
  Award mechanisms and disputes over the reward ledger: bounties and reverse auctions
  (\<open>src/infra/settle/markets.py\<close>), the security program (\<open>selfbounty.py\<close>), the lineage royalty of a
  publish (\<open>royalties.py\<close>, with the publish gate as a parameter) and the dispute lifecycle
  (\<open>disputes.py\<close>).
\<close>

section \<open>Bounties\<close>

record competitor =
  c_name :: string
  c_valid :: bool
  c_score :: "int option"

record award =
  winner :: "string option"
  paid :: string
  valid_count :: nat

definition score :: "competitor \<Rightarrow> int" where
  "score c = (case c_score c of Some s \<Rightarrow> s | None \<Rightarrow> 0)"

text \<open>\<open>max\<close> and \<open>min\<close> of a non-empty list by a key: the first of equal ones.\<close>

fun max_by :: "('a \<Rightarrow> int) \<Rightarrow> 'a \<Rightarrow> 'a list \<Rightarrow> 'a" where
  "max_by key b [] = b"
| "max_by key b (x # xs) = max_by key (if key b < key x then x else b) xs"

definition bounty_acct :: "string \<Rightarrow> string" where "bounty_acct bid = ''bounty:'' @ bid"

definition payee_acct :: "string \<Rightarrow> string" where "payee_acct n = ''payee:'' @ n"

definition pick_winner :: "string \<Rightarrow> competitor list \<Rightarrow> competitor option" where
  "pick_winner select valid =
     (case valid of [] \<Rightarrow> None | c # cs \<Rightarrow> Some (if select = ''best'' then max_by score c cs else c))"

definition award_bounty ::
  "(string \<Rightarrow> string) \<Rightarrow> entry list \<Rightarrow> string \<Rightarrow> money \<Rightarrow> competitor list \<Rightarrow> string \<Rightarrow> string \<Rightarrow> (entry list \<times> award) res" where
  "award_bounty H es poster prize cs bid select =
     bindR (fund_escrow H es poster prize (bounty_acct bid) (''fund-bounty:'' @ bid)) (\<lambda>es1.
     bindR (money_neg prize) (\<lambda>n.
       let valid = filter c_valid cs in
       case pick_winner select valid of
         None \<Rightarrow>
           bindR (post H es1 [mk_posting (bounty_acct bid) n, mk_posting poster prize] (''refund-bounty:'' @ bid)) (\<lambda>es2.
             Inr (es2, \<lparr>winner = None, paid = ''0'', valid_count = 0\<rparr>))
       | Some w \<Rightarrow>
           bindR (post H es1 [mk_posting (bounty_acct bid) n, mk_posting (payee_acct (c_name w)) prize]
                    (''award-bounty:'' @ bid)) (\<lambda>es2.
             Inr (es2, \<lparr>winner = Some (c_name w), paid = amount_str prize, valid_count = length valid\<rparr>))))"

record vuln_bounty =
  v_class :: string
  v_prize :: money
  v_disclosures :: "competitor list"
  v_select :: "string option"

definition run_security_program ::
  "(string \<Rightarrow> string) \<Rightarrow> entry list \<Rightarrow> string \<Rightarrow> vuln_bounty list \<Rightarrow> (entry list \<times> (string \<times> award) list) res" where
  "run_security_program H es sponsor bs =
     foldR (\<lambda>(es, out) b.
       bindR (award_bounty H es sponsor (v_prize b) (v_disclosures b) (v_class b)
                (case v_select b of Some s \<Rightarrow> s | None \<Rightarrow> ''best'')) (\<lambda>(es', a).
         Inr (es', out @ [(v_class b, a)]))) (es, []) bs"

section \<open>Reverse auctions\<close>

record bid =
  b_name :: string
  b_price :: money_arg
  b_qualified :: bool

record clearing =
  cl_winner :: "string option"
  clearing_price :: "string option"
  below_posted :: bool
  qualified_count :: nat

text \<open>The price of a bid that is not qualified is not read.\<close>

definition eligible :: "money \<Rightarrow> bid list \<Rightarrow> (string \<times> money) list res" where
  "eligible posted_price bids =
     foldR (\<lambda>out b.
       if \<not> b_qualified b then Inr out
       else bindR (money_of (b_price b) (currency posted_price)) (\<lambda>p.
              Inr (if units p \<le> units posted_price then out @ [(b_name b, p)] else out))) [] bids"

definition clear_reverse_auction :: "money \<Rightarrow> bid list \<Rightarrow> clearing res" where
  "clear_reverse_auction posted_price bids =
     bindR (eligible posted_price bids) (\<lambda>elig.
       case elig of
         [] \<Rightarrow> Inr \<lparr>cl_winner = None, clearing_price = None, below_posted = False, qualified_count = 0\<rparr>
       | e # es \<Rightarrow>
           let (w, p) = max_by (\<lambda>np. - units (snd np)) e es
           in Inr \<lparr>cl_winner = Some w, clearing_price = Some (amount_str p),
                   below_posted = (units p < units posted_price), qualified_count = length elig\<rparr>)"

section \<open>Royalties\<close>

definition alchemy_lineage :: string where "alchemy_lineage = ''alchemy:lineage''"

record publish_report =
  published :: bool
  pub_reason :: string
  lineage_paid :: string
  publisher_kept :: "string option"

text \<open>\<open>gate\<close> is \<open>alchemy.publish_gate\<close>: admission and its reason.\<close>

definition publish_with_royalty ::
  "(string \<Rightarrow> string) \<Rightarrow> (string \<Rightarrow> bool \<times> string) \<Rightarrow> entry list \<Rightarrow> string \<Rightarrow> string \<Rightarrow> money \<Rightarrow> int \<Rightarrow> int
   \<Rightarrow> (entry list \<times> publish_report) res" where
  "publish_with_royalty H gate es publisher source revenue rw kw =
     (case gate source of
        (False, why) \<Rightarrow> Inr (es, \<lparr>published = False, pub_reason = why, lineage_paid = ''0'', publisher_kept = None\<rparr>)
      | (True, _) \<Rightarrow>
          bindR (money_split revenue [AInt rw, AInt kw]) (\<lambda>parts.
            case parts of
              [royalty, kept] \<Rightarrow>
                bindR (money_neg revenue) (\<lambda>n.
                bindR (post H es [mk_posting ''publish-revenue'' n, mk_posting alchemy_lineage royalty, mk_posting publisher kept]
                         (''lineage-royalty:'' @ publisher)) (\<lambda>es'.
                  Inr (es', \<lparr>published = True, pub_reason = ''citrinitas_clean'', lineage_paid = amount_str royalty,
                             publisher_kept = Some (amount_str kept)\<rparr>)))
            | _ \<Rightarrow> Inl ValueError))"

definition lineage_total :: "entry list \<Rightarrow> string \<Rightarrow> money res" where
  "lineage_total es c = balance_of es alchemy_lineage c"

section \<open>Disputes\<close>

definition dispute_origin :: string where "dispute_origin = ''https://arbitrate.cyberware''"
definition dispute_rp :: string where "dispute_rp = ''cyberware''"

definition bond_acct :: "string \<Rightarrow> string" where "bond_acct sha = ''dispute-bond:'' @ take 16 sha"
definition hold_acct :: "string \<Rightarrow> string" where "hold_acct sha = ''hold:'' @ take 16 sha"

definition open_dispute :: "(string \<Rightarrow> string) \<Rightarrow> entry list \<Rightarrow> string \<Rightarrow> string \<Rightarrow> money \<Rightarrow> entry list res" where
  "open_dispute H es disputer sha bond =
     bindR (money_neg bond) (\<lambda>n.
       post H es [mk_posting disputer n, mk_posting (bond_acct sha) bond] (''dispute-open:'' @ take 16 sha))"

text \<open>One approval: counted once per arbiter and once per registered key.\<close>

definition count_approval ::
  "crypto \<Rightarrow> json \<Rightarrow> (string, string) dict \<Rightarrow> string list \<times> string list \<Rightarrow> string \<times> json \<Rightarrow> (string list \<times> string list) res" where
  "count_approval K doc arbiters seen ap =
     (case (seen, ap) of ((ids, keys), (arb, assertion)) \<Rightarrow>
        if arb \<in> set ids then Inr seen
        else case dget arbiters arb of
          None \<Rightarrow> Inr seen
        | Some key \<Rightarrow>
            if key \<in> set keys then Inr seen
            else bindR (verify_assertion K doc assertion dispute_origin dispute_rp key True) (\<lambda>(ok, _).
                   Inr (if ok then (arb # ids, key # keys) else seen)))"

definition count_approvals :: "crypto \<Rightarrow> json \<Rightarrow> (string \<times> json) list \<Rightarrow> (string, string) dict \<Rightarrow> nat res" where
  "count_approvals K doc approvals arbiters =
     bindR (foldR (count_approval K doc arbiters) ([], []) approvals) (\<lambda>(ids, _). Inr (length ids))"

datatype resolution =
    QuorumTooSmall
  | InsufficientApprovals nat
  | InvalidOutcome nat
  | Resolved string nat

definition demote :: "string \<Rightarrow> (string, int) dict \<Rightarrow> (string, int) dict" where
  "demote who rep = dput who (dget_default rep who 0 - 1) rep"

text \<open>The transfer of a verdict and whom it demotes.\<close>

definition verdict_postings :: "string \<Rightarrow> string \<Rightarrow> string \<Rightarrow> string \<Rightarrow> money \<Rightarrow> money \<Rightarrow> (posting list \<times> string) res" where
  "verdict_postings outcome sha payee disputer bond held =
     bindR (money_neg bond) (\<lambda>nb.
       if outcome = ''upheld''
       then bindR (money_neg held) (\<lambda>nh.
              Inr ([mk_posting (hold_acct sha) nh, mk_posting disputer held, mk_posting (bond_acct sha) nb, mk_posting disputer bond],
                   payee))
       else Inr ([mk_posting (bond_acct sha) nb, mk_posting payee bond], disputer))"

definition resolve ::
  "crypto \<Rightarrow> entry list \<Rightarrow> json \<Rightarrow> (string \<times> json) list \<Rightarrow> nat \<Rightarrow> string \<Rightarrow> string \<Rightarrow> string \<Rightarrow> (string, int) dict
   \<Rightarrow> (string, string) dict \<Rightarrow> (entry list \<times> (string, int) dict \<times> resolution) res" where
  "resolve K es doc approvals m payee disputer sha rep arbiters =
     (if m < 2 then Inr (es, rep, QuorumTooSmall)
      else bindR (count_approvals K doc approvals arbiters) (\<lambda>n.
        if n < m then Inr (es, rep, InsufficientApprovals n)
        else bindR (str_of_json (jget_or doc ''currency'' (JStr ''USD''))) (\<lambda>cur.
        bindR (balance_of es (bond_acct sha) cur) (\<lambda>bond.
        bindR (balance_of es (hold_acct sha) cur) (\<lambda>held.
          case jget doc ''outcome'' of
            JStr outcome \<Rightarrow>
              if outcome \<noteq> ''upheld'' \<and> outcome \<noteq> ''rejected'' then Inr (es, rep, InvalidOutcome n)
              else bindR (verdict_postings outcome sha payee disputer bond held) (\<lambda>(ps, blamed).
                bindR (post (sha_hex K) es ps (''dispute-resolve:'' @ outcome @ '':'' @ take 16 sha)) (\<lambda>es'.
                  Inr (es', demote blamed rep, Resolved outcome n)))
          | _ \<Rightarrow> Inr (es, rep, InvalidOutcome n))))))"

section \<open>A bounty pays one validated winner\<close>

lemma max_by_mem: "max_by key b xs \<in> insert b (set xs)"
proof (induction xs arbitrary: b)
  case (Cons x xs)
  show ?case using Cons.IH [of x] Cons.IH [of b] by (cases "key b < key x") auto
qed simp

lemma max_by_ge: "y \<in> insert b (set xs) \<Longrightarrow> key y \<le> key (max_by key b xs)"
proof (induction xs arbitrary: b y)
  case (Cons x xs)
  let ?b = "if key b < key x then x else b"
  have ge: "key ?b \<le> key (max_by key ?b xs)" by (rule Cons.IH) simp
  show ?case
  proof (cases "y \<in> set xs")
    case True
    then have "key y \<le> key (max_by key ?b xs)" by (intro Cons.IH) simp
    then show ?thesis by simp
  next
    case False
    then have "y = b \<or> y = x" using Cons.prems by auto
    then have "key y \<le> key ?b" by auto
    then have "key y \<le> key (max_by key ?b xs)" using ge by (rule order_trans)
    then show ?thesis by simp
  qed
qed simp

lemma pick_winner_facts:
  "pick_winner select valid = Some w \<Longrightarrow> w \<in> set valid \<and> (select = ''best'' \<longrightarrow> (\<forall>k \<in> set valid. score k \<le> score w))"
  "pick_winner select valid = None \<longleftrightarrow> valid = []"
proof -
  show "pick_winner select valid = None \<longleftrightarrow> valid = []" by (cases valid) (auto simp: pick_winner_def)
  show "w \<in> set valid \<and> (select = ''best'' \<longrightarrow> (\<forall>k \<in> set valid. score k \<le> score w))" if "pick_winner select valid = Some w"
  proof (cases valid)
    case (Cons c cs)
    then show ?thesis using that max_by_mem [of score c cs] max_by_ge [of _ c cs score]
      by (cases "select = ''best''") (simp_all add: pick_winner_def)
  qed (use that in \<open>simp add: pick_winner_def\<close>)
qed

lemma award_bounty_pays:
  assumes "es \<noteq> []" and "\<bar>units prize\<bar> < 10 ^ 28"
  obtains es' a where "award_bounty H es poster prize cs bid select = Inr (es', a)"
    and "winner a = map_option c_name (pick_winner select (filter c_valid cs))"
    and "\<And>x c. gain es es' x c =
       (case winner a of None \<Rightarrow> 0
        | Some w \<Rightarrow> if c = currency prize
                    then (if x = payee_acct w then units prize else 0) - (if x = poster then units prize else 0) else 0)"
proof -
  let ?c = "currency prize" and ?n = "Mny (- units prize) (currency prize)"
  have u: "\<bar>units prize\<bar> < 10 ^ 33" and n: "money_neg prize = Inr ?n" using assms(2) by (simp_all add: money_neg_eq)
  obtain e1 where e1: "post H es [mk_posting poster ?n, mk_posting (bounty_acct bid) prize] (''fund-bounty:'' @ bid) = Inr e1"
    and s1: "\<And>x c. acct_sum e1 x c = acct_sum es x c
        + (if c = ?c then (if x = bounty_acct bid then units prize else 0) - (if x = poster then units prize else 0) else 0)"
    using post_pair [OF assms(1) u, of H poster "bounty_acct bid"] by metis
  have f: "fund_escrow H es poster prize (bounty_acct bid) (''fund-bounty:'' @ bid) = Inr e1"
    using e1 n by (simp add: fund_escrow_def)
  have ne: "e1 \<noteq> []" using e1 by (auto simp: post_eq_Inr)
  let ?valid = "filter c_valid cs"
  show thesis
  proof (cases "pick_winner select ?valid")
    case None
    obtain e2 where e2: "post H e1 [mk_posting (bounty_acct bid) ?n, mk_posting poster prize] (''refund-bounty:'' @ bid) = Inr e2"
      and s2: "\<And>x c. acct_sum e2 x c = acct_sum e1 x c
        + (if c = ?c then (if x = poster then units prize else 0) - (if x = bounty_acct bid then units prize else 0) else 0)"
      using post_pair [OF ne u, of H "bounty_acct bid" poster] by metis
    show thesis
      by (rule that [of e2 "\<lparr>winner = None, paid = ''0'', valid_count = 0\<rparr>"])
        (use f n None e2 in \<open>auto simp: award_bounty_def s1 s2\<close>)
  next
    case (Some w)
    obtain e2 where e2: "post H e1 [mk_posting (bounty_acct bid) ?n, mk_posting (payee_acct (c_name w)) prize]
        (''award-bounty:'' @ bid) = Inr e2"
      and s2: "\<And>x c. acct_sum e2 x c = acct_sum e1 x c
        + (if c = ?c then (if x = payee_acct (c_name w) then units prize else 0) - (if x = bounty_acct bid then units prize else 0) else 0)"
      using post_pair [OF ne u, of H "bounty_acct bid" "payee_acct (c_name w)"] by metis
    show thesis
      by (rule that [of e2 "\<lparr>winner = Some (c_name w), paid = amount_str prize, valid_count = length ?valid\<rparr>"])
        (use f n Some e2 in \<open>auto simp: award_bounty_def Let_def s1 s2\<close>)
  qed
qed

text \<open>
  A bounty always resolves: the poster pays the prize to exactly one validated competitor, the best
  scored one when the rule says so, every other account, the bounty's own among them, ends where it
  was; without a validated competitor nothing moves.
\<close>

theorem bounty_pays_one_winner:
  assumes "es \<noteq> []" and "\<bar>units prize\<bar> < 10 ^ 28"
  shows "\<exists>es' a. award_bounty H es poster prize cs bid select = Inr (es', a)
     \<and> (case pick_winner select (filter c_valid cs) of
          None \<Rightarrow> winner a = None \<and> (\<forall>k \<in> set cs. \<not> c_valid k) \<and> (\<forall>x c. gain es es' x c = 0)
        | Some w \<Rightarrow> winner a = Some (c_name w) \<and> w \<in> set cs \<and> c_valid w
            \<and> (select = ''best'' \<longrightarrow> (\<forall>k \<in> set cs. c_valid k \<longrightarrow> score k \<le> score w))
            \<and> (\<forall>x. gain es es' x (currency prize)
                   = (if x = payee_acct (c_name w) then units prize else 0) - (if x = poster then units prize else 0)))"
proof -
  obtain es' a where a: "award_bounty H es poster prize cs bid select = Inr (es', a)"
    "winner a = map_option c_name (pick_winner select (filter c_valid cs))"
    "\<And>x c. gain es es' x c =
       (case winner a of None \<Rightarrow> 0
        | Some w \<Rightarrow> if c = currency prize
                    then (if x = payee_acct w then units prize else 0) - (if x = poster then units prize else 0) else 0)"
    by (rule award_bounty_pays [OF assms, of H poster cs bid select]) (rule that)
  show ?thesis
  proof (cases "pick_winner select (filter c_valid cs)")
    case None
    then have "filter c_valid cs = []" using pick_winner_facts(2) by blast
    then show ?thesis using a None by (auto simp: filter_empty_conv)
  next
    case (Some w)
    then show ?thesis using a pick_winner_facts(1) [OF Some] by auto
  qed
qed

text \<open>The lowest qualified bid within the ceiling clears.\<close>

lemma eligible_set:
  assumes "eligible p bids = Inr elig"
  shows "set elig = {(b_name b, m) | b m. b \<in> set bids \<and> b_qualified b \<and> money_of (b_price b) (currency p) = Inr m \<and> units m \<le> units p}"
proof -
  let ?S = "\<lambda>bids. {(b_name b, m) | b m. b \<in> set bids \<and> b_qualified b \<and> money_of (b_price b) (currency p) = Inr m \<and> units m \<le> units p}"
  have "set elig = set out \<union> ?S bids"
    if "foldR (\<lambda>out b. if \<not> b_qualified b then Inr out
       else bindR (money_of (b_price b) (currency p)) (\<lambda>m. Inr (if units m \<le> units p then out @ [(b_name b, m)] else out))) out bids = Inr elig" for out
    using that
  proof (induction bids arbitrary: out)
    case (Cons b bids)
    show ?case
    proof (cases "b_qualified b")
      case False
      then show ?thesis using Cons by auto
    next
      case True
      with Cons.prems obtain m where m: "money_of (b_price b) (currency p) = Inr m" by (auto simp: bindR_eq_Inr)
      show ?thesis using Cons.IH Cons.prems True m by (auto split: if_splits)
    qed
  qed simp
  then show ?thesis using assms unfolding eligible_def by fastforce
qed

lemma auction_clears_lowest:
  assumes "clear_reverse_auction p bids = Inr r"
  shows "case cl_winner r of
      None \<Rightarrow> (\<forall>b \<in> set bids. b_qualified b \<longrightarrow> (\<forall>m. money_of (b_price b) (currency p) = Inr m \<longrightarrow> units p < units m))
    | Some w \<Rightarrow> \<exists>b m. b \<in> set bids \<and> b_qualified b \<and> b_name b = w \<and> money_of (b_price b) (currency p) = Inr m
         \<and> units m \<le> units p \<and> clearing_price r = Some (amount_str m) \<and> (below_posted r \<longleftrightarrow> units m < units p)
         \<and> (\<forall>b' \<in> set bids. b_qualified b' \<longrightarrow> (\<forall>m'. money_of (b_price b') (currency p) = Inr m' \<longrightarrow> units m \<le> units m'))"
proof -
  from assms obtain elig where elig: "eligible p bids = Inr elig" by (auto simp: clear_reverse_auction_def bindR_eq_Inr)
  note S = eligible_set [OF elig]
  show ?thesis
  proof (cases elig)
    case Nil
    then show ?thesis using assms elig S by (fastforce simp: clear_reverse_auction_def not_le [symmetric])
  next
    case (Cons e es)
    obtain w m where wm: "max_by (\<lambda>np. - units (snd np)) e es = (w, m)" by fastforce
    have mem: "(w, m) \<in> set elig" and best: "\<forall>y \<in> set elig. units m \<le> units (snd y)"
      using max_by_mem [of "\<lambda>np. - units (snd np)" e es] max_by_ge [of _ e es "\<lambda>np. - units (snd np)"] Cons wm by auto
    have r: "r = \<lparr>cl_winner = Some w, clearing_price = Some (amount_str m), below_posted = (units m < units p), qualified_count = length elig\<rparr>"
      using assms elig Cons wm by (simp add: clear_reverse_auction_def)
    from mem S obtain b where b: "b \<in> set bids" "b_qualified b" "b_name b = w" "money_of (b_price b) (currency p) = Inr m" "units m \<le> units p"
      by auto
    have "units m \<le> units m'" if "b' \<in> set bids" "b_qualified b'" "money_of (b_price b') (currency p) = Inr m'" for b' m'
    proof (cases "units m' \<le> units p")
      case True
      then have "(b_name b', m') \<in> set elig" using that S by blast
      then show ?thesis using best by force
    qed (use b(5) in simp)
    then show ?thesis using r b by auto
  qed
qed

section \<open>A dispute needs a quorum of registered keys\<close>

definition approved :: "crypto \<Rightarrow> json \<Rightarrow> (string \<times> json) list \<Rightarrow> (string, string) dict \<Rightarrow> string \<Rightarrow> string \<Rightarrow> bool" where
  "approved K doc approvals arbiters i key \<longleftrightarrow>
     dget arbiters i = Some key
     \<and> (\<exists>a x. (i, a) \<in> set approvals \<and> verify_assertion K doc a dispute_origin dispute_rp key True = Inr (True, x))"

lemma count_approvals_quorum:
  assumes "count_approvals K doc approvals arbiters = Inr n"
  shows "n \<le> card {key. \<exists>i. approved K doc approvals arbiters i key}"
proof -
  let ?ok = "approved K doc approvals arbiters"
  let ?P = "\<lambda>(ids, keys). list_all2 ?ok ids keys \<and> distinct keys"
  from assms obtain ids keys where f: "foldR (count_approval K doc arbiters) ([], []) approvals = Inr (ids, keys)" and n: "n = length ids"
    by (auto simp: count_approvals_def bindR_eq_Inr)
  have "?P (ids, keys)"
    using f
  proof (rule foldR_invariant [where P = ?P])
    fix s x s'
    assume P: "?P s" and x: "x \<in> set approvals" and st: "count_approval K doc arbiters s x = Inr s'"
    obtain ids1 ks i a where s: "s = (ids1, ks)" "x = (i, a)" by (cases s, cases x)
    show "?P s'"
    proof (cases "s' = s")
      case False
      with st s obtain key r where k: "dget arbiters i = Some key" "key \<notin> set ks"
        and v: "verify_assertion K doc a dispute_origin dispute_rp key True = Inr (True, r)" and s': "s' = (i # ids1, key # ks)"
        by (auto simp: count_approval_def bindR_eq_Inr split: if_splits option.splits)
      then show ?thesis using P x s by (auto simp: approved_def)
    qed (use P in simp)
  qed simp
  then have l: "list_all2 ?ok ids keys" and d: "distinct keys" by simp_all
  have "set keys \<subseteq> {key. \<exists>i. ?ok i key}" using l by (auto simp: list_all2_conv_all_nth in_set_conv_nth) metis
  moreover have "finite {key. \<exists>i. ?ok i key}"
    by (rule finite_subset [of _ "snd ` set arbiters"]) (auto simp: approved_def dest!: map_of_SomeD intro: rev_image_eqI)
  ultimately show ?thesis using n d l by (metis card_mono distinct_card list_all2_lengthD)
qed

lemma accts_differ [simp]: "bond_acct s \<noteq> hold_acct t" "hold_acct t \<noteq> bond_acct s"
  by (simp_all add: bond_acct_def hold_acct_def)

lemma resolve_cases:
  assumes "resolve K es doc approvals m payee disputer sha rep arbiters = Inr (es', rep', r)"
  obtains "es' = es" "rep' = rep" "\<And>oc n. r \<noteq> Resolved oc n"
  | oc n cur bond held ps blamed where "2 \<le> m" "count_approvals K doc approvals arbiters = Inr n" "m \<le> n" "r = Resolved oc n"
      "jget_or doc ''currency'' (JStr ''USD'') = JStr cur" "jget doc ''outcome'' = JStr oc" "oc = ''upheld'' \<or> oc = ''rejected''"
      "balance_of es (bond_acct sha) cur = Inr bond" "balance_of es (hold_acct sha) cur = Inr held"
      "verdict_postings oc sha payee disputer bond held = Inr (ps, blamed)"
      "post (sha_hex K) es ps (''dispute-resolve:'' @ oc @ '':'' @ take 16 sha) = Inr es'" "rep' = demote blamed rep"
proof -
  show thesis
  proof (cases "m < 2")
    case True
    then show thesis by (intro that(1)) (use assms in \<open>auto simp: resolve_def\<close>)
  next
    case False
    then obtain n where n: "count_approvals K doc approvals arbiters = Inr n" using assms by (auto simp: resolve_def bindR_eq_Inr)
    note a = assms [unfolded resolve_def n bindR_Inr]
    show thesis
    proof (cases "n < m")
      case True
      then show thesis by (intro that(1)) (use a False in auto)
    next
      case enough: False
      with a False obtain cur bond held where c0: "str_of_json (jget_or doc ''currency'' (JStr ''USD'')) = Inr cur"
        and b: "balance_of es (bond_acct sha) cur = Inr bond" "balance_of es (hold_acct sha) cur = Inr held"
        by (auto simp: bindR_eq_Inr)
      from c0 have c: "jget_or doc ''currency'' (JStr ''USD'') = JStr cur" by (simp add: str_of_json_def split: json.splits)
      note a = a [unfolded c0 b bindR_Inr]
      show thesis
      proof (cases "jget doc ''outcome'' = JStr ''upheld'' \<or> jget doc ''outcome'' = JStr ''rejected''")
        case False': False
        then show thesis
          by (intro that(1)) (use a False False' enough in \<open>cases "jget doc ''outcome''"; auto\<close>)+
      next
        case True
        then obtain oc where oc: "jget doc ''outcome'' = JStr oc" "oc = ''upheld'' \<or> oc = ''rejected''" by auto
        from a False enough oc obtain ps blamed where v: "verdict_postings oc sha payee disputer bond held = Inr (ps, blamed)"
          "post (sha_hex K) es ps (''dispute-resolve:'' @ oc @ '':'' @ take 16 sha) = Inr es'" "rep' = demote blamed rep" "r = Resolved oc n"
          by (auto simp: bindR_eq_Inr)
        then show thesis using that(2) [OF _ n _ v(4) c oc b v(1,2,3)] False enough by simp
      qed
    qed
  qed
qed

text \<open>
  C31: a dispute is resolved only by at least two, and at least \<open>m\<close>, different registered keys whose
  assertions verify over the resolution document. Then the bond account of the quote ends empty: when the
  dispute is upheld the holdback and the bond go to the disputer and the payee is demoted, when it is
  rejected the bond goes to the payee and the disputer is demoted. In every other case neither the ledger
  nor the reputations change.
\<close>

theorem dispute_needs_quorum:
  assumes "resolve K es doc approvals m payee disputer sha rep arbiters = Inr (es', rep', r)"
    and "jget_or doc ''currency'' (JStr ''USD'') = JStr c"
    and "\<bar>acct_sum es (bond_acct sha) c\<bar> < 10 ^ 28" "\<bar>acct_sum es (hold_acct sha) c\<bar> < 10 ^ 28"
    and "distinct [bond_acct sha, hold_acct sha, payee, disputer]"
  shows "case r of
      Resolved outcome n \<Rightarrow>
        2 \<le> m \<and> m \<le> card {key. \<exists>i. approved K doc approvals arbiters i key}
        \<and> jget doc ''outcome'' = JStr outcome
        \<and> acct_sum es' (bond_acct sha) c = 0
        \<and> (if outcome = ''upheld''
           then acct_sum es' (hold_acct sha) c = 0 \<and> gain es es' payee c = 0 \<and> rep' = demote payee rep
                \<and> gain es es' disputer c = acct_sum es (hold_acct sha) c + acct_sum es (bond_acct sha) c
           else outcome = ''rejected'' \<and> gain es es' (hold_acct sha) c = 0 \<and> gain es es' disputer c = 0
                \<and> gain es es' payee c = acct_sum es (bond_acct sha) c \<and> rep' = demote disputer rep)
    | _ \<Rightarrow> es' = es \<and> rep' = rep"
  using assms(1)
proof (cases rule: resolve_cases)
  case 1
  then show ?thesis by (cases r) auto
next
  case (2 oc n cur bond held ps blamed)
  let ?B = "acct_sum es (bond_acct sha) c" and ?H = "acct_sum es (hold_acct sha) c"
  have q: "m \<le> card {key. \<exists>i. approved K doc approvals arbiters i key}"
    using count_approvals_quorum [OF 2(2)] 2(3) by simp
  have cur: "cur = c" using 2(5) assms(2) by simp
  have bh: "bond = Mny ?B c" "held = Mny ?H c" using balance_of_eq [OF 2(8)] balance_of_eq [OF 2(9)] cur by simp_all
  have neg: "money_neg (Mny ?B c) = Inr (Mny (- ?B) c)" "money_neg (Mny ?H c) = Inr (Mny (- ?H) c)"
    using assms(3,4) by (simp_all add: money_neg_eq)
  have pv: "pval (mk_posting x (Mny u c)) = u" if "\<bar>u\<bar> < 10 ^ 28" for x u
    using that by (simp add: pval_mk_posting)
  have pvs: "pval (mk_posting x (Mny ?B c)) = ?B" "pval (mk_posting x (Mny (- ?B) c)) = - ?B"
    "pval (mk_posting x (Mny ?H c)) = ?H" "pval (mk_posting x (Mny (- ?H) c)) = - ?H" for x
    using assms(3,4) by (simp_all add: pv)
  note d = assms(5) [simplified] assms(5) [THEN distinct_rev [THEN iffD2], simplified]
  note g = post_acct [OF 2(11)]
  show ?thesis
  proof (cases "oc = ''upheld''")
    case True
    have "ps = [mk_posting (hold_acct sha) (Mny (- ?H) c), mk_posting disputer (Mny ?H c), mk_posting (bond_acct sha) (Mny (- ?B) c),
        mk_posting disputer (Mny ?B c)]" "blamed = payee"
      using 2(10) True by (auto simp: verdict_postings_def bh neg)
    then show ?thesis using True 2(1,4,6,12) q d by (simp add: g pvs)
  next
    case False
    then have "ps = [mk_posting (bond_acct sha) (Mny (- ?B) c), mk_posting payee (Mny ?B c)]" "blamed = disputer"
      using 2(10) by (auto simp: verdict_postings_def bh neg)
    then show ?thesis using False 2(1,4,6,7,12) q d by (simp add: g pvs)
  qed
qed

text \<open>A scheme in which every document has the same challenge, for a concrete run.\<close>

definition dispute_crypto :: crypto where
  "dispute_crypto = toy_crypto \<lparr>sha_raw := \<lambda>_. replicate 32 CHR ''0'',
     parse := \<lambda>_. Some (JObj [(''type'', JStr ''webauthn.get''), (''challenge'', JStr (replicate 32 CHR ''0'')),
                              (''origin'', JStr dispute_origin)])\<rparr>"

lemma balance_of_all: "balance_of es a c = Inr m \<Longrightarrow> balance_of es x d = Inr (Mny (acct_sum es x d) d)"
proof -
  assume "balance_of es a c = Inr m"
  then obtain bal where "balances es = Inr bal" by (auto simp: balance_of_def bindR_eq_Inr)
  then have "\<exists>m. balance_of es x d = Inr m" by (cases "dget bal (x, d)") (simp_all add: balance_of_def)
  then show ?thesis using balance_of_eq by metis
qed

theorem dispute_needs_quorum_witness:
  "\<exists>es es' rep'. resolve dispute_crypto es (JObj [(''outcome'', JStr ''upheld'')])
       (map (\<lambda>k. (k, make_assertion dispute_crypto (JBool True) k dispute_origin dispute_rp True True)) [''a'', ''b'']) 2 ''pay'' ''dan'' ''q'' []
       [(''a'', ''a''), (''b'', ''b'')] = Inr (es', rep', Resolved ''upheld'' 2)
     \<and> gain es es' ''dan'' ''USD'' = 50000 \<and> rep' = demote ''pay'' []"
proof -
  let ?K = dispute_crypto and ?doc = "JObj [(''outcome'', JStr ''upheld'')]" and ?arb = "[(''a'', ''a''), (''b'', ''b'')]"
  let ?as = "map (\<lambda>k. (k, make_assertion ?K (JBool True) k dispute_origin dispute_rp True True)) [''a'', ''b'']"
  obtain es where es: "es \<noteq> []" "balance_of es (bond_acct ''q'') ''USD'' = Inr (Mny 50000 ''USD'')"
    and sums: "\<And>x. acct_sum es x ''USD'' = (if x = bond_acct ''q'' then 50000 else 0) - (if x = ''dan'' then 50000 else 0)"
    by (rule funded_ledger [of 50000 "''dan''" "bond_acct ''q''" "''bond''" "''USD''"]) (simp_all add: bond_acct_def)
  have held: "balance_of es (hold_acct ''q'') ''USD'' = Inr (Mny 0 ''USD'')"
    using balance_of_all [OF es(2), of "hold_acct ''q''" "''USD''"] by (simp add: sums) (simp add: hold_acct_def)
  have v: "verify_assertion ?K ?doc (make_assertion ?K (JBool True) k dispute_origin dispute_rp True True) dispute_origin dispute_rp k True
      = Inr (True, AOk)" for k
    by (simp add: make_assertion_def Let_def verify_assertion_def field64_def jget_def jstr_def dispute_crypto_def toy_crypto_def
        authenticator_data_def is_obj_def challenge_for_def nth_append byte_def flag_up_def flag_uv_def)
  have n: "count_approvals ?K ?doc ?as ?arb = Inr 2"
    by (simp add: count_approvals_def count_approval_def v)
  let ?ps = "[mk_posting (hold_acct ''q'') (Mny 0 ''USD''), mk_posting ''dan'' (Mny 0 ''USD''),
      mk_posting (bond_acct ''q'') (Mny (- 50000) ''USD''), mk_posting ''dan'' (Mny 50000 ''USD'')]"
  have "\<exists>es'. post (sha_hex ?K) es ?ps memo = Inr es'" for memo
    by (rule post_returns) (use es in \<open>auto simp: pval_mk_posting intro!: well_formed_mk_posting\<close>)
  then obtain es' where po: "post (sha_hex ?K) es ?ps (''dispute-resolve:'' @ ''upheld'' @ '':'' @ take 16 ''q'') = Inr es'" by blast
  have r: "resolve ?K es ?doc ?as 2 ''pay'' ''dan'' ''q'' [] ?arb = Inr (es', demote ''pay'' [], Resolved ''upheld'' 2)"
    unfolding resolve_def n bindR_Inr
    using po by (simp add: jget_or_def jget_def jhas_def obj_members_def str_of_json_def es(2) held verdict_postings_def money_neg_eq)
  from dispute_needs_quorum [OF r, of "''USD''"] r show ?thesis
    by (intro exI conjI) (auto simp: sums jget_or_def jhas_def obj_members_def bond_acct_def hold_acct_def)
qed

end
