(* ===== verification/Throughput.thy ===== *)
theory Throughput
  imports Escrow Checkpoint Principals
begin

text \<open>
  Group commit and checkpoint resume (\<open>src/infra/settle/throughput.py\<close>) and the balance root of the
  ledger (\<open>reward_ledger.balance_root\<close>). A commit is modelled with what it leaves behind when it raises:
  the writer after the call, beside the result or the exception.
\<close>

section \<open>Balance roots\<close>

type_synonym balance_item = "string \<times> string \<times> string"

definition item_key :: "balance_item \<Rightarrow> string \<times> string" where
  "item_key t = (case t of (a, c, _) \<Rightarrow> (a, c))"

definition balance_leaf :: "(string \<Rightarrow> string) \<Rightarrow> balance_item \<Rightarrow> string" where
  "balance_leaf Hb t = (case t of (a, c, amt) \<Rightarrow> Hb (a @ ''|'' @ c @ ''|'' @ amt))"

definition balances_root :: "(string \<Rightarrow> string) \<Rightarrow> balance_item list \<Rightarrow> string" where
  "balances_root Hb items = hex_text (merkle_root Hb (map (balance_leaf Hb) (sort_key item_key items)))"

definition items_of :: "balance_map \<Rightarrow> balance_item list" where
  "items_of bal = map (\<lambda>((a, c), m). (a, c, amount_str m)) bal"

definition balance_root :: "(string \<Rightarrow> string) \<Rightarrow> entry list \<Rightarrow> string res" where
  "balance_root Hb es = bindR (balances es) (\<lambda>bal. Inr (balances_root Hb (items_of bal)))"

definition ckpt_json :: "(string \<Rightarrow> string) \<Rightarrow> balance_map \<Rightarrow> int \<Rightarrow> json" where
  "ckpt_json Hb bal n =
     JObj [(''root'', JStr (balances_root Hb (items_of bal))),
           (''balances'', JObj (foldl (\<lambda>d (a, c, amt). dput (a @ ''|'' @ c) (JStr amt) d) [] (items_of bal))),
           (''committed'', JInt n)]"

definition checkpoint_of :: "(string \<Rightarrow> string) \<Rightarrow> entry list \<Rightarrow> json res" where
  "checkpoint_of Hb es =
     bindR (balances es) (\<lambda>bal.
       Inr (ckpt_json Hb bal (int (length (filter (\<lambda>e. entry_memo e \<noteq> None) es)))))"

section \<open>The writer\<close>

record writer =
  w_entries :: "entry list"
  w_cur :: string
  w_staged :: "posting list list"
  w_bal :: balance_map
  w_committed :: nat

definition new_writer :: "entry list \<Rightarrow> string \<Rightarrow> writer res" where
  "new_writer es cur =
     bindR (balances es) (\<lambda>bal.
       Inr \<lparr>w_entries = es, w_cur = cur, w_staged = [], w_bal = bal, w_committed = 0\<rparr>)"

definition stage :: "writer \<Rightarrow> posting list \<Rightarrow> writer \<times> nat" where
  "stage w ps = (w \<lparr>w_staged := w_staged w @ [ps]\<rparr>, length (w_staged w) + 1)"

text \<open>The check of the whole batch, before anything is appended.\<close>

definition check_set :: "string \<Rightarrow> posting list \<Rightarrow> unit res" where
  "check_set cur ps =
     bindR (is_balanced ps) (\<lambda>ok.
       if \<not> ok then Inl ValueError
       else if \<exists>p \<in> set ps. pcur p \<noteq> cur then Inl ValueError else Inr ())"

definition check_batch :: "string \<Rightarrow> posting list list \<Rightarrow> unit res" where
  "check_batch cur batch = foldR (\<lambda>_ ps. check_set cur ps) () batch"

text \<open>The running balances, one posting at a time, up to the first that raises.\<close>

fun fold_running :: "balance_map \<Rightarrow> posting list \<Rightarrow> balance_map \<times> py_error option" where
  "fold_running bal [] = (bal, None)"
| "fold_running bal (p # ps) =
     (case add_money bal (account p, pcur p) (pcur p) (money_of (AStr (amount_s p)) (pcur p)) of
        Inl e \<Rightarrow> (bal, Some e)
      | Inr bal' \<Rightarrow> fold_running bal' ps)"

fun append_batch :: "(string \<Rightarrow> string) \<Rightarrow> string \<Rightarrow> writer \<Rightarrow> posting list list \<Rightarrow> writer \<times> py_error option" where
  "append_batch H memo w [] = (w, None)"
| "append_batch H memo w (ps # batch) =
     (case post H (w_entries w) ps memo of
        Inl e \<Rightarrow> (w, Some e)
      | Inr es \<Rightarrow>
          (case fold_running (w_bal w) ps of
             (bal, None) \<Rightarrow> append_batch H memo (w \<lparr>w_entries := es, w_bal := bal\<rparr>) batch
           | (bal, Some e) \<Rightarrow> (w \<lparr>w_entries := es, w_bal := bal\<rparr>, Some e)))"

text \<open>Only a \<open>ValueError\<close> of the check drops the batch.\<close>

definition commit :: "(string \<Rightarrow> string) \<Rightarrow> writer \<Rightarrow> string \<Rightarrow> writer \<times> nat res" where
  "commit H w memo =
     (if w_staged w = [] then (w, Inr (w_committed w))
      else case check_batch (w_cur w) (w_staged w) of
        Inl e \<Rightarrow> (if e = ValueError then w \<lparr>w_staged := []\<rparr> else w, Inl e)
      | Inr _ \<Rightarrow>
          (case append_batch H memo w (w_staged w) of
             (w', Some e) \<Rightarrow> (w', Inl e)
           | (w', None) \<Rightarrow>
               let n = w_committed w + length (w_staged w)
               in (w' \<lparr>w_committed := n, w_staged := []\<rparr>, Inr n)))"

definition writer_checkpoint :: "(string \<Rightarrow> string) \<Rightarrow> writer \<Rightarrow> json" where
  "writer_checkpoint Hb w = ckpt_json Hb (w_bal w) (int (w_committed w))"

section \<open>Resume\<close>

text \<open>\<open>k.rsplit("|", 1)\<close>, which needs a bar.\<close>

definition rsplit_bar :: "string \<Rightarrow> (string \<times> string) res" where
  "rsplit_bar k =
     (if CHR ''|'' \<notin> set k then Inl IndexError
      else let c = rev (takeWhile (\<lambda>x. x \<noteq> CHR ''|'') (rev k)) in Inr (take (length k - length c - 1) k, c))"

definition decimal_value :: "json \<Rightarrow> rat res" where
  "decimal_value v = (case decimal_of_str (py_str v) of None \<Rightarrow> Inl InvalidOperation | Some d \<Rightarrow> Inr d)"

definition conserves :: "(string \<times> string \<times> json) list \<Rightarrow> bool res" where
  "conserves items =
     bindR (foldR (\<lambda>d (_, c, v). bindR (decimal_value v) (\<lambda>x. Inr (dput c (rnd28 (dget_default d c 0 + x)) d))) [] items)
       (\<lambda>by_cur. Inr (\<forall>s \<in> snd ` set by_cur. s = 0))"

definition resume_verify :: "(string \<Rightarrow> string) \<Rightarrow> json \<Rightarrow> bool res" where
  "resume_verify Hb ckpt =
     (if \<not> is_obj ckpt \<or> \<not> jhas ckpt ''root'' \<or> \<not> jhas ckpt ''balances'' then Inr False
      else if \<not> is_obj (jget ckpt ''balances'') then Inl AttributeError
      else bindR (mapR (\<lambda>(k, v). bindR (rsplit_bar k) (\<lambda>(a, c). Inr (a, c, v))) (obj_members (jget ckpt ''balances''))) (\<lambda>items.
        if JStr (balances_root Hb (map (\<lambda>(a, c, v). (a, c, py_str v)) items)) \<noteq> jget ckpt ''root'' then Inr False
        else conserves items))"

section \<open>A commit is all or nothing\<close>

lemma fold_running_foldR:
  "fold_running bal ps = (bal', None) \<longleftrightarrow>
   foldR (\<lambda>bal p. add_money bal (account p, pcur p) (pcur p) (money_of (AStr (amount_s p)) (pcur p))) bal ps = Inr bal'"
  by (induction ps arbitrary: bal) (auto split: sum.splits)

lemma balances_snoc:
  assumes "balances es = Inr bal" and "fold_running bal (entry_postings e) = (bal', None)"
  shows "balances (es @ [e]) = Inr bal'"
  using assms by (simp add: balances_def foldR_append fold_running_foldR)

lemma check_batch_ok: "check_batch cur batch = Inr () \<Longrightarrow> ps \<in> set batch \<Longrightarrow> is_balanced ps = Inr True"
  by (induction batch) (auto simp: check_batch_def check_set_def bindR_eq_Inr split: if_splits)

lemma running_returns:
  assumes "balances es = Inr bal" and "\<forall>p \<in> set ps. well_formed_posting p"
    and "weight_of (all_postings es) + weight_of ps < 10 ^ 34"
  shows "\<exists>bal'. fold_running bal ps = (bal', None)"
proof -
  have "\<bar>sum_list (map pval (filter P qs))\<bar> \<le> weight_of qs" for P qs by (induction qs) auto
  then have le: "\<bar>acct_sum es a c\<bar> \<le> weight_of (all_postings es)" for a c
    by (simp add: acct_sum_def post_sum_def)
  have "\<bar>acct_sum es (fst k) (snd k)\<bar> + weight_of ps < 10 ^ 34" for k
    using assms(3) le [of "fst k" "snd k"] by linarith
  from fold_postings_ok [OF balances_agrees(1) [OF assms(1)] _ assms(2), of "\<lambda>p. (account p, pcur p)"] this
  show ?thesis unfolding fold_running_foldR by simp
qed

text \<open>One appended set keeps the running balances equal to the fold over the chain.\<close>

lemma append_batch_effect:
  assumes "balances (w_entries w) = Inr (w_bal w)" and "w_entries w \<noteq> []"
    and "\<And>ps. ps \<in> set batch \<Longrightarrow> is_balanced ps = Inr True"
    and "\<forall>p \<in> set (concat batch). well_formed_posting p"
    and "weight_of (all_postings (w_entries w)) + weight_of (concat batch) < 10 ^ 34"
  shows "\<exists>w' new. append_batch H memo w batch = (w', None) \<and> w_entries w' = w_entries w @ new
     \<and> map entry_postings new = batch \<and> (\<forall>e \<in> set new. entry_memo e = Some memo)
     \<and> balances (w_entries w') = Inr (w_bal w') \<and> w_staged w' = w_staged w \<and> w_committed w' = w_committed w \<and> w_cur w' = w_cur w"
  using assms
proof (induction batch arbitrary: w)
  case Nil
  then show ?case by simp
next
  case (Cons ps batch)
  let ?e = "\<lparr>body = PostingSet ps memo, seq = seq (last (w_entries w)) + 1,
      prev = digest H (link_of (entry_json (last (w_entries w))))\<rparr>"
  have p: "post H (w_entries w) ps memo = Inr (w_entries w @ [?e])"
    using Cons.prems(2,3) by (auto simp: post_eq_Inr)
  have nn: "0 \<le> weight_of qs" for qs by (induction qs) auto
  have "weight_of (all_postings (w_entries w)) + weight_of ps < 10 ^ 34"
    using Cons.prems(5) nn [of "concat batch"] by simp
  then obtain bal where bal: "fold_running (w_bal w) ps = (bal, None)"
    using running_returns [OF Cons.prems(1), of ps] Cons.prems(4) by auto
  let ?w = "w \<lparr>w_entries := w_entries w @ [?e], w_bal := bal\<rparr>"
  have b1: "balances (w_entries ?w) = Inr (w_bal ?w)"
    using balances_snoc [OF Cons.prems(1), of ?e bal] bal by (simp add: entry_postings_def)
  have "all_postings (w_entries ?w) = all_postings (w_entries w) @ ps" by (simp add: all_postings_def entry_postings_def)
  then have "weight_of (all_postings (w_entries ?w)) + weight_of (concat batch) < 10 ^ 34" using Cons.prems(5) by simp
  from Cons.IH [OF b1 _ _ _ this] Cons.prems(3,4)
  obtain w' new where n: "append_batch H memo ?w batch = (w', None)" "w_entries w' = w_entries ?w @ new"
    "map entry_postings new = batch" "\<forall>e \<in> set new. entry_memo e = Some memo" "balances (w_entries w') = Inr (w_bal w')"
    "w_staged w' = w_staged w" "w_committed w' = w_committed w" "w_cur w' = w_cur w" by auto
  have "entry_postings ?e = ps" "entry_memo ?e = Some memo" by (simp_all add: entry_postings_def entry_memo_def)
  then show ?case
    by (intro exI [of _ w'] exI [of _ "?e # new"]) (use p bal n in simp)
qed

definition good_set :: "string \<Rightarrow> posting list \<Rightarrow> bool" where
  "good_set cur ps \<longleftrightarrow> (\<forall>c. cur_sum ps c = 0) \<and> (\<forall>p \<in> set ps. pcur p = cur)"

lemma check_batch_eq:
  assumes "\<forall>p \<in> set (concat batch). well_formed_posting p" and "weight_of (concat batch) < 10 ^ 34"
  shows "check_batch cur batch = (if \<forall>ps \<in> set batch. good_set cur ps then Inr () else Inl ValueError)"
  using assms
proof (induction batch)
  case (Cons ps batch)
  have nn: "0 \<le> weight_of qs" for qs by (induction qs) auto
  have "is_balanced ps = Inr (\<forall>c. cur_sum ps c = 0)"
    using Cons.prems nn [of "concat batch"] by (intro is_balanced_returns) auto
  then have c: "check_set cur ps = (if good_set cur ps then Inr () else Inl ValueError)"
    by (auto simp: check_set_def good_set_def)
  have "check_batch cur batch = (if \<forall>ps \<in> set batch. good_set cur ps then Inr () else Inl ValueError)"
    using Cons.prems nn [of ps] by (intro Cons.IH) auto
  then show ?case using c by (simp add: check_batch_def)
qed (simp add: check_batch_def)

text \<open>
  C29: a group commit is all or nothing. When every staged set balances and is in the writer's currency,
  exactly the staged sets are appended, in order, the running balances are again the balances of the
  chain and the writer's checkpoint carries the chain's own balance root; otherwise the call raises and
  only the stage is emptied.
\<close>

theorem group_commit_atomic:
  assumes "balances (w_entries w) = Inr (w_bal w)" and "w_entries w \<noteq> []"
    and "\<forall>p \<in> set (concat (w_staged w)). well_formed_posting p"
    and "weight_of (all_postings (w_entries w)) + weight_of (concat (w_staged w)) < 10 ^ 34"
  shows "if \<forall>ps \<in> set (w_staged w). good_set (w_cur w) ps
    then \<exists>w' new. commit H w memo = (w', Inr (w_committed w + length (w_staged w)))
           \<and> w_entries w' = w_entries w @ new \<and> map entry_postings new = w_staged w
           \<and> list_all (\<lambda>e. entry_memo e = Some memo) new \<and> w_staged w' = []
           \<and> balances (w_entries w') = Inr (w_bal w')
           \<and> map_sum id JStr (balance_root Hb (w_entries w')) = Inr (jget (writer_checkpoint Hb w') ''root'')
    else commit H w memo = (w \<lparr>w_staged := []\<rparr>, Inl ValueError)"
proof -
  have nn: "0 \<le> weight_of qs" for qs by (induction qs) auto
  have small: "weight_of (concat (w_staged w)) < 10 ^ 34" using assms(4) nn [of "all_postings (w_entries w)"] by simp
  note check = check_batch_eq [OF assms(3) small, of "w_cur w"]
  have root: "map_sum id JStr (balance_root Hb (w_entries v)) = Inr (jget (writer_checkpoint Hb v) ''root'')"
    if "balances (w_entries v) = Inr (w_bal v)" for v
    using that by (simp add: balance_root_def writer_checkpoint_def ckpt_json_def jget_def)
  show ?thesis
  proof (cases "\<forall>ps \<in> set (w_staged w). good_set (w_cur w) ps")
    case True
    show ?thesis
    proof (cases "w_staged w = []")
      case True
      then show ?thesis using assms(1) root [of w] by (auto simp: commit_def intro!: exI [of _ w])
    next
      case False
      have "is_balanced ps = Inr True" if "ps \<in> set (w_staged w)" for ps
        using check True that check_batch_ok by simp
      from append_batch_effect [OF assms(1,2) this assms(3,4), of H memo]
      obtain w' new where n: "append_batch H memo w (w_staged w) = (w', None)" "w_entries w' = w_entries w @ new"
        "map entry_postings new = w_staged w" "\<forall>e \<in> set new. entry_memo e = Some memo"
        "balances (w_entries w') = Inr (w_bal w')" by auto
      let ?v = "w' \<lparr>w_committed := w_committed w + length (w_staged w), w_staged := []\<rparr>"
      have "commit H w memo = (?v, Inr (w_committed w + length (w_staged w)))"
        using False True check n(1) by (simp add: commit_def Let_def)
      then show ?thesis using True n root [of ?v] by (auto simp: list_all_iff)
    qed
  next
    case False
    then have "w_staged w \<noteq> []" and "check_batch (w_cur w) (w_staged w) = Inl ValueError"
      using check by auto
    then show ?thesis unfolding if_not_P [OF False] by (simp add: commit_def)
  qed
qed

theorem group_commit_atomic_witness:
  "\<exists>w w'. length (w_staged w) = 2 \<and> commit (\<lambda>s. s) w ''m'' = (w', Inr 2) \<and> length (w_entries w') = length (w_entries w) + 2"
proof -
  let ?ps = "\<lambda>u. [mk_posting ''x'' (Mny (- u) ''USD''), mk_posting ''y'' (Mny u ''USD'')]"
  let ?w = "\<lparr>w_entries = open_ledger ''r'' ''p'', w_cur = ''USD'', w_staged = [?ps 10000, ?ps 25000], w_bal = [], w_committed = 0\<rparr>"
  have "balances (w_entries ?w) = Inr (w_bal ?w)" "all_postings (w_entries ?w) = []"
    by (simp_all add: balances_def open_ledger_def entry_postings_def all_postings_def)
  then have "if \<forall>ps \<in> set (w_staged ?w). good_set (w_cur ?w) ps
    then \<exists>w' new. commit (\<lambda>s. s) ?w ''m'' = (w', Inr (w_committed ?w + length (w_staged ?w)))
           \<and> w_entries w' = w_entries ?w @ new \<and> map entry_postings new = w_staged ?w
           \<and> list_all (\<lambda>e. entry_memo e = Some ''m'') new \<and> w_staged w' = []
           \<and> balances (w_entries w') = Inr (w_bal w')
           \<and> map_sum id JStr (balance_root (\<lambda>s. s) (w_entries w')) = Inr (jget (writer_checkpoint (\<lambda>s. s) w') ''root'')
    else commit (\<lambda>s. s) ?w ''m'' = (?w \<lparr>w_staged := []\<rparr>, Inl ValueError)"
    by (intro group_commit_atomic)
      (auto simp: open_ledger_def pval_mk_posting intro!: well_formed_mk_posting)
  moreover have "\<forall>ps \<in> set (w_staged ?w). good_set (w_cur ?w) ps"
    by (simp add: good_set_def pval_mk_posting)
  ultimately obtain w' new where "commit (\<lambda>s. s) ?w ''m'' = (w', Inr 2)" "w_entries w' = w_entries ?w @ new" "map entry_postings new = w_staged ?w"
    by (auto simp: numeral_2_eq_2)
  then show ?thesis by (intro exI [of _ ?w] exI [of _ w']) (auto dest!: arg_cong [where f = length])
qed

end
