(* ===== verification/Fmv.thy ===== *)
theory Fmv
  imports Escrow
begin

text \<open>
  The fair-market-value index (\<open>src/infra/settle/fmv.py\<close>) and the reputation table
  (\<open>reputation.py\<close>). Quotients and differences are rounded to the 28 digits of the default decimal
  context, as the code computes them.
\<close>

section \<open>The index\<close>

record trade =
  t_price :: money_arg
  t_volume :: int
  t_control :: string

type_synonym priced = "(money \<times> int) list"

definition vol_sum :: "priced \<Rightarrow> int" where "vol_sum pvs = sum_list (map snd pvs)"

text \<open>The entries with volume, by price; Python's sort is stable.\<close>

definition by_price :: "priced \<Rightarrow> priced" where
  "by_price pvs = sort_key (\<lambda>pv. units (fst pv)) (filter (\<lambda>pv. 0 < snd pv) pvs)"

fun median_scan :: "rat \<Rightarrow> int \<Rightarrow> priced \<Rightarrow> money option" where
  "median_scan half cum [] = None"
| "median_scan half cum ((p, v) # r) = (if half \<le> of_int (cum + v) then Some p else median_scan half (cum + v) r)"

definition vw_median :: "priced \<Rightarrow> money" where
  "vw_median pvs =
     (let items = by_price pvs in
      if items = [] then Mny 0 ''USD''
      else case median_scan (rnd28 (of_int (vol_sum items) / 2)) 0 items of
             Some p \<Rightarrow> p | None \<Rightarrow> fst (last items))"

definition group_controls :: "trade list \<Rightarrow> (string, priced) dict res" where
  "group_controls ts =
     foldR (\<lambda>d t. bindR (money_of (t_price t) ''USD'') (\<lambda>p.
       Inr (dput (t_control t) (dget_default d (t_control t) [] @ [(p, t_volume t)]) d))) [] ts"

definition collapse_controls :: "trade list \<Rightarrow> priced res" where
  "collapse_controls ts =
     bindR (group_controls ts) (\<lambda>d.
       let tot = sum_list (map (\<lambda>kv. vol_sum (snd kv)) d);
           cap = max 1 (tot div max 1 (int (length d)))
       in Inr (map (\<lambda>kv. (vw_median (snd kv), min (vol_sum (snd kv)) cap)) d))"

definition trim_fraction :: rat where "trim_fraction = 1 / 10"

fun trim_scan :: "rat \<Rightarrow> rat \<Rightarrow> int \<Rightarrow> priced \<Rightarrow> priced" where
  "trim_scan lo hi cum [] = []"
| "trim_scan lo hi cum ((p, v) # r) =
     (let kept = rnd28 (min (of_int (cum + v)) hi - max (of_int cum) lo)
      in (if 0 < kept then [(p, \<lfloor>kept\<rfloor>)] else []) @ trim_scan lo hi (cum + v) r)"

definition trim :: "priced \<Rightarrow> priced" where
  "trim pvs =
     (let items = by_price pvs; tot = of_int (vol_sum items) in
      if vol_sum items = 0 then items
      else let out = trim_scan (rnd28 (tot * trim_fraction)) (rnd28 (tot * rnd28 (1 - trim_fraction))) 0 items
           in if out = [] then items else out)"

definition gap_fraction :: rat where "gap_fraction = 1 / 2"

fun split_gap :: "rat \<Rightarrow> int \<Rightarrow> rat \<Rightarrow> priced \<Rightarrow> rat" where
  "split_gap tot cum best ((p, v) # (q, w) # r) =
     (let frac = rnd28 (of_int (cum + v) / tot);
          gap = rnd28 (amount q - amount p)
      in split_gap tot (cum + v) (if 1/4 \<le> frac \<and> frac \<le> 3/4 then max best gap else best) ((q, w) # r))"
| "split_gap tot cum best r = best"

definition is_multimodal :: "priced \<Rightarrow> bool" where
  "is_multimodal pvs =
     (let items = by_price pvs in
      if length items < 2 then False
      else let prange = rnd28 (amount (fst (last items)) - amount (fst (hd items))) in
        if prange = 0 then False
        else gap_fraction \<le> rnd28 (split_gap (of_int (vol_sum items)) 0 0 items / prange))"

record fmv =
  f_index :: money
  f_n :: nat
  f_controllers :: nat
  f_multimodal :: bool
  f_admitted :: bool
  f_reason :: string

definition admission_n :: nat where "admission_n = 20"
definition admission_distinct :: nat where "admission_distinct = 8"

definition fmv_index :: "trade list \<Rightarrow> fmv res" where
  "fmv_index ts =
     bindR (collapse_controls ts) (\<lambda>collapsed.
       let distinct_n = card (set (map t_control ts)); multi = is_multimodal collapsed;
           admitted = (admission_n \<le> length ts \<and> admission_distinct \<le> distinct_n \<and> \<not> multi)
       in Inr \<lparr>f_index = vw_median (trim collapsed), f_n = length ts, f_controllers = distinct_n, f_multimodal = multi,
               f_admitted = admitted,
               f_reason = (if multi then ''multimodal_needs_class_split'' else if admitted then ''ok'' else ''below_admission'')\<rparr>)"

section \<open>Reputation\<close>

definition payee_prefix :: string where "payee_prefix = ''payee:''"

text \<open>The credits of one posting; the currency is not looked at.\<close>

definition add_credit :: "(string, rat list) dict \<Rightarrow> posting \<Rightarrow> (string, rat list) dict res" where
  "add_credit d p =
     bindR (money_of (AStr (amount_s p)) ''USD'') (\<lambda>m.
       let n = drop (length payee_prefix) (account p)
       in Inr (if starts_with (account p) payee_prefix \<and> 0 < units m then dput n (dget_default d n [] @ [amount m]) d else d))"

definition payee_credits :: "entry list \<Rightarrow> (string, rat list) dict res" where
  "payee_credits es = foldR add_credit [] (all_postings es)"

record rep_row =
  settlement_count :: nat
  settled_total :: rat
  rep_score :: int

record scores =
  sc_principals :: "(string, rep_row) dict"
  sc_fmv_point :: rat
  sc_n :: nat

definition median :: "rat list \<Rightarrow> rat" where
  "median xs =
     (let n = length xs in
      if odd n then xs ! (n div 2) else rnd28 (rnd28 (xs ! (n div 2 - 1) + xs ! (n div 2)) / 2))"

text \<open>\<open>int\<close> of a decimal cuts towards zero.\<close>

definition trunc :: "rat \<Rightarrow> int" where "trunc x = (if x < 0 then - \<lfloor>- x\<rfloor> else \<lfloor>x\<rfloor>)"

definition rep_row_of :: "rat list \<Rightarrow> rep_row" where
  "rep_row_of v = \<lparr>settlement_count = length v, settled_total = dsum v, rep_score = int (length v) * 10 + trunc (dsum v)\<rparr>"

definition compute_scores :: "entry list \<Rightarrow> scores res" where
  "compute_scores es =
     bindR (payee_credits es) (\<lambda>credits.
       let all_credits = sort (concat (map snd credits))
       in Inr \<lparr>sc_principals = map (\<lambda>(n, v). (n, rep_row_of v)) (sort_key fst credits),
               sc_fmv_point = (if all_credits = [] then 0 else median all_credits), sc_n = length credits\<rparr>)"

datatype rep_view =
    Detail "(string, rep_row) dict" rat
  | Aggregate nat rat int

definition rep_view_of :: "scores \<Rightarrow> string \<Rightarrow> string list \<Rightarrow> rep_view" where
  "rep_view_of s requester counterparties =
     (if requester \<in> set counterparties then Detail (sc_principals s) (sc_fmv_point s)
      else Aggregate (sc_n s) (sc_fmv_point s) (sum_list (map (\<lambda>kv. rep_score (snd kv)) (sc_principals s))))"

section \<open>The median resists a minority\<close>

lemma vol_sum_simps [simp]:
  "vol_sum [] = 0" "vol_sum (x # xs) = snd x + vol_sum xs" "vol_sum (xs @ ys) = vol_sum xs + vol_sum ys"
  by (simp_all add: vol_sum_def)

lemma median_scan_split:
  assumes "half \<le> of_int (cum + vol_sum items)" and "items \<noteq> []"
  shows "\<exists>xs p v ys. items = xs @ (p, v) # ys \<and> median_scan half cum items = Some p
     \<and> half \<le> of_int (cum + vol_sum xs + v) \<and> (xs = [] \<or> of_int (cum + vol_sum xs) < half)"
  using assms
proof (induction items arbitrary: cum)
  case (Cons x items)
  obtain p v where x: "x = (p, v)" by (cases x)
  show ?case
  proof (cases "half \<le> of_int (cum + v)")
    case True
    then show ?thesis using x by (intro exI [of _ "[]"] exI [of _ p] exI [of _ v] exI [of _ items]) simp
  next
    case False
    have ne: "items \<noteq> []" using Cons.prems(1) False x by auto
    have "half \<le> of_int ((cum + v) + vol_sum items)" using Cons.prems(1) x by (simp add: add.assoc)
    from Cons.IH [OF this ne] obtain xs q w ys where i: "items = xs @ (q, w) # ys" "median_scan half (cum + v) items = Some q"
      "half \<le> of_int (cum + v + vol_sum xs + w)" "xs = [] \<or> of_int (cum + v + vol_sum xs) < half" by blast
    have "of_int (cum + v + vol_sum xs) < half" using i(4) False by auto
    then show ?thesis using i x False
      by (intro exI [of _ "(p, v) # xs"] exI [of _ q] exI [of _ w] exI [of _ ys]) (simp add: add.assoc)
  qed
qed simp

lemma vol_sum_nonneg: "\<forall>pv \<in> set xs. 0 < snd pv \<Longrightarrow> 0 \<le> vol_sum xs"
  by (induction xs) auto

lemma vol_sum_filter_le:
  "\<forall>pv \<in> set xs. 0 < snd pv \<Longrightarrow> (\<And>pv. pv \<in> set xs \<Longrightarrow> P pv) \<Longrightarrow> vol_sum (filter P xs) = vol_sum xs"
  by (simp add: filter_id_conv [THEN iffD2])

definition volume_where :: "(money \<Rightarrow> bool) \<Rightarrow> priced \<Rightarrow> int" where
  "volume_where P pvs = vol_sum (filter (\<lambda>pv. P (fst pv) \<and> 0 < snd pv) pvs)"

lemma sum_list_sort_key: "sum_list (map f (sort_key k xs)) = sum_list (map (f :: _ \<Rightarrow> int) xs)"
proof -
  have "sum_list (map f (insort_key k x ys)) = f x + sum_list (map f ys)" for x ys by (induction ys) auto
  then show ?thesis by (induction xs) auto
qed

lemma volume_by_price: "vol_sum (filter (\<lambda>pv. P (fst pv)) (by_price pvs)) = volume_where P pvs"
  by (simp add: by_price_def volume_where_def vol_sum_def filter_sort sum_list_sort_key)
    (simp add: conj_commute)

text \<open>
  The volume-weighted median stays within any price band outside of which less than half of the volume
  trades, whatever prices that minority quotes.
\<close>

theorem median_resists_minority:
  assumes "2 * volume_where (\<lambda>p. \<not> (lo \<le> units p \<and> units p \<le> hi)) pvs < volume_where (\<lambda>_. True) pvs"
    and "volume_where (\<lambda>_. True) pvs < 10 ^ 24"
  shows "lo \<le> units (vw_median pvs) \<and> units (vw_median pvs) \<le> hi"
proof -
  let ?items = "by_price pvs" and ?T = "volume_where (\<lambda>_. True) pvs"
  let ?out = "\<lambda>p. \<not> (lo \<le> units p \<and> units p \<le> hi)"
  have T: "vol_sum ?items = ?T" using volume_by_price [of "\<lambda>_. True" pvs] by simp
  have out: "vol_sum (filter (\<lambda>pv. ?out (fst pv)) ?items) = volume_where ?out pvs" by (rule volume_by_price)
  have pos: "\<forall>pv \<in> set ?items. 0 < snd pv" by (simp add: by_price_def)
  have sorted: "sorted (map (\<lambda>pv. units (fst pv)) ?items)" by (simp add: by_price_def)
  have "0 \<le> vol_sum (filter (\<lambda>pv. ?out (fst pv)) ?items)" using pos by (intro vol_sum_nonneg) simp
  then have Tpos: "0 < ?T" using assms(1) out by simp
  then have ne: "?items \<noteq> []" using T by auto
  have "rnd28 (of_int (5000 * ?T) / 10000) = of_int (5000 * ?T) / 10000"
    using assms(2) Tpos by (intro rnd28_units) simp
  then have half: "rnd28 (of_int (vol_sum ?items) / 2) = of_int ?T / 2" by (simp add: T field_simps)
  have "(of_int ?T / 2 :: rat) \<le> of_int (0 + vol_sum ?items)" using Tpos T by simp
  from median_scan_split [OF this ne] obtain xs p v ys where i: "?items = xs @ (p, v) # ys" "median_scan (of_int ?T / 2) 0 ?items = Some p"
    "(of_int ?T / 2 :: rat) \<le> of_int (0 + vol_sum xs + v)" "xs = [] \<or> of_int (0 + vol_sum xs) < (of_int ?T / 2 :: rat)"
    by blast
  have m: "vw_median pvs = p" using ne i(2) unfolding vw_median_def Let_def half by simp
  have "(of_int ?T :: rat) \<le> of_int (2 * (vol_sum xs + v))" using i(3) by simp
  then have ge: "?T \<le> 2 * (vol_sum xs + v)" by (simp only: of_int_le_iff)
  have "xs = [] \<or> (of_int (2 * vol_sum xs) :: rat) < of_int ?T" using i(4) by auto
  then have lt: "xs = [] \<or> 2 * vol_sum xs < ?T" by (simp only: of_int_less_iff)
  have px: "\<forall>pv \<in> set xs. 0 < snd pv" "\<forall>pv \<in> set ys. 0 < snd pv" using pos i(1) by auto
  have le: "\<forall>pv \<in> set xs. units (fst pv) \<le> units p" "\<forall>pv \<in> set ys. units p \<le> units (fst pv)"
    using sorted i(1) by (auto simp: sorted_append)
  have tot: "?T = vol_sum xs + v + vol_sum ys" using T i(1) by simp
  have nn: "0 \<le> vol_sum (filter P xs)" "0 \<le> vol_sum (filter P ys)" for P using px by (simp_all add: vol_sum_nonneg)
  have o: "volume_where ?out pvs = vol_sum (filter (\<lambda>pv. ?out (fst pv)) xs) + (if ?out p then v else 0) + vol_sum (filter (\<lambda>pv. ?out (fst pv)) ys)"
    using out i(1) by (cases "?out p") simp_all
  show ?thesis
  proof (rule ccontr)
    assume c: "\<not> ?thesis"
    show False
    proof (cases "units p < lo")
      case True
      then have "vol_sum (filter (\<lambda>pv. ?out (fst pv)) xs) = vol_sum xs" using px(1) le(1) by (intro vol_sum_filter_le) auto
      then show False using o nn(2) [of "\<lambda>pv. ?out (fst pv)"] ge assms(1) True by auto
    next
      case False
      then have hi: "hi < units p" using c m by auto
      then have "vol_sum (filter (\<lambda>pv. ?out (fst pv)) ys) = vol_sum ys" using px(2) le(2) by (intro vol_sum_filter_le) auto
      then show False using o nn(1) [of "\<lambda>pv. ?out (fst pv)"] lt tot assms(1) hi Tpos by auto
    qed
  qed
qed

text \<open>The public view names no principal.\<close>

lemma stranger_sees_aggregates:
  "requester \<notin> set counterparties \<Longrightarrow> sc_n s = sc_n s' \<Longrightarrow> sc_fmv_point s = sc_fmv_point s' \<Longrightarrow>
   sum_list (map (\<lambda>kv. rep_score (snd kv)) (sc_principals s)) = sum_list (map (\<lambda>kv. rep_score (snd kv)) (sc_principals s')) \<Longrightarrow>
   rep_view_of s requester counterparties = rep_view_of s' requester counterparties"
  by (simp add: rep_view_of_def)

text \<open>A market of a single unit of volume has the index zero: the trim leaves less than a unit.\<close>

lemma thin_market_index_zero:
  "fmv_index [\<lparr>t_price = AInt 5, t_volume = 1, t_control = ''c''\<rparr>]
   = Inr \<lparr>f_index = Mny 0 ''USD'', f_n = 1, f_controllers = 1, f_multimodal = False, f_admitted = False, f_reason = ''below_admission''\<rparr>"
proof -
  have m: "money_of (AInt 5) ''USD'' = Inr (Mny 50000 ''USD'')" using money_of_int [of 5 "''USD''"] by simp
  have r: "rnd28 (1 / 2) = 1 / 2" "rnd28 (1 / 10) = 1 / 10" "rnd28 (9 / 10) = 9 / 10" "rnd28 (4 / 5) = 4 / 5"
    using rnd28_units [of 5000] rnd28_units [of 1000] rnd28_units [of 9000] rnd28_units [of 8000] by simp_all
  have c: "collapse_controls [\<lparr>t_price = AInt 5, t_volume = 1, t_control = ''c''\<rparr>] = Inr [(Mny 50000 ''USD'', 1)]"
    by (simp add: r collapse_controls_def group_controls_def m dget_default_def vw_median_def by_price_def)
  have f: "\<lfloor>4 / 5 :: rat\<rfloor> = 0" by (simp add: floor_eq_iff)
  have "trim [(Mny 50000 ''USD'', 1)] = [(Mny 50000 ''USD'', 0)]"
    by (simp add: r f trim_def by_price_def trim_fraction_def)
  then show ?thesis using c by (simp add: fmv_index_def is_multimodal_def vw_median_def by_price_def admission_n_def)
qed

end
