(* ===== verification/Registry.thy ===== *)
theory Registry
  imports Principals
begin

text \<open>
  The skill registry: which directory a skill id leads to (\<open>src/infra/registry.py\<close>) and the
  authenticity index of a skill (\<open>src/infra/tool/skill_index.py\<close>). The operating system is the record
  \<open>os_fs\<close>: what \<open>os.path\<close>, \<open>os.listdir\<close>, \<open>os.walk\<close> and reading a file answer. \<open>H\<close> is the hexadecimal
  SHA-256, \<open>loads\<close> the JSON parser.
\<close>

section \<open>Paths and files\<close>

record os_fs =
  f_isdir :: "string \<Rightarrow> bool"
  f_isfile :: "string \<Rightarrow> bool"
  f_listdir :: "string \<Rightarrow> string list"
  f_read :: "string \<Rightarrow> string option"
  f_walk :: "string \<Rightarrow> (string list \<times> string) list"

text \<open>\<open>os.path.join(a, b)\<close>; \<open>f_walk d\<close> lists the files below \<open>d\<close> by their path segments, with their bytes.\<close>

definition os_join :: "string \<Rightarrow> string \<Rightarrow> string" where
  "os_join a b = (if starts_with b ''/'' \<or> a = [] then b else if List.last a = CHR ''/'' then a @ b else a @ ''/'' @ b)"

definition os_joins :: "string \<Rightarrow> string list \<Rightarrow> string" where
  "os_joins a bs = foldl os_join a bs"

definition perks_file :: "string \<Rightarrow> string" where
  "perks_file d = os_join d ''perks.json''"

section \<open>Skill ids\<close>

definition valid_name :: "string \<Rightarrow> bool" where
  "valid_name s \<longleftrightarrow> s \<notin> {[], ''.'', ''..''} \<and> CHR ''/'' \<notin> set s \<and> ch_back \<notin> set s"

definition valid_skill_name :: "json \<Rightarrow> bool" where
  "valid_skill_name v = (case v of JStr s \<Rightarrow> valid_name s | _ \<Rightarrow> False)"

definition source_groups :: "os_fs \<Rightarrow> string \<Rightarrow> string list" where
  "source_groups F chip =
     (if \<not> f_isdir F chip then []
      else filter (\<lambda>d. let p = os_join chip d in f_isdir F p \<and>
                       list_ex (\<lambda>s. f_isdir F (os_join p s) \<and> f_isfile F (perks_file (os_join p s))) (f_listdir F p))
             (sort (f_listdir F chip)))"

definition ambiguous_id :: string where "ambiguous_id = CHR 0x00 # ''AMBIGUOUS''"

text \<open>Namespace and name of an id; a second colon, or an id that is no text, has neither.\<close>

definition parse_skill_id :: "json \<Rightarrow> string option \<times> string option" where
  "parse_skill_id v =
     (case v of
        JStr s \<Rightarrow> (case split1 CHR '':'' s of
                     None \<Rightarrow> (None, Some s)
                   | Some (a, b) \<Rightarrow> if CHR '':'' \<in> set b then (None, None) else (Some a, Some b))
      | _ \<Rightarrow> (None, None))"

datatype skill_ref = BadRef | Spaced string string | Bare string

definition skill_ref_of :: "json \<Rightarrow> skill_ref" where
  "skill_ref_of v =
     (case parse_skill_id v of
        (_, None) \<Rightarrow> BadRef
      | (None, Some n) \<Rightarrow> if valid_name n then Bare n else BadRef
      | (Some a, Some n) \<Rightarrow> if valid_name n \<and> valid_name a then Spaced a n else BadRef)"

definition has_flat :: "os_fs \<Rightarrow> string \<Rightarrow> string \<Rightarrow> bool" where
  "has_flat F chip n \<longleftrightarrow> f_isfile F (perks_file (os_join chip n))"

definition owners :: "os_fs \<Rightarrow> string \<Rightarrow> string \<Rightarrow> string list" where
  "owners F chip n = filter (\<lambda>src. f_isfile F (perks_file (os_joins chip [src, n]))) (source_groups F chip)"

definition canonical_id :: "os_fs \<Rightarrow> string \<Rightarrow> json \<Rightarrow> string" where
  "canonical_id F chip v =
     (case skill_ref_of v of
        BadRef \<Rightarrow> ambiguous_id
      | Spaced ns n \<Rightarrow> ns @ '':'' @ n
      | Bare n \<Rightarrow>
          let flat = has_flat F chip n; own = owners F chip n
          in if flat \<and> own = [] then n
             else if 2 \<le> of_bool flat + length own then ambiguous_id
             else if own \<noteq> [] then hd own @ '':'' @ n
             else n)"

definition invalid_dir :: string where "invalid_dir = ''.__invalid_skill_id__''"
definition absent_dir :: string where "absent_dir = ''.__ambiguous_or_absent__''"

definition skill_dir :: "os_fs \<Rightarrow> string \<Rightarrow> json \<Rightarrow> string" where
  "skill_dir F chip v =
     (case skill_ref_of v of
        BadRef \<Rightarrow> os_join chip invalid_dir
      | Spaced ns n \<Rightarrow> os_joins chip [ns, n]
      | Bare n \<Rightarrow>
          let flat = has_flat F chip n; own = owners F chip n
          in if flat \<and> own = [] then os_join chip n
             else if \<not> flat \<and> length own = 1 then os_joins chip [hd own, n]
             else os_join chip absent_dir)"

definition source_for :: "string \<Rightarrow> string" where
  "source_for skill = (if starts_with skill ''cws-'' then ''cws'' else ''general'')"

text \<open>The two write paths raise where the read path answers with a directory that cannot exist.\<close>

definition new_skill_dir :: "string \<Rightarrow> string \<Rightarrow> string option \<Rightarrow> string res" where
  "new_skill_dir chip skill namespace =
     (case parse_skill_id (JStr skill) of
        (_, None) \<Rightarrow> Inl ValueError
      | (ns, Some n) \<Rightarrow>
          let or_else = (\<lambda>a b. case a of Some x \<Rightarrow> if x = [] then b else x | None \<Rightarrow> b);
              space = or_else namespace (or_else ns (source_for n))
          in if valid_name space \<and> valid_name n then Inr (os_joins chip [space, n]) else Inl ValueError)"

definition compiled_skill_dst :: "json \<Rightarrow> string \<Rightarrow> string res" where
  "compiled_skill_dst v out_dir =
     (case skill_ref_of v of
        BadRef \<Rightarrow> Inl ValueError
      | Spaced ns n \<Rightarrow> Inr (os_joins out_dir [ns, n])
      | Bare n \<Rightarrow> Inr (os_join out_dir n))"

section \<open>The authenticity index\<close>

definition index_name :: string where "index_name = ''index.json''"

text \<open>The files an index covers, by their path relative to the skill.\<close>

definition indexed :: "string list \<Rightarrow> bool" where
  "indexed segs \<longleftrightarrow> segs \<noteq> [] \<and> ''__pycache__'' \<notin> set (butlast segs) \<and> List.last segs \<noteq> index_name
     \<and> \<not> suffix ''.pyc'' (List.last segs) \<and> List.last segs \<noteq> ''.DS_Store''"

definition skill_files :: "os_fs \<Rightarrow> string \<Rightarrow> (string, string) dict" where
  "skill_files F dir = map (\<lambda>(segs, bytes). (join_with ''/'' segs, bytes)) (filter (indexed \<circ> fst) (f_walk F dir))"

definition file_shas :: "(string \<Rightarrow> string) \<Rightarrow> os_fs \<Rightarrow> string \<Rightarrow> (string, string) dict" where
  "file_shas H F dir = map (\<lambda>(rel, bytes). (rel, H bytes)) (skill_files F dir)"

definition build_index :: "(string \<Rightarrow> string) \<Rightarrow> os_fs \<Rightarrow> string \<Rightarrow> json \<Rightarrow> json" where
  "build_index H F chip skill =
     (let files = map (\<lambda>(rel, h). (rel, JStr h)) (sort_key fst (file_shas H F (skill_dir F chip skill)));
          leaf = (case parse_skill_id skill of (_, Some n) \<Rightarrow> if n = [] then skill else JStr n | _ \<Rightarrow> skill)
      in JObj [(''skill'', leaf), (''skill_sha'', JStr (digest H (JObj files))), (''file_count'', JInt (int (length files))),
               (''files'', JObj files)])"

definition index_problems :: "(string, json) dict \<Rightarrow> (string, string) dict \<Rightarrow> string list" where
  "index_problems want have =
     map (\<lambda>r. ''changed: '' @ r) (filter (\<lambda>r. dget have r \<noteq> None \<and> map_option JStr (dget have r) \<noteq> dget want r) (map fst want))
     @ map (\<lambda>r. ''missing: '' @ r) (filter (\<lambda>r. dget have r = None) (map fst want))
     @ map (\<lambda>r. ''untracked: '' @ r) (filter (\<lambda>r. dget want r = None) (map fst have))"

text \<open>
  \<open>verify\<close>: the verdict and what is wrong. The member \<open>files\<close> of an index is an object, as \<open>write_index\<close>
  makes it; an index where it is not raises.
\<close>

definition verify_index :: "(string \<Rightarrow> json option) \<Rightarrow> (string \<Rightarrow> string) \<Rightarrow> os_fs \<Rightarrow> string \<Rightarrow> string \<Rightarrow> (bool \<times> string list) res" where
  "verify_index loads H F chip skill =
     (let sd = skill_dir F chip (JStr skill); ip = os_join sd index_name
      in if \<not> f_isfile F ip then Inr (False, [''no index.json - run --skill '' @ skill])
         else case f_read F ip of
           None \<Rightarrow> Inl OSError
         | Some text \<Rightarrow>
             (case loads text of
                None \<Rightarrow> Inl JSONDecodeError
              | Some idx \<Rightarrow>
                  if \<not> is_obj idx then Inl AttributeError
                  else let files = jget_or idx ''files'' (JObj []);
                           ps = index_problems (obj_members files) (file_shas H F sd)
                       in if is_obj files then Inr (ps = [], ps) else Inl TypeError))"

section \<open>What may load\<close>

definition manifest_skills :: "(string \<Rightarrow> json option) \<Rightarrow> os_fs \<Rightarrow> string \<Rightarrow> json list res" where
  "manifest_skills loads F chip =
     (let mp = os_join chip index_name
      in if \<not> f_isfile F mp then Inr []
         else case f_read F mp of
           None \<Rightarrow> Inl OSError
         | Some text \<Rightarrow>
             (case loads text of
                None \<Rightarrow> Inl JSONDecodeError
              | Some m \<Rightarrow>
                  let m' = py_or m (JObj [])
                  in if \<not> is_obj m' then Inl AttributeError
                     else case jget_or m' ''skills'' (JList []) of JList xs \<Rightarrow> Inr xs | _ \<Rightarrow> Inl TypeError))"

text \<open>Entries name their skill by a text; an entry without one is passed over.\<close>

definition permitted_skills :: "(string \<Rightarrow> json option) \<Rightarrow> os_fs \<Rightarrow> string \<Rightarrow> string list res" where
  "permitted_skills loads F chip =
     bindR (manifest_skills loads F chip) (\<lambda>xs.
     bindR (mapR (\<lambda>s. if is_obj s then Inr (jget s ''skill'') else Inl AttributeError) xs) (\<lambda>names.
     bindR (mapR (\<lambda>n. case n of JStr t \<Rightarrow> Inr t | _ \<Rightarrow> Inl TypeError) (filter truthy names)) (\<lambda>ts. Inr (sort ts))))"

definition is_present :: "os_fs \<Rightarrow> string \<Rightarrow> string \<Rightarrow> bool" where
  "is_present F chip skill = f_isfile F (perks_file (skill_dir F chip (JStr skill)))"

definition loadable :: "(string \<Rightarrow> json option) \<Rightarrow> os_fs \<Rightarrow> string \<Rightarrow> string \<Rightarrow> (bool \<times> string) res" where
  "loadable loads F chip skill =
     bindR (permitted_skills loads F chip) (\<lambda>ps.
       Inr (if ps = [] then (is_present F chip skill, if is_present F chip skill then ''ok'' else ''absent'')
            else if skill \<notin> set ps then (False, ''not_permitted'')
            else if \<not> is_present F chip skill then (False, ''absent'')
            else (True, ''ok'')))"

text \<open>The directory scan that seeds a chip without a manifest.\<close>

definition scan_skills :: "os_fs \<Rightarrow> string \<Rightarrow> string list" where
  "scan_skills F chip =
     sort (remdups (concat (map (\<lambda>d.
        let dp = os_join chip d
        in if \<not> f_isdir F dp then []
           else if f_isfile F (perks_file dp) then [d]
           else map (\<lambda>s. d @ '':'' @ s) (filter (\<lambda>s. f_isfile F (perks_file (os_join dp s))) (f_listdir F dp)))
       (sort (f_listdir F chip)))))"

definition all_skills :: "(string \<Rightarrow> json option) \<Rightarrow> os_fs \<Rightarrow> string \<Rightarrow> string list res" where
  "all_skills loads F chip =
     bindR (permitted_skills loads F chip) (\<lambda>ps.
       Inr (if ps = [] then scan_skills F chip else filter (is_present F chip) ps))"

section \<open>One id, one directory\<close>

lemma valid_name_colon_free:
  assumes "CHR '':'' \<notin> set n" and "valid_name n"
  shows "skill_ref_of (JStr n) = Bare n"
  using assms by (simp add: skill_ref_of_def parse_skill_id_def split1_def)

lemma spaced_ref:
  assumes "CHR '':'' \<notin> set a" and "CHR '':'' \<notin> set n" and "valid_name a" and "valid_name n"
  shows "skill_ref_of (JStr (a @ '':'' @ n)) = Spaced a n"
proof -
  have "\<forall>x \<in> set a. x \<noteq> CHR '':''" using assms(1) by auto
  then have "split1 CHR '':'' (a @ '':'' @ n) = Some (a, n)" by (simp add: split1_def takeWhile_append2 dropWhile_append2)
  then show ?thesis using assms(2-) by (simp add: skill_ref_of_def parse_skill_id_def)
qed

lemma skill_ref_Bare: "skill_ref_of v = Bare n \<Longrightarrow> v = JStr n \<and> valid_name n \<and> CHR '':'' \<notin> set n"
  by (auto simp: skill_ref_of_def parse_skill_id_def split1_def split: json.splits option.splits prod.splits if_splits)

lemma skill_ref_Spaced:
  assumes "skill_ref_of v = Spaced a n"
  shows "v = JStr (a @ '':'' @ n)" and "valid_name a" and "valid_name n" and "CHR '':'' \<notin> set a" and "CHR '':'' \<notin> set n"
proof -
  obtain s where s: "v = JStr s" using assms by (cases v) (auto simp: skill_ref_of_def parse_skill_id_def)
  obtain p q where pq: "split1 CHR '':'' s = Some (p, q)"
    using assms s by (auto simp: skill_ref_of_def parse_skill_id_def split: option.splits if_splits)
  have "p = a" "q = n" "CHR '':'' \<notin> set q" "valid_name a" "valid_name n"
    using assms s pq by (auto simp: skill_ref_of_def parse_skill_id_def split: option.splits if_splits)
  with split1_Some [OF pq] s
  show "v = JStr (a @ '':'' @ n)" "valid_name a" "valid_name n" "CHR '':'' \<notin> set a" "CHR '':'' \<notin> set n" by auto
qed

lemma owners_listed: "d \<in> set (owners F chip n) \<Longrightarrow> d \<in> set (f_listdir F chip)"
  by (auto simp: owners_def source_groups_def split: if_splits)

lemma os_join_name: "valid_name n \<Longrightarrow> chip \<noteq> [] \<Longrightarrow> List.last chip \<noteq> CHR ''/'' \<Longrightarrow> os_join chip n = chip @ ''/'' @ n"
  by (cases n) (auto simp: os_join_def valid_name_def)

lemma last_valid: "valid_name n \<Longrightarrow> List.last n \<noteq> CHR ''/''"
  by (cases n rule: rev_cases) (auto simp: valid_name_def)

definition below :: "string \<Rightarrow> string list \<Rightarrow> string" where
  "below chip segs = chip @ concat (map (\<lambda>s. ''/'' @ s) segs)"

lemma os_joins_below:
  assumes "\<forall>s \<in> set segs. valid_name s" and "chip \<noteq> []" and "List.last chip \<noteq> CHR ''/''"
  shows "os_joins chip segs = below chip segs"
  using assms
proof (induction segs arbitrary: chip)
  case (Cons s segs)
  then have j: "os_join chip s = chip @ ''/'' @ s" by (simp add: os_join_name)
  moreover have "List.last (chip @ ''/'' @ s) \<noteq> CHR ''/''" using Cons.prems last_valid [of s] by (auto simp: valid_name_def)
  ultimately show ?case using Cons.IH [of "chip @ ''/'' @ s"] Cons.prems by (simp add: os_joins_def below_def)
qed (simp add: os_joins_def below_def)

lemma sentinels_valid: "valid_name invalid_dir" "valid_name absent_dir"
  by (simp_all add: valid_name_def invalid_dir_def absent_dir_def)

definition chip_listing_ok :: "os_fs \<Rightarrow> string \<Rightarrow> bool" where
  "chip_listing_ok F chip \<longleftrightarrow> chip \<noteq> [] \<and> List.last chip \<noteq> CHR ''/''
     \<and> list_all (\<lambda>d. valid_name d \<and> CHR '':'' \<notin> set d) (f_listdir F chip)"

lemma canonical_cases:
  assumes "chip_listing_ok F chip"
  obtains (bad) "canonical_id F chip v = ambiguous_id" "skill_dir F chip v \<in> {below chip [invalid_dir], below chip [absent_dir]}"
  | (spaced) a n where "canonical_id F chip v = a @ '':'' @ n" "skill_ref_of (JStr (a @ '':'' @ n)) = Spaced a n"
      "valid_name a" "valid_name n" "skill_dir F chip v = below chip [a, n]"
  | (bare) n where "canonical_id F chip v = n" "v = JStr n" "valid_name n"
      "skill_dir F chip v \<in> {below chip [n], below chip [absent_dir]}"
proof -
  have j: "\<forall>s \<in> set segs. valid_name s \<Longrightarrow> os_joins chip segs = below chip segs" for segs
    using assms by (intro os_joins_below) (auto simp: chip_listing_ok_def)
  have j1: "valid_name s \<Longrightarrow> os_join chip s = below chip [s]" for s
    using j [of "[s]"] by (simp add: os_joins_def)
  show ?thesis
  proof (cases "skill_ref_of v")
    case BadRef
    then show ?thesis by (intro bad) (simp_all add: canonical_id_def skill_dir_def j1 sentinels_valid)
  next
    case (Spaced a n)
    then show ?thesis using skill_ref_Spaced [OF Spaced] by (intro spaced [of a n]) (simp_all add: canonical_id_def skill_dir_def j)
  next
    case (Bare n)
    note v = skill_ref_Bare [OF Bare]
    let ?flat = "has_flat F chip n" and ?own = "owners F chip n"
    consider (none) "?own = []" | (one) d where "?own = [d]" | (many) d e r where "?own = d # e # r"
      by (cases ?own; cases "tl ?own") auto
    then show ?thesis
    proof cases
      case none
      then show ?thesis using v Bare by (intro bare [of n]) (auto simp: canonical_id_def skill_dir_def j1 sentinels_valid Let_def)
    next
      case one
      have d: "valid_name d \<and> CHR '':'' \<notin> set d"
        using owners_listed [of d F chip n] assms one by (auto simp: chip_listing_ok_def list_all_iff)
      show ?thesis
      proof (cases ?flat)
        case True
        then show ?thesis using v Bare one by (intro bad) (simp_all add: canonical_id_def skill_dir_def j1 sentinels_valid)
      next
        case False
        then show ?thesis using v d Bare one
          by (intro spaced [of d n]) (simp_all add: canonical_id_def skill_dir_def j spaced_ref [simplified])
      qed
    next
      case many
      then show ?thesis using v Bare by (intro bad) (simp_all add: canonical_id_def skill_dir_def j1 sentinels_valid)
    qed
  qed
qed

lemma spaced_not_ambiguous: "a @ '':'' @ n \<noteq> ambiguous_id"
proof
  assume "a @ '':'' @ n = ambiguous_id"
  then have "CHR '':'' \<in> set ambiguous_id" by (metis append_Cons append_Nil in_set_conv_decomp)
  then show False by (simp add: ambiguous_id_def)
qed

text \<open>
  an id leads to one directory of the chip. Whatever an agent claims, the directory it leads to is
  the chip's directory followed by at most two plain path segments, so no id escapes the chip; the
  canonical id the server decides on leads to the same directory as the id that was claimed, and is its
  own canonical id, so later readers of the record resolve it to nothing else; and an id without a
  canonical one leads to a directory no skill has.
\<close>

theorem canonical_id_keeps_directory:
  assumes "chip_listing_ok F chip"
  shows "(\<exists>segs. skill_dir F chip v = below chip segs \<and> list_all valid_name segs \<and> length segs \<in> {1, 2})
    \<and> (if canonical_id F chip v = ambiguous_id \<and> v \<noteq> JStr ambiguous_id
       then skill_dir F chip v \<in> {below chip [invalid_dir], below chip [absent_dir]}
       else canonical_id F chip (JStr (canonical_id F chip v)) = canonical_id F chip v
          \<and> skill_dir F chip (JStr (canonical_id F chip v)) = skill_dir F chip v)"
  using assms
proof (cases rule: canonical_cases [of F chip v])
  case bad
  then show ?thesis using sentinels_valid by (auto intro: exI [of _ "[invalid_dir]"] exI [of _ "[absent_dir]"])
next
  case (spaced a n)
  moreover have "os_joins chip [a, n] = below chip [a, n]"
    using assms spaced by (intro os_joins_below) (auto simp: chip_listing_ok_def)
  moreover have "canonical_id F chip (JStr (a @ '':'' @ n)) = a @ '':'' @ n" "skill_dir F chip (JStr (a @ '':'' @ n)) = os_joins chip [a, n]"
    using spaced(2) by (simp_all add: canonical_id_def skill_dir_def)
  ultimately show ?thesis using spaced_not_ambiguous [of a n] by (auto intro!: exI [of _ "[a, n]"])
next
  case (bare n)
  then show ?thesis using sentinels_valid by (auto intro: exI [of _ "[n]"] exI [of _ "[absent_dir]"])
qed

definition sample_chip :: os_fs where
  "sample_chip = \<lparr>f_isdir = (\<lambda>p. p \<in> {''/c'', ''/c/cws'', ''/c/general'', ''/c/cws/fs'', ''/c/general/fs'', ''/c/cws/db''}),
     f_isfile = (\<lambda>p. p \<in> {''/c/cws/fs/perks.json'', ''/c/general/fs/perks.json'', ''/c/cws/db/perks.json''}),
     f_listdir = (\<lambda>p. if p = ''/c'' then [''general'', ''cws''] else if p = ''/c/cws'' then [''fs'', ''db''] else [''fs'']),
     f_read = (\<lambda>_. None), f_walk = (\<lambda>_. [])\<rparr>"

theorem canonical_id_keeps_directory_witness:
  "canonical_id sample_chip ''/c'' (JStr ''db'') = ''cws:db'' \<and> canonical_id sample_chip ''/c'' (JStr ''fs'') = ambiguous_id
   \<and> skill_dir sample_chip ''/c'' (JStr ''cws:db'') = skill_dir sample_chip ''/c'' (JStr ''db'')
   \<and> skill_dir sample_chip ''/c'' (JStr ''cws:db'') = ''/c/cws/db''"
proof -
  have ok: "chip_listing_ok sample_chip ''/c''" by (simp add: chip_listing_ok_def sample_chip_def valid_name_def)
  have db: "canonical_id sample_chip ''/c'' (JStr ''db'') = ''cws:db''" and fs: "canonical_id sample_chip ''/c'' (JStr ''fs'') = ambiguous_id"
    and d: "skill_dir sample_chip ''/c'' (JStr ''cws:db'') = ''/c/cws/db''"
    by code_simp+
  have "skill_dir sample_chip ''/c'' (JStr (canonical_id sample_chip ''/c'' (JStr ''db''))) = skill_dir sample_chip ''/c'' (JStr ''db'')"
    using canonical_id_keeps_directory [OF ok, of "JStr ''db''"] unfolding db by (simp add: ambiguous_id_def)
  then show ?thesis using db fs d by simp
qed

section \<open>The index pins the files\<close>

lemma index_problems_empty:
  "index_problems want have = [] \<longleftrightarrow> dget want = (\<lambda>r. map_option JStr (dget have r))"
proof -
  have "index_problems want have = [] \<longleftrightarrow>
    (\<forall>r \<in> fst ` set want. dget have r \<noteq> None \<and> map_option JStr (dget have r) = dget want r) \<and> (\<forall>r \<in> fst ` set have. dget want r \<noteq> None)"
    unfolding index_problems_def filter_empty_conv append_is_Nil_conv map_is_Nil_conv set_map by blast
  also have "\<dots> \<longleftrightarrow> (\<forall>r. dget want r = map_option JStr (dget have r))" (is "?L \<longleftrightarrow> ?R")
  proof
    assume L: ?L
    show ?R
    proof
      fix r
      show "dget want r = map_option JStr (dget have r)"
      proof (cases "r \<in> fst ` set want")
        case True
        then show ?thesis using L by auto
      next
        case False
        then have n: "dget want r = None" by (simp add: map_of_eq_None_iff)
        then have "r \<notin> fst ` set have" using L by auto
        then have "dget have r = None" by (simp add: map_of_eq_None_iff)
        then show ?thesis using n by simp
      qed
    qed
  next
    assume R: ?R
    show ?L
    proof (intro conjI ballI)
      fix r assume "r \<in> fst ` set want"
      then have "dget want r \<noteq> None" by (simp add: map_of_eq_None_iff)
      with R show "dget have r \<noteq> None" "map_option JStr (dget have r) = dget want r" by auto
    next
      fix r assume "r \<in> fst ` set have"
      then have "dget have r \<noteq> None" by (simp add: map_of_eq_None_iff)
      with R show "dget want r \<noteq> None" by simp
    qed
  qed
  finally show ?thesis by (simp add: fun_eq_iff)
qed

definition walked_once :: "os_fs \<Rightarrow> string \<Rightarrow> bool" where
  "walked_once F dir \<longleftrightarrow> distinct (map fst (skill_files F dir))"

lemma file_shas_dget: "dget (file_shas H F dir) r = map_option H (dget (skill_files F dir) r)"
  by (simp add: file_shas_def map_of_map)

lemma built_files:
  assumes "walked_once F (skill_dir F chip skill)"
  shows "dget (obj_members (jget_or (build_index H F chip skill) ''files'' (JObj []))) r
    = map_option (\<lambda>b. JStr (H b)) (dget (skill_files F (skill_dir F chip skill)) r)"
proof -
  let ?fs = "file_shas H F (skill_dir F chip skill)"
  have "map fst ?fs = map fst (skill_files F (skill_dir F chip skill))" by (simp add: file_shas_def case_prod_beta)
  then have d: "distinct (map fst ?fs)" using assms by (simp add: walked_once_def)
  have "obj_members (jget_or (build_index H F chip skill) ''files'' (JObj [])) = map (\<lambda>(rel, h). (rel, JStr h)) (sort_key fst ?fs)"
    by (simp add: build_index_def jget_or_def obj_members_def Let_def)
  then have "dget (obj_members (jget_or (build_index H F chip skill) ''files'' (JObj []))) r = map_option JStr (dget (sort_key fst ?fs) r)"
    by (simp add: map_of_map)
  then show ?thesis by (simp add: file_shas_dget option.map_comp comp_def)
qed

text \<open>
  C38: the index pins the files. Take an index as it was built over a skill, and verify any later state
  of the skill against it: the verdict is clean exactly when the same relative paths are there with
  the same digests. So a file that was changed, added or taken away is reported, unless the digest
  collides; and the untouched skill is accepted.
\<close>

theorem index_pins_files:
  assumes "walked_once F0 (skill_dir F0 chip (JStr skill))"
    and "f_isfile F (os_join (skill_dir F chip (JStr skill)) index_name)"
    and "f_read F (os_join (skill_dir F chip (JStr skill)) index_name) = Some text"
    and "loads text = Some (build_index H F0 chip (JStr skill))"
  shows "\<exists>ok ps. verify_index loads H F chip skill = Inr (ok, ps)
    \<and> (ok = (\<forall>rel. map_option H (dget (skill_files F (skill_dir F chip (JStr skill))) rel)
                 = map_option H (dget (skill_files F0 (skill_dir F0 chip (JStr skill))) rel)))"
proof -
  let ?idx = "build_index H F0 chip (JStr skill)" and ?new = "skill_files F (skill_dir F chip (JStr skill))"
    and ?old = "skill_files F0 (skill_dir F0 chip (JStr skill))"
  have o: "is_obj ?idx" "is_obj (jget_or ?idx ''files'' (JObj []))"
    by (simp_all add: build_index_def is_obj_def jget_or_def obj_members_def Let_def)
  have "verify_index loads H F chip skill
      = Inr (index_problems (obj_members (jget_or ?idx ''files'' (JObj []))) (file_shas H F (skill_dir F chip (JStr skill))) = [],
             index_problems (obj_members (jget_or ?idx ''files'' (JObj []))) (file_shas H F (skill_dir F chip (JStr skill))))"
    using assms(2-4) o by (simp add: verify_index_def Let_def)
  moreover have "(index_problems (obj_members (jget_or ?idx ''files'' (JObj []))) (file_shas H F (skill_dir F chip (JStr skill))) = [])
      = (\<forall>rel. map_option H (dget ?new rel) = map_option H (dget ?old rel))"
  proof -
    have "map_option (\<lambda>b. JStr (H b)) x = map_option (JStr \<circ> H) y \<longleftrightarrow> map_option H y = map_option H x" for x y
      by (cases x; cases y) auto
    then show ?thesis
      by (simp add: index_problems_empty fun_eq_iff built_files [OF assms(1)] file_shas_dget option.map_comp)
  qed
  ultimately show ?thesis by blast
qed

theorem index_pins_files_witness:
  "\<exists>F0 F loads ps qs. verify_index loads (\<lambda>s. s) F0 ''/c'' ''cws:fs'' = Inr (True, ps) \<and> verify_index loads (\<lambda>s. s) F ''/c'' ''cws:fs'' = Inr (False, qs)"
proof -
  let ?F = "\<lambda>b. sample_chip \<lparr>f_isfile := (\<lambda>_. True), f_read := (\<lambda>_. Some ''idx''), f_walk := (\<lambda>_. [([''a.sh''], b)])\<rparr>"
  let ?loads = "\<lambda>_. Some (build_index (\<lambda>s. s) (?F ''one'') ''/c'' (JStr ''cws:fs''))"
  have w: "walked_once (?F ''one'') d" for d by (simp add: walked_once_def skill_files_def indexed_def)
  have f: "skill_files (?F b) d = [(''a.sh'', b)]" for b d
    by (simp add: skill_files_def indexed_def index_name_def suffix_def)
  have "\<exists>ok ps. verify_index ?loads (\<lambda>s. s) (?F b) ''/c'' ''cws:fs'' = Inr (ok, ps) \<and> ok = (b = ''one'')" for b
    using index_pins_files [OF w, of "?F b" "''/c''" "''cws:fs''" _ ?loads "\<lambda>s. s"] unfolding f by auto
  from this [of "''one''"] this [of "''two''"] obtain ps qs
    where "verify_index ?loads (\<lambda>s. s) (?F ''one'') ''/c'' ''cws:fs'' = Inr (True, ps)"
      "verify_index ?loads (\<lambda>s. s) (?F ''two'') ''/c'' ''cws:fs'' = Inr (False, qs)" by auto
  then show ?thesis by (intro exI conjI)
qed

end
