(* ===== verification/Composer.thy ===== *)
theory Composer
  imports Registry
begin

text \<open>
  Composing a skill (\<open>src/infra/govern/composer.py\<close>) and compiling its plan (\<open>build_plan\<close> and
  \<open>plan_sha\<close> of \<open>src/infra/govern/compiler.py\<close>): the structural check of a blueprint, the TLA+ module
  written for the model checker, and the value-free plan that is blessed.
\<close>

section \<open>Blueprints\<close>

record blueprint =
  bp_states :: "string list"
  bp_terminals :: "string list"
  bp_transitions :: "(string \<times> string) list"
  bp_entry :: string

text \<open>\<open>list(v)\<close>: the keys of a dictionary, or the texts of a list.\<close>

definition names_of :: "json \<Rightarrow> string list res" where
  "names_of v =
     (case v of
        JObj kvs \<Rightarrow> Inr (map fst kvs)
      | JList xs \<Rightarrow> mapR (\<lambda>x. case x of JStr s \<Rightarrow> Inr s | _ \<Rightarrow> Inl TypeError) xs
      | _ \<Rightarrow> Inl TypeError)"

definition item_text :: "json \<Rightarrow> string \<Rightarrow> string res" where
  "item_text j k = bindR (item j k) (\<lambda>v. case v of JStr s \<Rightarrow> Inr s | _ \<Rightarrow> Inl TypeError)"

definition blueprint_of :: "json \<Rightarrow> blueprint res" where
  "blueprint_of bp =
     bindR (item bp ''states'') (\<lambda>st. bindR (names_of st) (\<lambda>states.
     bindR (names_of (jget_or bp ''terminal_states'' (JObj []))) (\<lambda>terms.
     bindR (item bp ''transitions'') (\<lambda>t. bindR (case t of JList ts \<Rightarrow> Inr ts | _ \<Rightarrow> Inl TypeError) (\<lambda>ts.
     bindR (mapR (\<lambda>t. bindR (item_text t ''from'') (\<lambda>a. bindR (item_text t ''to'') (\<lambda>b. Inr (a, b)))) ts) (\<lambda>trans.
     bindR (item_text bp ''entry_state'') (\<lambda>entry.
       Inr \<lparr>bp_states = states, bp_terminals = terms, bp_transitions = trans, bp_entry = entry\<rparr>)))))))"

definition adjacent :: "blueprint \<Rightarrow> (string, string list) dict" where
  "adjacent bp = foldl (\<lambda>d (a, b). dput a (dget_default d a [] @ [b]) d) [] (bp_transitions bp)"

definition next_of :: "(string, string list) dict \<Rightarrow> string \<Rightarrow> string list" where
  "next_of adjc s = dget_default adjc s []"

text \<open>The search of \<open>structural\<close>: the top of the stack is its last element.\<close>

definition targets :: "(string, string list) dict \<Rightarrow> string set" where
  "targets adjc = (\<Union>kv \<in> set adjc. set (snd kv))"

lemma next_of_targets: "set (next_of adjc s) \<subseteq> targets adjc"
  by (cases "dget adjc s") (auto simp: next_of_def dget_default_def targets_def dest!: map_of_SomeD)

function search :: "(string, string list) dict \<Rightarrow> string list \<Rightarrow> string list \<Rightarrow> string list" where
  "search adjc seen stack =
     (if stack = [] then seen
      else let s = List.last stack; rest = butlast stack
           in if s \<in> set seen then search adjc seen rest
              else search adjc (seen @ [s]) (rest @ next_of adjc s))"
  by pat_completeness auto
termination
proof (relation "measures [\<lambda>(adjc, seen, stack). card ((targets adjc \<union> set stack) - set seen), \<lambda>(adjc, seen, stack). length stack]", simp)
  fix adjc seen stack and s :: string and rest
  assume a: "stack \<noteq> []" "s = List.last stack" "rest = butlast stack"
  have fin: "finite (targets adjc)" by (simp add: targets_def)
  have sub: "set rest \<subseteq> set stack" using a by (auto dest: in_set_butlastD)
  { assume s: "s \<in> set seen"
    have "(targets adjc \<union> set rest) - set seen \<subseteq> (targets adjc \<union> set stack) - set seen" using sub by auto
    then have "card ((targets adjc \<union> set rest) - set seen) \<le> card ((targets adjc \<union> set stack) - set seen)"
      using fin by (intro card_mono) auto
    then show "((adjc, seen, rest), adjc, seen, stack) \<in> measures [\<lambda>(adjc, seen, stack). card ((targets adjc \<union> set stack) - set seen), \<lambda>(adjc, seen, stack). length stack]"
      using a by auto }
  { assume s: "s \<notin> set seen"
    have "(targets adjc \<union> set (rest @ next_of adjc s)) - set (seen @ [s]) \<subset> (targets adjc \<union> set stack) - set seen"
      using s a sub next_of_targets [of adjc s] by auto
    then have "card ((targets adjc \<union> set (rest @ next_of adjc s)) - set (seen @ [s])) < card ((targets adjc \<union> set stack) - set seen)"
      using fin by (intro psubset_card_mono) auto
    then show "((adjc, seen @ [s], rest @ next_of adjc s), adjc, seen, stack) \<in> measures [\<lambda>(adjc, seen, stack). card ((targets adjc \<union> set stack) - set seen), \<lambda>(adjc, seen, stack). length stack]"
      by simp }
qed

declare search.simps [simp del]

datatype issue = Deadlock string | Unreachable string | NoTerminal

definition structural :: "blueprint \<Rightarrow> issue list" where
  "structural bp =
     (let adjc = adjacent bp; seen = search adjc [] [bp_entry bp]
      in map Deadlock (filter (\<lambda>s. s \<notin> set (bp_terminals bp) \<and> next_of adjc s = []) (bp_states bp))
         @ map Unreachable (filter (\<lambda>s. s \<notin> set seen) (bp_states bp))
         @ (if set seen \<inter> set (bp_terminals bp) = {} then [NoTerminal] else []))"

definition issue_text :: "issue \<Rightarrow> string" where
  "issue_text i =
     (let q = (\<lambda>s. [CHR 0x27] @ s @ [CHR 0x27]) in
      case i of Deadlock s \<Rightarrow> ''deadlock: non-terminal state '' @ q s @ '' has no outgoing transition''
      | Unreachable s \<Rightarrow> ''unreachable: '' @ q s @ '' not reachable from entry''
      | NoTerminal \<Rightarrow> ''no terminal state reachable from entry'')"

section \<open>The TLA+ module\<close>

text \<open>The disjuncts of \<open>Next\<close>, as pairs of program counters and as text.\<close>

definition disjuncts :: "blueprint \<Rightarrow> (string \<times> string) list" where
  "disjuncts bp =
     concat (map (\<lambda>s. (if s \<in> set (bp_terminals bp) then [(s, s)] else []) @ map (Pair s) (next_of (adjacent bp) s)) (bp_states bp))"

definition disjunct_text :: "string \<times> string \<Rightarrow> string" where
  "disjunct_text p =
     ''(pc = '' @ dquoted (fst p) @ '' /'' @ [ch_back] @ '' pc'' @ [CHR 0x27] @ '' = '' @ dquoted (snd p) @ '')''"

definition emit_module :: "blueprint \<Rightarrow> string \<Rightarrow> string" where
  "emit_module bp name =
     join_with nl
       [''---- MODULE '' @ name @ '' ----'', ''VARIABLE pc'', [],
        ''Init == pc = '' @ dquoted (bp_entry bp),
        ''Next =='' @ nl @ ''  '' @ [ch_back] @ ''/ '' @ join_with (nl @ ''  '' @ [ch_back] @ ''/ '') (map disjunct_text (disjuncts bp)),
        ''Spec == Init /'' @ [ch_back] @ '' [][Next]_pc'', ''===='']
     @ nl"

text \<open>What the module specifies: the states the model checker visits, and those where it stops.\<close>

definition tla_reach :: "blueprint \<Rightarrow> string set" where
  "tla_reach bp = (set (disjuncts bp))\<^sup>* `` {bp_entry bp}"

definition tla_deadlock_free :: "blueprint \<Rightarrow> bool" where
  "tla_deadlock_free bp \<longleftrightarrow> (\<forall>s \<in> tla_reach bp. \<exists>t. (s, t) \<in> set (disjuncts bp))"

section \<open>The search is exact\<close>

lemma adjacent_gen:
  "dget_default (foldl (\<lambda>d (a, b). dput a (dget_default d a [] @ [b]) d) d0 ts) s [] =
     dget_default d0 s [] @ map snd (filter (\<lambda>t. fst t = s) ts)"
proof (induction ts arbitrary: d0)
  case (Cons t ts)
  show ?case by (cases t) (simp add: Cons.IH, simp add: dget_default_def dget_dput)
qed simp

lemma next_of_adjacent: "next_of (adjacent bp) s = map snd (filter (\<lambda>t. fst t = s) (bp_transitions bp))"
  using adjacent_gen [of "[]"] by (simp add: next_of_def adjacent_def dget_default_def)

definition edge :: "blueprint \<Rightarrow> (string \<times> string) set" where
  "edge bp = set (bp_transitions bp)"

lemma in_next_of: "t \<in> set (next_of (adjacent bp) s) \<longleftrightarrow> (s, t) \<in> edge bp"
  by (auto simp: next_of_adjacent edge_def) force








lemma in_disjuncts:
  "(s, t) \<in> set (disjuncts bp) \<longleftrightarrow> s \<in> set (bp_states bp) \<and> (s = t \<and> s \<in> set (bp_terminals bp) \<or> (s, t) \<in> edge bp)"
  by (auto simp: disjuncts_def in_next_of)





definition lifecycle_bp :: blueprint where
  "lifecycle_bp = \<lparr>bp_states = [''draft'', ''bound'', ''done''], bp_terminals = [''done''],
     bp_transitions = [(''draft'', ''bound''), (''bound'', ''done''), (''bound'', ''draft'')], bp_entry = ''draft''\<rparr>"

definition stray_bp :: blueprint where
  "stray_bp = lifecycle_bp \<lparr>bp_transitions := (''bound'', ''lost'') # bp_transitions lifecycle_bp\<rparr>"



text \<open>
  A transition to a state nobody declared escapes the check: the report is clean, and the module
  deadlocks in that state.
\<close>

lemma structural_misses_undeclared: "structural stray_bp = [] \<and> \<not> tla_deadlock_free stray_bp"
proof -
  have "(''draft'', ''bound'') \<in> set (disjuncts stray_bp)" "(''bound'', ''lost'') \<in> set (disjuncts stray_bp)" by code_simp+
  then have "(''draft'', ''lost'') \<in> (set (disjuncts stray_bp))\<^sup>*" by (meson r_into_rtrancl rtrancl_trans)
  then have "''lost'' \<in> tla_reach stray_bp" by (simp add: tla_reach_def stray_bp_def lifecycle_bp_def)
  moreover have "(''lost'', t) \<notin> set (disjuncts stray_bp)" for t by (simp add: in_disjuncts stray_bp_def lifecycle_bp_def)
  moreover have "structural stray_bp = []" by code_simp
  ultimately show ?thesis by (auto simp: tla_deadlock_free_def)
qed

end
