(* ===== verification/Compiler.thy ===== *)
theory Compiler
  imports Composer Sandbox
begin

text \<open>
  The plan a claim is answered with: \<open>build_plan\<close> and \<open>plan_sha\<close> of \<open>src/infra/govern/compiler.py\<close>, the
  declared sandbox tier of a perk (\<open>perk_sandbox_tier\<close> of \<open>src/infra/govern/delegate.py\<close>), and the step
  truth the executor derives from a blessed manifesto (\<open>src/infra/govern/plan_steps.py\<close>) with the check
  of each porter (\<open>src/infra/govern/snippetverify.py\<close>).
\<close>

section \<open>Loading registry files\<close>

definition load_json :: "(string \<Rightarrow> json option) \<Rightarrow> os_fs \<Rightarrow> string \<Rightarrow> json res" where
  "load_json loads F p =
     (case f_read F p of
        None \<Rightarrow> Inl OSError
      | Some text \<Rightarrow> (case loads text of None \<Rightarrow> Inl JSONDecodeError | Some j \<Rightarrow> Inr j))"

text \<open>\<open>v.get(k, d)\<close> and \<open>v.get(k, d).items()\<close>, where only a dictionary has the method.\<close>

definition py_get :: "json \<Rightarrow> string \<Rightarrow> json \<Rightarrow> json res" where
  "py_get v k d = (if is_obj v then Inr (jget_or v k d) else Inl AttributeError)"

definition get_items :: "json \<Rightarrow> string \<Rightarrow> (string, json) dict res" where
  "get_items v k = bindR (py_get v k (JObj [])) (\<lambda>d. if is_obj d then Inr (obj_members d) else Inl AttributeError)"

definition as_list :: "json \<Rightarrow> json list res" where
  "as_list v =
     (case v of
        JList xs \<Rightarrow> Inr xs
      | JObj kvs \<Rightarrow> Inr (map (\<lambda>kv. JStr (fst kv)) kvs)
      | JStr s \<Rightarrow> Inr (map (\<lambda>c. JStr [c]) s)
      | _ \<Rightarrow> Inl TypeError)"

section \<open>The value-free plan\<close>

definition numbered :: "'a list \<Rightarrow> (nat \<times> 'a) list" where
  "numbered xs = zip [1..<Suc (length xs)] xs"

definition closure_prefix :: "string \<Rightarrow> string" where
  "closure_prefix perk = ''perks/'' @ perk @ ''/src/''"

definition closure_shas :: "string \<Rightarrow> (string, json) dict \<Rightarrow> (string, json) dict" where
  "closure_shas perk files =
     map (\<lambda>(rel, h). (drop (length (closure_prefix perk)) rel, h))
       (filter (\<lambda>(rel, h). starts_with rel (closure_prefix perk) \<and> rel \<noteq> closure_prefix perk @ ''contracts.json'')
          (sort_key fst files))"

definition step_lines :: "json \<Rightarrow> json list \<Rightarrow> nat \<times> json \<Rightarrow> string list" where
  "step_lines oe sq p =
     (let i = show_nat (fst p); tool = py_str (snd p); q = [ch_quote] in
      [''step'' @ i @ ''() {   # '' @ tool,
       ''  echo '' @ q @ ''[step '' @ i @ ''] '' @ tool @ q,
       ''  bash '' @ q @ ''$SNIP/'' @ tool @ ''.sh'' @ q @ '' || exit $?'']
      @ (if truthy oe \<and> snd p = List.last sq
         then [''  test -f '' @ q @ py_str oe @ q @ '' || { echo '' @ q @ ''CONTRACT FAIL step '' @ i @ '': missing '' @ py_str oe @ q
                 @ '' >&2; exit 3; }'']
         else [])
      @ [''}'', []])"

definition listing :: "json list \<Rightarrow> string" where
  "listing sq = join_with [ch_back, CHR ''n''] (map (\<lambda>(i, t). show_nat i @ [ch_back, CHR ''t''] @ py_str t) (numbered sq))"

definition dispatch_lines :: "json list \<Rightarrow> string list" where
  "dispatch_lines sq =
     (let q = [ch_quote] in
      [''case '' @ q @ ''${1:-}'' @ q @ '' in'',
       ''  --list) printf '' @ q @ listing sq @ [ch_back, CHR ''n''] @ q @ '' ;;'',
       ''  --step) shift; '' @ q @ ''step${1:?step number}'' @ q @ '' ;;'',
       ''  --all) '' @ join_with '' && '' (map (\<lambda>(i, t). ''step'' @ show_nat i) (numbered sq)) @ '' ;;'',
       ''  *) echo '' @ q @ ''usage: $0 --list | --step <N> | --all'' @ q @ '' >&2; exit 2 ;;'',
       ''esac'', []])"

definition wrapper_text :: "string \<Rightarrow> string \<Rightarrow> json \<Rightarrow> json list \<Rightarrow> string" where
  "wrapper_text skill perk oe sq =
     (let q = [ch_quote]; dot = [CHR 0xB7] in
      join_with nl
        ([''#!/usr/bin/env bash'',
          ''# cyberware plan '' @ dot @ '' skill='' @ skill @ '' perk='' @ perk @ '' '' @ dot
            @ '' value-free; the caller exports SNIP/RECORD_STORE/vars'',
          ''set -uo pipefail'',
          '': '' @ q @ ''${SNIP:?SNIP must point at the perk snippet dir}'' @ q @ '' '' @ q @ ''${RECORD_STORE:?}'' @ q,
          ''mkdir -p '' @ q @ ''$RECORD_STORE'' @ q, []]
         @ concat (map (step_lines oe sq) (numbered sq)) @ dispatch_lines sq))"

definition perk_path :: "os_fs \<Rightarrow> string \<Rightarrow> string \<Rightarrow> string \<Rightarrow> string" where
  "perk_path F chip skill perk = os_joins (skill_dir F chip (JStr skill)) [''perks'', perk]"

definition build_plan :: "(string \<Rightarrow> json option) \<Rightarrow> os_fs \<Rightarrow> string \<Rightarrow> string \<Rightarrow> string \<Rightarrow> json res" where
  "build_plan loads F chip skill perk =
     (let sdir = skill_dir F chip (JStr skill); pdir = perk_path F chip skill perk
      in bindR (load_json loads F (os_join pdir ''manifesto.json'')) (\<lambda>manifesto.
         bindR (load_json loads F (os_joins pdir [''src'', ''contracts.json''])) (\<lambda>contract.
         bindR (py_get manifesto ''sequence'' (JList [])) (\<lambda>s. bindR (as_list s) (\<lambda>sq.
         bindR (load_json loads F (os_join sdir ''index.json'')) (\<lambda>idx.
         bindR (get_items idx ''files'') (\<lambda>files.
         bindR (if sq = [] then Inr JNull
                else bindR (py_get contract ''checks'' (JObj [])) (\<lambda>c. py_get c ''output_exists'' JNull)) (\<lambda>oe.
         bindR (py_get manifesto ''credentials'' (JList [])) (\<lambda>cr. bindR (as_list cr) (\<lambda>creds.
           Inr (JObj [(''skill'', JStr skill), (''perk'', JStr perk), (''sequence'', JList sq),
                      (''wrapper'', JStr (wrapper_text skill perk oe sq)),
                      (''snippet_shas'', JObj (closure_shas perk files)),
                      (''skill_sha'', jget_or idx ''skill_sha'' (JStr [])),
                      (''credential_ids'', JList (map (\<lambda>c. JStr (py_str c)) creds))])))))))))))"

definition hashed_keys :: "string list" where
  "hashed_keys = [''skill'', ''perk'', ''sequence'', ''wrapper'', ''snippet_shas'', ''skill_sha'']"

definition plan_body :: "json \<Rightarrow> json" where
  "plan_body plan = JObj (map (\<lambda>k. (k, jget plan k)) hashed_keys)"

definition plan_sha :: "(string \<Rightarrow> string) \<Rightarrow> json \<Rightarrow> string" where
  "plan_sha H plan = digest H (plan_body plan)"

section \<open>The declared tier\<close>

text \<open>The answer is a tier or none; a perk list that is no list of objects raises.\<close>

fun tier_in :: "string \<Rightarrow> json list \<Rightarrow> json res" where
  "tier_in perk [] = Inr JNull"
| "tier_in perk (p # ps) =
     (if \<not> is_obj p then Inl AttributeError
      else if jget p ''id'' = JStr perk then
        (case jget p ''tier'' of JNull \<Rightarrow> Inr JNull
         | JStr t \<Rightarrow> Inr (JStr (if t \<in> set sandbox_tiers then t else ''community''))
         | _ \<Rightarrow> Inr (JStr ''community''))
      else tier_in perk ps)"

definition perk_sandbox_tier :: "(string \<Rightarrow> json option) \<Rightarrow> os_fs \<Rightarrow> string \<Rightarrow> string \<Rightarrow> string \<Rightarrow> json res" where
  "perk_sandbox_tier loads F chip skill perk =
     (let pj = perks_file (skill_dir F chip (JStr skill))
      in if skill = [] \<or> perk = [] \<or> \<not> f_isfile F pj then Inr JNull
         else case bindR (load_json loads F pj) (\<lambda>j. py_get (py_or j (JObj [])) ''perks'' (JList [])) of
           Inl _ \<Rightarrow> Inr JNull
         | Inr ps \<Rightarrow> bindR (as_list ps) (tier_in perk))"

section \<open>Step truth of the executor\<close>

text \<open>
  \<open>dir_name\<close> and \<open>base_name\<close> are \<open>os.path.dirname\<close> and \<open>basename\<close> on paths without trailing slashes.
\<close>

definition base_name :: "string \<Rightarrow> string" where
  "base_name p = rev (takeWhile (\<lambda>c. c \<noteq> CHR ''/'') (rev p))"

definition dir_name :: "string \<Rightarrow> string" where
  "dir_name p =
     (let h = rev (dropWhile (\<lambda>c. c \<noteq> CHR ''/'') (rev p)); t = rev (dropWhile (\<lambda>c. c = CHR ''/'') (rev h))
      in if t = [] then h else t)"

definition blessed_sequence :: "(string \<Rightarrow> json option) \<Rightarrow> (string \<Rightarrow> string) \<Rightarrow> os_fs \<Rightarrow> string \<Rightarrow> json list" where
  "blessed_sequence loads H F snip =
     (let perk_dir = dir_name snip; skill_d = dir_name (dir_name perk_dir);
          rel = ''perks/'' @ base_name perk_dir @ ''/manifesto.json'';
          r = bindR (load_json loads F (os_join skill_d ''index.json'')) (\<lambda>idx.
              bindR (get_items idx ''files'') (\<lambda>files.
                case f_read F (os_join perk_dir ''manifesto.json'') of
                  None \<Rightarrow> Inl OSError
                | Some body \<Rightarrow>
                    (let want = (case dget files rel of Some w \<Rightarrow> w | None \<Rightarrow> JNull)
                     in if \<not> truthy want \<or> JStr (H body) \<noteq> want then Inr []
                        else case loads body of
                          None \<Rightarrow> Inl JSONDecodeError
                        | Some m \<Rightarrow> bindR (py_get m ''sequence'' JNull) (\<lambda>s. as_list (py_or s (JList []))))))
      in if snip = [] then [] else case r of Inl _ \<Rightarrow> [] | Inr xs \<Rightarrow> xs)"

definition plan_steps :: "(string \<Rightarrow> json option) \<Rightarrow> (string \<Rightarrow> string) \<Rightarrow> os_fs \<Rightarrow> string \<Rightarrow> string list \<times> (string, json) dict" where
  "plan_steps loads H F snip =
     (let sq = blessed_sequence loads H F snip
      in (map show_nat [1..<Suc (length sq)], map (\<lambda>(i, t). (show_nat i, t)) (numbered sq)))"

record snippet_check =
  sc_refuse :: bool
  sc_file :: "string option"
  sc_want :: json
  sc_found :: json

text \<open>A tool that is no text cannot be joined to a file name.\<close>

definition snippet_decision ::
  "(string \<Rightarrow> string) \<Rightarrow> os_fs \<Rightarrow> bool \<Rightarrow> string \<Rightarrow> (string, json) dict \<Rightarrow> (string, json) dict \<Rightarrow> string \<Rightarrow> snippet_check res" where
  "snippet_decision H F on st step_tool blessed snip =
     (case (if on then dget step_tool st else None) of
        None \<Rightarrow> Inr \<lparr>sc_refuse = False, sc_file = None, sc_want = JNull, sc_found = JNull\<rparr>
      | Some (JStr tool) \<Rightarrow>
          (let fname = tool @ ''.sh''; fp = os_join snip fname;
               want = (case dget blessed fname of Some w \<Rightarrow> w | None \<Rightarrow> JNull)
           in if f_isfile F fp then
                (case f_read F fp of
                   None \<Rightarrow> Inl OSError
                 | Some b \<Rightarrow> Inr \<lparr>sc_refuse = JStr (H b) \<noteq> want, sc_file = Some fname, sc_want = want, sc_found = JStr (H b)\<rparr>)
              else Inr \<lparr>sc_refuse = want \<noteq> JNull, sc_file = Some fname, sc_want = want, sc_found = JNull\<rparr>)
      | Some _ \<Rightarrow> Inl TypeError)"

section \<open>The plan hash\<close>

lemma build_plan_shape:
  assumes "build_plan loads F chip skill perk = Inr plan"
  obtains sq oe files idx creds where
    "plan = JObj [(''skill'', JStr skill), (''perk'', JStr perk), (''sequence'', JList sq), (''wrapper'', JStr (wrapper_text skill perk oe sq)),
       (''snippet_shas'', JObj (closure_shas perk files)), (''skill_sha'', jget_or idx ''skill_sha'' (JStr [])),
       (''credential_ids'', JList (map (\<lambda>c. JStr (py_str c)) creds))]"
    and "load_json loads F (os_join (skill_dir F chip (JStr skill)) ''index.json'') = Inr idx" and "get_items idx ''files'' = Inr files"
proof -
  note r = assms [unfolded build_plan_def Let_def bindR_eq_Inr]
  from r show ?thesis by (elim exE conjE) (rule that, erule Inr_inject [THEN sym], assumption+)
qed

lemma build_plan_keys:
  assumes "build_plan loads F chip skill perk = Inr plan"
  shows "is_obj plan" and "jget plan ''skill'' = JStr skill" and "jget plan ''perk'' = JStr perk"
    and "\<exists>sq. jget plan ''sequence'' = JList sq" and "\<exists>kvs. jget plan ''snippet_shas'' = JObj kvs"
  by (rule build_plan_shape [OF assms], simp add: is_obj_def jget_def)+

lemma jnorm_member:
  assumes "jnorm (JObj kvs) = jnorm (JObj kvs')" and "distinct (map fst kvs)" and "map fst kvs' = map fst kvs"
  shows "map_option jnorm (dget kvs k) = map_option jnorm (dget kvs' k)"
proof -
  have n: "map_of (sort_key fst (map (\<lambda>(k, v). (k, jnorm v)) xs)) = map_option jnorm \<circ> map_of xs" if "distinct (map fst xs)" for xs
    using that by (simp add: map_of_map case_prod_beta comp_def)
  have "map_option jnorm \<circ> map_of kvs = map_option jnorm \<circ> map_of kvs'"
    using assms n [of kvs] n [of kvs'] by simp
  then show ?thesis by (metis comp_apply)
qed

text \<open>
  Equal plan hashes mean equal plans, up to the order of the pinned files, unless the digest collides.
\<close>

lemma plan_sha_pins:
  assumes "plan_sha H p = plan_sha H q" and "k \<in> set hashed_keys"
  shows "jnorm (jget p k) = jnorm (jget q k)
    \<or> (H (Json.canonicalize (plan_body p)) = H (Json.canonicalize (plan_body q)) \<and> Json.canonicalize (plan_body p) \<noteq> Json.canonicalize (plan_body q))"
proof (cases "Json.canonicalize (plan_body p) = Json.canonicalize (plan_body q)")
  case True
  then have "jnorm (plan_body p) = jnorm (plan_body q)" by (simp add: canonicalize_inj_iff)
  then have "map_option jnorm (dget (map (\<lambda>k. (k, jget p k)) hashed_keys) k) = map_option jnorm (dget (map (\<lambda>k. (k, jget q k)) hashed_keys) k)"
    unfolding plan_body_def by (rule jnorm_member) (simp_all add: hashed_keys_def)
  then show ?thesis using assms(2) by (auto simp: hashed_keys_def)
qed (use assms(1) in \<open>simp add: plan_sha_def digest_def\<close>)

end
