(* ===== verification/Govern.thy ===== *)
theory Govern
  imports Compiler Exod Price
begin

text \<open>
  The decision on a claim: \<open>govern\<close> of \<open>src/infra/govern/govd.py\<close>. A claim names a skill, a perk and the
  keys of the variables it will bind; the server checks it against its own registry, the access list of
  the actor, the access policy of the skill and the actor's credits, and blesses a value-free plan.
  The record \<open>gov_env\<close> is what the process has at hand: the registry's files, the JSON parser, SHA-256,
  the model checker (which may be absent) and the texts that prices are computed from. The verdict of the
  index is cached by the process; the registry does not change while it runs, so the cache answers what
  \<open>verify_index\<close> answers. A problem is kept as its id and its data; the sentence that explains it is left out.
\<close>

section \<open>Keys\<close>

definition key_start :: "char \<Rightarrow> bool" where
  "key_start c = (let n = of_char c :: nat in (65 \<le> n \<and> n \<le> 90) \<or> (97 \<le> n \<and> n \<le> 122) \<or> c = CHR ''_'')"

definition key_rest :: "char \<Rightarrow> bool" where
  "key_rest c = (key_start c \<or> (let n = of_char c :: nat in 48 \<le> n \<and> n \<le> 57))"

definition shell_name :: "string \<Rightarrow> bool" where
  "shell_name s = (case s of [] \<Rightarrow> False | c # cs \<Rightarrow> key_start c \<and> list_all key_rest cs)"

text \<open>\<open>VALID_KEY.match(k)\<close>: the \<open>$\<close> of the pattern also matches before a final line feed.\<close>

definition valid_key :: "string \<Rightarrow> bool" where
  "valid_key s = (shell_name s \<or> (s \<noteq> [] \<and> List.last s = CHR 0x0A \<and> shell_name (butlast s)))"

definition secret_words :: "string list" where
  "secret_words =
     [''password'', ''passwd'', ''passphrase'', ''secret'', ''token'', ''credential'', ''mnemonic'', ''bearer'']
     @ concat (map (\<lambda>(a, b). [a @ b, a @ ''_'' @ b, a @ ''-'' @ b])
         [(''seed'', ''phrase''), (''api'', ''key''), (''access'', ''key''), (''private'', ''key''), (''priv'', ''key''),
          (''ssh'', ''key''), (''gpg'', ''key''), (''signing'', ''key'')])"

definition secret_key :: "string \<Rightarrow> bool" where
  "secret_key k = list_ex (contains (lower k)) secret_words"

definition pointer_key :: "string \<Rightarrow> bool" where
  "pointer_key k = list_ex (\<lambda>s. suffix s k) [''_FILE'', ''_DIR'', ''_PATH'']"

definition plaintext_secret :: "string \<Rightarrow> bool" where
  "plaintext_secret k = (secret_key k \<and> \<not> pointer_key k)"

section \<open>The environment of a decision\<close>

record gov_env =
  ge_fs :: os_fs
  ge_chip :: string
  ge_loads :: "string \<Rightarrow> json option"
  ge_hash :: "string \<Rightarrow> string"
  ge_tlc :: "string \<Rightarrow> bool option \<times> string \<times> string"
  ge_tree :: skill_tree

record gov_opts =
  go_scope :: json
  go_actor :: string
  go_local_dev :: bool
  go_tier :: json
  go_strict :: bool
  go_now :: rat
  go_budget :: bool
  go_balance :: "money option"
  go_configured :: bool

record verdict =
  v_decision :: string
  v_problems :: "json list"
  v_destructive :: json
  v_skill :: json
  v_cargo :: json
  v_approved :: "json list"
  v_plan :: json
  v_sha :: json
  v_seq :: json
  v_tlc :: json
  v_tla :: json
  v_log :: json
  v_cost :: json
  v_needs :: "string list"

definition rejected :: "json list \<Rightarrow> verdict" where
  "rejected ps = \<lparr>v_decision = ''reject'', v_problems = ps, v_destructive = JNull, v_skill = JNull, v_cargo = JNull, v_approved = [],
     v_plan = JNull, v_sha = JNull, v_seq = JNull, v_tlc = JNull, v_tla = JNull, v_log = JNull, v_cost = JNull, v_needs = []\<rparr>"

definition problem :: "string \<Rightarrow> json \<Rightarrow> json" where
  "problem i d = JObj [(''id'', JStr i), (''detail'', d)]"

definition strs :: "string list \<Rightarrow> json" where "strs xs = JList (map JStr xs)"

definition text_of :: "json \<Rightarrow> string res" where
  "text_of v = (case v of JStr s \<Rightarrow> Inr s | _ \<Rightarrow> Inl TypeError)"

definition claim_keys :: "json \<Rightarrow> json list res" where
  "claim_keys ledger = as_list (py_or (jget ledger ''var_keys'') (py_or (jget ledger ''vars'') (JList [])))"

definition key_problems :: "string list \<Rightarrow> json list" where
  "key_problems keys =
     (let bad = filter (\<lambda>k. \<not> valid_key k) keys; sec = filter plaintext_secret keys
      in (if bad = [] then [] else [problem ''bad_var_key'' (strs bad)])
         @ (if sec = [] then [] else [problem ''plaintext_secret_key'' (strs sec)]))"

text \<open>The contract, the blueprint and the perks of a claim; \<open>None\<close> is the rejected case.\<close>

definition read_registry :: "gov_env \<Rightarrow> string \<Rightarrow> string \<Rightarrow> (json \<times> json \<times> json) option res" where
  "read_registry E skill perk =
     (let F = ge_fs E; sdir = skill_dir F (ge_chip E) (JStr skill); pdir = perk_path F (ge_chip E) skill perk;
          r = bindR (load_json (ge_loads E) F (os_joins pdir [''src'', ''contracts.json''])) (\<lambda>c.
              bindR (load_json (ge_loads E) F (os_join sdir ''blueprint.json'')) (\<lambda>b.
              bindR (load_json (ge_loads E) F (perks_file sdir)) (\<lambda>p.
              bindR (if is_obj p then item p ''perks'' else Inl TypeError) (\<lambda>ps. Inr (c, b, ps)))))
      in case r of Inr x \<Rightarrow> Inr (Some x)
         | Inl e \<Rightarrow> if e \<in> {OSError, PermissionError, ValueError, JSONDecodeError, KeyError} then Inr None else Inl e)"

fun declared_destructive :: "string \<Rightarrow> json list \<Rightarrow> json res" where
  "declared_destructive perk [] = Inr (JBool False)"
| "declared_destructive perk (p # ps) =
     (if \<not> is_obj p then Inl AttributeError
      else if jget p ''id'' = JStr perk then Inr (jget_or p ''destructive'' (JBool False))
      else declared_destructive perk ps)"

definition perk_ids :: "json list \<Rightarrow> json list res" where
  "perk_ids ps = mapR (\<lambda>p. if is_obj p then Inr (jget p ''id'') else Inl AttributeError) ps"

definition missing_inputs :: "json \<Rightarrow> string list \<Rightarrow> json list res" where
  "missing_inputs contract keys =
     bindR (get_items contract ''inputs'') (\<lambda>ins.
     bindR (mapR (\<lambda>(k, spec). bindR (py_get spec ''required'' JNull) (\<lambda>r. Inr (k, truthy r))) ins) (\<lambda>rs.
       Inr (map (\<lambda>(k, _). problem ''missing_input'' (JStr k)) (filter (\<lambda>(k, req). req \<and> k \<notin> set keys) rs))))"

definition compose_problems :: "gov_env \<Rightarrow> json \<Rightarrow> (json list \<times> string \<times> string \<times> string) res" where
  "compose_problems E bpj =
     bindR (blueprint_of bpj) (\<lambda>bp.
       let tla = emit_module bp ''task''; (ok, msg, out) = ge_tlc E tla
       in Inr (map (\<lambda>i. problem ''structural'' (JStr (issue_text i))) (structural bp)
               @ (if ok = Some False then [problem ''deadlock_tlc'' (JStr msg)] else []), msg, tla, out))"

definition mode_of :: "json \<Rightarrow> string" where
  "mode_of cfg = (case py_or (jget cfg ''mode'') (JStr ''local'') of JStr m \<Rightarrow> m | _ \<Rightarrow> [])"

definition skill_policy :: "gov_env \<Rightarrow> string \<Rightarrow> json" where
  "skill_policy E skill =
     (let p = os_join (skill_dir (ge_fs E) (ge_chip E) (JStr skill)) ''access.json''
      in load_access (ge_loads E)
           (if f_isfile (ge_fs E) p then Some (case f_read (ge_fs E) p of Some t \<Rightarrow> Inr t | None \<Rightarrow> Inl OSError) else None))"

definition access_problem_id :: "access_problem \<Rightarrow> string" where
  "access_problem_id p = (case p of SkillRemoteClosed \<Rightarrow> ''skill_remote_closed'' | SkillPrincipalDenied _ \<Rightarrow> ''skill_principal_denied''
     | SkillTierBelowFloor _ _ \<Rightarrow> ''skill_tier_below_floor'')"

definition budget_problem_id :: "budget_problem \<Rightarrow> string" where
  "budget_problem_id p = (case p of BudgetUnmetered _ \<Rightarrow> ''budget_unmetered'' | BudgetUnavailable _ \<Rightarrow> ''budget_unavailable''
     | InsufficientCredits _ _ _ \<Rightarrow> ''insufficient_credits'')"

definition claim_of :: "json \<Rightarrow> string \<Rightarrow> string \<Rightarrow> json \<Rightarrow> json \<Rightarrow> json \<Rightarrow> claim" where
  "claim_of ledger skill perk tier destructive plan =
     \<lparr>cl_skill = skill, cl_perk = perk, cl_tier = tier, cl_destructive = truthy destructive,
      cl_credentialed = truthy (jget plan ''credential_ids''), cl_parameterized = truthy (jget ledger ''binds''),
      cl_cargo = py_or (jget ledger ''cargo'') JNull\<rparr>"

definition opt_problem :: "('a \<Rightarrow> string) \<Rightarrow> 'a option \<Rightarrow> json list" where
  "opt_problem f p = (case p of None \<Rightarrow> [] | Some x \<Rightarrow> [problem (f x) JNull])"

section \<open>The last gates and the verdict\<close>

text \<open>The credit gate prices only a claim nothing else stands against.\<close>

definition budget_gate :: "gov_env \<Rightarrow> json \<Rightarrow> gov_opts \<Rightarrow> string \<Rightarrow> string \<Rightarrow> bool \<Rightarrow> (json list \<times> json) res" where
  "budget_gate E cfg go skill perk free =
     (if \<not> (go_budget go \<and> free) then Inr ([], JNull)
      else bindR (credit_price (ge_tree E) skill perk (jget cfg ''pricing'')) (\<lambda>price.
           bindR (budget_ok (go_actor go) price (go_balance go) (go_configured go)) (\<lambda>(_, p).
             Inr (opt_problem budget_problem_id p, JStr (amount_str price)))))"

definition unapproved :: "json list \<Rightarrow> string \<Rightarrow> json \<Rightarrow> string list" where
  "unapproved approve perk destructive =
     (if truthy destructive \<and> JStr perk \<notin> set approve \<and> JStr ''destructive'' \<notin> set approve then [perk] else [])"

definition access_gates :: "gov_env \<Rightarrow> json \<Rightarrow> gov_opts \<Rightarrow> json \<Rightarrow> string \<Rightarrow> string \<Rightarrow> json \<Rightarrow> json \<Rightarrow> json list res" where
  "access_gates E cfg go ledger skill perk destructive plan =
     bindR (perk_sandbox_tier (ge_loads E) (ge_fs E) (ge_chip E) skill perk) (\<lambda>tier.
     bindR (acl_allows (go_scope go) (claim_of ledger skill perk tier destructive plan) (Some (go_now go)) (go_strict go)) (\<lambda>acl.
     bindR (access_allows (skill_policy E skill) (mode_of cfg) (go_local_dev go) (JStr (go_actor go)) (go_tier go)
              (truthy (jget cfg ''skillacl_enforce''))) (\<lambda>sa.
       Inr (opt_problem acl_problem_id acl @ opt_problem access_problem_id sa))))"

text \<open>The claim is known to name a perk of the registry; \<open>ps0\<close> are the problems of its keys.\<close>

definition judge ::
  "gov_env \<Rightarrow> json \<Rightarrow> gov_opts \<Rightarrow> json \<Rightarrow> string \<Rightarrow> string \<Rightarrow> string list \<Rightarrow> json list \<Rightarrow> json \<Rightarrow> json \<Rightarrow> json \<Rightarrow> verdict res" where
  "judge E cfg go ledger skill perk keys approve contract bpj destructive =
     bindR (verify_index (ge_loads E) (ge_hash E) (ge_fs E) (ge_chip E) skill) (\<lambda>(ok, drift).
     bindR (missing_inputs contract keys) (\<lambda>missing.
     bindR (compose_problems E bpj) (\<lambda>(cps, msg, tla, out).
       let ps1 = key_problems keys @ (if ok then [] else [problem ''registry_drift'' (strs (take 5 drift))]) @ missing @ cps
       in case build_plan (ge_loads E) (ge_fs E) (ge_chip E) skill perk of
            Inl _ \<Rightarrow> Inr (rejected (ps1 @ [problem ''plan_error'' JNull]))
          | Inr plan \<Rightarrow>
              bindR (access_gates E cfg go ledger skill perk destructive plan) (\<lambda>gates.
              let ps2 = ps1 @ gates; needs = unapproved approve perk destructive
              in bindR (budget_gate E cfg go skill perk (ps2 = [] \<and> needs = [])) (\<lambda>(bps, cost).
                   let ps = ps2 @ bps; d = (if ps \<noteq> [] then ''reject'' else if needs \<noteq> [] then ''push_back'' else ''allow'')
                   in Inr \<lparr>v_decision = d, v_problems = ps, v_destructive = destructive, v_skill = JStr skill,
                           v_cargo = (if d = ''allow'' then py_or (jget ledger ''cargo'') JNull else JNull),
                           v_approved = filter (\<lambda>a. a \<in> {JStr perk, JStr ''destructive''}) approve,
                           v_plan = plan, v_sha = JStr (plan_sha (ge_hash E) plan), v_seq = jget plan ''sequence'',
                           v_tlc = JStr msg, v_tla = JStr tla, v_log = JStr out, v_cost = cost, v_needs = needs\<rparr>)))))"

definition govern :: "gov_env \<Rightarrow> json \<Rightarrow> gov_opts \<Rightarrow> json \<Rightarrow> verdict res" where
  "govern E cfg go ledger =
     bindR (claim_keys ledger) (\<lambda>keys0. bindR (as_list (jget_or ledger ''approve'' (JList []))) (\<lambda>approve.
       if \<not> truthy (jget ledger ''skill'') \<or> \<not> truthy (jget ledger ''perk'') then Inr (rejected [problem ''missing_skill_or_perk'' JNull])
       else let skill = canonical_id (ge_fs E) (ge_chip E) (jget ledger ''skill'') in
         if skill = ambiguous_id then Inr (rejected [problem ''ambiguous_skill_id'' (jget ledger ''skill'')])
         else if \<not> valid_skill_name (jget ledger ''perk'')
         then Inr (rejected [problem ''noncanonical_name'' (JStr (skill @ ''/'' @ py_str (jget ledger ''perk'')))])
         else let perk = py_str (jget ledger ''perk'') in
           if \<not> f_isdir (ge_fs E) (perk_path (ge_fs E) (ge_chip E) skill perk)
           then Inr (rejected [problem ''unknown_skill_perk'' (JStr (skill @ ''/'' @ perk))])
           else bindR (mapR text_of keys0) (\<lambda>keys.
                bindR (read_registry E skill perk) (\<lambda>reg. case reg of
                  None \<Rightarrow> Inr (rejected [problem ''registry_error'' JNull])
                | Some (contract, bpj, perks) \<Rightarrow>
                    bindR (as_list perks) (\<lambda>ps. bindR (declared_destructive perk ps) (\<lambda>destructive.
                    bindR (all_skills (ge_loads E) (ge_fs E) (ge_chip E)) (\<lambda>sks. bindR (perk_ids ps) (\<lambda>ids.
                      if skill \<notin> set sks \<or> JStr perk \<notin> set ids
                      then Inr (rejected [problem ''noncanonical_name'' (JStr (skill @ ''/'' @ perk))])
                      else judge E cfg go ledger skill perk keys approve contract bpj destructive))))))))"

section \<open>Nothing passes but through every gate\<close>

lemma verdict_judged:
  assumes "govern E cfg go ledger = Inr v" and "v_decision v \<noteq> ''reject'' \<or> v_skill v \<noteq> JNull"
  obtains skill perk keys approve contract bpj perks destructive where
    "canonical_id (ge_fs E) (ge_chip E) (jget ledger ''skill'') = skill" "skill \<noteq> ambiguous_id"
    "jget ledger ''perk'' = JStr perk" "valid_name perk"
    "claim_keys ledger = Inr (map JStr keys)" "as_list (jget_or ledger ''approve'' (JList [])) = Inr approve"
    "\<exists>ps. read_registry E skill perk = Inr (Some (contract, bpj, ps)) \<and> as_list ps = Inr perks"
    "\<exists>ids. perk_ids perks = Inr ids \<and> JStr perk \<in> set ids"
    "declared_destructive perk perks = Inr destructive"
    "\<exists>sks. all_skills (ge_loads E) (ge_fs E) (ge_chip E) = Inr sks \<and> skill \<in> set sks"
    "judge E cfg go ledger skill perk keys approve contract bpj destructive = Inr v"
proof -
  have rej: "v = rejected ps \<Longrightarrow> False" for ps using assms(2) by (simp add: rejected_def)
  note r = assms(1) [unfolded govern_def bindR_eq_Inr Let_def]
  from r obtain keys0 approve where k: "claim_keys ledger = Inr keys0" "as_list (jget_or ledger ''approve'' (JList [])) = Inr approve" by blast
  let ?skill = "canonical_id (ge_fs E) (ge_chip E) (jget ledger ''skill'')"
  have sp: "truthy (jget ledger ''skill'')" "truthy (jget ledger ''perk'')" "?skill \<noteq> ambiguous_id" "valid_skill_name (jget ledger ''perk'')"
    using r k rej by (fastforce split: if_splits)+
  then obtain perk where perk: "jget ledger ''perk'' = JStr perk" "valid_name perk"
    by (auto simp: valid_skill_name_def split: json.splits)
  have d: "f_isdir (ge_fs E) (perk_path (ge_fs E) (ge_chip E) ?skill perk)"
    using r k sp perk rej by (fastforce simp: py_str_def split: if_splits)
  from r k sp perk d obtain keys reg where kr: "mapR text_of keys0 = Inr keys" "read_registry E ?skill perk = Inr reg"
    by (auto simp: py_str_def bindR_eq_Inr)
  have "list_all2 (\<lambda>x y. x = JStr y) keys0 keys"
    using kr(1) by (auto simp: mapR_eq_Inr text_of_def elim!: list_all2_mono split: json.splits)
  then have keys: "keys0 = map JStr keys" by (induction rule: list_all2_induct) auto
  obtain contract bpj ps where reg: "reg = Some (contract, bpj, ps)"
    using r k sp perk d kr rej by (cases reg) (auto simp: py_str_def bindR_eq_Inr)
  show ?thesis
    using r k sp perk d kr reg keys rej
    by (auto simp: py_str_def bindR_eq_Inr split: if_splits intro!: that [of ?skill perk keys approve contract bpj])
qed

lemma opt_problem_none: "opt_problem f p = [] \<longleftrightarrow> p = None"
  by (cases p) (simp_all add: opt_problem_def)

lemma key_problems_none: "key_problems keys = [] \<longleftrightarrow> list_all (\<lambda>k. valid_key k \<and> \<not> plaintext_secret k) keys"
  by (auto simp: key_problems_def Let_def filter_empty_conv list_all_iff)

lemma budget_gate_clear:
  assumes "budget_gate E cfg go skill perk True = Inr ([], cost)" and "go_budget go"
  shows "\<exists>price bal. credit_price (ge_tree E) skill perk (jget cfg ''pricing'') = Inr price \<and> go_balance go = Some bal
     \<and> go_configured go \<and> money_lt bal price = Inr False \<and> cost = JStr (amount_str price)"
  using assms by (auto simp: budget_gate_def budget_ok_def bindR_eq_Inr opt_problem_none split: if_splits option.splits)

text \<open>What stands behind an allowed claim, gate by gate.\<close>

definition gates_open :: "gov_env \<Rightarrow> json \<Rightarrow> gov_opts \<Rightarrow> json \<Rightarrow> string \<Rightarrow> string \<Rightarrow> string list \<Rightarrow> json list \<Rightarrow> json \<Rightarrow> json \<Rightarrow> json \<Rightarrow> json \<Rightarrow> bool" where
  "gates_open E cfg go ledger skill perk keys approve contract bpj destructive plan \<longleftrightarrow>
     list_all (\<lambda>k. valid_key k \<and> \<not> plaintext_secret k) keys
     \<and> (\<exists>drift. verify_index (ge_loads E) (ge_hash E) (ge_fs E) (ge_chip E) skill = Inr (True, drift))
     \<and> missing_inputs contract keys = Inr []
     \<and> (\<exists>bp. blueprint_of bpj = Inr bp \<and> structural bp = [] \<and> fst (ge_tlc E (emit_module bp ''task'')) \<noteq> Some False)
     \<and> build_plan (ge_loads E) (ge_fs E) (ge_chip E) skill perk = Inr plan
     \<and> (\<exists>tier. perk_sandbox_tier (ge_loads E) (ge_fs E) (ge_chip E) skill perk = Inr tier
           \<and> acl_allows (go_scope go) (claim_of ledger skill perk tier destructive plan) (Some (go_now go)) (go_strict go) = Inr None)
     \<and> access_allows (skill_policy E skill) (mode_of cfg) (go_local_dev go) (JStr (go_actor go)) (go_tier go)
           (truthy (jget cfg ''skillacl_enforce'')) = Inr None"

definition credits_suffice :: "gov_env \<Rightarrow> json \<Rightarrow> gov_opts \<Rightarrow> string \<Rightarrow> string \<Rightarrow> bool" where
  "credits_suffice E cfg go skill perk \<longleftrightarrow>
     (\<exists>price bal. credit_price (ge_tree E) skill perk (jget cfg ''pricing'') = Inr price \<and> go_balance go = Some bal
        \<and> go_configured go \<and> money_lt bal price = Inr False)"

lemma compose_clear:
  assumes "compose_problems E bpj = Inr ([], msg, tla, out)"
  shows "\<exists>bp. blueprint_of bpj = Inr bp \<and> structural bp = [] \<and> fst (ge_tlc E (emit_module bp ''task'')) \<noteq> Some False"
proof -
  from assms obtain bp where bp: "blueprint_of bpj = Inr bp" by (auto simp: compose_problems_def bindR_eq_Inr)
  obtain ok m o' where t: "ge_tlc E (emit_module bp ''task'') = (ok, m, o')" by (cases "ge_tlc E (emit_module bp ''task'')")
  show ?thesis using assms bp t by (auto simp: compose_problems_def split: if_splits)
qed

lemma judge_clear:
  assumes "judge E cfg go ledger skill perk keys approve contract bpj destructive = Inr v" and "v_decision v \<noteq> ''reject''"
  shows "gates_open E cfg go ledger skill perk keys approve contract bpj destructive (v_plan v)
    \<and> v_problems v = [] \<and> v_destructive v = destructive \<and> v_skill v = JStr skill \<and> v_sha v = JStr (plan_sha (ge_hash E) (v_plan v))
    \<and> v_needs v = unapproved approve perk destructive
    \<and> v_decision v = (if v_needs v = [] then ''allow'' else ''push_back'')
    \<and> (go_budget go \<longrightarrow> v_needs v = [] \<longrightarrow> credits_suffice E cfg go skill perk)"
proof -
  have rej: "v = rejected ps \<Longrightarrow> False" for ps using assms(2) by (simp add: rejected_def)
  note r = assms(1) [unfolded judge_def bindR_eq_Inr Let_def]
  obtain ok drift where ix: "verify_index (ge_loads E) (ge_hash E) (ge_fs E) (ge_chip E) skill = Inr (ok, drift)"
    using r by (cases "verify_index (ge_loads E) (ge_hash E) (ge_fs E) (ge_chip E) skill") auto
  from r ix obtain missing where ms: "missing_inputs contract keys = Inr missing" by (auto simp: bindR_eq_Inr)
  from r ix ms obtain cps msg tla out where cp: "compose_problems E bpj = Inr (cps, msg, tla, out)" by (auto simp: bindR_eq_Inr)
  from r ix ms cp rej obtain plan where pl: "build_plan (ge_loads E) (ge_fs E) (ge_chip E) skill perk = Inr plan"
    by (cases "build_plan (ge_loads E) (ge_fs E) (ge_chip E) skill perk") auto
  from r ix ms cp pl obtain gates where g: "access_gates E cfg go ledger skill perk destructive plan = Inr gates"
    by (auto simp: bindR_eq_Inr)
  let ?ps1 = "key_problems keys @ (if ok then [] else [problem ''registry_drift'' (strs (take 5 drift))]) @ missing @ cps"
  from r ix ms cp pl g obtain bps cost where b: "budget_gate E cfg go skill perk (?ps1 @ gates = [] \<and> unapproved approve perk destructive = []) = Inr (bps, cost)"
    by (auto simp: bindR_eq_Inr)
  have v: "v_problems v = (?ps1 @ gates) @ bps" "v_destructive v = destructive" "v_skill v = JStr skill" "v_plan v = plan"
    "v_sha v = JStr (plan_sha (ge_hash E) plan)" "v_needs v = unapproved approve perk destructive"
    "v_decision v = (if (?ps1 @ gates) @ bps \<noteq> [] then ''reject'' else if unapproved approve perk destructive \<noteq> [] then ''push_back'' else ''allow'')"
    using r ix ms cp pl g b by auto
  have clear: "(?ps1 @ gates) @ bps = []" using assms(2) v(7) by (simp split: if_splits)
  have "gates = []" using clear by simp
  then obtain tier where t: "perk_sandbox_tier (ge_loads E) (ge_fs E) (ge_chip E) skill perk = Inr tier"
      "acl_allows (go_scope go) (claim_of ledger skill perk tier destructive plan) (Some (go_now go)) (go_strict go) = Inr None"
      "access_allows (skill_policy E skill) (mode_of cfg) (go_local_dev go) (JStr (go_actor go)) (go_tier go) (truthy (jget cfg ''skillacl_enforce'')) = Inr None"
    using g by (auto simp: access_gates_def bindR_eq_Inr opt_problem_none)
  have "ok" "missing = []" "cps = []" using clear by (auto split: if_splits)
  then have "gates_open E cfg go ledger skill perk keys approve contract bpj destructive plan"
    using ix ms compose_clear [of E bpj msg tla out] cp pl t clear by (simp add: gates_open_def key_problems_none)
  moreover have "go_budget go \<longrightarrow> unapproved approve perk destructive = [] \<longrightarrow> credits_suffice E cfg go skill perk"
    using b clear budget_gate_clear [of E cfg go skill perk cost] by (auto simp: credits_suffice_def)
  ultimately show ?thesis using v clear by auto
qed

text \<open>
  What the registry holds of a perk: its contract, the blueprint of its skill, and the entries of the skill's list
  of perks, each read from its file. The perk's own entry is the first that bears its id; every entry is an object.
\<close>

definition registered :: "gov_env \<Rightarrow> string \<Rightarrow> string \<Rightarrow> json \<Rightarrow> json \<Rightarrow> json list \<Rightarrow> bool" where
  "registered E skill perk contract bpj perks \<longleftrightarrow>
     (let F = ge_fs E; sdir = skill_dir F (ge_chip E) (JStr skill); src = os_join (perk_path F (ge_chip E) skill perk) ''src''
      in load_json (ge_loads E) F (os_join src ''contracts.json'') = Inr contract
         \<and> load_json (ge_loads E) F (os_join sdir ''blueprint.json'') = Inr bpj
         \<and> (\<exists>pj. load_json (ge_loads E) F (os_join sdir ''perks.json'') = Inr pj \<and> jget pj ''perks'' = JList perks))"

definition own_entry :: "string \<Rightarrow> json list \<Rightarrow> json \<Rightarrow> bool" where
  "own_entry perk perks p \<longleftrightarrow>
     (\<exists>before after. perks = before @ p # after \<and> jget p ''id'' = JStr perk \<and> (\<forall>q \<in> set before. jget q ''id'' \<noteq> JStr perk))"

lemma perk_ids_objects: "perk_ids ps = Inr ids \<Longrightarrow> (\<forall>p \<in> set ps. is_obj p) \<and> set ids = (\<lambda>p. jget p ''id'') ` set ps"
  by (induction ps arbitrary: ids) (auto simp: perk_ids_def bindR_eq_Inr split: if_splits)

lemma declared_entry:
  assumes "declared_destructive perk perks = Inr d" and "JStr perk \<in> (\<lambda>p. jget p ''id'') ` set perks"
  shows "\<exists>p. own_entry perk perks p \<and> d = jget_or p ''destructive'' (JBool False)"
  using assms
proof (induction perk perks rule: declared_destructive.induct)
  case (2 perk p ps)
  show ?case
  proof (cases "jget p ''id'' = JStr perk")
    case True
    then have "own_entry perk (p # ps) p" unfolding own_entry_def by (intro exI [of _ "[]"] exI [of _ ps]) simp
    then show ?thesis using 2 True by (auto split: if_splits)
  next
    case False
    then obtain q where q: "own_entry perk ps q" "d = jget_or q ''destructive'' (JBool False)"
      using 2 by (auto split: if_splits)
    then obtain b a where "ps = b @ q # a" "jget q ''id'' = JStr perk" "\<forall>x \<in> set b. jget x ''id'' \<noteq> JStr perk" by (auto simp: own_entry_def)
    then have "own_entry perk (p # ps) q" unfolding own_entry_def using False by (intro exI [of _ "p # b"] exI [of _ a]) simp
    then show ?thesis using q(2) by blast
  qed
qed simp

lemma as_list_objects:
  assumes "as_list v = Inr xs" and "\<forall>x \<in> set xs. is_obj x" and "xs \<noteq> []"
  shows "v = JList xs"
proof -
  have "is_obj (hd xs)" using assms(2,3) by simp
  then show ?thesis using assms(1,3) by (cases v; cases xs) (auto simp: as_list_def is_obj_def)
qed

lemma read_registered:
  assumes "read_registry E skill perk = Inr (Some (contract, bpj, ps))" and "as_list ps = Inr perks"
    and "perk_ids perks = Inr ids" and "JStr perk \<in> set ids"
  shows "registered E skill perk contract bpj perks"
proof -
  have i: "item x k = Inr v \<Longrightarrow> jget x k = v" for x k v
    by (cases x) (simp_all add: item_def jget_def obj_members_def split: option.splits)
  have "perks \<noteq> []" using assms(3,4) by (auto simp: perk_ids_def)
  then have "ps = JList perks" using as_list_objects [OF assms(2)] perk_ids_objects [OF assms(3)] by blast
  then show ?thesis using assms(1)
    by (auto simp: read_registry_def registered_def Let_def bindR_eq_Inr os_joins_def perks_file_def dest: i split: sum.splits if_splits)
qed

text \<open>Every input the contract requires is among the keys the claim declares.\<close>

definition inputs_declared :: "json \<Rightarrow> string list \<Rightarrow> bool" where
  "inputs_declared contract keys \<longleftrightarrow>
     (\<forall>k spec. (k, spec) \<in> set (obj_members (jget contract ''inputs'')) \<longrightarrow> truthy (jget spec ''required'') \<longrightarrow> k \<in> set keys)"

lemma missing_none:
  assumes "missing_inputs contract keys = Inr []"
  shows "inputs_declared contract keys"
proof -
  let ?f = "\<lambda>(k, spec). bindR (py_get spec ''required'' JNull) (\<lambda>r. Inr (k :: string, truthy r))"
  obtain ins rs where ins: "get_items contract ''inputs'' = Inr ins" and rs: "mapR ?f ins = Inr rs" "filter (\<lambda>(k, req). req \<and> k \<notin> set keys) rs = []"
    using assms by (auto simp: missing_inputs_def bindR_eq_Inr)
  have same: "obj_members (jget contract ''inputs'') = ins"
    using ins by (cases contract) (auto simp: get_items_def py_get_def bindR_eq_Inr jget_or_def jget_def obj_members_def is_obj_def split: if_splits option.splits)
  have "k \<in> set keys" if "(k, spec) \<in> set ins" "truthy (jget spec ''required'')" for k spec
  proof -
    obtain i where i: "i < length ins" "ins ! i = (k, spec)" using \<open>(k, spec) \<in> set ins\<close> by (meson in_set_conv_nth)
    have all: "list_all2 (\<lambda>x y. ?f x = Inr y) ins rs" using rs(1) by (simp only: mapR_eq_Inr)
    have "?f (k, spec) = Inr (rs ! i)" "rs ! i \<in> set rs" using list_all2_nthD [OF all i(1)] i list_all2_lengthD [OF all] by simp_all
    then obtain y where y: "y \<in> set rs" "?f (k, spec) = Inr y" by blast
    have "jget_or spec ''required'' JNull = jget spec ''required''" by (cases spec) (simp_all add: jget_or_def jget_def obj_members_def split: option.splits)
    then have "y = (k, True)" using y(2) that(2) by (auto simp: py_get_def bindR_eq_Inr split: if_splits)
    then show ?thesis using y(1) rs(2) by (auto simp: filter_empty_conv)
  qed
  then show ?thesis unfolding inputs_declared_def same by blast
qed

text \<open>
  C5: no claim is blessed but through every gate. A verdict other than a rejection is about the canonical
  id of the claimed skill, which the chip's manifest lets load and whose files match their index, and about a perk
  whose contract, blueprint and list entry are those of the registry's files; every key is a shell name and no
  plain-text secret; every input that contract requires is among the keys; that blueprint is clean and
  the model checker has not found a deadlock; the plan is the one compiled from the registry, under its
  hash; the actor's access list and the skill's own policy both admit the claim. Whether the perk is destructive is
  what its own entry says, whatever the claim says. An allowed claim is, besides,
  approved when the perk is destructive, and within the actor's credits when they are
  metered; a push-back is exactly the claim that lacks that approval.
\<close>

theorem claim_passes_every_gate:
  assumes "govern E cfg go ledger = Inr v" and "v_decision v \<noteq> ''reject''"
  shows "\<exists>skill perk keys approve contract bpj perks.
     canonical_id (ge_fs E) (ge_chip E) (jget ledger ''skill'') = skill \<and> v_skill v = JStr skill \<and> skill \<noteq> ambiguous_id
     \<and> jget ledger ''perk'' = JStr perk \<and> valid_name perk
     \<and> claim_keys ledger = Inr (map JStr keys) \<and> as_list (jget_or ledger ''approve'' (JList [])) = Inr approve
     \<and> (\<exists>sks. all_skills (ge_loads E) (ge_fs E) (ge_chip E) = Inr sks \<and> skill \<in> set sks)
     \<and> registered E skill perk contract bpj perks
     \<and> (\<exists>p. own_entry perk perks p \<and> v_destructive v = jget_or p ''destructive'' (JBool False))
     \<and> inputs_declared contract keys
     \<and> declared_destructive perk perks = Inr (v_destructive v)
     \<and> gates_open E cfg go ledger skill perk keys approve contract bpj (v_destructive v) (v_plan v)
     \<and> v_sha v = JStr (plan_sha (ge_hash E) (v_plan v))
     \<and> (v_decision v = (if truthy (v_destructive v) \<and> JStr perk \<notin> set approve \<and> JStr ''destructive'' \<notin> set approve
                          then ''push_back'' else ''allow''))
     \<and> (v_decision v = ''allow'' \<longrightarrow> go_budget go \<longrightarrow> credits_suffice E cfg go skill perk)"
proof (rule verdict_judged [OF assms(1) disjI1 [OF assms(2)]])
  fix skill perk keys approve contract bpj perks destructive
  assume a: "canonical_id (ge_fs E) (ge_chip E) (jget ledger ''skill'') = skill" "skill \<noteq> ambiguous_id" "jget ledger ''perk'' = JStr perk" "valid_name perk"
    "claim_keys ledger = Inr (map JStr keys)" "as_list (jget_or ledger ''approve'' (JList [])) = Inr approve"
    "declared_destructive perk perks = Inr destructive"
    "\<exists>sks. all_skills (ge_loads E) (ge_fs E) (ge_chip E) = Inr sks \<and> skill \<in> set sks"
    "judge E cfg go ledger skill perk keys approve contract bpj destructive = Inr v"
    and reg: "\<exists>ps. read_registry E skill perk = Inr (Some (contract, bpj, ps)) \<and> as_list ps = Inr perks"
    and ids: "\<exists>ids. perk_ids perks = Inr ids \<and> JStr perk \<in> set ids"
  note j = judge_clear [OF a(9) assms(2)]
  have d: "v_decision v = (if truthy destructive \<and> JStr perk \<notin> set approve \<and> JStr ''destructive'' \<notin> set approve then ''push_back'' else ''allow'')"
    using j by (simp add: unapproved_def)
  have c: "v_decision v = ''allow'' \<longrightarrow> go_budget go \<longrightarrow> credits_suffice E cfg go skill perk"
    using j by (simp split: if_splits)
  have e: "v_destructive v = destructive" "v_skill v = JStr skill" "v_sha v = JStr (plan_sha (ge_hash E) (v_plan v))"
    "gates_open E cfg go ledger skill perk keys approve contract bpj destructive (v_plan v)" using j by auto
  have r: "registered E skill perk contract bpj perks" using reg ids read_registered by blast
  have p: "\<exists>p. own_entry perk perks p \<and> destructive = jget_or p ''destructive'' (JBool False)"
    using declared_entry [OF a(7)] ids perk_ids_objects by blast
  have m: "inputs_declared contract keys" using e(4) missing_none by (simp add: gates_open_def)
  show ?thesis unfolding e(1)
    by (rule exI [of _ skill], rule exI [of _ perk], rule exI [of _ keys], rule exI [of _ approve], rule exI [of _ contract],
        rule exI [of _ bpj], rule exI [of _ perks], intro conjI) (fact a e c d r p m)+
qed

definition sample_env :: gov_env where
  "sample_env =
     \<lparr>ge_fs = \<lparr>f_isdir = (\<lambda>p. p \<in> {''/c'', ''/c/cws'', ''/c/cws/fs'', ''/c/cws/fs/perks/rm''}),
        f_isfile = (\<lambda>p. p \<in> {''/c/index.json'', ''/c/cws/fs/perks.json'', ''/c/cws/fs/index.json''}),
        f_listdir = (\<lambda>p. if p = ''/c'' then [''cws''] else [''fs'']), f_read = Some, f_walk = (\<lambda>_. [])\<rparr>,
      ge_chip = ''/c'',
      ge_loads = (\<lambda>t. if t = ''/c/index.json'' then Some (JObj [(''skills'', JList [JObj [(''skill'', JStr ''cws:fs'')]])])
        else if t = ''/c/cws/fs/index.json'' then Some (JObj [(''files'', JObj [])])
        else if t = ''/c/cws/fs/perks.json'' then Some (JObj [(''perks'', JList [JObj [(''id'', JStr ''rm''), (''destructive'', JBool True)]])])
        else if t = ''/c/cws/fs/blueprint.json'' then
          Some (JObj [(''states'', JList [JStr ''a'', JStr ''z'']), (''terminal_states'', JList [JStr ''z'']), (''entry_state'', JStr ''a''),
                      (''transitions'', JList [JObj [(''from'', JStr ''a''), (''to'', JStr ''z'')]])])
        else if t = ''/c/cws/fs/perks/rm/src/contracts.json'' then
          Some (JObj [(''inputs'', JObj [(''DIR'', JObj [(''required'', JBool True)])])])
        else if t = ''/c/cws/fs/perks/rm/manifesto.json'' then Some (JObj [(''sequence'', JList [JStr ''rm''])]) else None),
      ge_hash = (\<lambda>s. s), ge_tlc = (\<lambda>_. (None, ''skipped'', [])),
      ge_tree = \<lparr>rd = (\<lambda>_. []), ls = (\<lambda>_. None), sdir = (\<lambda>s. s), skill_tree.loads = (\<lambda>_. None)\<rparr>\<rparr>"

definition sample_opts :: gov_opts where
  "sample_opts = \<lparr>go_scope = JNull, go_actor = ''ann'', go_local_dev = False, go_tier = JNull, go_strict = False, go_now = 0,
     go_budget = False, go_balance = None, go_configured = False\<rparr>"

definition sample_claim :: "json list \<Rightarrow> string list \<Rightarrow> json" where
  "sample_claim approve keys = JObj [(''skill'', JStr ''fs''), (''perk'', JStr ''rm''), (''var_keys'', strs keys), (''approve'', JList approve)]"

definition decision_of :: "verdict res \<Rightarrow> string" where
  "decision_of r = (case r of Inl _ \<Rightarrow> ''raised'' | Inr v \<Rightarrow> v_decision v)"

lemma sample_decisions:
  "decision_of (govern sample_env (JObj []) sample_opts (sample_claim [JStr ''rm''] [''DIR''])) = ''allow''"
  "decision_of (govern sample_env (JObj []) sample_opts (sample_claim [] [''DIR''])) = ''push_back''"
  by code_simp+

theorem claim_passes_every_gate_witness:
  "\<exists>v w. govern sample_env (JObj []) sample_opts (sample_claim [JStr ''rm''] [''DIR'']) = Inr v \<and> v_decision v = ''allow'' \<and> v_skill v = JStr ''cws:fs''
     \<and> govern sample_env (JObj []) sample_opts (sample_claim [] [''DIR'']) = Inr w \<and> v_decision w = ''push_back'' \<and> truthy (v_destructive w)"
proof -
  obtain v w where v: "govern sample_env (JObj []) sample_opts (sample_claim [JStr ''rm''] [''DIR'']) = Inr v" "v_decision v = ''allow''"
    and w: "govern sample_env (JObj []) sample_opts (sample_claim [] [''DIR'']) = Inr w" "v_decision w = ''push_back''"
    using sample_decisions by (auto simp: decision_of_def split: sum.splits)
  have c: "canonical_id (ge_fs sample_env) (ge_chip sample_env) (jget (sample_claim [JStr ''rm''] [''DIR'']) ''skill'') = ''cws:fs''"
    by code_simp
  have "v_skill v = JStr ''cws:fs''" using claim_passes_every_gate [OF v(1)] v(2) unfolding c by auto
  moreover have "truthy (v_destructive w)" using claim_passes_every_gate [OF w(1)] w(2) by (auto split: if_splits)
  ultimately show ?thesis using v w by blast
qed

text \<open>The pattern of a key lets a final line feed through.\<close>

lemma key_with_line_feed: "valid_key (''DIR'' @ [CHR 0x0A])"
  by (simp add: valid_key_def shell_name_def key_start_def key_rest_def)

end
