(* ===== verification/Delegate.thy ===== *)
theory Delegate
  imports Govern
begin

text \<open>
  Delegated execution (\<open>src/infra/govern/delegate.py\<close>): the server stages a workspace from its own
  registry, mints a single-use grant, hands both to the execution daemon and records the signed status
  it answers with. The channel to the daemon is a parameter of \<open>execute_step\<close>; \<open>exod_channel\<close> is the daemon
  of the theory \<open>Exod\<close> at its other end.
\<close>

section \<open>The staged workspace\<close>

record workspace =
  ws_dir :: string
  ws_run :: string
  ws_script :: string
  ws_snip :: "(string, string) dict"
  ws_env :: "(string, json) dict"

record limb =
  l_crypto :: crypto
  l_grant_key :: string
  l_pub :: string
  l_base :: string
  l_fs :: os_fs
  l_chip :: string
  l_loads :: "string \<Rightarrow> json option"

text \<open>The files below a perk's \<open>src\<close> that are copied into the workspace.\<close>

definition copied :: "string list \<Rightarrow> bool" where
  "copied segs \<longleftrightarrow> segs \<noteq> [] \<and> ''__pycache__'' \<notin> set (butlast segs) \<and> \<not> suffix ''.pyc'' (List.last segs) \<and> List.last segs \<noteq> ''.DS_Store''"

definition src_dir :: "os_fs \<Rightarrow> string \<Rightarrow> json \<Rightarrow> string \<Rightarrow> string" where
  "src_dir F chip skill perk = os_joins (skill_dir F chip skill) [''perks'', perk, ''src'']"

definition stage_closure :: "os_fs \<Rightarrow> string \<Rightarrow> (string, string) dict" where
  "stage_closure F src =
     (if f_isdir F src then map (\<lambda>(segs, b). (join_with ''/'' segs, b)) (filter (copied \<circ> fst) (f_walk F src)) else [])"

definition confined_path :: string where
  "confined_path = ''/usr/local/bin:/usr/bin:/bin:/usr/sbin:/sbin''"

definition materialize_workspace :: "limb \<Rightarrow> json \<Rightarrow> workspace res" where
  "materialize_workspace L rec =
     bindR (item_text rec ''run_id'') (\<lambda>run. bindR (text_of (py_or (jget rec ''wrapper'') (JStr []))) (\<lambda>script.
     bindR (item rec ''skill'') (\<lambda>skill. bindR (item_text rec ''perk'') (\<lambda>perk.
       let ws = os_join (l_base L) run; snip = os_join ws ''snip''
       in Inr \<lparr>ws_dir = ws, ws_run = os_join ws ''run.sh'', ws_script = script,
               ws_snip = stage_closure (l_fs L) (src_dir (l_fs L) (l_chip L) skill perk),
               ws_env = [(''PATH'', JStr confined_path), (''SNIP'', JStr snip), (''RECORD_STORE'', JStr (os_join ws ''rec''))]\<rparr>))))"

section \<open>One delegated step\<close>

text \<open>Caller values never replace the fixed environment of a confined step.\<close>

definition with_values :: "(string, json) dict \<Rightarrow> json \<Rightarrow> (string, json) dict res" where
  "with_values env vals =
     (if \<not> truthy vals then Inr env
      else if \<not> is_obj vals then Inl AttributeError
      else Inr (foldl (\<lambda>d (k, v). dput k (JStr (py_str v)) d) env (filter (\<lambda>(k, v). k \<notin> set fixed_env) (obj_members vals))))"

definition record_tier :: "limb \<Rightarrow> json \<Rightarrow> json res" where
  "record_tier L rec =
     (case (jget rec ''skill'', jget rec ''perk'') of
        (JStr s, JStr p) \<Rightarrow> perk_sandbox_tier (l_loads L) (l_fs L) (l_chip L) s p
      | _ \<Rightarrow> Inr JNull)"

definition step_argv :: "workspace \<Rightarrow> string \<Rightarrow> json" where
  "step_argv w step = strs [''bash'', ws_run w, ''--step'', step]"

text \<open>The grant of one step; the access list's digest brings skill, perk and destructiveness with it, or nothing does.\<close>

definition step_grant :: "workspace \<Rightarrow> json \<Rightarrow> string \<Rightarrow> string \<Rightarrow> string \<Rightarrow> json \<Rightarrow> int \<Rightarrow> string \<Rightarrow> grant_spec" where
  "step_grant w rec run step plan tier now nonce =
     (let creds = py_or (jget rec ''credential_ids'') (JList []); acl = jget rec ''acl_sha'';
          scoped = (\<lambda>v. if truthy acl then v else JNull)
      in \<lparr>g_run = run, g_plan = plan, g_snippets = py_or (jget rec ''snippet_shas'') (JObj []), g_capabilities = strs [''run''],
          g_credentials = creds, g_tier = (if truthy creds then ''trusted'' else ''community''), g_nbf = now - 5, g_exp = now + 60,
          g_nonce = JStr nonce, g_sandbox_tier = tier, g_acl_sha = acl, g_skill = scoped (jget rec ''skill''),
          g_perk = scoped (jget rec ''perk''), g_destructive = scoped (jget rec ''destructive''), g_cargo = jget rec ''cargo'',
          g_workspace = JStr (ws_dir w), g_argv = step_argv w step\<rparr>)"

definition step_request :: "workspace \<Rightarrow> string \<Rightarrow> string \<Rightarrow> string \<Rightarrow> (string, json) dict \<Rightarrow> json \<Rightarrow> json \<Rightarrow> json \<Rightarrow> json" where
  "step_request w run plan step env grant att proof =
     JObj [(''run_id'', JStr run), (''plan_sha'', JStr plan), (''step'', JStr step), (''argv'', step_argv w step),
           (''workspace'', JStr (ws_dir w)), (''env'', JObj env), (''grant'', grant), (''attestation'', att), (''token_proof'', proof)]"

definition refused_reply :: "string \<Rightarrow> json" where
  "refused_reply why = JObj [(''status'', JStr ''refused''), (''reason'', JStr why)]"

definition forged_event :: "string \<Rightarrow> string \<Rightarrow> json" where
  "forged_event step why =
     JObj [(''type'', JStr ''forged_status_refused''), (''step'', JStr step), (''reason'', JStr why), (''authority'', JStr ''exod'')]"

definition result_event :: "limb \<Rightarrow> string \<Rightarrow> json \<Rightarrow> json \<Rightarrow> json" where
  "result_event L step said meter =
     (let status = jget said ''status'' in
      JObj [(''type'', JStr (if status \<in> {JStr ''ok'', JStr ''error''} then ''step_result'' else ''step_delegation_refused'')),
            (''step'', JStr step), (''status'', status), (''exit'', jget said ''exit''), (''authority'', JStr ''exod''),
            (''exod_keyid'', JStr (keyid (l_crypto L) (l_pub L))), (''meter'', meter), (''result_nonce'', jget said ''nonce'')])"

definition record_events :: "json \<Rightarrow> json list" where
  "record_events rec = (case py_or (jget rec ''events'') (JList []) of JList es \<Rightarrow> es | _ \<Rightarrow> [])"

text \<open>What is done with the daemon's answer.\<close>

definition settle_answer :: "limb \<Rightarrow> json \<Rightarrow> string \<Rightarrow> string \<Rightarrow> string \<Rightarrow> json \<Rightarrow> (json \<times> json option) res" where
  "settle_answer L rec run plan step env =
     (let K = l_crypto L in
      bindR (verify_step_result K (l_pub L) env (Some (JStr run)) (Some (JStr plan)) None) (\<lambda>(_, ok, why).
        if \<not> ok then Inr (refused_reply (''exod_verify:'' @ why), Some (forged_event step why))
        else bindR (signed_body K env) (\<lambda>said.
          if jget said ''nonce'' \<in> set (seen_nonces (record_events rec)) then Inr (refused_reply ''result_replay'', None)
          else bindR (meter_of K env) (\<lambda>meter.
            Inr (JObj [(''status'', jget said ''status''), (''exit'', jget said ''exit''), (''authority'', JStr ''exod'')],
                 Some (result_event L step said meter))))))"

definition execute_step ::
  "limb \<Rightarrow> (json \<Rightarrow> json res) \<Rightarrow> json \<Rightarrow> string \<Rightarrow> string \<Rightarrow> int \<Rightarrow> string \<Rightarrow> json \<Rightarrow> json \<Rightarrow> json \<Rightarrow> (json \<times> json option) res" where
  "execute_step L request rec step plan now nonce att proof vals =
     bindR (materialize_workspace L rec) (\<lambda>w. bindR (with_values (ws_env w) vals) (\<lambda>env.
     bindR (item_text rec ''run_id'') (\<lambda>run. bindR (record_tier L rec) (\<lambda>tier.
     bindR (mint_grant (l_crypto L) (l_grant_key L) (step_grant w rec run step plan tier now nonce)) (\<lambda>grant.
       case request (step_request w run plan step env grant att proof) of
         Inl _ \<Rightarrow> Inr (refused_reply ''exod_unreachable'', None)
       | Inr answer \<Rightarrow> settle_answer L rec run plan step answer)))))"

text \<open>The daemon at the other end of the channel.\<close>

definition exod_channel :: "host \<Rightarrow> exod \<Rightarrow> int \<Rightarrow> json \<Rightarrow> json res" where
  "exod_channel h x now req = bindR (run_step h x req now ''run'') (\<lambda>(x', env, ex). Inr env)"

section \<open>A recorded result is an execution\<close>

lemma jnorm_atom [simp]: "jnorm v = JStr s \<longleftrightarrow> v = JStr s" "jnorm v = JInt i \<longleftrightarrow> v = JInt i" "jnorm v = JNull \<longleftrightarrow> v = JNull"
  by (cases v; auto)+

text \<open>The parser gives back what was written, up to the order of members, wherever it answers.\<close>

definition parses_canonical :: "crypto \<Rightarrow> bool" where
  "parses_canonical K \<longleftrightarrow> (\<forall>j b. parse K (Json.canonicalize j) = Some b \<longrightarrow> jnorm b = jnorm j) \<and> (\<forall>s. b64d K (b64e K s) = Some s)"

lemma signed_member:
  assumes "parses_canonical K" and "signed_body K (sign K said priv pt) = Inr b"
  shows "jnorm (jget b k) = jnorm (jget said k)"
proof -
  have "parse K (Json.canonicalize said) = Some b"
    using assms by (auto simp: parses_canonical_def signed_body_def sign_def Let_def mk_envelope_def jget_def split: option.splits)
  then have "jnorm b = jnorm said" using assms(1) by (auto simp: parses_canonical_def)
  then show ?thesis by (metis jget_jnorm)
qed

lemma sign_result_member:
  assumes "parses_canonical (h_crypto h)" and "signed_body (h_crypto h) (sign_result h x req code status sha nonce meter) = Inr b"
  shows "jget b ''status'' = JStr status" and "jnorm (jget b ''exit'') = jnorm code"
  using signed_member [OF assms(1) assms(2) [unfolded sign_result_def], of "''status''"]
    signed_member [OF assms(1) assms(2) [unfolded sign_result_def], of "''exit''"]
  by (simp_all add: jget_JObj)

text \<open>Without an execution, and whenever the runner could not start, the daemon signs a refusal.\<close>

definition honest_answer :: "host \<Rightarrow> json \<Rightarrow> exod \<times> json \<times> execution option \<Rightarrow> bool" where
  "honest_answer h req o' \<longleftrightarrow>
     (case o' of (x', env, ex) \<Rightarrow>
        (\<exists>x tag nonce. env = sign_result h x req JNull ''refused'' (sha_hex (h_crypto h) tag) nonce None)
      \<or> (\<exists>x nonce e code out. ex = Some e \<and> h_runner h (r_profile e) (r_env e) (r_argv e) (r_backend e) = Inr (code, out)
           \<and> env = sign_result h x req (JInt code) (if code = 0 then ''ok'' else ''error'') (sha_hex (h_crypto h) out) nonce (Some (h_meter h))))"

lemma honest_refusal: "honest_answer h req (x', sign_result h x req JNull ''refused'' (sha_hex (h_crypto h) tag) nonce None, ex)"
  by (auto simp: honest_answer_def)

lemma honest_run:
  "h_runner h prof env argv backend = Inr (code, out)
   \<Longrightarrow> honest_answer h req (x', sign_result h x req (JInt code) (if code = 0 then ''ok'' else ''error'') (sha_hex (h_crypto h) out) nonce (Some (h_meter h)),
        Some \<lparr>r_profile = prof, r_env = env, r_argv = argv, r_backend = backend\<rparr>)"
  unfolding honest_answer_def prod.case
  by (rule disjI2, intro exI [of _ x] exI [of _ nonce] exI [of _ "\<lparr>r_profile = prof, r_env = env, r_argv = argv, r_backend = backend\<rparr>"]
        exI [of _ code] exI [of _ out]) simp

lemma run_authorized_honest:
  assumes "run_authorized h x req gbody rnonce = Inr out"
  shows "honest_answer h req out"
proof -
  from assms obtain ws where w: "item req ''workspace'' = Inr (JStr ws)"
    unfolding run_authorized_def Let_def by (cases "item req ''workspace''") (auto split: json.splits)
  let ?m = "verify_materialized (h_exists h) (core_profile ws False)
    (default_manifest (case py_or (jget gbody ''workspace'') (JStr ws) of JStr g \<Rightarrow> g | _ \<Rightarrow> ws)) = ''ok''"
  show ?thesis
  proof (cases ?m)
    case False
    then show ?thesis using assms w by (auto simp: run_authorized_def Let_def honest_refusal)
  next
    case m: True
    show ?thesis
    proof (cases "resolve_secrets h gbody (step_env (core_profile ws False) req)")
      case (Inl tag)
      then show ?thesis using assms w m by (auto simp: run_authorized_def Let_def honest_refusal)
    next
      case e: (Inr env)
      from assms w m e obtain tb where tb: "tier_backend_of (jget gbody ''sandbox_tier'') = Inr tb"
        by (cases "tier_backend_of (jget gbody ''sandbox_tier'')") (auto simp: run_authorized_def Let_def)
      show ?thesis
      proof (cases "item req ''argv''")
        case (Inl err)
        then show ?thesis using assms w m e tb by (auto simp: run_authorized_def Let_def honest_refusal)
      next
        case (Inr argv)
        then show ?thesis using assms w m e tb
          by (auto simp: run_authorized_def Let_def honest_refusal split: sum.splits prod.splits intro: honest_run)
      qed
    qed
  qed
qed

lemma bind_InrE:
  assumes "bindR m f = Inr y" obtains v where "m = Inr v" "f v = Inr y"
  using assms by (auto simp: bindR_eq_Inr)

lemma run_step_honest:
  assumes "run_step h x req now cap = Inr out"
  shows "honest_answer h req out"
  using assms unfolding run_step_def Let_def
  by (auto elim!: bind_InrE simp: honest_refusal split: if_split_asm option.split_asm prod.split_asm bool.split_asm) (erule run_authorized_honest)+

text \<open>
  C9: the ledger records what ran. When the server records a step result that came over the channel to
  the daemon, the daemon has just handed exactly this step's command to the confined runner, in the
  workspace the server staged and without network, and status and exit code are the runner's; a status
  nobody ran is recorded as a refusal and leaves the step open. Nothing is recorded for an answer whose
  nonce the run has already recorded.
\<close>

theorem recorded_result_was_executed:
  assumes "execute_step L (exod_channel h x clock) rec step plan now nonce att proof vals = Inr (reply, Some ev)"
    and "jget ev ''type'' = JStr ''step_result''"
    and "h_crypto h = l_crypto L" and "parses_canonical (l_crypto L)"
  shows "\<exists>w req x' env ex code out.
     materialize_workspace L rec = Inr w \<and> run_step h x req clock ''run'' = Inr (x', env, Some ex)
     \<and> verify (l_crypto L) env (l_pub L) = Inr True
     \<and> r_argv ex = step_argv w step \<and> p_workspace (r_profile ex) = ws_dir w \<and> \<not> p_network (r_profile ex)
     \<and> h_runner h (r_profile ex) (r_env ex) (r_argv ex) (r_backend ex) = Inr (code, out)
     \<and> jget ev ''step'' = JStr step \<and> jget ev ''exit'' = JInt code
     \<and> jget ev ''status'' = JStr (if code = 0 then ''ok'' else ''error'')
     \<and> jget ev ''result_nonce'' \<notin> set (seen_nonces (record_events rec))"
proof -
  let ?K = "l_crypto L"
  from assms(1) obtain w env0 run tier grant where w: "materialize_workspace L rec = Inr w"
    and sent: "(case exod_channel h x clock (step_request w run plan step env0 grant att proof) of
        Inl _ \<Rightarrow> Inr (refused_reply ''exod_unreachable'', None)
      | Inr answer \<Rightarrow> settle_answer L rec run plan step answer) = Inr (reply, Some ev)"
    by (auto simp: execute_step_def elim!: bind_InrE)
  let ?req = "step_request w run plan step env0 grant att proof"
  from sent obtain env where chan: "exod_channel h x clock ?req = Inr env" and settle: "settle_answer L rec run plan step env = Inr (reply, Some ev)"
    by (auto split: sum.splits)
  from chan obtain x' ex where run: "run_step h x ?req clock ''run'' = Inr (x', env, ex)"
    by (auto simp: exod_channel_def elim!: bind_InrE split: prod.splits)
  from settle assms(2) obtain c why said meter where v: "verify_step_result ?K (l_pub L) env (Some (JStr run)) (Some (JStr plan)) None = Inr (c, True, why)"
    and b: "signed_body ?K env = Inr said" "jget said ''nonce'' \<notin> set (seen_nonces (record_events rec))" "ev = result_event L step said meter"
    by (auto simp: settle_answer_def Let_def forged_event_def jget_JObj elim!: bind_InrE split: if_split_asm)
  have st: "jget said ''status'' \<in> {JStr ''ok'', JStr ''error''}"
    using assms(2) b(3) by (auto simp: result_event_def Let_def jget_JObj split: if_split_asm)
  have sig: "verify ?K env (l_pub L) = Inr True" using v by (auto simp: verify_step_result_def elim!: bind_InrE split: if_split_asm)
  note pc = assms(4) [folded assms(3)] and b1 = b(1) [folded assms(3)]
  from run_step_honest [OF run, unfolded honest_answer_def prod.case]
  obtain y n' e code out where e: "ex = Some e" "h_runner h (r_profile e) (r_env e) (r_argv e) (r_backend e) = Inr (code, out)"
    "env = sign_result h y ?req (JInt code) (if code = 0 then ''ok'' else ''error'') (sha_hex (h_crypto h) out) n' (Some (h_meter h))"
    using st sign_result_member(1) [OF pc] b1 by fastforce
  have m: "jget said ''status'' = JStr (if code = 0 then ''ok'' else ''error'')" "jget said ''exit'' = JInt code"
    using sign_result_member [OF pc b1 [unfolded e(3)]] by (cases "jget said ''exit''"; simp)+
  have ran: "jget ?req ''workspace'' = JStr (p_workspace (r_profile e)) \<and> jget ?req ''argv'' = r_argv e \<and> \<not> p_network (r_profile e)"
    using run_step_ran [OF run [unfolded e(1)]] run_authorized_ran by blast
  have "jget ?req ''workspace'' = JStr (ws_dir w)" "jget ?req ''argv'' = step_argv w step"
    by (simp_all add: step_request_def jget_JObj)
  moreover have "jget ev ''step'' = JStr step" "jget ev ''exit'' = jget said ''exit''" "jget ev ''status'' = jget said ''status''"
    "jget ev ''result_nonce'' = jget said ''nonce''"
    using b(3) by (simp_all add: result_event_def Let_def jget_JObj)
  ultimately show ?thesis using w run e(1,2) sig ran m b(2)
    by (intro exI [of _ w] exI [of _ ?req] exI [of _ x'] exI [of _ env] exI [of _ e] exI [of _ code] exI [of _ out]) simp
qed

section \<open>What is staged is what was blessed\<close>

text \<open>The workspace as the daemon's check sees it.\<close>

definition staged_view :: "(string \<Rightarrow> string) \<Rightarrow> (string, string) dict \<Rightarrow> staged" where
  "staged_view H snip = \<lparr>st_files = sort (map fst snip), st_digest = (\<lambda>name. map_option H (dget snip name))\<rparr>"

text \<open>
  What \<open>os.walk\<close> promises: path segments are plain names, each file is listed once, and walking a
  directory below lists the same files under shorter paths.
\<close>

definition plain_seg :: "string \<Rightarrow> bool" where "plain_seg s \<longleftrightarrow> s \<noteq> [] \<and> CHR ''/'' \<notin> set s"

definition walks :: "os_fs \<Rightarrow> string \<Rightarrow> string list \<Rightarrow> bool" where
  "walks F dir segs \<longleftrightarrow> walked_once F dir \<and> list_all (\<lambda>(p, b). p \<noteq> [] \<and> list_all plain_seg p) (f_walk F dir) \<and> f_isdir F (os_joins dir segs)
     \<and> (\<forall>p b. (p, b) \<in> set (f_walk F (os_joins dir segs)) \<longleftrightarrow> p \<noteq> [] \<and> (segs @ p, b) \<in> set (f_walk F dir))
     \<and> distinct (map fst (f_walk F (os_joins dir segs)))"

lemma join_split:
  assumes "join_with ''/'' (a # ss) = p @ ''/'' @ q" and "CHR ''/'' \<notin> set p" and "CHR ''/'' \<notin> set a"
  shows "a = p \<and> ss \<noteq> [] \<and> join_with ''/'' ss = q"
proof (cases ss)
  case Nil
  then show ?thesis using assms by auto
next
  case (Cons b bs)
  then have e: "a @ ''/'' @ join_with ''/'' ss = p @ ''/'' @ q" using assms(1) by simp
  have t: "takeWhile (\<lambda>c. c \<noteq> CHR ''/'') (u @ ''/'' @ v) = u" if "CHR ''/'' \<notin> set u" for u v
    using that by (induction u) auto
  have "a = p" using t [OF assms(3)] t [OF assms(2)] e by metis
  then show ?thesis using e Cons by simp
qed

lemma join_three: "p \<noteq> [] \<Longrightarrow> join_with ''/'' ([''perks'', perk, ''src''] @ p) = closure_prefix perk @ join_with ''/'' p"
  by (cases p) (simp_all add: closure_prefix_def)

lemma join_inj:
  "join_with ''/'' p = join_with ''/'' q \<Longrightarrow> list_all plain_seg p \<Longrightarrow> list_all plain_seg q \<Longrightarrow> p = q"
proof (induction p arbitrary: q)
  case Nil
  then show ?case by (cases q; cases "tl q") (auto simp: plain_seg_def)
next
  case (Cons a p)
  from Cons.prems obtain b r where q: "q = b # r" by (cases q; cases p) (auto simp: plain_seg_def)
  show ?case
  proof (cases r)
    case Nil
    then have "CHR ''/'' \<notin> set (join_with ''/'' (a # p))" using Cons.prems q by (auto simp: plain_seg_def)
    then have "p = []" by (cases p) auto
    then show ?thesis using Cons.prems q Nil by simp
  next
    case r: (Cons c cs)
    then have "join_with ''/'' (a # p) = b @ ''/'' @ join_with ''/'' r" using Cons.prems q by simp
    then have "a = b \<and> p \<noteq> [] \<and> join_with ''/'' p = join_with ''/'' r"
      by (rule join_split) (use Cons.prems q in \<open>auto simp: plain_seg_def\<close>)
    then show ?thesis using Cons.IH [of r] Cons.prems q by auto
  qed
qed

lemma staged_member:
  assumes w: "walks F dir [''perks'', perk, ''src'']" and perk: "plain_seg perk" "perk \<noteq> ''__pycache__''"
    and no_index: "\<forall>(p, b) \<in> set (f_walk F (os_joins dir [''perks'', perk, ''src''])). List.last p \<noteq> index_name"
  shows "(r, b) \<in> set (stage_closure F (os_joins dir [''perks'', perk, ''src''])) \<longleftrightarrow> (closure_prefix perk @ r, b) \<in> set (skill_files F dir)"
    (is "?L \<longleftrightarrow> ?R")
proof -
  let ?src = "os_joins dir [''perks'', perk, ''src'']" and ?t = "[''perks'', perk, ''src'']"
  have d: "f_isdir F ?src" and sub: "\<And>p b. (p, b) \<in> set (f_walk F ?src) \<longleftrightarrow> p \<noteq> [] \<and> (?t @ p, b) \<in> set (f_walk F dir)"
    and plain: "\<And>p b. (p, b) \<in> set (f_walk F dir) \<Longrightarrow> p \<noteq> [] \<and> list_all plain_seg p"
    using w by (auto simp: walks_def list_all_iff)
  have ix: "copied p \<and> List.last p \<noteq> index_name \<longleftrightarrow> indexed (?t @ p)" if "p \<noteq> []" for p
    using that perk by (auto simp: copied_def indexed_def butlast_append)
  show ?thesis
  proof
    assume ?L
    then obtain p where p: "(p, b) \<in> set (f_walk F ?src)" "copied p" "r = join_with ''/'' p"
      by (auto simp: stage_closure_def d)
    have "List.last p \<noteq> index_name" using bspec [OF no_index p(1)] by simp
    moreover have "p \<noteq> []" "(?t @ p, b) \<in> set (f_walk F dir)" using sub p(1) by blast+
    ultimately have "(join_with ''/'' (?t @ p), b) \<in> set (skill_files F dir)"
      using ix [of p] p(2) unfolding skill_files_def set_map by (intro image_eqI [of _ _ "(?t @ p, b)"]) auto
    then show ?R using join_three [OF \<open>p \<noteq> []\<close>] p(3) by simp
  next
    assume ?R
    then obtain q where q: "(q, b) \<in> set (f_walk F dir)" "indexed q" "join_with ''/'' q = closure_prefix perk @ r"
      by (auto simp: skill_files_def)
    note pq = plain [OF q(1)]
    obtain a ss where a: "q = a # ss" using pq by (cases q) auto
    have e1: "a = ''perks'' \<and> ss \<noteq> [] \<and> join_with ''/'' ss = perk @ ''/'' @ ''src/'' @ r"
      by (rule join_split) (use q(3) a pq in \<open>auto simp: closure_prefix_def plain_seg_def\<close>)
    obtain a2 s2 where a2: "ss = a2 # s2" using e1 by (cases ss) auto
    have e2: "a2 = perk \<and> s2 \<noteq> [] \<and> join_with ''/'' s2 = ''src'' @ ''/'' @ r"
      by (rule join_split) (use e1 a a2 pq perk in \<open>auto simp: plain_seg_def\<close>)
    obtain a3 s3 where a3: "s2 = a3 # s3" using e2 by (cases s2) auto
    have e3: "a3 = ''src'' \<and> s3 \<noteq> [] \<and> join_with ''/'' s3 = r"
      by (rule join_split) (use e2 a a2 a3 pq in \<open>auto simp: plain_seg_def\<close>)
    have "q = ?t @ s3" "s3 \<noteq> []" using e1 e2 e3 a a2 a3 by auto
    then have "(s3, b) \<in> set (f_walk F ?src)" "copied s3" using q sub ix [of s3] by auto
    then show ?L using d e3 by (force simp: stage_closure_def)
  qed
qed

lemma staged_lookup:
  assumes w: "walks F dir [''perks'', perk, ''src'']" and perk: "plain_seg perk" "perk \<noteq> ''__pycache__''"
    and no_index: "\<forall>(p, b) \<in> set (f_walk F (os_joins dir [''perks'', perk, ''src''])). List.last p \<noteq> index_name"
  shows "dget (stage_closure F (os_joins dir [''perks'', perk, ''src''])) r = dget (skill_files F dir) (closure_prefix perk @ r)"
proof -
  let ?S = "stage_closure F (os_joins dir [''perks'', perk, ''src''])"
  have "distinct (map fst (skill_files F dir))" using w by (simp add: walks_def walked_once_def)
  then have sf: "dget (skill_files F dir) k = Some b \<longleftrightarrow> (k, b) \<in> set (skill_files F dir)" for k b by simp
  have mem: "(r, b) \<in> set ?S \<longleftrightarrow> (closure_prefix perk @ r, b) \<in> set (skill_files F dir)" for r b
    by (rule staged_member [OF assms])
  have fwd: "dget ?S r = Some b \<Longrightarrow> dget (skill_files F dir) (closure_prefix perk @ r) = Some b" for b
    using map_of_SomeD [of ?S r b] mem sf by simp
  show ?thesis
  proof (cases "dget ?S r")
    case (Some b)
    then show ?thesis using fwd by simp
  next
    case None
    then have "(r, b) \<notin> set ?S" for b by (force simp: map_of_eq_None_iff)
    then have "dget (skill_files F dir) (closure_prefix perk @ r) \<noteq> Some b" for b using mem sf by simp
    then show ?thesis using None by (cases "dget (skill_files F dir) (closure_prefix perk @ r)") auto
  qed
qed

lemma closure_shas_member:
  "(r, v) \<in> set (closure_shas perk files) \<longleftrightarrow> (closure_prefix perk @ r, v) \<in> set files \<and> r \<noteq> ''contracts.json''"
proof -
  have "starts_with rel (closure_prefix perk) \<Longrightarrow> closure_prefix perk @ drop (length (closure_prefix perk)) rel = rel" for rel
    by (auto simp: prefix_def)
  then show ?thesis unfolding closure_shas_def by (force simp: image_iff)
qed

lemma first_unblessed_none:
  "first_unblessed st ps = None \<longleftrightarrow> (\<forall>(name, want) \<in> set ps. \<exists>d. st_digest st name = Some d \<and> JStr d = want)"
  by (induction st ps rule: first_unblessed.induct) (auto split: option.splits)

lemma first_stray_none: "first_stray tag known fs = None \<longleftrightarrow> (\<forall>f \<in> set fs. known f \<or> f = unpinned_by_design)"
  by (induction fs) auto

text \<open>
  C23: the daemon accepts what the server stages. When a skill matches its index, the files the server
  copies into a step's workspace are exactly the files the plan pins, with the pinned digests, so the
  daemon's closure check passes; it fails closed for every other set of files. The perk has no file
  named \<open>index.json\<close> below \<open>src\<close>: the index leaves such a file out where staging copies it.
\<close>

theorem staged_closure_is_blessed:
  assumes "verify_index ld H F chip skill = Inr (True, ps)"
    and "f_isfile F (os_join (skill_dir F chip (JStr skill)) index_name)"
    and "load_json ld F (os_join (skill_dir F chip (JStr skill)) index_name) = Inr idx"
    and "get_items idx ''files'' = Inr files" and "distinct (map fst files)"
    and "walks F (skill_dir F chip (JStr skill)) [''perks'', perk, ''src'']" and "plain_seg perk" and "perk \<noteq> ''__pycache__''"
    and "\<forall>(p, b) \<in> set (f_walk F (src_dir F chip (JStr skill) perk)). List.last p \<noteq> index_name"
  shows "closure_decision (closure_shas perk files) (staged_view H (stage_closure F (src_dir F chip (JStr skill) perk))) = None"
proof -
  let ?dir = "skill_dir F chip (JStr skill)" and ?S = "stage_closure F (src_dir F chip (JStr skill) perk)" and ?P = "closure_shas perk files"
  have f: "obj_members (jget_or idx ''files'' (JObj [])) = files" "is_obj idx"
    using assms(4) by (auto simp: get_items_def py_get_def bindR_eq_Inr split: if_splits)
  have "index_problems files (file_shas H F ?dir) = []"
    using assms(1-3) f by (auto simp: verify_index_def load_json_def Let_def split: option.splits if_splits)
  then have ix: "dget files k = map_option (\<lambda>b. JStr (H b)) (dget (skill_files F ?dir) k)" for k
    by (simp add: index_problems_empty file_shas_dget fun_eq_iff option.map_comp comp_def)
  have look: "dget ?S r = dget (skill_files F ?dir) (closure_prefix perk @ r)" for r
    unfolding src_dir_def by (rule staged_lookup [OF assms(6-8) assms(9) [unfolded src_dir_def]])
  have fm: "(k, v) \<in> set files \<longleftrightarrow> dget files k = Some v" for k v using assms(5) by simp
  have pins: "\<exists>d. st_digest (staged_view H ?S) r = Some d \<and> JStr d = v" if "(r, v) \<in> set ?P" for r v
  proof -
    have "dget files (closure_prefix perk @ r) = Some v" using that fm closure_shas_member by blast
    then show ?thesis by (auto simp: ix look staged_view_def)
  qed
  have stray: "dget ?P r \<noteq> None \<or> r = unpinned_by_design" if "r \<in> set (st_files (staged_view H ?S))" for r
  proof -
    have "r \<in> fst ` set ?S" using that by (simp add: staged_view_def)
    then obtain b where b: "dget ?S r = Some b" by (cases "dget ?S r") (simp_all add: map_of_eq_None_iff)
    have "dget files (closure_prefix perk @ r) = Some (JStr (H b))" by (simp add: ix look [symmetric] b)
    then have "(closure_prefix perk @ r, JStr (H b)) \<in> set files" by (rule map_of_SomeD)
    then have "r = ''contracts.json'' \<or> (r, JStr (H b)) \<in> set ?P" using closure_shas_member by blast
    then show ?thesis by (metis unpinned_by_design_def map_of_eq_None_iff image_eqI fst_conv)
  qed
  show ?thesis
  proof (cases "?P = []")
    case True
    then show ?thesis using stray by (simp add: closure_decision_def first_stray_none)
  next
    case False
    have "first_unblessed (staged_view H ?S) (sort_key fst ?P) = None" using pins by (auto simp: first_unblessed_none)
    then show ?thesis using stray False by (simp add: closure_decision_def first_stray_none)
  qed
qed

definition blessed_fs :: os_fs where
  "blessed_fs = ge_fs sample_env \<lparr>f_isdir := (\<lambda>_. True),
     f_walk := (\<lambda>d. let fs = [([''rm.sh''], ''body''), ([''contracts.json''], ''{}''), ([''__pycache__'', ''rm.pyc''], ''stale'')]
       in if d = ''/c/cws/fs/perks/rm/src'' then fs else map (\<lambda>(p, b). ([''perks'', ''rm'', ''src''] @ p, b)) fs)\<rparr>"

definition blessed_index :: json where
  "blessed_index = JObj [(''files'', JObj [(''perks/rm/src/contracts.json'', JStr ''{}''), (''perks/rm/src/rm.sh'', JStr ''body'')])]"

theorem staged_closure_is_blessed_witness:
  "closure_decision [(''rm.sh'', JStr ''body'')]
     (staged_view (\<lambda>s. s) (stage_closure blessed_fs (src_dir blessed_fs ''/c'' (JStr ''cws:fs'') ''rm''))) = None
   \<and> closure_decision [(''rm.sh'', JStr ''other'')]
     (staged_view (\<lambda>s. s) (stage_closure blessed_fs (src_dir blessed_fs ''/c'' (JStr ''cws:fs'') ''rm''))) \<noteq> None"
proof -
  let ?ld = "\<lambda>_ :: string. Some blessed_index" and ?files = "obj_members (jget blessed_index ''files'')"
  have d: "skill_dir blessed_fs ''/c'' (JStr ''cws:fs'') = ''/c/cws/fs''" by code_simp
  have sd: "src_dir blessed_fs ''/c'' (JStr ''cws:fs'') ''rm'' = ''/c/cws/fs/perks/rm/src''" by code_simp
  have v: "verify_index ?ld (\<lambda>s. s) blessed_fs ''/c'' ''cws:fs'' = Inr (True, [])" by code_simp
  have i: "f_isfile blessed_fs (os_join ''/c/cws/fs'' index_name)" by code_simp
  have l: "load_json ?ld blessed_fs (os_join ''/c/cws/fs'' index_name) = Inr blessed_index" by code_simp
  have g: "get_items blessed_index ''files'' = Inr ?files" by code_simp
  have m: "distinct (map fst ?files)" by code_simp
  have j: "os_joins ''/c/cws/fs'' [''perks'', ''rm'', ''src''] = ''/c/cws/fs/perks/rm/src''" by code_simp
  have o': "walked_once blessed_fs ''/c/cws/fs''"
    by (simp add: walked_once_def skill_files_def indexed_def index_name_def blessed_fs_def suffix_def)
  have w: "walks blessed_fs ''/c/cws/fs'' [''perks'', ''rm'', ''src'']"
    unfolding walks_def j using o' by (auto simp: blessed_fs_def plain_seg_def)
  have n: "\<forall>(p, b) \<in> set (f_walk blessed_fs (src_dir blessed_fs ''/c'' (JStr ''cws:fs'') ''rm'')). List.last p \<noteq> index_name"
    unfolding sd by (simp add: blessed_fs_def index_name_def)
  have "closure_decision (closure_shas ''rm'' ?files)
     (staged_view (\<lambda>s. s) (stage_closure blessed_fs (src_dir blessed_fs ''/c'' (JStr ''cws:fs'') ''rm''))) = None"
    by (rule staged_closure_is_blessed [OF v _ _ g m _ _ _ n]) (simp_all add: d i l w plain_seg_def)
  moreover have "closure_shas ''rm'' ?files = [(''rm.sh'', JStr ''body'')]" by code_simp
  moreover have "closure_decision [(''rm.sh'', JStr ''other'')]
     (staged_view (\<lambda>s. s) (stage_closure blessed_fs (src_dir blessed_fs ''/c'' (JStr ''cws:fs'') ''rm''))) \<noteq> None"
    by code_simp
  ultimately show ?thesis by simp
qed

definition sample_rec :: json where
  "sample_rec = JObj [(''run_id'', JStr ''r''), (''skill'', JStr ''cws:fs''), (''perk'', JStr ''rm''), (''plan_sha'', JStr ''p''),
     (''snippet_shas'', JObj [(''rm.sh'', JStr ''hbody'')]), (''decision'', JStr ''allow''), (''seq'', JList [JStr ''rm'']), (''events'', JList [])]"

definition sample_ws :: workspace where
  "sample_ws = \<lparr>ws_dir = ''/w/r'', ws_run = ''/w/r/run.sh'', ws_script = [],
     ws_snip = [(''rm.sh'', ''body''), (''contracts.json'', ''{}'')],
     ws_env = [(''PATH'', JStr confined_path), (''SNIP'', JStr ''/w/r/snip''), (''RECORD_STORE'', JStr ''/w/r/rec'')]\<rparr>"

definition sample_claims :: json where
  "sample_claims = grant_claims (step_grant sample_ws sample_rec ''r'' ''1'' ''p'' JNull 100 ''n1'')"

definition sample_result :: json where
  "sample_result = JObj [(''run_id'', JStr ''r''), (''plan_sha'', JStr ''p''), (''step'', JStr ''1''), (''exit'', JInt 0), (''status'', JStr ''ok''),
     (''output_sha'', JStr ''hout''), (''nonce'', JStr ''n1''), (''ts'', JStr ''t''), (''meter'', JNull)]"

definition channel_crypto :: crypto where
  "channel_crypto = toy_crypto \<lparr>parse := (\<lambda>s. if s = Json.canonicalize sample_claims then Some sample_claims
     else if s = Json.canonicalize sample_result then Some sample_result else None)\<rparr>"

definition sample_limb :: limb where
  "sample_limb = \<lparr>l_crypto = channel_crypto, l_grant_key = ''k'', l_pub = ''x'', l_base = ''/w'', l_fs = blessed_fs, l_chip = ''/c'',
     l_loads = ge_loads sample_env\<rparr>"

definition limb_host :: host where
  "limb_host = sample_host \<lparr>h_crypto := channel_crypto,
     h_tree := (\<lambda>_. staged_view (sha_hex channel_crypto) (ws_snip sample_ws))\<rparr>"

section \<open>An honest channel completes the step\<close>

text \<open>A step never changes the daemon's key.\<close>

lemma run_authorized_state: "run_authorized h x req gbody rnonce = Inr (x', env, ex) \<Longrightarrow> x' = x"
  unfolding run_authorized_def Let_def
  by (auto elim!: bind_InrE split: if_split_asm json.split_asm sum.split_asm prod.split_asm)

lemma acl_check_key: "acl_check h x req gbody now = Inr (x1, deny) \<Longrightarrow> x_key x1 = x_key x"
  unfolding acl_check_def proof_check_def Let_def
  by (auto elim!: bind_InrE split: if_split_asm option.split_asm prod.split_asm)

lemma run_step_key: "run_step h x req now cap = Inr (x', env, ex) \<Longrightarrow> x_key x' = x_key x"
  unfolding run_step_def Let_def
  by (auto elim!: bind_InrE split: if_split_asm option.split_asm prod.split_asm bool.split_asm
      dest!: run_authorized_state acl_check_key)

lemma step_request_get:
  "jget (step_request w run plan step env grant att proof) ''run_id'' = JStr run" "jget (step_request w run plan step env grant att proof) ''plan_sha'' = JStr plan"
  "jget (step_request w run plan step env grant att proof) ''step'' = JStr step"
  "jget (step_request w run plan step env grant att proof) ''argv'' = step_argv w step"
  "jget (step_request w run plan step env grant att proof) ''workspace'' = JStr (ws_dir w)"
  "item (step_request w run plan step env grant att proof) ''grant'' = Inr grant"
  "item (step_request w run plan step env grant att proof) ''workspace'' = Inr (JStr (ws_dir w))"
  "item (step_request w run plan step env grant att proof) ''argv'' = Inr (step_argv w step)"
  "request_env (step_request w run plan step env grant att proof) = env"
  by (simp_all add: step_request_def jget_JObj item_def obj_members_def request_env_def py_or_def)

lemma step_grant_get:
  assumes "g = step_grant w rec run step plan JNull now nonce" and "jget rec ''acl_sha'' = JNull" and "\<not> truthy (jget rec ''credential_ids'')"
  shows "jget (grant_claims g) ''capabilities'' = strs [''run'']" "jget (grant_claims g) ''credentials'' = JList []"
    "jget (grant_claims g) ''snippet_shas'' = py_or (jget rec ''snippet_shas'') (JObj [])" "jget (grant_claims g) ''sandbox_tier'' = JNull"
    "jget (grant_claims g) ''acl_sha'' = JNull" "jget (grant_claims g) ''nonce'' = JStr nonce" "jget (grant_claims g) ''workspace'' = JStr (ws_dir w)"
  using assms by (simp_all add: grant_claims_def jget_JObj step_grant_def Let_def when_set_def py_or_def strs_def)

lemma fresh_grant_runs:
  fixes h x
  defines "K \<equiv> h_crypto h"
  assumes g: "g = step_grant w rec run step plan JNull now nonce" and m: "mint_grant K priv g = Inr grant"
    and crypto: "\<And>s. b64d K (b64e K s) = Some s" "parse K (Json.canonicalize (grant_claims g)) = Some (grant_claims g)"
      "\<And>m. ed_verify K (pub_of K priv) (ed_sign K priv m) m"
    and x: "x_issuer x = pub_of K priv" "\<not> x_strict x" "(JStr (keyid K (x_issuer x)), nonce) \<notin> set (x_grants x)"
    and rec: "jget rec ''acl_sha'' = JNull" "\<not> truthy (jget rec ''credential_ids'')" "nonce \<noteq> []"
    and time: "now \<le> clock + 65" "clock \<le> now + 120"
    and env: "dget env ''SNIP'' = Some (JStr d)" "d \<noteq> []"
    and pins: "is_obj (py_or (jget rec ''snippet_shas'') (JObj []))"
      "closure_decision (obj_members (py_or (jget rec ''snippet_shas'') (JObj []))) (h_tree h d) = None"
    and mount: "verify_materialized (h_exists h) (core_profile (ws_dir w) False) (default_manifest (ws_dir w)) = ''ok''" "ws_dir w \<noteq> []"
    and cargo: "jget rec ''cargo'' = JNull"
    and runner: "\<And>prof e argv b. h_runner h prof e argv b = Inr (code, out)"
  shows "\<exists>x' ex. run_step h x (step_request w run plan step env grant att proof) clock ''run'' =
    Inr (x', sign_result h x' (step_request w run plan step env grant att proof) (JInt code) (if code = 0 then ''ok'' else ''error'')
            (sha_hex K out) (JStr nonce) (Some (h_meter h)), Some ex)"
proof -
  let ?req = "step_request w run plan step env grant att proof" and ?b = "grant_claims g"
  have e: "request_expect ?req = \<lparr>e_run = Some (JStr (g_run g)), e_plan = Some (JStr (g_plan g)), e_workspace = Some (g_workspace g), e_argv = Some (g_argv g)\<rparr>"
    by (simp add: request_expect_def step_request_get some_if_set_def g step_grant_def Let_def step_argv_def strs_def)
  have v: "verify_grant K (x_issuer x) grant clock default_skew (request_expect ?req) None = Inr (None, True, ''ok'')"
    unfolding x(1) by (rule minted_grant_accepted [OF m crypto _ _ e]) (use time in \<open>simp_all add: g step_grant_def Let_def default_skew_def\<close>)
  have "grant = sign K ?b priv grant_type" using m by (auto simp: mint_grant_def split: if_splits)
  then have gb: "grant_body_of K ?req = ?b" using signed_body_signed [OF crypto(1,2)] by (simp add: grant_body_of_def step_request_get)
  note c = step_grant_get [OF g rec(1,2)]
  have acl: "acl_check h x ?req ?b clock = Inr (x, None)" by (simp add: acl_check_def c x(2))
  have sd: "snip_dir ?req = Inr d" using env by (simp add: snip_dir_def step_request_get jget_JObj py_or_def)
  obtain x' ex where "run_authorized h (x \<lparr>x_grants := (JStr (keyid K (x_issuer x)), nonce) # x_grants x\<rparr>) ?req ?b (JStr nonce) =
    Inr (x', sign_result h x' ?req (JInt code) (if code = 0 then ''ok'' else ''error'') (sha_hex K out) (JStr nonce) (Some (h_meter h)), Some ex)"
    using mount by (simp add: run_authorized_def Let_def step_request_get c py_or_def resolve_secrets_def tier_backend_of_def runner K_def)
  moreover have "spend (x_grants x) (JStr (keyid K (x_issuer x))) nonce = ((JStr (keyid K (x_issuer x)), nonce) # x_grants x, True)"
    using x(3) by (simp add: spend_def)
  moreover have "py_or (JStr nonce) y = JStr nonce" "py_or (strs [''run'']) y = strs [''run'']" "py_or (py_or a (JObj [])) (JObj []) = py_or a (JObj [])"
      "py_in ''run'' (strs [''run'']) = Inr True" "nonce_claim (JStr nonce) = Some nonce" for y a
    using rec(3) by (simp_all add: py_or_def py_in_def strs_def nonce_claim_def)
  ultimately show ?thesis
    unfolding run_step_def Let_def request_expect_def [symmetric] gb [unfolded K_def]
    using v acl sd pins by (auto simp add: c K_def step_request_get(6) grant_claims_get(11))
qed

text \<open>
  The daemon's answer to a fresh grant passes the server's checks, and its status is recorded.
\<close>

lemma delegated_step_completes:
  assumes w: "materialize_workspace L rec = Inr w" and e: "with_values (ws_env w) vals = Inr env"
    and run: "item_text rec ''run_id'' = Inr run" and t: "record_tier L rec = Inr tier"
    and m: "mint_grant (l_crypto L) (l_grant_key L) (step_grant w rec run step plan tier now nonce) = Inr grant"
    and answer: "run_step h x (step_request w run plan step env grant att proof) clock ''run'' = Inr (x', ans, ex)"
    and signed: "verify (l_crypto L) ans (l_pub L) = Inr True" "jget ans ''payloadType'' = JStr step_result_type"
      "signed_body (l_crypto L) ans = Inr said"
    and said: "is_obj said" "result_problem said (Some (JStr run)) (Some (JStr plan)) = None"
      "jget said ''nonce'' \<notin> set (seen_nonces (record_events rec))"
  shows "execute_step L (exod_channel h x clock) rec step plan now nonce att proof vals
    = Inr (JObj [(''status'', jget said ''status''), (''exit'', jget said ''exit''), (''authority'', JStr ''exod'')],
           Some (result_event L step said (jget said ''meter'')))"
  using assms by (simp add: execute_step_def exod_channel_def settle_answer_def Let_def verify_step_result_def spend_opt_def meter_of_def)

lemma sample_parses: "parses_canonical channel_crypto"
  by (auto simp: parses_canonical_def channel_crypto_def toy_crypto_def canonicalize_inj_iff split: if_split_asm)

lemma sample_texts_differ: "Json.canonicalize sample_result \<noteq> Json.canonicalize sample_claims"
proof
  assume "Json.canonicalize sample_result = Json.canonicalize sample_claims"
  then have "jnorm sample_result = jnorm sample_claims" by (simp add: canonicalize_inj_iff)
  then have "jnorm (jget sample_result ''status'') = jnorm (jget sample_claims ''status'')" by (metis jget_jnorm)
  then show False
    by (simp add: sample_result_def sample_claims_def grant_claims_def jget_JObj step_grant_def Let_def when_set_def sample_rec_def step_argv_def strs_def)
qed

definition sample_event :: json where
  "sample_event = result_event sample_limb ''1'' sample_result (jget sample_result ''meter'')"

lemma sample_executes:
  assumes "with_values (ws_env sample_ws) vals = Inr (ws_env sample_ws)"
  shows "execute_step sample_limb (exod_channel limb_host sample_exod 100) sample_rec ''1'' ''p'' 100 ''n1'' JNull JNull vals
    = Inr (JObj [(''status'', JStr ''ok''), (''exit'', JInt 0), (''authority'', JStr ''exod'')], Some sample_event)"
proof -
  let ?K = channel_crypto and ?g = "step_grant sample_ws sample_rec ''r'' ''1'' ''p'' JNull 100 ''n1''"
  let ?grant = "sign ?K sample_claims ''k'' grant_type"
  let ?req = "step_request sample_ws ''r'' ''p'' ''1'' (ws_env sample_ws) ?grant JNull JNull"
  have L: "l_crypto sample_limb = ?K" "l_grant_key sample_limb = ''k''" "l_pub sample_limb = ''x''" by (simp_all add: sample_limb_def)
  have crypto: "\<And>s. b64d ?K (b64e ?K s) = Some s" "parse ?K (Json.canonicalize sample_claims) = Some sample_claims"
      "\<And>m. ed_verify ?K (pub_of ?K ''k'') (ed_sign ?K ''k'' m) m" "\<And>m. ed_verify ?K (pub_of ?K ''x'') (ed_sign ?K ''x'' m) m"
      "parse ?K (Json.canonicalize sample_result) = Some sample_result"
    using sample_texts_differ by (simp_all add: channel_crypto_def toy_crypto_def)
  have w: "materialize_workspace sample_limb sample_rec = Inr sample_ws" by code_simp
  have run: "item_text sample_rec ''run_id'' = Inr ''r''" by code_simp
  have t: "record_tier sample_limb sample_rec = Inr JNull" by code_simp
  have m: "mint_grant ?K ''k'' ?g = Inr ?grant"
    by (simp add: mint_grant_def nonce_claim_def sample_claims_def) (simp add: step_grant_def Let_def)
  have mt: "verify_materialized (h_exists limb_host) (core_profile (ws_dir sample_ws) False) (default_manifest (ws_dir sample_ws)) = ''ok''"
    by (rule core_profile_matches) (simp_all add: plain_def sample_ws_def)
  have cl: "closure_decision (obj_members (py_or (jget sample_rec ''snippet_shas'') (JObj []))) (h_tree limb_host ''/w/r/snip'') = None" by code_simp
  have "\<exists>x' ex. run_step limb_host sample_exod ?req 100 ''run'' =
    Inr (x', sign_result limb_host x' ?req (JInt 0) (if (0::int) = 0 then ''ok'' else ''error'') (sha_hex (h_crypto limb_host) ''out'') (JStr ''n1'')
      (Some (h_meter limb_host)), Some ex)"
    by (rule fresh_grant_runs [where h = limb_host and x = sample_exod and g = ?g and priv = "''k''" and d = "''/w/r/snip''" and now = 100, OF refl])
      (use m mt cl crypto in \<open>simp_all add: limb_host_def sample_exod_def sample_host_def sample_claims_def [symmetric]\<close>,
       simp_all add: channel_crypto_def toy_crypto_def sample_rec_def sample_ws_def jget_JObj py_or_def is_obj_def)
  then obtain x' ex where r: "run_step limb_host sample_exod ?req 100 ''run'' =
    Inr (x', sign_result limb_host x' ?req (JInt 0) ''ok'' (sha_hex ?K ''out'') (JStr ''n1'') (Some JNull), Some ex)"
    by (auto simp: limb_host_def sample_host_def)
  let ?ans = "sign_result limb_host x' ?req (JInt 0) ''ok'' (sha_hex ?K ''out'') (JStr ''n1'') (Some JNull)"
  have kx: "x_key x' = ''x''" using run_step_key [OF r] by (simp add: sample_exod_def)
  have a: "?ans = sign ?K sample_result ''x'' step_result_type"
    unfolding sign_result_def kx step_request_get by (simp add: limb_host_def sample_host_def sample_result_def) (simp add: channel_crypto_def toy_crypto_def)
  have x: "verify ?K ?ans ''x'' = Inr True" "jget ?ans ''payloadType'' = JStr step_result_type" "signed_body ?K ?ans = Inr sample_result"
    using sign_verify [OF crypto(1,4), of sample_result step_result_type] signed_body_signed [OF crypto(1,5)]
    unfolding a by (simp_all add: channel_crypto_def toy_crypto_def)
  have "execute_step sample_limb (exod_channel limb_host sample_exod 100) sample_rec ''1'' ''p'' 100 ''n1'' JNull JNull vals
    = Inr (JObj [(''status'', jget sample_result ''status''), (''exit'', jget sample_result ''exit''), (''authority'', JStr ''exod'')],
           Some (result_event sample_limb ''1'' sample_result (jget sample_result ''meter'')))"
    by (rule delegated_step_completes [OF w _ run t _ r]) (use m x assms in \<open>simp_all add: L\<close>,
        simp_all add: sample_result_def is_obj_def result_problem_def jget_JObj unexpected_def statuses_def nonce_claim_def
          seen_nonces_def record_events_def sample_rec_def py_or_def)
  then show ?thesis by (simp add: sample_event_def sample_result_def jget_JObj)
qed

lemma sample_event_get:
  "jget sample_event ''type'' = JStr ''step_result''" "jget sample_event ''step'' = JStr ''1''"
  "jget sample_event ''status'' = JStr ''ok''" "jget sample_event ''exit'' = JInt 0"
  by (simp_all add: sample_event_def result_event_def Let_def jget_JObj sample_result_def)

theorem recorded_result_was_executed_witness:
  "\<exists>reply ev. execute_step sample_limb (exod_channel limb_host sample_exod 100) sample_rec ''1'' ''p'' 100 ''n1'' JNull JNull JNull = Inr (reply, Some ev)
     \<and> jget ev ''status'' = JStr ''ok'' \<and> jget ev ''exit'' = JInt 0"
proof -
  note ev = sample_executes [of JNull, unfolded with_values_def, simplified]
  have "l_crypto sample_limb = channel_crypto" by (simp add: sample_limb_def)
  with recorded_result_was_executed [OF ev sample_event_get(1)] sample_parses sample_event_get(4) obtain code
    where "jget sample_event ''exit'' = JInt code" "jget sample_event ''status'' = JStr (if code = 0 then ''ok'' else ''error'')"
    by (auto simp: limb_host_def)
  then show ?thesis using ev sample_event_get(4) by auto
qed

end
