(* ===== verification/Runs.thy ===== *)
theory Runs
  imports Delegate
begin

text \<open>
  The provenance store and the oversight session of the governance server (\<open>src/infra/govern/govd.py\<close>): the
  runs kept in memory and on disk, the gates of a step, and the messages a session may send. Every
  operation of the store runs under its lock, so it is one function here; the disk write that follows an
  append outside the lock is a step of its own in the theory \<open>Races\<close>. What surrounds a message (configuration,
  principals, clocks, the daemon) is the record \<open>around\<close> and may differ from message to message. Events of
  the store carry their step as a text; the reasons of refusals are shortened where they hold punctuation
  beyond Latin-1. Disk writes succeed.
\<close>

section \<open>The store\<close>

record store =
  s_runs :: "(string, json) dict"
  s_inflight :: "(string, string list) dict"
  s_decisions :: "json list"
  s_log :: "json list"
  s_disk :: "(string, json) dict"
  s_max :: nat
  s_mirror :: mirror

definition decisions_kept :: nat where "decisions_kept = 500"

definition newest :: "nat \<Rightarrow> 'a list \<Rightarrow> 'a list" where
  "newest n xs = drop (length xs - n) xs"

text \<open>In memory the oldest runs make room; their ledgers stay on disk.\<close>

definition remember :: "store \<Rightarrow> string \<Rightarrow> json \<Rightarrow> store" where
  "remember st rid rec = st \<lparr>s_runs := newest (s_max st) (dput rid rec (s_runs st))\<rparr>"

definition persist :: "store \<Rightarrow> string \<Rightarrow> json \<Rightarrow> store" where
  "persist st rid snapshot = st \<lparr>s_disk := dput rid snapshot (s_disk st)\<rparr>"

definition create :: "store \<Rightarrow> string \<Rightarrow> json \<Rightarrow> store" where
  "create st rid rec = (let st1 = persist (remember st rid rec) rid rec in st1 \<lparr>s_mirror := record_run (s_mirror st1) rid rec\<rparr>)"

definition get_run :: "store \<Rightarrow> string \<Rightarrow> json option" where
  "get_run st rid = dget (s_runs st) rid"

definition with_event :: "json \<Rightarrow> json \<Rightarrow> json" where
  "with_event rec ev = jput ''events'' (JList (record_events rec @ [ev])) rec"

definition append_event :: "store \<Rightarrow> string \<Rightarrow> json \<Rightarrow> store \<times> json option" where
  "append_event st rid ev =
     (case get_run st rid of
        None \<Rightarrow> (st, None)
      | Some rec \<Rightarrow>
          let rec' = with_event rec ev;
              st1 = persist (st \<lparr>s_runs := dput rid rec' (s_runs st)\<rparr>) rid rec';
              plan = (case jget_or rec ''plan_sha'' (JStr []) of JStr p \<Rightarrow> p | _ \<Rightarrow> [])
          in (st1 \<lparr>s_mirror := record_event (s_mirror st1) rid plan ev\<rparr>, Some rec'))"

definition run_events :: "store \<Rightarrow> string \<Rightarrow> json list" where
  "run_events st rid = (case get_run st rid of None \<Rightarrow> [] | Some rec \<Rightarrow> record_events rec)"

definition of_type :: "string \<Rightarrow> json list \<Rightarrow> json list" where
  "of_type t evs = filter (\<lambda>e. jget e ''type'' = JStr t) evs"

definition steps_of :: "json list \<Rightarrow> json set" where
  "steps_of evs = (\<lambda>e. jget e ''step'') ` set evs"

definition ok_steps :: "json list \<Rightarrow> json set" where
  "ok_steps evs = steps_of (filter (\<lambda>e. jget e ''status'' = JStr ''ok'') (of_type ''step_result'' evs))"

definition ran_ok :: "store \<Rightarrow> string \<Rightarrow> json set" where
  "ran_ok st rid = ok_steps (run_events st rid)"

definition steps_seen :: "store \<Rightarrow> string \<Rightarrow> json set \<times> json set" where
  "steps_seen st rid =
     (steps_of (of_type ''granted'' (run_events st rid)), steps_of (of_type ''step_result'' (run_events st rid)))"

definition held :: "store \<Rightarrow> string \<Rightarrow> string list" where
  "held st rid = dget_default (s_inflight st) rid []"

definition claim_step :: "store \<Rightarrow> string \<Rightarrow> string \<Rightarrow> store \<times> bool" where
  "claim_step st rid step =
     (if get_run st rid = None then (st, False)
      else if JStr step \<in> snd (steps_seen st rid) \<or> step \<in> set (held st rid)
      then (st \<lparr>s_inflight := dput rid (held st rid) (s_inflight st)\<rparr>, False)
      else (st \<lparr>s_inflight := dput rid (held st rid @ [step]) (s_inflight st)\<rparr>, True))"

definition release_step :: "store \<Rightarrow> string \<Rightarrow> string \<Rightarrow> store" where
  "release_step st rid step =
     (case dget (s_inflight st) rid of
        None \<Rightarrow> st
      | Some xs \<Rightarrow>
          (let xs' = filter (\<lambda>s. s \<noteq> step) xs
           in st \<lparr>s_inflight := (if xs' = [] then AList.delete rid (s_inflight st) else dput rid xs' (s_inflight st))\<rparr>))"

definition record_decision :: "store \<Rightarrow> json \<Rightarrow> store" where
  "record_decision st summary =
     st \<lparr>s_decisions := newest decisions_kept (s_decisions st @ [summary]), s_log := s_log st @ [summary],
         s_mirror := decision (s_mirror st) summary\<rparr>"

definition run_detail :: "store \<Rightarrow> string \<Rightarrow> json option" where
  "run_detail st rid = map_option (\<lambda>rec. JObj (filter (\<lambda>kv. fst kv \<noteq> ''token'') (obj_members rec))) (get_run st rid)"

section \<open>Starting on a record directory\<close>

text \<open>
  \<open>hydrate\<close>: the run ledgers found on disk, oldest first, and the lines of the decision log. Timestamps are
  texts. The feed of decisions is rebuilt from both; verdicts that got no ledger come back as bare runs.
\<close>

definition text_or_empty :: "json \<Rightarrow> string" where
  "text_or_empty v = (case v of JStr s \<Rightarrow> s | _ \<Rightarrow> [])"

definition restored :: "json \<Rightarrow> json" where "restored j = jput ''restored'' (JBool True) j"

definition put_run :: "(string, json) dict \<Rightarrow> json \<Rightarrow> (string, json) dict" where
  "put_run d rec = (let rid = text_or_empty (jget rec ''run_id'') in if rid = [] then d else dput rid (restored rec) d)"

definition problem_ids :: "json \<Rightarrow> json" where
  "problem_ids rec = JList (map (\<lambda>p. jget p ''id'') (jlist (jget rec ''problems'')))"

definition run_summary_of :: "string \<Rightarrow> json \<Rightarrow> json" where
  "run_summary_of rid rec =
     JObj [(''run_id'', JStr rid), (''ts'', jget rec ''ts''), (''skill'', jget rec ''skill''), (''perk'', jget rec ''perk''),
           (''decision'', jget rec ''decision''), (''destructive'', jget_or rec ''destructive'' (JBool False)),
           (''var_keys'', jget_or rec ''var_keys'' (JList [])), (''plan_sha'', JStr (take 12 (text_or_empty (jget rec ''plan_sha'')))),
           (''tlc'', jget rec ''tlc''), (''problems'', problem_ids rec), (''needs_approve'', JList []), (''restored'', JBool True)]"

definition feed_key :: "(json, json) dict \<Rightarrow> json \<Rightarrow> json" where
  "feed_key d s = py_or (jget s ''run_id'') (JInt (int (length d)))"

definition bare_run :: "json \<Rightarrow> json" where
  "bare_run s =
     JObj [(''run_id'', jget s ''run_id''), (''ts'', jget s ''ts''), (''skill'', jget s ''skill''), (''perk'', jget s ''perk''),
           (''decision'', jget s ''decision''), (''destructive'', jget_or s ''destructive'' (JBool False)),
           (''var_keys'', jget_or s ''var_keys'' (JList [])), (''plan_sha'', jget s ''plan_sha''),
           (''problems'', JList (map (\<lambda>p. JObj [(''id'', p)]) (jlist (jget s ''problems'')))),
           (''seq'', JList []), (''events'', JList []), (''wrapper'', JStr []), (''restored'', JBool True)]"

definition restore_verdict :: "(string, json) dict \<Rightarrow> json \<Rightarrow> (string, json) dict" where
  "restore_verdict d s =
     (let rid = text_or_empty (jget s ''run_id'')
      in if rid \<noteq> [] \<and> dget d rid = None \<and> jget s ''decision'' \<in> {JStr ''reject'', JStr ''push_back''} then dput rid (bare_run s) d else d)"

definition hydrate :: "nat \<Rightarrow> json list \<Rightarrow> json list \<Rightarrow> (string, json) dict \<times> json list" where
  "hydrate cap ledgers lines =
     (let runs = foldl put_run [] (newest cap ledgers);
          feed0 = map (\<lambda>(rid, rec). (JStr rid, run_summary_of rid rec)) runs;
          feed = foldl (\<lambda>d s. dput (feed_key d s) (restored s) d) feed0 lines;
          decs = newest decisions_kept (sort_key (\<lambda>s. text_or_empty (jget s ''ts'')) (map snd feed))
      in (newest cap (foldl restore_verdict runs decs), decs))"

section \<open>The gates of a step\<close>

definition sup_digits :: string where "sup_digits = [CHR 0xB2, CHR 0xB3, CHR 0xB9]"

text \<open>\<open>s.isdigit()\<close>, which superscripts pass and \<open>int(s)\<close> then refuses.\<close>

definition is_digits :: "string \<Rightarrow> bool" where
  "is_digits s \<longleftrightarrow> s \<noteq> [] \<and> list_all (\<lambda>c. c \<in> set ''0123456789'' \<or> c \<in> set sup_digits) s"

definition int_text :: "string \<Rightarrow> nat res" where
  "int_text s = (case parse_digits 0 s of Some n \<Rightarrow> if s = [] then Inl ValueError else Inr n | None \<Rightarrow> Inl ValueError)"

definition seq_length :: "json \<Rightarrow> nat res" where
  "seq_length rec = (case jget_or rec ''seq'' (JList []) of JList xs \<Rightarrow> Inr (length xs) | _ \<Rightarrow> Inl TypeError)"

definition missing_upstream :: "store \<Rightarrow> string \<Rightarrow> nat \<Rightarrow> string list" where
  "missing_upstream st rid k = filter (\<lambda>s. JStr s \<notin> ran_ok st rid) (map show_nat [1..<k])"

definition authorize_step :: "store \<Rightarrow> string \<Rightarrow> string \<Rightarrow> json \<Rightarrow> (bool \<times> string) res" where
  "authorize_step st rid step psha =
     (case get_run st rid of
        None \<Rightarrow> Inr (False, ''unknown run_id'')
      | Some rec \<Rightarrow>
          bindR (item rec ''decision'') (\<lambda>d.
          if d \<noteq> JStr ''allow'' then Inr (False, ''run not authorized (decision='' @ py_str d @ '')'')
          else if \<not> truthy psha then Inr (False, ''missing plan_sha'')
          else bindR (item rec ''plan_sha'') (\<lambda>p.
          if psha \<noteq> p then Inr (False, ''plan_sha inconsistent'')
          else if \<not> is_digits step then Inr (False, ''invalid step '' @ repr_str step)
          else bindR (int_text step) (\<lambda>k.
          if k < 1 then Inr (False, ''invalid step '' @ repr_str step)
          else bindR (seq_length rec) (\<lambda>n.
          if n < k then Inr (False, ''step '' @ step @ '' > '' @ show_nat n @ '' declared'')
          else let missing = missing_upstream st rid k
               in Inr (if missing \<noteq> [] then (False, ''upstream not recorded: '' @ join_with '', '' missing) else (True, ''granted'')))))))"

definition result_acceptable :: "store \<Rightarrow> string \<Rightarrow> string \<Rightarrow> json \<Rightarrow> (bool \<times> string) res" where
  "result_acceptable st rid step psha =
     (case get_run st rid of
        None \<Rightarrow> Inr (False, ''unknown run_id'')
      | Some rec \<Rightarrow>
          bindR (if truthy psha then item rec ''plan_sha'' else Inr JNull) (\<lambda>p.
          if \<not> truthy psha \<or> psha \<noteq> p then Inr (False, ''missing/inconsistent plan_sha'')
          else if JStr step \<notin> fst (steps_seen st rid) then Inr (False, ''step '' @ step @ '' was never granted'')
          else if JStr step \<in> snd (steps_seen st rid) then Inr (False, ''step '' @ step @ '' already recorded'')
          else Inr (True, ''ok'')))"

section \<open>What surrounds a message\<close>

record around =
  ar_env :: gov_env
  ar_cfg :: json
  ar_principals :: registry
  ar_mode :: string
  ar_limb :: "limb option"
  ar_channel :: "json \<Rightarrow> json res"
  ar_now :: int
  ar_ts :: string
  ar_nonce :: string
  ar_span :: "json \<Rightarrow> json"
  ar_diff :: "string \<Rightarrow> string \<Rightarrow> string list"
  ar_seal :: "json \<Rightarrow> (string \<times> json) option"

text \<open>The live entry of the principal a run belongs to.\<close>

definition live_spec :: "around \<Rightarrow> json \<Rightarrow> json" where
  "live_spec ar rec =
     (case jget rec ''principal'' of
        JStr p \<Rightarrow> (case dget (ar_principals ar) p of Some s \<Rightarrow> py_or s (JObj []) | None \<Rightarrow> JObj [])
      | _ \<Rightarrow> JObj [])"

definition live_scope :: "around \<Rightarrow> json \<Rightarrow> json" where
  "live_scope ar rec = (case jget rec ''principal'' of JStr p \<Rightarrow> resolve_scope (ar_principals ar) p | _ \<Rightarrow> JNull)"

definition is_delegated :: "around \<Rightarrow> json \<Rightarrow> bool res" where
  "is_delegated ar rec = bindR (py_get (live_spec ar rec) ''exec_mode'' JNull) (\<lambda>m. Inr (py_or m (JStr (ar_mode ar)) = JStr ''delegated''))"

definition run_claim :: "around \<Rightarrow> json \<Rightarrow> bool \<Rightarrow> json \<Rightarrow> claim res" where
  "run_claim ar rec parameterized cargo =
     bindR (text_of (jget rec ''skill'')) (\<lambda>skill. bindR (text_of (jget rec ''perk'')) (\<lambda>perk.
     bindR (perk_sandbox_tier (ge_loads (ar_env ar)) (ge_fs (ar_env ar)) (ge_chip (ar_env ar)) skill perk) (\<lambda>tier.
       Inr \<lparr>cl_skill = skill, cl_perk = perk, cl_tier = tier, cl_destructive = truthy (jget rec ''destructive''),
            cl_credentialed = truthy (jget rec ''credential_ids''), cl_parameterized = parameterized, cl_cargo = cargo\<rparr>)))"

definition live_acl :: "around \<Rightarrow> json \<Rightarrow> bool \<Rightarrow> json \<Rightarrow> acl_problem option res" where
  "live_acl ar rec parameterized cargo =
     bindR (run_claim ar rec parameterized cargo) (\<lambda>c.
       acl_allows (live_scope ar rec) c (Some (of_int (ar_now ar))) (truthy (jget (ar_cfg ar) ''acl_strict'')))"

text \<open>The two gates of a claim, asked again for a step in flight; \<open>Some\<close> is the reason of a refusal.\<close>

definition reauthorize :: "around \<Rightarrow> json \<Rightarrow> string option res" where
  "reauthorize ar rec =
     bindR (if ar_principals ar \<noteq> [] \<and> (live_scope ar rec \<noteq> JNull \<or> truthy (jget (ar_cfg ar) ''acl_strict''))
            then live_acl ar rec (truthy (jget rec ''binds'')) (jget rec ''cargo'') else Inr None) (\<lambda>acl.
     case acl of
       Some p \<Rightarrow> Inr (Some (''acl:'' @ acl_problem_id p))
     | None \<Rightarrow>
         bindR (text_of (jget rec ''skill'')) (\<lambda>skill.
         bindR (py_get (live_spec ar rec) ''local_dev'' JNull) (\<lambda>dev. bindR (py_get (live_spec ar rec) ''tier'' JNull) (\<lambda>tier.
         bindR (access_allows (skill_policy (ar_env ar) skill) (mode_of (ar_cfg ar)) (truthy dev) (jget rec ''principal'') tier
                  (truthy (jget (ar_cfg ar) ''skillacl_enforce''))) (\<lambda>sa.
           Inr (map_option (\<lambda>p. ''access:'' @ access_problem_id p) sa))))))"

text \<open>The values that may cross to a confined step: declared, not reserved, not secret.\<close>

definition forwardable :: "json \<Rightarrow> string \<Rightarrow> bool" where
  "forwardable rec k \<longleftrightarrow> JStr k \<in> set (case py_or (jget rec ''var_keys'') (JList []) of JList ks \<Rightarrow> ks | _ \<Rightarrow> [])
     \<and> k \<notin> set fixed_env \<and> \<not> starts_with k ''CWS_SECRET_'' \<and> \<not> plaintext_secret k"

definition forwarded :: "json \<Rightarrow> json \<Rightarrow> json" where
  "forwarded rec vals = JObj (map (\<lambda>(k, v). (k, JStr (py_str v))) (filter (\<lambda>(k, v). forwardable rec k) (obj_members vals)))"

section \<open>Messages\<close>

definition reply_error :: "json \<Rightarrow> string \<Rightarrow> json" where
  "reply_error step why = JObj [(''type'', JStr ''error''), (''step'', step), (''reason'', JStr why)]"

definition reply_refuse :: "json \<Rightarrow> string \<Rightarrow> json" where
  "reply_refuse step why = JObj [(''type'', JStr ''refuse''), (''step'', step), (''reason'', JStr why)]"

text \<open>The event of a delegated step as it is stored; the values of a step that ran are sealed, and their digest is bound in.\<close>

definition stored_event :: "around \<Rightarrow> json \<Rightarrow> json \<Rightarrow> json \<Rightarrow> json" where
  "stored_event ar rec ev vals =
     (let e = jput ''span'' (ar_span ar (jget rec ''traceparent'')) (jput ''ts'' (JStr (ar_ts ar)) ev)
      in if jget ev ''type'' = JStr ''step_result'' \<and> truthy vals
         then (case ar_seal ar vals of None \<Rightarrow> e | Some (sha, blob) \<Rightarrow> jput ''values_sha'' (JStr sha) e) else e)"

definition seal_job :: "around \<Rightarrow> store \<Rightarrow> string \<Rightarrow> string \<Rightarrow> json \<Rightarrow> json \<Rightarrow> store" where
  "seal_job ar st rid step ev vals =
     (if jget ev ''type'' = JStr ''step_result'' \<and> truthy vals
      then (case ar_seal ar vals of
              None \<Rightarrow> st
            | Some (sha, blob) \<Rightarrow> st \<lparr>s_mirror := mirror_values (s_mirror st) rid step (ar_ts ar) sha blob\<rparr>)
      else st)"

text \<open>The values of a delegated step: \<open>Inl\<close> in the pair is a refusal of the live access list.\<close>

definition delegated_values :: "around \<Rightarrow> json \<Rightarrow> json \<Rightarrow> (string + json) res" where
  "delegated_values ar rec msg =
     (let vals = py_or (jget msg ''var_values'') (JObj [])
      in if \<not> truthy vals then Inr (Inr (JObj []))
         else bindR (live_acl ar rec True JNull) (\<lambda>p.
           case p of
             Some x \<Rightarrow> Inr (Inl (''acl:'' @ acl_problem_id x))
           | None \<Rightarrow> if is_obj vals then Inr (Inr (forwarded rec vals)) else Inl AttributeError))"

text \<open>What happens while a step is claimed: the reply, and the event to record with the values it ran on.\<close>

definition delegated_work :: "around \<Rightarrow> limb \<Rightarrow> json \<Rightarrow> string \<Rightarrow> json \<Rightarrow> (json \<times> (json \<times> json) option) res" where
  "delegated_work ar L rec step msg =
     bindR (delegated_values ar rec msg) (\<lambda>v.
       case v of
         Inl why \<Rightarrow> Inr (reply_refuse (jget msg ''step'') why, None)
       | Inr vals \<Rightarrow>
           bindR (text_of (jget msg ''plan_sha'')) (\<lambda>plan.
           bindR (execute_step L (ar_channel ar) rec step plan (ar_now ar) (ar_nonce ar) (jget msg ''attestation'') (jget msg ''token_proof'') vals)
             (\<lambda>(reply, ev).
               Inr (JObj ([(''type'', JStr ''executed''), (''step'', jget msg ''step'')] @ obj_members reply), map_option (\<lambda>e. (e, vals)) ev))))"

definition record_outcome :: "around \<Rightarrow> store \<Rightarrow> string \<Rightarrow> json \<Rightarrow> string \<Rightarrow> (json \<times> json) option \<Rightarrow> store" where
  "record_outcome ar st rid rec step out =
     (case out of None \<Rightarrow> st
      | Some (ev, vals) \<Rightarrow> fst (append_event (seal_job ar st rid step ev vals) rid (stored_event ar rec ev vals)))"

definition granted_event :: "around \<Rightarrow> json \<Rightarrow> string \<Rightarrow> json \<Rightarrow> json" where
  "granted_event ar rec step psha =
     JObj [(''type'', JStr ''granted''), (''ts'', JStr (ar_ts ar)), (''step'', JStr step), (''plan_sha'', psha),
           (''span'', ar_span ar (jget rec ''traceparent''))]"

definition diff_line :: "string \<Rightarrow> bool" where
  "diff_line l \<longleftrightarrow> (l = [] \<or> hd l \<in> set ''+-'') \<and> \<not> starts_with l ''+++'' \<and> \<not> starts_with l ''---''"

text \<open>The refusal of a step, and the diff of an inconsistent plan.\<close>

definition refused_events :: "around \<Rightarrow> json \<Rightarrow> string \<Rightarrow> string \<Rightarrow> json \<Rightarrow> (json \<times> json) res" where
  "refused_events ar rec step reason msg =
     (let ev = [(''type'', JStr ''step_refused''), (''ts'', JStr (ar_ts ar)), (''step'', JStr step), (''reason'', JStr reason)];
          reply = [(''type'', JStr ''refuse''), (''step'', jget msg ''step''), (''reason'', JStr reason)];
          sent = jget msg ''plan_wrapper''
      in if contains reason ''inconsistent'' \<and> sent \<noteq> JNull
         then (case (py_or (jget_or rec ''wrapper'' (JStr [])) (JStr []), py_or sent (JStr [])) of
                 (JStr a, JStr b) \<Rightarrow>
                   (let d = ar_diff ar a b
                    in Inr (JObj (ev @ [(''diff_lines'', JInt (int (length (filter diff_line d))))]), JObj (reply @ [(''diff'', JStr (join_with nl d))])))
               | _ \<Rightarrow> Inl AttributeError)
         else Inr (JObj ev, JObj reply))"

definition on_step_request :: "around \<Rightarrow> store \<Rightarrow> string \<Rightarrow> json \<Rightarrow> (store \<times> json list) res" where
  "on_step_request ar st rid msg =
     (let step = py_str (jget msg ''step''); psha = jget msg ''plan_sha''; rec0 = get_run st rid;
          rec = (case rec0 of Some r \<Rightarrow> r | None \<Rightarrow> JObj []); refuse = reply_refuse (jget msg ''step'')
      in bindR (authorize_step st rid step psha) (\<lambda>(ok0, why0).
         bindR (if ok0 \<and> rec0 \<noteq> None then reauthorize ar rec else Inr None) (\<lambda>deny.
         bindR (is_delegated ar rec) (\<lambda>delegated.
           let ok = (ok0 \<and> deny = None); why = (case deny of Some d \<Rightarrow> d | None \<Rightarrow> why0)
           in if ok \<and> delegated then
                (if rec0 = None then Inr (st, [refuse ''run no longer resident (fail-closed)''])
                 else case ar_limb ar of
                   None \<Rightarrow> Inr (st, [refuse ''delegated mode but exod is not configured (fail-closed)''])
                 | Some L \<Rightarrow>
                     (case claim_step st rid step of
                        (st1, False) \<Rightarrow> Inr (st1, [refuse (''step '' @ step @ '' already executed or in flight'')])
                      | (st1, True) \<Rightarrow>
                          bindR (delegated_work ar L rec step msg) (\<lambda>(reply, out).
                            Inr (release_step (record_outcome ar st1 rid rec step out) rid step, [reply]))))
              else if ok then
                Inr (fst (append_event st rid (granted_event ar rec step psha)),
                     [JObj [(''type'', JStr ''grant''), (''step'', jget msg ''step''), (''reason'', JStr why)]])
              else bindR (refused_events ar rec step why msg) (\<lambda>(ev, reply). Inr (fst (append_event st rid ev), [reply]))))))"

definition result_event_of :: "around \<Rightarrow> json \<Rightarrow> string \<Rightarrow> json \<Rightarrow> json" where
  "result_event_of ar rec step msg =
     JObj [(''type'', JStr ''step_result''), (''ts'', JStr (ar_ts ar)), (''step'', JStr step), (''status'', jget msg ''status''),
           (''exit'', jget msg ''exit''), (''span'', ar_span ar (jget rec ''traceparent''))]"

definition on_step_result :: "around \<Rightarrow> store \<Rightarrow> string \<Rightarrow> json \<Rightarrow> (store \<times> json list) res" where
  "on_step_result ar st rid msg =
     (let step = py_str (jget msg ''step''); rec = (case get_run st rid of Some r \<Rightarrow> r | None \<Rightarrow> JObj [])
      in bindR (is_delegated ar rec) (\<lambda>delegated.
         if delegated then Inr (st, [reply_error (JStr step) ''delegated mode: agent self-report rejected''])
         else bindR (result_acceptable st rid step (jget msg ''plan_sha'')) (\<lambda>(ok, why).
           if \<not> ok then Inr (st, [reply_error (JStr step) why])
           else case append_event st rid (result_event_of ar rec step msg) of
             (st1, None) \<Rightarrow> Inr (st1, [JObj [(''type'', JStr ''error''), (''step'', JStr step), (''index'', JNull)]])
           | (st1, Some r) \<Rightarrow>
               Inr (st1, [JObj [(''type'', JStr ''recorded''), (''step'', JStr step), (''index'', JInt (int (length (record_events r))))]]))))"

text \<open>The session token of a run; \<open>hmac.compare_digest\<close> raises for texts beyond ASCII.\<close>

definition on_hello :: "store \<Rightarrow> json \<Rightarrow> (string option \<times> json list) res" where
  "on_hello st msg =
     (let rid = jget msg ''run_id'';
          no = Inr (None, [JObj [(''type'', JStr ''hello_ack''), (''run_id'', rid), (''authorized'', JBool False),
                                 (''reason'', JStr ''unknown run or invalid session token'')]])
      in case rid of
           JList _ \<Rightarrow> Inl TypeError
         | JObj _ \<Rightarrow> Inl TypeError
         | JStr r \<Rightarrow>
             (case get_run st r of
                None \<Rightarrow> no
              | Some rec \<Rightarrow>
                  bindR (compare_digest (py_str (py_or (jget msg ''token'') (JStr []))) (py_str (py_or (jget rec ''token'') (JStr [])))) (\<lambda>same.
                    if \<not> same then no
                    else bindR (item rec ''decision'') (\<lambda>d.
                      Inr (Some r, [JObj [(''type'', JStr ''hello_ack''), (''run_id'', rid), (''authorized'', JBool True), (''decision'', d)]]))))
         | _ \<Rightarrow> no)"

record session_out =
  so_store :: store
  so_bound :: "string option"
  so_replies :: "json list"
  so_closed :: bool

text \<open>One message of a session that may be bound to a run. An exception ends the session and leaves the store as it was.\<close>

definition on_message :: "around \<Rightarrow> store \<Rightarrow> string option \<Rightarrow> json \<Rightarrow> session_out res" where
  "on_message ar st bound msg =
     (if \<not> is_obj msg then Inl AttributeError
      else if jget msg ''type'' = JStr ''hello'' then
        bindR (on_hello st msg) (\<lambda>(b, rs). Inr \<lparr>so_store = st, so_bound = (if b = None then bound else b), so_replies = rs, so_closed = b = None\<rparr>)
      else case bound of
        None \<Rightarrow> Inr \<lparr>so_store = st, so_bound = None, so_replies = [JObj [(''type'', JStr ''error''), (''reason'', JStr ''not authenticated'')]],
                     so_closed = False\<rparr>
      | Some rid \<Rightarrow>
          if jget msg ''type'' = JStr ''step_request'' then
            bindR (on_step_request ar st rid msg) (\<lambda>(st1, rs). Inr \<lparr>so_store = st1, so_bound = bound, so_replies = rs, so_closed = False\<rparr>)
          else if jget msg ''type'' = JStr ''step_result'' then
            bindR (on_step_result ar st rid msg) (\<lambda>(st1, rs). Inr \<lparr>so_store = st1, so_bound = bound, so_replies = rs, so_closed = False\<rparr>)
          else Inr \<lparr>so_store = st, so_bound = bound,
                    so_replies = [JObj [(''type'', JStr ''error''), (''reason'', JStr (''unknown type '' @ py_str (jget msg ''type'')))]], so_closed = False\<rparr>)"

text \<open>A session: its messages in turn, until one closes it.\<close>

fun converse :: "around \<Rightarrow> store \<Rightarrow> string option \<Rightarrow> json list \<Rightarrow> store res" where
  "converse ar st bound [] = Inr st"
| "converse ar st bound (m # ms) =
     bindR (on_message ar st bound m) (\<lambda>o'. if so_closed o' then Inr (so_store o') else converse ar (so_store o') (so_bound o') ms)"

section \<open>The order of provenance\<close>

text \<open>
  When a step may run: its number is one of the plan's, and every step before it has been recorded as
  run with status ok.
\<close>

definition step_open :: "nat \<Rightarrow> json list \<Rightarrow> string \<Rightarrow> bool" where
  "step_open n evs step \<longleftrightarrow> (\<exists>k. parse_digits 0 step = Some k \<and> 1 \<le> k \<and> k \<le> n \<and> (\<forall>j \<in> {1..<k}. JStr (show_nat j) \<in> ok_steps evs))"

definition recorded :: "json list \<Rightarrow> json set" where
  "recorded evs = steps_of (of_type ''step_result'' evs)"

definition granted :: "json list \<Rightarrow> json set" where
  "granted evs = steps_of (of_type ''granted'' evs)"

text \<open>Which event may follow a list of events.\<close>

definition admissible :: "nat \<Rightarrow> json list \<Rightarrow> json \<Rightarrow> bool" where
  "admissible n evs e \<longleftrightarrow>
     (jget e ''type'' = JStr ''granted'' \<longrightarrow> (\<exists>s. jget e ''step'' = JStr s \<and> step_open n evs s))
     \<and> (jget e ''type'' = JStr ''step_result'' \<longrightarrow>
          (\<exists>s. jget e ''step'' = JStr s \<and> step_open n evs s) \<and> jget e ''step'' \<notin> recorded evs)"

inductive ordered :: "nat \<Rightarrow> json list \<Rightarrow> bool" for n where
  ordered_Nil: "ordered n []"
| ordered_snoc: "ordered n evs \<Longrightarrow> admissible n evs e \<Longrightarrow> ordered n (evs @ [e])"

lemma ok_steps_mono: "ok_steps evs \<subseteq> ok_steps (evs @ es)"
  by (auto simp: ok_steps_def steps_of_def of_type_def)

lemma step_open_mono: "step_open n evs s \<Longrightarrow> step_open n (evs @ es) s"
  using ok_steps_mono [of evs es] by (fastforce simp: step_open_def)

text \<open>A granted step was open, and stays open.\<close>

lemma ordered_granted:
  assumes "ordered n evs" and "JStr s \<in> granted evs"
  shows "step_open n evs s"
  using assms
proof (induction rule: ordered.induct)
  case (ordered_snoc evs e)
  then show ?case
    by (auto simp: granted_def steps_of_def of_type_def admissible_def intro!: step_open_mono split: if_splits)
qed (simp add: granted_def steps_of_def of_type_def)

lemma ordered_snoc_iff: "ordered n (evs @ [e]) \<longleftrightarrow> ordered n evs \<and> admissible n evs e"
  by (subst ordered.simps) auto

lemma ordered_results_distinct:
  assumes "ordered n evs"
  shows "distinct (map (\<lambda>e. jget e ''step'') (of_type ''step_result'' evs))"
  using assms
proof (induction rule: ordered.induct)
  case (ordered_snoc evs e)
  then show ?case by (auto simp: of_type_def admissible_def recorded_def steps_of_def)
qed (simp add: of_type_def)

lemma open_of_ordered:
  assumes "ordered n (evs @ e # es)" and "jget e ''type'' \<in> {JStr ''granted'', JStr ''step_result''}"
  shows "\<exists>s. jget e ''step'' = JStr s \<and> step_open n evs s"
proof -
  have "ordered n (evs @ [e])" using assms(1)
  proof (induction es rule: rev_induct)
    case (snoc x es)
    then show ?case by (metis append.assoc append_Cons ordered_snoc_iff)
  qed simp
  then show ?thesis using assms(2) by (auto simp: ordered_snoc_iff admissible_def)
qed

section \<open>Every message keeps the order\<close>

definition run_ok :: "json \<Rightarrow> bool" where
  "run_ok rec \<longleftrightarrow> (\<exists>n. seq_length rec = Inr n \<and> ordered n (record_events rec))"

definition store_ok :: "store \<Rightarrow> bool" where
  "store_ok st \<longleftrightarrow> list_all (\<lambda>kv. run_ok (snd kv)) (s_runs st) \<and> list_all (\<lambda>kv. run_ok (snd kv)) (s_disk st)"

lemma dput_all: "list_all (\<lambda>kv. P (snd kv)) d \<Longrightarrow> P v \<Longrightarrow> list_all (\<lambda>kv. P (snd kv)) (dput k v d)"
  by (induction d) auto

lemma newest_all: "list_all P xs \<Longrightarrow> list_all P (newest n xs)"
  by (auto simp: newest_def list_all_iff dest: in_set_dropD)

lemma dget_all: "list_all (\<lambda>kv. P (snd kv)) d \<Longrightarrow> dget d k = Some v \<Longrightarrow> P v"
  by (auto simp: list_all_iff dest!: map_of_SomeD)

lemma create_ok: "store_ok st \<Longrightarrow> run_ok rec \<Longrightarrow> store_ok (create st rid rec)"
  by (simp add: store_ok_def create_def persist_def remember_def Let_def dput_all newest_all)

lemma remember_ok: "store_ok st \<Longrightarrow> run_ok rec \<Longrightarrow> store_ok (remember st rid rec)"
  by (simp add: store_ok_def remember_def dput_all newest_all)

lemma with_event_get:
  "k \<noteq> ''events'' \<Longrightarrow> jget_or (with_event rec ev) k d = jget_or rec k d"
  "record_events (with_event rec ev) = record_events rec @ [ev]"
  by (simp_all add: with_event_def jput_def jget_or_def obj_members_def dget_dput record_events_def jget_def py_or_def)

lemma with_event_ok:
  assumes "seq_length rec = Inr n" and "ordered n (record_events rec)" and "admissible n (record_events rec) ev"
  shows "run_ok (with_event rec ev)"
  using assms by (auto simp: run_ok_def seq_length_def with_event_get ordered_snoc_iff)

lemma append_ok:
  assumes "store_ok st"
    and "\<And>rec n. get_run st rid = Some rec \<Longrightarrow> seq_length rec = Inr n \<Longrightarrow> ordered n (record_events rec) \<Longrightarrow> admissible n (record_events rec) ev"
  shows "store_ok (fst (append_event st rid ev))"
proof (cases "get_run st rid")
  case (Some rec)
  have "run_ok rec" using assms(1) Some by (auto simp: store_ok_def get_run_def intro: dget_all)
  then obtain n where n: "seq_length rec = Inr n" "ordered n (record_events rec)" by (auto simp: run_ok_def)
  then have "run_ok (with_event rec ev)" using assms(2) [OF Some n] with_event_ok by blast
  then show ?thesis using assms(1) Some by (simp add: append_event_def Let_def persist_def store_ok_def dput_all)
qed (use assms(1) in \<open>simp add: append_event_def\<close>)

lemma authorize_open:
  assumes "authorize_step st rid step psha = Inr (True, why)" and "get_run st rid = Some rec" and "seq_length rec = Inr n"
  shows "step_open n (record_events rec) step \<and> jget rec ''decision'' = JStr ''allow'' \<and> psha = jget rec ''plan_sha'' \<and> truthy psha"
proof -
  note r = assms(1) [unfolded authorize_step_def assms(2) option.case]
  from r obtain k where k: "int_text step = Inr k" "1 \<le> k" "k \<le> n" "missing_upstream st rid k = []"
    using assms(3) by (auto simp: bindR_eq_Inr Let_def split: if_split_asm)
  have i: "item rec x = Inr v \<Longrightarrow> jget rec x = v" for x v
    by (cases rec) (auto simp: item_def jget_def obj_members_def split: option.splits)
  have "jget rec ''decision'' = JStr ''allow'' \<and> psha = jget rec ''plan_sha'' \<and> truthy psha"
    using r by (auto simp: bindR_eq_Inr i split: if_split_asm)
  moreover have "JStr (show_nat j) \<in> ok_steps (record_events rec)" if "j \<in> {1..<k}" for j
    using k(4) that assms(2) by (auto simp: missing_upstream_def filter_empty_conv ran_ok_def run_events_def)
  ultimately show ?thesis using k by (auto simp: step_open_def int_text_def split: option.splits if_splits)
qed

text \<open>A step that could be claimed has no result yet.\<close>

lemma claim_fresh:
  "claim_step st rid step = (st1, True) \<Longrightarrow> JStr step \<notin> recorded (run_events st rid) \<and> s_runs st1 = s_runs st \<and> s_disk st1 = s_disk st"
  by (auto simp: claim_step_def steps_seen_def recorded_def split: if_split_asm)

lemma claim_keeps: "s_runs (fst (claim_step st rid step)) = s_runs st \<and> s_disk (fst (claim_step st rid step)) = s_disk st"
  by (simp add: claim_step_def)

lemma release_keeps: "s_runs (release_step st rid step) = s_runs st \<and> s_disk (release_step st rid step) = s_disk st"
  by (simp add: release_step_def split: option.splits) (simp add: Let_def)

lemma seal_keeps: "s_runs (seal_job ar st rid step ev vals) = s_runs st \<and> s_disk (seal_job ar st rid step ev vals) = s_disk st"
  by (simp add: seal_job_def split: option.splits prod.splits)

lemma store_ok_cong: "s_runs st' = s_runs st \<Longrightarrow> s_disk st' = s_disk st \<Longrightarrow> store_ok st' = store_ok st"
  by (simp add: store_ok_def)

text \<open>What a delegated step records names that step.\<close>

lemma settle_answer_event:
  assumes "settle_answer L rec run plan step env = Inr (reply, Some ev)"
  shows "jget ev ''step'' = JStr step \<and> jget ev ''type'' \<noteq> JStr ''granted''"
  using assms
  by (auto simp: settle_answer_def Let_def forged_event_def result_event_def jget_JObj elim!: bind_InrE split: if_split_asm)

lemma execute_step_event:
  assumes "execute_step L request rec step plan now nonce att proof vals = Inr (reply, Some ev)"
  shows "jget ev ''step'' = JStr step \<and> jget ev ''type'' \<noteq> JStr ''granted''"
  using assms by (auto simp: execute_step_def elim!: bind_InrE split: sum.split_asm dest: settle_answer_event)

lemma stored_event_get: "jget (stored_event ar rec ev vals) ''step'' = jget ev ''step''" "jget (stored_event ar rec ev vals) ''type'' = jget ev ''type''"
proof -
  have o': "k \<noteq> k' \<Longrightarrow> jget (jput k' v j) k = jget j k" for k k' v j
    by (cases j) (simp_all add: jput_def jget_def obj_members_def dget_dput)
  show "jget (stored_event ar rec ev vals) ''step'' = jget ev ''step''" "jget (stored_event ar rec ev vals) ''type'' = jget ev ''type''"
    by (simp_all add: stored_event_def Let_def o' split: option.splits prod.splits)
qed

lemma delegated_work_event:
  assumes "delegated_work ar L rec step msg = Inr (reply, Some (ev, vals))"
  shows "jget ev ''step'' = JStr step \<and> jget ev ''type'' \<noteq> JStr ''granted''"
  using assms by (auto simp: delegated_work_def elim!: bind_InrE split: sum.split_asm dest: execute_step_event)

lemma refused_events_type: "refused_events ar rec step why msg = Inr (ev, reply) \<Longrightarrow> jget ev ''type'' = JStr ''step_refused''"
  by (auto simp: refused_events_def Let_def jget_JObj split: if_split_asm json.split_asm)

lemma request_keeps_order:
  assumes "store_ok st" and "on_step_request ar st rid msg = Inr (st', rs)"
  shows "store_ok st'"
proof -
  let ?step = "py_str (jget msg ''step'')" and ?psha = "jget msg ''plan_sha''" and ?rec = "case get_run st rid of Some r \<Rightarrow> r | None \<Rightarrow> JObj []"
  note r = assms(2) [unfolded on_step_request_def Let_def]
  from r obtain ok0 why0 where a: "authorize_step st rid ?step ?psha = Inr (ok0, why0)" by (auto elim!: bind_InrE)
  from r a obtain deny where d: "(if ok0 \<and> get_run st rid \<noteq> None then reauthorize ar ?rec else Inr None) = Inr deny"
    by (auto elim!: bind_InrE)
  from r a d obtain del where del: "is_delegated ar ?rec = Inr del" by (auto elim!: bind_InrE)
  note r = r [unfolded a d bindR_Inr prod.case del]
  have open': "step_open n (record_events rec) ?step" if "ok0" "get_run st rid = Some rec" "seq_length rec = Inr n" for rec n
    using authorize_open [of st rid ?step ?psha why0 rec n] a that by simp
  consider (refused) "\<not> (ok0 \<and> deny = None)" | (grant) "ok0" "deny = None" "\<not> del" | (deleg) "ok0" "deny = None" "del" by blast
  then show ?thesis
  proof cases
    case refused
    let ?why = "case deny of Some d \<Rightarrow> d | None \<Rightarrow> why0"
    from refused r obtain ev reply where "refused_events ar ?rec ?step ?why msg = Inr (ev, reply)" and st': "st' = fst (append_event st rid ev)"
      by (auto elim!: bind_InrE)
    then have "jget ev ''type'' = JStr ''step_refused''" using refused_events_type by blast
    then show ?thesis unfolding st' using assms(1) by (intro append_ok) (simp_all add: admissible_def)
  next
    case grant
    then have "st' = fst (append_event st rid (granted_event ar ?rec ?step ?psha))" using r by simp
    then show ?thesis using assms(1) open' [OF grant(1)]
      by (auto intro!: append_ok simp: admissible_def granted_event_def jget_JObj)
  next
    case deleg
    show ?thesis
    proof (cases "get_run st rid = None \<or> ar_limb ar = None \<or> \<not> snd (claim_step st rid ?step)")
      case True
      then have "st' \<in> {st, fst (claim_step st rid ?step)}" using r deleg by (auto split: option.split_asm prod.split_asm if_split_asm)
      then show ?thesis using assms(1) claim_keeps [of st rid ?step] store_ok_cong [of "fst (claim_step st rid ?step)" st] by auto
    next
      case False
      then obtain rec L st1 where c: "get_run st rid = Some rec" "ar_limb ar = Some L" "claim_step st rid ?step = (st1, True)"
        by (cases "claim_step st rid ?step") auto
      from r deleg c obtain reply out where w: "delegated_work ar L rec ?step msg = Inr (reply, out)"
        and st': "st' = release_step (record_outcome ar st1 rid rec ?step out) rid ?step"
        by (auto elim!: bind_InrE)
      note fresh = claim_fresh [OF c(3)]
      have s1: "store_ok st1" using assms(1) fresh store_ok_cong by blast
      have "store_ok (record_outcome ar st1 rid rec ?step out)"
      proof (cases out)
        case (Some p)
        obtain ev vals where p: "p = (ev, vals)" by (cases p)
        let ?sealed = "seal_job ar st1 rid ?step ev vals"
        have e: "jget (stored_event ar rec ev vals) ''step'' = JStr ?step" "jget (stored_event ar rec ev vals) ''type'' \<noteq> JStr ''granted''"
          using delegated_work_event [of ar L rec ?step msg reply ev vals] w Some p by (simp_all add: stored_event_get)
        have g: "get_run ?sealed rid = Some rec" using c(1) fresh by (simp add: get_run_def seal_keeps)
        have "JStr ?step \<notin> recorded (record_events rec)" using fresh c(1) by (simp add: run_events_def)
        then have "store_ok (fst (append_event ?sealed rid (stored_event ar rec ev vals)))"
          using s1 store_ok_cong [of ?sealed st1] seal_keeps g e open' [OF deleg(1) c(1)]
          by (intro append_ok) (auto simp: admissible_def)
        then show ?thesis using Some p by (simp add: record_outcome_def)
      qed (use s1 in \<open>simp add: record_outcome_def\<close>)
      then show ?thesis unfolding st' using store_ok_cong release_keeps by blast
    qed
  qed
qed

lemma result_keeps_order:
  assumes "store_ok st" and "on_step_result ar st rid msg = Inr (st', rs)"
  shows "store_ok st'"
proof -
  let ?step = "py_str (jget msg ''step'')" and ?rec = "case get_run st rid of Some r \<Rightarrow> r | None \<Rightarrow> JObj []"
  note r = assms(2) [unfolded on_step_result_def Let_def]
  from r obtain del where del: "is_delegated ar ?rec = Inr del" by (auto elim!: bind_InrE)
  show ?thesis
  proof (cases del)
    case False
    from r del False obtain ok why where a: "result_acceptable st rid ?step (jget msg ''plan_sha'') = Inr (ok, why)" by (auto elim!: bind_InrE)
    show ?thesis
    proof (cases ok)
      case True
      let ?ev = "result_event_of ar ?rec ?step msg"
      have "st' = fst (append_event st rid ?ev)" using r del False a True by (auto split: prod.split_asm option.split_asm)
      moreover have "admissible n (record_events rec) ?ev"
        if "get_run st rid = Some rec" "seq_length rec = Inr n" "ordered n (record_events rec)" for rec n
      proof -
        have "JStr ?step \<in> granted (record_events rec)" "JStr ?step \<notin> recorded (record_events rec)"
          using a True that(1)
          by (auto simp: result_acceptable_def steps_seen_def run_events_def granted_def recorded_def elim!: bind_InrE split: if_split_asm)
        then show ?thesis using ordered_granted [OF that(3)] by (simp add: admissible_def result_event_of_def jget_JObj)
      qed
      ultimately show ?thesis using append_ok [OF assms(1), of rid ?ev] by blast
    qed (use r del False a assms(1) in auto)
  qed (use r del assms(1) in auto)
qed

text \<open>
  The life of a server: it starts on the ledgers of its record directory, takes claims on under fresh
  ids, and answers the messages of any number of sessions, in any order, under surroundings that may
  change at any time.
\<close>

inductive served :: "store \<Rightarrow> bool" where
  served_start: "s_runs st = [] \<Longrightarrow> s_disk st = [] \<Longrightarrow> served st"
| served_create: "served st \<Longrightarrow> seq_length rec = Inr n \<Longrightarrow> record_events rec = [] \<Longrightarrow> served (create st rid rec)"
| served_remember: "served st \<Longrightarrow> seq_length rec = Inr n \<Longrightarrow> record_events rec = [] \<Longrightarrow> served (remember st rid rec)"
| served_message: "served st \<Longrightarrow> on_message ar st bound msg = Inr o' \<Longrightarrow> served (so_store o')"
| served_decision: "served st \<Longrightarrow> served (record_decision st summary)"
| served_restart: "served st \<Longrightarrow> set ledgers \<subseteq> snd ` set (s_disk st) \<Longrightarrow> hydrate (s_max st) ledgers (s_log st) = (runs, decs)
    \<Longrightarrow> served (st \<lparr>s_runs := runs, s_inflight := [], s_decisions := decs\<rparr>)"

lemma on_message_keeps:
  assumes "store_ok st" and "on_message ar st bound msg = Inr o'"
  shows "store_ok (so_store o')"
  using assms
  by (auto simp: on_message_def elim!: bind_InrE split: if_split_asm option.split_asm dest: request_keeps_order result_keeps_order)

lemma restored_ok: "run_ok rec \<Longrightarrow> run_ok (restored rec)"
proof -
  have "seq_length (restored rec) = seq_length rec" "record_events (restored rec) = record_events rec"
    by (cases rec; simp add: restored_def seq_length_def record_events_def jget_or_def jput_def obj_members_def dget_dput jget_def py_or_def)+
  then show "run_ok rec \<Longrightarrow> run_ok (restored rec)" by (simp add: run_ok_def)
qed

lemma bare_ok: "run_ok (bare_run s)"
  by (auto simp: run_ok_def bare_run_def seq_length_def record_events_def jget_or_def obj_members_def jget_def py_or_def intro: ordered_Nil)

lemma foldl_keeps: "P s \<Longrightarrow> (\<And>s x. P s \<Longrightarrow> x \<in> set xs \<Longrightarrow> P (f s x)) \<Longrightarrow> P (foldl f s xs)"
  by (induction xs arbitrary: s) auto

lemma put_run_all: "list_all (\<lambda>kv. run_ok (snd kv)) d \<Longrightarrow> run_ok rec \<Longrightarrow> list_all (\<lambda>kv. run_ok (snd kv)) (put_run d rec)"
  by (simp add: put_run_def Let_def dput_all restored_ok)

lemma restore_verdict_all: "list_all (\<lambda>kv. run_ok (snd kv)) d \<Longrightarrow> list_all (\<lambda>kv. run_ok (snd kv)) (restore_verdict d v)"
  by (simp add: restore_verdict_def Let_def dput_all bare_ok)

lemma hydrate_ok:
  assumes "\<forall>rec \<in> set ledgers. run_ok rec" and "hydrate cap ledgers lines = (runs, decs)"
  shows "list_all (\<lambda>kv. run_ok (snd kv)) runs"
proof -
  have r: "\<forall>rec \<in> set (newest cap ledgers). run_ok rec" using assms(1) by (auto simp: newest_def dest: in_set_dropD)
  have "list_all (\<lambda>kv. run_ok (snd kv)) (foldl put_run [] (newest cap ledgers))"
    by (rule foldl_keeps [where P = "list_all (\<lambda>kv. run_ok (snd kv))"]) (use r in \<open>simp_all add: put_run_all\<close>)
  then have "list_all (\<lambda>kv. run_ok (snd kv)) (foldl restore_verdict (foldl put_run [] (newest cap ledgers)) d)" for d
    by (rule foldl_keeps [where P = "list_all (\<lambda>kv. run_ok (snd kv))"]) (simp_all add: restore_verdict_all)
  then show ?thesis using assms(2) newest_all by (simp add: hydrate_def Let_def) blast
qed

lemma fresh_ok: "seq_length rec = Inr n \<Longrightarrow> record_events rec = [] \<Longrightarrow> run_ok rec"
  by (auto simp: run_ok_def intro: ordered_Nil)

lemma served_ok: "served st \<Longrightarrow> store_ok st"
proof (induction rule: served.induct)
  case (served_restart st ledgers runs decs)
  then have "\<forall>rec \<in> set ledgers. run_ok rec" by (auto simp: store_ok_def list_all_iff)
  then show ?case using served_restart hydrate_ok by (simp add: store_ok_def)
next
  case (served_create st rec n rid)
  then show ?case using create_ok fresh_ok by blast
next
  case (served_remember st rec n rid)
  then show ?case using remember_ok fresh_ok by blast
next
  case (served_message st ar bound msg o')
  then show ?case using on_message_keeps by blast
qed (simp_all add: store_ok_def record_decision_def)

text \<open>
  Messages served one after the other, whatever the sessions send and whatever the daemon answers, and across
  restarts: the ledger of a run holds at most one result per step id as text, and grants and results stand
  behind results with status ok of every step before them. \<open>on_message\<close> serves a whole message at once, where
  the code takes the lock of the store anew for the check and for the append: what holds when the messages of
  several sessions interleave is the subject of \<open>Races\<close> (the at-most-once rule, and where it fails) and of
  \<open>Provenance\<close> (the order).
\<close>

lemma served_in_order:
  assumes "served st" and "(rid, rec) \<in> set (s_runs st) \<union> set (s_disk st)" and "record_events rec = evs @ e # es"
    and "jget e ''type'' \<in> {JStr ''granted'', JStr ''step_result''}"
  shows "distinct (map (\<lambda>x. jget x ''step'') (of_type ''step_result'' (record_events rec)))
    \<and> (\<exists>n s k. seq_length rec = Inr n \<and> jget e ''step'' = JStr s \<and> parse_digits 0 s = Some k \<and> 1 \<le> k \<and> k \<le> n
          \<and> (\<forall>j \<in> {1..<k}. \<exists>r \<in> set evs. jget r ''type'' = JStr ''step_result'' \<and> jget r ''step'' = JStr (show_nat j) \<and> jget r ''status'' = JStr ''ok''))"
proof -
  have "run_ok rec" using served_ok [OF assms(1)] assms(2) by (auto simp: store_ok_def list_all_iff)
  then obtain n where n: "seq_length rec = Inr n" "ordered n (evs @ e # es)" using assms(3) by (auto simp: run_ok_def)
  have "step_open n evs s" if "jget e ''step'' = JStr s" for s
    using open_of_ordered [OF n(2) assms(4)] that by auto
  then have "\<exists>s k. jget e ''step'' = JStr s \<and> parse_digits 0 s = Some k \<and> 1 \<le> k \<and> k \<le> n \<and> (\<forall>j \<in> {1..<k}. JStr (show_nat j) \<in> ok_steps evs)"
    using open_of_ordered [OF n(2) assms(4)] by (auto simp: step_open_def)
  moreover have "x \<in> ok_steps evs \<Longrightarrow> \<exists>r \<in> set evs. jget r ''type'' = JStr ''step_result'' \<and> jget r ''step'' = x \<and> jget r ''status'' = JStr ''ok''" for x
    by (auto simp: ok_steps_def steps_of_def of_type_def)
  ultimately show ?thesis using n(1) ordered_results_distinct [OF n(2)] assms(3) by (metis (no_types, lifting))
qed

lemma converse_served: "converse ar st bound ms = Inr st' \<Longrightarrow> served st \<Longrightarrow> served st'"
proof (induction ar st bound ms rule: converse.induct)
  case (2 ar st bound m ms)
  from 2(2) obtain v where v: "on_message ar st bound m = Inr v"
    "(if so_closed v then Inr (so_store v) else converse ar (so_store v) (so_bound v) ms) = Inr st'"
    by (auto elim!: bind_InrE)
  have "served (so_store v)" by (rule served_message [OF 2(3) v(1)])
  then show ?case using v 2(1) [OF v(1)] by (cases "so_closed v") auto
qed simp

definition sample_around :: around where
  "sample_around = \<lparr>ar_env = sample_env, ar_cfg = JObj [], ar_principals = [], ar_mode = ''cooperative'', ar_limb = None,
     ar_channel = (\<lambda>_. Inl OSError), ar_now = 100, ar_ts = ''t'', ar_nonce = ''n'', ar_span = (\<lambda>_. JNull), ar_diff = (\<lambda>_ _. []),
     ar_seal = (\<lambda>_. None)\<rparr>"

definition sample_run :: json where
  "sample_run = JObj [(''run_id'', JStr ''r''), (''skill'', JStr ''cws:fs''), (''perk'', JStr ''rm''), (''principal'', JStr ''local''),
     (''token'', JStr ''tok''), (''decision'', JStr ''allow''), (''plan_sha'', JStr ''p''), (''seq'', JList [JStr ''a'', JStr ''b'']),
     (''events'', JList [])]"

definition empty_store :: store where
  "empty_store = \<lparr>s_runs = [], s_inflight = [], s_decisions = [], s_log = [], s_disk = [], s_max = 8, s_mirror = start_mirror 9\<rparr>"

definition sample_messages :: "json list" where
  "sample_messages = [JObj [(''type'', JStr ''hello''), (''run_id'', JStr ''r''), (''token'', JStr ''tok'')],
     JObj [(''type'', JStr ''step_request''), (''step'', JInt 2), (''plan_sha'', JStr ''p'')],
     JObj [(''type'', JStr ''step_request''), (''step'', JInt 1), (''plan_sha'', JStr ''p'')],
     JObj [(''type'', JStr ''step_result''), (''step'', JInt 1), (''plan_sha'', JStr ''p''), (''status'', JStr ''ok''), (''exit'', JInt 0)],
     JObj [(''type'', JStr ''step_result''), (''step'', JInt 1), (''plan_sha'', JStr ''p''), (''status'', JStr ''ok''), (''exit'', JInt 0)],
     JObj [(''type'', JStr ''step_request''), (''step'', JInt 2), (''plan_sha'', JStr ''p'')]]"

lemma sample_conversation:
  "(case converse sample_around (create empty_store ''r'' sample_run) None sample_messages of
      Inr st \<Rightarrow> map (\<lambda>e. (jget e ''type'', jget e ''step'')) (run_events st ''r'') | Inl _ \<Rightarrow> [])
   = [(JStr ''step_refused'', JStr ''2''), (JStr ''granted'', JStr ''1''), (JStr ''step_result'', JStr ''1''), (JStr ''granted'', JStr ''2'')]"
  by code_simp

lemma served_in_order_sample:
  "\<exists>st rec evs e. served st \<and> (''r'', rec) \<in> set (s_runs st) \<and> record_events rec = evs @ [e] \<and> jget e ''step'' = JStr ''2''
     \<and> (\<exists>r \<in> set evs. jget r ''type'' = JStr ''step_result'' \<and> jget r ''step'' = JStr (show_nat 1) \<and> jget r ''status'' = JStr ''ok'')"
proof -
  have s0: "served empty_store" by (rule served_start) (simp_all add: empty_store_def)
  have "served (create empty_store ''r'' sample_run)"
    by (rule served_create [OF s0, of _ 2]) (simp_all add: sample_run_def seq_length_def jget_or_def obj_members_def record_events_def jget_def py_or_def)
  moreover obtain st where c: "converse sample_around (create empty_store ''r'' sample_run) None sample_messages = Inr st" and m: "map (\<lambda>e. (jget e ''type'', jget e ''step'')) (run_events st ''r'')
      = [(JStr ''step_refused'', JStr ''2''), (JStr ''granted'', JStr ''1''), (JStr ''step_result'', JStr ''1''), (JStr ''granted'', JStr ''2'')]"
    using sample_conversation
    by (cases "converse sample_around (create empty_store ''r'' sample_run) None sample_messages") simp_all
  ultimately have st: "served st" using converse_served by blast
  obtain rec where rec: "get_run st ''r'' = Some rec" using m by (cases "get_run st ''r''") (auto simp: run_events_def)
  then have mem: "(''r'', rec) \<in> set (s_runs st)" by (auto simp: get_run_def dest: map_of_SomeD)
  obtain a b c e where ev: "record_events rec = [a, b, c] @ [e]" and e: "jget e ''type'' = JStr ''granted''" "jget e ''step'' = JStr ''2''"
    using m rec by (auto simp: run_events_def)
  from served_in_order [OF st UnI1 [OF mem] ev] e obtain k where k: "parse_digits 0 ''2'' = Some k"
    "\<forall>j \<in> {1..<k}. \<exists>r \<in> set [a, b, c]. jget r ''type'' = JStr ''step_result'' \<and> jget r ''step'' = JStr (show_nat j) \<and> jget r ''status'' = JStr ''ok''"
    by auto
  have "parse_digits 0 ''2'' = Some 2" by code_simp
  then have "1 \<in> {1..<k}" using k(1) by simp
  then show ?thesis using st mem ev e k(2) by blast
qed

text \<open>
  A run that was rejected has no session token, and the empty token opens it: the session is told it is
  authorized, and the refusals of its requests are written to disk, where only allowed runs should be.
\<close>

lemma rejected_run_opens:
  assumes "get_run st r = Some rec" and "jget rec ''token'' = JNull" and "item rec ''decision'' = Inr (JStr ''reject'')" and "is_delegated ar rec = Inr d"
  shows "(\<exists>acks. on_hello st (JObj [(''type'', JStr ''hello''), (''run_id'', JStr r)]) = Inr (Some r, acks))
    \<and> (\<exists>st' rs. on_step_request ar st r (JObj [(''step'', JInt 1)]) = Inr (st', rs) \<and> dget (s_disk st') r \<noteq> None)"
proof
  show "\<exists>acks. on_hello st (JObj [(''type'', JStr ''hello''), (''run_id'', JStr r)]) = Inr (Some r, acks)"
    using assms by (simp add: on_hello_def Let_def jget_JObj py_or_def py_str_def compare_digest_def ascii_def)
  have "authorize_step st r s p = Inr (False, ''run not authorized (decision=reject)'')" for s p
    using assms by (simp add: authorize_step_def py_str_def)
  moreover have "\<not> contains ''run not authorized (decision=reject)'' ''inconsistent''" by code_simp
  ultimately show "\<exists>st' rs. on_step_request ar st r (JObj [(''step'', JInt 1)]) = Inr (st', rs) \<and> dget (s_disk st') r \<noteq> None"
    using assms by (simp add: on_step_request_def Let_def jget_JObj refused_events_def append_event_def persist_def dget_dput)
qed

end
