(* ===== verification/Races.thy ===== *)
theory Races
  imports Runs
begin

text \<open>
  Sessions of one server running at the same time (\<open>src/infra/govern/govd.py\<close>, the oversight handler and the
  store). The theory \<open>Runs\<close> serves one message after the other; here a message is the sequence of its atomic
  steps, and the steps of any number of sessions interleave. Atomic is what the store does under its lock;
  the gates of a step count as one, since they read fields that never change and a set of results that only
  grows. The call to the execution daemon, the disk write that follows an append, and the release of a claim
  are steps of their own.
\<close>

section \<open>Append, in memory and on disk\<close>

definition append_memory :: "store \<Rightarrow> string \<Rightarrow> json \<Rightarrow> store \<times> json option" where
  "append_memory st rid ev =
     (case get_run st rid of
        None \<Rightarrow> (st, None)
      | Some rec \<Rightarrow> (st \<lparr>s_runs := dput rid (with_event rec ev) (s_runs st)\<rparr>, Some (with_event rec ev)))"

definition write_out :: "store \<Rightarrow> string \<Rightarrow> json \<Rightarrow> json \<Rightarrow> store" where
  "write_out st rid rec ev =
     (let st1 = persist st rid rec
      in st1 \<lparr>s_mirror := record_event (s_mirror st1) rid (case jget_or rec ''plan_sha'' (JStr []) of JStr p \<Rightarrow> p | _ \<Rightarrow> []) ev\<rparr>)"

lemma append_event_split:
  "append_event st rid ev =
     (case append_memory st rid ev of (st1, None) \<Rightarrow> (st1, None) | (st1, Some rec) \<Rightarrow> (write_out st1 rid rec ev, Some rec))"
  by (simp add: append_event_def append_memory_def write_out_def Let_def persist_def with_event_get split: option.splits)

section \<open>Sessions\<close>

text \<open>
  Where a session is: at rest; past the gates of a delegated step; holding the claim of a step; about to append
  an event; about to write the ledger; about to release a claim. The optional text is the step that will be
  released.
\<close>

datatype place =
    Idle
  | Asked string string json
  | Holding string string json
  | Adding string json "string option"
  | Writing string json json "string option"
  | Releasing string string

record race =
  rc_store :: store
  rc_at :: "nat \<Rightarrow> place"
  rc_ran :: "(string \<times> string) list"
  rc_used :: "string set"

definition go_to :: "race \<Rightarrow> nat \<Rightarrow> place \<Rightarrow> race" where
  "go_to s i p = s \<lparr>rc_at := (rc_at s)(i := p)\<rparr>"

definition afterwards :: "string \<Rightarrow> string option \<Rightarrow> place" where
  "afterwards rid rel = (case rel of None \<Rightarrow> Idle | Some step \<Rightarrow> Releasing rid step)"

definition gates_pass :: "around \<Rightarrow> store \<Rightarrow> string \<Rightarrow> json \<Rightarrow> json \<Rightarrow> bool" where
  "gates_pass ar st rid rec msg \<longleftrightarrow> get_run st rid = Some rec
     \<and> (\<exists>why. authorize_step st rid (py_str (jget msg ''step'')) (jget msg ''plan_sha'') = Inr (True, why)) \<and> reauthorize ar rec = Inr None"

definition step_of :: "json \<Rightarrow> string" where "step_of msg = py_str (jget msg ''step'')"

text \<open>
  \<open>D\<close> says which runs are delegated. A refusal may be recorded at any time. The record a delegated step works on
  is the live one, as long as it is resident.
\<close>

inductive act :: "(string \<Rightarrow> bool) \<Rightarrow> race \<Rightarrow> race \<Rightarrow> bool" for D where
  ask: "rc_at s i = Idle \<Longrightarrow> gates_pass ar (rc_store s) rid rec msg \<Longrightarrow> is_delegated ar rec = Inr True \<Longrightarrow> D rid
    \<Longrightarrow> act D s (go_to s i (Asked rid (step_of msg) msg))"
| busy: "rc_at s i = Asked rid step msg \<Longrightarrow> claim_step (rc_store s) rid step = (st, False)
    \<Longrightarrow> act D s (go_to (s \<lparr>rc_store := st\<rparr>) i Idle)"
| claim: "rc_at s i = Asked rid step msg \<Longrightarrow> claim_step (rc_store s) rid step = (st, True)
    \<Longrightarrow> act D s (go_to (s \<lparr>rc_store := st\<rparr>) i (Holding rid step msg))"
| silent: "rc_at s i = Holding rid step msg \<Longrightarrow> get_run (rc_store s) rid \<in> {Some rec, None}
    \<Longrightarrow> (\<exists>reply. delegated_work ar L rec step msg = Inr (reply, None)) \<or> (\<exists>e. delegated_work ar L rec step msg = Inl e)
    \<Longrightarrow> act D s (go_to s i (Releasing rid step))"
| answered: "rc_at s i = Holding rid step msg \<Longrightarrow> get_run (rc_store s) rid \<in> {Some rec, None}
    \<Longrightarrow> delegated_work ar L rec step msg = Inr (reply, Some (ev, vals))
    \<Longrightarrow> act D s (go_to (s \<lparr>rc_store := seal_job ar (rc_store s) rid step ev vals,
          rc_ran := (if jget ev ''type'' = JStr ''step_result'' then (rid, step) # rc_ran s else rc_ran s)\<rparr>)
          i (Adding rid (stored_event ar rec ev vals) (Some step)))"
| grant: "rc_at s i = Idle \<Longrightarrow> gates_pass ar (rc_store s) rid rec msg \<Longrightarrow> is_delegated ar rec = Inr False \<Longrightarrow> \<not> D rid
    \<Longrightarrow> act D s (go_to s i (Adding rid (granted_event ar rec (step_of msg) (jget msg ''plan_sha'')) None))"
| refuse: "rc_at s i = Idle \<Longrightarrow> refused_events ar rec (step_of msg) why msg = Inr (ev, reply) \<Longrightarrow> act D s (go_to s i (Adding rid ev None))"
| accept: "rc_at s i = Idle \<Longrightarrow> get_run (rc_store s) rid = Some rec \<Longrightarrow> is_delegated ar rec = Inr False \<Longrightarrow> \<not> D rid
    \<Longrightarrow> result_acceptable (rc_store s) rid (step_of msg) (jget msg ''plan_sha'') = Inr (True, why)
    \<Longrightarrow> act D s (go_to s i (Adding rid (result_event_of ar rec (step_of msg) msg) None))"
| gone: "rc_at s i = Adding rid ev rel \<Longrightarrow> append_memory (rc_store s) rid ev = (st, None) \<Longrightarrow> act D s (go_to s i (afterwards rid rel))"
| add: "rc_at s i = Adding rid ev rel \<Longrightarrow> append_memory (rc_store s) rid ev = (st, Some rec)
    \<Longrightarrow> act D s (go_to (s \<lparr>rc_store := st\<rparr>) i (Writing rid rec ev rel))"
| writes: "rc_at s i = Writing rid rec ev rel
    \<Longrightarrow> act D s (go_to (s \<lparr>rc_store := write_out (rc_store s) rid rec ev\<rparr>) i (afterwards rid rel))"
| release: "rc_at s i = Releasing rid step \<Longrightarrow> act D s (go_to (s \<lparr>rc_store := release_step (rc_store s) rid step\<rparr>) i Idle)"
| creates: "rid \<notin> rc_used s \<Longrightarrow> seq_length rec = Inr n \<Longrightarrow> record_events rec = []
    \<Longrightarrow> act D s (s \<lparr>rc_store := create (rc_store s) rid rec, rc_used := insert rid (rc_used s)\<rparr>)"
| remembers: "rid \<notin> rc_used s \<Longrightarrow> seq_length rec = Inr n \<Longrightarrow> record_events rec = []
    \<Longrightarrow> act D s (s \<lparr>rc_store := remember (rc_store s) rid rec, rc_used := insert rid (rc_used s)\<rparr>)"

text \<open>A server that just started: no session has done anything, no step is claimed.\<close>

inductive raced :: "(string \<Rightarrow> bool) \<Rightarrow> race \<Rightarrow> bool" for D where
  raced_start: "s_inflight st = [] \<Longrightarrow> distinct (map fst (s_runs st)) \<Longrightarrow> list_all (\<lambda>kv. run_ok (snd kv)) (s_runs st)
    \<Longrightarrow> raced D \<lparr>rc_store = st, rc_at = (\<lambda>_. Idle), rc_ran = [], rc_used = fst ` set (s_runs st)\<rparr>"
| raced_act: "raced D s \<Longrightarrow> act D s s' \<Longrightarrow> raced D s'"

section \<open>What holds while sessions interleave\<close>

text \<open>
  The view of a state that matters here: the resident runs, the claims, the places of the sessions, and the steps
  the daemon reported as run.
\<close>

fun holding :: "place \<Rightarrow> (string \<times> string) option" where
  "holding (Holding rid step msg) = Some (rid, step)"
| "holding (Adding rid ev (Some step)) = Some (rid, step)"
| "holding (Writing rid rec ev (Some step)) = Some (rid, step)"
| "holding (Releasing rid step) = Some (rid, step)"
| "holding _ = None"

fun pending :: "place \<Rightarrow> (string \<times> string) option" where
  "pending (Holding rid step msg) = Some (rid, step)"
| "pending (Adding rid ev (Some step)) = Some (rid, step)"
| "pending _ = None"

fun step_due :: "place \<Rightarrow> (string \<times> string) option" where
  "step_due (Asked rid step msg) = Some (rid, step)"
| "step_due p = pending p"

definition still_open :: "(string \<Rightarrow> json option) \<Rightarrow> string \<Rightarrow> string \<Rightarrow> bool" where
  "still_open runs rid step \<longleftrightarrow> (\<forall>rec n. runs rid = Some rec \<longrightarrow> seq_length rec = Inr n \<longrightarrow> step_open n (record_events rec) step)"

definition has_result :: "(string \<Rightarrow> json option) \<Rightarrow> string \<Rightarrow> string \<Rightarrow> bool" where
  "has_result runs rid step \<longleftrightarrow> (\<exists>rec. runs rid = Some rec \<and> JStr step \<in> recorded (record_events rec))"

definition event_fits :: "string \<Rightarrow> json \<Rightarrow> string option \<Rightarrow> bool" where
  "event_fits rid ev rel \<longleftrightarrow> jget ev ''type'' \<noteq> JStr ''granted''
     \<and> (case rel of None \<Rightarrow> jget ev ''type'' \<noteq> JStr ''step_result'' | Some step \<Rightarrow> jget ev ''step'' = JStr step)"

definition reported_by :: "(nat \<Rightarrow> place) \<Rightarrow> string \<Rightarrow> string \<Rightarrow> bool" where
  "reported_by loc rid step \<longleftrightarrow> (\<exists>i ev. loc i = Adding rid ev (Some step) \<and> jget ev ''type'' = JStr ''step_result'')"

definition place_ok :: "(string \<Rightarrow> bool) \<Rightarrow> (string \<Rightarrow> json option) \<Rightarrow> (string \<Rightarrow> string list) \<Rightarrow> (string \<times> string) list \<Rightarrow> place \<Rightarrow> bool" where
  "place_ok D runs hld reps p \<longleftrightarrow>
     (\<forall>rid step. step_due p = Some (rid, step) \<longrightarrow> D rid \<and> still_open runs rid step)
     \<and> (\<forall>rid step. pending p = Some (rid, step) \<longrightarrow> \<not> has_result runs rid step)
     \<and> (\<forall>rid step. holding p = Some (rid, step) \<longrightarrow> step \<in> set (hld rid))
     \<and> (\<forall>rid step msg. p = Holding rid step msg \<longrightarrow> (rid, step) \<notin> set reps)
     \<and> (\<forall>rid ev rel. p = Adding rid ev rel \<longrightarrow> D rid \<longrightarrow> event_fits rid ev rel)"

definition accounted :: "(string \<Rightarrow> bool) \<Rightarrow> (string \<Rightarrow> json option) \<Rightarrow> (nat \<Rightarrow> place) \<Rightarrow> string \<times> string \<Rightarrow> bool" where
  "accounted D runs loc x \<longleftrightarrow>
     (case x of (rid, step) \<Rightarrow> D rid \<and> (has_result runs rid step \<or> runs rid = None \<or> reported_by loc rid step))"

definition raced_ok :: "(string \<Rightarrow> bool) \<Rightarrow> (string \<Rightarrow> json option) \<Rightarrow> (string \<Rightarrow> string list) \<Rightarrow> (nat \<Rightarrow> place) \<Rightarrow> (string \<times> string) list \<Rightarrow> bool" where
  "raced_ok D runs hld loc reps \<longleftrightarrow>
     (\<forall>i. place_ok D runs hld reps (loc i)) \<and> (\<forall>i j. holding (loc i) \<noteq> None \<longrightarrow> holding (loc i) = holding (loc j) \<longrightarrow> i = j)
     \<and> distinct reps \<and> (\<forall>x \<in> set reps. accounted D runs loc x) \<and> (\<forall>rid rec. D rid \<longrightarrow> runs rid = Some rec \<longrightarrow> run_ok rec)"

text \<open>One session moves, and the rest of the state may change with it.\<close>

lemma raced_step:
  assumes "raced_ok D runs hld loc reps"
    and "place_ok D runs' hld' reps' p"
    and "\<And>j. j \<noteq> i \<Longrightarrow> place_ok D runs hld reps (loc j) \<Longrightarrow> holding (loc j) = None \<or> holding (loc j) \<noteq> holding (loc i) \<Longrightarrow> place_ok D runs' hld' reps' (loc j)"
    and "holding p = None \<or> holding p = holding (loc i) \<or> (\<forall>j. holding (loc j) \<noteq> holding p)"
    and "distinct reps'" and "\<And>x. x \<in> set reps' \<Longrightarrow> accounted D runs' (loc(i := p)) x"
    and "\<And>rid rec. D rid \<Longrightarrow> runs' rid = Some rec \<Longrightarrow> run_ok rec"
  shows "raced_ok D runs' hld' (loc(i := p)) reps'"
proof -
  have u: "a = b" if "holding (loc a) \<noteq> None" "holding (loc a) = holding (loc b)" for a b
    using assms(1) that unfolding raced_ok_def by blast
  have "place_ok D runs' hld' reps' ((loc(i := p)) j)" for j
  proof (cases "j = i")
    case False
    have "holding (loc j) = None \<or> holding (loc j) \<noteq> holding (loc i)" using u [of j i] False by fastforce
    then show ?thesis using assms(1) assms(3) [OF False] False by (simp add: raced_ok_def)
  qed (simp add: assms(2))
  moreover have "j = k" if "holding ((loc(i := p)) j) \<noteq> None" "holding ((loc(i := p)) j) = holding ((loc(i := p)) k)" for j k
  proof -
    have w: "a = i" if "holding p \<noteq> None" "holding (loc a) = holding p" for a
      using assms(4) u [of a i] that by metis
    consider "j = i" "k = i" | "j = i" "k \<noteq> i" | "j \<noteq> i" "k = i" | "j \<noteq> i" "k \<noteq> i" by blast
    then show ?thesis
    proof cases
      case 2
      then show ?thesis using that w [of k] by (metis fun_upd_apply)
    next
      case 3
      then show ?thesis using that w [of j] by (metis fun_upd_apply)
    next
      case 4
      then show ?thesis using that u [of j k] by (metis fun_upd_apply)
    qed simp
  qed
  ultimately show ?thesis unfolding raced_ok_def using assms(5-7) by (intro conjI allI impI ballI)
qed

lemma accounted_move:
  assumes "accounted D runs loc x" and "\<And>rid ev step. loc i \<noteq> Adding rid ev (Some step)"
  shows "accounted D runs (loc(i := p)) x"
  using assms by (auto simp: accounted_def reported_by_def) metis

text \<open>A session that moves alone, with no event to append before.\<close>

lemma raced_move:
  assumes "raced_ok D runs hld loc reps" and "place_ok D runs hld reps p"
    and "\<And>rid ev step. loc i \<noteq> Adding rid ev (Some step)" and "holding p = None \<or> holding p = holding (loc i)"
  shows "raced_ok D runs hld (loc(i := p)) reps"
  using assms(1)
proof (rule raced_step)
  show "accounted D runs (loc(i := p)) x" if "x \<in> set reps" for x
    using that assms(1) by (intro accounted_move assms(3)) (simp add: raced_ok_def)
  show "distinct reps" "\<And>rid rec. D rid \<Longrightarrow> runs rid = Some rec \<Longrightarrow> run_ok rec" using assms(1) unfolding raced_ok_def by blast+
qed (use assms(2,4) in blast)+

definition in_use :: "race \<Rightarrow> bool" where
  "in_use s \<longleftrightarrow> distinct (map fst (s_runs (rc_store s)))
     \<and> (\<forall>rid. get_run (rc_store s) rid \<noteq> None \<longrightarrow> rid \<in> rc_used s)
     \<and> (\<forall>i rid step. step_due (rc_at s i) = Some (rid, step) \<longrightarrow> rid \<in> rc_used s)
     \<and> (\<forall>rid step. (rid, step) \<in> set (rc_ran s) \<longrightarrow> rid \<in> rc_used s)"

definition race_ok :: "(string \<Rightarrow> bool) \<Rightarrow> race \<Rightarrow> bool" where
  "race_ok D s \<longleftrightarrow> raced_ok D (get_run (rc_store s)) (held (rc_store s)) (rc_at s) (rc_ran s) \<and> in_use s"

lemma place_ok_simps:
  "place_ok D runs hld reps Idle"
  "place_ok D runs hld reps (Asked rid step msg) \<longleftrightarrow> D rid \<and> still_open runs rid step"
  "place_ok D runs hld reps (Holding rid step msg) \<longleftrightarrow>
     D rid \<and> still_open runs rid step \<and> \<not> has_result runs rid step \<and> step \<in> set (hld rid) \<and> (rid, step) \<notin> set reps"
  "place_ok D runs hld reps (Adding rid ev (Some step)) \<longleftrightarrow>
     D rid \<and> still_open runs rid step \<and> \<not> has_result runs rid step \<and> step \<in> set (hld rid) \<and> event_fits rid ev (Some step)"
  "place_ok D runs hld reps (Adding rid ev None) \<longleftrightarrow> (D rid \<longrightarrow> event_fits rid ev None)"
  "place_ok D runs hld reps (Writing rid rec ev rel) \<longleftrightarrow> (case rel of None \<Rightarrow> True | Some step \<Rightarrow> step \<in> set (hld rid))"
  "place_ok D runs hld reps (Releasing rid step) \<longleftrightarrow> step \<in> set (hld rid)"
  by (auto simp: place_ok_def split: option.splits)

lemma place_ok_after: "place_ok D runs hld reps (afterwards rid rel) \<longleftrightarrow> (case rel of None \<Rightarrow> True | Some step \<Rightarrow> step \<in> set (hld rid))"
  by (simp add: afterwards_def place_ok_simps split: option.splits)

text \<open>What the operations of the store do to the view.\<close>

lemma claim_view:
  assumes "claim_step st rid step = (st', True)"
  shows "get_run st' = get_run st" "held st' = (held st)(rid := held st rid @ [step])" "step \<notin> set (held st rid)"
    "\<not> has_result (get_run st) rid step" "get_run st rid \<noteq> None"
  using assms
  by (auto simp: claim_step_def get_run_def held_def dget_dput fun_eq_iff has_result_def steps_seen_def run_events_def recorded_def dget_default_def
      split: if_split_asm option.splits)

lemma busy_view: "claim_step st rid step = (st', False) \<Longrightarrow> get_run st' = get_run st \<and> held st' = held st"
  by (auto simp: claim_step_def get_run_def held_def dget_dput fun_eq_iff dget_default_def split: if_split_asm option.splits)

lemma release_view: "get_run (release_step st rid step) = get_run st" "held (release_step st rid step) = (held st)(rid := filter (\<lambda>s. s \<noteq> step) (held st rid))"
  by (auto simp: release_step_def get_run_def held_def fun_eq_iff Let_def dget_default_def dget_dput delete_conv split: option.splits)

lemma quiet_views:
  "get_run (seal_job ar st rid step ev vals) = get_run st" "held (seal_job ar st rid step ev vals) = held st"
  "get_run (write_out st rid rec ev) = get_run st" "held (write_out st rid rec ev) = held st"
  by (simp_all add: seal_job_def write_out_def persist_def get_run_def held_def fun_eq_iff Let_def split: option.splits)

lemma append_view:
  assumes "append_memory st rid ev = (st', Some rec)"
  obtains rec0 where "get_run st rid = Some rec0" "rec = with_event rec0 ev" "get_run st' = (get_run st)(rid := Some rec)" "held st' = held st"
  using assms by (auto simp: append_memory_def get_run_def held_def fun_eq_iff dget_dput split: option.split_asm)

lemma newest_suffix: "\<exists>xs. d = xs @ newest n d"
  by (metis newest_def append_take_drop_id)

lemma remember_view:
  assumes "distinct (map fst (s_runs st))"
  shows "r \<noteq> rid \<Longrightarrow> get_run (remember st rid rec) r \<in> {None, get_run st r}" "get_run (remember st rid rec) rid \<in> {None, Some rec}"
    "held (remember st rid rec) = held st" "distinct (map fst (s_runs (remember st rid rec)))"
proof -
  let ?d = "dput rid rec (s_runs st)"
  obtain xs where x: "?d = xs @ newest (s_max st) ?d" using newest_suffix by blast
  have d: "distinct (map fst ?d)" using assms by (simp add: distinct_update)
  then show "distinct (map fst (s_runs (remember st rid rec)))" unfolding remember_def using x by (simp, metis distinct_append map_append)
  have k: "dget (newest (s_max st) ?d) k \<in> {None, dget ?d k}" for k
    using d x by (cases "dget (newest (s_max st) ?d) k") (simp, metis Un_iff map_of_SomeD map_of_eq_Some_iff set_append insertI1 insertI2)
  show "r \<noteq> rid \<Longrightarrow> get_run (remember st rid rec) r \<in> {None, get_run st r}" "get_run (remember st rid rec) rid \<in> {None, Some rec}"
    using k [of r] k [of rid] by (simp_all add: remember_def get_run_def dget_dput)
  show "held (remember st rid rec) = held st" by (simp add: held_def remember_def fun_eq_iff)
qed

lemma remember_held: "held (remember st rid rec) = held st"
  by (simp add: held_def remember_def fun_eq_iff)

lemma create_view: "get_run (create st rid rec) = get_run (remember st rid rec)" "held (create st rid rec) = held (remember st rid rec)"
    "s_runs (create st rid rec) = s_runs (remember st rid rec)"
  by (simp_all add: create_def persist_def Let_def get_run_def held_def fun_eq_iff)

lemma raced_fresh:
  assumes "raced_ok D runs hld loc reps" and "run_ok rec"
    and "\<And>r. r \<noteq> rid \<Longrightarrow> runs' r \<in> {None, runs r}" and "runs' rid \<in> {None, Some rec}"
    and "\<And>i step. step_due (loc i) \<noteq> Some (rid, step)" and "\<And>step. (rid, step) \<notin> set reps"
  shows "raced_ok D runs' hld loc reps"
proof -
  have o: "still_open runs r s \<Longrightarrow> still_open runs' r s" and h: "has_result runs' r s \<Longrightarrow> has_result runs r s" if "r \<noteq> rid" for r s
    using assms(3) [OF that] by (auto simp: still_open_def has_result_def)
  have n: "r \<noteq> rid" if "pending p = Some (r, s)" "\<And>step. step_due p \<noteq> Some (rid, step)" for p r s
    using that by (cases p rule: pending.cases) auto
  have placed: "place_ok D runs' hld reps (loc i)" for i
  proof -
    have "place_ok D runs hld reps (loc i)" using assms(1) unfolding raced_ok_def by blast
    moreover have "r \<noteq> rid" if "step_due (loc i) = Some (r, s)" for r s using assms(5) [of i] that by auto
    ultimately show ?thesis using o h n [OF _ assms(5) [of i]] unfolding place_ok_def by blast
  qed
  have acc: "accounted D runs' loc x" if "x \<in> set reps" for x
  proof -
    obtain r t where x: "x = (r, t)" by (cases x)
    have "accounted D runs loc (r, t)" using assms(1) that x unfolding raced_ok_def by blast
    moreover have "runs' r = None \<or> runs' r = runs r" using assms(3) [of r] assms(6) that x by auto
    ultimately show ?thesis by (auto simp: accounted_def has_result_def x)
  qed
  have ok: "run_ok r" if "D k" "runs' k = Some r" for k r
  proof (cases "k = rid")
    case False
    then have "runs k = Some r" using assms(3) [OF False] that(2) by auto
    then show ?thesis using assms(1) that(1) unfolding raced_ok_def by blast
  qed (use that assms(2,4) in auto)
  show ?thesis unfolding raced_ok_def
  proof (intro conjI allI impI ballI)
    show "i = j" if "holding (loc i) \<noteq> None" "holding (loc i) = holding (loc j)" for i j
      using assms(1) that unfolding raced_ok_def by blast
    show "distinct reps" using assms(1) unfolding raced_ok_def by blast
  qed (fact placed acc ok)+
qed

lemma recorded_snoc: "recorded (evs @ [ev]) = recorded evs \<union> (if jget ev ''type'' = JStr ''step_result'' then {jget ev ''step''} else {})"
  by (auto simp: recorded_def steps_of_def of_type_def)

lemma raced_add:
  assumes "raced_ok D runs hld loc reps" and "loc i = Adding rid ev rel" and "runs rid = Some rec0"
  shows "raced_ok D (runs(rid := Some (with_event rec0 ev))) hld (loc(i := Writing rid rec ev rel)) reps"
  using assms(1)
proof (rule raced_step)
  let ?runs = "runs(rid := Some (with_event rec0 ev))"
  have p: "place_ok D runs hld reps (Adding rid ev rel)" using assms(1,2) unfolding raced_ok_def by metis
  have grows: "has_result runs r s \<Longrightarrow> has_result ?runs r s" for r s
    using assms(3) by (auto simp: has_result_def with_event_get recorded_snoc)
  have opens: "still_open runs r s \<Longrightarrow> still_open ?runs r s" for r s
    using assms(3) by (auto simp: still_open_def with_event_get seq_length_def step_open_mono)
  show "place_ok D ?runs hld reps (Writing rid rec ev rel)" using p by (cases rel) (simp_all add: place_ok_simps)
  show "place_ok D ?runs hld reps (loc j)"
    if "place_ok D runs hld reps (loc j)" "holding (loc j) = None \<or> holding (loc j) \<noteq> holding (loc i)" for j
  proof -
    have "\<not> has_result ?runs r s" if "pending (loc j) = Some (r, s)" for r s
    proof -
      have h: "D r" "\<not> has_result runs r s" "holding (loc j) = Some (r, s)"
        using that \<open>place_ok D runs hld reps (loc j)\<close> by (cases "loc j" rule: pending.cases; auto simp: place_ok_def)+
      show ?thesis
      proof (cases "r = rid")
        case True
        then have "event_fits rid ev rel" using p h(1) by (simp add: place_ok_def)
        moreover have "rel \<noteq> Some s" using that \<open>_ \<or> _\<close> h(3) assms(2) True by auto
        ultimately have "jget ev ''type'' = JStr ''step_result'' \<Longrightarrow> jget ev ''step'' \<noteq> JStr s"
          by (auto simp: event_fits_def split: option.splits)
        then show ?thesis using h(2) assms(3) True by (auto simp: has_result_def with_event_get recorded_snoc)
      qed (use h in \<open>simp add: has_result_def\<close>)
    qed
    then show ?thesis using that(1) opens by (auto simp: place_ok_def)
  qed
  show "holding (Writing rid rec ev rel) = None \<or> holding (Writing rid rec ev rel) = holding (loc i) \<or> (\<forall>j. holding (loc j) \<noteq> holding (Writing rid rec ev rel))"
    using assms(2) by (cases rel) simp_all
  show "distinct reps" using assms(1) by (simp add: raced_ok_def)
  show "accounted D ?runs (loc(i := Writing rid rec ev rel)) x" if "x \<in> set reps" for x
  proof -
    obtain r s where x: "x = (r, s)" by (cases x)
    have a: "accounted D runs loc (r, s)" using assms(1) that x by (simp add: raced_ok_def)
    then consider "has_result runs r s" | "runs r = None" | j e where "loc j = Adding r e (Some s)" "jget e ''type'' = JStr ''step_result''"
      by (auto simp: accounted_def reported_by_def)
    then have "has_result ?runs r s \<or> ?runs r = None \<or> reported_by (loc(i := Writing rid rec ev rel)) r s"
    proof cases
      case 3
      show ?thesis
      proof (cases "j = i")
        case True
        then have "event_fits rid ev rel" "r = rid" "rel = Some s" "ev = e" using 3 p assms(2) a by (auto simp: place_ok_def accounted_def)
        then show ?thesis using 3 by (auto simp: has_result_def with_event_get recorded_snoc event_fits_def)
      qed (use 3 in \<open>auto simp: reported_by_def\<close>)
    qed (use grows assms(3) in \<open>auto simp del: fun_upd_apply simp: fun_upd_def\<close>)
    then show ?thesis using a x by (simp add: accounted_def)
  qed
  show "run_ok r" if "D k" "?runs k = Some r" for k r
  proof (cases "k = rid")
    case True
    have fits: "event_fits rid ev rel" using p that(1) True by (simp add: place_ok_def)
    have "run_ok rec0" using assms(1,3) that(1) True unfolding raced_ok_def by blast
    then obtain n where n: "seq_length rec0 = Inr n" "ordered n (record_events rec0)" unfolding run_ok_def by blast
    have "admissible n (record_events rec0) ev"
    proof (cases rel)
      case (Some s)
      then have "still_open runs rid s" "\<not> has_result runs rid s" using p by (simp_all add: place_ok_simps)
      then show ?thesis using fits Some assms(3) n(1)
        by (auto simp: admissible_def event_fits_def still_open_def has_result_def)
    qed (use fits in \<open>simp add: admissible_def event_fits_def\<close>)
    then have "run_ok (with_event rec0 ev)" by (rule with_event_ok [OF n])
    then show ?thesis using that(2) True by auto
  qed (use that assms(1) in \<open>auto simp: raced_ok_def\<close>)
qed


lemmas race_views = go_to_def quiet_views release_view create_view

lemma due_of_gates:
  assumes "gates_pass ar st rid rec msg"
  shows "still_open (get_run st) rid (step_of msg)"
  using assms authorize_open by (auto simp: gates_pass_def still_open_def step_of_def)

lemma fits_of_work:
  assumes "delegated_work ar L rec step msg = Inr (reply, Some (ev, vals))"
  shows "event_fits rid (stored_event ar rec ev vals) (Some step)"
  using delegated_work_event [OF assms] by (simp add: event_fits_def stored_event_get)

lemma raced_claim:
  assumes "raced_ok D runs hld loc reps" and "loc i = Asked rid step msg" and "step \<notin> set (hld rid)" and "\<not> has_result runs rid step" and "runs rid \<noteq> None"
  shows "raced_ok D runs (hld(rid := hld rid @ [step])) (loc(i := Holding rid step msg)) reps"
  using assms(1)
proof (rule raced_step)
  have all: "place_ok D runs hld reps (loc j)" for j using assms(1) unfolding raced_ok_def by blast
  have none: "holding (loc j) \<noteq> Some (rid, step)" for j using all [of j] assms(3) by (auto simp: place_ok_def)
  show "holding (Holding rid step msg) = None \<or> holding (Holding rid step msg) = holding (loc i) \<or> (\<forall>j. holding (loc j) \<noteq> holding (Holding rid step msg))"
    using none by simp
  have "(rid, step) \<notin> set reps"
  proof
    assume "(rid, step) \<in> set reps"
    then have "accounted D runs loc (rid, step)" using assms(1) unfolding raced_ok_def by blast
    then obtain j ev where "loc j = Adding rid ev (Some step)" using assms(4,5) by (auto simp: accounted_def reported_by_def)
    then show False using none [of j] by simp
  qed
  then show "place_ok D runs (hld(rid := hld rid @ [step])) reps (Holding rid step msg)"
    using all [of i] assms by (simp add: place_ok_simps)
  show "place_ok D runs (hld(rid := hld rid @ [step])) reps (loc j)" if "place_ok D runs hld reps (loc j)" for j
    using that by (auto simp: place_ok_def)
  show "accounted D runs (loc(i := Holding rid step msg)) x" if "x \<in> set reps" for x
    using that assms(1,2) by (intro accounted_move) (auto simp: raced_ok_def)
qed (use assms(1) in \<open>auto simp: raced_ok_def\<close>)

lemma raced_release:
  assumes "raced_ok D runs hld loc reps" and "loc i = Releasing rid step"
  shows "raced_ok D runs (hld(rid := filter (\<lambda>s. s \<noteq> step) (hld rid))) (loc(i := Idle)) reps"
  using assms(1)
proof (rule raced_step)
  show "place_ok D runs (hld(rid := filter (\<lambda>s. s \<noteq> step) (hld rid))) reps (loc j)"
    if "place_ok D runs hld reps (loc j)" "holding (loc j) = None \<or> holding (loc j) \<noteq> holding (loc i)" for j
    using that assms(2) by (auto simp: place_ok_def)
  show "accounted D runs (loc(i := Idle)) x" if "x \<in> set reps" for x
    using that assms by (intro accounted_move) (auto simp: raced_ok_def)
qed (use assms(1) in \<open>auto simp: raced_ok_def place_ok_simps\<close>)

lemma raced_answer:
  assumes "raced_ok D runs hld loc reps" and "loc i = Holding rid step msg" and "event_fits rid ev (Some step)"
  shows "raced_ok D runs hld (loc(i := Adding rid ev (Some step))) (if jget ev ''type'' = JStr ''step_result'' then (rid, step) # reps else reps)"
  using assms(1)
proof (rule raced_step)
  let ?reps = "if jget ev ''type'' = JStr ''step_result'' then (rid, step) # reps else reps"
  have all: "place_ok D runs hld reps (loc j)" for j using assms(1) unfolding raced_ok_def by blast
  have mine: "D rid" "still_open runs rid step" "\<not> has_result runs rid step" "step \<in> set (hld rid)" "(rid, step) \<notin> set reps"
    using all [of i] assms(2) by (simp_all add: place_ok_simps)
  show "place_ok D runs hld ?reps (Adding rid ev (Some step))" using mine assms(3) by (simp add: place_ok_simps)
  show "place_ok D runs hld ?reps (loc j)" if "holding (loc j) = None \<or> holding (loc j) \<noteq> holding (loc i)" for j
    using all [of j] that assms(2) by (auto simp: place_ok_def)
  show "distinct ?reps" using assms(1) mine(5) by (simp add: raced_ok_def)
  show "accounted D runs (loc(i := Adding rid ev (Some step))) x" if "x \<in> set ?reps" for x
  proof (cases "x \<in> set reps")
    case True
    then show ?thesis using assms(1,2) by (intro accounted_move) (auto simp: raced_ok_def)
  next
    case False
    then have "x = (rid, step)" "jget ev ''type'' = JStr ''step_result''" using that by (auto split: if_split_asm)
    then show ?thesis using mine(1) by (auto simp: accounted_def reported_by_def intro: exI [of _ i])
  qed
qed (use assms(1,2) in \<open>auto simp: raced_ok_def\<close>)

lemma keys_kept: "append_memory st rid ev = (st', x) \<Longrightarrow> distinct (map fst (s_runs st)) \<Longrightarrow> distinct (map fst (s_runs st'))"
  "s_runs (fst (claim_step st rid step)) = s_runs st" "s_runs (release_step st rid step) = s_runs st"
  "s_runs (seal_job ar st rid step ev vals) = s_runs st" "s_runs (write_out st rid rec ev) = s_runs st"
  by (auto simp: append_memory_def claim_keeps release_keeps seal_keeps write_out_def persist_def Let_def distinct_update split: option.split_asm)

text \<open>What the rest of the invariant needs of a move.\<close>

lemma in_use_move:
  assumes "in_use s" and "distinct (map fst (s_runs st))" and "\<And>rid. get_run st rid \<noteq> None \<Longrightarrow> get_run (rc_store s) rid \<noteq> None"
    and "\<And>rid step. step_due p = Some (rid, step) \<Longrightarrow> step_due (rc_at s i) = Some (rid, step) \<or> get_run (rc_store s) rid \<noteq> None"
    and "\<And>rid step. (rid, step) \<in> set reps \<Longrightarrow> (rid, step) \<in> set (rc_ran s) \<or> step_due (rc_at s i) = Some (rid, step)"
  shows "in_use (go_to (s \<lparr>rc_store := st, rc_ran := reps\<rparr>) i p)"
  using assms unfolding in_use_def go_to_def by (auto split: if_splits) metis+

lemma in_use_same:
  assumes "in_use s" and "s_runs st = s_runs (rc_store s)" and "\<And>x. step_due p = Some x \<Longrightarrow> step_due (rc_at s i) = Some x"
  shows "in_use (go_to (s \<lparr>rc_store := st\<rparr>) i p)"
  using in_use_move [of s st p i "rc_ran s"] assms by (auto simp: in_use_def get_run_def)

lemmas in_use_stay = in_use_same [where st = "rc_store s" and s = s for s, simplified]

lemma in_use_fresh:
  assumes "in_use s" and "get_run st = get_run (remember (rc_store s) rid rec)" and "s_runs st = s_runs (remember (rc_store s) rid rec)"
  shows "in_use (s \<lparr>rc_store := st, rc_used := insert rid (rc_used s)\<rparr>)"
proof -
  have d: "distinct (map fst (s_runs (rc_store s)))" using assms(1) by (simp add: in_use_def)
  have "k = rid \<or> k \<in> rc_used s" if "get_run st k \<noteq> None" for k
  proof (cases "k = rid")
    case False
    then have "get_run (rc_store s) k \<noteq> None" using that remember_view(1) [OF d False, of rec] assms(2) by auto
    then show ?thesis using assms(1) by (simp add: in_use_def)
  qed simp
  then show ?thesis using assms(1,3) remember_view(4) [OF d, of rid rec] by (auto simp: in_use_def)
qed

lemma act_in_use:
  assumes "act D s s'" and "in_use s"
  shows "in_use s'"
  using assms(1)
proof cases
  case (creates rid rec n)
  show ?thesis unfolding creates by (rule in_use_fresh [OF assms(2)]) (simp_all add: create_view)
next
  case (remembers rid rec n)
  show ?thesis unfolding remembers by (rule in_use_fresh [OF assms(2)]) simp_all
next
  case (ask i ar rid rec msg)
  then show ?thesis using in_use_move [OF assms(2), of "rc_store s" "Asked rid (step_of msg) msg" i "rc_ran s"] assms(2)
    by (simp add: in_use_def gates_pass_def)
next
  case (answered i rid step msg rec ar L reply ev vals)
  show ?thesis unfolding answered using answered(2) assms(2)
    by (intro in_use_move) (auto simp: quiet_views keys_kept in_use_def split: if_split_asm)
next
  case (add i rid ev rel st rec)
  obtain rec0 where v: "get_run (rc_store s) rid = Some rec0" "get_run st = (get_run (rc_store s))(rid := Some rec)" by (rule append_view [OF add(3)])
  have "distinct (map fst (s_runs st))" using keys_kept(1) [OF add(3)] assms(2) by (simp add: in_use_def)
  then show ?thesis using add(1) v in_use_move [OF assms(2), of st "Writing rid rec ev rel" i "rc_ran s"] by (simp split: if_split_asm)
next
  case (claim i rid step msg st)
  show ?thesis unfolding claim using claim assms(2) keys_kept(2) [of "rc_store s" rid step] by (intro in_use_same) auto
next
  case (busy i rid step msg st)
  show ?thesis unfolding busy using busy assms(2) keys_kept(2) [of "rc_store s" rid step] by (intro in_use_same) auto
next
  case (writes i rid rec ev rel)
  show ?thesis unfolding writes using assms(2) by (intro in_use_same) (auto simp: keys_kept afterwards_def split: option.splits)
next
  case (release i rid step)
  show ?thesis unfolding release using assms(2) by (intro in_use_same) (auto simp: keys_kept)
next
  case (gone i rid ev rel st)
  show ?thesis unfolding gone using assms(2) by (intro in_use_stay) (auto simp: afterwards_def split: option.splits)
qed (use assms(2) in \<open>auto intro!: in_use_stay\<close>)


lemma idle_adding:
  assumes "raced_ok D runs hld loc reps" and "loc i = Idle" and "D rid \<Longrightarrow> event_fits rid ev None"
  shows "raced_ok D runs hld (loc(i := Adding rid ev None)) reps"
  using assms by (intro raced_move) (auto simp: place_ok_simps)

lemma raced_gone:
  assumes "raced_ok D runs hld loc reps" and "loc i = Adding rid ev rel" and "runs rid = None"
  shows "raced_ok D runs hld (loc(i := afterwards rid rel)) reps"
  using assms(1)
proof (rule raced_step)
  have "place_ok D runs hld reps (Adding rid ev rel)" using assms(1,2) unfolding raced_ok_def by metis
  then show "place_ok D runs hld reps (afterwards rid rel)"
    by (cases rel) (simp_all add: place_ok_after place_ok_simps)
  show "holding (afterwards rid rel) = None \<or> holding (afterwards rid rel) = holding (loc i) \<or> (\<forall>j. holding (loc j) \<noteq> holding (afterwards rid rel))"
    using assms(2) by (cases rel) (simp_all add: afterwards_def)
  show "accounted D runs (loc(i := afterwards rid rel)) x" if "x \<in> set reps" for x
  proof -
    have "accounted D runs loc x" using assms(1) that unfolding raced_ok_def by blast
    moreover have "reported_by (loc(i := afterwards rid rel)) r s" if "reported_by loc r s" "r \<noteq> rid" for r s
      using that assms(2) by (auto simp: reported_by_def) (metis place.inject(3))
    ultimately show ?thesis using assms(3) by (auto simp: accounted_def)
  qed
qed (use assms(1) in \<open>auto simp: raced_ok_def\<close>)

lemma act_ok:
  assumes "act D s s'" and "race_ok D s"
  shows "race_ok D s'"
proof -
  let ?R = "get_run (rc_store s)" and ?H = "held (rc_store s)"
  have r: "raced_ok D ?R ?H (rc_at s) (rc_ran s)" and u: "in_use s" using assms(2) by (simp_all add: race_ok_def)
  have at: "place_ok D ?R ?H (rc_ran s) (rc_at s i)" for i using r unfolding raced_ok_def by blast
  have fresh: "raced_ok D (get_run (remember (rc_store s) rid rec)) ?H (rc_at s) (rc_ran s)"
    if "rid \<notin> rc_used s" "seq_length rec = Inr n" "record_events rec = []" for rid rec n
  proof -
    have d: "distinct (map fst (s_runs (rc_store s)))" using u by (simp add: in_use_def)
    have "step_due (rc_at s i) \<noteq> Some (rid, step)" "(rid, step) \<notin> set (rc_ran s)" for i step
      using u that(1) unfolding in_use_def by blast+
    then show ?thesis using remember_view(1,2) [OF d] by (intro raced_fresh [OF r fresh_ok [OF that(2,3)]])
  qed
  from assms(1) have "raced_ok D (get_run (rc_store s')) (held (rc_store s')) (rc_at s') (rc_ran s')"
  proof cases
    case (ask i ar rid rec msg)
    then show ?thesis using r due_of_gates by (auto simp: go_to_def place_ok_simps intro!: raced_move)
  next
    case (busy i rid step msg st)
    then show ?thesis using r busy_view [OF busy(3)] by (auto simp: go_to_def place_ok_simps intro!: raced_move)
  next
    case (claim i rid step msg st)
    then show ?thesis using raced_claim [OF r claim(2)] claim_view [OF claim(3)] by (simp add: go_to_def)
  next
    case (silent i rid step msg rec ar L)
    then show ?thesis using r at [of i] by (auto simp: go_to_def place_ok_simps intro!: raced_move)
  next
    case (answered i rid step msg rec ar L reply ev vals)
    then show ?thesis using raced_answer [OF r answered(2) fits_of_work [OF answered(4)]]
      by (simp add: go_to_def quiet_views stored_event_get)
  next
    case (add i rid ev rel st rec)
    obtain rec0 where "?R rid = Some rec0" "rec = with_event rec0 ev" "get_run st = ?R(rid := Some rec)" "held st = ?H"
      by (rule append_view [OF add(3)])
    then show ?thesis using raced_add [OF r add(2)] add(1) by (simp add: go_to_def)
  next
    case (gone i rid ev rel st)
    then have "?R rid = None" by (auto simp: append_memory_def split: option.split_asm)
    then show ?thesis using raced_gone [OF r gone(2)] gone(1) by (simp add: go_to_def)
  next
    case (writes i rid rec ev rel)
    then show ?thesis using r at [of i]
      by (cases rel) (auto simp: go_to_def quiet_views place_ok_simps afterwards_def intro!: raced_move)
  next
    case (release i rid step)
    then show ?thesis using raced_release [OF r release(2)] by (simp add: go_to_def release_view)
  next
    case (refuse i ar rec msg why ev reply rid)
    then show ?thesis using r refused_events_type [OF refuse(3)] by (auto simp: go_to_def event_fits_def intro!: idle_adding)
  qed (use r fresh in \<open>auto simp: go_to_def create_view remember_held intro!: idle_adding\<close>)
  then show ?thesis using act_in_use [OF assms(1) u] by (simp add: race_ok_def)
qed

lemma raced_race_ok: "raced D s \<Longrightarrow> race_ok D s"
proof (induction rule: raced.induct)
  case (raced_start st)
  then show ?case
    by (auto simp: race_ok_def raced_ok_def place_ok_simps in_use_def get_run_def list_all_iff dest!: map_of_SomeD)
      (metis image_eqI fst_conv)
qed (rule act_ok)

text \<open>
  C3: a delegated step runs once, however sessions race. Whatever any number of sessions do at the same time,
  with every interleaving of their atomic steps and with runs evicted from memory at any time: two sessions
  never hold the claim of one step together; the daemon reports at most one run of a step as executed; the
  ledger in memory holds at most one result per step; and each of these results names a step of the plan and
  stands behind results with status ok of all the steps before it.
\<close>

theorem delegated_step_runs_once:
  assumes "raced D s" and "D rid"
  shows "(holding (rc_at s i) = Some (rid, step) \<longrightarrow> holding (rc_at s j) = Some (rid, step) \<longrightarrow> i = j)
    \<and> distinct (rc_ran s)
    \<and> (\<forall>rec. get_run (rc_store s) rid = Some rec \<longrightarrow>
         (\<exists>n. seq_length rec = Inr n \<and> ordered n (record_events rec))
         \<and> distinct (map (\<lambda>x. jget x ''step'') (of_type ''step_result'' (record_events rec))))"
proof -
  have r: "raced_ok D (get_run (rc_store s)) (held (rc_store s)) (rc_at s) (rc_ran s)"
    using raced_race_ok [OF assms(1)] by (simp add: race_ok_def)
  then have "run_ok rec" if "get_run (rc_store s) rid = Some rec" for rec
    using assms(2) that unfolding raced_ok_def by blast
  moreover have "holding (rc_at s i) = Some (rid, step) \<longrightarrow> holding (rc_at s j) = Some (rid, step) \<longrightarrow> i = j"
    using r unfolding raced_ok_def by (metis option.distinct(1))
  moreover have "distinct (rc_ran s)" using r unfolding raced_ok_def by blast
  ultimately show ?thesis
    by (auto simp: run_ok_def dest: ordered_results_distinct)
qed


section \<open>One message is a run of its steps\<close>

text \<open>
  Undisturbed, the steps of a session do exactly what the theory \<open>Runs\<close> says of the whole message: the two
  models of the server agree.
\<close>

lemma go_to_go_to [simp]: "go_to (go_to s i p) i q = go_to s i q" "rc_at (go_to s i p) i = p" "rc_store (go_to s i p) = rc_store s"
    "(go_to s i p) \<lparr>rc_store := st\<rparr> = go_to (s \<lparr>rc_store := st\<rparr>) i p"
  by (simp_all add: go_to_def)

lemma race_swap: "s \<lparr>rc_ran := reps, rc_store := st\<rparr> = s \<lparr>rc_store := st, rc_ran := reps\<rparr>"
  by simp

lemma append_acts:
  assumes "rc_at s i = Adding rid ev rel"
  shows "(act D)\<^sup>*\<^sup>* s (go_to (s \<lparr>rc_store := fst (append_event (rc_store s) rid ev)\<rparr>) i (afterwards rid rel))"
proof (cases "append_memory (rc_store s) rid ev")
  case (Pair st x)
  show ?thesis
  proof (cases x)
    case None
    then have "fst (append_event (rc_store s) rid ev) = rc_store s" using Pair by (auto simp: append_event_split append_memory_def split: option.split_asm)
    then show ?thesis using act.gone [OF assms, of st D] Pair None by auto
  next
    case (Some rec)
    then have "act D s (go_to (s \<lparr>rc_store := st\<rparr>) i (Writing rid rec ev rel))" using act.add [OF assms] Pair by blast
    moreover have "act D (go_to (s \<lparr>rc_store := st\<rparr>) i (Writing rid rec ev rel))
        (go_to (s \<lparr>rc_store := fst (append_event (rc_store s) rid ev)\<rparr>) i (afterwards rid rel))"
      using act.writes [of "go_to (s \<lparr>rc_store := st\<rparr>) i (Writing rid rec ev rel)" i rid rec ev rel D] Pair Some by (simp add: append_event_split)
    ultimately show ?thesis by (meson converse_rtranclp_into_rtranclp r_into_rtranclp)
  qed
qed

lemma claimed_acts:
  assumes "rc_at s i = Holding rid (step_of msg) msg" and "get_run (rc_store s) rid = Some rec"
    and "delegated_work ar L rec (step_of msg) msg = Inr (reply, out)"
  shows "\<exists>reps. (act D)\<^sup>*\<^sup>* s
    (go_to (s \<lparr>rc_store := release_step (record_outcome ar (rc_store s) rid rec (step_of msg) out) rid (step_of msg), rc_ran := reps\<rparr>) i Idle)"
proof (cases out)
  case None
  then have "act D s (go_to s i (Releasing rid (step_of msg)))" using act.silent [OF assms(1), of rec ar L D] assms(2,3) by blast
  moreover have "act D (go_to s i (Releasing rid (step_of msg))) (go_to (s \<lparr>rc_store := release_step (rc_store s) rid (step_of msg)\<rparr>) i Idle)"
    using act.release [of "go_to s i (Releasing rid (step_of msg))" i rid "step_of msg" D] by simp
  ultimately have "(act D)\<^sup>*\<^sup>* s (go_to (s \<lparr>rc_store := release_step (rc_store s) rid (step_of msg)\<rparr>) i Idle)" by auto
  then show ?thesis using None by (auto simp: record_outcome_def intro!: exI [of _ "rc_ran s"])
next
  case (Some p)
  obtain ev vals where p: "p = (ev, vals)" by (cases p)
  define reps where "reps = (if jget ev ''type'' = JStr ''step_result'' then (rid, step_of msg) # rc_ran s else rc_ran s)"
  define s1 where "s1 = go_to (s \<lparr>rc_store := seal_job ar (rc_store s) rid (step_of msg) ev vals, rc_ran := reps\<rparr>) i
    (Adding rid (stored_event ar rec ev vals) (Some (step_of msg)))"
  define s2 where "s2 = go_to (s1 \<lparr>rc_store := record_outcome ar (rc_store s) rid rec (step_of msg) out\<rparr>) i (Releasing rid (step_of msg))"
  have "act D s s1" using act.answered [OF assms(1), of rec ar L reply ev vals D] assms(2,3) Some p by (simp add: s1_def reps_def)
  moreover have "(act D)\<^sup>*\<^sup>* s1 s2"
    using append_acts [of s1 i rid "stored_event ar rec ev vals" "Some (step_of msg)" D] Some p
    by (simp add: s1_def s2_def record_outcome_def afterwards_def)
  moreover have "act D s2 (go_to (s2 \<lparr>rc_store := release_step (rc_store s2) rid (step_of msg)\<rparr>) i Idle)"
    by (rule act.release) (simp add: s2_def)
  ultimately have "(act D)\<^sup>*\<^sup>* s (go_to (s2 \<lparr>rc_store := release_step (rc_store s2) rid (step_of msg)\<rparr>) i Idle)"
    by (meson converse_rtranclp_into_rtranclp rtranclp.rtrancl_into_rtrancl)
  then show ?thesis by (auto simp: s2_def s1_def go_to_def race_swap intro!: exI [of _ reps])
qed

lemma request_acts:
  assumes "on_step_request ar (rc_store s) rid msg = Inr (st', rs)" and "get_run (rc_store s) rid = Some rec"
    and "is_delegated ar rec = Inr (D rid)" and "rc_at s i = Idle"
  shows "\<exists>reps. (act D)\<^sup>*\<^sup>* s (go_to (s \<lparr>rc_store := st', rc_ran := reps\<rparr>) i Idle)"
proof -
  let ?st = "rc_store s" and ?psha = "jget msg ''plan_sha''"
  note r = assms(1) [unfolded on_step_request_def Let_def step_of_def [symmetric] assms(2) option.case]
  from r obtain ok0 why0 where a: "authorize_step ?st rid (step_of msg) ?psha = Inr (ok0, why0)" by (auto elim!: bind_InrE)
  from r a obtain deny where d: "(if ok0 then reauthorize ar rec else Inr None) = Inr deny" by (auto elim!: bind_InrE)
  have append: "\<exists>reps. (act D)\<^sup>*\<^sup>* s (go_to (s \<lparr>rc_store := fst (append_event ?st rid ev), rc_ran := reps\<rparr>) i Idle)"
    if "act D s (go_to s i (Adding rid ev None))" for ev
    using that append_acts [of "go_to s i (Adding rid ev None)" i rid ev None D]
    by (auto simp: afterwards_def intro!: exI [of _ "rc_ran s"])
  consider (refused) "\<not> (ok0 \<and> deny = None)" | (grant) "ok0" "deny = None" "\<not> D rid" | (deleg) "ok0" "deny = None" "D rid" by blast
  then show ?thesis
  proof cases
    case refused
    let ?why = "case deny of Some d \<Rightarrow> d | None \<Rightarrow> why0"
    from refused r a d obtain ev reply where e: "refused_events ar rec (step_of msg) ?why msg = Inr (ev, reply)" and st': "st' = fst (append_event ?st rid ev)"
      by (auto simp: assms(3) elim!: bind_InrE)
    show ?thesis unfolding st' by (rule append) (rule act.refuse [where D = D, OF assms(4) e])
  next
    case grant
    have g: "gates_pass ar ?st rid rec msg" using grant a d assms(2) by (simp add: gates_pass_def step_of_def)
    have st': "st' = fst (append_event ?st rid (granted_event ar rec (step_of msg) ?psha))" using r a d grant by (simp add: assms(3))
    show ?thesis unfolding st' by (rule append, rule act.grant [OF assms(4) g]) (use assms(3) grant(3) in simp_all)
  next
    case deleg
    have g: "gates_pass ar ?st rid rec msg" using deleg a d assms(2) by (simp add: gates_pass_def step_of_def)
    let ?s1 = "go_to s i (Asked rid (step_of msg) msg)"
    have ask: "act D s ?s1" using assms(3) deleg(3) by (intro act.ask [OF assms(4) g]) simp_all
    have home: "go_to (s \<lparr>rc_store := ?st, rc_ran := rc_ran s\<rparr>) i Idle = s" using assms(4) by (simp add: go_to_def fun_upd_idem)
    show ?thesis
    proof (cases "ar_limb ar")
      case None
      then have "st' = ?st" using r a d deleg by (simp add: assms(3))
      then show ?thesis using home by (metis rtranclp.rtrancl_refl)
    next
      case (Some L)
      obtain st1 c where c: "claim_step ?st rid (step_of msg) = (st1, c)" by fastforce
      show ?thesis
      proof (cases c)
        case False
        then have "st' = st1" using r a d deleg Some c by (simp add: assms(3))
        moreover have "act D ?s1 (go_to (s \<lparr>rc_store := st1\<rparr>) i Idle)"
          using act.busy [of ?s1 i rid "step_of msg" msg st1 D] c False by simp
        ultimately show ?thesis using ask by (auto intro!: exI [of _ "rc_ran s"])
      next
        case True
        from r a d deleg Some c True obtain reply out where w: "delegated_work ar L rec (step_of msg) msg = Inr (reply, out)"
          and st': "st' = release_step (record_outcome ar st1 rid rec (step_of msg) out) rid (step_of msg)"
          by (auto simp: assms(3) elim!: bind_InrE)
        let ?s2 = "go_to (s \<lparr>rc_store := st1\<rparr>) i (Holding rid (step_of msg) msg)"
        have "act D ?s1 ?s2" using act.claim [of ?s1 i rid "step_of msg" msg st1 D] c True by simp
        moreover have "get_run st1 rid = Some rec" using claim_view(1) [of ?st rid "step_of msg" st1] c True assms(2) by simp
        then obtain reps where "(act D)\<^sup>*\<^sup>* ?s2 (go_to (?s2 \<lparr>rc_store := st', rc_ran := reps\<rparr>) i Idle)"
          using claimed_acts [of ?s2 i rid msg rec ar L reply out D] w st' by auto
        ultimately have "(act D)\<^sup>*\<^sup>* s (go_to (?s2 \<lparr>rc_store := st', rc_ran := reps\<rparr>) i Idle)"
          using ask by (meson converse_rtranclp_into_rtranclp)
        then show ?thesis by (auto simp: go_to_def intro!: exI [of _ reps])
      qed
    qed
  qed
qed

text \<open>Steps of a session, applied one after the other.\<close>

lemma raced_acts: "(act D)\<^sup>*\<^sup>* s s' \<Longrightarrow> raced D s \<Longrightarrow> raced D s'"
  by (induction rule: rtranclp_induct) (auto intro: raced_act)

definition race_around :: around where
  "race_around = sample_around \<lparr>ar_mode := ''delegated'', ar_limb := Some sample_limb,
     ar_channel := exod_channel limb_host sample_exod 100, ar_nonce := ''n1''\<rparr>"

definition race_store :: "json \<Rightarrow> store" where
  "race_store rec = empty_store \<lparr>s_runs := [(''r'', rec)]\<rparr>"

definition race_msg :: json where
  "race_msg = JObj [(''step'', JInt 1), (''plan_sha'', JStr ''p'')]"

definition race_start :: "json \<Rightarrow> race" where
  "race_start rec = \<lparr>rc_store = race_store rec, rc_at = (\<lambda>_. Idle), rc_ran = [], rc_used = {''r''}\<rparr>"

lemma sample_gates: "gates_pass race_around (race_store sample_rec) ''r'' sample_rec race_msg"
proof -
  have "authorize_step (race_store sample_rec) ''r'' ''1'' (JStr ''p'') = Inr (True, ''granted'')" by code_simp
  moreover have "reauthorize race_around sample_rec = Inr None" by code_simp
  moreover have "py_str (jget race_msg ''step'') = ''1''" "jget race_msg ''plan_sha'' = JStr ''p''" by code_simp+
  ultimately show ?thesis by (simp add: gates_pass_def race_store_def get_run_def)
qed

lemma sample_work:
  "delegated_work race_around sample_limb sample_rec ''1'' race_msg =
     Inr (JObj [(''type'', JStr ''executed''), (''step'', JInt 1), (''status'', JStr ''ok''), (''exit'', JInt 0), (''authority'', JStr ''exod'')],
          Some (sample_event, JObj []))"
proof -
  have "delegated_values race_around sample_rec race_msg = Inr (Inr (JObj []))" by code_simp
  moreover have "with_values (ws_env sample_ws) (JObj []) = Inr (ws_env sample_ws)" by code_simp
  note sample_executes [OF this]
  ultimately show ?thesis
    by (simp add: delegated_work_def race_msg_def jget_JObj text_of_def race_around_def sample_around_def obj_members_def)
qed


text \<open>Two sessions ask for step 1; one claims it and runs it, the other finds it claimed.\<close>

theorem delegated_step_runs_once_witness:
  "\<exists>s rec. raced (\<lambda>_. True) s \<and> rc_ran s = [(''r'', ''1'')] \<and> get_run (rc_store s) ''r'' = Some rec
     \<and> map (\<lambda>x. jget x ''step'') (of_type ''step_result'' (record_events rec)) = [JStr ''1'']
     \<and> distinct (map (\<lambda>x. jget x ''step'') (of_type ''step_result'' (record_events rec)))"
proof -
  let ?D = "\<lambda>_ :: string. True" and ?rec = sample_rec and ?m = race_msg
  let ?ev = "stored_event race_around ?rec sample_event (JObj [])"
  define s0 where "s0 = race_start ?rec"
  define s1 where "s1 = go_to s0 0 (Asked ''r'' ''1'' ?m)"
  define s2 where "s2 = go_to s1 1 (Asked ''r'' ''1'' ?m)"
  define st where "st = race_store ?rec \<lparr>s_inflight := [(''r'', [''1''])]\<rparr>"
  define s3 where "s3 = go_to (s2 \<lparr>rc_store := st\<rparr>) 0 (Holding ''r'' ''1'' ?m)"
  define s4 where "s4 = go_to (s3 \<lparr>rc_store := st\<rparr>) 1 Idle"
  define s5 where "s5 = go_to (s4 \<lparr>rc_store := seal_job race_around st ''r'' ''1'' sample_event (JObj []), rc_ran := [(''r'', ''1'')]\<rparr>) 0 (Adding ''r'' ?ev (Some ''1''))"
  define st6 where "st6 = rc_store s5 \<lparr>s_runs := [(''r'', with_event ?rec ?ev)]\<rparr>"
  define s6 where "s6 = go_to (s5 \<lparr>rc_store := st6\<rparr>) 0 (Writing ''r'' (with_event ?rec ?ev) ?ev (Some ''1''))"
  note defs = s0_def s1_def s2_def s3_def s4_def s5_def s6_def st_def st6_def race_start_def race_store_def go_to_def
  have run: "get_run (race_store ?rec) ''r'' = Some ?rec" "get_run st ''r'' = Some ?rec" by (simp_all add: race_store_def get_run_def st_def)
  have d: "is_delegated race_around ?rec = Inr True" by code_simp
  have so: "step_of ?m = ''1''" by code_simp
  have "run_ok ?rec" by (auto simp: run_ok_def sample_rec_def seq_length_def record_events_def jget_or_def obj_members_def jget_JObj py_or_def intro: ordered_Nil)
  then have 0: "raced ?D s0"
    using raced_start [of "race_store ?rec" ?D] by (simp add: defs empty_store_def)
  have "act ?D s0 s1" unfolding s1_def using sample_gates d so by (intro act.ask [where rid = "''r''" and msg = ?m, unfolded so]) (auto simp: defs)
  then have 1: "raced ?D s1" by (rule raced_act [OF 0])
  have "act ?D s1 s2" unfolding s2_def using sample_gates d so by (intro act.ask [where rid = "''r''" and msg = ?m, unfolded so]) (auto simp: defs)
  then have 2: "raced ?D s2" by (rule raced_act [OF 1])
  have c: "claim_step (race_store ?rec) ''r'' ''1'' = (st, True)" "claim_step st ''r'' ''1'' = (st, False)" unfolding st_def by code_simp+
  have "act ?D s2 s3" unfolding s3_def by (rule act.claim [where msg = ?m]) (use c in \<open>simp_all add: defs\<close>)
  then have 3: "raced ?D s3" by (rule raced_act [OF 2])
  have "act ?D s3 s4" unfolding s4_def by (rule act.busy [where msg = ?m]) (use c in \<open>simp_all add: defs\<close>)
  then have 4: "raced ?D s4" by (rule raced_act [OF 3])
  have "act ?D s4 s5"
    using act.answered [of s4 0 "''r''" "''1''" ?m ?rec, OF _ _ sample_work] run
    by (simp add: s5_def sample_event_get) (simp add: defs)
  then have 5: "raced ?D s5" by (rule raced_act [OF 4])
  have "append_memory (rc_store s5) ''r'' ?ev = (st6, Some (with_event ?rec ?ev))"
    by (simp add: append_memory_def st6_def s5_def go_to_def quiet_views run) (simp add: defs seal_keeps)
  then have "act ?D s5 s6" unfolding s6_def by (intro act.add) (simp_all add: s5_def go_to_def)
  then have 6: "raced ?D s6" by (rule raced_act [OF 5])
  have g: "get_run (rc_store s6) ''r'' = Some (with_event ?rec ?ev)" by (simp add: s6_def st6_def go_to_def get_run_def)
  have "of_type ''step_result'' (record_events (with_event ?rec ?ev)) = [?ev]"
    by (simp add: of_type_def with_event_get stored_event_get sample_event_get) (simp add: record_events_def sample_rec_def jget_JObj py_or_def)
  moreover have "rc_ran s6 = [(''r'', ''1'')]" by (simp add: s6_def s5_def go_to_def)
  ultimately show ?thesis
    using 6 g delegated_step_runs_once [OF 6, where rid = "''r''"] by (auto simp: stored_event_get sample_event_get)
qed


section \<open>What the interleaving does break\<close>

text \<open>
  A cooperative run whose step 1 was granted. Its result is checked under one hold of the lock and appended
  under another, so two sessions can both be told that theirs was recorded.
\<close>

definition coop_run :: json where
  "coop_run = JObj [(''decision'', JStr ''allow''), (''plan_sha'', JStr ''p''), (''seq'', JList [JStr ''rm'']),
     (''events'', JList [JObj [(''type'', JStr ''granted''), (''step'', JStr ''1'')]])]"

definition coop_msg :: "string \<Rightarrow> json" where
  "coop_msg status = JObj [(''step'', JInt 1), (''plan_sha'', JStr ''p''), (''status'', JStr status)]"

lemma coop_ordered: "run_ok coop_run"
proof -
  have d: "parse_digits 0 ''1'' = Some 1" by code_simp
  have so: "step_open 1 [] ''1''" unfolding step_open_def by (intro exI [of _ 1] conjI d) simp_all
  have "ordered 1 ([] @ [JObj [(''type'', JStr ''granted''), (''step'', JStr ''1'')]])"
    by (rule ordered_snoc [OF ordered_Nil]) (use so in \<open>simp add: admissible_def jget_JObj\<close>)
  then show ?thesis by (simp add: run_ok_def coop_run_def seq_length_def record_events_def jget_or_def obj_members_def jget_JObj py_or_def)
qed

lemma coop_start: "raced (\<lambda>_. False) (race_start coop_run)"
  using raced_start [of "race_store coop_run" "\<lambda>_. False"] coop_ordered by (simp add: race_start_def race_store_def empty_store_def)

lemma coop_accept:
  assumes "rc_at s i = Idle" and "rc_store s = race_store coop_run"
  shows "act (\<lambda>_. False) s (go_to s i (Adding ''r'' (result_event_of sample_around coop_run ''1'' (coop_msg status)) None))"
proof -
  have p: "step_of (coop_msg status) = ''1''" "jget (coop_msg status) ''plan_sha'' = JStr ''p''"
    by (simp_all add: step_of_def coop_msg_def jget_JObj) code_simp
  have "is_delegated sample_around coop_run = Inr False" "result_acceptable (race_store coop_run) ''r'' ''1'' (JStr ''p'') = Inr (True, ''ok'')"
    by code_simp+
  then show ?thesis using act.accept [where msg = "coop_msg status" and D = "\<lambda>_. False" and s = s and i = i and rid = "''r''" and rec = coop_run and ar = sample_around] assms p
    by (simp add: race_store_def get_run_def)
qed

lemma cooperative_result_recorded_twice:
  "\<exists>s rec. raced (\<lambda>_. False) s \<and> get_run (rc_store s) ''r'' = Some rec
     \<and> map (\<lambda>e. (jget e ''step'', jget e ''status'')) (of_type ''step_result'' (record_events rec))
       = [(JStr ''1'', JStr ''ok''), (JStr ''1'', JStr ''error'')]"
proof -
  let ?D = "\<lambda>_ :: string. False"
  let ?e = "\<lambda>status. result_event_of sample_around coop_run ''1'' (coop_msg status)"
  define s0 where "s0 = race_start coop_run"
  define s1 where "s1 = go_to s0 0 (Adding ''r'' (?e ''ok'') None)"
  define s2 where "s2 = go_to s1 1 (Adding ''r'' (?e ''error'') None)"
  have "act ?D s0 s1" "act ?D s1 s2" unfolding s1_def s2_def s0_def by (rule coop_accept; simp add: race_start_def go_to_def)+
  then have 2: "raced ?D s2" using coop_start raced_act unfolding s0_def by blast
  have at: "rc_at s2 0 = Adding ''r'' (?e ''ok'') None" "rc_at s2 1 = Adding ''r'' (?e ''error'') None" "rc_store s2 = race_store coop_run"
    by (simp_all add: s2_def s1_def s0_def race_start_def go_to_def)
  define s3 where "s3 = go_to (s2 \<lparr>rc_store := fst (append_event (rc_store s2) ''r'' (?e ''ok''))\<rparr>) 0 Idle"
  have 3: "raced ?D s3" using raced_acts [OF append_acts [OF at(1), of ?D] 2] by (simp add: s3_def afterwards_def)
  have at3: "rc_at s3 1 = Adding ''r'' (?e ''error'') None" using at(2) by (simp add: s3_def go_to_def)
  define s4 where "s4 = go_to (s3 \<lparr>rc_store := fst (append_event (rc_store s3) ''r'' (?e ''error''))\<rparr>) 1 Idle"
  have 4: "raced ?D s4" using raced_acts [OF append_acts [OF at3, of ?D] 3] by (simp add: s4_def afterwards_def)
  have "get_run (rc_store s4) ''r'' = Some (with_event (with_event coop_run (?e ''ok'')) (?e ''error''))"
    by (simp add: s4_def s3_def at(3) append_event_def race_store_def get_run_def persist_def Let_def)
  moreover have "map (\<lambda>e. (jget e ''step'', jget e ''status'')) (of_type ''step_result'' (record_events (with_event (with_event coop_run (?e ''ok'')) (?e ''error''))))
      = [(JStr ''1'', JStr ''ok''), (JStr ''1'', JStr ''error'')]"
    by (simp add: with_event_get of_type_def result_event_of_def jget_JObj coop_msg_def) (simp add: record_events_def coop_run_def jget_JObj py_or_def)
  ultimately show ?thesis using 4 by (intro exI conjI)
qed

text \<open>
  The ledger on disk can go back: a session that was told its result is recorded finds, once all sessions
  are at rest, a ledger without it, because another session wrote an older snapshot later.
\<close>

lemma ledger_on_disk_goes_back:
  "\<exists>s rec old. raced (\<lambda>_. False) s \<and> (\<forall>i. rc_at s i = Idle) \<and> get_run (rc_store s) ''r'' = Some rec
     \<and> dget (s_disk (rc_store s)) ''r'' = Some old \<and> JStr ''1'' \<in> recorded (record_events rec) \<and> JStr ''1'' \<notin> recorded (record_events old)"
proof -
  let ?D = "\<lambda>_ :: string. False"
  let ?e = "result_event_of sample_around coop_run ''1'' (coop_msg ''ok'')"
  define n where "n = JObj [(''type'', JStr ''step_refused''), (''ts'', JStr ''t''), (''step'', JStr ''1''), (''reason'', JStr ''x'')]"
  let ?old = "with_event coop_run n" and ?new = "with_event (with_event coop_run n) ?e"
  define s0 where "s0 = race_start coop_run"
  define s1 where "s1 = go_to s0 0 (Adding ''r'' n None)"
  define s2 where "s2 = go_to s1 1 (Adding ''r'' ?e None)"
  define s3 where "s3 = go_to (s2 \<lparr>rc_store := race_store ?old\<rparr>) 0 (Writing ''r'' ?old n None)"
  define s4 where "s4 = go_to (s3 \<lparr>rc_store := race_store ?new\<rparr>) 1 (Writing ''r'' ?new ?e None)"
  define s5 where "s5 = go_to (s4 \<lparr>rc_store := write_out (rc_store s4) ''r'' ?new ?e\<rparr>) 1 Idle"
  define s6 where "s6 = go_to (s5 \<lparr>rc_store := write_out (rc_store s5) ''r'' ?old n\<rparr>) 0 Idle"
  note defs = s0_def s1_def s2_def s3_def s4_def s5_def s6_def race_start_def go_to_def
  have "refused_events sample_around coop_run (step_of (coop_msg ''ok'')) ''x'' (coop_msg ''ok'')
      = Inr (n, JObj [(''type'', JStr ''refuse''), (''step'', JInt 1), (''reason'', JStr ''x'')])"
    unfolding n_def by code_simp
  then have "act ?D s0 s1" unfolding s1_def by (intro act.refuse) (simp_all add: s0_def race_start_def)
  moreover have "act ?D s1 s2" unfolding s2_def by (rule coop_accept) (simp_all add: defs)
  moreover have "act ?D s2 s3" unfolding s3_def
    by (rule act.add) (simp_all add: s2_def s1_def s0_def race_start_def go_to_def append_memory_def race_store_def get_run_def)
  moreover have "act ?D s3 s4" unfolding s4_def
    by (rule act.add) (simp_all add: s3_def s2_def s1_def s0_def race_start_def go_to_def append_memory_def race_store_def get_run_def)
  moreover have "act ?D s4 s5" unfolding s5_def
    using act.writes [of s4 1 "''r''" ?new ?e None ?D] by (simp add: s4_def afterwards_def)
  moreover have "act ?D s5 s6" unfolding s6_def
    using act.writes [of s5 0 "''r''" ?old n None ?D] by (simp add: s5_def s4_def s3_def go_to_def afterwards_def)
  ultimately have "raced ?D s6" using coop_start raced_act unfolding s0_def by blast
  moreover have "\<forall>i. rc_at s6 i = Idle" by (simp add: defs)
  moreover have "get_run (rc_store s6) ''r'' = Some ?new" "dget (s_disk (rc_store s6)) ''r'' = Some ?old"
    by (simp_all add: s6_def s5_def s4_def quiet_views) (simp_all add: write_out_def persist_def Let_def race_store_def get_run_def dget_dput)
  moreover have "JStr ''1'' \<in> recorded (record_events ?new)" "JStr ''1'' \<notin> recorded (record_events ?old)"
    by (simp_all add: with_event_get recorded_def of_type_def steps_of_def result_event_of_def n_def jget_JObj)
      (auto simp: record_events_def coop_run_def jget_JObj py_or_def)
  ultimately show ?thesis by blast
qed

end
