(* ===== verification/Provenance.thy ===== *)
theory Provenance
  imports
    Races
begin

text \<open>
  The order of provenance (\<open>src/infra/govern/govd.py\<close>), in the model of \<open>Races\<close>: any number of sessions whose
  atomic steps interleave, runs evicted from memory, ledgers written late and out of order, and a server that
  dies at any point and starts again from what the disk then holds. The check that a step may run and the
  append that records it happen under different holds of the lock; what makes the order survive is that the
  results of the steps before it are never taken back.
\<close>

section \<open>The life of a server\<close>

text \<open>An event that names a step of the plan behind results with status ok of all the steps before it.\<close>

definition fits_after :: "nat \<Rightarrow> json list \<Rightarrow> json \<Rightarrow> bool" where
  "fits_after n evs e \<longleftrightarrow>
     (jget e ''type'' \<in> {JStr ''granted'', JStr ''step_result''} \<longrightarrow> (\<exists>s. jget e ''step'' = JStr s \<and> step_open n evs s))"

inductive in_sequence :: "nat \<Rightarrow> json list \<Rightarrow> bool" for n where
  in_sequence_Nil: "in_sequence n []"
| in_sequence_snoc: "in_sequence n evs \<Longrightarrow> fits_after n evs e \<Longrightarrow> in_sequence n (evs @ [e])"

definition run_in_sequence :: "json \<Rightarrow> bool" where
  "run_in_sequence rec \<longleftrightarrow> (\<exists>n. seq_length rec = Inr n \<and> in_sequence n (record_events rec))"

text \<open>
  A server starts with nothing. Its sessions act; and it may die, between any two atomic steps, and start again
  on some of the ledgers on disk and on the log of verdicts. What the sessions were doing is lost then.
\<close>

inductive lived :: "(string \<Rightarrow> bool) \<Rightarrow> race \<Rightarrow> bool" for D where
  lived_start: "s_runs st = [] \<Longrightarrow> s_disk st = [] \<Longrightarrow> s_inflight st = []
    \<Longrightarrow> lived D \<lparr>rc_store = st, rc_at = (\<lambda>_. Idle), rc_ran = [], rc_used = {}\<rparr>"
| lived_act: "lived D s \<Longrightarrow> act D s s' \<Longrightarrow> lived D s'"
| lived_restart: "lived D s \<Longrightarrow> set ledgers \<subseteq> snd ` set (s_disk (rc_store s))
    \<Longrightarrow> hydrate (s_max (rc_store s)) ledgers (s_log (rc_store s)) = (runs, decs)
    \<Longrightarrow> lived D \<lparr>rc_store = rc_store s \<lparr>s_runs := runs, s_inflight := [], s_decisions := decs\<rparr>, rc_at = (\<lambda>_. Idle), rc_ran = rc_ran s,
          rc_used = rc_used s \<union> fst ` set runs\<rparr>"

lemma lived_acts: "(act D)\<^sup>*\<^sup>* s s' \<Longrightarrow> lived D s \<Longrightarrow> lived D s'"
  by (induction rule: rtranclp_induct) (auto intro: lived_act)

section \<open>What survives the interleaving\<close>

lemma in_sequence_snoc_iff: "in_sequence n (evs @ [e]) \<longleftrightarrow> in_sequence n evs \<and> fits_after n evs e"
  by (subst in_sequence.simps) auto

lemma sequence_fits:
  assumes "in_sequence n (evs @ e # es)"
  shows "fits_after n evs e"
proof -
  have "in_sequence n ((evs @ [e]) @ es)" using assms by simp
  then have "in_sequence n (evs @ [e])" by (induction es rule: rev_induct) (simp_all add: in_sequence_snoc_iff flip: append_assoc)
  then show ?thesis by (simp add: in_sequence_snoc_iff)
qed

lemma sequence_granted:
  assumes "in_sequence n evs" and "JStr s \<in> granted evs"
  shows "step_open n evs s"
proof -
  obtain e where e: "e \<in> set evs" "jget e ''type'' = JStr ''granted''" "jget e ''step'' = JStr s"
    using assms(2) by (auto simp: granted_def steps_of_def of_type_def)
  obtain xs ys where x: "evs = xs @ e # ys" using e(1) by (auto dest: split_list)
  then have "step_open n xs s" using sequence_fits [of n xs e ys] assms(1) e by (simp add: fits_after_def)
  then show ?thesis unfolding x by (rule step_open_mono)
qed

text \<open>The ledgers of the runs known so far only grow, as long as they are resident.\<close>

definition grows :: "string set \<Rightarrow> (string \<Rightarrow> json option) \<Rightarrow> (string \<Rightarrow> json option) \<Rightarrow> bool" where
  "grows U runs runs' \<longleftrightarrow>
     (\<forall>rid \<in> U. \<forall>rec'. runs' rid = Some rec' \<longrightarrow>
        (\<exists>rec es. runs rid = Some rec \<and> seq_length rec' = seq_length rec \<and> record_events rec' = record_events rec @ es))"

lemma grows_refl: "grows U runs runs"
  by (auto simp: grows_def)

lemma grows_open: "grows U runs runs' \<Longrightarrow> rid \<in> U \<Longrightarrow> still_open runs rid step \<Longrightarrow> still_open runs' rid step"
  unfolding grows_def still_open_def by (metis step_open_mono)

definition place_seq :: "string set \<Rightarrow> (string \<Rightarrow> json option) \<Rightarrow> place \<Rightarrow> bool" where
  "place_seq U runs p =
     (case p of
        Asked rid step msg \<Rightarrow> rid \<in> U \<and> still_open runs rid step
      | Holding rid step msg \<Rightarrow> rid \<in> U \<and> still_open runs rid step
      | Adding rid ev rel \<Rightarrow> jget ev ''type'' \<in> {JStr ''granted'', JStr ''step_result''} \<longrightarrow> rid \<in> U \<and> (\<exists>s. jget ev ''step'' = JStr s \<and> still_open runs rid s)
      | Writing rid rec ev rel \<Rightarrow> run_in_sequence rec
      | _ \<Rightarrow> True)"

lemma place_seq_simps [simp]:
  "place_seq U runs Idle" "place_seq U runs (Releasing rid step)"
  "place_seq U runs (Asked rid step msg) \<longleftrightarrow> rid \<in> U \<and> still_open runs rid step"
  "place_seq U runs (Holding rid step msg) \<longleftrightarrow> rid \<in> U \<and> still_open runs rid step"
  "place_seq U runs (Adding rid ev rel) \<longleftrightarrow>
     (jget ev ''type'' \<in> {JStr ''granted'', JStr ''step_result''} \<longrightarrow> rid \<in> U \<and> (\<exists>s. jget ev ''step'' = JStr s \<and> still_open runs rid s))"
  "place_seq U runs (Writing rid rec ev rel) \<longleftrightarrow> run_in_sequence rec" "place_seq U runs (afterwards rid rel)"
  by (simp_all add: place_seq_def afterwards_def split: option.split)

lemma place_seq_grows: "place_seq U runs p \<Longrightarrow> grows U runs runs' \<Longrightarrow> U \<subseteq> U' \<Longrightarrow> place_seq U' runs' p"
  by (cases p) (auto intro: grows_open)

definition all_in_sequence :: "race \<Rightarrow> bool" where
  "all_in_sequence s \<longleftrightarrow> distinct (map fst (s_runs (rc_store s)))
     \<and> (\<forall>rid rec. get_run (rc_store s) rid = Some rec \<longrightarrow> rid \<in> rc_used s \<and> run_in_sequence rec)
     \<and> (\<forall>x \<in> set (s_disk (rc_store s)). run_in_sequence (snd x))
     \<and> (\<forall>i. place_seq (rc_used s) (get_run (rc_store s)) (rc_at s i))"

text \<open>One session moves to a place that fits, and the store changes in a way the others survive.\<close>

lemma sequence_move:
  assumes "all_in_sequence s" and "distinct (map fst (s_runs st))" and "grows (rc_used s) (get_run (rc_store s)) (get_run st)"
    and "\<And>rid rec. get_run st rid = Some rec \<Longrightarrow> rid \<in> rc_used s \<and> run_in_sequence rec"
    and "\<And>x. x \<in> set (s_disk st) \<Longrightarrow> run_in_sequence (snd x)" and "place_seq (rc_used s) (get_run st) p"
  shows "all_in_sequence (go_to (s \<lparr>rc_store := st, rc_ran := reps\<rparr>) i p)"
  using assms place_seq_grows [OF _ assms(3) subset_refl] by (auto simp: all_in_sequence_def go_to_def)

lemma sequence_same:
  assumes "all_in_sequence s" and "s_runs st = s_runs (rc_store s)" and "s_disk st = s_disk (rc_store s)" and "place_seq (rc_used s) (get_run (rc_store s)) p"
  shows "all_in_sequence (go_to (s \<lparr>rc_store := st, rc_ran := reps\<rparr>) i p)"
proof -
  have "get_run st = get_run (rc_store s)" using assms(2) by (simp add: get_run_def fun_eq_iff)
  then show ?thesis using assms grows_refl by (intro sequence_move) (auto simp: all_in_sequence_def)
qed

lemmas sequence_same_store = sequence_same [where reps = "rc_ran s" and s = s for s, simplified]
lemmas sequence_stay = sequence_same [where reps = "rc_ran s" and st = "rc_store s" and s = s for s, simplified]

lemma open_of_gates:
  assumes "all_in_sequence s" and "gates_pass ar (rc_store s) rid rec msg"
  shows "rid \<in> rc_used s \<and> still_open (get_run (rc_store s)) rid (step_of msg)"
proof -
  have "get_run (rc_store s) rid = Some rec" using assms(2) by (simp add: gates_pass_def)
  then show ?thesis using assms(1) due_of_gates [OF assms(2)] unfolding all_in_sequence_def by blast
qed

lemma open_of_result:
  assumes "all_in_sequence s" and "result_acceptable (rc_store s) rid step psha = Inr (True, why)"
  shows "still_open (get_run (rc_store s)) rid step"
  unfolding still_open_def
proof (intro allI impI)
  fix rec n assume r: "get_run (rc_store s) rid = Some rec" "seq_length rec = Inr n"
  have "run_in_sequence rec" using assms(1) r(1) unfolding all_in_sequence_def by blast
  then have "in_sequence n (record_events rec)" using r(2) by (simp add: run_in_sequence_def)
  moreover have "JStr step \<in> granted (record_events rec)"
    using assms(2) r(1) by (auto simp: result_acceptable_def steps_seen_def run_events_def granted_def elim!: bind_InrE split: if_split_asm)
  ultimately show "step_open n (record_events rec) step" by (rule sequence_granted)
qed

lemma set_dput: "x \<in> set (dput k v d) \<Longrightarrow> snd x = v \<or> x \<in> set d"
  by (induction d) (auto split: if_split_asm)

lemma disk_of_write: "x \<in> set (s_disk (write_out st rid rec ev)) \<Longrightarrow> snd x = rec \<or> x \<in> set (s_disk st)"
  by (auto simp: write_out_def persist_def Let_def dest: set_dput)

lemma remember_disk: "s_disk (remember st rid rec) = s_disk st"
  by (simp add: remember_def)

lemma append_disk: "append_memory st rid ev = (st', x) \<Longrightarrow> s_disk st' = s_disk st"
  by (auto simp: append_memory_def split: option.split_asm)

lemma sequence_add:
  assumes "all_in_sequence s" and "rc_at s i = Adding rid ev rel" and "append_memory (rc_store s) rid ev = (st, Some rec)"
  shows "all_in_sequence (go_to (s \<lparr>rc_store := st\<rparr>) i (Writing rid rec ev rel))"
proof -
  let ?R = "get_run (rc_store s)"
  obtain rec0 where v: "?R rid = Some rec0" "rec = with_event rec0 ev" "get_run st = ?R(rid := Some rec)" by (rule append_view [OF assms(3)])
  have ok: "rid \<in> rc_used s" "run_in_sequence rec0" using assms(1) v(1) unfolding all_in_sequence_def by blast+
  have seq: "seq_length rec = seq_length rec0" "record_events rec = record_events rec0 @ [ev]"
    using v(2) by (simp_all add: seq_length_def with_event_get)
  obtain n where n: "seq_length rec0 = Inr n" "in_sequence n (record_events rec0)" using ok(2) by (auto simp: run_in_sequence_def)
  have "place_seq (rc_used s) ?R (Adding rid ev rel)" using assms(1,2) unfolding all_in_sequence_def by metis
  then have "fits_after n (record_events rec0) ev" using v(1) n(1) by (auto simp: fits_after_def still_open_def)
  then have new: "run_in_sequence rec" using n seq by (auto simp: run_in_sequence_def in_sequence_snoc_iff)
  have "grows (rc_used s) ?R (get_run st)" using v seq by (auto simp: grows_def)
  moreover have "distinct (map fst (s_runs st))" using keys_kept(1) [OF assms(3)] assms(1) by (simp add: all_in_sequence_def)
  moreover have "r \<in> rc_used s \<and> run_in_sequence x" if "get_run st r = Some x" for r x
    using that assms(1) ok new v(3) by (auto simp: all_in_sequence_def split: if_split_asm)
  ultimately show ?thesis
    using sequence_move [OF assms(1), of st "Writing rid rec ev rel" "rc_ran s" i] append_disk [OF assms(3)] assms(1) new
    by (simp add: all_in_sequence_def)
qed

lemma sequence_fresh:
  assumes "all_in_sequence s" and "rid \<notin> rc_used s" and "seq_length rec = Inr n" and "record_events rec = []"
    and "s_runs st = s_runs (remember (rc_store s) rid rec)" and "\<And>x. x \<in> set (s_disk st) \<Longrightarrow> snd x = rec \<or> x \<in> set (s_disk (rc_store s))"
  shows "all_in_sequence (s \<lparr>rc_store := st, rc_used := insert rid (rc_used s)\<rparr>)"
proof -
  have d: "distinct (map fst (s_runs (rc_store s)))" using assms(1) by (simp add: all_in_sequence_def)
  have g: "get_run st = get_run (remember (rc_store s) rid rec)" using assms(5) by (simp add: get_run_def fun_eq_iff)
  have new: "run_in_sequence rec" using assms(3,4) by (auto simp: run_in_sequence_def intro: in_sequence_Nil)
  have old: "get_run st r \<in> {None, get_run (rc_store s) r}" if "r \<noteq> rid" for r using remember_view(1) [OF d that] g by simp
  have "grows (rc_used s) (get_run (rc_store s)) (get_run st)"
    unfolding grows_def using old assms(2) by (metis append_Nil2 empty_iff insertE option.distinct(1))
  moreover have "r \<in> insert rid (rc_used s) \<and> run_in_sequence x" if "get_run st r = Some x" for r x
  proof (cases "r = rid")
    case False
    then have "get_run (rc_store s) r = Some x" using old [OF False] that by auto
    then show ?thesis using assms(1) unfolding all_in_sequence_def by blast
  qed (use that new remember_view(2) [OF d, of rid rec] g in auto)
  moreover have "place_seq (insert rid (rc_used s)) (get_run st) (rc_at s i)" for i
    using assms(1) by (intro place_seq_grows [OF _ calculation(1)]) (auto simp: all_in_sequence_def)
  moreover have "run_in_sequence (snd x)" if "x \<in> set (s_disk st)" for x
    using assms(1) assms(6) [OF that] new by (auto simp: all_in_sequence_def)
  ultimately show ?thesis using assms(5) remember_view(4) [OF d, of rid rec] by (simp add: all_in_sequence_def)
qed

lemma act_sequence:
  assumes "act D s s'" and "all_in_sequence s"
  shows "all_in_sequence s'"
  using assms(1)
proof cases
  case (ask i ar rid rec msg)
  then show ?thesis using open_of_gates [OF assms(2) ask(3)] assms(2) by (auto intro!: sequence_stay)
next
  case (busy i rid step msg st)
  show ?thesis unfolding busy using assms(2) claim_keeps [of "rc_store s" rid step] busy(3) by (intro sequence_same_store) auto
next
  case (claim i rid step msg st)
  have "place_seq (rc_used s) (get_run (rc_store s)) (Asked rid step msg)" using assms(2) claim(2) unfolding all_in_sequence_def by metis
  then show ?thesis unfolding claim using assms(2) claim_keeps [of "rc_store s" rid step] claim(3) by (intro sequence_same_store) auto
next
  case (answered i rid step msg rec ar L reply ev vals)
  have "place_seq (rc_used s) (get_run (rc_store s)) (Holding rid step msg)" using assms(2) answered(2) unfolding all_in_sequence_def by metis
  then show ?thesis unfolding answered using assms(2) seal_keeps [of ar "rc_store s" rid step ev vals] delegated_work_event [OF answered(4)]
    by (intro sequence_same) (auto simp: stored_event_get)
next
  case (grant i ar rid rec msg)
  then show ?thesis using open_of_gates [OF assms(2) grant(3)] assms(2)
    by (auto intro!: sequence_stay simp: granted_event_def jget_JObj)
next
  case (accept i rid rec ar msg why)
  have "rid \<in> rc_used s" using assms(2) accept(3) unfolding all_in_sequence_def by blast
  then show ?thesis unfolding accept using open_of_result [OF assms(2) accept(6)] assms(2)
    by (intro sequence_stay) (auto simp: result_event_of_def jget_JObj)
next
  case (refuse i ar rec msg why ev reply rid)
  then show ?thesis using refused_events_type [OF refuse(3)] assms(2) by (auto intro!: sequence_stay)
next
  case (add i rid ev rel st rec)
  show ?thesis unfolding add by (rule sequence_add [OF assms(2) add(2,3)])
next
  case (writes i rid rec ev rel)
  have "place_seq (rc_used s) (get_run (rc_store s)) (Writing rid rec ev rel)" using assms(2) writes(2) unfolding all_in_sequence_def by metis
  then show ?thesis unfolding writes
    using sequence_move [OF assms(2), of "write_out (rc_store s) rid rec ev" "afterwards rid rel" "rc_ran s" i] assms(2)
    by (auto simp: all_in_sequence_def keys_kept quiet_views grows_refl dest: disk_of_write)
next
  case (release i rid step)
  show ?thesis unfolding release using assms(2) release_keeps [of "rc_store s" rid step] by (intro sequence_same_store) auto
next
  case (creates rid rec n)
  show ?thesis unfolding creates
    by (rule sequence_fresh [OF assms(2) creates(2-4)]) (auto simp: create_view create_def persist_def Let_def remember_disk dest!: set_dput)
next
  case (remembers rid rec n)
  show ?thesis unfolding remembers by (rule sequence_fresh [OF assms(2) remembers(2-4)]) (auto simp: remember_def)
qed (use assms(2) in \<open>auto intro!: sequence_stay\<close>)

text \<open>A restart reads what is on disk, and what is on disk was in sequence when it was written.\<close>

lemma restored_sequence: "run_in_sequence rec \<Longrightarrow> run_in_sequence (restored rec)"
proof -
  have "seq_length (restored rec) = seq_length rec" "record_events (restored rec) = record_events rec"
    by (cases rec; simp add: restored_def seq_length_def record_events_def jget_or_def jput_def obj_members_def dget_dput jget_def py_or_def)+
  then show "run_in_sequence rec \<Longrightarrow> run_in_sequence (restored rec)" by (simp add: run_in_sequence_def)
qed

lemma bare_sequence: "run_in_sequence (bare_run v)"
  by (auto simp: run_in_sequence_def bare_run_def seq_length_def record_events_def jget_or_def obj_members_def jget_def py_or_def
      intro: in_sequence_Nil)

definition dict_in_sequence :: "(string, json) dict \<Rightarrow> bool" where
  "dict_in_sequence d \<longleftrightarrow> distinct (map fst d) \<and> (\<forall>x \<in> set d. run_in_sequence (snd x))"

lemma dict_dput: "dict_in_sequence d \<Longrightarrow> run_in_sequence rec \<Longrightarrow> dict_in_sequence (dput k rec d)"
  unfolding dict_in_sequence_def by (metis distinct_update set_dput)

lemma put_run_sequence: "dict_in_sequence d \<Longrightarrow> run_in_sequence rec \<Longrightarrow> dict_in_sequence (put_run d rec)"
  by (simp add: put_run_def Let_def dict_dput restored_sequence)

lemma restore_verdict_sequence: "dict_in_sequence d \<Longrightarrow> dict_in_sequence (restore_verdict d v)"
  by (simp add: restore_verdict_def Let_def dict_dput bare_sequence)

lemma dict_newest: "dict_in_sequence d \<Longrightarrow> dict_in_sequence (newest n d)"
  using newest_suffix [of d n] unfolding dict_in_sequence_def by (metis UnCI distinct_append map_append set_append)

lemma hydrate_sequence:
  assumes "\<forall>rec \<in> set ledgers. run_in_sequence rec" and "hydrate cap ledgers lines = (runs, decs)"
  shows "dict_in_sequence runs"
proof -
  have "\<forall>rec \<in> set (newest cap ledgers). run_in_sequence rec" using assms(1) by (auto simp: newest_def dest: in_set_dropD)
  moreover have "dict_in_sequence []" by (simp add: dict_in_sequence_def)
  ultimately have "dict_in_sequence (foldl put_run [] (newest cap ledgers))"
    by (intro foldl_keeps [where P = dict_in_sequence] put_run_sequence) blast+
  then have "dict_in_sequence (foldl restore_verdict (foldl put_run [] (newest cap ledgers)) d)" for d
    by (rule foldl_keeps [where P = dict_in_sequence]) (rule restore_verdict_sequence)
  then show ?thesis using assms(2) dict_newest by (auto simp: hydrate_def Let_def)
qed

lemma lived_sequence: "lived D s \<Longrightarrow> all_in_sequence s"
proof (induction rule: lived.induct)
  case (lived_start st)
  then show ?case by (simp add: all_in_sequence_def get_run_def)
next
  case (lived_act s s')
  then show ?case using act_sequence by blast
next
  case (lived_restart s ledgers runs decs)
  have "\<forall>rec \<in> set ledgers. run_in_sequence rec" using lived_restart by (auto simp: all_in_sequence_def)
  then have "dict_in_sequence runs" using hydrate_sequence lived_restart(3) by blast
  then have d: "distinct (map fst runs)" "\<And>k rec. dget runs k = Some rec \<Longrightarrow> k \<in> fst ` set runs \<and> run_in_sequence rec"
    unfolding dict_in_sequence_def by (simp, metis fst_conv image_eqI map_of_SomeD snd_conv)
  then show ?case using lived_restart(4) by (simp add: all_in_sequence_def get_run_def)
qed

section \<open>The property\<close>

text \<open>
  C4: provenance is never out of order, however sessions race and whenever the server dies. In every state the
  server can reach, from nothing, by any interleaving of the atomic steps of any number of sessions (delegated
  and cooperative runs alike, each step of a session under surroundings of its own and any answers of the
  daemon), with runs evicted at any time, ledgers written late or in the wrong order, and restarts on what the
  disk held: in every ledger, in memory and on disk, an event that grants a step or records its result names a
  step of the blessed plan, and earlier in the same ledger stands, for every step before it, a result with
  status ok. How many results a step has is another matter (delegated steps: \<open>delegated_step_runs_once\<close>;
  cooperative ones can have two: \<open>cooperative_result_recorded_twice\<close>).
\<close>

theorem provenance_in_sequence:
  assumes "lived D s" and "(rid, rec) \<in> set (s_runs (rc_store s)) \<union> set (s_disk (rc_store s))" and "record_events rec = evs @ e # es"
    and "jget e ''type'' \<in> {JStr ''granted'', JStr ''step_result''}"
  shows "\<exists>n step k. seq_length rec = Inr n \<and> jget e ''step'' = JStr step \<and> parse_digits 0 step = Some k \<and> 1 \<le> k \<and> k \<le> n
    \<and> (\<forall>j \<in> {1..<k}. \<exists>r \<in> set evs. jget r ''type'' = JStr ''step_result'' \<and> jget r ''step'' = JStr (show_nat j) \<and> jget r ''status'' = JStr ''ok'')"
proof -
  have s: "all_in_sequence s" by (rule lived_sequence [OF assms(1)])
  have "run_in_sequence rec"
  proof (cases "(rid, rec) \<in> set (s_disk (rc_store s))")
    case True
    then show ?thesis using s by (auto simp: all_in_sequence_def)
  next
    case False
    then have "get_run (rc_store s) rid = Some rec" using s assms(2) by (simp add: all_in_sequence_def get_run_def)
    then show ?thesis using s by (simp add: all_in_sequence_def)
  qed
  then obtain n where n: "seq_length rec = Inr n" "in_sequence n (evs @ e # es)" using assms(3) by (auto simp: run_in_sequence_def)
  have "\<exists>step. jget e ''step'' = JStr step \<and> step_open n evs step" using sequence_fits [OF n(2)] assms(4) by (auto simp: fits_after_def)
  moreover have "x \<in> ok_steps evs \<Longrightarrow> \<exists>r \<in> set evs. jget r ''type'' = JStr ''step_result'' \<and> jget r ''step'' = x \<and> jget r ''status'' = JStr ''ok''" for x
    by (auto simp: ok_steps_def steps_of_def of_type_def)
  ultimately show ?thesis using n(1) unfolding step_open_def by meson
qed

text \<open>
  The witness: a run of two steps, from an empty server. Session 0 is granted step 1 and reports it; session 1
  is then granted step 2. Each event is appended by the atomic steps of its session.
\<close>

definition seq_store :: "json list \<Rightarrow> store" where
  "seq_store evs = foldl (\<lambda>st ev. fst (append_event st ''r'' ev)) (create empty_store ''r'' sample_run) evs"

definition seq_rec :: "json list \<Rightarrow> json" where
  "seq_rec evs = foldl with_event sample_run evs"

definition seq_race :: "json list \<Rightarrow> race" where
  "seq_race evs = \<lparr>rc_store = seq_store evs, rc_at = (\<lambda>_. Idle), rc_ran = [], rc_used = {''r''}\<rparr>"

definition seq_msg :: "int \<Rightarrow> json" where
  "seq_msg k = JObj [(''step'', JInt k), (''plan_sha'', JStr ''p''), (''status'', JStr ''ok''), (''exit'', JInt 0)]"

definition seq_events :: "json list" where
  "seq_events = [granted_event sample_around sample_run ''1'' (JStr ''p''), result_event_of sample_around sample_run ''1'' (seq_msg 1)]"

lemma seq_run: "get_run (seq_store evs) ''r'' = Some (seq_rec evs)"
proof (induction evs rule: rev_induct)
  case Nil
  show ?case unfolding seq_store_def seq_rec_def foldl.simps by code_simp
next
  case (snoc ev evs)
  then show ?case by (simp add: seq_store_def seq_rec_def append_event_def persist_def Let_def get_run_def dget_dput)
qed

lemma seq_lived_next:
  assumes "lived D (seq_race evs)" and "act D (seq_race evs) (go_to (seq_race evs) i (Adding ''r'' ev None))"
  shows "lived D (seq_race (evs @ [ev]))"
proof -
  let ?s = "go_to (seq_race evs) i (Adding ''r'' ev None)"
  have "(act D)\<^sup>*\<^sup>* ?s (go_to (?s \<lparr>rc_store := fst (append_event (rc_store ?s) ''r'' ev)\<rparr>) i (afterwards ''r'' None))"
    by (rule append_acts) simp
  moreover have "go_to (?s \<lparr>rc_store := fst (append_event (rc_store ?s) ''r'' ev)\<rparr>) i (afterwards ''r'' None) = seq_race (evs @ [ev])"
    by (simp add: seq_race_def seq_store_def afterwards_def go_to_def fun_eq_iff)
  ultimately show ?thesis using lived_acts [OF _ lived_act [OF assms]] by simp
qed

lemma seq_start: "lived D (seq_race [])"
proof -
  let ?s = "\<lparr>rc_store = empty_store, rc_at = (\<lambda>_. Idle), rc_ran = [], rc_used = {}\<rparr>"
  have "lived D ?s" by (rule lived_start) (simp_all add: empty_store_def)
  moreover have "act D ?s (?s \<lparr>rc_store := create (rc_store ?s) ''r'' sample_run, rc_used := insert ''r'' (rc_used ?s)\<rparr>)"
    by (rule act.creates [where n = 2]) (simp_all add: sample_run_def seq_length_def jget_or_def obj_members_def record_events_def jget_def py_or_def)
  ultimately show ?thesis using lived_act [of D ?s] by (simp add: seq_race_def seq_store_def)
qed

lemma seq_grants:
  assumes "authorize_step (seq_store evs) ''r'' step (JStr ''p'') = Inr (True, why)" and "step_of m = step" and "jget m ''plan_sha'' = JStr ''p''"
    and "reauthorize sample_around (seq_rec evs) = Inr None" and "is_delegated sample_around (seq_rec evs) = Inr False"
  shows "act (\<lambda>_. False) (seq_race evs) (go_to (seq_race evs) i (Adding ''r'' (granted_event sample_around (seq_rec evs) step (JStr ''p'')) None))"
proof -
  have "gates_pass sample_around (rc_store (seq_race evs)) ''r'' (seq_rec evs) m"
    using assms by (auto simp: gates_pass_def seq_race_def seq_run step_of_def)
  then show ?thesis using act.grant [of "seq_race evs" i sample_around "''r''" "seq_rec evs" m "\<lambda>_. False"] assms by (simp add: seq_race_def)
qed

lemma seq_two: "lived (\<lambda>_. False) (seq_race seq_events)"
proof -
  let ?D = "\<lambda>_ :: string. False" and ?g = "granted_event sample_around sample_run ''1'' (JStr ''p'')"
  have e: "seq_rec [] = sample_run" by (simp add: seq_rec_def)
  have m: "step_of (seq_msg 1) = ''1''" "jget (seq_msg 1) ''plan_sha'' = JStr ''p''" by code_simp+
  have "authorize_step (seq_store []) ''r'' ''1'' (JStr ''p'') = Inr (True, ''granted'')"
    "reauthorize sample_around (seq_rec []) = Inr None" "is_delegated sample_around (seq_rec []) = Inr False" by code_simp+
  then have "act ?D (seq_race []) (go_to (seq_race []) 0 (Adding ''r'' ?g None))" using seq_grants [of "[]" "''1''"] m e by metis
  then have 1: "lived ?D (seq_race [?g])" using seq_lived_next [OF seq_start] by fastforce
  have r: "result_acceptable (seq_store [?g]) ''r'' ''1'' (JStr ''p'') = Inr (True, ''ok'')" "is_delegated sample_around (seq_rec [?g]) = Inr False"
    by code_simp+
  have same: "result_event_of sample_around (seq_rec [?g]) ''1'' (seq_msg 1) = result_event_of sample_around sample_run ''1'' (seq_msg 1)"
    by (simp add: result_event_of_def sample_around_def)
  have "act ?D (seq_race [?g]) (go_to (seq_race [?g]) 0 (Adding ''r'' (result_event_of sample_around sample_run ''1'' (seq_msg 1)) None))"
    using act.accept [of "seq_race [?g]" 0 "''r''" "seq_rec [?g]" sample_around ?D "seq_msg 1"] r m same by (simp add: seq_race_def seq_run)
  then show ?thesis using seq_lived_next [OF 1] by (simp add: seq_events_def)
qed

theorem provenance_in_sequence_witness:
  "\<exists>s rec evs e. lived (\<lambda>_. False) s \<and> get_run (rc_store s) ''r'' = Some rec \<and> record_events rec = evs @ [e]
     \<and> jget e ''type'' = JStr ''granted'' \<and> jget e ''step'' = JStr ''2''
     \<and> (\<exists>r \<in> set evs. jget r ''type'' = JStr ''step_result'' \<and> jget r ''step'' = JStr (show_nat 1) \<and> jget r ''status'' = JStr ''ok'')"
proof -
  let ?D = "\<lambda>_ :: string. False" and ?e = "granted_event sample_around (seq_rec seq_events) ''2'' (JStr ''p'')"
  let ?s = "seq_race (seq_events @ [?e])" and ?rec = "seq_rec (seq_events @ [?e])"
  have "authorize_step (seq_store seq_events) ''r'' ''2'' (JStr ''p'') = Inr (True, ''granted'')"
    "reauthorize sample_around (seq_rec seq_events) = Inr None" "is_delegated sample_around (seq_rec seq_events) = Inr False"
    "step_of (seq_msg 2) = ''2''" "jget (seq_msg 2) ''plan_sha'' = JStr ''p''" by code_simp+
  then have "lived ?D ?s" by (intro seq_lived_next [OF seq_two, of 1] seq_grants [of seq_events "''2''"])
  moreover have g: "get_run (rc_store ?s) ''r'' = Some ?rec" by (simp add: seq_race_def seq_run)
  moreover have ev: "record_events ?rec = record_events (seq_rec seq_events) @ [?e]" by (simp add: seq_rec_def with_event_get)
  moreover have e: "jget ?e ''type'' = JStr ''granted''" "jget ?e ''step'' = JStr ''2''" by (simp_all add: granted_event_def jget_JObj)
  moreover have "(''r'', ?rec) \<in> set (s_runs (rc_store ?s))" using g by (auto simp: get_run_def dest: map_of_SomeD)
  ultimately obtain k where "parse_digits 0 ''2'' = Some k"
    and k: "\<forall>j \<in> {1..<k}. \<exists>r \<in> set (record_events (seq_rec seq_events)).
       jget r ''type'' = JStr ''step_result'' \<and> jget r ''step'' = JStr (show_nat j) \<and> jget r ''status'' = JStr ''ok''"
    using provenance_in_sequence [of ?D ?s "''r''" ?rec "record_events (seq_rec seq_events)" ?e "[]"] by auto
  moreover have "parse_digits 0 ''2'' = Some 2" by code_simp
  ultimately have "1 \<in> {1..<k}" by simp
  then show ?thesis using k g ev e \<open>lived ?D ?s\<close> by blast
qed

end
