(* ===== verification/Tracing.thy ===== *)
theory Tracing
  imports Runs
begin

text \<open>
  The trace of a run (\<open>src/infra/govern/tracing.py\<close>): the W3C \<open>traceparent\<close> a run carries, the span of each hop
  under it, the trace put together again from a record, and the in-toto statement of a run. Fresh identifiers
  are arguments.
\<close>

section \<open>Parse and format\<close>

definition hex_lower :: "string \<Rightarrow> bool" where
  "hex_lower s = list_all (\<lambda>c. c \<in> set ''0123456789abcdef'') s"

definition zeros :: "nat \<Rightarrow> string" where "zeros n = replicate n (CHR ''0'')"

definition parse_traceparent :: "string \<Rightarrow> (string \<times> string \<times> string) option" where
  "parse_traceparent s =
     (let t = take 32 (drop 3 s); p = take 16 (drop 36 s); f = drop 53 s
      in if length s = 55 \<and> take 3 s = ''00-'' \<and> s ! 35 = CHR ''-'' \<and> s ! 52 = CHR ''-'' \<and> hex_lower (t @ p @ f)
            \<and> t \<noteq> zeros 32 \<and> p \<noteq> zeros 16
         then Some (t, p, f) else None)"

definition format_traceparent :: "string \<Rightarrow> string \<Rightarrow> string \<Rightarrow> string" where
  "format_traceparent t p f = ''00-'' @ t @ ''-'' @ p @ ''-'' @ f"

text \<open>\<open>parse_traceparent(v or "")\<close> of any value: what is no text raises.\<close>

definition parse_value :: "json \<Rightarrow> (string \<times> string \<times> string) option res" where
  "parse_value v = (case py_or v (JStr []) of JStr s \<Rightarrow> Inr (parse_traceparent s) | _ \<Rightarrow> Inl TypeError)"

definition new_traceparent :: "string \<Rightarrow> string \<Rightarrow> string" where
  "new_traceparent t p = format_traceparent t p ''01''"

definition child_span :: "json \<Rightarrow> string \<Rightarrow> json res" where
  "child_span tp fresh =
     bindR (parse_value tp) (\<lambda>x. Inr (case x of None \<Rightarrow> JNull | Some (t, p, f) \<Rightarrow> JStr (format_traceparent t fresh f)))"

section \<open>The trace of a record\<close>

definition span_events :: "string list" where
  "span_events = [''granted'', ''step_result'', ''step_refused'']"

definition spanning :: "json \<Rightarrow> bool" where
  "spanning e = (case jget e ''type'' of JStr t \<Rightarrow> t \<in> set span_events | _ \<Rightarrow> False)"

definition hop :: "json \<Rightarrow> json res" where
  "hop e = bindR (parse_value (jget e ''span'')) (\<lambda>x.
     Inr (JObj [(''plane'', jget e ''type''), (''step'', jget e ''step''), (''status'', jget e ''status''),
                (''span_id'', case x of None \<Rightarrow> JNull | Some (t, p, f) \<Rightarrow> JStr p)]))"

definition claim_hop :: "json \<Rightarrow> string \<Rightarrow> json" where
  "claim_hop rec p = JObj [(''plane'', JStr ''claim''), (''span_id'', JStr p), (''skill'', jget rec ''skill''), (''perk'', jget rec ''perk''),
     (''decision'', jget rec ''decision'')]"

definition trace_of :: "json \<Rightarrow> json res" where
  "trace_of rec =
     bindR (parse_value (jget rec ''traceparent'')) (\<lambda>x.
       case x of
         None \<Rightarrow> Inr JNull
       | Some (t, p, f) \<Rightarrow>
           bindR (mapR hop (filter spanning (record_events rec))) (\<lambda>hops.
             Inr (JObj [(''run_id'', jget rec ''run_id''), (''trace_id'', JStr t), (''traceparent'', jget rec ''traceparent''),
                        (''spans'', JList (claim_hop rec p # hops))])))"

section \<open>The in-toto statement\<close>

definition run_predicate :: string where "run_predicate = ''https://cyberware.dev/run/v1''"

definition intoto_step :: "json \<Rightarrow> json" where
  "intoto_step e = JObj [(''step'', jget e ''step''), (''type'', jget e ''type''), (''status'', jget e ''status'')]"

definition intoto_statement :: "json \<Rightarrow> json res" where
  "intoto_statement rec =
     bindR (parse_value (jget rec ''traceparent'')) (\<lambda>x.
       Inr (JObj [(''_type'', JStr ''https://in-toto.io/Statement/v1''),
         (''subject'', JList [JObj [(''name'', JStr (py_str (jget rec ''run_id''))),
            (''digest'', JObj [(''sha256'', py_or (jget rec ''plan_sha'') (JStr []))])]]),
         (''predicateType'', JStr run_predicate),
         (''predicate'', JObj [(''run_id'', jget rec ''run_id''), (''ts'', jget rec ''ts''),
            (''trace_id'', case x of None \<Rightarrow> JNull | Some (t, p, f) \<Rightarrow> JStr t),
            (''skill'', jget rec ''skill''), (''perk'', jget rec ''perk''), (''decision'', jget rec ''decision''),
            (''principal'', jget rec ''principal''), (''plan_sha256'', py_or (jget rec ''plan_sha'') (JStr [])),
            (''steps'', JList (map intoto_step (filter spanning (record_events rec))))])]))"

section \<open>A hop stays in its trace\<close>

definition trace_ids :: "string \<Rightarrow> string \<Rightarrow> string \<Rightarrow> bool" where
  "trace_ids t p f \<longleftrightarrow> length t = 32 \<and> length p = 16 \<and> length f = 2 \<and> hex_lower t \<and> hex_lower p \<and> hex_lower f
     \<and> t \<noteq> zeros 32 \<and> p \<noteq> zeros 16"

lemma parse_format: "parse_traceparent (format_traceparent t p f) = Some (t, p, f)" if "trace_ids t p f"
  using that by (simp add: parse_traceparent_def format_traceparent_def trace_ids_def Let_def nth_append hex_lower_def)

lemma split_at: "length s = n \<Longrightarrow> i < n \<Longrightarrow> s = take i s @ s ! i # drop (Suc i) s"
  by (simp add: id_take_nth_drop)

lemma parse_shape:
  assumes "parse_traceparent s = Some (t, p, f)"
  shows "s = format_traceparent t p f \<and> trace_ids t p f"
proof -
  have l: "length s = 55" and x: "take 3 s = ''00-''" "s ! 35 = CHR ''-''" "s ! 52 = CHR ''-''"
    and d: "t = take 32 (drop 3 s)" "p = take 16 (drop 36 s)" "f = drop 53 s"
    and h: "hex_lower (t @ p @ f)" "t \<noteq> zeros 32" "p \<noteq> zeros 16"
    using assms by (auto simp: parse_traceparent_def Let_def split: if_split_asm)
  have "s = take 3 s @ take 32 (drop 3 s) @ s ! 35 # take 16 (drop 36 s) @ s ! 52 # drop 53 s"
  proof (rule nth_equalityI)
    fix i assume "i < length s"
    consider "i < 35" | "i = 35" | "35 < i" "i < 52" | "i = 52" | "52 < i" by linarith
    then show "s ! i = (take 3 s @ take 32 (drop 3 s) @ s ! 35 # take 16 (drop 36 s) @ s ! 52 # drop 53 s) ! i"
      using l \<open>i < length s\<close> by cases (auto simp: nth_append nth_Cons' min_def)
  qed (simp add: l)
  then show ?thesis using l x d h by (simp add: format_traceparent_def trace_ids_def hex_lower_def)
qed

text \<open>
  traces come back whole. The text of a traceparent is read exactly when it is the format of three
  well-formed ids, and then reads back as these; the span of a hop keeps the trace and the flags of the run;
  and for a record whose events carry spans made that way, the trace put together again has the run's trace
  id, and one entry per grant, result and refusal, in order, with the ids the hops were given.
\<close>

theorem traces_come_back:
  assumes "parse_traceparent tp = Some (t, p, f)" and "jget rec ''traceparent'' = JStr tp"
    and "record_events rec = map fst hs"
    and "\<And>e q. (e, q) \<in> set hs \<Longrightarrow> spanning e \<and> child_span (JStr tp) q = Inr (jget e ''span'') \<and> trace_ids t q f"
  shows "tp = format_traceparent t p f
    \<and> (\<forall>(e, q) \<in> set hs. parse_value (jget e ''span'') = Inr (Some (t, q, f)))
    \<and> (\<exists>tr. trace_of rec = Inr tr \<and> jget tr ''trace_id'' = JStr t
         \<and> jget tr ''spans'' = JList (claim_hop rec p # map (\<lambda>(e, q).
             JObj [(''plane'', jget e ''type''), (''step'', jget e ''step''), (''status'', jget e ''status''), (''span_id'', JStr q)]) hs))"
proof -
  have tp: "tp \<noteq> []" using assms(1) by (auto simp: parse_traceparent_def)
  have v: "parse_value (JStr tp) = Inr (Some (t, p, f))" using tp assms(1) by (simp add: parse_value_def py_or_def)
  have s: "parse_value (jget e ''span'') = Inr (Some (t, q, f))" if "(e, q) \<in> set hs" for e q
  proof -
    have "jget e ''span'' = JStr (format_traceparent t q f)" using assms(4) [OF that] v by (simp add: child_span_def)
    moreover have "parse_traceparent (format_traceparent t q f) = Some (t, q, f)" using assms(4) [OF that] parse_format by blast
    ultimately show ?thesis by (simp add: parse_value_def py_or_def) (simp add: format_traceparent_def)
  qed
  have "filter spanning (map fst hs) = map fst hs" using assms(4) by (auto simp: filter_id_conv)
  moreover have "mapR hop (map fst hs) = Inr (map (\<lambda>(e, q).
      JObj [(''plane'', jget e ''type''), (''step'', jget e ''step''), (''status'', jget e ''status''), (''span_id'', JStr q)]) hs)"
    using s
  proof (induction hs)
    case (Cons x hs)
    obtain e q where x: "x = (e, q)" by (cases x)
    have "hop e = Inr (JObj [(''plane'', jget e ''type''), (''step'', jget e ''step''), (''status'', jget e ''status''), (''span_id'', JStr q)])"
      unfolding hop_def by (subst Cons.prems [of e q]) (simp_all add: x)
    then show ?case using Cons by (simp add: x)
  qed simp
  ultimately have "trace_of rec = Inr (JObj [(''run_id'', jget rec ''run_id''), (''trace_id'', JStr t), (''traceparent'', JStr tp),
      (''spans'', JList (claim_hop rec p # map (\<lambda>(e, q).
        JObj [(''plane'', jget e ''type''), (''step'', jget e ''step''), (''status'', jget e ''status''), (''span_id'', JStr q)]) hs))])"
    by (simp add: trace_of_def assms(2,3) v)
  then show ?thesis using parse_shape [OF assms(1)] s by (auto simp: jget_JObj)
qed

text \<open>A grant and a result of one run.\<close>

theorem traces_come_back_witness:
  "\<exists>tr. trace_of (JObj [(''traceparent'', JStr (format_traceparent (zeros 31 @ ''a'') (zeros 15 @ ''1'') ''01'')),
       (''events'', JList [JObj [(''type'', JStr ''granted''), (''step'', JStr ''1''),
          (''span'', JStr (format_traceparent (zeros 31 @ ''a'') (zeros 15 @ ''2'') ''01''))]])]) = Inr tr
     \<and> jget tr ''trace_id'' = JStr (zeros 31 @ ''a'')"
proof -
  let ?t = "zeros 31 @ ''a''" and ?p = "zeros 15 @ ''1''" and ?q = "zeros 15 @ ''2''"
  let ?tp = "format_traceparent ?t ?p ''01''"
  let ?e = "JObj [(''type'', JStr ''granted''), (''step'', JStr ''1''), (''span'', JStr (format_traceparent ?t ?q ''01''))]"
  let ?rec = "JObj [(''traceparent'', JStr ?tp), (''events'', JList [?e])]"
  have i: "trace_ids ?t ?p ''01''" "trace_ids ?t ?q ''01''" by (code_simp+)
  have c: "child_span (JStr ?tp) ?q = Inr (jget ?e ''span'')"
    using parse_format [OF i(1)] by (simp add: child_span_def parse_value_def py_or_def jget_JObj) (simp add: format_traceparent_def)
  have h: "spanning e \<and> child_span (JStr ?tp) q = Inr (jget e ''span'') \<and> trace_ids ?t q ''01''" if "(e, q) \<in> set [(?e, ?q)]" for e q
    using that c i(2) by (simp add: spanning_def jget_JObj span_events_def)
  have "jget ?rec ''traceparent'' = JStr ?tp" "record_events ?rec = map fst [(?e, ?q)]"
    by (simp_all add: jget_JObj record_events_def py_or_def)
  from traces_come_back [OF parse_format [OF i(1)] this h] show ?thesis by blast
qed

end
