(* ===== verification/Intake.thy ===== *)
theory Intake
  imports Tracing Credits Store
begin

text \<open>
  The intake of claims: what the server does with a \<open>POST /govern\<close> (\<open>src/infra/govern/govd.py\<close>, \<open>do_POST\<close>), from
  the authorization header to the answer: identity, rate, body, the snapshot of the credits, the decision, the
  atomic debit, the record and its place, and the entry in the log of decisions; and the operator's top-up of an
  account (\<open>_budget_admin\<close>). What is fresh (ids, tokens, clocks) is an argument. An exception that nothing
  catches drops the connection: the answer is then \<open>None\<close>, and the state is the one reached by then.
\<close>

section \<open>State and surroundings\<close>

record intake =
  ik_store :: store
  ik_budget :: index
  ik_buckets :: "(string, bucket) dict"

record desk =
  dk_env :: gov_env
  dk_cfg :: json
  dk_reg :: registry
  dk_verifiers :: verifiers
  dk_float :: "json \<Rightarrow> rat res"
  dk_node :: string
  dk_now :: rat
  dk_ts :: string
  dk_run :: string
  dk_token :: string
  dk_trace :: string
  dk_host :: string

text \<open>
  A request: its authorization header, its content length (\<open>None\<close> when that is no number) and the bytes read of
  its body; \<open>dk_float\<close> is Python's \<open>float()\<close>, \<open>dk_node\<close> the configured name of the node.
\<close>

record post =
  po_auth :: string
  po_length :: "int option"
  po_text :: string

type_synonym reply = "nat \<times> json"

definition max_body :: int where "max_body = 1048576"

definition err :: "string \<Rightarrow> json" where "err why = JObj [(''error'', JStr why)]"

section \<open>Identity and rate\<close>

definition cfg_text :: "json \<Rightarrow> string \<Rightarrow> string" where
  "cfg_text cfg k = (case jget cfg k of JStr s \<Rightarrow> s | _ \<Rightarrow> [])"

definition quota_of :: "desk \<Rightarrow> json \<Rightarrow> (rat \<times> rat) res" where
  "quota_of D spec =
     bindR (spec_get spec ''rate'' (JInt 1)) (\<lambda>r. bindR (dk_float D r) (\<lambda>rate.
     bindR (spec_get spec ''burst'' (JInt 10)) (\<lambda>b. bindR (dk_float D b) (\<lambda>burst. Inr (rate, burst)))))"

definition throttle :: "desk \<Rightarrow> intake \<Rightarrow> string \<Rightarrow> rat \<times> rat \<Rightarrow> intake \<times> bool" where
  "throttle D ik pid q =
     (let (b, ok) = rate_ok (dget_default (ik_buckets ik) pid empty_bucket) (dk_now D) (fst q) (snd q)
      in (ik \<lparr>ik_buckets := dput pid b (ik_buckets ik)\<rparr>, ok))"

text \<open>Who is asking: a refusal, or the actor.\<close>

definition identify :: "desk \<Rightarrow> intake \<Rightarrow> post \<Rightarrow> intake \<times> (reply + string) option" where
  "identify D ik po =
     (if truthy (jget (dk_cfg D) ''acl_strict'') \<and> dk_reg D = []
      then (ik, Some (Inl (503, err ''acl_strict requires a configured principals registry'')))
      else if dk_reg D = [] then (ik, Some (Inr (if dk_node D = [] then ''local'' else dk_node D)))
      else case resolve_principal (ge_hash (dk_env D)) (dk_verifiers D) (bearer_of (po_auth po)) (dk_reg D) (cfg_text (dk_cfg D) ''auth_verifier'') of
        Inl _ \<Rightarrow> (ik, None)
      | Inr None \<Rightarrow> (ik, Some (Inl (401, err ''missing/invalid Authorization: Bearer token'')))
      | Inr (Some pid) \<Rightarrow>
          (case lookup_or_raise (dk_reg D) pid of
             Inl _ \<Rightarrow> (ik, None)
           | Inr spec \<Rightarrow>
               (case quota_of D spec of
                  Inl _ \<Rightarrow> (ik, None)
                | Inr q \<Rightarrow>
                    (case throttle D ik pid q of
                       (ik', True) \<Rightarrow> (ik', Some (Inr pid))
                     | (ik', False) \<Rightarrow> (ik', Some (Inl (429, JObj [(''error'', JStr ''rate limit exceeded''), (''principal'', JStr pid)])))))))"

section \<open>The body\<close>

definition read_ledger :: "desk \<Rightarrow> post \<Rightarrow> reply + json" where
  "read_ledger D po =
     (case po_length po of
        None \<Rightarrow> Inl (400, err ''bad request body'')
      | Some n \<Rightarrow>
          if max_body < n then Inl (413, err ''request body too large'')
          else case (if n = 0 then Some (JObj []) else ge_loads (dk_env D) (if po_text po = [] then ''{}'' else po_text po)) of
            None \<Rightarrow> Inl (400, err ''bad request body'')
          | Some j \<Rightarrow> if is_obj j then Inr j else Inl (400, err ''request body must be a JSON object (task-ledger)''))"

section \<open>The decision\<close>

definition actor_spec :: "desk \<Rightarrow> string \<Rightarrow> json" where
  "actor_spec D pid = (case dget (dk_reg D) pid of Some s \<Rightarrow> py_or s (JObj []) | None \<Rightarrow> JObj [])"

definition actor_scope :: "desk \<Rightarrow> string \<Rightarrow> json" where
  "actor_scope D pid = (if dk_reg D = [] then JNull else resolve_scope (dk_reg D) pid)"

definition metered :: "desk \<Rightarrow> string \<Rightarrow> bool" where
  "metered D pid \<longleftrightarrow> truthy (jget (dk_cfg D) ''budget_enforce'') \<and> dk_reg D \<noteq> [] \<and> configured_allowance (actor_spec D pid) \<noteq> JNull"

definition balance_seen :: "desk \<Rightarrow> intake \<Rightarrow> string \<Rightarrow> money option" where
  "balance_seen D ik pid = (if metered D pid then (case budget_balance (ik_budget ik) pid of Inr m \<Rightarrow> Some m | Inl _ \<Rightarrow> None) else None)"

definition options_for :: "desk \<Rightarrow> intake \<Rightarrow> string \<Rightarrow> gov_opts" where
  "options_for D ik pid =
     \<lparr>go_scope = actor_scope D pid, go_actor = pid, go_local_dev = truthy (jget (actor_spec D pid) ''local_dev''),
      go_tier = jget (actor_spec D pid) ''tier'', go_strict = truthy (jget (dk_cfg D) ''acl_strict''), go_now = dk_now D,
      go_budget = (truthy (jget (dk_cfg D) ''budget_enforce'') \<and> dk_reg D \<noteq> []), go_balance = balance_seen D ik pid,
      go_configured = metered D pid\<rparr>"

text \<open>The digests bound into the record; computing the first can raise.\<close>

definition acl_part :: "desk \<Rightarrow> string \<Rightarrow> json res" where
  "acl_part D pid =
     (if actor_scope D pid = JNull then Inr JNull
      else bindR (acl_sha (ge_hash (dk_env D)) (JStr pid) (jget (actor_spec D pid) ''token_sha'') (actor_scope D pid)) (\<lambda>h. Inr (JStr h)))"

definition access_part :: "desk \<Rightarrow> verdict \<Rightarrow> json \<Rightarrow> json" where
  "access_part D v ledger =
     (if truthy (jget (dk_cfg D) ''skillacl_fold'')
      then JStr (access_policy_sha (ge_hash (dk_env D))
        (case py_or (v_skill v) (jget ledger ''skill'') of JStr s \<Rightarrow> skill_policy (dk_env D) s | _ \<Rightarrow> JNull))
      else JNull)"

section \<open>The debit\<close>

definition usage_idem :: "string \<Rightarrow> string" where "usage_idem run = ''usage:'' @ run"

definition raced_out :: "verdict \<Rightarrow> json \<Rightarrow> verdict" where
  "raced_out v bal = v \<lparr>v_decision := ''reject'', v_problems := v_problems v @
     [problem ''insufficient_credits'' (JObj [(''reason'', JStr ''raced_or_unavailable''), (''balance'', bal)])]\<rparr>"

definition charge_claim :: "desk \<Rightarrow> intake \<Rightarrow> string \<Rightarrow> verdict \<Rightarrow> intake \<times> verdict" where
  "charge_claim D ik pid v =
     (if v_decision v = ''allow'' \<and> metered D pid \<and> truthy (v_cost v)
      then case bindR (money_of (case v_cost v of JStr c \<Rightarrow> AStr c | _ \<Rightarrow> AOther) ''CREDITS'') (\<lambda>price.
                  budget_debit_atomic (ik_budget ik) pid price (usage_idem (dk_run D))) of
             Inl _ \<Rightarrow> (ik, raced_out v JNull)
           | Inr (b, ans) \<Rightarrow> (ik \<lparr>ik_budget := b\<rparr>, if d_ok ans then v else raced_out v (JStr (d_balance ans)))
      else (ik, v))"

section \<open>The record\<close>

text \<open>\<open>sorted()\<close> of the keys, for texts or for integers; other mixtures raise.\<close>

definition sorted_keys :: "json list \<Rightarrow> json list res" where
  "sorted_keys ks =
     (if length ks \<le> 1 then Inr ks
      else if list_all (\<lambda>k. case k of JStr _ \<Rightarrow> True | _ \<Rightarrow> False) ks
      then Inr (map JStr (sort (map (\<lambda>k. case k of JStr s \<Rightarrow> s | _ \<Rightarrow> []) ks)))
      else if list_all (\<lambda>k. case k of JInt _ \<Rightarrow> True | _ \<Rightarrow> False) ks
      then Inr (map JInt (sort (map (\<lambda>k. case k of JInt i \<Rightarrow> i | _ \<Rightarrow> 0) ks)))
      else Inl TypeError)"

definition trace_part :: "desk \<Rightarrow> json \<Rightarrow> json res" where
  "trace_part D ledger =
     bindR (parse_value (jget ledger ''traceparent'')) (\<lambda>x. Inr (if x = None then JStr (dk_trace D) else jget ledger ''traceparent''))"

definition early :: "verdict \<Rightarrow> bool" where "early v \<longleftrightarrow> v_skill v = JNull"

definition or_false :: "verdict \<Rightarrow> json" where "or_false v = (if early v then JBool False else v_destructive v)"

definition plan_get :: "verdict \<Rightarrow> string \<Rightarrow> json \<Rightarrow> json" where
  "plan_get v k d = (if truthy (v_plan v) then jget_or (v_plan v) k d else d)"

definition run_record :: "desk \<Rightarrow> string \<Rightarrow> json \<Rightarrow> verdict \<Rightarrow> json \<Rightarrow> json list \<Rightarrow> json \<Rightarrow> json" where
  "run_record D pid ledger v acl keys tp =
     JObj [(''run_id'', JStr (dk_run D)), (''ts'', JStr (dk_ts D)), (''skill'', py_or (v_skill v) (jget ledger ''skill'')),
       (''perk'', jget ledger ''perk''), (''principal'', JStr pid), (''cost'', v_cost v),
       (''token'', if v_decision v = ''allow'' then JStr (dk_token D) else JNull), (''var_keys'', JList keys),
       (''decision'', JStr (v_decision v)), (''traceparent'', tp), (''destructive'', or_false v), (''approved'', JList (v_approved v)),
       (''cargo'', v_cargo v), (''acl_sha'', acl), (''skillacl_sha'', access_part D v ledger), (''plan_sha'', v_sha v),
       (''snippet_shas'', plan_get v ''snippet_shas'' (JObj [])), (''credential_ids'', plan_get v ''credential_ids'' (JList [])),
       (''seq'', if early v then JList [] else v_seq v), (''wrapper'', plan_get v ''wrapper'' (JStr [])), (''tlc'', v_tlc v),
       (''tlc_tla'', v_tla v), (''tlc_log'', v_log v), (''problems'', JList (v_problems v)), (''events'', JList [])]"

definition short_sha :: "json \<Rightarrow> json" where
  "short_sha v = (case py_or v (JStr []) of JStr s \<Rightarrow> JStr (take 12 s) | x \<Rightarrow> x)"

definition decision_entry :: "desk \<Rightarrow> json \<Rightarrow> verdict \<Rightarrow> json" where
  "decision_entry D rec v =
     JObj [(''run_id'', JStr (dk_run D)), (''ts'', jget rec ''ts''), (''skill'', jget rec ''skill''), (''perk'', jget rec ''perk''),
       (''principal'', jget rec ''principal''), (''cost'', v_cost v), (''decision'', JStr (v_decision v)), (''destructive'', or_false v),
       (''var_keys'', jget rec ''var_keys''), (''plan_sha'', short_sha (v_sha v)), (''tlc'', v_tlc v),
       (''problems'', JList (map (\<lambda>p. jget p ''id'') (v_problems v))), (''needs_approve'', strs (v_needs v))]"

definition answer :: "desk \<Rightarrow> verdict \<Rightarrow> json \<Rightarrow> json" where
  "answer D v tp =
     JObj ([(''run_id'', JStr (dk_run D)), (''decision'', JStr (v_decision v)), (''problems'', JList (v_problems v)),
        (''destructive'', or_false v), (''needs_approve'', strs (v_needs v)), (''plan_sha'', v_sha v), (''tlc'', v_tlc v),
        (''ws'', JStr (''ws://'' @ dk_host D @ ''/oversight'')), (''traceparent'', tp)]
       @ (if v_decision v = ''allow'' then [(''plan'', v_plan v), (''session_token'', JStr (dk_token D))] else []))"

definition code_of :: "string \<Rightarrow> nat" where
  "code_of d = (if d = ''allow'' then 200 else if d = ''push_back'' then 409 else 403)"

definition file_claim :: "desk \<Rightarrow> intake \<Rightarrow> string \<Rightarrow> json \<Rightarrow> verdict \<Rightarrow> json \<Rightarrow> intake \<times> reply option" where
  "file_claim D ik pid ledger v acl =
     (case bindR (claim_keys ledger) sorted_keys of
        Inl _ \<Rightarrow> (ik, None)
      | Inr keys \<Rightarrow>
          (case trace_part D ledger of
             Inl _ \<Rightarrow> (ik, None)
           | Inr tp \<Rightarrow>
               let rec = run_record D pid ledger v acl keys tp;
                   st = (if v_decision v = ''allow'' then create else remember) (ik_store ik) (dk_run D) rec
               in (ik \<lparr>ik_store := record_decision st (decision_entry D rec v)\<rparr>, Some (code_of (v_decision v), answer D v tp))))"

text \<open>The whole handler.\<close>

definition post_govern :: "desk \<Rightarrow> intake \<Rightarrow> post \<Rightarrow> intake \<times> reply option" where
  "post_govern D ik po =
     (case identify D ik po of
        (ik1, None) \<Rightarrow> (ik1, None)
      | (ik1, Some (Inl r)) \<Rightarrow> (ik1, Some r)
      | (ik1, Some (Inr pid)) \<Rightarrow>
          (case read_ledger D po of
             Inl r \<Rightarrow> (ik1, Some r)
           | Inr ledger \<Rightarrow>
               (case govern (dk_env D) (dk_cfg D) (options_for D ik1 pid) ledger of
                  Inl _ \<Rightarrow> (ik1, Some (400, err ''govern failed''))
                | Inr v0 \<Rightarrow>
                    (case acl_part D pid of
                       Inl _ \<Rightarrow> (ik1, None)
                     | Inr acl \<Rightarrow> (case charge_claim D ik1 pid v0 of (ik2, v) \<Rightarrow> file_claim D ik2 pid ledger v acl)))))"

section \<open>Topping up\<close>

text \<open>
  \<open>POST /budget/topup\<close>. The request carries the monitor token it presents; \<open>fresh\<close> is the random part of a
  reference the request does not name, and the budget is \<open>None\<close> on a server without one. Accounts are texts; the
  purchase of credits by card goes to the payment provider (\<open>Rails.stripe_collect\<close>) and posts nothing here.
\<close>

definition monitor_authed :: "desk \<Rightarrow> string \<Rightarrow> bool res" where
  "monitor_authed D got =
     (let want = py_str (py_or (jget (dk_cfg D) ''monitor_token'') (JStr []))
      in if want = [] then Inr False else compare_digest got want)"

definition topup_amount :: "json \<Rightarrow> money option" where
  "topup_amount raw =
     (case (case raw of JStr s \<Rightarrow> money_of (AStr s) ''CREDITS'' | JInt i \<Rightarrow> money_of (AStr (show_int i)) ''CREDITS'' | _ \<Rightarrow> Inl TypeError) of
        Inl _ \<Rightarrow> None
      | Inr m \<Rightarrow> if units m \<le> 0 then None else Some m)"

definition budget_topup :: "desk \<Rightarrow> index option \<Rightarrow> string \<Rightarrow> post \<Rightarrow> string \<Rightarrow> (index option \<times> reply) res" where
  "budget_topup D budget got po fresh =
     bindR (monitor_authed D got) (\<lambda>admin.
       if \<not> admin then Inr (budget, 403, err ''missing/invalid monitor token'')
       else case budget of
         None \<Rightarrow> Inr (None, 503, err ''budget ledger not initialized'')
       | Some b \<Rightarrow>
           (case (case po_length po of
                    None \<Rightarrow> None
                  | Some n \<Rightarrow> if n = 0 then Some (JObj []) else ge_loads (dk_env D) (if po_text po = [] then ''{}'' else po_text po)) of
              None \<Rightarrow> Inr (budget, 400, err ''bad request body'')
            | Some body0 \<Rightarrow>
                if \<not> is_obj body0 then Inl AttributeError
                else if \<not> truthy (jget body0 ''actor'') then Inr (budget, 400, err ''actor required'')
                else case jget body0 ''actor'' of
                  JStr actor \<Rightarrow>
                    (case topup_amount (jget body0 ''credits'') of
                       None \<Rightarrow> Inr (budget, 400, err ''credits must be a positive exact-decimal amount string'')
                     | Some amt \<Rightarrow>
                         let source = py_or (jget body0 ''source'') (JStr ''grant'');
                             ref = py_str (py_or (jget body0 ''ref'') (JStr (py_str source @ ''-'' @ fresh)))
                         in bindR (budget_post b actor amt (''topup:'' @ py_str source @ '':'' @ ref) (''topup:'' @ ref)) (\<lambda>(b', posted, bal).
                              Inr (Some b', 200, JObj [(''actor'', JStr actor), (''added'', JStr (amount_str amt)), (''currency'', JStr ''CREDITS''),
                                (''source'', source), (''ref'', JStr ref), (''balance'', JStr bal),
                                (''status'', JStr (if posted then ''posted'' else ''duplicate''))])))
                | _ \<Rightarrow> Inl TypeError))"

section \<open>What an answer means\<close>

lemma identify_keeps:
  assumes "identify D ik po = (ik1, r)"
  shows "ik_store ik1 = ik_store ik \<and> ik_budget ik1 = ik_budget ik"
  using assms
  by (auto simp: identify_def throttle_def Let_def split: if_split_asm sum.split_asm option.split_asm prod.split_asm bool.split_asm)

lemma identify_code: "identify D ik po = (ik1, Some (Inl (code, said))) \<Longrightarrow> code \<in> {401, 429, 503} \<and> jget said ''session_token'' = JNull"
  by (auto simp: identify_def throttle_def Let_def err_def jget_JObj split: if_split_asm sum.split_asm option.split_asm prod.split_asm bool.split_asm)

lemma read_code: "read_ledger D po = Inl (code, said) \<Longrightarrow> code \<in> {400, 413} \<and> jget said ''session_token'' = JNull"
  by (auto simp: read_ledger_def err_def jget_JObj split: if_split_asm option.split_asm)

text \<open>What a metered claim costs when it is allowed.\<close>

lemma allowed_cost:
  assumes "govern E cfg go ledger = Inr v" and "v_decision v = ''allow''" and "go_budget go"
  shows "go_configured go \<and> (\<exists>skill perk price. credit_price (ge_tree E) skill perk (jget cfg ''pricing'') = Inr price \<and> v_cost v = JStr (amount_str price))"
proof (rule verdict_judged [OF assms(1)])
  show "v_decision v \<noteq> ''reject'' \<or> v_skill v \<noteq> JNull" using assms(2) by simp
next
  fix skill perk keys approve contract bpj perks destructive
  assume "judge E cfg go ledger skill perk keys approve contract bpj destructive = Inr v"
  then obtain clear bps cost where g: "budget_gate E cfg go skill perk clear = Inr (bps, cost)" and v: "v_cost v = cost" "clear \<and> bps = []"
    using assms(2)
    by (auto simp: judge_def Let_def rejected_def simp del: not_None_eq elim!: bind_InrE split: sum.split_asm prod.split_asm if_split_asm; metis)
  then show ?thesis using assms(3) budget_gate_clear [of E cfg go skill perk cost] by auto
qed

text \<open>The credit gate is the last one: it adds the cost to what the gates before it decide.\<close>

lemma budget_gate_off: "budget_gate E cfg (go \<lparr>go_budget := False\<rparr>) skill perk free = Inr ([], JNull)"
  by (simp add: budget_gate_def)

lemma access_gates_budget: "access_gates E cfg (go \<lparr>go_budget := False\<rparr>) = access_gates E cfg go"
  by (intro ext) (simp add: access_gates_def)

lemma judge_metered:
  assumes "judge E cfg (go \<lparr>go_budget := False\<rparr>) ledger skill perk keys approve contract bpj d = Inr v"
    and "v_decision v = ''allow''" and "budget_gate E cfg go skill perk True = Inr ([], cost)"
  shows "judge E cfg go ledger skill perk keys approve contract bpj d = Inr (v \<lparr>v_cost := cost\<rparr>)"
  using assms
  by (auto simp: judge_def Let_def rejected_def budget_gate_off access_gates_budget elim!: bind_InrE split: sum.split_asm prod.split_asm if_split_asm)

text \<open>All that comes before the last gates is independent of who is asking.\<close>

definition reaches_judge :: "gov_env \<Rightarrow> json \<Rightarrow> json \<Rightarrow> (gov_opts \<Rightarrow> verdict res) \<Rightarrow> bool" where
  "reaches_judge E cfg ledger f \<longleftrightarrow>
     (\<exists>r. (\<forall>v. r = Inr v \<longrightarrow> v_decision v \<noteq> ''allow'') \<and> f = (\<lambda>_. r))
     \<or> (\<exists>skill perk keys approve contract bpj d. f = (\<lambda>go. judge E cfg go ledger skill perk keys approve contract bpj d))"

lemma reaches_judge_rules:
  "reaches_judge E cfg ledger (\<lambda>go. judge E cfg go ledger skill perk keys approve contract bpj d)"
  "reaches_judge E cfg ledger (\<lambda>_. Inr (rejected ps))"
  "(\<And>y. reaches_judge E cfg ledger (f y)) \<Longrightarrow> reaches_judge E cfg ledger (\<lambda>go. bindR x (\<lambda>y. f y go))"
  "reaches_judge E cfg ledger g \<Longrightarrow> reaches_judge E cfg ledger h \<Longrightarrow> reaches_judge E cfg ledger (\<lambda>go. if b then g go else h go)"
  "reaches_judge E cfg ledger g \<Longrightarrow> (\<And>a c d. reaches_judge E cfg ledger (k a c d)) \<Longrightarrow>
     reaches_judge E cfg ledger (\<lambda>go. case reg of None \<Rightarrow> g go | Some (a, c, d) \<Rightarrow> k a c d go)"
      apply (unfold reaches_judge_def)
      apply blast
     apply (rule disjI1, rule exI [of _ "Inr (rejected ps)"], simp add: rejected_def)
    apply (cases x)
     apply (rule disjI1, rule exI, rule conjI [rotated], rule ext, simp, simp)
    apply simp
   apply (cases b; simp)
  apply (cases reg)
   apply simp
  apply (auto split: prod.split)
  done

lemma govern_reaches_judge: "reaches_judge E cfg ledger (\<lambda>go. govern E cfg go ledger)"
  unfolding govern_def Let_def by (intro reaches_judge_rules)

lemma govern_metered:
  assumes "govern E cfg (go \<lparr>go_budget := False\<rparr>) ledger = Inr v" and "v_decision v = ''allow''"
    and "\<And>skill perk. budget_gate E cfg go skill perk True = Inr ([], cost)"
  shows "govern E cfg go ledger = Inr (v \<lparr>v_cost := cost\<rparr>)"
  using govern_reaches_judge [of E cfg ledger, unfolded reaches_judge_def] assms(1,2) judge_metered [OF _ _ assms(3)]
  by (metis (no_types, lifting))

text \<open>The debit: what it does to the accounts, and when it turns an allowance into a rejection.\<close>

definition prices_sane :: "desk \<Rightarrow> bool" where
  "prices_sane D \<longleftrightarrow> (\<forall>skill perk m. credit_price (ge_tree (dk_env D)) skill perk (jget (dk_cfg D) ''pricing'') = Inr m \<longrightarrow>
     0 \<le> units m \<and> units m < 10 ^ 28)"

lemma credit_price_currency: "credit_price T skill perk pricing = Inr m \<Longrightarrow> currency m = ''CREDITS''"
  by (auto simp: credit_price_def Let_def bindR_eq_Inr credits_cur_def dest: money_of_bounded)

lemma debit_effect:
  assumes "budget_debit_atomic b actor price idem = Inr (b', ans)" and "\<not> budget_seen b actor idem"
    and "\<bar>units price\<bar> < 10 ^ 28"
  shows "if d_ok ans then b' = budget_insert b actor (show_units (- units price)) (''usage:'' @ idem) idem
           \<and> units price \<le> actor_units b actor \<and> (\<forall>a. actor_units b' a = actor_units b a - (if a = actor then units price else 0))
         else b' = b"
proof -
  from assms(1) obtain bal where bal: "budget_balance b actor = Inr bal" by (auto simp: budget_debit_atomic_def elim!: bind_InrE)
  have u: "units bal = actor_units b actor" using budget_balance_units [OF bal] by (simp add: actor_units_def)
  have n: "money_neg price = Inr (Mny (- units price) (currency price))" using assms(3) by (rule money_neg_eq)
  show ?thesis
    using assms bal n u
    by (auto simp: budget_debit_atomic_def money_lt_eq amount_str_def actor_units_insert elim!: bind_InrE split: if_split_asm)
qed

text \<open>A price below zero, which no check of a declared price excludes, credits the one who is charged.\<close>

lemma price_below_zero_credits:
  assumes "budget_debit_atomic b actor price idem = Inr (b', ans)" and "\<not> budget_seen b actor idem" and "- (10 ^ 28) < units price"
    and "units price < 0" and "d_ok ans"
  shows "actor_units b' actor = actor_units b actor + \<bar>units price\<bar>"
proof -
  have "\<forall>a. actor_units b' a = actor_units b a - (if a = actor then units price else 0)"
    using debit_effect [OF assms(1,2)] assms(3-) by auto
  then show ?thesis using assms(4) by simp
qed

lemma charge_effect:
  assumes "charge_claim D ik pid v = (ik2, w)"
  shows "ik_store ik2 = ik_store ik \<and> v_plan w = v_plan v \<and> v_sha w = v_sha v \<and> v_skill w = v_skill v
    \<and> (v_decision w = v_decision v \<and> w = v \<or> v_decision w = ''reject'' \<and> v_decision v = ''allow'')"
  using assms
  by (auto simp: charge_claim_def raced_out_def split: if_split_asm sum.split_asm prod.split_asm)

lemma show_units_nonempty: "show_units u \<noteq> []"
  by (simp add: show_units_def Let_def)

lemma charge_accounts:
  assumes "charge_claim D ik pid v = (ik2, w)" and "govern (dk_env D) (dk_cfg D) (options_for D ik pid) ledger = Inr v"
    and "prices_sane D" and "\<not> budget_seen (ik_budget ik) pid (usage_idem (dk_run D))"
  shows "if v_decision w = ''allow'' \<and> metered D pid
    then \<exists>price. 0 \<le> units price \<and> v_cost w = JStr (amount_str price) \<and> units price \<le> actor_units (ik_budget ik) pid
        \<and> (\<forall>a. actor_units (ik_budget ik2) a = actor_units (ik_budget ik) a - (if a = pid then units price else 0))
    else ik_budget ik2 = ik_budget ik"
proof (cases "v_decision v = ''allow'' \<and> metered D pid")
  case True
  have "go_budget (options_for D ik pid)" using True by (simp add: options_for_def metered_def)
  then obtain skill perk price where p: "credit_price (ge_tree (dk_env D)) skill perk (jget (dk_cfg D) ''pricing'') = Inr price"
    "v_cost v = JStr (amount_str price)" using allowed_cost [OF assms(2)] True by blast
  have b: "0 \<le> units price" "units price < 10 ^ 28" using assms(3) p(1) unfolding prices_sane_def by blast+
  have m: "money_of (AStr (amount_str price)) ''CREDITS'' = Inr price"
    using money_of_str [of price] b credit_price_currency [OF p(1)] by simp
  have t: "truthy (v_cost v)" using p(2) by (simp add: amount_str_def show_units_nonempty)
  show ?thesis
  proof (cases "budget_debit_atomic (ik_budget ik) pid price (usage_idem (dk_run D))")
    case (Inl e)
    then have "ik2 = ik" "v_decision w = ''reject''" using assms(1) True t p(2) m by (auto simp: charge_claim_def raced_out_def)
    then show ?thesis by simp
  next
    case (Inr r)
    obtain b' ans where r: "r = (b', ans)" by (cases r)
    have e: "ik2 = ik \<lparr>ik_budget := b'\<rparr>" "w = (if d_ok ans then v else raced_out v (JStr (d_balance ans)))"
      using assms(1) True t p(2) m Inr r by (simp_all add: charge_claim_def)
    show ?thesis using debit_effect [OF Inr [unfolded r] assms(4)] e b p(2) True
      by (auto simp: raced_out_def split: if_split_asm)
  qed
next
  case False
  then show ?thesis using assms(1) charge_effect [OF assms(1)] by (auto simp: charge_claim_def)
qed

section \<open>What a top-up posts\<close>

text \<open>
  An answer 200 adds the positive amount to the one account, or reports the duplicate of a reference the account
  has seen; every other answer leaves the accounts as they are.
\<close>

lemma topup_posts_once:
  assumes "budget_topup D (Some b) got po fresh = Inr (Some b', code, said)"
  shows "b' = b \<or> (\<exists>actor ref amt memo. 0 < units amt \<and> \<not> budget_seen b actor (''topup:'' @ ref) \<and> budget_seen b' actor (''topup:'' @ ref)
     \<and> b' = budget_insert b actor (amount_str amt) memo (''topup:'' @ ref) \<and> code = 200 \<and> jget said ''ref'' = JStr ref)"
proof -
  have amt: "topup_amount raw = Some m \<Longrightarrow> 0 < units m" for raw m
    by (auto simp: topup_amount_def split: sum.split_asm if_split_asm)
  have seen: "budget_seen (budget_insert b a d m i) a i" for a d m i
    by (simp add: budget_seen_def budget_insert_def)
  have "b' = b \<or> (\<exists>actor memo ref amt posted bal. budget_post b actor amt memo (''topup:'' @ ref) = Inr (b', posted, bal)
      \<and> 0 < units amt \<and> code = 200 \<and> jget said ''ref'' = JStr ref)"
    using assms
    by (auto simp: budget_topup_def Let_def jget_JObj simp del: append.simps dest!: amt elim!: bind_InrE
        split: if_split_asm option.split_asm json.split_asm) blast+
  then show ?thesis
    using seen by (auto simp: budget_post_def Let_def simp del: append.simps elim!: bind_InrE split: if_split_asm; metis)
qed

text \<open>What filing a decided claim leaves behind.\<close>

lemma filed:
  assumes "file_claim D ik pid ledger v acl = (ik', Some (code, said))"
  obtains rec entry where "jget rec ''decision'' = JStr (v_decision v)" "jget rec ''principal'' = JStr pid" "jget rec ''cost'' = v_cost v"
    "jget rec ''token'' = (if v_decision v = ''allow'' then JStr (dk_token D) else JNull)" "jget rec ''plan_sha'' = v_sha v"
    "jget said ''plan_sha'' = v_sha v" "jget said ''session_token'' = (if v_decision v = ''allow'' then JStr (dk_token D) else JNull)"
    "code = code_of (v_decision v)" "ik_budget ik' = ik_budget ik"
    "ik_store ik' = record_decision ((if v_decision v = ''allow'' then create else remember) (ik_store ik) (dk_run D) rec) entry"
proof -
  from assms obtain keys tp where t:
    "ik_store ik' = record_decision ((if v_decision v = ''allow'' then create else remember) (ik_store ik) (dk_run D)
       (run_record D pid ledger v acl keys tp)) (decision_entry D (run_record D pid ledger v acl keys tp) v)"
    "ik_budget ik' = ik_budget ik" "code = code_of (v_decision v)" "said = answer D v tp"
    by (auto simp: file_claim_def Let_def split: sum.split_asm)
  show thesis
    by (rule that [of "run_record D pid ledger v acl keys tp" "decision_entry D (run_record D pid ledger v acl keys tp) v"])
      (use t in \<open>simp_all add: run_record_def answer_def jget_JObj\<close>)
qed

lemma filed_store:
  "s_log (record_decision (create st rid rec) entry) = s_log st @ [entry]"
  "s_log (record_decision (remember st rid rec) entry) = s_log st @ [entry]"
  "s_disk (record_decision (create st rid rec) entry) = dput rid rec (s_disk st)"
  "s_disk (record_decision (remember st rid rec) entry) = s_disk st"
  by (simp_all add: record_decision_def create_def remember_def persist_def Let_def)

text \<open>An answer is an early refusal that changes nothing, or a decided claim.\<close>

lemma post_govern_cases:
  assumes "post_govern D ik po = (ik', Some (code, said))"
  obtains (early) "ik_store ik' = ik_store ik" "ik_budget ik' = ik_budget ik" "code \<in> {400, 401, 413, 429, 503}" "jget said ''session_token'' = JNull"
  | (decided) ik1 ik2 pid ledger v w acl where "identify D ik po = (ik1, Some (Inr pid))" "read_ledger D po = Inr ledger"
      "ik_store ik1 = ik_store ik" "ik_budget ik1 = ik_budget ik"
      "govern (dk_env D) (dk_cfg D) (options_for D ik1 pid) ledger = Inr v" "charge_claim D ik1 pid v = (ik2, w)"
      "file_claim D ik2 pid ledger w acl = (ik', Some (code, said))"
proof -
  obtain ik1 who where i: "identify D ik po = (ik1, who)" by (cases "identify D ik po")
  note k = identify_keeps [OF i]
  show thesis
  proof (cases who)
    case None
    then show thesis using assms i by (simp add: post_govern_def)
  next
    case (Some w)
    show thesis
    proof (cases w)
      case (Inl r)
      then have "ik' = ik1" "r = (code, said)" using assms i Some by (auto simp: post_govern_def)
      then show thesis using early k identify_code [of D ik po ik1 code said] i Some Inl by auto
    next
      case (Inr pid)
      note g = assms [unfolded post_govern_def i Some Inr, simplified]
      show thesis
      proof (cases "read_ledger D po")
        case (Inl r)
        then show thesis using g early k read_code [of D po code said] by (cases r) auto
      next
        case (Inr ledger)
        show thesis
        proof (cases "govern (dk_env D) (dk_cfg D) (options_for D ik1 pid) ledger")
          case (Inl e)
          then show thesis using g Inr early k by (auto simp: err_def jget_JObj)
        next
          case v: (Inr v)
          then show thesis using g Inr k i Some \<open>w = Inr pid\<close> decided [of ik1 pid ledger v]
            by (auto split: sum.split_asm prod.split_asm)
        qed
      qed
    qed
  qed
qed

text \<open>
  C6: a claim is charged exactly when it is allowed. Whatever a request to the intake is answered, the code is
  one of the eight of the protocol. It is 200 exactly when a session token is handed out: then the caller is the
  principal the bearer token resolves to, the run is in its ledger on disk with that principal, that token and
  the plan digest of the answer, and a metered caller's account has paid exactly the recorded price, which it
  could afford, and no other account has changed. With any other code neither the accounts nor the ledgers on
  disk change. The log of decisions gains one entry exactly when a verdict was reached.
\<close>

theorem claim_charged_iff_allowed:
  assumes "post_govern D ik po = (ik', Some (code, said))" and "prices_sane D"
    and "\<forall>a. \<not> budget_seen (ik_budget ik) a (usage_idem (dk_run D))"
  shows "code \<in> {200, 400, 401, 403, 409, 413, 429, 503}
    \<and> (if code = 200
       then \<exists>pid rec. snd (identify D ik po) = Some (Inr pid) \<and> s_disk (ik_store ik') = dput (dk_run D) rec (s_disk (ik_store ik))
         \<and> jget rec ''decision'' = JStr ''allow'' \<and> jget rec ''principal'' = JStr pid
         \<and> jget rec ''token'' = JStr (dk_token D) \<and> jget said ''session_token'' = JStr (dk_token D)
         \<and> jget rec ''plan_sha'' = jget said ''plan_sha''
         \<and> (if metered D pid
            then \<exists>price. 0 \<le> units price \<and> jget rec ''cost'' = JStr (amount_str price) \<and> units price \<le> actor_units (ik_budget ik) pid
              \<and> (\<forall>a. actor_units (ik_budget ik') a = actor_units (ik_budget ik) a - (if a = pid then units price else 0))
            else ik_budget ik' = ik_budget ik)
       else ik_budget ik' = ik_budget ik \<and> s_disk (ik_store ik') = s_disk (ik_store ik) \<and> jget said ''session_token'' = JNull)
    \<and> length (s_log (ik_store ik')) = length (s_log (ik_store ik)) + (if code \<in> {200, 403, 409} then 1 else 0)"
proof (cases rule: post_govern_cases [OF assms(1), case_names early decided])
  case early
  then show ?thesis by auto
next
  case (decided ik1 ik2 pid ledger v w acl)
  obtain rec entry where f: "jget rec ''decision'' = JStr (v_decision w)" "jget rec ''principal'' = JStr pid" "jget rec ''cost'' = v_cost w"
    "jget rec ''token'' = (if v_decision w = ''allow'' then JStr (dk_token D) else JNull)" "jget rec ''plan_sha'' = v_sha w"
    "jget said ''plan_sha'' = v_sha w" "jget said ''session_token'' = (if v_decision w = ''allow'' then JStr (dk_token D) else JNull)"
    "code = code_of (v_decision w)" "ik_budget ik' = ik_budget ik2"
    "ik_store ik' = record_decision ((if v_decision w = ''allow'' then create else remember) (ik_store ik2) (dk_run D) rec) entry"
    by (rule filed [OF decided(7)])
  have store: "ik_store ik2 = ik_store ik" using charge_effect [OF decided(6)] decided(3) by simp
  note pay = charge_accounts [OF decided(6,5) assms(2), unfolded decided(4), OF assms(3) [rule_format]]
  show ?thesis
  proof (cases "v_decision w = ''allow''")
    case True
    then show ?thesis using f store pay decided(1) by (auto simp: code_of_def filed_store split: if_split_asm)
  next
    case False
    then show ?thesis using f store pay by (auto simp: code_of_def filed_store)
  qed
qed

text \<open>A metered principal with exactly one credit claims a run priced at one.\<close>

definition sample_desk :: desk where
  "sample_desk =
     \<lparr>dk_env = sample_env \<lparr>ge_loads := (\<lambda>t. if t = ''b'' then Some (sample_claim [JStr ''rm''] [''DIR'']) else ge_loads sample_env t)\<rparr>,
      dk_cfg = JObj [(''budget_enforce'', JBool True)],
      dk_reg = [(''ann'', JObj [(''token_sha'', JStr ''t''), (''credits'', JStr ''5''), (''acl'', JObj [(''skills'', JList [JStr ''*'']), (''perks'', JObj [(''fs'', JList [JStr ''rm''])])])])],
      dk_verifiers = [], dk_float = (\<lambda>_. Inr 1), dk_node = [], dk_now = 0, dk_ts = ''now'', dk_run = ''r1'', dk_token = ''tok'',
      dk_trace = ''00-'', dk_host = ''h''\<rparr>"

definition sample_intake :: "string \<Rightarrow> intake" where
  "sample_intake credits =
     \<lparr>ik_store = empty_store, ik_budget = budget_insert empty_index ''ann'' credits ''seed'' ''seed:ann'', ik_buckets = []\<rparr>"

definition sample_post :: post where
  "sample_post = \<lparr>po_auth = ''Bearer t'', po_length = Some 1, po_text = ''b''\<rparr>"

lemma one_credit: "money_of (AStr ''1.0000'') ''CREDITS'' = Inr (Mny 10000 ''CREDITS'')" "amount_str (Mny 10000 ''CREDITS'') = ''1.0000''"
proof -
  have s: "show_units 10000 = ''1.0000''" by code_simp
  then show "money_of (AStr ''1.0000'') ''CREDITS'' = Inr (Mny 10000 ''CREDITS'')"
    using money_of_str [of "Mny 10000 ''CREDITS''"] by (simp add: amount_str_def)
  show "amount_str (Mny 10000 ''CREDITS'') = ''1.0000''" using s by (simp add: amount_str_def)
qed

lemma sample_price:
  "credit_price (ge_tree (dk_env sample_desk)) skill perk (jget (dk_cfg sample_desk) ''pricing'') = Inr (Mny 10000 ''CREDITS'')"
proof -
  have f: "first_key (JObj []) keys = JNull" for keys by (induction keys) (simp_all add: jhas_def obj_members_def)
  have p: "jget_or (jget (dk_cfg sample_desk) ''pricing'') ''credit_prices'' (JObj []) = JObj []" by code_simp
  have e: "arg_of_json (jget_or (JObj []) ''_default'' (JStr ''1.0000'')) = AStr ''1.0000''" by code_simp
  have d: "skill_declared (ge_tree (dk_env sample_desk)) skill perk = Inr JNull"
    by (simp add: skill_declared_def sample_desk_def sample_env_def)
  show ?thesis by (simp only: credit_price_def Let_def p f d e if_True simp_thms bindR_def sum.case one_credit credits_cur_def)
qed

lemma sample_balance:
  "budget_balance (budget_insert empty_index ''ann'' ''1.0000'' ''seed'' ''seed:ann'') ''ann'' = Inr (Mny 10000 ''CREDITS'')"
proof -
  have d: "actor_deltas (budget_insert empty_index ''ann'' ''1.0000'' ''seed'' ''seed:ann'') ''ann'' = [''1.0000'']"
    by (simp add: actor_deltas_def budget_insert_def empty_index_def)
  show ?thesis unfolding budget_balance_def d budget_sum_def foldR.simps one_credit(1) bindR_Inr by (simp add: money_add_eq)
qed

lemma sample_identity: "snd (identify sample_desk (sample_intake c) sample_post) = Some (Inr ''ann'')" by code_simp

lemma sample_reading:
  "read_ledger sample_desk sample_post = Inr (sample_claim [JStr ''rm''] [''DIR''])"
  "trace_part sample_desk (sample_claim [JStr ''rm''] [''DIR'']) = Inr (JStr ''00-'')"
  "bindR (claim_keys (sample_claim [JStr ''rm''] [''DIR''])) sorted_keys = Inr [JStr ''DIR'']"
  by code_simp+

lemma sample_acl: "\<exists>acl. acl_part sample_desk ''ann'' = Inr acl"
proof -
  have "case acl_part sample_desk ''ann'' of Inl _ \<Rightarrow> False | Inr _ \<Rightarrow> True" by code_simp
  then show ?thesis by (cases "acl_part sample_desk ''ann''") auto
qed

lemma sample_unmetered:
  "decision_of (govern (dk_env sample_desk) (dk_cfg sample_desk) ((options_for sample_desk (sample_intake c) ''ann'') \<lparr>go_budget := False\<rparr>)
     (sample_claim [JStr ''rm''] [''DIR''])) = ''allow''"
  by code_simp

lemma sample_metered: "metered sample_desk ''ann''" by code_simp

theorem claim_charged_iff_allowed_witness:
  "\<exists>ik' said. post_govern sample_desk (sample_intake ''1.0000'') sample_post = (ik', Some (200, said))
     \<and> jget said ''session_token'' = JStr ''tok'' \<and> (\<exists>rec. s_disk (ik_store ik') = [(''r1'', rec)] \<and> jget rec ''principal'' = JStr ''ann'')
     \<and> actor_units (ik_budget ik') ''bob'' = 0"
proof -
  let ?D = sample_desk and ?ik = "sample_intake ''1.0000''" and ?l = "sample_claim [JStr ''rm''] [''DIR'']"
  obtain ik1 where i: "identify ?D ?ik sample_post = (ik1, Some (Inr ''ann''))" using sample_identity [of "''1.0000''"] by (metis prod.collapse)
  have k: "ik_store ik1 = ik_store ?ik" "ik_budget ik1 = ik_budget ?ik" using identify_keeps [OF i] by simp_all
  have opts: "options_for ?D ik1 ''ann'' = options_for ?D ?ik ''ann''" by (simp add: options_for_def balance_seen_def k)
  have bal: "budget_balance (ik_budget ?ik) ''ann'' = Inr (Mny 10000 ''CREDITS'')" using sample_balance by (simp add: sample_intake_def)
  obtain v where v: "govern (dk_env ?D) (dk_cfg ?D) ((options_for ?D ?ik ''ann'') \<lparr>go_budget := False\<rparr>) ?l = Inr v" "v_decision v = ''allow''"
    using sample_unmetered [of "''1.0000''"] by (auto simp: decision_of_def split: sum.splits)
  have gate: "budget_gate (dk_env ?D) (dk_cfg ?D) (options_for ?D ?ik ''ann'') skill perk True = Inr ([], JStr ''1.0000'')" for skill perk
    using sample_metered
    by (auto simp: budget_gate_def sample_price options_for_def balance_seen_def bal budget_ok_def money_lt_eq opt_problem_def one_credit metered_def)
  let ?w = "v \<lparr>v_cost := JStr ''1.0000''\<rparr>"
  have g: "govern (dk_env ?D) (dk_cfg ?D) (options_for ?D ik1 ''ann'') ?l = Inr ?w"
    unfolding opts by (rule govern_metered [OF v gate])
  obtain acl where a: "acl_part ?D ''ann'' = Inr acl" using sample_acl by blast
  have neg: "money_neg (Mny 10000 ''CREDITS'') = Inr (Mny (- 10000) ''CREDITS'')" by (simp add: money_neg_eq)
  obtain b' ans where d: "budget_debit_atomic (ik_budget ik1) ''ann'' (Mny 10000 ''CREDITS'') (usage_idem (dk_run ?D)) = Inr (b', ans)" "d_ok ans"
    unfolding k budget_debit_atomic_def bal
    by (auto simp: money_lt_eq neg money_add_eq money_sub_eq budget_seen_def sample_intake_def budget_insert_def empty_index_def usage_idem_def)
  have c: "charge_claim ?D ik1 ''ann'' ?w = (ik1 \<lparr>ik_budget := b'\<rparr>, ?w)"
    using v(2) d sample_metered by (simp add: charge_claim_def one_credit)
  obtain ik' said where p: "post_govern ?D ?ik sample_post = (ik', Some (200, said))"
    using v(2) by (auto simp: post_govern_def i sample_reading(1) g a c file_claim_def sample_reading(2,3) Let_def code_of_def)
  have n: "dk_token ?D = ''tok''" "dk_run ?D = ''r1''" "s_disk (ik_store ?ik) = []" "actor_units (ik_budget ?ik) ''bob'' = 0"
    by (simp_all add: sample_desk_def sample_intake_def empty_store_def actor_units_def actor_deltas_def budget_insert_def empty_index_def)
  have sane: "prices_sane ?D" by (simp add: prices_sane_def sample_price)
  have fresh: "\<forall>a. \<not> budget_seen (ik_budget ?ik) a (usage_idem (dk_run ?D))"
    by (simp add: budget_seen_def sample_intake_def budget_insert_def empty_index_def usage_idem_def)
  show ?thesis
    using claim_charged_iff_allowed [OF p sane fresh] p sample_identity [of "''1.0000''"] sample_metered
    by (auto simp: n)
qed
end
