(* ===== verification/Revocation.thy ===== *)
theory Revocation
  imports Principals Translog
begin

text \<open>
  Revocation and key rotation: the signed revocation feed (\<open>src/infra/cwp/revocation.py\<close>), its availability tiers
  (\<open>feed_tiers.py\<close>), the runner that consults it between steps (\<open>revoke_inflight.py\<close>), and the grants of rotating
  keys (\<open>keyrotation.py\<close>). Envelopes and signatures are those of \<open>Envelope\<close>; a key file is the key it holds; the
  clock and the last accepted sequence number are arguments, as in the code.
\<close>

section \<open>The feed\<close>

definition feed_type :: string where "feed_type = ''application/vnd.cyberware.revocation+json''"

definition default_max_age :: int where "default_max_age = 3600"

definition feed_body :: "int \<Rightarrow> string list \<Rightarrow> int \<Rightarrow> int \<Rightarrow> json" where
  "feed_body s revoked issued ttl =
     JObj [(''seq'', JInt s), (''issued'', JInt issued), (''expires'', JInt (issued + ttl)),
           (''revoked'', JList (map JStr (sort (remdups revoked))))]"

definition sign_feed :: "crypto \<Rightarrow> int \<Rightarrow> string list \<Rightarrow> int \<Rightarrow> int \<Rightarrow> string \<Rightarrow> json" where
  "sign_feed K s revoked issued ttl priv = sign_ph K (canonicalize (feed_body s revoked issued ttl)) priv feed_type ''publisher-root''"

datatype feed_reason = FeedOk | FeedWrongType | FeedBadSignature | FeedStale | FeedRollback

text \<open>\<open>body[k]\<close> on a decoded body, as a number.\<close>

definition number_at :: "json \<Rightarrow> string \<Rightarrow> int res" where
  "number_at b k = (if is_obj b then bindR (item b k) index_of else Inl TypeError)"

definition verify_feed :: "crypto \<Rightarrow> json \<Rightarrow> int \<Rightarrow> int \<Rightarrow> int \<Rightarrow> string \<Rightarrow> (feed_reason \<times> json) res" where
  "verify_feed K feed now last_seq max_age pub =
     (if \<not> is_obj feed \<or> jget feed ''payloadType'' \<noteq> JStr feed_type then Inr (FeedWrongType, JNull)
      else if \<not> truthy (jget feed ''signatures'') then Inr (FeedBadSignature, JNull)
      else bindR (verify_ph K feed pub) (\<lambda>ok.
        if \<not> ok then Inr (FeedBadSignature, JNull)
        else case decode_payload K feed of
          None \<Rightarrow> Inr (FeedBadSignature, JNull)
        | Some b \<Rightarrow>
            if b = JNull then Inr (FeedBadSignature, JNull)
            else bindR (number_at b ''expires'') (\<lambda>expires.
              if expires < now then Inr (FeedStale, b)
              else bindR (number_at b ''issued'') (\<lambda>issued.
                if max_age < now - issued then Inr (FeedStale, b)
                else bindR (number_at b ''seq'') (\<lambda>s.
                  if s \<le> last_seq then Inr (FeedRollback, b) else Inr (FeedOk, b))))))"

definition lists :: "json \<Rightarrow> string \<Rightarrow> bool res" where
  "lists b artifact = bindR (item b ''revoked'') (py_in artifact)"

definition is_revoked :: "crypto \<Rightarrow> json \<Rightarrow> string \<Rightarrow> int \<Rightarrow> int \<Rightarrow> int \<Rightarrow> string \<Rightarrow> bool res" where
  "is_revoked K feed artifact now last_seq max_age pub =
     bindR (verify_feed K feed now last_seq max_age pub) (\<lambda>(r, b). if r = FeedOk then lists b artifact else Inr False)"

datatype revocation = Refused feed_reason | Revoked | Allowed int

definition allows :: "revocation \<Rightarrow> bool" where
  "allows d = (case d of Allowed _ \<Rightarrow> True | _ \<Rightarrow> False)"

definition revocation_decision :: "crypto \<Rightarrow> json \<Rightarrow> string \<Rightarrow> int \<Rightarrow> int \<Rightarrow> int \<Rightarrow> string \<Rightarrow> revocation res" where
  "revocation_decision K feed artifact now last_seq max_age pub =
     bindR (verify_feed K feed now last_seq max_age pub) (\<lambda>(r, b).
       if r \<noteq> FeedOk then Inr (Refused r)
       else bindR (lists b artifact) (\<lambda>listed.
         if listed then Inr Revoked else bindR (number_at b ''seq'') (\<lambda>s. Inr (Allowed s))))"

section \<open>Availability tiers\<close>

datatype tier = Fresh | Grace1 | Grace2 | Expired

definition tier_for :: "int \<Rightarrow> int \<Rightarrow> int \<Rightarrow> int \<Rightarrow> tier" where
  "tier_for age max_age grace1 grace2 =
     (if age \<le> max_age then Fresh
      else if age \<le> max_age + grace1 then Grace1
      else if age \<le> max_age + grace1 + grace2 then Grace2
      else Expired)"

datatype tier_verdict = TierWrongType | TierBadSignature | TierExpired | TierRevoked tier | TierDestructive tier | TierOk tier

definition tier_decision :: "crypto \<Rightarrow> json \<Rightarrow> bool \<Rightarrow> int \<Rightarrow> int \<Rightarrow> int \<Rightarrow> int \<Rightarrow> string option \<Rightarrow> string \<Rightarrow> tier_verdict res" where
  "tier_decision K feed destructive now max_age grace1 grace2 artifact pub =
     (if \<not> is_obj feed \<or> jget feed ''payloadType'' \<noteq> JStr feed_type then Inr TierWrongType
      else if \<not> truthy (jget feed ''signatures'') then Inr TierBadSignature
      else bindR (verify_ph K feed pub) (\<lambda>ok.
        if \<not> ok then Inr TierBadSignature
        else case decode_payload K feed of
          None \<Rightarrow> Inr TierBadSignature
        | Some b \<Rightarrow>
            bindR (number_at b ''issued'') (\<lambda>issued.
              let t = tier_for (now - issued) max_age grace1 grace2
              in if t = Expired then Inr TierExpired
                 else bindR (case artifact of None \<Rightarrow> Inr False | Some a \<Rightarrow> py_in a (jget_or b ''revoked'' (JList []))) (\<lambda>listed.
                   if listed then Inr (TierRevoked t)
                   else if (t = Grace1 \<or> t = Grace2) \<and> destructive then Inr (TierDestructive t)
                   else Inr (TierOk t)))))"

section \<open>A run under revocation\<close>

datatype inflight = Completed nat | HaltedRevoked nat | KilledCritical nat

definition steps_done :: "inflight \<Rightarrow> nat" where
  "steps_done r = (case r of Completed n \<Rightarrow> n | HaltedRevoked n \<Rightarrow> n | KilledCritical n \<Rightarrow> n)"

text \<open>The loop over the remaining steps; \<open>ask\<close> is the decision on a feed.\<close>

fun inflight_loop :: "(json \<Rightarrow> revocation res) \<Rightarrow> json \<Rightarrow> json \<Rightarrow> int \<Rightarrow> bool \<Rightarrow> nat list \<Rightarrow> nat \<Rightarrow> inflight res" where
  "inflight_loop ask clean revoking effective critical [] completed = Inr (Completed completed)"
| "inflight_loop ask clean revoking effective critical (i # ks) completed =
     bindR (ask (if effective < int i then revoking else clean)) (\<lambda>d.
       if \<not> allows d then Inr (HaltedRevoked completed)
       else if int i = effective \<and> critical
       then bindR (ask revoking) (\<lambda>d'.
              if \<not> allows d' then Inr (KilledCritical completed)
              else inflight_loop ask clean revoking effective critical ks (completed + 1))
       else inflight_loop ask clean revoking effective critical ks (completed + 1))"

definition run_inflight ::
  "crypto \<Rightarrow> nat \<Rightarrow> string \<Rightarrow> json \<Rightarrow> json \<Rightarrow> int \<Rightarrow> int \<Rightarrow> string \<Rightarrow> bool \<Rightarrow> int \<Rightarrow> inflight res" where
  "run_inflight K n artifact clean revoking effective now pub critical last_seq =
     inflight_loop (\<lambda>feed. revocation_decision K feed artifact now last_seq default_max_age pub) clean revoking effective critical [0..<n] 0"

section \<open>Rotating keys\<close>

definition kid :: "crypto \<Rightarrow> string \<Rightarrow> string" where
  "kid K pem = ''key:'' @ take 32 (sha_hex K pem)"

definition grant_type :: string where "grant_type = ''application/vnd.cyberware.grant+json''"

definition sign_grant :: "crypto \<Rightarrow> json \<Rightarrow> string \<Rightarrow> string \<Rightarrow> json" where
  "sign_grant K doc priv signer = sign_ph K (canonicalize doc) priv grant_type signer"

text \<open>\<open>(grant.get("signatures") or [{}])[0].get("keyid")\<close>\<close>

definition signer_of :: "json \<Rightarrow> json res" where
  "signer_of grant =
     (if \<not> is_obj grant then Inl AttributeError
      else case py_or (jget grant ''signatures'') (JList [JObj []]) of
        JList (s # _) \<Rightarrow> if is_obj s then Inr (jget s ''keyid'') else Inl AttributeError
      | JStr _ \<Rightarrow> Inl AttributeError
      | JObj _ \<Rightarrow> Inl KeyError
      | _ \<Rightarrow> Inl TypeError)"

datatype key_verdict = UnknownKey | KeyBadSignature | KeyRevoked | KeyOk string

definition verify_key_grant :: "crypto \<Rightarrow> json \<Rightarrow> (string, string) dict \<Rightarrow> int \<Rightarrow> json option \<Rightarrow> string \<Rightarrow> key_verdict res" where
  "verify_key_grant K grant valid_keys now feed pub =
     bindR (signer_of grant) (\<lambda>signer.
       case signer of
         JStr k \<Rightarrow>
           (case dget valid_keys k of
              None \<Rightarrow> Inr UnknownKey
            | Some pem \<Rightarrow>
                bindR (verify_ph K grant pem) (\<lambda>ok.
                  if \<not> ok then Inr KeyBadSignature
                  else case feed of
                    None \<Rightarrow> Inr (KeyOk k)
                  | Some f \<Rightarrow>
                      bindR (revocation_decision K f k now 0 default_max_age pub) (\<lambda>d.
                        if \<not> allows d then Inr KeyRevoked else Inr (KeyOk k))))
       | JList _ \<Rightarrow> Inl TypeError
       | JObj _ \<Rightarrow> Inl TypeError
       | _ \<Rightarrow> Inr UnknownKey)"

definition rotation_body :: "crypto \<Rightarrow> string \<Rightarrow> string \<Rightarrow> string \<Rightarrow> json" where
  "rotation_body K old_kid new_kid new_pub =
     JObj [(''event'', JStr ''key_rotation''), (''old'', JStr old_kid), (''new'', JStr new_kid), (''new_pub_sha'', JStr (sha_hex K new_pub))]"

definition cross_sign_rotation :: "crypto \<Rightarrow> string \<Rightarrow> string \<Rightarrow> string \<Rightarrow> string \<Rightarrow> string \<Rightarrow> json" where
  "cross_sign_rotation K old_priv old_kid new_priv new_kid new_pub =
     (let b = rotation_body K old_kid new_kid new_pub; payload = canonicalize b
      in JObj [(''body'', b), (''sig_old'', JStr (hex_text (ph_sign K payload old_priv))),
               (''sig_new'', JStr (hex_text (ph_sign K payload new_priv)))])"

definition hex_item :: "json \<Rightarrow> string \<Rightarrow> string res" where
  "hex_item r k = bindR (item r k) (\<lambda>v. case v of JStr t \<Rightarrow> from_hex t | _ \<Rightarrow> Inl TypeError)"

definition verify_rotation :: "crypto \<Rightarrow> json \<Rightarrow> string \<Rightarrow> string \<Rightarrow> bool res" where
  "verify_rotation K record old_pub new_pub =
     (if \<not> is_obj record then Inl TypeError
      else bindR (item record ''body'') (\<lambda>b.
        let payload = canonicalize b
        in bindR (hex_item record ''sig_old'') (\<lambda>s.
             if \<not> ph_verify K payload s old_pub then Inr False
             else bindR (hex_item record ''sig_new'') (\<lambda>t. Inr (ph_verify K payload t new_pub)))))"

section \<open>What an accepted feed is\<close>

lemma verify_feed_ok:
  assumes "verify_feed K feed now last_seq max_age pub = Inr (FeedOk, b)"
  shows "\<exists>expires issued s. verify_ph K feed pub = Inr True \<and> jget feed ''payloadType'' = JStr feed_type \<and> decode_payload K feed = Some b
    \<and> number_at b ''expires'' = Inr expires \<and> now \<le> expires \<and> number_at b ''issued'' = Inr issued \<and> now - issued \<le> max_age
    \<and> number_at b ''seq'' = Inr s \<and> last_seq < s"
  using assms by (auto simp: verify_feed_def bindR_eq_Inr not_less not_le split: if_split_asm option.split_asm)

lemma allowed_feed:
  assumes "revocation_decision K feed artifact now last_seq max_age pub = Inr (Allowed s)"
  shows "\<exists>b. verify_feed K feed now last_seq max_age pub = Inr (FeedOk, b) \<and> lists b artifact = Inr False \<and> number_at b ''seq'' = Inr s \<and> last_seq < s"
  using assms
  by (auto simp: revocation_decision_def bindR_eq_Inr split: if_split_asm prod.split_asm dest: verify_feed_ok)

text \<open>A published feed, within its time, allows exactly what it does not list.\<close>

lemma published_feed:
  assumes "\<And>s. b64d K (b64e K s) = Some s" and "\<And>m. ph_verify K m (ph_sign K m priv) pub"
    and "parse K (canonicalize (feed_body s revoked issued ttl)) = Some (jnorm (feed_body s revoked issued ttl))"
    and "now \<le> issued + ttl" and "now - issued \<le> max_age" and "last_seq < s"
  shows "revocation_decision K (sign_feed K s revoked issued ttl priv) artifact now last_seq max_age pub
    = Inr (if artifact \<in> set revoked then Revoked else Allowed s)"
proof -
  let ?b = "jnorm (feed_body s revoked issued ttl)"
  have n: "number_at ?b ''expires'' = Inr (issued + ttl)" "number_at ?b ''issued'' = Inr issued" "number_at ?b ''seq'' = Inr s" "?b \<noteq> JNull"
    "lists ?b artifact = Inr (artifact \<in> set revoked)"
    by (auto simp: number_at_def feed_body_def is_obj_def item_def obj_members_def index_of_def lists_def py_in_def)
  have v: "verify_feed K (sign_feed K s revoked issued ttl priv) now last_seq max_age pub = Inr (FeedOk, ?b)"
    using assms n by (simp add: verify_feed_def sign_feed_def sign_ph_fields verify_ph_signed decode_signed)
  show ?thesis unfolding revocation_decision_def v by (simp add: n)
qed

text \<open>
  The tiers read the issue date only: neither the expiry nor the sequence number of a published feed plays a part,
  and one issued in the future counts as fresh.
\<close>

lemma published_tier:
  assumes "\<And>s. b64d K (b64e K s) = Some s" and "\<And>m. ph_verify K m (ph_sign K m priv) pub"
    and "parse K (canonicalize (feed_body s revoked issued ttl)) = Some (jnorm (feed_body s revoked issued ttl))"
  shows "tier_decision K (sign_feed K s revoked issued ttl priv) destructive now max_age grace1 grace2 (Some artifact) pub =
    Inr (let t = tier_for (now - issued) max_age grace1 grace2
         in if t = Expired then TierExpired else if artifact \<in> set revoked then TierRevoked t
            else if t \<noteq> Fresh \<and> destructive then TierDestructive t else TierOk t)"
proof -
  let ?b = "jnorm (feed_body s revoked issued ttl)"
  have n: "number_at ?b ''issued'' = Inr issued" "py_in artifact (jget_or ?b ''revoked'' (JList [])) = Inr (artifact \<in> set revoked)"
    by (auto simp: number_at_def feed_body_def is_obj_def item_def obj_members_def index_of_def jget_or_def py_in_def)
  have t: "t = Grace1 \<or> t = Grace2 \<longleftrightarrow> t \<noteq> Fresh \<and> t \<noteq> Expired" for t by (cases t) auto
  show ?thesis using assms n by (simp add: tier_decision_def sign_feed_def sign_ph_fields verify_ph_signed decode_signed Let_def t)
qed

lemma tiers_degrade: "age' \<le> age \<Longrightarrow> 0 \<le> grace1 \<Longrightarrow> 0 \<le> grace2 \<Longrightarrow> tier_for age max_age grace1 grace2 = Fresh \<Longrightarrow> tier_for age' max_age grace1 grace2 = Fresh"
  "age' \<le> age \<Longrightarrow> tier_for age max_age grace1 grace2 \<noteq> Expired \<Longrightarrow> 0 \<le> grace1 \<Longrightarrow> 0 \<le> grace2 \<Longrightarrow> tier_for age' max_age grace1 grace2 \<noteq> Expired"
  by (auto simp: tier_for_def split: if_split_asm)

section \<open>Runs\<close>

lemma inflight_refused:
  "ks \<noteq> [] \<Longrightarrow> \<forall>i \<in> set ks. effective < int i \<Longrightarrow> ask revoking = Inr d \<Longrightarrow> \<not> allows d \<Longrightarrow>
   inflight_loop ask clean revoking effective critical ks c = Inr (HaltedRevoked c)"
  by (cases ks) auto

lemma inflight_clean:
  "\<forall>i \<in> set ks. int i < effective \<Longrightarrow> ask clean = Inr d \<Longrightarrow> allows d \<Longrightarrow>
   inflight_loop ask clean revoking effective critical (ks @ js) c = inflight_loop ask clean revoking effective critical js (c + length ks)"
  by (induction ks arbitrary: c) auto

text \<open>
  C13: a revocation takes effect during a run. When the feed a run started under allows its artifact and the feed
  published during step \<open>e\<close> does not, for whatever reason it refuses (listed, stale, rolled back, forged),
  the run stops: an ordinary revocation lets the step in progress finish and refuses the next request, a critical
  one aborts the step in progress, so it stops one step earlier. A run that ends before is not affected, and a run
  whose first feed is refused does no step at all.
\<close>

theorem revocation_stops_run:
  assumes "revocation_decision K revoking artifact now last_seq default_max_age pub = Inr d" and "\<not> allows d"
  shows "(revocation_decision K clean artifact now last_seq default_max_age pub = Inr (Allowed s) \<longrightarrow>
      run_inflight K n artifact clean revoking (int e) now pub critical last_seq =
        Inr (if n \<le> e then Completed n else if critical then KilledCritical e
             else if n = e + 1 then Completed n else HaltedRevoked (e + 1)))
    \<and> (0 < n \<longrightarrow> run_inflight K n artifact revoking revoking (int e) now pub critical last_seq = Inr (HaltedRevoked 0))"
proof -
  let ?g = "\<lambda>feed. revocation_decision K feed artifact now last_seq default_max_age pub"
  have "run_inflight K n artifact clean revoking (int e) now pub critical last_seq =
        Inr (if n \<le> e then Completed n else if critical then KilledCritical e
             else if n = e + 1 then Completed n else HaltedRevoked (e + 1))"
    if a: "?g clean = Inr (Allowed s)"
  proof (cases "n \<le> e")
    case True
    then show ?thesis
      using inflight_clean [of "[0..<n]" "int e" ?g clean "Allowed s" revoking critical "[]" 0] a
      by (simp add: run_inflight_def allows_def)
  next
    case False
    then have "[0..<n] = [0..<e] @ e # [e + 1..<n]"
      using upt_add_eq_append [of 0 e "n - e"] by (simp add: upt_conv_Cons)
    then have r: "run_inflight K n artifact clean revoking (int e) now pub critical last_seq =
        inflight_loop ?g clean revoking (int e) critical (e # [e + 1..<n]) e"
      using inflight_clean [of "[0..<e]" "int e" ?g clean "Allowed s" revoking critical "e # [e + 1..<n]" 0] a
      by (simp add: run_inflight_def allows_def)
    have rest: "inflight_loop ?g clean revoking (int e) critical [e + 1..<n] (e + 1) =
        Inr (if n = e + 1 then Completed n else HaltedRevoked (e + 1))"
      using inflight_refused [of "[e + 1..<n]" "int e" ?g revoking d] assms False by auto
    show ?thesis using False a assms rest unfolding r by (cases critical) (simp_all add: allows_def)
  qed
  moreover have "0 < n \<Longrightarrow> run_inflight K n artifact revoking revoking (int e) now pub critical last_seq = Inr (HaltedRevoked 0)"
    using assms by (simp add: run_inflight_def upt_conv_Cons)
  ultimately show ?thesis by blast
qed

text \<open>Two published feeds, the second of which lists the artifact of a run.\<close>

definition feed_crypto :: "json \<Rightarrow> json \<Rightarrow> crypto" where
  "feed_crypto b b' = toy_crypto \<lparr>parse := (\<lambda>t. Some (jnorm (if t = canonicalize b then b else b')))\<rparr>"

lemma feed_crypto_rules:
  "b64d (feed_crypto b b') (b64e (feed_crypto b b') t) = Some t"
  "ph_verify (feed_crypto b b') m (ph_sign (feed_crypto b b') m k) k"
  "parse (feed_crypto b b') (canonicalize b) = Some (jnorm b)"
  "canonicalize b \<noteq> canonicalize b' \<Longrightarrow> parse (feed_crypto b b') (canonicalize b') = Some (jnorm b')"
  by (simp_all add: feed_crypto_def toy_crypto_def)

theorem revocation_stops_run_witness:
  "\<exists>K clean revoking. run_inflight K 5 ''x'' clean revoking 2 1 ''root'' False 0 = Inr (HaltedRevoked 3)
     \<and> run_inflight K 5 ''x'' clean revoking 2 1 ''root'' True 0 = Inr (KilledCritical 2)
     \<and> run_inflight K 5 ''x'' revoking revoking 2 1 ''root'' True 0 = Inr (HaltedRevoked 0)"
proof -
  let ?b = "feed_body 1 [] 0 10" and ?b' = "feed_body 2 [''x''] 0 10"
  let ?K = "feed_crypto ?b ?b'"
  have ne: "canonicalize ?b \<noteq> canonicalize ?b'" by code_simp
  have c: "revocation_decision ?K (sign_feed ?K 1 [] 0 10 ''root'') ''x'' 1 0 default_max_age ''root'' = Inr (Allowed 1)"
    by (subst published_feed) (simp_all add: feed_crypto_rules default_max_age_def)
  have r: "revocation_decision ?K (sign_feed ?K 2 [''x''] 0 10 ''root'') ''x'' 1 0 default_max_age ''root'' = Inr Revoked"
    by (subst published_feed) (simp_all add: feed_crypto_rules ne default_max_age_def)
  have n: "\<not> allows Revoked" by (simp add: allows_def)
  show ?thesis
    using revocation_stops_run [OF r n, of "sign_feed ?K 1 [] 0 10 ''root''" 1 5 2 False]
      revocation_stops_run [OF r n, of "sign_feed ?K 1 [] 0 10 ''root''" 1 5 2 True] c by auto
qed

section \<open>Keys in rotation\<close>

lemma signer_signed [simp]: "signer_of (sign_ph K payload priv pt k) = Inr (JStr k)"
  by (simp add: signer_of_def sign_ph_def mk_envelope_def is_obj_def jget_JObj py_or_def)

lemma key_grant_signed:
  assumes "\<And>s. b64d K (b64e K s) = Some s" and "dget valid_keys k = Some pem" and "\<And>m. ph_verify K m (ph_sign K m priv) pem"
  shows "verify_key_grant K (sign_grant K doc priv k) valid_keys now feed pub =
    (case feed of None \<Rightarrow> Inr (KeyOk k)
     | Some f \<Rightarrow> bindR (revocation_decision K f k now 0 default_max_age pub) (\<lambda>d. if \<not> allows d then Inr KeyRevoked else Inr (KeyOk k)))"
  using assms by (simp add: verify_key_grant_def sign_grant_def verify_ph_signed)

text \<open>
  keys rotate without a gap and without a leftover. The rotation record verifies under both keys; while both
  are valid a grant of either is honoured; and once a published feed lists the old key, its grants are refused
  and those of the new key still honoured. Assumed are a base64, a parser and a signature scheme that read back what
  was written.
\<close>

theorem rotation_overlaps_then_revokes:
  assumes "\<And>s. b64d K (b64e K s) = Some s"
    and "\<And>m. ph_verify K m (ph_sign K m old_priv) old_pub" and "\<And>m. ph_verify K m (ph_sign K m new_priv) new_pub"
    and "\<And>m. ph_verify K m (ph_sign K m root_priv) root_pub"
    and "parse K (canonicalize (feed_body s [old_kid] issued ttl)) = Some (jnorm (feed_body s [old_kid] issued ttl))"
    and "old_kid \<noteq> new_kid" and "0 < s" and "now \<le> issued + ttl" and "now - issued \<le> default_max_age"
  shows "verify_rotation K (cross_sign_rotation K old_priv old_kid new_priv new_kid new_pub) old_pub new_pub = Inr True
    \<and> (\<forall>doc. let keys = [(old_kid, old_pub), (new_kid, new_pub)]; feed = sign_feed K s [old_kid] issued ttl root_priv;
               old = sign_grant K doc old_priv old_kid; new = sign_grant K doc new_priv new_kid
           in verify_key_grant K old keys now None root_pub = Inr (KeyOk old_kid)
              \<and> verify_key_grant K new keys now None root_pub = Inr (KeyOk new_kid)
              \<and> verify_key_grant K old keys now (Some feed) root_pub = Inr KeyRevoked
              \<and> verify_key_grant K new keys now (Some feed) root_pub = Inr (KeyOk new_kid))"
proof -
  have feed: "revocation_decision K (sign_feed K s [old_kid] issued ttl root_priv) k now 0 default_max_age root_pub
      = Inr (if k = old_kid then Revoked else Allowed s)" for k
    using published_feed [of K root_priv root_pub s "[old_kid]" issued ttl now default_max_age 0 k] assms by auto
  have "verify_rotation K (cross_sign_rotation K old_priv old_kid new_priv new_kid new_pub) old_pub new_pub = Inr True"
    using assms(2,3) by (simp add: verify_rotation_def cross_sign_rotation_def Let_def is_obj_def item_def obj_members_def hex_item_def)
  then show ?thesis
    using assms(6) by (simp add: Let_def key_grant_signed [OF assms(1) _ assms(2)] key_grant_signed [OF assms(1) _ assms(3)] feed allows_def)
qed

theorem rotation_overlaps_then_revokes_witness:
  "\<exists>K feed. verify_rotation K (cross_sign_rotation K ''a'' ''ka'' ''b'' ''kb'' ''b'') ''a'' ''b'' = Inr True
     \<and> verify_key_grant K (sign_grant K JNull ''a'' ''ka'') [(''ka'', ''a''), (''kb'', ''b'')] 1 (Some feed) ''root'' = Inr KeyRevoked
     \<and> verify_key_grant K (sign_grant K JNull ''b'' ''kb'') [(''ka'', ''a''), (''kb'', ''b'')] 1 (Some feed) ''root'' = Inr (KeyOk ''kb'')"
proof -
  let ?b = "feed_body 1 [''ka''] 0 10"
  let ?K = "feed_crypto ?b ?b"
  show ?thesis
    using rotation_overlaps_then_revokes [of ?K "''a''" "''a''" "''b''" "''b''" "''root''" "''root''" 1 "''ka''" 0 10 "''kb''" 1]
    by (auto simp: feed_crypto_rules default_max_age_def Let_def)
qed

text \<open>
  The grant gate pins no sequence number, so an older published feed that is still fresh undoes a revocation: the key
  a newer feed lists is honoured again.
\<close>

lemma older_feed_restores_key:
  assumes "\<And>s. b64d K (b64e K s) = Some s" and "\<And>m. ph_verify K m (ph_sign K m priv) pem" and "\<And>m. ph_verify K m (ph_sign K m root_priv) root_pub"
    and "\<And>s. s \<in> {older, newer} \<Longrightarrow> parse K (canonicalize (feed_body s (if s = newer then [k] else []) issued ttl))
           = Some (jnorm (feed_body s (if s = newer then [k] else []) issued ttl))"
    and "0 < older" and "older < newer" and "now \<le> issued + ttl" and "now - issued \<le> default_max_age"
  shows "verify_key_grant K (sign_grant K doc priv k) [(k, pem)] now (Some (sign_feed K newer [k] issued ttl root_priv)) root_pub = Inr KeyRevoked"
    and "verify_key_grant K (sign_grant K doc priv k) [(k, pem)] now (Some (sign_feed K older [] issued ttl root_priv)) root_pub = Inr (KeyOk k)"
proof -
  have p: "parse K (canonicalize (feed_body newer [k] issued ttl)) = Some (jnorm (feed_body newer [k] issued ttl))"
    "parse K (canonicalize (feed_body older [] issued ttl)) = Some (jnorm (feed_body older [] issued ttl))"
    using assms(4) [of newer] assms(4) [of older] assms(6) by simp_all
  show "verify_key_grant K (sign_grant K doc priv k) [(k, pem)] now (Some (sign_feed K newer [k] issued ttl root_priv)) root_pub = Inr KeyRevoked"
    using assms(5-) by (simp add: key_grant_signed [OF assms(1) _ assms(2)] published_feed [OF assms(1,3) p(1)] allows_def)
  show "verify_key_grant K (sign_grant K doc priv k) [(k, pem)] now (Some (sign_feed K older [] issued ttl root_priv)) root_pub = Inr (KeyOk k)"
    using assms(5-) by (simp add: key_grant_signed [OF assms(1) _ assms(2)] published_feed [OF assms(1,3) p(2)] allows_def)
qed

end
