(* ===== verification/Release.thy ===== *)
theory Release
  imports Principals Translog
begin

text \<open>
  Releases: the publisher's signature over the chip's manifest (\<open>src/infra/cwp/release.py\<close>), the engine attestation
  and the mutual handshake (\<open>engineattest.py\<close>), and the governed release receipt with its transparency proof
  (\<open>publish.py\<close>). The index of a chip is the JSON value read from its file; a binary is the string of its bytes;
  signatures are those of \<open>Envelope\<close> and proofs those of \<open>Translog\<close>.
\<close>

section \<open>The chip release\<close>

definition release_type :: string where "release_type = ''application/vnd.cyberware.release+json''"

definition entry_points :: "string list" where
  "entry_points = [''chipfetch'', ''govd_boot'', ''exod_run'']"

text \<open>\<open>{s["skill"]: s.get("skill_sha") for s in skills}\<close>, for skills named by texts.\<close>

definition skill_pin :: "json \<Rightarrow> (string \<times> json) res" where
  "skill_pin s =
     (if \<not> is_obj s then Inl TypeError
      else bindR (item s ''skill'') (\<lambda>k. case k of JStr name \<Rightarrow> Inr (name, jget s ''skill_sha'') | _ \<Rightarrow> Inl TypeError))"

definition skill_pins :: "json list \<Rightarrow> (string, json) dict res" where
  "skill_pins skills = foldR (\<lambda>d s. bindR (skill_pin s) (\<lambda>(k, v). Inr (dput k v d))) [] skills"

definition release_manifest :: "json \<Rightarrow> json res" where
  "release_manifest idx =
     (if \<not> is_obj idx then Inl AttributeError
      else bindR (iterate (py_or (jget idx ''skills'') (JList []))) (\<lambda>skills.
           bindR (skill_pins skills) (\<lambda>pins. Inr (JObj [(''chip_sha'', jget idx ''chip_sha''), (''skills'', JObj pins)]))))"

definition sign_release :: "crypto \<Rightarrow> json \<Rightarrow> string \<Rightarrow> json res" where
  "sign_release K idx priv =
     bindR (release_manifest idx) (\<lambda>m. Inr (sign_ph K (canonicalize m) priv release_type ''publisher-root''))"

datatype release_reason = ReleaseOk | ReleaseWrongType | ReleaseUnsigned | ReleaseBadSignature

definition verify_release :: "crypto \<Rightarrow> json \<Rightarrow> string \<Rightarrow> release_reason res" where
  "verify_release K env pub =
     (if \<not> is_obj env \<or> jget env ''payloadType'' \<noteq> JStr release_type then Inr ReleaseWrongType
      else if \<not> truthy (jget env ''signatures'') then Inr ReleaseUnsigned
      else bindR (verify_ph K env pub) (\<lambda>ok. Inr (if ok then ReleaseOk else ReleaseBadSignature)))"

text \<open>Python's equality of the decoded manifest and the one on disk: members in any order.\<close>

definition release_matches_chip :: "crypto \<Rightarrow> json \<Rightarrow> json \<Rightarrow> bool res" where
  "release_matches_chip K env idx =
     (case (if is_obj env then decode_payload K env else None) of
        None \<Rightarrow> Inr False
      | Some m0 \<Rightarrow> bindR (release_manifest idx) (\<lambda>m. Inr (jnorm m0 = jnorm m)))"

definition tri_layer_check :: "crypto \<Rightarrow> json \<Rightarrow> string \<Rightarrow> ((string \<times> release_reason) list \<times> bool) res" where
  "tri_layer_check K env pub =
     bindR (verify_release K env pub) (\<lambda>r. Inr (map (\<lambda>e. (e, r)) entry_points, r = ReleaseOk))"

section \<open>The engine\<close>

definition engine_type :: string where "engine_type = ''application/vnd.cyberware.engine+json''"

definition engine_measure :: "crypto \<Rightarrow> string \<Rightarrow> string" where "engine_measure K blob = sha_hex K blob"

definition engine_body :: "crypto \<Rightarrow> string \<Rightarrow> string \<Rightarrow> json" where
  "engine_body K blob version = JObj [(''engine_digest'', JStr (engine_measure K blob)), (''version'', JStr version)]"

definition sign_engine :: "crypto \<Rightarrow> string \<Rightarrow> string \<Rightarrow> string \<Rightarrow> json" where
  "sign_engine K blob version priv = sign_ph K (canonicalize (engine_body K blob version)) priv engine_type ''publisher-root''"

definition verify_engine :: "crypto \<Rightarrow> json \<Rightarrow> string \<Rightarrow> json option res" where
  "verify_engine K att pub =
     (if \<not> is_obj att \<or> jget att ''payloadType'' \<noteq> JStr engine_type then Inr None
      else if \<not> truthy (jget att ''signatures'') then Inr None
      else bindR (verify_ph K att pub) (\<lambda>ok. Inr (if ok then decode_payload K att else None)))"

definition digest_matches :: "crypto \<Rightarrow> json \<Rightarrow> string \<Rightarrow> bool res" where
  "digest_matches K b blob = (if is_obj b then Inr (jget b ''engine_digest'' = JStr (engine_measure K blob)) else Inl AttributeError)"

text \<open>\<open>True\<close> is ATTESTED.\<close>

definition attest_live :: "crypto \<Rightarrow> json \<Rightarrow> string \<Rightarrow> string \<Rightarrow> bool res" where
  "attest_live K att blob pub =
     bindR (verify_engine K att pub) (\<lambda>b. case b of None \<Rightarrow> Inr False | Some b \<Rightarrow> digest_matches K b blob)"

definition mutual_handshake :: "crypto \<Rightarrow> json \<Rightarrow> string \<Rightarrow> json \<Rightarrow> string \<Rightarrow> string \<Rightarrow> (bool \<times> bool \<times> bool) res" where
  "mutual_handshake K local_att local_blob peer_att peer_blob pub =
     bindR (attest_live K local_att local_blob pub) (\<lambda>a.
     bindR (attest_live K peer_att peer_blob pub) (\<lambda>b. Inr (a, b, a \<and> b)))"

definition release_receipt :: "crypto \<Rightarrow> json \<Rightarrow> string \<Rightarrow> string \<Rightarrow> string \<Rightarrow> json res" where
  "release_receipt K idx blob version priv =
     bindR (sign_release K idx priv) (\<lambda>r. Inr (JObj [(''release'', r), (''engine'', sign_engine K blob version priv)]))"

definition health_matches_signed_release :: "crypto \<Rightarrow> json \<Rightarrow> string \<Rightarrow> string \<Rightarrow> bool res" where
  "health_matches_signed_release K receipt blob pub =
     (if \<not> is_obj receipt then Inl AttributeError
      else bindR (attest_live K (jget_or receipt ''engine'' (JObj [])) blob pub) (\<lambda>live.
        if \<not> live then Inr False
        else bindR (verify_release K (jget_or receipt ''release'' (JObj [])) pub) (\<lambda>r. Inr (r = ReleaseOk))))"

section \<open>The governed release\<close>

definition governed_release :: "crypto \<Rightarrow> json \<Rightarrow> string \<Rightarrow> string \<Rightarrow> string \<Rightarrow> string list \<Rightarrow> json res" where
  "governed_release K idx blob version priv prior =
     bindR (sign_release K idx priv) (\<lambda>rel.
       let leaves = prior @ [leaf_hash K rel]
       in bindR (offline_proof K rel (int (length leaves) - 1) leaves priv) (\<lambda>proof.
            Inr (JObj [(''release'', rel), (''engine'', sign_engine K blob version priv), (''transparency'', proof), (''version'', JStr version)])))"

record release_report =
  rr_signed :: bool
  rr_matches :: bool
  rr_engine :: bool
  rr_logged :: bool
  rr_stored :: bool
  rr_ok :: bool

definition verify_governed_release :: "crypto \<Rightarrow> json \<Rightarrow> string \<Rightarrow> json option \<Rightarrow> string \<Rightarrow> release_report res" where
  "verify_governed_release K receipt blob idx pub =
     (if \<not> is_obj receipt then Inl AttributeError
      else let rel = jget_or receipt ''release'' (JObj []); t = jget receipt ''transparency'' in
        bindR (verify_release K rel pub) (\<lambda>r.
        bindR (case idx of None \<Rightarrow> Inr True | Some i \<Rightarrow> release_matches_chip K rel i) (\<lambda>matches.
        bindR (attest_live K (jget_or receipt ''engine'' (JObj [])) blob pub) (\<lambda>live.
        bindR (verify_offline K (jget_or receipt ''transparency'' (JObj [])) pub) (\<lambda>(logged, _).
          let stored = (is_obj t \<and> jhas t ''inclusion'')
          in Inr \<lparr>rr_signed = (r = ReleaseOk), rr_matches = matches, rr_engine = live, rr_logged = logged, rr_stored = stored,
                  rr_ok = (r = ReleaseOk \<and> matches \<and> live \<and> logged \<and> stored)\<rparr>)))))"

section \<open>What verification establishes\<close>

text \<open>A payload of a type, signed under a key.\<close>

definition signed_under :: "crypto \<Rightarrow> string \<Rightarrow> string \<Rightarrow> json \<Rightarrow> bool" where
  "signed_under K pub pt b \<longleftrightarrow> (\<exists>payload sig. ph_verify K (pae pt payload) sig pub \<and> parse K payload = Some b)"

lemma verified_payload:
  assumes "verify_ph K env pub = Inr True" and "jget env ''payloadType'' = JStr pt" and "decode_payload K env = Some b"
  shows "signed_under K pub pt b"
  using verify_ph_true [OF assms(1)] assms(2,3) by (auto simp: signed_under_def decode_payload_def jstr_def split: option.split_asm)

lemma release_ok:
  assumes "verify_release K env pub = Inr ReleaseOk"
  shows "is_obj env \<and> jget env ''payloadType'' = JStr release_type \<and> verify_ph K env pub = Inr True"
  using assms by (auto simp: verify_release_def bindR_eq_Inr split: if_split_asm)

lemma attested:
  assumes "attest_live K att blob pub = Inr True"
  shows "\<exists>b. verify_ph K att pub = Inr True \<and> jget att ''payloadType'' = JStr engine_type \<and> decode_payload K att = Some b
    \<and> jget b ''engine_digest'' = JStr (engine_measure K blob)"
  using assms by (auto simp: attest_live_def verify_engine_def digest_matches_def bindR_eq_Inr split: if_split_asm option.split_asm)

lemma matched:
  assumes "release_matches_chip K env idx = Inr True"
  shows "\<exists>b m. decode_payload K env = Some b \<and> release_manifest idx = Inr m \<and> jnorm b = jnorm m"
  using assms by (auto simp: release_matches_chip_def bindR_eq_Inr split: if_split_asm option.split_asm)

lemma report_ok:
  assumes "verify_governed_release K receipt blob idx pub = Inr rep" and "rr_ok rep"
  shows "verify_release K (jget_or receipt ''release'' (JObj [])) pub = Inr ReleaseOk
    \<and> (\<forall>i. idx = Some i \<longrightarrow> release_matches_chip K (jget_or receipt ''release'' (JObj [])) i = Inr True)
    \<and> attest_live K (jget_or receipt ''engine'' (JObj [])) blob pub = Inr True
    \<and> (\<exists>r. verify_offline K (jget_or receipt ''transparency'' (JObj [])) pub = Inr (True, r))"
  using assms by (auto simp: verify_governed_release_def Let_def bindR_eq_Inr split: if_split_asm prod.split_asm)

text \<open>
  C14: a governed release pins what runs. If a receipt verifies for a live engine and for a chip, the publisher's key
  signed, under the release type, exactly the manifest of that chip, and, under the engine type, the digest of that
  engine; and the same receipt verifies for no other engine, up to a collision of the hash, and for no chip with
  another manifest.
\<close>

theorem governed_release_pins:
  assumes "verify_governed_release K receipt blob (Some idx) pub = Inr rep" and "rr_ok rep"
  shows "(\<exists>m b. release_manifest idx = Inr m \<and> jnorm b = jnorm m \<and> signed_under K pub release_type b)
    \<and> (\<exists>b. jget b ''engine_digest'' = JStr (sha_hex K blob) \<and> signed_under K pub engine_type b)
    \<and> (\<forall>blob' idx' rep'. verify_governed_release K receipt blob' (Some idx') pub = Inr rep' \<longrightarrow> rr_ok rep' \<longrightarrow>
         sha_hex K blob' = sha_hex K blob
         \<and> (\<exists>m m'. release_manifest idx = Inr m \<and> release_manifest idx' = Inr m' \<and> jnorm m = jnorm m'))"
proof -
  note r = report_ok [OF assms]
  obtain b m where b: "decode_payload K (jget_or receipt ''release'' (JObj [])) = Some b" "release_manifest idx = Inr m" "jnorm b = jnorm m"
    using matched r by blast
  obtain e where e: "verify_ph K (jget_or receipt ''engine'' (JObj [])) pub = Inr True"
    "jget (jget_or receipt ''engine'' (JObj [])) ''payloadType'' = JStr engine_type"
    "decode_payload K (jget_or receipt ''engine'' (JObj [])) = Some e" "jget e ''engine_digest'' = JStr (sha_hex K blob)"
    using attested [of K "jget_or receipt ''engine'' (JObj [])" blob pub] r by (auto simp: engine_measure_def)
  have "signed_under K pub release_type b" using release_ok r verified_payload b(1) by blast
  moreover have "signed_under K pub engine_type e" using verified_payload e(1-3) by blast
  moreover have "sha_hex K blob' = sha_hex K blob
         \<and> (\<exists>m m'. release_manifest idx = Inr m \<and> release_manifest idx' = Inr m' \<and> jnorm m = jnorm m')"
    if v: "verify_governed_release K receipt blob' (Some idx') pub = Inr rep'" "rr_ok rep'" for blob' idx' rep'
    using report_ok [OF v] attested [of K "jget_or receipt ''engine'' (JObj [])" blob' pub]
      matched [of K "jget_or receipt ''release'' (JObj [])" idx'] b e(3,4) by (auto simp: engine_measure_def)
  ultimately show ?thesis using b(2,3) e(4) by blast
qed

text \<open>What the publisher produces verifies, at any place of the log.\<close>

lemma published_release:
  assumes "\<And>s. b64d K (b64e K s) = Some s" and "\<And>m. ph_verify K m (ph_sign K m priv) pub"
    and "release_manifest idx = Inr m" and "parse K (canonicalize m) = Some (jnorm m)"
    and "parse K (canonicalize (engine_body K blob version)) = Some (jnorm (engine_body K blob version))"
    and "parse K (canonicalize (sth_body K (prior @ [leaf_hash K (sign_ph K (canonicalize m) priv release_type ''publisher-root'')])))
      = Some (jnorm (sth_body K (prior @ [leaf_hash K (sign_ph K (canonicalize m) priv release_type ''publisher-root'')])))"
  shows "\<exists>receipt rep. governed_release K idx blob version priv prior = Inr receipt
    \<and> verify_governed_release K receipt blob (Some idx) pub = Inr rep \<and> rr_ok rep"
proof -
  let ?rel = "sign_ph K (canonicalize m) priv release_type ''publisher-root''"
  let ?leaves = "prior @ [leaf_hash K ?rel]"
  obtain pf where pf: "offline_proof K ?rel (int (length prior)) ?leaves priv = Inr pf"
    "verify_offline K pf pub = Inr (True, OfflineOk)"
    using offline_proof_verifies [of "length prior" ?leaves K ?rel priv pub] assms(1,2,6) by auto
  have i: "is_obj pf" "jhas pf ''inclusion''"
    using pf(1) by (auto simp: offline_proof_def is_obj_def jhas_def obj_members_def elim!: bindR_eq_Inr [THEN iffD1, elim_format])
  have rel: "verify_release K ?rel pub = Inr ReleaseOk" "release_matches_chip K ?rel idx = Inr True"
    using assms(1-4) by (simp_all add: verify_release_def sign_ph_fields verify_ph_signed release_matches_chip_def decode_signed)
  have "digest_matches K (jnorm (engine_body K blob version)) blob = Inr True"
    by (simp add: digest_matches_def engine_body_def is_obj_def jget_JObj)
  then have eng: "attest_live K (sign_engine K blob version priv) blob pub = Inr True"
    using assms(1,2,5) by (simp add: attest_live_def verify_engine_def sign_engine_def sign_ph_fields verify_ph_signed decode_signed)
  show ?thesis
    using rel eng pf i assms(3)
    by (simp add: governed_release_def sign_release_def verify_governed_release_def Let_def jget_or_def jget_JObj obj_members_def)
qed

text \<open>
  The legs of a receipt are not tied to each other: the proof of inclusion may be that of any other entry of the
  log, and any signed engine goes with any signed release.
\<close>

definition receipt_of :: "json \<Rightarrow> json \<Rightarrow> json \<Rightarrow> json" where
  "receipt_of rel att pf = JObj [(''release'', rel), (''engine'', att), (''transparency'', pf)]"

lemma legs_are_independent:
  assumes "verify_release K rel pub = Inr ReleaseOk" and "attest_live K att blob pub = Inr True"
    and "verify_offline K pf pub = Inr (True, r)" and "is_obj pf" and "jhas pf ''inclusion''"
  shows "\<exists>rep. verify_governed_release K (receipt_of rel att pf) blob None pub = Inr rep \<and> rr_ok rep"
  using assms by (simp add: verify_governed_release_def receipt_of_def Let_def jget_or_def jget_JObj obj_members_def is_obj_def)

lemma handshake_iff:
  "mutual_handshake K a x b y pub = Inr (p, q, ok) \<Longrightarrow> ok \<longleftrightarrow> attest_live K a x pub = Inr True \<and> attest_live K b y pub = Inr True"
  by (auto simp: mutual_handshake_def bindR_eq_Inr)

text \<open>A release of a one-skill chip, logged after another entry, and what it pins.\<close>

definition sample_chip :: json where
  "sample_chip = JObj [(''chip_sha'', JStr ''c''), (''skills'', JList [JObj [(''skill'', JStr ''s''), (''skill_sha'', JStr ''d'')]])]"

definition sample_manifest :: json where
  "sample_manifest = JObj [(''chip_sha'', JStr ''c''), (''skills'', JObj [(''s'', JStr ''d'')])]"

definition release_crypto :: crypto where
  "release_crypto =
     (let rel = sign_ph toy_crypto (canonicalize sample_manifest) ''k'' release_type ''publisher-root'';
          leaves = [''l'', leaf_hash toy_crypto rel]
      in toy_crypto \<lparr>parse := (\<lambda>t. Some (jnorm (if t = canonicalize sample_manifest then sample_manifest
                                           else if t = canonicalize (engine_body toy_crypto ''bin'' ''1'') then engine_body toy_crypto ''bin'' ''1''
                                           else sth_body toy_crypto leaves)))\<rparr>)"

theorem governed_release_pins_witness:
  "\<exists>receipt rep. governed_release release_crypto sample_chip ''bin'' ''1'' ''k'' [''l''] = Inr receipt
     \<and> verify_governed_release release_crypto receipt ''bin'' (Some sample_chip) ''k'' = Inr rep \<and> rr_ok rep
     \<and> (\<exists>b. jget b ''engine_digest'' = JStr (sha_hex release_crypto ''bin'') \<and> signed_under release_crypto ''k'' engine_type b)"
proof -
  let ?rel = "sign_ph toy_crypto (canonicalize sample_manifest) ''k'' release_type ''publisher-root''"
  have m: "release_manifest sample_chip = Inr sample_manifest" by code_simp
  have c: "b64d release_crypto (b64e release_crypto t) = Some t" "ph_verify release_crypto x (ph_sign release_crypto x p) p"
    "sign_ph release_crypto = sign_ph toy_crypto" "leaf_hash release_crypto = leaf_hash toy_crypto"
    "sth_body release_crypto = sth_body toy_crypto" "engine_body release_crypto = engine_body toy_crypto" for t x p
    by (auto simp: release_crypto_def Let_def toy_crypto_def sign_ph_def mk_envelope_def leaf_hash_def sth_body_def engine_body_def
        engine_measure_def fun_eq_iff)
  have d: "canonicalize (engine_body toy_crypto ''bin'' ''1'') \<noteq> canonicalize sample_manifest"
    "canonicalize (sth_body toy_crypto ls) \<noteq> canonicalize sample_manifest"
    "canonicalize (sth_body toy_crypto ls) \<noteq> canonicalize (engine_body toy_crypto ''bin'' ''1'')" for ls
    unfolding canonicalize_inj_iff by (simp_all add: jnorm_sth engine_body_def sample_manifest_def)
  have p: "parse release_crypto (canonicalize sample_manifest) = Some (jnorm sample_manifest)"
    "parse release_crypto (canonicalize (engine_body toy_crypto ''bin'' ''1'')) = Some (jnorm (engine_body toy_crypto ''bin'' ''1''))"
    "parse release_crypto (canonicalize (sth_body toy_crypto [''l'', leaf_hash toy_crypto ?rel])) = Some (jnorm (sth_body toy_crypto [''l'', leaf_hash toy_crypto ?rel]))"
    using d by (simp_all add: release_crypto_def Let_def)
  obtain receipt rep where r: "governed_release release_crypto sample_chip ''bin'' ''1'' ''k'' [''l''] = Inr receipt"
    "verify_governed_release release_crypto receipt ''bin'' (Some sample_chip) ''k'' = Inr rep" "rr_ok rep"
    using published_release [of release_crypto "''k''" "''k''" sample_chip sample_manifest "''bin''" "''1''" "[''l'']"] m p by (auto simp: c)
  show ?thesis using governed_release_pins [OF r(2,3)] r by blast
qed

end
