(* ===== verification/Fleet.thy ===== *)
theory Fleet
  imports Intake
begin

text \<open>
  The fleet plane (\<open>src/infra/govern/fleetd.py\<close>): the roster from configuration, the row of this node, the live
  probe of its peers, the cache, the filters of a search and the answers of the handler. The network, the files and
  the helpers of the node it runs beside are the fields of \<open>surround\<close>: \<open>None\<close> stands for any exception they
  raise. Query parameters come parsed, with the first value of each.
\<close>

section \<open>Surroundings\<close>

record surround =
  su_scheme :: "string \<Rightarrow> string option"
  su_get :: "string \<Rightarrow> json option"
  su_fleet_url :: string
  su_provider :: "string \<Rightarrow> json option"
  su_fleet_file :: string
  su_read :: "string \<Rightarrow> json option"
  su_catalog :: "json option"
  su_chip :: "json option"
  su_provenance :: "json option"
  su_hostname :: string
  su_clock :: int

section \<open>The roster\<close>

definition safe_url :: "surround \<Rightarrow> json \<Rightarrow> bool" where
  "safe_url E u = (case u of JStr s \<Rightarrow> su_scheme E s \<in> {Some ''http'', Some ''https''} | _ \<Rightarrow> False)"

text \<open>The nodes of a topology; what is no list of objects gives none (an exception there is caught).\<close>

definition nodes_of :: "surround \<Rightarrow> json \<Rightarrow> json list" where
  "nodes_of E d =
     filter (\<lambda>n. is_obj n \<and> safe_url E (jget n ''url'')) (jlist (if is_obj d then jget d ''nodes'' else d))"

definition fleet_cfg :: "json \<Rightarrow> json" where "fleet_cfg cfg = py_or (jget cfg ''fleet'') (JObj [])"

definition roster_path :: "surround \<Rightarrow> json \<Rightarrow> json" where
  "roster_path E cfg = py_or (JStr (su_fleet_file E)) (jget (fleet_cfg cfg) ''roster'')"

definition load_roster :: "surround \<Rightarrow> json \<Rightarrow> json list" where
  "load_roster E cfg =
     (if su_fleet_url E \<noteq> []
      then if safe_url E (JStr (su_fleet_url E))
           then (case su_provider E (su_fleet_url E) of None \<Rightarrow> [] | Some d \<Rightarrow> nodes_of E d) else []
      else case roster_path E cfg of
        JStr p \<Rightarrow> if p = [] then [] else (case su_read E p of None \<Rightarrow> [] | Some d \<Rightarrow> nodes_of E d)
      | _ \<Rightarrow> [])"

definition roster_source :: "surround \<Rightarrow> json \<Rightarrow> string" where
  "roster_source E cfg = (if su_fleet_url E \<noteq> [] then ''url'' else if truthy (roster_path E cfg) then ''file'' else ''self'')"

section \<open>Rows\<close>

text \<open>\<open>_src\<close>; only a dictionary, or nothing, has a mode.\<close>

definition chip_source :: "json \<Rightarrow> string res" where
  "chip_source prov =
     (let p = py_or prov (JObj [])
      in if \<not> is_obj p then Inl AttributeError
         else if jget p ''mode'' = JStr ''cloud''
         then Inr (''cloud '' @ py_str (jget p ''source'') @ '' @ '' @ py_str (jget p ''ref'')
                   @ '' ('' @ take 12 (py_str (jget p ''commit'')) @ '')'')
         else Inr ''local (baked)'')"

definition catalog_skills :: "json \<Rightarrow> json list res" where
  "catalog_skills cat =
     (if \<not> is_obj cat then Inl AttributeError
      else bindR (case py_or (jget cat ''skills'') (JList []) of
                    JList xs \<Rightarrow> mapR (\<lambda>s. if is_obj s then Inr (jget s ''skill'') else Inl AttributeError) xs
                  | JStr _ \<Rightarrow> Inl AttributeError | JObj _ \<Rightarrow> Inl AttributeError | _ \<Rightarrow> Inl TypeError) (\<lambda>ids.
           sorted_keys (filter truthy ids)))"

definition or_null :: "json \<Rightarrow> json" where "or_null v = py_or v JNull"

text \<open>What the node's own helpers give before the first of them raises.\<close>

definition own_data :: "surround \<Rightarrow> json list \<times> json \<times> json" where
  "own_data E =
     (case su_catalog E of None \<Rightarrow> ([], JNull, JObj [])
      | Some cat \<Rightarrow>
          (case catalog_skills cat of Inl _ \<Rightarrow> ([], JNull, JObj [])
           | Inr skills \<Rightarrow>
               (case su_chip E of None \<Rightarrow> (skills, JNull, JObj [])
                | Some chip \<Rightarrow> (skills, chip, (case su_provenance E of None \<Rightarrow> JObj [] | Some p \<Rightarrow> py_or p (JObj []))))))"

definition self_descriptor :: "surround \<Rightarrow> json \<Rightarrow> string \<Rightarrow> json res" where
  "self_descriptor E cfg self_url =
     (let (skills, chip, prov) = own_data E; f = fleet_cfg cfg; ex = py_or (jget cfg ''exod'') (JObj [])
      in bindR (chip_source prov) (\<lambda>src.
           Inr (JObj [(''node_id'', py_or (jget f ''node_id'') (JStr (su_hostname E))), (''url'', JStr self_url),
             (''role'', jget_or f ''role'' (JStr ''node'')), (''arch'', or_null (jget f ''arch'')), (''chip_sha'', chip),
             (''chip_source'', JStr src), (''skills'', JList skills), (''tier'', or_null (jget f ''tier'')),
             (''fleet_tier'', or_null (jget f ''fleet_tier'')), (''exec_mode'', jget_or cfg ''exec_mode'' (JStr ''cooperative'')),
             (''exod_attached'', JBool (truthy (jget ex ''socket'') \<and> truthy (jget ex ''grant_key'') \<and> truthy (jget ex ''pub''))),
             (''healthy'', JBool True), (''last_seen'', JInt (su_clock E))])))"

definition url_key :: "string \<Rightarrow> string" where
  "url_key u = rev (dropWhile (\<lambda>c. c = CHR ''/'') (rev u))"

definition node_url :: "json \<Rightarrow> string" where
  "node_url n = (case jget n ''url'' of JStr s \<Rightarrow> s | _ \<Rightarrow> [])"

text \<open>What a live peer says of itself; \<open>None\<close> when anything fails on the way.\<close>

definition live_part :: "surround \<Rightarrow> string \<Rightarrow> (string, json) dict option" where
  "live_part E u =
     (case (su_get E (u @ ''/health''), su_get E (u @ ''/catalog'')) of
        (Some h, Some c) \<Rightarrow>
          (if \<not> is_obj h then None
           else case bindR (chip_source (py_or (jget h ''chip'') (JObj []))) (\<lambda>src. bindR (catalog_skills c) (\<lambda>skills. Inr (src, skills))) of
             Inl _ \<Rightarrow> None
           | Inr (src, skills) \<Rightarrow>
               Some [(''chip_sha'', jget h ''chip_sha''), (''chip_source'', JStr src), (''skills'', JList skills),
                     (''exec_mode'', jget h ''exec_mode''), (''exod_attached'', jget h ''exod_attached''),
                     (''healthy'', JBool (jget h ''status'' = JStr ''ok'')), (''last_seen'', JInt (su_clock E))])
      | _ \<Rightarrow> None)"

definition dead_part :: "(string, json) dict" where
  "dead_part =
     [(''chip_sha'', JNull), (''chip_source'', JNull), (''skills'', JList []), (''exec_mode'', JNull), (''exod_attached'', JNull),
      (''healthy'', JBool False), (''last_seen'', JNull)]"

definition probe :: "surround \<Rightarrow> json \<Rightarrow> json" where
  "probe E node =
     JObj ([(''node_id'', py_or (jget node ''name'') (jget node ''node_id'')), (''url'', jget node ''url''), (''role'', jget node ''role''),
            (''arch'', jget node ''arch''), (''tier'', or_null (jget node ''tier'')), (''fleet_tier'', or_null (jget node ''fleet_tier''))]
           @ (case live_part E (url_key (node_url node)) of None \<Rightarrow> dead_part | Some kvs \<Rightarrow> kvs))"

section \<open>The fleet\<close>

fun fresh_peers :: "string list \<Rightarrow> json list \<Rightarrow> json list" where
  "fresh_peers seen [] = []"
| "fresh_peers seen (n # ns) =
     (let k = url_key (node_url n)
      in if k \<in> set seen then fresh_peers seen ns else n # fresh_peers (k # seen) ns)"

definition build_fleet :: "surround \<Rightarrow> json \<Rightarrow> string \<Rightarrow> json list res" where
  "build_fleet E cfg self_url =
     bindR (self_descriptor E cfg self_url) (\<lambda>me.
       Inr (me # map (probe E) (fresh_peers [url_key self_url] (load_roster E cfg))))"

definition cache_ttl :: rat where "cache_ttl = 5"

type_synonym fleet_cache = "(rat \<times> json list) option"

text \<open>\<open>built\<close> is the clock after the probes.\<close>

definition fleet_roster :: "surround \<Rightarrow> json \<Rightarrow> string \<Rightarrow> rat \<Rightarrow> rat \<Rightarrow> fleet_cache \<Rightarrow> (fleet_cache \<times> json list) res" where
  "fleet_roster E cfg self_url now built cache =
     (case cache of
        Some (ts, nodes) \<Rightarrow>
          if now - ts < cache_ttl then Inr (cache, nodes)
          else bindR (build_fleet E cfg self_url) (\<lambda>ns. Inr (Some (built, ns), ns))
      | None \<Rightarrow> bindR (build_fleet E cfg self_url) (\<lambda>ns. Inr (Some (built, ns), ns)))"

section \<open>Filters\<close>

definition trust_rank :: "string \<Rightarrow> nat option" where
  "trust_rank t = (if t = ''core'' then Some 0 else if t = ''verified'' then Some 1 else if t = ''community'' then Some 2 else None)"

text \<open>A list or an object is no dictionary key: such a tier raises.\<close>

definition node_rank :: "json \<Rightarrow> nat res" where
  "node_rank t =
     (case t of JStr s \<Rightarrow> Inr (case trust_rank s of Some n \<Rightarrow> n | None \<Rightarrow> 2)
      | JList _ \<Rightarrow> Inl TypeError | JObj _ \<Rightarrow> Inl TypeError | _ \<Rightarrow> Inr 2)"

definition tier_ok :: "json \<Rightarrow> string option \<Rightarrow> bool res" where
  "tier_ok t want =
     (case (case want of None \<Rightarrow> None | Some w \<Rightarrow> trust_rank w) of
        None \<Rightarrow> Inr True
      | Some r \<Rightarrow> bindR (node_rank t) (\<lambda>n. Inr (n \<le> r)))"

definition named_rank :: "string \<Rightarrow> nat option" where
  "named_rank s = (if s = ''mothership'' then Some 1 else if s = ''edge'' then Some 2 else if s = ''subagent'' then Some 3 else None)"

definition fleet_rank :: "json \<Rightarrow> nat option res" where
  "fleet_rank ft =
     (case ft of
        JNull \<Rightarrow> Inr None
      | JBool _ \<Rightarrow> Inr None
      | JInt i \<Rightarrow> Inr (if 0 < i then Some (nat i) else None)
      | v \<Rightarrow>
          (let s = Text.lower (strip (py_str v))
           in case named_rank s of
                Some n \<Rightarrow> Inr (Some n)
              | None \<Rightarrow> if is_digits s then bindR (int_text s) (\<lambda>n. Inr (if 0 < n then Some n else None)) else Inr None))"

definition fleet_tier_ok :: "json \<Rightarrow> string option \<Rightarrow> bool res" where
  "fleet_tier_ok ft want =
     bindR (fleet_rank (case want of None \<Rightarrow> JNull | Some w \<Rightarrow> JStr w)) (\<lambda>wr.
       if wr = None then Inr True else bindR (fleet_rank ft) (\<lambda>r. Inr (r = wr)))"

definition leaf_of :: "string \<Rightarrow> string" where
  "leaf_of s = (case split1 CHR '':'' s of Some (ns, leaf) \<Rightarrow> leaf | None \<Rightarrow> s)"

definition skill_matches :: "string \<Rightarrow> json \<Rightarrow> bool res" where
  "skill_matches query rid =
     (case rid of
        JStr r \<Rightarrow> Inr (query = r \<or> (if CHR '':'' \<in> set query then r = leaf_of query else leaf_of r = query))
      | _ \<Rightarrow> if CHR '':'' \<in> set query then Inr False else Inl TypeError)"

fun any_matches :: "string \<Rightarrow> json list \<Rightarrow> bool res" where
  "any_matches query [] = Inr False"
| "any_matches query (r # rs) = bindR (skill_matches query r) (\<lambda>b. if b then Inr True else any_matches query rs)"

definition node_wanted :: "string \<Rightarrow> string option \<Rightarrow> string option \<Rightarrow> json \<Rightarrow> bool res" where
  "node_wanted skill tier ft n =
     (if \<not> truthy (jget n ''healthy'') then Inr False
      else bindR (any_matches skill (jlist (jget n ''skills''))) (\<lambda>offers.
        if \<not> offers then Inr False
        else bindR (tier_ok (jget n ''tier'') tier) (\<lambda>trusted.
          if \<not> trusted then Inr False else fleet_tier_ok (jget n ''fleet_tier'') ft)))"

fun find_nodes :: "(json \<Rightarrow> bool res) \<Rightarrow> json list \<Rightarrow> json list res" where
  "find_nodes P [] = Inr []"
| "find_nodes P (n # ns) = bindR (P n) (\<lambda>b. bindR (find_nodes P ns) (\<lambda>ms. Inr (if b then n # ms else ms)))"

section \<open>The handler\<close>

record plane =
  pl_cache :: fleet_cache
  pl_buckets :: "(string, bucket) dict"

record wanted =
  wa_path :: string
  wa_query :: "(string, string) dict"
  wa_auth :: string

text \<open>
  A request is served with the configuration, the registry and the clocks of its moment; an exception drops
  the connection (\<open>None\<close>), with the state reached by then.
\<close>

definition fleet_quota :: "desk \<Rightarrow> json \<Rightarrow> (rat \<times> rat) res" where
  "fleet_quota D spec =
     (if \<not> is_obj spec then Inl AttributeError
      else bindR (if jhas spec ''rate'' then dk_float D (jget spec ''rate'') else Inr 2) (\<lambda>rate.
           bindR (if jhas spec ''burst'' then dk_float D (jget spec ''burst'') else Inr 20) (\<lambda>burst. Inr (rate, burst))))"

definition fleet_auth :: "desk \<Rightarrow> string \<Rightarrow> string option res" where
  "fleet_auth D auth =
     (if dk_reg D = [] then Inr (Some ''local'')
      else resolve_principal (ge_hash (dk_env D)) (dk_verifiers D) (bearer_of auth) (dk_reg D) (cfg_text (dk_cfg D) ''auth_verifier''))"

definition fleet_rate :: "desk \<Rightarrow> plane \<Rightarrow> string \<Rightarrow> (plane \<times> bool) res" where
  "fleet_rate D pl pid =
     bindR (fleet_quota D (actor_spec D pid)) (\<lambda>q.
       let (b, ok) = rate_ok (dget_default (pl_buckets pl) pid empty_bucket) (dk_now D) (fst q) (snd q)
       in Inr (pl \<lparr>pl_buckets := dput pid b (pl_buckets pl)\<rparr>, ok))"

definition find_answer :: "string \<Rightarrow> bool \<Rightarrow> json list \<Rightarrow> reply" where
  "find_answer skill want_all ms =
     (if want_all then (200, JObj [(''skill'', JStr skill), (''count'', JInt (int (length ms))), (''nodes'', JList ms)])
      else case ms of
        [] \<Rightarrow> (404, JObj [(''skill'', JStr skill), (''url'', JNull), (''reason'', JStr ''no healthy node offers this skill'')])
      | m # _ \<Rightarrow>
          (200, JObj [(''skill'', JStr skill), (''url'', jget m ''url''), (''node_id'', jget m ''node_id''), (''tier'', jget m ''tier''),
             (''fleet_tier'', jget m ''fleet_tier''), (''exec_mode'', jget m ''exec_mode''), (''exod_attached'', jget m ''exod_attached'')]))"

definition with_fleet :: "surround \<Rightarrow> desk \<Rightarrow> string \<Rightarrow> rat \<Rightarrow> plane \<Rightarrow> (json list \<Rightarrow> reply res) \<Rightarrow> plane \<times> reply option" where
  "with_fleet E D self_url built pl k =
     (case fleet_roster E (dk_cfg D) self_url (dk_now D) built (pl_cache pl) of
        Inl _ \<Rightarrow> (pl, None)
      | Inr (cache, nodes) \<Rightarrow> (pl \<lparr>pl_cache := cache\<rparr>, (case k nodes of Inl _ \<Rightarrow> None | Inr r \<Rightarrow> Some r)))"

definition fleet_query :: "surround \<Rightarrow> desk \<Rightarrow> string \<Rightarrow> rat \<Rightarrow> plane \<Rightarrow> wanted \<Rightarrow> plane \<times> reply option" where
  "fleet_query E D self_url built pl w =
     (if wa_path w = ''/fleet/nodes'' then with_fleet E D self_url built pl (\<lambda>ns. Inr (200, JObj [(''nodes'', JList ns)]))
      else if wa_path w = ''/fleet/find''
      then (let skill = dget_default (wa_query w) ''skill'' []
            in if skill = [] then (pl, Some (400, err ''skill query param required''))
               else with_fleet E D self_url built pl (\<lambda>ns.
                 bindR (find_nodes (node_wanted skill (dget (wa_query w) ''tier'') (dget (wa_query w) ''fleet_tier'')) ns) (\<lambda>ms.
                   Inr (find_answer skill (dget_default (wa_query w) ''all'' ''0'' \<in> {''1'', ''true'', ''yes''}) ms))))
      else (pl, Some (404, err ''not found'')))"

definition fleet_get :: "surround \<Rightarrow> desk \<Rightarrow> string \<Rightarrow> rat \<Rightarrow> plane \<Rightarrow> wanted \<Rightarrow> plane \<times> reply option" where
  "fleet_get E D self_url built pl w =
     (if wa_path w = ''/fleet/health''
      then (pl, Some (200, JObj [(''status'', JStr ''ok''), (''service'', JStr ''cyberware-fleetd''), (''self_url'', JStr self_url),
                                 (''roster_source'', JStr (roster_source E (dk_cfg D)))]))
      else case fleet_auth D (wa_auth w) of
        Inl _ \<Rightarrow> (pl, None)
      | Inr None \<Rightarrow> (pl, Some (401, err ''missing/invalid Authorization: Bearer token''))
      | Inr (Some pid) \<Rightarrow>
          if dk_reg D = [] then fleet_query E D self_url built pl w
          else (case fleet_rate D pl pid of
                  Inl _ \<Rightarrow> (pl, None)
                | Inr (pl', False) \<Rightarrow> (pl', Some (429, err ''rate limited''))
                | Inr (pl', True) \<Rightarrow> fleet_query E D self_url built pl' w))"

definition default_self_url :: "string \<Rightarrow> json \<Rightarrow> string \<Rightarrow> string" where
  "default_self_url advertise cfg host =
     (let f = fleet_cfg cfg; adv = py_or (JStr advertise) (jget f ''advertise_url'')
      in case adv of
           JStr (c # s) \<Rightarrow> url_key (c # s)
         | _ \<Rightarrow>
             let ports = py_or (jget (py_or (jget cfg ''local'') (JObj [])) ''ports'') (JList [JInt 5773]);
                 gport = py_or (jget (py_or (jget cfg ''remote'') (JObj [])) ''port'') (case jlist ports of p # _ \<Rightarrow> p | [] \<Rightarrow> JInt 5773);
                 ghost = py_or (jget f ''advertise_host'') (py_or (jget (py_or (jget cfg ''remote'') (JObj [])) ''host'') (JStr host))
             in ''http://'' @ (if ghost \<in> {JStr ''0.0.0.0'', JStr ''::'', JNull} then ''127.0.0.1'' else py_str ghost) @ '':'' @ py_str gport)"

section \<open>What the roster holds\<close>

lemma fresh_peers_set: "set (fresh_peers seen ns) \<subseteq> set ns"
  by (induction seen ns rule: fresh_peers.induct) (auto simp: Let_def)

lemma fresh_peers_unseen: "n \<in> set (fresh_peers seen ns) \<Longrightarrow> url_key (node_url n) \<notin> set seen"
  by (induction seen ns rule: fresh_peers.induct) (auto simp: Let_def split: if_split_asm)

lemma fresh_peers_distinct: "distinct (map (\<lambda>n. url_key (node_url n)) (fresh_peers seen ns))"
  by (induction seen ns rule: fresh_peers.induct) (auto simp: Let_def dest: fresh_peers_unseen)

lemma nodes_of_safe: "n \<in> set (nodes_of E d) \<Longrightarrow> is_obj n \<and> safe_url E (jget n ''url'')"
  by (simp add: nodes_of_def)

lemma load_roster_nodes: "load_roster E cfg = [] \<or> (\<exists>d. load_roster E cfg = nodes_of E d)"
  by (auto simp: load_roster_def split: option.split json.split)

lemma load_roster_safe: "n \<in> set (load_roster E cfg) \<Longrightarrow> is_obj n \<and> safe_url E (jget n ''url'')"
  using load_roster_nodes [of E cfg] by (auto dest: nodes_of_safe)

lemma probe_fields:
  "jget (probe E n) ''url'' = jget n ''url''" "jget (probe E n) ''tier'' = or_null (jget n ''tier'')"
  "jget (probe E n) ''healthy'' = (case live_part E (url_key (node_url n)) of None \<Rightarrow> JBool False | Some kvs \<Rightarrow> jget (JObj kvs) ''healthy'')"
  "jget (probe E n) ''skills'' = (case live_part E (url_key (node_url n)) of None \<Rightarrow> JList [] | Some kvs \<Rightarrow> jget (JObj kvs) ''skills'')"
  by (simp_all add: probe_def jget_JObj dead_part_def split: option.split)

lemma live_healthy:
  assumes "live_part E u = Some kvs" and "truthy (jget (JObj kvs) ''healthy'')"
  shows "\<exists>h c skills. su_get E (u @ ''/health'') = Some h \<and> jget h ''status'' = JStr ''ok'' \<and> su_get E (u @ ''/catalog'') = Some c
     \<and> catalog_skills c = Inr skills \<and> jget (JObj kvs) ''skills'' = JList skills"
  using assms by (auto simp: live_part_def jget_JObj elim!: bind_InrE split: option.split_asm if_split_asm sum.split_asm)

text \<open>A node of a roster that counts as alive: this one, or a peer that just said so.\<close>

definition alive :: "surround \<Rightarrow> json \<Rightarrow> string \<Rightarrow> json \<Rightarrow> bool" where
  "alive E cfg self_url m \<longleftrightarrow>
     self_descriptor E cfg self_url = Inr m
     \<or> (\<exists>n \<in> set (load_roster E cfg). m = probe E n \<and> safe_url E (jget n ''url'')
          \<and> (\<exists>h c skills. su_get E (url_key (node_url n) @ ''/health'') = Some h \<and> jget h ''status'' = JStr ''ok''
               \<and> su_get E (url_key (node_url n) @ ''/catalog'') = Some c \<and> catalog_skills c = Inr skills
               \<and> jget m ''skills'' = JList skills))"

lemma built_nodes:
  assumes "build_fleet E cfg self_url = Inr ns"
  shows "distinct (map (\<lambda>n. url_key (node_url n)) ns) \<and> node_url (hd ns) = self_url
    \<and> (\<forall>m \<in> set ns. truthy (jget m ''healthy'') \<longrightarrow> alive E cfg self_url m)"
proof -
  obtain me where me: "self_descriptor E cfg self_url = Inr me"
    and ns: "ns = me # map (probe E) (fresh_peers [url_key self_url] (load_roster E cfg))"
    using assms by (auto simp: build_fleet_def elim!: bind_InrE)
  have u: "node_url me = self_url"
    using me by (auto simp: self_descriptor_def Let_def node_url_def jget_JObj elim!: bind_InrE split: prod.split_asm)
  have p: "node_url (probe E n) = node_url n" for n by (simp add: node_url_def probe_fields)
  have "distinct (map (\<lambda>n. url_key (node_url n)) ns)"
    using fresh_peers_distinct [of "[url_key self_url]" "load_roster E cfg"]
    by (auto simp: ns u p comp_def dest: fresh_peers_unseen)
  moreover have "alive E cfg self_url m" if m: "m \<in> set ns" "truthy (jget m ''healthy'')" for m
  proof (cases "m = me")
    case True
    then show ?thesis using me by (simp add: alive_def)
  next
    case False
    then obtain n where n: "n \<in> set (load_roster E cfg)" "m = probe E n"
      using m(1) fresh_peers_set [of "[url_key self_url]" "load_roster E cfg"] by (auto simp: ns)
    then obtain kvs where k: "live_part E (url_key (node_url n)) = Some kvs" "truthy (jget (JObj kvs) ''healthy'')"
      using m(2) by (auto simp: probe_fields split: option.split_asm)
    show ?thesis using live_healthy [OF k] load_roster_safe [OF n(1)] n k(1) by (auto simp: alive_def probe_fields)
  qed
  ultimately show ?thesis using u by (simp add: ns)
qed

lemma find_nodes_filter: "find_nodes P ns = Inr ms \<Longrightarrow> ms = filter (\<lambda>n. P n = Inr True) ns"
  by (induction ns arbitrary: ms) (auto elim!: bind_InrE)

lemma any_matches_ex: "any_matches q rs = Inr True \<Longrightarrow> \<exists>r \<in> set rs. skill_matches q r = Inr True"
  by (induction rs) (auto elim!: bind_InrE split: if_split_asm)

lemma wanted_node:
  assumes "node_wanted skill tier ft n = Inr True"
  shows "truthy (jget n ''healthy'') \<and> (\<exists>r \<in> set (jlist (jget n ''skills'')). skill_matches skill r = Inr True)
    \<and> tier_ok (jget n ''tier'') tier = Inr True \<and> fleet_tier_ok (jget n ''fleet_tier'') ft = Inr True"
  using assms by (auto simp: node_wanted_def elim!: bind_InrE dest: any_matches_ex split: if_split_asm)

section \<open>Serving\<close>

type_synonym request = "surround \<times> desk \<times> rat \<times> wanted"

definition serve :: "string \<Rightarrow> plane \<Rightarrow> request list \<Rightarrow> plane" where
  "serve self_url = foldl (\<lambda>pl (E, D, built, w). fst (fleet_get E D self_url built pl w))"

definition start_plane :: plane where "start_plane = \<lparr>pl_cache = None, pl_buckets = []\<rparr>"

text \<open>The cache holds what one of the served requests built.\<close>

definition cache_built :: "string \<Rightarrow> request list \<Rightarrow> plane \<Rightarrow> bool" where
  "cache_built self_url reqs pl \<longleftrightarrow>
     (\<forall>ts ns. pl_cache pl = Some (ts, ns) \<longrightarrow> (\<exists>(E, D, built, w) \<in> set reqs. built = ts \<and> build_fleet E (dk_cfg D) self_url = Inr ns))"

lemma fleet_roster_built:
  assumes "fleet_roster E cfg self_url now built cache = Inr (cache', ns)"
  shows "(cache' = cache \<and> (\<exists>ts. cache = Some (ts, ns) \<and> now - ts < cache_ttl)) \<or> (cache' = Some (built, ns) \<and> build_fleet E cfg self_url = Inr ns)"
  using assms by (auto simp: fleet_roster_def elim!: bind_InrE split: option.split_asm prod.split_asm if_split_asm)

lemma with_fleet_cache:
  assumes "with_fleet E D self_url built pl k = (pl', r)" and "cache_built self_url reqs pl"
  shows "cache_built self_url ((E, D, built, w) # reqs) pl'
    \<and> (\<forall>x. r = Some x \<longrightarrow> (\<exists>ns E' D' b' w'. (E', D', b', w') \<in> set ((E, D, built, w) # reqs) \<and> build_fleet E' (dk_cfg D') self_url = Inr ns
      \<and> (b' = built \<or> dk_now D - b' < cache_ttl) \<and> k ns = Inr x))"
  using assms
  by (auto simp: with_fleet_def cache_built_def split: sum.split_asm prod.split_asm dest!: fleet_roster_built; blast)

lemma cache_built_more: "cache_built self_url reqs pl \<Longrightarrow> set reqs \<subseteq> set reqs' \<Longrightarrow> cache_built self_url reqs' pl"
  unfolding cache_built_def by blast

lemma fleet_query_cache:
  assumes "cache_built self_url reqs pl"
  shows "cache_built self_url ((E, D, built, w) # reqs) (fst (fleet_query E D self_url built pl w'))"
  using cache_built_more [OF assms, of "(E, D, built, w) # reqs"]
  by (auto simp: fleet_query_def Let_def intro: with_fleet_cache [OF prod.collapse [symmetric] assms, THEN conjunct1])

lemma fleet_rate_cache: "fleet_rate D pl pid = Inr (pl', b) \<Longrightarrow> pl_cache pl' = pl_cache pl"
  by (auto simp: fleet_rate_def Let_def elim!: bind_InrE split: prod.split_asm)

lemma cache_built_cong: "pl_cache pl' = pl_cache pl \<Longrightarrow> cache_built self_url reqs pl' = cache_built self_url reqs pl"
  by (simp add: cache_built_def)

lemma fleet_get_cache:
  assumes "cache_built self_url reqs pl"
  shows "cache_built self_url ((E, D, built, w) # reqs) (fst (fleet_get E D self_url built pl w))"
  using cache_built_more [OF assms, of "(E, D, built, w) # reqs"] fleet_query_cache [OF assms]
    fleet_query_cache [of self_url reqs] cache_built_cong [OF fleet_rate_cache, of D pl] assms
  by (auto simp: fleet_get_def split: sum.split option.split bool.split prod.split)

lemma serve_cache: "cache_built self_url reqs pl \<Longrightarrow> cache_built self_url (rev later @ reqs) (serve self_url pl later)"
proof (induction later arbitrary: pl reqs)
  case (Cons r later)
  obtain E D built w where r: "r = (E, D, built, w)" by (cases r)
  show ?case using Cons.IH [OF fleet_get_cache [OF Cons.prems, of E D built w]] by (simp add: serve_def r)
qed (simp add: serve_def)

lemma started: "cache_built self_url (rev reqs) (serve self_url start_plane reqs)"
  using serve_cache [of self_url "[]" start_plane reqs] by (simp add: cache_built_def start_plane_def)

lemma fleet_get_cases:
  assumes "fleet_get E D self_url built pl w = (pl', Some (200, said))" and "wa_path w = ''/fleet/find''"
  shows "\<exists>pid pl1. fleet_auth D (wa_auth w) = Inr (Some pid) \<and> pl_cache pl1 = pl_cache pl
    \<and> fleet_query E D self_url built pl1 w = (pl', Some (200, said))"
  using assms
  by (auto simp: fleet_get_def dest: fleet_rate_cache split: sum.split_asm option.split_asm if_split_asm prod.split_asm bool.split_asm)

lemma find_answer_200:
  "find_answer skill want_all ms = (200, said) \<Longrightarrow>
   jget said ''nodes'' = JList ms \<or> (\<exists>m ms'. ms = m # ms' \<and> jget said ''url'' = jget m ''url'')"
  by (auto simp: find_answer_def jget_JObj split: if_split_asm list.split_asm)

text \<open>
  C15: the fleet plane points only at nodes that are alive and qualify. Whatever requests were served before, with
  whatever networks and configurations, an answer 200 to a search goes to a caller the registry knows (when there is
  one), and it names nodes of one roster built during a served request, at most five seconds before, in which no node
  is listed twice: every
  node it names is this node or a peer of the configured topology, reached over http or https, that answered its
  health check with ok when the roster was built; it offers a skill that matches, and it meets the trust ceiling
  and the fleet tier that were asked for.
\<close>

theorem fleet_points_at_live_nodes:
  assumes "fleet_get E D self_url built (serve self_url start_plane reqs) w = (pl', Some (200, said))" and "wa_path w = ''/fleet/find''"
  shows "(\<exists>pid. fleet_auth D (wa_auth w) = Inr (Some pid))
    \<and> (\<exists>E' D' b' w' ns ms. (E', D', b', w') \<in> set (reqs @ [(E, D, built, w)]) \<and> build_fleet E' (dk_cfg D') self_url = Inr ns
         \<and> (b' = built \<or> dk_now D - b' < cache_ttl)
         \<and> distinct (map (\<lambda>n. url_key (node_url n)) ns) \<and> set ms \<subseteq> set ns
         \<and> (\<forall>m \<in> set ms. alive E' (dk_cfg D') self_url m
              \<and> (\<exists>r \<in> set (jlist (jget m ''skills'')). skill_matches (dget_default (wa_query w) ''skill'' []) r = Inr True)
              \<and> tier_ok (jget m ''tier'') (dget (wa_query w) ''tier'') = Inr True
              \<and> fleet_tier_ok (jget m ''fleet_tier'') (dget (wa_query w) ''fleet_tier'') = Inr True)
         \<and> (jget said ''nodes'' = JList ms \<or> (\<exists>m ms'. ms = m # ms' \<and> jget said ''url'' = jget m ''url'')))"
proof -
  let ?skill = "dget_default (wa_query w) ''skill'' []"
  let ?P = "node_wanted ?skill (dget (wa_query w) ''tier'') (dget (wa_query w) ''fleet_tier'')"
  let ?k = "\<lambda>ns. bindR (find_nodes ?P ns) (\<lambda>ms. Inr (find_answer ?skill (dget_default (wa_query w) ''all'' ''0'' \<in> {''1'', ''true'', ''yes''}) ms))"
  obtain pid pl1 where a: "fleet_auth D (wa_auth w) = Inr (Some pid)" "pl_cache pl1 = pl_cache (serve self_url start_plane reqs)"
    "fleet_query E D self_url built pl1 w = (pl', Some (200, said))" using fleet_get_cases [OF assms] by blast
  have "with_fleet E D self_url built pl1 ?k = (pl', Some (200, said))"
    using a(3) assms(2) by (simp add: fleet_query_def Let_def err_def split: if_split_asm)
  moreover have "cache_built self_url (rev reqs) pl1" using started cache_built_cong [OF a(2)] by blast
  ultimately obtain ns E' D' b' w' where n: "(E', D', b', w') \<in> set ((E, D, built, w) # rev reqs)" "build_fleet E' (dk_cfg D') self_url = Inr ns"
    "?k ns = Inr (200, said)" "b' = built \<or> dk_now D - b' < cache_ttl" using with_fleet_cache [of E D self_url built pl1 ?k pl' "Some (200, said)" "rev reqs"] by blast
  from n(3) obtain ms where ms: "find_nodes ?P ns = Inr ms"
    "find_answer ?skill (dget_default (wa_query w) ''all'' ''0'' \<in> {''1'', ''true'', ''yes''}) ms = (200, said)" by (auto elim!: bind_InrE)
  have f: "ms = filter (\<lambda>n. ?P n = Inr True) ns" by (rule find_nodes_filter [OF ms(1)])
  have "(E', D', b', w') \<in> set (reqs @ [(E, D, built, w)])" using n(1) by auto
  moreover have "\<forall>m \<in> set ms. alive E' (dk_cfg D') self_url m
              \<and> (\<exists>r \<in> set (jlist (jget m ''skills'')). skill_matches ?skill r = Inr True)
              \<and> tier_ok (jget m ''tier'') (dget (wa_query w) ''tier'') = Inr True
              \<and> fleet_tier_ok (jget m ''fleet_tier'') (dget (wa_query w) ''fleet_tier'') = Inr True"
    using built_nodes [OF n(2)] wanted_node unfolding f by fastforce
  moreover have "set ms \<subseteq> set ns" unfolding f by auto
  ultimately show ?thesis using a(1) n(2,4) built_nodes [OF n(2)] find_answer_200 [OF ms(2)] by blast
qed

text \<open>An open node with one live peer and one dead one.\<close>

definition sample_net :: surround where
  "sample_net =
     \<lparr>su_scheme = (\<lambda>_. Some ''http''),
      su_get = (\<lambda>u. if u = ''http://b/health'' then Some (JObj [(''status'', JStr ''ok'')])
                   else if u = ''http://b/catalog'' then Some (JObj [(''skills'', JList [JObj [(''skill'', JStr ''gen:fs'')]])]) else None),
      su_fleet_url = [], su_provider = (\<lambda>_. None), su_fleet_file = ''f'',
      su_read = (\<lambda>_. Some (JList [JObj [(''url'', JStr ''http://c'')], JObj [(''url'', JStr ''http://b/''), (''tier'', JStr ''core'')]])),
      su_catalog = None, su_chip = None, su_provenance = None, su_hostname = ''a'', su_clock = 7\<rparr>"

definition fleet_desk :: desk where
  "fleet_desk = sample_desk \<lparr>dk_reg := [], dk_cfg := JObj []\<rparr>"

definition sample_search :: wanted where
  "sample_search = \<lparr>wa_path = ''/fleet/find'', wa_query = [(''skill'', ''fs''), (''tier'', ''core'')], wa_auth = []\<rparr>"

lemma sample_found:
  "map_option (\<lambda>r. (fst r, jget (snd r) ''url'')) (snd (fleet_get sample_net fleet_desk ''http://a'' 1 (serve ''http://a'' start_plane []) sample_search))
   = Some (200, JStr ''http://b/'')"
  by code_simp

theorem fleet_points_at_live_nodes_witness:
  "\<exists>pl' said ns. fleet_get sample_net fleet_desk ''http://a'' 1 (serve ''http://a'' start_plane []) sample_search = (pl', Some (200, said))
     \<and> jget said ''url'' = JStr ''http://b/'' \<and> build_fleet sample_net (dk_cfg fleet_desk) ''http://a'' = Inr ns"
proof -
  obtain pl' said where p: "fleet_get sample_net fleet_desk ''http://a'' 1 (serve ''http://a'' start_plane []) sample_search = (pl', Some (200, said))"
    and u: "jget said ''url'' = JStr ''http://b/''"
    using sample_found by (cases "fleet_get sample_net fleet_desk ''http://a'' 1 (serve ''http://a'' start_plane []) sample_search") auto
  have "wa_path sample_search = ''/fleet/find''" by (simp add: sample_search_def)
  from fleet_points_at_live_nodes [OF p this] p u show ?thesis by auto
qed

text \<open>
  A roster whose matching node has a list for its tier makes every search with a trust ceiling raise.
\<close>

lemma listed_tier_raises:
  "truthy (jget n ''healthy'') \<Longrightarrow> any_matches skill (jlist (jget n ''skills'')) = Inr True \<Longrightarrow> jget n ''tier'' = JList xs \<Longrightarrow>
   trust_rank t \<noteq> None \<Longrightarrow> node_wanted skill (Some t) ft n = Inl TypeError"
  by (auto simp: node_wanted_def tier_ok_def node_rank_def)

end
