(* ===== verification/Executor.thy ===== *)
theory Executor
  imports Runs
begin

text \<open>
  The local channel: the script compiled from a task (\<open>build_script\<close> of \<open>src/infra/govern/compiler.py\<close>), and
  the executor that is the only way to run it (\<open>executor.py\<close> with \<open>oversight.py\<close>): the snapshot, the scan, the
  refusal of root, the steps of the blessed plan, the upstream gate, the check of each porter at its use and the
  run ledger; the server-side variant of one claim (\<open>govd_executor.py\<close>) with the secrets of \<open>vault.py\<close>. The regex
  engine, the hash, the JSON parser and what \<open>bash\<close> does to the files are fields of \<open>channel_env\<close>; the ledger
  file is kept apart from the other files. The em dash in a comment of the script is written as two hyphens.
\<close>

section \<open>The compiled script\<close>

definition shell_safe :: "char \<Rightarrow> bool" where
  "shell_safe c \<longleftrightarrow> c \<in> set ''ABCDEFGHIJKLMNOPQRSTUVWXYZabcdefghijklmnopqrstuvwxyz0123456789_@%+=:,./-''"

definition squote :: string where "squote = [CHR 0x27]"

definition shell_quote :: "string \<Rightarrow> string" where
  "shell_quote s =
     (if s = [] then squote @ squote
      else if list_all shell_safe s then s
      else squote @ concat (map (\<lambda>c. if [c] = squote then squote @ dquoted squote @ squote else [c]) s) @ squote)"

text \<open>The lines up to the steps; \<open>env\<close> are the values of the task, \<open>RECORD_STORE\<close> among them.\<close>

definition script_head :: "string \<Rightarrow> string \<Rightarrow> string \<Rightarrow> (string, json) dict \<Rightarrow> string list" where
  "script_head skill perk snip env =
     [''#!/usr/bin/env bash'',
      ''# COMPILED by cyberware '' @ [CHR 0xB7] @ '' skill='' @ skill @ '' perk='' @ perk,
      ''# Run ONLY through executor.py -- it is the governed channel. Proven-pathway snippets live in the registry.'',
      ''set -uo pipefail'',
      ''export '' @ join_with '' '' (map (\<lambda>(k, v). k @ ''='' @ shell_quote (py_str v)) env),
      ''mkdir -p '' @ dquoted ''$RECORD_STORE'',
      ''SNIP='' @ shell_quote snip, []]"

definition script_text :: "string \<Rightarrow> string \<Rightarrow> string \<Rightarrow> (string, json) dict \<Rightarrow> json \<Rightarrow> json list \<Rightarrow> string" where
  "script_text skill perk snip env oe sq =
     join_with nl (script_head skill perk snip env @ concat (map (step_lines oe sq) (numbered sq)) @ dispatch_lines sq)"

text \<open>
  Where a run's artifacts go (\<open>src/infra/govern/runlog.py\<close>): an explicit directory, resolved by the operating
  system, or one named after the task below the root.
\<close>

definition is_default :: "json \<Rightarrow> bool" where
  "is_default v = (case v of JStr s \<Rightarrow> strip s = [] \<or> prefix ''<'' (strip s) \<or> prefix ''${'' (strip s) | _ \<Rightarrow> True)"

definition run_dir :: "(string \<Rightarrow> string) \<Rightarrow> (string \<Rightarrow> string) \<Rightarrow> string \<Rightarrow> json \<Rightarrow> string res" where
  "run_dir resolve sha1 logs L =
     (case jget_or L ''record_store'' (JStr []) of
        JStr s \<Rightarrow>
          if \<not> is_default (JStr s) then Inr (resolve (strip s))
          else bindR (item L ''skill'') (\<lambda>skill. bindR (item L ''perk'') (\<lambda>perk.
                 Inr (os_join logs (py_str skill @ ''__'' @ py_str perk @ ''__'' @ take 8 (sha1 (dumps_sorted (jget_or L ''vars'' (JObj []))))))))
      | _ \<Rightarrow> bindR (item L ''skill'') (\<lambda>skill. bindR (item L ''perk'') (\<lambda>perk.
                 Inr (os_join logs (py_str skill @ ''__'' @ py_str perk @ ''__'' @ take 8 (sha1 (dumps_sorted (jget_or L ''vars'' (JObj [])))))))))"

definition build_script ::
  "(string \<Rightarrow> json option) \<Rightarrow> os_fs \<Rightarrow> string \<Rightarrow> (json \<Rightarrow> string res) \<Rightarrow> json \<Rightarrow> (string \<times> json list) res" where
  "build_script ld F chip dir_of L =
     bindR (item_text L ''skill'') (\<lambda>skill. bindR (item_text L ''perk'') (\<lambda>perk.
       let pdir = perk_path F chip skill perk; snip = os_join pdir ''src''
       in bindR (dir_of L) (\<lambda>store. bindR (get_items L ''vars'') (\<lambda>vars.
          bindR (load_json ld F (os_join pdir ''manifesto.json'')) (\<lambda>manifesto.
          bindR (load_json ld F (os_joins pdir [''src'', ''contracts.json''])) (\<lambda>contract.
          bindR (py_get manifesto ''sequence'' (JList [])) (\<lambda>s. bindR (as_list s) (\<lambda>sq.
          bindR (if sq = [] then Inr JNull
                 else bindR (py_get contract ''checks'' (JObj [])) (\<lambda>c. py_get c ''output_exists'' JNull)) (\<lambda>oe.
            Inr (script_text skill perk snip (dput ''RECORD_STORE'' (JStr store) vars) oe sq, sq))))))))))"

section \<open>Reading the script\<close>

fun lines_of :: "string \<Rightarrow> string list" where
  "lines_of [] = [[]]"
| "lines_of (c # s) =
     (if c = CHR 0x0A \<or> c = CHR 0x0D then [] # lines_of s
      else case lines_of s of [] \<Rightarrow> [[c]] | l # rest \<Rightarrow> (c # l) # rest)"

text \<open>\<open>('([^']*)'|"([^"]*)"|(\S+))\<close> at the start of a text: its content.\<close>

definition quoted_or_word :: "string \<Rightarrow> string option" where
  "quoted_or_word s =
     (let w = takeWhile (\<lambda>c. \<not> is_space c) s
      in case s of
           c # r \<Rightarrow>
             if (c = CHR 0x27 \<or> c = CHR 0x22) \<and> c \<in> set r then Some (takeWhile (\<lambda>x. x \<noteq> c) r)
             else if w = [] then None else Some w
         | [] \<Rightarrow> None)"

definition snip_in :: "string \<Rightarrow> string option" where
  "snip_in line = (if prefix ''SNIP='' line then quoted_or_word (drop 5 line) else None)"

fun first_some :: "('a \<Rightarrow> 'b option) \<Rightarrow> 'a list \<Rightarrow> 'b option" where
  "first_some f [] = None"
| "first_some f (x # xs) = (case f x of Some y \<Rightarrow> Some y | None \<Rightarrow> first_some f xs)"

definition snip_of :: "string \<Rightarrow> string" where
  "snip_of script = (case first_some snip_in (lines_of script) of Some s \<Rightarrow> s | None \<Rightarrow> [])"

definition record_store_of :: "string \<Rightarrow> string option" where
  "record_store_of script = first_some (\<lambda>l. first_some (\<lambda>s. if prefix ''RECORD_STORE='' s then quoted_or_word (drop 13 s) else None) (rev (suffixes l)))
     (lines_of script)"

text \<open>The digests of the perk's files, from the index three directories above.\<close>

definition blessed_snippets :: "(string \<Rightarrow> json option) \<Rightarrow> os_fs \<Rightarrow> string \<Rightarrow> (string, json) dict" where
  "blessed_snippets ld F snip =
     (let prefix = ''perks/'' @ base_name (dir_name snip) @ ''/src/''
      in if snip = [] then []
         else case bindR (load_json ld F (os_join (dir_name (dir_name (dir_name snip))) ''index.json'')) (\<lambda>idx. get_items idx ''files'') of
           Inl _ \<Rightarrow> []
         | Inr files \<Rightarrow> map (\<lambda>(rel, h). (drop (length prefix) rel, h)) (filter (\<lambda>(rel, h). starts_with rel prefix) files))"

section \<open>The channel\<close>

text \<open>
  A run of bash ends with a code, its output and its duration; or it outlives the limit; or it ends with output
  that is no text, and then \<open>subprocess.run\<close> raises \<open>UnicodeDecodeError\<close>, a \<open>ValueError\<close>.
\<close>

datatype outcome = TimedOut | Ended int string json | Undecodable

record channel_env =
  x_rules :: json
  x_deny :: "json list"
  x_search :: "string \<Rightarrow> string \<Rightarrow> bool"
  x_hash :: "string \<Rightarrow> string"
  x_loads :: "string \<Rightarrow> json option"
  x_bash :: "os_fs \<Rightarrow> string \<Rightarrow> string \<Rightarrow> outcome \<times> os_fs"
  x_euid :: nat
  x_allow_root :: bool
  x_clock :: "nat \<Rightarrow> string"

text \<open>
  One use of bash: its step, and the files it was given. The channel: the files, the ledger in memory and on disk,
  and the uses of bash so far.
\<close>

record execution =
  e_step :: string
  e_files :: os_fs

record channel =
  c_files :: os_fs
  c_runs :: "json list"
  c_saved :: "json list option"
  c_trace :: "execution list"

definition rule :: "channel_env \<Rightarrow> string \<Rightarrow> bool" where
  "rule E k = truthy (jget_or (x_rules E) k (JBool True))"

definition short :: "channel_env \<Rightarrow> string \<Rightarrow> string" where "short E s = take 16 (x_hash E s)"

text \<open>An entry of the ledger, saved at once.\<close>

definition jot :: "channel_env \<Rightarrow> (string, json) dict \<Rightarrow> channel \<Rightarrow> channel" where
  "jot E kvs cs =
     (let runs = c_runs cs @ [JObj ((''ts'', JStr (x_clock E (length (c_runs cs)))) # kvs)]
      in cs \<lparr>c_runs := runs, c_saved := Some runs\<rparr>)"

definition write_file :: "string \<Rightarrow> string \<Rightarrow> os_fs \<Rightarrow> os_fs" where
  "write_file p text F = F \<lparr>f_isfile := (f_isfile F) (p := True), f_read := (f_read F) (p := Some text)\<rparr>"

definition backup_of :: "channel_env \<Rightarrow> string \<Rightarrow> string" where
  "backup_of E script = os_join (dir_name script) (''.'' @ base_name script @ py_str (jget_or (x_rules E) ''backup_suffix'' (JStr ''.bk'')))"

subsection \<open>The gates before any step\<close>

fun scan :: "(string \<Rightarrow> string \<Rightarrow> bool) \<Rightarrow> json list \<Rightarrow> string \<Rightarrow> string list \<Rightarrow> (json list \<times> json list) res" where
  "scan seek [] text approve = Inr ([], [])"
| "scan seek (r # rs) text approve =
     bindR (item_text r ''pattern'') (\<lambda>p.
       bindR (if seek p text then bindR (item r ''id'') (\<lambda>i. Inr (Some (i \<in> JStr ` set approve \<and> truthy (jget r ''approvable'')))) else Inr None) (\<lambda>hit.
       bindR (scan seek rs text approve) (\<lambda>(violations, waived).
         Inr (case hit of None \<Rightarrow> (violations, waived) | Some True \<Rightarrow> (violations, r # waived) | Some False \<Rightarrow> (r # violations, waived)))))"

definition rule_ids :: "json list \<Rightarrow> json" where "rule_ids rs = JList (map (\<lambda>r. jget r ''id'') rs)"

type_synonym gate_result = "channel \<times> int option res"

text \<open>A gate passes (\<open>None\<close>) or ends the run with an exit code.\<close>

definition tamper_gate :: "channel_env \<Rightarrow> string \<Rightarrow> string \<Rightarrow> channel \<Rightarrow> gate_result" where
  "tamper_gate E script body0 cs =
     (let bk = backup_of E script
      in if \<not> rule E ''tamper_check'' then (cs, Inr None)
         else if \<not> f_isfile (c_files cs) bk then (cs \<lparr>c_files := write_file bk body0 (c_files cs)\<rparr>, Inr None)
         else if f_read (c_files cs) bk \<noteq> Some body0
         then (jot E [(''event'', JStr ''tamper_refused''), (''sha'', JStr (short E body0))] cs, Inr (Some 4))
         else (cs, Inr None))"

definition oversight_gate :: "channel_env \<Rightarrow> string list \<Rightarrow> string \<Rightarrow> channel \<Rightarrow> gate_result" where
  "oversight_gate E approve body0 cs =
     (if \<not> rule E ''oversight_check'' then (cs, Inr None)
      else case scan (x_search E) (x_deny E) body0 approve of
        Inl e \<Rightarrow> (cs, Inl e)
      | Inr (violations, waived) \<Rightarrow>
          let cs1 = (if waived = [] then cs
                     else jot E [(''event'', JStr ''oversight_waived''), (''rules'', rule_ids waived), (''sha'', JStr (short E body0))] cs)
          in if violations = [] then (cs1, Inr None)
             else (jot E [(''event'', JStr ''oversight_refused''), (''rules'', rule_ids violations), (''sha'', JStr (short E body0))] cs1,
                   Inr (Some 7)))"

definition noroot_gate :: "channel_env \<Rightarrow> channel \<Rightarrow> gate_result" where
  "noroot_gate E cs =
     (if x_euid E = 0 \<and> \<not> x_allow_root E
      then (jot E [(''event'', JStr ''root_refused''), (''euid'', JInt (int (x_euid E)))] cs, Inr (Some 9))
      else (cs, Inr None))"

definition then_gate :: "gate_result \<Rightarrow> (channel \<Rightarrow> gate_result) \<Rightarrow> gate_result" where
  "then_gate r k = (case r of (cs, Inr None) \<Rightarrow> k cs | _ \<Rightarrow> r)"

subsection \<open>The steps\<close>

definition recorded_steps :: "json list \<Rightarrow> json list res" where
  "recorded_steps runs =
     bindR (mapR (\<lambda>r. if is_obj r then Inr r else Inl AttributeError) runs) (\<lambda>rs.
       Inr (map (\<lambda>r. jget r ''step'') (filter (\<lambda>r. jget r ''status'' = JStr ''ok'' \<and> jhas r ''step'') rs)))"

definition upstream_missing :: "json list \<Rightarrow> nat \<Rightarrow> string list" where
  "upstream_missing past n = filter (\<lambda>s. JStr s \<notin> set past) (map show_nat [1..<n])"

text \<open>\<open>(stdout.strip().splitlines() or [""])[-1]\<close>, for outputs with line feeds.\<close>

definition last_line :: "string \<Rightarrow> string" where
  "last_line out = List.last (lines_of (strip out))"

definition run_note :: "channel_env \<Rightarrow> string \<Rightarrow> int \<Rightarrow> string \<Rightarrow> json \<Rightarrow> (string, json) dict" where
  "run_note E st code out secs =
     [(''step'', JStr st), (''status'', JStr (if code = 0 then ''ok'' else ''error'')), (''exit'', JInt code), (''seconds'', secs),
      (''stdout_sha'', JStr (short E out)), (''stdout_tail'', JStr (last_line out))]"

definition upstream_gate :: "channel_env \<Rightarrow> json list \<Rightarrow> string \<Rightarrow> int option res" where
  "upstream_gate E past st =
     (if \<not> rule E ''require_upstream'' then Inr None
      else if \<not> is_digits st then Inr (Some 2)
      else bindR (int_text st) (\<lambda>n. Inr (if n < 1 then Some 2 else if upstream_missing past n \<noteq> [] then Some 5 else None)))"

definition run_one ::
  "channel_env \<Rightarrow> string \<Rightarrow> bool \<Rightarrow> (string, json) dict \<Rightarrow> (string, json) dict \<Rightarrow> string \<Rightarrow> json list \<Rightarrow> string \<Rightarrow> channel \<Rightarrow> gate_result" where
  "run_one E script on step_tool blessed snip past st cs =
     (case upstream_gate E past st of
        Inl e \<Rightarrow> (cs, Inl e)
      | Inr (Some code) \<Rightarrow> (cs, Inr (Some code))
      | Inr None \<Rightarrow>
          (case snippet_decision (x_hash E) (c_files cs) on st step_tool blessed snip of
             Inl e \<Rightarrow> (cs, Inl e)
           | Inr chk \<Rightarrow>
               if sc_refuse chk
               then (jot E [(''event'', JStr ''snippet_refused''), (''step'', JStr st), (''tool'', dget_default step_tool st JNull),
                             (''file'', case sc_file chk of None \<Rightarrow> JNull | Some f \<Rightarrow> JStr f), (''expected'', sc_want chk), (''found'', sc_found chk)] cs,
                     Inr (Some 8))
               else (case x_bash E (c_files cs) script st of
                       (out, fs) \<Rightarrow>
                         let cs1 = cs \<lparr>c_files := fs, c_trace := c_trace cs @ [\<lparr>e_step = st, e_files = c_files cs\<rparr>]\<rparr>
                         in case out of
                              Undecodable \<Rightarrow> (cs1, Inl ValueError)
                            | TimedOut \<Rightarrow> (jot E [(''step'', JStr st), (''status'', JStr ''timeout'')] cs1, Inr (Some 6))
                            | Ended code text secs \<Rightarrow> (jot E (run_note E st code text secs) cs1, Inr (if code = 0 then None else Some code)))))"

fun run_steps ::
  "channel_env \<Rightarrow> string \<Rightarrow> bool \<Rightarrow> (string, json) dict \<Rightarrow> (string, json) dict \<Rightarrow> string \<Rightarrow> json list \<Rightarrow> string list \<Rightarrow> channel \<Rightarrow> gate_result" where
  "run_steps E script on step_tool blessed snip past [] cs = (cs, Inr None)"
| "run_steps E script on step_tool blessed snip past (st # sts) cs =
     then_gate (run_one E script on step_tool blessed snip past st cs) (run_steps E script on step_tool blessed snip (past @ [JStr st]) sts)"

datatype selection = AllSteps | OneStep string | NoStep

definition chosen :: "selection \<Rightarrow> string list \<Rightarrow> string list option" where
  "chosen sel declared =
     (case sel of
        AllSteps \<Rightarrow> Some declared
      | OneStep s \<Rightarrow> if s = [] then None else if strip s \<in> set declared then Some [strip s] else None
      | NoStep \<Rightarrow> None)"

definition planned :: "channel_env \<Rightarrow> string \<Rightarrow> selection \<Rightarrow> channel \<Rightarrow> gate_result" where
  "planned E script sel cs =
     (case f_read (c_files cs) script of
        None \<Rightarrow> (cs, Inl OSError)
      | Some text \<Rightarrow>
          let snip = snip_of text; blessed = blessed_snippets (x_loads E) (c_files cs) snip;
              (declared, step_tool) = plan_steps (x_loads E) (x_hash E) (c_files cs) snip
          in if declared = [] then (cs, Inr (Some 2))
             else case chosen sel declared of
               None \<Rightarrow> (cs, Inr (Some 2))
             | Some sts \<Rightarrow>
                 (case recorded_steps (c_runs cs) of
                    Inl e \<Rightarrow> (cs, Inl e)
                  | Inr past \<Rightarrow> run_steps E script (snip \<noteq> [] \<and> step_tool \<noteq> []) step_tool blessed snip past sts cs))"

text \<open>One invocation: the ledger is read, the gates are passed in order, and the steps run; the exit code is 0 at the end.\<close>

definition execute :: "channel_env \<Rightarrow> string \<Rightarrow> selection \<Rightarrow> string list \<Rightarrow> channel \<Rightarrow> channel \<times> int res" where
  "execute E script sel approve cs0 =
     (let cs = cs0 \<lparr>c_runs := (case c_saved cs0 of None \<Rightarrow> [] | Some rs \<Rightarrow> rs), c_trace := []\<rparr>
      in case f_read (c_files cs) script of
           None \<Rightarrow> (cs, Inl OSError)
         | Some body0 \<Rightarrow>
             (case then_gate (then_gate (then_gate (tamper_gate E script body0 cs) (oversight_gate E approve body0)) (noroot_gate E)) (planned E script sel) of
                (cs', r) \<Rightarrow> (cs', bindR r (\<lambda>code. Inr (case code of None \<Rightarrow> 0 | Some c \<Rightarrow> c)))))"

section \<open>The ledger stays in order\<close>

definition ledger_of :: "channel \<Rightarrow> json list" where
  "ledger_of cs = (case c_saved cs of None \<Rightarrow> [] | Some rs \<Rightarrow> rs)"

definition ok_of :: "json list \<Rightarrow> json set" where
  "ok_of runs = (\<lambda>r. jget r ''step'') ` {r \<in> set runs. jget r ''status'' = JStr ''ok'' \<and> jhas r ''step''}"

text \<open>A record of a run stands behind successful records of all steps before its own.\<close>

definition behind :: "json list \<Rightarrow> json \<Rightarrow> bool" where
  "behind pre r \<longleftrightarrow>
     (jhas r ''status'' \<longrightarrow> (\<forall>n k. jget r ''step'' = JStr (show_nat n) \<longrightarrow> 1 \<le> k \<longrightarrow> k < n \<longrightarrow> JStr (show_nat k) \<in> ok_of pre))"

definition in_order :: "json list \<Rightarrow> bool" where
  "in_order runs \<longleftrightarrow> (\<forall>i < length runs. behind (take i runs) (runs ! i))"


text \<open>The runs a ledger records: step and status.\<close>

definition run_notes :: "json list \<Rightarrow> (json \<times> json) list" where
  "run_notes runs = map (\<lambda>r. (jget r ''step'', jget r ''status'')) (filter (\<lambda>r. jhas r ''status'') runs)"

text \<open>What bash answered a use, and what the ledger has to say of it: nothing, when the output was no text.\<close>

definition answer_of :: "channel_env \<Rightarrow> string \<Rightarrow> execution \<Rightarrow> outcome" where
  "answer_of E script t = fst (x_bash E (e_files t) script (e_step t))"

definition noted :: "channel_env \<Rightarrow> string \<Rightarrow> execution \<Rightarrow> (json \<times> json) option" where
  "noted E script t =
     (case answer_of E script t of
        Undecodable \<Rightarrow> None
      | TimedOut \<Rightarrow> Some (JStr (e_step t), JStr ''timeout'')
      | Ended code text secs \<Rightarrow> Some (JStr (e_step t), JStr (if code = 0 then ''ok'' else ''error'')))"



lemma jot_simps [simp]:
  "c_trace (jot E kvs cs) = c_trace cs" "c_files (jot E kvs cs) = c_files cs" "ledger_of (jot E kvs cs) = c_runs (jot E kvs cs)"
  "c_runs (jot E kvs cs) = c_runs cs @ [JObj ((''ts'', JStr (x_clock E (length (c_runs cs)))) # kvs)]"
  by (simp_all add: jot_def Let_def ledger_of_def)

lemma ok_of_mono: "ok_of runs \<subseteq> ok_of (runs @ rs)"
  by (auto simp: ok_of_def)





text \<open>What holds of the ledger and the trace all along.\<close>

definition sound :: "channel_env \<Rightarrow> string \<Rightarrow> json list \<Rightarrow> channel \<Rightarrow> bool" where
  "sound E script base cs \<longleftrightarrow> in_order (c_runs cs) \<and> ledger_of cs = c_runs cs
     \<and> run_notes (c_runs cs) = run_notes base @ List.map_filter (noted E script) (c_trace cs)"


lemma sound_files [simp]: "sound E script base (cs \<lparr>c_files := F\<rparr>) = sound E script base cs"
  by (simp add: sound_def ledger_of_def)

lemma jhas_JObj [simp]: "jhas (JObj kvs) k \<longleftrightarrow> dget kvs k \<noteq> None"
  by (simp add: jhas_def obj_members_def)







section \<open>What one invocation does\<close>




















text \<open>Two steps on a small registry; bash leaves the files alone.\<close>

definition toy_files :: os_fs where
  "toy_files =
     \<lparr>f_isdir = (\<lambda>_. False), f_isfile = (\<lambda>p. p \<in> {''/c/s/perks/p/src/a.sh'', ''/c/s/perks/p/src/b.sh''}), f_listdir = (\<lambda>_. []),
      f_read = (\<lambda>p. if p = ''/r/run.sh'' then Some (''set -u'' @ nl @ ''SNIP=/c/s/perks/p/src'' @ nl)
                  else if p = ''/c/s/index.json'' then Some ''i'' else if p = ''/c/s/perks/p/manifesto.json'' then Some ''m''
                  else if p = ''/c/s/perks/p/src/a.sh'' then Some ''A'' else if p = ''/c/s/perks/p/src/b.sh'' then Some ''B'' else None),
      f_walk = (\<lambda>_. [])\<rparr>"

definition toy_channel :: "(os_fs \<Rightarrow> string \<Rightarrow> string \<Rightarrow> outcome \<times> os_fs) \<Rightarrow> channel_env" where
  "toy_channel bash =
     \<lparr>x_rules = JObj [], x_deny = [JObj [(''id'', JStr ''sudo''), (''pattern'', JStr ''sudo''), (''approvable'', JBool False)]],
      x_search = (\<lambda>p t. contains t p), x_hash = (\<lambda>t. t),
      x_loads = (\<lambda>t. if t = ''i'' then Some (JObj [(''files'', JObj [(''perks/p/manifesto.json'', JStr ''m''), (''perks/p/src/a.sh'', JStr ''A''),
                                                          (''perks/p/src/b.sh'', JStr ''B'')])])
                   else if t = ''m'' then Some (JObj [(''sequence'', JList [JStr ''a'', JStr ''b''])]) else None),
      x_bash = bash, x_euid = 7, x_allow_root = False, x_clock = (\<lambda>_. ''now'')\<rparr>"

definition toy_state :: channel where
  "toy_state = \<lparr>c_files = toy_files, c_runs = [], c_saved = None, c_trace = []\<rparr>"

abbreviation still :: "os_fs \<Rightarrow> string \<Rightarrow> string \<Rightarrow> outcome \<times> os_fs" where
  "still \<equiv> (\<lambda>F p st. (Ended 0 [] JNull, F))"

lemma toy_backup: "backup_of (toy_channel bash) ''/r/run.sh'' = ''/r/.run.sh.bk''"
proof -
  have "backup_of (toy_channel bash) ''/r/run.sh'' = backup_of (toy_channel still) ''/r/run.sh''" by (simp add: backup_of_def toy_channel_def)
  also have "\<dots> = ''/r/.run.sh.bk''" by code_simp
  finally show ?thesis .
qed

definition toy_script :: string where "toy_script = ''set -u'' @ nl @ ''SNIP=/c/s/perks/p/src'' @ nl"

definition toy_start :: channel where
  "toy_start = toy_state \<lparr>c_files := write_file ''/r/.run.sh.bk'' toy_script toy_files\<rparr>"

definition toy_plan :: "(string, json) dict" where "toy_plan = [(''1'', JStr ''a''), (''2'', JStr ''b'')]"
definition toy_blessed :: "(string, json) dict" where "toy_blessed = [(''a.sh'', JStr ''A''), (''b.sh'', JStr ''B'')]"

lemma toy_read: "snip_of toy_script = ''/c/s/perks/p/src''" "\<not> contains toy_script ''sudo''"
  by code_simp+

lemma toy_rules: "rule (toy_channel bash) k"
  by (simp add: rule_def toy_channel_def jget_or_def obj_members_def)

lemma toy_gates: "execute (toy_channel bash) ''/r/run.sh'' AllSteps [] toy_state
    = (case run_steps (toy_channel bash) ''/r/run.sh'' True toy_plan toy_blessed ''/c/s/perks/p/src'' [] [''1'', ''2''] toy_start of
         (cs, r) \<Rightarrow> (cs, bindR r (\<lambda>code. Inr (case code of None \<Rightarrow> 0 | Some c \<Rightarrow> c))))"
proof -
  let ?F = "c_files toy_start"
  have c: "plan_steps (x_loads (toy_channel still)) (x_hash (toy_channel still)) ?F ''/c/s/perks/p/src'' = ([''1'', ''2''], toy_plan)"
      "blessed_snippets (x_loads (toy_channel still)) ?F ''/c/s/perks/p/src'' = toy_blessed"
    by code_simp+
  have E: "x_loads (toy_channel bash) = x_loads (toy_channel still)" "x_hash (toy_channel bash) = x_hash (toy_channel still)"
    by (simp_all add: toy_channel_def)
  have f: "f_read toy_files ''/r/run.sh'' = Some toy_script" "f_read ?F ''/r/run.sh'' = Some toy_script" "\<not> f_isfile toy_files ''/r/.run.sh.bk''"
    by (simp_all add: toy_files_def toy_start_def toy_state_def toy_script_def write_file_def)
  have c0: "c_runs toy_start = []" by (simp add: toy_start_def toy_state_def)
  have t: "tamper_gate (toy_channel bash) ''/r/run.sh'' toy_script toy_state = (toy_start, Inr None)"
    using f(3) by (simp add: tamper_gate_def toy_backup Let_def toy_rules toy_start_def) (simp add: toy_state_def)
  have o: "oversight_gate (toy_channel bash) [] toy_script toy_start = (toy_start, Inr None)"
    using toy_read(2) by (simp add: oversight_gate_def toy_rules) (simp add: toy_channel_def item_text_def item_def obj_members_def bindR_def)
  have n: "noroot_gate (toy_channel bash) toy_start = (toy_start, Inr None)" by (simp add: noroot_gate_def toy_channel_def)
  have p: "planned (toy_channel bash) ''/r/run.sh'' AllSteps toy_start
      = run_steps (toy_channel bash) ''/r/run.sh'' True toy_plan toy_blessed ''/c/s/perks/p/src'' [] [''1'', ''2''] toy_start"
    using f(2) c0 by (simp add: planned_def toy_read E c Let_def chosen_def recorded_steps_def toy_plan_def)
  show ?thesis using f(1) t o n p by (simp add: execute_def Let_def then_gate_def toy_state_def del: run_steps.simps)
qed

lemma toy_upstream: "upstream_gate (toy_channel bash) [] ''1'' = Inr None" "upstream_gate (toy_channel bash) [JStr ''1''] ''2'' = Inr None"
proof -
  have "upstream_gate (toy_channel bash) = upstream_gate (toy_channel still)" by (intro ext) (simp add: upstream_gate_def rule_def toy_channel_def)
  moreover have "upstream_gate (toy_channel still) [] ''1'' = Inr None" "upstream_gate (toy_channel still) [JStr ''1''] ''2'' = Inr None" by code_simp+
  ultimately show "upstream_gate (toy_channel bash) [] ''1'' = Inr None" "upstream_gate (toy_channel bash) [JStr ''1''] ''2'' = Inr None" by simp_all
qed

text \<open>A step whose gates pass and whose script ends well.\<close>

lemma run_one_ok:
  assumes "upstream_gate E past st = Inr None" and "snippet_decision (x_hash E) (c_files cs) on st step_tool blessed snip = Inr chk"
    and "\<not> sc_refuse chk" and "x_bash E (c_files cs) script st = (Ended 0 out secs, fs)"
  obtains cs' where "run_one E script on step_tool blessed snip past st cs = (cs', Inr None)" and "c_files cs' = fs"
    and "c_trace cs' = c_trace cs @ [\<lparr>e_step = st, e_files = c_files cs\<rparr>]"
  using assms by (auto simp: run_one_def Let_def)

lemma toy_run:
  assumes "bash (c_files toy_start) ''/r/run.sh'' ''1'' = (Ended 0 [] JNull, F)" and "bash F ''/r/run.sh'' ''2'' = (Ended 0 [] JNull, F2)"
    and "snippet_decision (\<lambda>t. t) F True ''2'' toy_plan toy_blessed ''/c/s/perks/p/src'' = Inr chk2" and "\<not> sc_refuse chk2"
  obtains cs' where "execute (toy_channel bash) ''/r/run.sh'' AllSteps [] toy_state = (cs', Inr 0)"
    and "map e_step (c_trace cs') = [''1'', ''2'']" and "map (\<lambda>t. f_read (e_files t) ''/r/run.sh'') (c_trace cs') = [Some toy_script, f_read F ''/r/run.sh'']"
proof -
  let ?F = "c_files toy_start"
  have "map_sum (\<lambda>_. ()) sc_refuse (snippet_decision (\<lambda>t. t) ?F True ''1'' toy_plan toy_blessed ''/c/s/perks/p/src'') = Inr False" by code_simp
  then obtain chk1 where c1: "snippet_decision (x_hash (toy_channel bash)) ?F True ''1'' toy_plan toy_blessed ''/c/s/perks/p/src'' = Inr chk1" "\<not> sc_refuse chk1"
    by (cases "snippet_decision (\<lambda>t. t) ?F True ''1'' toy_plan toy_blessed ''/c/s/perks/p/src''") (auto simp: toy_channel_def)
  have b: "x_bash (toy_channel bash) = bash" "x_hash (toy_channel bash) = (\<lambda>t. t)" by (simp_all add: toy_channel_def)
  obtain cs1 where one: "run_one (toy_channel bash) ''/r/run.sh'' True toy_plan toy_blessed ''/c/s/perks/p/src'' [] ''1'' toy_start = (cs1, Inr None)"
    "c_files cs1 = F" "c_trace cs1 = c_trace toy_start @ [\<lparr>e_step = ''1'', e_files = ?F\<rparr>]"
    by (rule run_one_ok [OF toy_upstream(1) c1]) (auto simp: b assms(1))
  obtain cs2 where two: "run_one (toy_channel bash) ''/r/run.sh'' True toy_plan toy_blessed ''/c/s/perks/p/src'' [JStr ''1''] ''2'' cs1 = (cs2, Inr None)"
    "c_trace cs2 = c_trace cs1 @ [\<lparr>e_step = ''2'', e_files = c_files cs1\<rparr>]"
    by (rule run_one_ok [OF toy_upstream(2), of _ cs1]) (auto simp: b one(2) assms(2-4))
  have f: "f_read ?F ''/r/run.sh'' = Some toy_script" "c_trace toy_start = []"
    by (simp_all add: toy_files_def toy_start_def toy_state_def toy_script_def write_file_def)
  have "run_steps (toy_channel bash) ''/r/run.sh'' True toy_plan toy_blessed ''/c/s/perks/p/src'' [] [''1'', ''2''] toy_start = (cs2, Inr None)"
    using one(1) two(1) by (simp add: then_gate_def)
  then show thesis using that toy_gates [of bash] one two(2) f by simp
qed



section \<open>Limits of the channel\<close>

text \<open>
  The text that was scanned and compared is what the first step runs; a step may rewrite the script, and the next
  one runs the new text.
\<close>

definition rewriting :: "os_fs \<Rightarrow> string \<Rightarrow> string \<Rightarrow> outcome \<times> os_fs" where
  "rewriting F p st = (Ended 0 [] JNull, write_file p ''sudo'' F)"

lemma later_step_runs_new_script:
  "\<exists>cs'. execute (toy_channel rewriting) ''/r/run.sh'' AllSteps [] toy_state = (cs', Inr 0)
     \<and> map (\<lambda>t. f_read (e_files t) ''/r/run.sh'') (c_trace cs') = [Some toy_script, Some ''sudo'']"
proof -
  let ?F = "write_file ''/r/run.sh'' ''sudo'' (c_files toy_start)"
  have "map_sum (\<lambda>_. ()) sc_refuse (snippet_decision (\<lambda>t. t) ?F True ''2'' toy_plan toy_blessed ''/c/s/perks/p/src'') = Inr False" by code_simp
  then obtain chk where c: "snippet_decision (\<lambda>t. t) ?F True ''2'' toy_plan toy_blessed ''/c/s/perks/p/src'' = Inr chk" "\<not> sc_refuse chk"
    by (cases "snippet_decision (\<lambda>t. t) ?F True ''2'' toy_plan toy_blessed ''/c/s/perks/p/src''") auto
  show ?thesis by (rule toy_run [where bash = rewriting and F = ?F, OF _ _ c]) (auto simp: rewriting_def write_file_def)
qed

text \<open>The snippet directory is read back from the compiled script, as long as no value and no path breaks a line.\<close>

definition one_line :: "string \<Rightarrow> bool" where
  "one_line s \<longleftrightarrow> CHR 0x0A \<notin> set s \<and> CHR 0x0D \<notin> set s"

lemma lines_of_nonempty [simp]: "lines_of s \<noteq> []"
  by (induction s) (auto split: list.split)

lemma lines_of_line: "one_line l \<Longrightarrow> lines_of (l @ CHR 0x0A # s) = l # lines_of s"
  by (induction l) (auto simp: one_line_def)

lemma lines_of_join: "list_all one_line xs \<Longrightarrow> ys \<noteq> [] \<Longrightarrow> lines_of (join_with nl (xs @ ys)) = xs @ lines_of (join_with nl ys)"
proof (induction xs)
  case (Cons x xs)
  have "join_with nl ((x # xs) @ ys) = x @ nl @ join_with nl (xs @ ys)" using Cons.prems(2) by (cases "xs @ ys") auto
  then show ?case using Cons lines_of_line [of x] by (simp add: nl_def)
qed simp

lemma first_some_append: "\<forall>x \<in> set xs. f x = None \<Longrightarrow> first_some f (xs @ ys) = first_some f ys"
  by (induction xs) auto

lemma safe_no_space: "shell_safe c \<Longrightarrow> \<not> is_space c \<and> c \<noteq> CHR 0x27 \<and> c \<noteq> CHR 0x22 \<and> c \<noteq> CHR 0x0A \<and> c \<noteq> CHR 0x0D"
  by (auto simp: shell_safe_def is_space_def)

lemma read_quoted: "s \<noteq> [] \<Longrightarrow> CHR 0x27 \<notin> set s \<Longrightarrow> quoted_or_word (shell_quote s) = Some s"
proof -
  assume s: "s \<noteq> []" "CHR 0x27 \<notin> set s"
  show ?thesis
  proof (cases "list_all shell_safe s")
    case True
    then have "takeWhile (\<lambda>c. \<not> is_space c) s = s" using safe_no_space by (auto simp: takeWhile_eq_all_conv list_all_iff)
    moreover obtain c r where "s = c # r" using s(1) by (cases s) auto
    ultimately show ?thesis using True safe_no_space [of c] by (auto simp: quoted_or_word_def shell_quote_def Let_def)
  next
    case False
    have "concat (map (\<lambda>c. if [c] = squote then squote @ dquoted squote @ squote else [c]) s) = s"
      using s(2) by (induction s) (auto simp: squote_def)
    then have "shell_quote s = CHR 0x27 # s @ [CHR 0x27]" using s(1) False by (simp add: shell_quote_def squote_def)
    moreover have "takeWhile (\<lambda>x. x \<noteq> CHR 0x27) (s @ [CHR 0x27]) = s" using s(2) by (induction s) auto
    ultimately show ?thesis by (simp add: quoted_or_word_def Let_def)
  qed
qed

lemma one_line_simps [simp]:
  "one_line []" "one_line (c # s) \<longleftrightarrow> c \<noteq> CHR 0x0A \<and> c \<noteq> CHR 0x0D \<and> one_line s" "one_line (s @ t) \<longleftrightarrow> one_line s \<and> one_line t"
  by (auto simp: one_line_def)

lemma one_line_join: "list_all one_line xs \<Longrightarrow> one_line sep \<Longrightarrow> one_line (join_with sep xs)"
  by (induction sep xs rule: join_with.induct) auto

lemma one_line_quote: "one_line s \<Longrightarrow> one_line (shell_quote s)"
  by (auto simp: one_line_def shell_quote_def squote_def dquoted_def)

lemma compiled_snip_is_read:
  assumes "snip \<noteq> []" and "CHR 0x27 \<notin> set snip" and "list_all one_line [skill, perk, snip]"
    and "list_all (\<lambda>(k, v). one_line k \<and> one_line (py_str v)) env"
  shows "snip_of (script_text skill perk snip env oe sq) = snip"
proof -
  let ?h = "take 6 (script_head skill perk snip env)" and ?r = "[] # concat (map (step_lines oe sq) (numbered sq)) @ dispatch_lines sq"
  have ex: "one_line (join_with '' '' (map (\<lambda>(k, v). k @ ''='' @ shell_quote (py_str v)) env))"
    using assms(4) by (intro one_line_join) (auto simp: list_all_iff one_line_quote)
  have h: "list_all one_line ?h" using assms(3) ex by (simp add: script_head_def dquoted_def)
  have n: "\<forall>l \<in> set ?h. snip_in l = None" by (simp add: script_head_def snip_in_def)
  have t: "script_text skill perk snip env oe sq = join_with nl ((?h @ [''SNIP='' @ shell_quote snip]) @ ?r)"
    by (simp add: script_text_def script_head_def)
  have "list_all one_line (?h @ [''SNIP='' @ shell_quote snip])" using h one_line_quote [of snip] assms(3) by simp
  then have "lines_of (script_text skill perk snip env oe sq) = (?h @ [''SNIP='' @ shell_quote snip]) @ lines_of (join_with nl ?r)"
    unfolding t by (rule lines_of_join) simp
  moreover have "snip_in (''SNIP='' @ shell_quote snip) = Some snip" using read_quoted [OF assms(1,2)] by (simp add: snip_in_def)
  ultimately show ?thesis using first_some_append [OF n] by (simp add: snip_of_def)
qed

text \<open>
  A value that breaks a line does redirect the check: the first line that looks like the assignment counts, and
  the exported values stand before it. The steps are then verified against a closure the value names.
\<close>

lemma value_redirects_check:
  "snip_of (script_text ''s'' ''p'' snip [(''X'', JStr (''v'' @ nl @ ''SNIP=/e/s/perks/p/src'' @ nl))] oe sq) = ''/e/s/perks/p/src''"
proof -
  let ?X = "''v'' @ nl @ ''SNIP=/e/s/perks/p/src'' @ nl"
  let ?h = "take 4 (script_head ''s'' ''p'' snip [])" and ?l = "[''export X='' @ squote @ ''v'', ''SNIP=/e/s/perks/p/src'']"
  let ?r = "squote # drop 5 (script_head ''s'' ''p'' snip []) @ concat (map (step_lines oe sq) (numbered sq)) @ dispatch_lines sq"
  have q: "shell_quote ?X = squote @ ?X @ squote"
  proof -
    have "\<not> list_all shell_safe ?X" by (simp add: nl_def shell_safe_def)
    then show ?thesis by (simp add: shell_quote_def nl_def squote_def)
  qed
  have t: "script_text ''s'' ''p'' snip [(''X'', JStr ?X)] oe sq = join_with nl ((?h @ ?l) @ ?r)"
    using q by (simp add: script_text_def script_head_def py_str_def)
  have "list_all one_line (?h @ ?l)" by (simp add: script_head_def squote_def)
  then have "lines_of (script_text ''s'' ''p'' snip [(''X'', JStr ?X)] oe sq) = (?h @ ?l) @ lines_of (join_with nl ?r)"
    unfolding t by (rule lines_of_join) simp
  moreover have "\<forall>l \<in> set (?h @ [''export X='' @ squote @ ''v'']). snip_in l = None" by (simp add: script_head_def snip_in_def)
  moreover have "snip_in ''SNIP=/e/s/perks/p/src'' = Some ''/e/s/perks/p/src''" by code_simp
  ultimately show ?thesis using first_some_append [of "?h @ [''export X='' @ squote @ ''v'']" snip_in] by (simp add: snip_of_def)
qed

end
