(* ===== verification/Vault.thy ===== *)
theory Vault
  imports Compiler
begin

text \<open>
  Secrets (\<open>src/infra/exec/vault.py\<close>) and the server-side execution of one claim
  (\<open>src/infra/govern/govd_executor.py\<close>): a claim names its credentials, a vault resolves them, the step's
  environment gets them and the answer carries a status. A vault is its \<open>get\<close> method, a function; the backend
  over \<open>sops\<close> is such a function that is not defined here. Names are ASCII, as environment variables are.
\<close>

section \<open>Vaults\<close>

type_synonym vault = "string \<Rightarrow> json res"

definition env_stub_vault :: "(string, json) dict \<Rightarrow> vault" where
  "env_stub_vault secrets cid = lookup_or_raise secrets cid"

text \<open>The store on disk: its mode bits and what its text parses to. No bit may be set for group or other.\<close>

definition file_vault :: "nat \<Rightarrow> json option \<Rightarrow> vault" where
  "file_vault mode parsed cid =
     (if mode mod 64 \<noteq> 0 then Inl PermissionError
      else case parsed of
        None \<Rightarrow> Inl JSONDecodeError
      | Some (JObj kvs) \<Rightarrow> lookup_or_raise kvs cid
      | Some _ \<Rightarrow> Inl TypeError)"

definition upper :: "string \<Rightarrow> string" where
  "upper s = map (\<lambda>c. if (97::nat) \<le> of_char c \<and> of_char c \<le> (122::nat) then char_of (of_char c - 32 :: nat) else c) s"

definition step_env_var :: "string \<Rightarrow> string" where
  "step_env_var cid = ''CWS_SECRET_'' @ map (\<lambda>c. if c = CHR 0x2D then CHR 0x5F else c) (upper cid)"

type_synonym env = "(string, json) dict"

definition inject_one :: "vault \<Rightarrow> env \<times> (string, string) dict \<Rightarrow> string \<Rightarrow> (env \<times> (string, string) dict) res" where
  "inject_one get s cid =
     (case s of (env, claimed) \<Rightarrow>
        let var = step_env_var cid
        in if dget_default claimed var cid \<noteq> cid then Inl ValueError
           else bindR (get cid) (\<lambda>secret. Inr (dput var secret env, dput var cid claimed)))"

definition inject_step_env :: "env \<Rightarrow> vault \<Rightarrow> string list \<Rightarrow> env res" where
  "inject_step_env base get cids = bindR (foldR (inject_one get) (base, []) cids) (\<lambda>s. Inr (fst s))"

text \<open>\<open>str.count\<close>: the occurrences that do not overlap, from the left.\<close>

fun occurrences :: "nat \<Rightarrow> string \<Rightarrow> string \<Rightarrow> nat" where
  "occurrences skip w [] = 0"
| "occurrences (Suc skip) w (c # s) = occurrences skip w s"
| "occurrences 0 w (c # s) = (if starts_with (c # s) w then Suc (occurrences (length w - 1) w s) else occurrences 0 w s)"

definition secret_bytes_in :: "env \<Rightarrow> string \<Rightarrow> nat" where
  "secret_bytes_in env secret = (if secret = [] then 0 else sum_list (map (\<lambda>(k, v). occurrences 0 secret (py_str v)) env))"

section \<open>Serving a claim\<close>

text \<open>
  A step takes its environment to an exit code and an output. The names are the strings of the claim's list.
\<close>

definition name_of :: "json \<Rightarrow> string res" where
  "name_of v = (case v of JStr s \<Rightarrow> Inr s | _ \<Rightarrow> Inl AttributeError)"

definition credential_names :: "json \<Rightarrow> string list res" where
  "credential_names claim = bindR (py_get claim ''credential_ids'' (JList [])) (\<lambda>c. bindR (as_list c) (mapR name_of))"

definition serve :: "json \<Rightarrow> vault \<Rightarrow> (env \<Rightarrow> int \<times> string) \<Rightarrow> json \<Rightarrow> nat \<Rightarrow> bool \<Rightarrow> json res" where
  "serve claim get step path euid allow_root =
     bindR (py_get claim ''principal'' (JStr ''local'')) (\<lambda>principal.
       if euid = 0 \<and> \<not> allow_root
       then Inr (JObj [(''status'', JStr ''refused''), (''reason'', JStr ''root_refused''), (''principal'', principal), (''uid'', JInt (int euid))])
       else bindR (credential_names claim) (\<lambda>cids. bindR (inject_step_env [(''PATH'', path)] get cids) (\<lambda>env.
              case step env of (code, out) \<Rightarrow>
                Inr (JObj [(''status'', JStr (if code = 0 then ''ok'' else ''error'')), (''exit'', JInt code),
                           (''principal'', principal), (''uid'', JInt (int euid))]))))"

section \<open>What a step receives\<close>

lemma file_vault_needs_0600: "file_vault mode parsed cid = Inr secret \<Longrightarrow> mode mod 64 = 0"
  by (simp add: file_vault_def split: if_split_asm)

definition injected :: "env \<Rightarrow> vault \<Rightarrow> string list \<Rightarrow> env \<times> (string, string) dict \<Rightarrow> bool" where
  "injected base get cids s \<longleftrightarrow>
     (\<forall>c \<in> set cids. dget (snd s) (step_env_var c) = Some c \<and> (\<exists>v. get c = Inr v \<and> dget (fst s) (step_env_var c) = Some v))
     \<and> (\<forall>k. k \<notin> step_env_var ` set cids \<longrightarrow> dget (fst s) k = dget base k \<and> dget (snd s) k = None)"

lemma inject_one_injected:
  assumes "injected base get cids s" and "inject_one get s cid = Inr s'"
  shows "injected base get (cids @ [cid]) s'"
proof -
  let ?v = "step_env_var cid"
  obtain env claimed where s: "s = (env, claimed)" by (cases s)
  obtain secret where g: "dget_default claimed ?v cid = cid" "get cid = Inr secret" "s' = (dput ?v secret env, dput ?v cid claimed)"
    using assms(2) by (auto simp: s inject_one_def Let_def bindR_eq_Inr split: if_split_asm)
  have "c = cid" if "c \<in> set cids" "step_env_var c = ?v" for c
    using assms(1) that g(1) by (auto simp: injected_def s dget_default_def)
  then show ?thesis using assms(1) g by (auto simp: injected_def s dget_dput)
qed

lemma inject_fold: "foldR (inject_one get) s ds = Inr s' \<Longrightarrow> injected base get cids s \<Longrightarrow> injected base get (cids @ ds) s'"
proof (induction ds arbitrary: s cids)
  case (Cons d ds)
  then obtain s1 where one: "inject_one get s d = Inr s1" and rest: "foldR (inject_one get) s1 ds = Inr s'" by (auto simp: bindR_eq_Inr)
  show ?case using Cons.IH [OF rest inject_one_injected [OF Cons.prems(2) one]] by simp
qed simp

text \<open>Each granted name has a variable of its own with its secret; nothing else changes.\<close>

lemma inject_step_env_injected:
  assumes "inject_step_env base get cids = Inr env"
  obtains claimed where "injected base get cids (env, claimed)"
proof -
  obtain s where s: "foldR (inject_one get) (base, []) cids = Inr s" "fst s = env"
    using assms by (cases "foldR (inject_one get) (base, []) cids") (simp_all add: inject_step_env_def bindR_def)
  have "injected base get [] (base, [])" by (simp add: injected_def)
  from inject_fold [OF s(1) this] have i: "injected base get cids s" unfolding append_Nil .
  then have "injected base get cids (env, snd s)" by (simp add: injected_def s(2))
  then show thesis by (rule that)
qed

lemma own_variable:
  assumes "injected base get cids (env, claimed)"
  shows "inj_on step_env_var (set cids)"
proof (rule inj_onI)
  fix c d assume c: "c \<in> set cids" and d: "d \<in> set cids" and e: "step_env_var c = step_env_var d"
  have "dget claimed (step_env_var c) = Some c" "dget claimed (step_env_var d) = Some d" using assms c d by (simp_all add: injected_def)
  then have "Some c = Some d" unfolding e by (rule trans [OF sym])
  then show "c = d" by simp
qed

lemma injected_exactly:
  assumes "inject_step_env base get cids = Inr env"
  shows "(\<forall>c \<in> set cids. \<exists>v. get c = Inr v \<and> dget env (step_env_var c) = Some v)
    \<and> (\<forall>k. k \<notin> step_env_var ` set cids \<longrightarrow> dget env k = dget base k) \<and> inj_on step_env_var (set cids)"
proof -
  obtain claimed where i: "injected base get cids (env, claimed)" using inject_step_env_injected [OF assms] .
  show ?thesis using i own_variable [OF i] by (simp add: injected_def)
qed

text \<open>Two names with one variable are refused, when both resolve.\<close>

lemma collision_refused:
  assumes "step_env_var c = step_env_var d" and "c \<noteq> d" and "{c, d} \<subseteq> set cids"
  shows "\<exists>e. inject_step_env base get cids = Inl e"
  using injected_exactly [of base get cids] assms
  by (cases "inject_step_env base get cids") (auto dest: inj_onD)

lemma no_path_clash: "step_env_var c \<noteq> ''PATH''"
  by (simp add: step_env_var_def)

lemma serve_cases:
  assumes "serve claim get step path euid allow_root = Inr a"
  obtains (refused) principal where "euid = 0" "\<not> allow_root" "py_get claim ''principal'' (JStr ''local'') = Inr principal"
      "a = JObj [(''status'', JStr ''refused''), (''reason'', JStr ''root_refused''), (''principal'', principal), (''uid'', JInt (int euid))]"
  | (ran) principal cids env code out where "euid \<noteq> 0 \<or> allow_root" "py_get claim ''principal'' (JStr ''local'') = Inr principal"
      "credential_names claim = Inr cids" "inject_step_env [(''PATH'', path)] get cids = Inr env" "step env = (code, out)"
      "a = JObj [(''status'', JStr (if code = 0 then ''ok'' else ''error'')), (''exit'', JInt code), (''principal'', principal), (''uid'', JInt (int euid))]"
proof (cases "euid = 0 \<and> \<not> allow_root")
  case True
  then show thesis using assms refused by (auto simp: serve_def bindR_eq_Inr)
next
  case False
  then obtain principal cids env where p: "py_get claim ''principal'' (JStr ''local'') = Inr principal"
    "credential_names claim = Inr cids" "inject_step_env [(''PATH'', path)] get cids = Inr env"
    "(case step env of (code, out) \<Rightarrow> Inr (JObj [(''status'', JStr (if code = 0 then ''ok'' else ''error'')), (''exit'', JInt code),
       (''principal'', principal), (''uid'', JInt (int euid))])) = (Inr a :: json res)"
    using assms unfolding serve_def by (simp only: if_False bindR_eq_Inr) blast
  obtain code out where "step env = (code, out)" by (cases "step env")
  then show thesis using ran False p by simp
qed

definition granted_env :: "json \<Rightarrow> vault \<Rightarrow> json \<Rightarrow> env \<Rightarrow> bool" where
  "granted_env claim get path env \<longleftrightarrow>
     (\<exists>cids. credential_names claim = Inr cids \<and> inj_on step_env_var (set cids)
        \<and> (\<forall>c \<in> set cids. \<exists>v. get c = Inr v \<and> dget env (step_env_var c) = Some v)
        \<and> (\<forall>k. k \<notin> step_env_var ` set cids \<longrightarrow> dget env k = (if k = ''PATH'' then Some path else None)))"

text \<open>
  C21: the secrets of a claim stay on the side of the step. A step runs only under a non-root user (or the operator's
  escape), in an environment that holds exactly the credentials the claim names, each under a variable of its own,
  and the path. The answer tells the caller nothing but the exit code: whatever the vault holds and the step prints,
  two runs of one claim with the same exit code have the same answer.
\<close>

theorem secrets_stay_step_side:
  assumes "serve claim get step path euid allow_root = Inr a"
  shows "(jhas a ''exit'' \<longrightarrow> (euid \<noteq> 0 \<or> allow_root) \<and> (\<exists>env. granted_env claim get path env \<and> jget a ''exit'' = JInt (fst (step env))))
    \<and> (\<forall>get' step' path' a'. serve claim get' step' path' euid allow_root = Inr a' \<longrightarrow> jget a' ''exit'' = jget a ''exit'' \<longrightarrow> a' = a)"
proof -
  have g: "granted_env claim get path env" if "credential_names claim = Inr cids" "inject_step_env [(''PATH'', path)] get cids = Inr env" for cids env
    using that injected_exactly [OF that(2)] by (auto simp: granted_env_def)
  have "(euid \<noteq> 0 \<or> allow_root) \<and> (\<exists>env. granted_env claim get path env \<and> jget a ''exit'' = JInt (fst (step env)))" if "jhas a ''exit''"
    using assms
  proof (cases rule: serve_cases)
    case refused
    then show ?thesis using that by (simp add: jhas_def obj_members_def)
  next
    case (ran principal cids env code out)
    then show ?thesis using g [OF ran(3,4)] by (auto simp: jget_JObj)
  qed
  moreover have "a' = a" if "serve claim get' step' path' euid allow_root = Inr a'" "jget a' ''exit'' = jget a ''exit''" for get' step' path' a'
    using assms
  proof (cases rule: serve_cases)
    case r: refused
    from that(1) show ?thesis by (cases rule: serve_cases) (use r in auto)
  next
    case r: ran
    from that(1) show ?thesis by (cases rule: serve_cases) (use r that(2) in \<open>auto simp: jget_JObj\<close>)
  qed
  ultimately show ?thesis by blast
qed

theorem secrets_stay_step_side_witness:
  "\<exists>a. serve (JObj [(''credential_ids'', JList [JStr ''api-key''])]) (env_stub_vault [(''api-key'', JStr ''s'')]) (\<lambda>env. (int (length env), ''out'')) (JStr ''/bin'') 7 False = Inr a
     \<and> jget a ''exit'' = JInt 2
     \<and> (\<exists>env. granted_env (JObj [(''credential_ids'', JList [JStr ''api-key''])]) (env_stub_vault [(''api-key'', JStr ''s'')]) (JStr ''/bin'') env \<and> length env = 2)"
proof -
  let ?c = "JObj [(''credential_ids'', JList [JStr ''api-key''])]" and ?v = "env_stub_vault [(''api-key'', JStr ''s'')]"
  let ?a = "JObj [(''status'', JStr ''error''), (''exit'', JInt 2), (''principal'', JStr ''local''), (''uid'', JInt 7)]"
  have s: "serve ?c ?v (\<lambda>env. (int (length env), ''out'')) (JStr ''/bin'') 7 False = Inr ?a" by code_simp
  have e: "jhas ?a ''exit''" "jget ?a ''exit'' = JInt 2" by code_simp+
  from secrets_stay_step_side [OF s] e(1) obtain env where g: "granted_env ?c ?v (JStr ''/bin'') env" "jget ?a ''exit'' = JInt (int (length env))"
    by (simp only: fst_conv) blast
  then have "length env = 2" using e(2) by simp
  then show ?thesis using s e(2) g(1) by (intro exI [of _ ?a] exI [of _ env] conjI) assumption+
qed

lemma hyphen_collides:
  "inject_step_env [] (env_stub_vault [(''api-key'', JStr ''s''), (''api_key'', JStr ''t'')]) [''api-key'', ''api_key''] = Inl ValueError"
  by code_simp

end
