(* ===== verification/Wire.thy ===== *)
theory Wire
  imports Prelude "HOL-Library.Word"
begin

text \<open>
  The frames of an oversight session: the server's reader and writer (\<open>ws_recv\<close>, \<open>ws_send\<close> of
  \<open>src/infra/govern/govd.py\<close>) and the client's (\<open>_ws_recv\<close>, \<open>_ws_send\<close> of \<open>src/infra/govern/govd_client.py\<close>).
  Bytes are words of eight bits; a connection is the list of chunks its reads will return, and no chunk at all is
  the end of the stream. Texts are sent as their bytes; the mask of a frame is an argument.
\<close>

unbundle bit_operations_syntax

type_synonym byte = "8 word"
type_synonym stream = "byte list list"

section \<open>Reading exactly\<close>

text \<open>One \<open>recv(n)\<close>: at most \<open>n\<close> bytes of the next chunk; nothing at the end.\<close>

fun recv :: "nat \<Rightarrow> stream \<Rightarrow> byte list \<times> stream" where
  "recv n [] = ([], [])"
| "recv n (c # cs) = (take n c, if length c \<le> n then cs else drop n c # cs)"

function read_loop :: "nat \<Rightarrow> byte list \<Rightarrow> stream \<Rightarrow> byte list option \<times> stream" where
  "read_loop n buf st =
     (if length buf < n
      then case recv (n - length buf) st of
             (chunk, st') \<Rightarrow> if chunk = [] then (None, st') else read_loop n (buf @ chunk) st'
      else (Some buf, st))"
  by pat_completeness auto

termination read_loop
  by (relation "measure (\<lambda>(n, buf, st). n - length buf)") (auto simp: diff_less_mono2)

declare read_loop.simps [simp del]

definition read_exact :: "nat \<Rightarrow> stream \<Rightarrow> byte list option \<times> stream" where
  "read_exact n st = read_loop n [] st"

text \<open>A connection that is still open never returns an empty chunk.\<close>

definition open_stream :: "stream \<Rightarrow> bool" where
  "open_stream st \<longleftrightarrow> [] \<notin> set st"

lemma recv_open:
  "open_stream st \<Longrightarrow> 0 < n \<Longrightarrow> recv n st = (c, st') \<Longrightarrow>
   open_stream st' \<and> concat st = c @ concat st' \<and> length c \<le> n \<and> (c = [] \<longleftrightarrow> concat st = [])"
  by (cases st) (auto simp: open_stream_def split: if_split_asm)

text \<open>However the bytes are chunked, the loop returns the next \<open>n\<close> of them, or nothing when there are fewer.\<close>

lemma read_loop_step:
  "read_loop n buf st =
     (if length buf < n
      then if fst (recv (n - length buf) st) = [] then (None, snd (recv (n - length buf) st))
           else read_loop n (buf @ fst (recv (n - length buf) st)) (snd (recv (n - length buf) st))
      else (Some buf, st))"
  unfolding read_loop.simps [of n buf st] by (simp add: split_beta)

lemma read_loop_exact:
  assumes "open_stream st" and "length buf \<le> n" and "read_loop n buf st = (r, st')"
  shows "if n \<le> length buf + length (concat st)
         then r = Some (buf @ take (n - length buf) (concat st)) \<and> concat st' = drop (n - length buf) (concat st) \<and> open_stream st'
         else r = None"
  using assms
proof (induction "n - length buf" arbitrary: buf st rule: less_induct)
  case less
  show ?case
  proof (cases "length buf < n")
    case False
    then show ?thesis using less.prems unfolding read_loop_step [of n buf st] by simp
  next
    case True
    obtain c st1 where r: "recv (n - length buf) st = (c, st1)" by (cases "recv (n - length buf) st")
    have pos: "0 < n - length buf" using True by simp
    note o = recv_open [OF less.prems(1) pos r]
    have step: "(if c = [] then (None, st1) else read_loop n (buf @ c) st1) = (r, st')"
      using less.prems(3) True unfolding read_loop_step [of n buf st] r by (simp split: if_split_asm)
    show ?thesis
    proof (cases "c = []")
      case e: True
      have "concat st = []" using o e by blast
      moreover have "r = None" using step e by simp
      ultimately show ?thesis using True by (simp del: concat_eq_Nil_conv)
    next
      case False
      then have l: "read_loop n (buf @ c) st1 = (r, st')" using step by simp
      have cc: "concat st = c @ concat st1" and oc: "open_stream st1" and lc: "length c \<le> n - length buf" using o by blast+
      have le: "length (buf @ c) \<le> n" using lc pos by simp
      have dec: "n - length (buf @ c) < n - length buf" using False pos by (simp add: diff_less_mono2)
      have sum: "length buf + length (concat st) = length (buf @ c) + length (concat st1)" unfolding cc by simp
      have tk: "buf @ take (n - length buf) (concat st) = (buf @ c) @ take (n - length (buf @ c)) (concat st1)"
        "drop (n - length buf) (concat st) = drop (n - length (buf @ c)) (concat st1)"
        unfolding cc using lc by simp_all
      show ?thesis unfolding sum tk by (rule less.hyps [OF dec oc le l])
    qed
  qed
qed

lemma read_exact_bytes:
  assumes "open_stream st" and "concat st = bs @ rest" and "length bs = n"
  obtains st' where "read_exact n st = (Some bs, st')" and "concat st' = rest" and "open_stream st'"
  using read_loop_exact [OF assms(1), of "[]" n "fst (read_exact n st)" "snd (read_exact n st)"] assms(2,3) that
  by (auto simp: read_exact_def) (metis prod.collapse)

lemma read_exact_short:
  "open_stream st \<Longrightarrow> length (concat st) < n \<Longrightarrow> fst (read_exact n st) = None"
  using read_loop_exact [of st "[]" n "fst (read_exact n st)" "snd (read_exact n st)"] by (simp add: read_exact_def)

section \<open>Numbers in frames\<close>

fun to_bytes :: "nat \<Rightarrow> nat \<Rightarrow> byte list" where
  "to_bytes 0 n = []"
| "to_bytes (Suc k) n = to_bytes k (n div 256) @ [of_nat (n mod 256)]"

definition from_bytes :: "byte list \<Rightarrow> nat" where
  "from_bytes bs = foldl (\<lambda>n b. n * 256 + unat b) 0 bs"

lemma length_to_bytes [simp]: "length (to_bytes k n) = k"
  by (induction k arbitrary: n) auto

lemma unat_byte: "n < 256 \<Longrightarrow> unat (of_nat n :: byte) = n"
  by (simp add: unat_of_nat take_bit_eq_mod)

lemma from_to_bytes: "n < 256 ^ k \<Longrightarrow> from_bytes (to_bytes k n) = n"
proof (induction k arbitrary: n)
  case (Suc k)
  have "n div 256 < 256 ^ k" using Suc.prems by (simp add: less_mult_imp_div_less mult.commute)
  then show ?case using Suc.IH [of "n div 256"] unat_byte [of "n mod 256"] by (simp add: from_bytes_def)
qed (simp add: from_bytes_def)

section \<open>Frames\<close>

text \<open>The length of a payload, with the flag of the mask: one byte, or a marker and two or eight bytes.\<close>

definition length_bytes :: "byte \<Rightarrow> nat \<Rightarrow> byte list res" where
  "length_bytes flag n =
     (if n < 126 then Inr [flag OR of_nat n]
      else if n < 65536 then Inr ((flag OR 126) # to_bytes 2 n)
      else if n < 2 ^ 64 then Inr ((flag OR 127) # to_bytes 8 n)
      else Inl OverflowError)"

definition masked :: "byte list \<Rightarrow> byte list \<Rightarrow> byte list" where
  "masked key payload = map (\<lambda>(i, b). b XOR key ! (i mod 4)) (enumerate 0 payload)"

text \<open>The client's frame.\<close>

definition client_send :: "byte list \<Rightarrow> byte \<Rightarrow> byte list \<Rightarrow> byte list res" where
  "client_send key opcode payload =
     bindR (length_bytes 0x80 (length payload)) (\<lambda>h. Inr ((0x80 OR opcode) # h @ key @ masked key payload))"

text \<open>The server's frame.\<close>

definition ws_send :: "byte \<Rightarrow> byte list \<Rightarrow> byte list res" where
  "ws_send opcode payload = bindR (length_bytes 0 (length payload)) (\<lambda>h. Inr ((0x80 OR opcode) # h @ payload))"

definition read_length :: "byte \<Rightarrow> stream \<Rightarrow> nat option \<times> stream" where
  "read_length b st =
     (let n = unat (b AND 0x7F)
      in if n = 126 then (case read_exact 2 st of (ext, st') \<Rightarrow> (map_option from_bytes ext, st'))
         else if n = 127 then (case read_exact 8 st of (ext, st') \<Rightarrow> (map_option from_bytes ext, st'))
         else (Some n, st))"

text \<open>
  What the server reads: nothing more to read (\<open>None\<close>), a frame that closes the session, or an opcode and its bytes.
\<close>

definition closed :: "(byte \<times> byte list) option" where "closed = Some (0x8, [])"

definition data_opcode :: "byte \<Rightarrow> bool" where "data_opcode b \<longleftrightarrow> b = 0 \<or> b = 1 \<or> b = 2"

definition ws_recv :: "nat \<Rightarrow> stream \<Rightarrow> (byte \<times> byte list) option \<times> stream" where
  "ws_recv max_len st =
     (case read_exact 2 st of
        (None, st1) \<Rightarrow> (None, st1)
      | (Some h, st1) \<Rightarrow>
          let opcode = h ! 0 AND 0x0F; has_mask = (h ! 1 AND 0x80 \<noteq> 0)
          in case read_length (h ! 1) st1 of
               (None, st2) \<Rightarrow> (closed, st2)
             | (Some n, st2) \<Rightarrow>
                 if max_len < n then (closed, st2)
                 else if \<not> has_mask \<and> data_opcode opcode then (closed, st2)
                 else case (if has_mask then read_exact 4 st2 else (Some [0, 0, 0, 0], st2)) of
                   (None, st3) \<Rightarrow> (closed, st3)
                 | (Some key, st3) \<Rightarrow>
                     (case read_exact n st3 of
                        (None, st4) \<Rightarrow> (closed, st4)
                      | (Some bytes, st4) \<Rightarrow> (Some (opcode, if has_mask then masked key bytes else bytes), st4)))"

text \<open>
  What the client reads: an exception when the extended length is cut, no message at the end or on a close frame, else
  the bytes; a body that is cut counts as an empty one.
\<close>

definition client_recv :: "stream \<Rightarrow> byte list option res \<times> stream" where
  "client_recv st =
     (case read_exact 2 st of
        (None, st1) \<Rightarrow> (Inr None, st1)
      | (Some h, st1) \<Rightarrow>
          (case read_length (h ! 1) st1 of
             (None, st2) \<Rightarrow> (Inl TypeError, st2)
           | (Some n, st2) \<Rightarrow>
               (case read_exact n st2 of
                  (data, st3) \<Rightarrow>
                    (Inr (if h ! 0 AND 0x0F = 0x8 then None else Some (case data of None \<Rightarrow> [] | Some bs \<Rightarrow> bs)), st3))))"

section \<open>Round trips\<close>

lemma masked_twice [simp]: "masked key (masked key bs) = bs"
  by (rule nth_equalityI) (simp_all add: masked_def nth_enumerate_eq xor.assoc)

lemma length_masked [simp]: "length (masked key bs) = length bs"
  by (simp add: masked_def)

lemma low_nibble: "opcode < 16 \<Longrightarrow> (0x80 OR opcode) AND 0x0F = (opcode :: byte)"
  using less_mask_eq [of opcode 4] by (simp add: word_ao_dist mask_eq_exp_minus_1)

lemma low_bits: "flag AND 0x7F = 0 \<Longrightarrow> x < 128 \<Longrightarrow> (flag OR x) AND 0x7F = (x :: byte)"
  using less_mask_eq [of x 7] by (simp add: word_ao_dist mask_eq_exp_minus_1)

lemma top_bit: "(0x80 OR x) AND 0x80 \<noteq> (0 :: byte)"
  by (simp add: word_ao_dist)

lemma no_top_bit: "x < 128 \<Longrightarrow> x AND 0x80 = (0 :: byte)"
proof -
  assume "x < 128"
  then have "x = x AND 0x7F" using low_bits [of 0 x] by simp
  then have "x AND 0x80 = x AND (0x7F AND 0x80)" by (metis and.assoc)
  then show ?thesis by simp
qed

lemma small_byte: "n < 128 \<Longrightarrow> (of_nat n :: byte) < 128"
  by (simp add: word_less_nat_alt unat_byte)

text \<open>The announced length is read back, whatever follows it.\<close>

lemma read_back_length:
  assumes "length_bytes flag n = Inr h" and "flag AND 0x7F = 0" and "open_stream st" and "concat st = tl h @ rest"
  obtains st' where "read_length (hd h) st = (Some n, st')" and "concat st' = rest" and "open_stream st'"
proof (cases "n < 126")
  case True
  then have h: "h = [flag OR of_nat n]" using assms(1) by (simp add: length_bytes_def)
  have "unat ((flag OR of_nat n) AND 0x7F) = n" using low_bits [OF assms(2) small_byte [of n]] True by (simp add: unat_byte)
  then show thesis using that [of st] True assms(3,4) h by (simp add: read_length_def Let_def)
next
  case big: False
  show thesis
  proof (cases "n < 65536")
    case True
    then have h: "h = (flag OR 126) # to_bytes 2 n" using assms(1) big by (simp add: length_bytes_def)
    have l: "unat ((flag OR 126) AND 0x7F) = 126" using low_bits [OF assms(2), of 126] by simp
    obtain st' where "read_exact 2 st = (Some (to_bytes 2 n), st')" "concat st' = rest" "open_stream st'"
      using read_exact_bytes [OF assms(3), of "to_bytes 2 n" rest 2] assms(4) h by auto
    then show thesis using that l h from_to_bytes [of n 2] True by (simp add: read_length_def Let_def)
  next
    case False
    then have h: "h = (flag OR 127) # to_bytes 8 n" and n: "n < 256 ^ 8" using assms(1) big by (auto simp: length_bytes_def split: if_split_asm)
    have l: "unat ((flag OR 127) AND 0x7F) = 127" using low_bits [OF assms(2), of 127] by simp
    obtain st' where "read_exact 8 st = (Some (to_bytes 8 n), st')" "concat st' = rest" "open_stream st'"
      using read_exact_bytes [OF assms(3), of "to_bytes 8 n" rest 8] assms(4) h by auto
    then show thesis using that l h from_to_bytes [OF n] by (simp add: read_length_def Let_def)
  qed
qed

lemma length_bytes_cons: "length_bytes flag n = Inr h \<Longrightarrow> h \<noteq> [] \<and> (\<exists>x. hd h = flag OR x)"
  by (auto simp: length_bytes_def split: if_split_asm)

text \<open>The two bytes a frame begins with, then its length.\<close>

lemma read_header:
  assumes "length_bytes flag n = Inr h" and "flag AND 0x7F = 0" and "open_stream st" and "concat st = b # h @ rest"
  obtains st1 st2 where "read_exact 2 st = (Some [b, hd h], st1)" and "read_length (hd h) st1 = (Some n, st2)"
    and "concat st2 = rest" and "open_stream st2"
proof -
  have "concat st = [b, hd h] @ tl h @ rest" using assms(4) length_bytes_cons [OF assms(1)] by simp
  then obtain st1 where 1: "read_exact 2 st = (Some [b, hd h], st1)" "concat st1 = tl h @ rest" "open_stream st1"
    using read_exact_bytes [OF assms(3), of "[b, hd h]" "tl h @ rest" 2] by auto
  obtain st2 where "read_length (hd h) st1 = (Some n, st2)" "concat st2 = rest" "open_stream st2"
    using read_back_length [OF assms(1,2) 1(3,2)] .
  then show thesis using that 1(1) by blast
qed

text \<open>
  The server reads what the client sent. Whatever the mask, whatever the chunks the connection delivers, and
  whatever follows, a frame of at most the permitted length is read as its opcode and its bytes, and reading stops
  right behind it; a longer one closes the session before any of its body is read.
\<close>

theorem server_reads_client_frame:
  assumes "client_send key opcode payload = Inr frame" and "length key = 4" and "opcode < 16"
    and "open_stream st" and "concat st = frame @ rest"
  shows "\<exists>st'. open_stream st' \<and> ws_recv max_len st
    = (if length payload \<le> max_len then (Some (opcode, payload), st') else (closed, st'))
    \<and> concat st' = (if length payload \<le> max_len then rest else key @ masked key payload @ rest)"
proof -
  obtain h where h: "length_bytes 0x80 (length payload) = Inr h" "frame = (0x80 OR opcode) # h @ key @ masked key payload"
    using assms(1) by (auto simp: client_send_def bindR_eq_Inr)
  obtain st1 st2 where r: "read_exact 2 st = (Some [0x80 OR opcode, hd h], st1)" "read_length (hd h) st1 = (Some (length payload), st2)"
    "concat st2 = key @ masked key payload @ rest" "open_stream st2"
    using read_header [OF h(1) _ assms(4), of "0x80 OR opcode" "key @ masked key payload @ rest"] assms(5) h(2) by auto
  have m: "hd h AND 0x80 \<noteq> 0" using length_bytes_cons [OF h(1)] top_bit by auto
  have op: "(0x80 OR opcode) AND 0x0F = opcode" by (rule low_nibble [OF assms(3)])
  show ?thesis
  proof (cases "length payload \<le> max_len")
    case False
    then show ?thesis using r m op by (auto simp: ws_recv_def Let_def)
  next
    case True
    obtain st3 where k: "read_exact 4 st2 = (Some key, st3)" "concat st3 = masked key payload @ rest" "open_stream st3"
      using read_exact_bytes [OF r(4,3) assms(2)] .
    obtain st4 where d: "read_exact (length payload) st3 = (Some (masked key payload), st4)" "concat st4 = rest" "open_stream st4"
      using read_exact_bytes [OF k(3,2), of "length payload"] by auto
    show ?thesis using True r(1,2) m op k d by (auto simp: ws_recv_def Let_def)
  qed
qed

theorem server_reads_client_frame_witness:
  "\<exists>st'. ws_recv 1048576 [[0x81, 0x82, 1, 2], [3, 4, 0x69], [0x6B, 0x88]] = (Some (1, [0x68, 0x69]), st') \<and> concat st' = [0x88]"
proof -
  have f: "client_send [1, 2, 3, 4] 1 [0x68, 0x69] = Inr [0x81, 0x82, 1, 2, 3, 4, 0x69, 0x6B]" by code_simp
  have s: "length [1, 2, 3, 4 :: byte] = 4" "(1 :: byte) < 16" "open_stream [[0x81, 0x82, 1, 2], [3, 4, 0x69], [0x6B, 0x88]]"
    by (simp_all add: open_stream_def)
  show ?thesis using server_reads_client_frame [OF f s, of "[0x88]" 1048576] by auto
qed

text \<open>And the client reads what the server sent; a close frame is no message.\<close>

lemma client_reads_server_frame:
  assumes "ws_send opcode payload = Inr frame" and "opcode < 16" and "open_stream st" and "concat st = frame @ rest"
  shows "\<exists>st'. open_stream st' \<and> concat st' = rest \<and> client_recv st = (Inr (if opcode = 0x8 then None else Some payload), st')"
proof -
  obtain h where h: "length_bytes 0 (length payload) = Inr h" "frame = (0x80 OR opcode) # h @ payload"
    using assms(1) by (auto simp: ws_send_def bindR_eq_Inr)
  obtain st1 st2 where r: "read_exact 2 st = (Some [0x80 OR opcode, hd h], st1)" "read_length (hd h) st1 = (Some (length payload), st2)"
    "concat st2 = payload @ rest" "open_stream st2"
    using read_header [OF h(1) _ assms(3), of "0x80 OR opcode" "payload @ rest"] assms(4) h(2) by auto
  obtain st3 where "read_exact (length payload) st2 = (Some payload, st3)" "concat st3 = rest" "open_stream st3"
    using read_exact_bytes [OF r(4,3) refl] .
  then show ?thesis using r(1,2) low_nibble [OF assms(2)] by (auto simp: client_recv_def)
qed

text \<open>A data frame without a mask closes the session, its body unread.\<close>

lemma unmasked_closes:
  assumes "ws_send opcode payload = Inr frame" and "data_opcode opcode" and "open_stream st" and "concat st = frame @ rest"
  shows "\<exists>st'. ws_recv max_len st = (closed, st') \<and> concat st' = payload @ rest"
proof -
  obtain h where h: "length_bytes 0 (length payload) = Inr h" "frame = (0x80 OR opcode) # h @ payload"
    using assms(1) by (auto simp: ws_send_def bindR_eq_Inr)
  obtain st1 st2 where r: "read_exact 2 st = (Some [0x80 OR opcode, hd h], st1)" "read_length (hd h) st1 = (Some (length payload), st2)"
    "concat st2 = payload @ rest" "open_stream st2"
    using read_header [OF h(1) _ assms(3), of "0x80 OR opcode" "payload @ rest"] assms(4) h(2) by auto
  have "opcode < 16" using assms(2) by (auto simp: data_opcode_def)
  then have op: "(0x80 OR opcode) AND 0x0F = opcode" by (rule low_nibble)
  have m: "hd h AND 0x80 = 0" using no_top_bit [of "hd h"] h(1) small_byte [of "length payload"]
    by (auto simp: length_bytes_def split: if_split_asm)
  show ?thesis using r op m assms(2) by (auto simp: ws_recv_def Let_def)
qed

text \<open>A body that is cut off is read by the client as an empty message, not as the end of the session.\<close>

lemma cut_body_reads_empty: "client_recv [[0x81, 2, 0x7B]] = (Inr (Some []), [])"
  by code_simp

end
