(* ===== verification/Assertion.thy ===== *)
theory Assertion
  imports Principals Merkle Envelope
begin

text \<open>
  Identity without an issuer (\<open>src/infra/govern/ed25519_auth.py\<close>): a bearer that is a signed, short-lived assertion of
  a key, the verifier with its cache of spent nonces, and the principal its subject resolves to. A call of the
  verifier takes the cache and returns it updated; times are whole seconds.
\<close>

section \<open>Assertions\<close>

definition assertion_type :: string where "assertion_type = ''application/cwp-auth+json''"
definition auth_skew :: int where "auth_skew = 60"
definition auth_max_ttl :: int where "auth_max_ttl = 15 * 60"
definition nonce_cache_max :: int where "nonce_cache_max = 4096"

text \<open>The texts of the envelope are ASCII, for which the compact sorted JSON is the canonical one.\<close>

definition assertion_body :: "crypto \<Rightarrow> string \<Rightarrow> int \<Rightarrow> int \<Rightarrow> string \<Rightarrow> json" where
  "assertion_body K priv ttl now nonce =
     JObj [(''pub'', JStr (hex_text (pub_of K priv))), (''iat'', JInt now), (''exp'', JInt (now + max 1 (min ttl auth_max_ttl))),
           (''nonce'', JStr nonce)]"

definition as_bearer :: "crypto \<Rightarrow> json \<Rightarrow> string" where
  "as_bearer K env = b64ue K (canonicalize env)"

definition mint_assertion :: "crypto \<Rightarrow> string \<Rightarrow> int \<Rightarrow> int \<Rightarrow> string \<Rightarrow> string" where
  "mint_assertion K priv ttl now nonce = as_bearer K (sign K (assertion_body K priv ttl now nonce) priv assertion_type)"

record auth_claims =
  a_pub :: string
  a_iat :: int
  a_exp :: int
  a_nonce :: string

definition bearer_envelope :: "crypto \<Rightarrow> string \<Rightarrow> json option" where
  "bearer_envelope K bearer = (case b64ud K bearer of None \<Rightarrow> None | Some t \<Rightarrow> parse K t)"

definition bearer_body :: "crypto \<Rightarrow> json \<Rightarrow> json option" where
  "bearer_body K env =
     (case jget env ''payload'' of
        JStr p \<Rightarrow> (case b64ud K p of None \<Rightarrow> None | Some t \<Rightarrow> parse K t)
      | v \<Rightarrow> Some v)"

text \<open>What is read from a bearer before any time is compared; every exception is a \<open>None\<close>.\<close>

definition body_claims :: "json \<Rightarrow> auth_claims option" where
  "body_claims body =
     (let pub = jget body ''pub''; nonce = py_str (py_or (jget body ''nonce'') (JStr []))
      in if \<not> is_obj body then None
         else case (int_of_json (jget_or body ''iat'' (JInt 0)), int_of_json (jget_or body ''exp'' (JInt 0))) of
           (Inr iat, Inr till) \<Rightarrow>
             if \<not> truthy pub \<or> nonce = [] then None
             else (case from_hex (py_str pub) of
                     Inr raw \<Rightarrow> if length raw \<noteq> 32 then None else Some \<lparr>a_pub = raw, a_iat = iat, a_exp = till, a_nonce = nonce\<rparr>
                   | Inl _ \<Rightarrow> None)
         | _ \<Rightarrow> None)"

definition bearer_claims :: "crypto \<Rightarrow> string \<Rightarrow> (json \<times> auth_claims) option" where
  "bearer_claims K bearer =
     (case bearer_envelope K bearer of
        Some env \<Rightarrow>
          if \<not> is_obj env then None
          else (case bearer_body K env of None \<Rightarrow> None | Some body \<Rightarrow> map_option (\<lambda>c. (env, c)) (body_claims body))
      | None \<Rightarrow> None)"

section \<open>The verifier\<close>

record auth_limits =
  l_skew :: int
  l_max_ttl :: int
  l_cache_max :: int

definition default_limits :: auth_limits where
  "default_limits = \<lparr>l_skew = auth_skew, l_max_ttl = auth_max_ttl, l_cache_max = nonce_cache_max\<rparr>"

type_synonym spent = "(string, int) dict"

definition replayed :: "auth_limits \<Rightarrow> string \<Rightarrow> int \<Rightarrow> int \<Rightarrow> spent \<Rightarrow> spent \<times> bool" where
  "replayed L nonce till now seen =
     (let full = (l_cache_max L \<le> int (length seen));
          kept = (if full then filter (\<lambda>(k, e). \<not> e \<le> now) seen else seen)
      in if full \<and> l_cache_max L \<le> int (length kept) then (kept, True)
         else if now < dget_default kept nonce 0 then (kept, True)
         else (dput nonce till kept, False))"

definition timely :: "auth_limits \<Rightarrow> int \<Rightarrow> auth_claims \<Rightarrow> bool" where
  "timely L now c \<longleftrightarrow> \<not> (a_exp c \<le> now \<or> l_max_ttl L < a_exp c - a_iat c) \<and> \<not> now + l_skew L < a_iat c"

definition verify_bearer :: "crypto \<Rightarrow> auth_limits \<Rightarrow> int \<Rightarrow> string \<Rightarrow> spent \<Rightarrow> spent \<times> string option" where
  "verify_bearer K L now bearer seen =
     (case bearer_claims K bearer of
        None \<Rightarrow> (seen, None)
      | Some (env, c) \<Rightarrow>
          if \<not> timely L now c then (seen, None)
          else if verify K env (a_pub c) \<noteq> Inr True then (seen, None)
          else case replayed L (a_nonce c) (a_exp c) now seen of
            (seen', r) \<Rightarrow> (seen', if r then None else Some (keyid K (a_pub c))))"

text \<open>A verifier over its lifetime: the answers to a sequence of timed bearers.\<close>

fun answers :: "crypto \<Rightarrow> auth_limits \<Rightarrow> (int \<times> string) list \<Rightarrow> spent \<Rightarrow> string option list" where
  "answers K L [] seen = []"
| "answers K L ((now, bearer) # calls) seen =
     (case verify_bearer K L now bearer seen of (seen', r) \<Rightarrow> r # answers K L calls seen')"

section \<open>A spent nonce stays spent\<close>

lemma length_answers [simp]: "length (answers K L calls seen) = length calls"
  by (induction calls arbitrary: seen) (auto split: prod.split)

lemma dget_filter: "dget seen n = Some e \<Longrightarrow> P (n, e) \<Longrightarrow> dget (filter P seen) n = Some e"
  by (induction seen) auto

text \<open>A nonce in the cache and in its window is not replaced, and no bearer with it is accepted.\<close>

lemma replayed_keeps:
  assumes "replayed L n' e' now seen = (seen', r)" and "dget seen n = Some e" and "now < e"
  shows "dget seen' n = Some e \<and> (n' = n \<longrightarrow> r)"
proof -
  let ?kept = "if l_cache_max L \<le> int (length seen) then filter (\<lambda>(k, e). \<not> e \<le> now) seen else seen"
  have k: "dget ?kept n = Some e" using assms(2,3) dget_filter [of seen n e "\<lambda>(k, e). \<not> e \<le> now"] by simp
  show ?thesis
  proof (cases "n' = n")
    case True
    then show ?thesis using assms(1,3) k by (auto simp: replayed_def Let_def dget_default_def split: if_split_asm)
  next
    case False
    then show ?thesis using assms(1) k by (auto simp: replayed_def Let_def dget_dput split: if_split_asm)
  qed
qed

lemma verify_bearer_keeps:
  "verify_bearer K L now bearer seen = (seen', r) \<Longrightarrow> dget seen n = Some e \<Longrightarrow> now < e \<Longrightarrow> dget seen' n = Some e"
  by (auto simp: verify_bearer_def dest: replayed_keeps split: option.split_asm if_split_asm prod.split_asm)

text \<open>What an accepted bearer is.\<close>

lemma accepted:
  assumes "verify_bearer K L now bearer seen = (seen', Some s)"
  obtains env c where "bearer_claims K bearer = Some (env, c)" and "timely L now c" and "verify K env (a_pub c) = Inr True"
    and "s = keyid K (a_pub c)" and "dget seen' (a_nonce c) = Some (a_exp c)" and "\<And>e. dget seen (a_nonce c) = Some e \<Longrightarrow> e \<le> now"
proof -
  obtain env c where c: "bearer_claims K bearer = Some (env, c)" "timely L now c" "verify K env (a_pub c) = Inr True"
    "replayed L (a_nonce c) (a_exp c) now seen = (seen', False)" "s = keyid K (a_pub c)"
    using assms by (auto simp: verify_bearer_def split: option.split_asm if_split_asm prod.split_asm)
  have "dget seen' (a_nonce c) = Some (a_exp c)" using c(4) by (auto simp: replayed_def Let_def dget_dput split: if_split_asm)
  moreover have "e \<le> now" if "dget seen (a_nonce c) = Some e" for e
    using replayed_keeps [OF c(4) that] by (meson linorder_not_le)
  ultimately show thesis using that c by blast
qed

lemma later_acceptance:
  assumes "dget seen n = Some e" and "sorted (map fst calls)" and "j < length calls"
    and "answers K L calls seen ! j = Some s" and "bearer_claims K (snd (calls ! j)) = Some (env, c)" and "a_nonce c = n"
  shows "e \<le> fst (calls ! j)"
  using assms
proof (induction calls arbitrary: seen j)
  case (Cons call calls)
  obtain now bearer where call: "call = (now, bearer)" by (cases call)
  obtain seen1 r where v: "verify_bearer K L now bearer seen = (seen1, r)" by (cases "verify_bearer K L now bearer seen")
  show ?case
  proof (cases j)
    case 0
    then have "verify_bearer K L now bearer seen = (seen1, Some s)" using Cons.prems(4) v call by simp
    then show ?thesis using Cons.prems(1,5,6) 0 call by (elim accepted) auto
  next
    case (Suc i)
    have later: "now \<le> fst (calls ! i)" using Cons.prems(2,3) Suc call by simp
    show ?thesis
    proof (cases "now < e")
      case True
      have "dget seen1 n = Some e" by (rule verify_bearer_keeps [OF v Cons.prems(1) True])
      from Cons.IH [OF this, of i] show ?thesis using Cons.prems(2-6) Suc call v by simp
    qed (use later Suc in simp)
  qed
qed simp

lemma answers_nth:
  assumes "answers K L calls seen ! i = Some s" and "i < length calls"
  obtains seen0 seen1 where "verify_bearer K L (fst (calls ! i)) (snd (calls ! i)) seen0 = (seen1, Some s)"
    and "drop (Suc i) (answers K L calls seen) = answers K L (drop (Suc i) calls) seen1"
  using assms
proof (induction calls arbitrary: seen i thesis)
  case (Cons call calls)
  obtain now bearer where call: "call = (now, bearer)" by (cases call)
  obtain seen1 r where v: "verify_bearer K L now bearer seen = (seen1, r)" by (cases "verify_bearer K L now bearer seen")
  show ?case
  proof (cases i)
    case 0
    then show ?thesis using Cons.prems(1) [of seen seen1] Cons.prems(2) v call by simp
  next
    case (Suc k)
    show ?thesis
      by (rule Cons.IH [of k seen1]) (use Cons.prems Suc call v in auto)
  qed
qed simp

text \<open>The cache never outgrows its bound.\<close>

lemma cache_bounded:
  assumes "int (length seen) \<le> l_cache_max L" and "0 < l_cache_max L"
  shows "int (length (fst (verify_bearer K L now bearer seen))) \<le> l_cache_max L"
proof -
  have f: "length (filter P seen) \<le> length seen" for P by (rule length_filter_le)
  have d: "length (dput n e s) \<le> Suc (length s)" for n e and s :: spent by (induction s) auto
  have "int (length (fst (replayed L n e now seen))) \<le> l_cache_max L" for n e
    using assms f [of "\<lambda>(k, e). \<not> e \<le> now"] d [of n e seen] d [of n e "filter (\<lambda>(k, e). \<not> e \<le> now) seen"]
    by (simp add: replayed_def Let_def)
  then show ?thesis using assms(1) by (simp add: verify_bearer_def split: option.split prod.split) (metis fst_conv)
qed

text \<open>
  An assertion authenticates its key, briefly and once. Over the lifetime of a verifier whose clock does not run
  back, every accepted bearer carries a signature that verifies under the key whose id is answered and is accepted only
  before its expiry, which is at most the longest lifetime and the skew away; and once a bearer was accepted, none
  with its nonce is before that expiry, so none is accepted a second time.
\<close>

theorem assertion_accepted_once:
  assumes "sorted (map fst calls)"
  shows "(\<forall>i s. i < length calls \<longrightarrow> answers K L calls [] ! i = Some s \<longrightarrow>
      (\<exists>env c. bearer_claims K (snd (calls ! i)) = Some (env, c) \<and> s = keyid K (a_pub c) \<and> verify K env (a_pub c) = Inr True
         \<and> fst (calls ! i) < a_exp c \<and> a_exp c \<le> fst (calls ! i) + l_skew L + l_max_ttl L))
    \<and> (\<forall>i j s t env c env' c'. i < j \<longrightarrow> j < length calls \<longrightarrow> answers K L calls [] ! i = Some s \<longrightarrow> answers K L calls [] ! j = Some t \<longrightarrow>
         bearer_claims K (snd (calls ! i)) = Some (env, c) \<longrightarrow> bearer_claims K (snd (calls ! j)) = Some (env', c') \<longrightarrow>
         snd (calls ! i) \<noteq> snd (calls ! j) \<and> (a_nonce c' = a_nonce c \<longrightarrow> a_exp c \<le> fst (calls ! j)))"
proof (intro conjI allI impI)
  fix i s assume "i < length calls" "answers K L calls [] ! i = Some s"
  then obtain seen0 seen1 where "verify_bearer K L (fst (calls ! i)) (snd (calls ! i)) seen0 = (seen1, Some s)" using answers_nth by blast
  then show "\<exists>env c. bearer_claims K (snd (calls ! i)) = Some (env, c) \<and> s = keyid K (a_pub c) \<and> verify K env (a_pub c) = Inr True
         \<and> fst (calls ! i) < a_exp c \<and> a_exp c \<le> fst (calls ! i) + l_skew L + l_max_ttl L"
    by (elim accepted) (auto simp: timely_def)
next
  fix i j s t env c env' c'
  assume ij: "i < j" "j < length calls" and acc: "answers K L calls [] ! i = Some s" "answers K L calls [] ! j = Some t"
    and c: "bearer_claims K (snd (calls ! i)) = Some (env, c)" and c': "bearer_claims K (snd (calls ! j)) = Some (env', c')"
  have "i < length calls" using ij by simp
  from answers_nth [OF acc(1) this] obtain seen0 seen1 where v: "verify_bearer K L (fst (calls ! i)) (snd (calls ! i)) seen0 = (seen1, Some s)"
    and rest: "drop (Suc i) (answers K L calls []) = answers K L (drop (Suc i) calls) seen1" .
  have spent: "dget seen1 (a_nonce c) = Some (a_exp c)" using v c by (auto elim: accepted)
  have nth: "drop (Suc i) calls ! (j - Suc i) = calls ! j" "answers K L (drop (Suc i) calls) seen1 ! (j - Suc i) = Some t"
    using ij acc(2) unfolding rest [symmetric] by simp_all
  have later: "a_exp c \<le> fst (calls ! j)" if "a_nonce c' = a_nonce c"
    using later_acceptance [OF spent _ _ nth(2)] nth(1) assms ij c' that by (simp add: drop_map [symmetric] sorted_wrt_drop)
  then show "a_nonce c' = a_nonce c \<Longrightarrow> a_exp c \<le> fst (calls ! j)" .
  obtain seen2 seen3 where "verify_bearer K L (fst (calls ! j)) (snd (calls ! j)) seen2 = (seen3, Some t)"
    using answers_nth [OF acc(2) ij(2)] by blast
  then have "fst (calls ! j) < a_exp c'" using c' by (auto elim!: accepted simp: timely_def)
  then show "snd (calls ! i) \<noteq> snd (calls ! j)" using later c c' by force
qed

definition demo_key :: string where "demo_key = replicate 32 CHR ''k''"

definition demo_crypto :: crypto where
  "demo_crypto = toy_crypto \<lparr>parse := (\<lambda>s. Some
     (if s = ''e'' then JObj [(''payload'', JStr ''p''), (''payloadType'', JStr ''t''),
        (''signatures'', JList [JObj [(''sig'', JStr (demo_key @ pae ''t'' ''p''))]])]
      else JObj [(''pub'', JStr (hex_text demo_key)), (''iat'', JInt 1), (''exp'', JInt 301), (''nonce'', JStr ''n'')]))\<rparr>"

theorem assertion_accepted_once_witness:
  "answers demo_crypto default_limits [(5, ''e''), (6, ''e'')] [] ! 0 = Some (keyid demo_crypto demo_key)
   \<and> answers demo_crypto default_limits [(5, ''e''), (6, ''e'')] [] ! 1 = None"
proof -
  let ?calls = "[(5, ''e''), (6, ''e'')] :: (int \<times> string) list"
  have a: "answers demo_crypto default_limits ?calls [] ! 0 = Some (keyid demo_crypto demo_key)" by code_simp
  have s: "sorted (map fst ?calls)" by simp
  note once = assertion_accepted_once [OF s, of demo_crypto default_limits]
  from conjunct1 [OF once] a obtain env c where c: "bearer_claims demo_crypto ''e'' = Some (env, c)" by fastforce
  have "answers demo_crypto default_limits ?calls [] ! 1 \<noteq> Some t" for t
    using conjunct2 [OF once, rule_format, of 0 1] a c by force
  then show ?thesis using a by blast
qed

section \<open>Who an assertion is\<close>

text \<open>
  What a client mints is accepted while it is valid, by a verifier that has room and has not seen the nonce; the type
  the envelope is signed with does not matter. The codecs, the parser and the signature scheme are assumed to read
  back what was written.
\<close>

lemma any_type_is_accepted:
  assumes "\<And>s. b64ud K (b64ue K s) = Some s" and "\<And>s. b64d K (b64e K s) = Some s" and "\<And>s. b64ud K (b64e K s) = Some s"
    and "\<And>m. ed_verify K (pub_of K priv) (ed_sign K priv m) m"
    and "\<And>v. v \<in> {assertion_body K priv ttl t0 nonce, sign K (assertion_body K priv ttl t0 nonce) priv pt} \<Longrightarrow> parse K (canonicalize v) = Some (jnorm v)"
    and "length (pub_of K priv) = 32" and "nonce \<noteq> []" and "t0 \<le> now + l_skew L" and "now < t0 + max 1 (min ttl auth_max_ttl)"
    and "auth_max_ttl \<le> l_max_ttl L" and "\<And>e. dget seen nonce = Some e \<Longrightarrow> e \<le> now" and "int (length seen) < l_cache_max L" and "0 \<le> now"
  shows "snd (verify_bearer K L now (as_bearer K (sign K (assertion_body K priv ttl t0 nonce) priv pt)) seen) = Some (keyid K (pub_of K priv))"
proof -
  let ?body = "assertion_body K priv ttl t0 nonce" and ?till = "t0 + max 1 (min ttl auth_max_ttl)"
  let ?env = "sign K ?body priv pt"
  have h: "hex_text (pub_of K priv) \<noteq> []"
  proof
    assume "hex_text (pub_of K priv) = []"
    then have "from_hex (hex_text (pub_of K priv)) = Inr []" by simp
    then show False using assms(6) by simp
  qed
  have n: "jnorm ?body = JObj [(''exp'', JInt ?till), (''iat'', JInt t0), (''nonce'', JStr nonce), (''pub'', JStr (hex_text (pub_of K priv)))]"
    by (simp add: assertion_body_def)
  have e: "jnorm ?env = ?env" by (simp add: sign_def Let_def mk_envelope_def)
  have b: "bearer_envelope K (as_bearer K ?env) = Some ?env" using assms(1,5) e by (simp add: bearer_envelope_def as_bearer_def)
  have y: "bearer_body K ?env = Some (jnorm ?body)"
    using assms(3,5) by (simp add: bearer_body_def sign_def Let_def mk_envelope_def jget_JObj)
  have c: "body_claims (jnorm ?body) = Some \<lparr>a_pub = pub_of K priv, a_iat = t0, a_exp = ?till, a_nonce = nonce\<rparr>"
    using assms(6,7) h unfolding n
    by (simp add: body_claims_def Let_def is_obj_def jget_JObj jget_or_def obj_members_def int_of_json_def py_str_def py_or_def)
  have o: "is_obj ?env" by (simp add: sign_def Let_def mk_envelope_def is_obj_def)
  have v: "verify K ?env (pub_of K priv) = Inr True" by (rule sign_verify [OF assms(2,4)])
  have r: "\<not> snd (replayed L nonce ?till now seen)"
    using assms(11-13) by (auto simp: replayed_def Let_def dget_default_def split: option.split)
  show ?thesis using b y c o v r assms(8-10)
    by (auto simp: verify_bearer_def bearer_claims_def timely_def auth_max_ttl_def split: prod.split)
qed

text \<open>The answered key is somebody only where the registry declares it.\<close>

definition as_verifier :: "crypto \<Rightarrow> auth_limits \<Rightarrow> int \<Rightarrow> spent \<Rightarrow> string \<Rightarrow> json res" where
  "as_verifier K L now seen bearer = Inr (case snd (verify_bearer K L now bearer seen) of None \<Rightarrow> JNull | Some s \<Rightarrow> JStr s)"

lemma match_subject_declared:
  "match_subject subj ps = Inr (Some pid) \<Longrightarrow> \<exists>spec. (pid, spec) \<in> set ps \<and> py_str (py_or (jget_or spec ''subject'' JNull) (JStr [])) = subj"
proof (induction ps)
  case (Cons p ps)
  obtain q spec where p: "p = (q, spec)" by (cases p)
  show ?case
  proof (cases "match_subject subj ps = Inr (Some pid)")
    case True
    then show ?thesis using Cons.IH by auto
  next
    case False
    then have "q = pid \<and> py_str (py_or (jget_or spec ''subject'' JNull) (JStr [])) = subj"
      using Cons.prems p by (auto simp: bindR_eq_Inr Let_def spec_get_def compare_digest_def py_str_def py_or_def split: if_split_asm)
    then show ?thesis using p by auto
  qed
qed simp

lemma identity_needs_registry:
  assumes "dget vs name = Some (as_verifier K L now seen)" and "name \<noteq> []" and "name \<noteq> ''token_sha''"
    and "resolve_principal H vs bearer ps name = Inr (Some pid)"
  shows "\<exists>env c spec. bearer_claims K bearer = Some (env, c) \<and> verify K env (a_pub c) = Inr True \<and> timely L now c
    \<and> (pid, spec) \<in> set ps \<and> py_str (py_or (jget_or spec ''subject'' JNull) (JStr [])) = keyid K (a_pub c)"
proof -
  obtain s where s: "subject_of vs bearer name = Some s" "match_subject (py_str s) ps = Inr (Some pid)"
    using assms(2-4) by (auto simp: resolve_principal_def split: option.split_asm)
  then obtain k where k: "snd (verify_bearer K L now bearer seen) = Some k" "s = JStr k"
    using assms(1) by (auto simp: subject_of_def as_verifier_def split: if_split_asm option.split_asm)
  then obtain seen' where "verify_bearer K L now bearer seen = (seen', Some k)" by (metis prod.collapse)
  then obtain env c where "bearer_claims K bearer = Some (env, c)" "timely L now c" "verify K env (a_pub c) = Inr True" "k = keyid K (a_pub c)"
    by (elim accepted)
  then show ?thesis using match_subject_declared [OF s(2)] k(2) by (auto simp: py_str_def)
qed

end
