(* ===== verification/Custody.thy ===== *)
theory Custody
  imports Envelope
begin

text \<open>
  Key custody (\<open>src/infra/cwp/keystore.py\<close>): the contract of a key store, its two backends - a directory of raw key
  files and a token whose keys never leave it - and the contract suite. A freshly generated private key is an
  argument of \<open>generate\<close>; a directory maps file names to contents.
\<close>

section \<open>The contract\<close>

text \<open>
  What a client may rely on, for the key names a backend supports: a generated key is present and listed, answers
  with its public key and signs; other names are untouched.
\<close>

locale key_store =
  fixes K :: crypto
    and empty :: 's
    and generate :: "'s \<Rightarrow> string \<Rightarrow> string \<Rightarrow> 's"
    and public_raw :: "'s \<Rightarrow> string \<Rightarrow> string res"
    and sign_with :: "'s \<Rightarrow> string \<Rightarrow> string \<Rightarrow> string res"
    and has :: "'s \<Rightarrow> string \<Rightarrow> bool"
    and list_keys :: "'s \<Rightarrow> string list"
    and name_ok :: "string \<Rightarrow> bool"
    and wf :: "'s \<Rightarrow> bool"
  assumes empty_wf: "wf empty" and has_empty: "\<not> has empty k"
    and generate_wf: "wf s \<Longrightarrow> name_ok k \<Longrightarrow> length p = 32 \<Longrightarrow> wf (generate s k p)"
    and has_generate: "name_ok k \<Longrightarrow> name_ok k' \<Longrightarrow> has (generate s k p) k' \<longleftrightarrow> k' = k \<or> has s k'"
    and public_generate: "name_ok k \<Longrightarrow> name_ok k' \<Longrightarrow> length p = 32 \<Longrightarrow>
          public_raw (generate s k p) k' = (if k' = k then Inr (pub_of K p) else public_raw s k')"
    and sign_generate: "name_ok k \<Longrightarrow> name_ok k' \<Longrightarrow> length p = 32 \<Longrightarrow>
          sign_with (generate s k p) k' m = (if k' = k then Inr (ed_sign K p m) else sign_with s k' m)"
    and list_generate: "wf s \<Longrightarrow> name_ok k \<Longrightarrow> list_keys (generate s k p) = sort (remdups (k # list_keys s))"
    and list_empty: "list_keys empty = []"
begin

text \<open>Any number of keys generated one after the other.\<close>

definition filled :: "(string \<times> string) list \<Rightarrow> 's" where
  "filled gens = foldl (\<lambda>s (k, p). generate s k p) empty gens"

definition proper :: "(string \<times> string) list \<Rightarrow> bool" where
  "proper gens \<longleftrightarrow> (\<forall>(k, p) \<in> set gens. name_ok k \<and> length p = 32)"

lemma filled_snoc: "filled (gens @ [(k, p)]) = generate (filled gens) k p"
  by (simp add: filled_def)

lemma proper_snoc: "proper (gens @ [(k, p)]) \<longleftrightarrow> proper gens \<and> name_ok k \<and> length p = 32"
  by (auto simp: proper_def)

lemma filled_wf: "proper gens \<Longrightarrow> wf (filled gens)"
  by (induction gens rule: rev_induct) (auto simp: filled_def empty_wf generate_wf proper_def)

text \<open>What a store answers is determined by the last key generated under each name.\<close>

definition last_key :: "(string \<times> string) list \<Rightarrow> string \<Rightarrow> string option" where
  "last_key gens k = map_of (rev gens) k"

lemma has_filled: "proper gens \<Longrightarrow> name_ok k \<Longrightarrow> has (filled gens) k \<longleftrightarrow> last_key gens k \<noteq> None"
proof (induction gens rule: rev_induct)
  case (snoc x gens)
  then show ?case by (cases x) (auto simp: filled_snoc proper_snoc has_generate last_key_def)
qed (simp add: filled_def last_key_def has_empty)

lemma public_filled: "proper gens \<Longrightarrow> name_ok k \<Longrightarrow> last_key gens k = Some p \<Longrightarrow> public_raw (filled gens) k = Inr (pub_of K p)"
proof (induction gens rule: rev_induct)
  case (snoc x gens)
  then show ?case by (cases x) (auto simp: filled_snoc proper_snoc public_generate last_key_def split: if_split_asm)
qed (simp add: last_key_def)

lemma sign_filled: "proper gens \<Longrightarrow> name_ok k \<Longrightarrow> last_key gens k = Some p \<Longrightarrow> sign_with (filled gens) k m = Inr (ed_sign K p m)"
proof (induction gens rule: rev_induct)
  case (snoc x gens)
  then show ?case by (cases x) (auto simp: filled_snoc proper_snoc sign_generate last_key_def split: if_split_asm)
qed (simp add: last_key_def)

lemma list_filled: "proper gens \<Longrightarrow> list_keys (filled gens) = sort (remdups (map fst gens))"
proof (induction gens rule: rev_induct)
  case (snoc x gens)
  obtain k p where x: "x = (k, p)" by (cases x)
  have "list_keys (filled (gens @ [x])) = sort (remdups (k # sort (remdups (map fst gens))))"
    using snoc x by (simp add: filled_snoc proper_snoc list_generate filled_wf)
  also have "\<dots> = sort (remdups (map fst gens @ [k]))"
    by (rule sorted_distinct_set_unique) auto
  finally show ?case by (simp add: x)
qed (simp add: filled_def list_empty)

end

section \<open>The directory\<close>

type_synonym key_dir = "(string, string) dict"

definition key_file :: "string \<Rightarrow> string" where "key_file k = k @ ''.key''"

definition load_key :: "key_dir \<Rightarrow> string \<Rightarrow> string res" where
  "load_key d k =
     (case dget d (key_file k) of None \<Rightarrow> Inl OSError
      | Some raw \<Rightarrow> if length raw = 32 then Inr raw else Inl ValueError)"

definition file_generate :: "key_dir \<Rightarrow> string \<Rightarrow> string \<Rightarrow> key_dir" where
  "file_generate d k raw = dput (key_file k) raw d"

definition file_public_raw :: "crypto \<Rightarrow> key_dir \<Rightarrow> string \<Rightarrow> string res" where
  "file_public_raw K d k = bindR (load_key d k) (\<lambda>raw. Inr (pub_of K raw))"

definition file_sign :: "crypto \<Rightarrow> key_dir \<Rightarrow> string \<Rightarrow> string \<Rightarrow> string res" where
  "file_sign K d k message = bindR (load_key d k) (\<lambda>raw. Inr (ed_sign K raw message))"

definition file_has :: "key_dir \<Rightarrow> string \<Rightarrow> bool" where "file_has d k \<longleftrightarrow> dget d (key_file k) \<noteq> None"

definition file_list_keys :: "key_dir \<Rightarrow> string list" where
  "file_list_keys d = sort (map (\<lambda>f. take (length f - 4) f) (filter (suffix ''.key'') (map fst d)))"

section \<open>The token\<close>

type_synonym token = "(string, string) dict"

definition token_key :: "token \<Rightarrow> string \<Rightarrow> string res" where "token_key t k = lookup_or_raise t k"
definition token_generate :: "token \<Rightarrow> string \<Rightarrow> string \<Rightarrow> token" where "token_generate t k p = dput k p t"

definition token_public_raw :: "crypto \<Rightarrow> token \<Rightarrow> string \<Rightarrow> string res" where
  "token_public_raw K t k = bindR (token_key t k) (\<lambda>p. Inr (pub_of K p))"

definition token_sign :: "crypto \<Rightarrow> token \<Rightarrow> string \<Rightarrow> string \<Rightarrow> string res" where
  "token_sign K t k message = bindR (token_key t k) (\<lambda>p. Inr (ed_sign K p message))"

definition token_has :: "token \<Rightarrow> string \<Rightarrow> bool" where "token_has t k \<longleftrightarrow> dget t k \<noteq> None"
definition token_list_keys :: "token \<Rightarrow> string list" where "token_list_keys t = sort (map fst t)"

section \<open>Both meet the contract\<close>

text \<open>A name that stays inside the directory.\<close>

definition plain_name :: "string \<Rightarrow> bool" where "plain_name k \<longleftrightarrow> CHR ''/'' \<notin> set k"

lemma key_file_inj [simp]: "key_file k = key_file k' \<longleftrightarrow> k = k'"
  by (simp add: key_file_def)

lemma dput_map_fst: "distinct (map fst d) \<Longrightarrow> map fst (dput k v d) = (if k \<in> fst ` set d then map fst d else map fst d @ [k])"
  by (induction d) auto

lemma sort_insert_key: "distinct xs \<Longrightarrow> sort (remdups (k # sort xs)) = sort (if k \<in> set xs then xs else xs @ [k])"
  by (rule sorted_distinct_set_unique) auto

definition key_names :: "key_dir \<Rightarrow> string list" where
  "key_names d = map (\<lambda>f. take (length f - 4) f) (filter (suffix ''.key'') (map fst d))"

lemma key_names_distinct: "distinct (map fst d) \<Longrightarrow> distinct (key_names d)"
  by (auto simp: key_names_def distinct_map inj_on_def suffix_def)

lemma key_names_dput:
  "distinct (map fst d) \<Longrightarrow> key_names (dput (key_file k) p d) = (if k \<in> set (key_names d) then key_names d else key_names d @ [k])"
proof -
  assume d: "distinct (map fst d)"
  have k: "k \<in> set (key_names d) \<longleftrightarrow> key_file k \<in> fst ` set d"
    by (force simp: key_names_def key_file_def suffix_def)
  show ?thesis unfolding k using dput_map_fst [OF d, of "key_file k" p] by (auto simp: key_names_def key_file_def suffix_def)
qed

interpretation files: key_store K "[]" file_generate "file_public_raw K" "file_sign K" file_has file_list_keys plain_name "\<lambda>d. distinct (map fst d)" for K
proof unfold_locales
  fix d :: key_dir and k p assume d: "distinct (map fst d)"
  show "file_list_keys (file_generate d k p) = sort (remdups (k # file_list_keys d))"
    using sort_insert_key [OF key_names_distinct [OF d], of k] key_names_dput [OF d, of k p]
    by (simp add: file_list_keys_def file_generate_def key_names_def)
qed (auto simp: file_has_def file_generate_def file_public_raw_def file_sign_def load_key_def file_list_keys_def dget_dput distinct_update)

interpretation token: key_store K "[]" token_generate "token_public_raw K" "token_sign K" token_has token_list_keys plain_name "\<lambda>t. distinct (map fst t)" for K
proof unfold_locales
  fix t :: token and k p assume t: "distinct (map fst t)"
  show "token_list_keys (token_generate t k p) = sort (remdups (k # token_list_keys t))"
    using sort_insert_key [OF t, of k] dput_map_fst [OF t, of k p] by (auto simp: token_list_keys_def token_generate_def)
qed (auto simp: token_has_def token_generate_def token_public_raw_def token_sign_def token_key_def lookup_or_raise_def token_list_keys_def dget_dput
    bindR_def distinct_update split: option.split)

section \<open>The contract suite\<close>

record 's backend =
  bk_generate :: "'s \<Rightarrow> string \<Rightarrow> string \<Rightarrow> 's"
  bk_public_raw :: "'s \<Rightarrow> string \<Rightarrow> string res"
  bk_sign :: "'s \<Rightarrow> string \<Rightarrow> string \<Rightarrow> string res"
  bk_has :: "'s \<Rightarrow> string \<Rightarrow> bool"
  bk_list_keys :: "'s \<Rightarrow> string list"

definition file_backend :: "crypto \<Rightarrow> key_dir backend" where
  "file_backend K = \<lparr>bk_generate = file_generate, bk_public_raw = file_public_raw K, bk_sign = file_sign K, bk_has = file_has, bk_list_keys = file_list_keys\<rparr>"

definition token_backend :: "crypto \<Rightarrow> token backend" where
  "token_backend K = \<lparr>bk_generate = token_generate, bk_public_raw = token_public_raw K, bk_sign = token_sign K, bk_has = token_has, bk_list_keys = token_list_keys\<rparr>"

definition bk_verify :: "crypto \<Rightarrow> 's backend \<Rightarrow> 's \<Rightarrow> string \<Rightarrow> string \<Rightarrow> string \<Rightarrow> bool res" where
  "bk_verify K B s k message signature = bindR (bk_public_raw B s k) (\<lambda>pub. Inr (ed_verify K pub signature message))"

definition suite_message :: string where "suite_message = ''the canonical bytes to sign''"

text \<open>The suite: an exception of the backend passes through, except where a verification is expected to fail.\<close>

definition contract_suite :: "crypto \<Rightarrow> 's backend \<Rightarrow> 's \<Rightarrow> string \<Rightarrow> bool list res" where
  "contract_suite K B s0 fresh =
     (let k = ''contract-key''; s = bk_generate B s0 k fresh; message = suite_message
      in bindR (bk_public_raw B s k) (\<lambda>pub.
         let kid = keyid K pub
         in bindR (bk_sign B s k message) (\<lambda>sig.
            Inr [starts_with kid ''ed25519:'' \<and> length kid = 24, bk_has B s k, k \<in> set (bk_list_keys B s), \<not> bk_has B s ''no-such-key'',
                 length sig = 64, bk_verify K B s k message sig = Inr True, bk_verify K B s k ''a different message'' sig \<noteq> Inr True])))"

definition suite_ok :: "bool list res \<Rightarrow> bool" where
  "suite_ok r = (case r of Inl _ \<Rightarrow> False | Inr cs \<Rightarrow> list_all id cs)"

definition generated :: "'s backend \<Rightarrow> 's \<Rightarrow> (string \<times> string) list \<Rightarrow> 's" where
  "generated B s0 gens = foldl (\<lambda>s (k, p). bk_generate B s k p) s0 gens"

lemma generated_filled: "generated (file_backend K) [] gens = files.filled gens" "generated (token_backend K) [] gens = token.filled gens"
  by (simp_all add: generated_def file_backend_def token_backend_def files.filled_def token.filled_def)

text \<open>The suite passes on any backend that answers for the generated key.\<close>

lemma suite_passes:
  assumes "length (sha_hex K (pub_of K fresh)) = 64" and "\<And>m. length (ed_sign K fresh m) = 64"
    and "\<And>m. ed_verify K (pub_of K fresh) (ed_sign K fresh suite_message) m \<longleftrightarrow> m = suite_message"
    and "s = bk_generate B s0 ''contract-key'' fresh" and "bk_public_raw B s ''contract-key'' = Inr (pub_of K fresh)"
    and "\<And>m. bk_sign B s ''contract-key'' m = Inr (ed_sign K fresh m)" and "bk_has B s ''contract-key''"
    and "''contract-key'' \<in> set (bk_list_keys B s)" and "\<not> bk_has B s ''no-such-key''"
  shows "suite_ok (contract_suite K B s0 fresh)"
  using assms by (simp add: suite_ok_def contract_suite_def Let_def bk_verify_def keyid_def) (simp add: suite_message_def)

definition key_names_ok :: "(string \<times> string) list \<Rightarrow> bool" where
  "key_names_ok gens \<longleftrightarrow> (\<forall>(k, p) \<in> set gens. plain_name k \<and> length p = 32)"

text \<open>
  Both backends keep one contract. After any keys were generated, the directory and the token list the same names
  and, for every name that stays inside the directory, agree on whether there is a key and, where there is one, on the
  public key and on every signature, which are those of the key generated last under the name; and both pass the
  contract suite. Assumed are the lengths of digest and signature and that the signature of the suite's message verifies for that message only.
\<close>

theorem backends_keep_one_contract:
  assumes "key_names_ok gens" and "length fresh = 32" and "''no-such-key'' \<notin> fst ` set gens"
    and "length (sha_hex K (pub_of K fresh)) = 64" and "\<And>m. length (ed_sign K fresh m) = 64"
    and "\<And>m. ed_verify K (pub_of K fresh) (ed_sign K fresh suite_message) m \<longleftrightarrow> m = suite_message"
  shows "let d = generated (file_backend K) [] gens; t = generated (token_backend K) [] gens
    in file_list_keys d = token_list_keys t
     \<and> (\<forall>k. plain_name k \<longrightarrow> file_has d k = token_has t k
          \<and> (case map_of (rev gens) k of None \<Rightarrow> \<not> file_has d k
             | Some p \<Rightarrow> file_public_raw K d k = Inr (pub_of K p) \<and> token_public_raw K t k = Inr (pub_of K p)
                 \<and> (\<forall>m. file_sign K d k m = Inr (ed_sign K p m) \<and> token_sign K t k m = Inr (ed_sign K p m))))
     \<and> suite_ok (contract_suite K (file_backend K) d fresh) \<and> suite_ok (contract_suite K (token_backend K) t fresh)"
proof -
  let ?d = "files.filled gens" and ?t = "token.filled gens" and ?c = "''contract-key''"
  have ok: "files.proper gens" "token.proper gens" using assms(1) by (auto simp: files.proper_def token.proper_def key_names_ok_def)
  have n: "plain_name ?c" "plain_name ''no-such-key''" by (simp_all add: plain_name_def)
  have ok': "files.proper (gens @ [(?c, fresh)])" "token.proper (gens @ [(?c, fresh)])"
    using ok n(1) assms(2) by (simp_all add: files.proper_snoc token.proper_snoc)
  have l: "map_of (rev (gens @ [(?c, fresh)])) ?c = Some fresh" "map_of (rev (gens @ [(?c, fresh)])) ''no-such-key'' = None"
    using assms(3) by (auto simp: map_of_eq_None_iff)
  have s: "suite_ok (contract_suite K (file_backend K) ?d fresh)"
    by (rule suite_passes [OF assms(4-6) refl])
      (use files.public_filled [OF ok'(1) n(1)] files.sign_filled [OF ok'(1) n(1)] files.has_filled [OF ok'(1)] files.list_filled [OF ok'(1)] l n
       in \<open>simp_all add: file_backend_def files.filled_snoc files.last_key_def\<close>)
  have s': "suite_ok (contract_suite K (token_backend K) ?t fresh)"
    by (rule suite_passes [OF assms(4-6) refl])
      (use token.public_filled [OF ok'(2) n(1)] token.sign_filled [OF ok'(2) n(1)] token.has_filled [OF ok'(2)] token.list_filled [OF ok'(2)] l n
       in \<open>simp_all add: token_backend_def token.filled_snoc token.last_key_def\<close>)
  have e: "(case map_of (rev gens) k of None \<Rightarrow> \<not> file_has ?d k
             | Some p \<Rightarrow> file_public_raw K ?d k = Inr (pub_of K p) \<and> token_public_raw K ?t k = Inr (pub_of K p)
                 \<and> (\<forall>m. file_sign K ?d k m = Inr (ed_sign K p m) \<and> token_sign K ?t k m = Inr (ed_sign K p m)))
      \<and> file_has ?d k = token_has ?t k" if "plain_name k" for k
    using files.has_filled [OF ok(1) that] token.has_filled [OF ok(2) that] files.public_filled [OF ok(1) that] token.public_filled [OF ok(2) that]
      files.sign_filled [OF ok(1) that] token.sign_filled [OF ok(2) that]
    by (auto simp: files.last_key_def token.last_key_def split: option.split)
  show ?thesis unfolding Let_def generated_filled
    using files.list_filled [OF ok(1)] token.list_filled [OF ok(2)] s s' e by simp
qed

definition suite_crypto :: crypto where
  "suite_crypto = toy_crypto \<lparr>sha_hex := (\<lambda>_. replicate 64 CHR ''0''),
     ed_sign := (\<lambda>_ m. replicate 64 (if m = suite_message then CHR ''s'' else CHR ''t'')),
     ed_verify := (\<lambda>_ s m. s = replicate 64 (if m = suite_message then CHR ''s'' else CHR ''t''))\<rparr>"

theorem backends_keep_one_contract_witness:
  "file_list_keys (generated (file_backend suite_crypto) [] [(''a'', replicate 32 CHR ''x'')]) = [''a'']
   \<and> suite_ok (contract_suite suite_crypto (token_backend suite_crypto) (generated (token_backend suite_crypto) [] [(''a'', replicate 32 CHR ''x'')])
       (replicate 32 CHR ''y''))"
proof -
  let ?gens = "[(''a'', replicate 32 CHR ''x'')]"
  have g: "key_names_ok ?gens" "length (replicate 32 CHR ''y'') = 32" "''no-such-key'' \<notin> fst ` set ?gens"
    "length (sha_hex suite_crypto (pub_of suite_crypto (replicate 32 CHR ''y''))) = 64"
    by (simp_all add: key_names_ok_def plain_name_def suite_crypto_def)
  have l: "length (ed_sign suite_crypto (replicate 32 CHR ''y'') m) = 64" for m by (simp add: suite_crypto_def)
  have v: "ed_verify suite_crypto (pub_of suite_crypto (replicate 32 CHR ''y'')) (ed_sign suite_crypto (replicate 32 CHR ''y'') suite_message) m \<longleftrightarrow> m = suite_message" for m
    by (simp add: suite_crypto_def)
  have k: "token_list_keys (generated (token_backend suite_crypto) [] ?gens) = [''a'']"
    by (simp add: generated_def token_backend_def token_generate_def token_list_keys_def)
  show ?thesis using backends_keep_one_contract [OF g l v] k unfolding Let_def by simp
qed

end
