(* ===== verification/Spec2Isabelle.thy ===== *)
theory Spec2Isabelle
  imports Prelude Decimal Money Json Chain RewardLedger Idem Credits Rails Price Envelope Settle Escrow
    Merkle Checkpoint Translog Durable Lease Store Mirror Reconcile
    Text Workflow Algebra Principals Grants Sandbox Exod Intelligence Markets Throughput Fmv
    Registry Composer Compiler Govern Delegate Runs Races Provenance Tracing Intake
    Revocation Release Fleet Executor Vault Wire Assertion Custody
begin

text \<open>
  Verification library of cyberware: a governed execution service. A client claims a perk of a skill; the server
  decides the claim, answers with a value-free plan, watches the run and keeps its provenance; steps run either in the
  client's local channel or in an execution daemon that acts only on signed, single-use grants; work is quoted,
  escrowed, settled and paid from a double-entry ledger; and every record is a hash chain whose checkpoints, receipts
  and releases verify offline. The theories follow those parts. All paths below are under \<open>src/infra/\<close>.

  The parts and how they interact
  \<^item> A claim (\<open>govern/govd.py\<close>, \<open>do_POST\<close>) passes authentication (a token, or a signed assertion: \<open>Assertion\<close>),
    organisation and skill access, the registry's digests, the oversight of its keys and the budget (\<open>Principals\<close>,
    \<open>Registry\<close>, \<open>Govern\<close>, \<open>Intake\<close>); an allowed one opens a run (\<open>Runs\<close>) with the plan of \<open>Compiler\<close>.
  \<^item> The steps of a run are driven over a session (\<open>Wire\<close> for its frames, \<open>Runs\<close> for its messages, \<open>Races\<close> and
    \<open>Provenance\<close> for sessions at the same time), delegated to the daemon (\<open>Delegate\<close>, \<open>Exod\<close>,
    \<open>Grants\<close>, \<open>Sandbox\<close>), run by the local executor (\<open>Executor\<close>), or served with secrets (\<open>Vault\<close>). Releases, engines and
    keys are pinned and revoked by signed documents (\<open>Release\<close>, \<open>Revocation\<close>), nodes find one another through \<open>Fleet\<close>.
  \<^item> Finished runs are chains (\<open>Chain\<close>, \<open>Durable\<close>), checkpointed (\<open>Merkle\<close>, \<open>Checkpoint\<close>, \<open>Translog\<close>), mirrored into an
    index whose writers hold a lease (\<open>Store\<close>, \<open>Lease\<close>, \<open>Mirror\<close>) and repaired from the chains (\<open>Reconcile\<close>).
  \<^item> A receipt (\<open>Envelope\<close>) lets the settlement engine pay a quote (\<open>Settle\<close>) out of escrow on the reward ledger
    (\<open>RewardLedger\<close>, \<open>Escrow\<close>); prices, credits, markets and batches stand on the same ledger.

  Theory by theory
  \<^item> \<open>Prelude\<close>, \<open>Decimal\<close>, \<open>Text\<close>: Python's exceptions as \<open>py_error\<close>, results as \<open>'a res\<close> (\<open>Inl\<close> the exception), folds and
    maps that stop at the first exception, dictionaries as association lists in insertion order, \<open>decimal\<close> with its
    contexts (28 and 34 digits), string methods.
  \<^item> \<open>Json\<close> (\<open>cwp/canonical.py\<close>): JSON values, the canonical text of RFC 8785; it determines a value up to the order of its members, so
    equal digests mean equal values or a collision of the hash.
  \<^item> \<open>Money\<close> (\<open>settle/money.py\<close>): amounts in units of 1/10000, arithmetic with its exceptions, the largest-remainder split.
  \<^item> \<open>Chain\<close> (\<open>cwp/chainverify.py\<close>, \<open>ledger.py\<close>) and \<open>Durable\<close> (\<open>ledger.py\<close> on disk): appending, verifying, the file as
    bytes with crashes at every byte.
  \<^item> \<open>RewardLedger\<close> (\<open>settle/reward_ledger.py\<close>): posting sets, balances, attestations; \<open>Idem\<close>: the contract of idempotent
    operations; \<open>Credits\<close> (\<open>credits.py\<close>, \<open>budget.py\<close>), \<open>Rails\<close> (\<open>rails.py\<close>, \<open>adapter.py\<close>, \<open>dust.py\<close>), \<open>Price\<close> (\<open>price.py\<close>,
    \<open>credit_price.py\<close>, \<open>metered.py\<close>), \<open>Settle\<close> (\<open>quote.py\<close>, \<open>engine.py\<close>, \<open>escrow_expiry.py\<close>, \<open>reward_verify.py\<close>), \<open>Escrow\<close>
    (what the sweep and the cross-check guarantee), \<open>Intelligence\<close>, \<open>Markets\<close> (markets, self bounties, royalties,
    disputes), \<open>Throughput\<close> (group commit, resume), \<open>Fmv\<close> (fair value and reputation).
  \<^item> \<open>Envelope\<close> (\<open>cwp/sign.py\<close>, \<open>cosign.py\<close>, receipts, WebAuthn approvals), \<open>Merkle\<close> and \<open>Checkpoint\<close> (\<open>checkpoint.py\<close>),
    \<open>Translog\<close> (\<open>translog.py\<close>, timestamp anchors), \<open>Revocation\<close> (\<open>revocation.py\<close>, \<open>feed_tiers.py\<close>, \<open>revoke_inflight.py\<close>,
    \<open>keyrotation.py\<close>), \<open>Release\<close> (\<open>release.py\<close>, \<open>engineattest.py\<close>, \<open>publish.py\<close>).
  \<^item> \<open>Lease\<close>, \<open>Store\<close>, \<open>Mirror\<close>, \<open>Reconcile\<close> (\<open>store/\<close>, \<open>govern/lease.py\<close>): the lease of both backends, the tables,
    the write queue, the repair.
  \<^item> \<open>Workflow\<close>, \<open>Algebra\<close> (\<open>cwp/workflow.py\<close>, \<open>tla_emit.py\<close>): workflows as values, the bounded search, the algebra of
    composition; \<open>Registry\<close>, \<open>Composer\<close>, \<open>Compiler\<close> (\<open>registry.py\<close>, \<open>tool/skill_index.py\<close>, \<open>govern/composer.py\<close>,
    \<open>compiler.py\<close>, \<open>plan_steps.py\<close>, \<open>snippetverify.py\<close>).
  \<^item> \<open>Principals\<close> (\<open>govern/principals.py\<close>, \<open>orgs.py\<close>, access lists), \<open>Assertion\<close>
    (\<open>ed25519_auth.py\<close>), \<open>Govern\<close>, \<open>Intake\<close>, \<open>Runs\<close>, \<open>Races\<close>, \<open>Provenance\<close> (\<open>govern/govd.py\<close>), \<open>Wire\<close> (the frames of
    \<open>govd.py\<close> and \<open>govd_client.py\<close>), \<open>Delegate\<close> (\<open>delegate.py\<close>), \<open>Tracing\<close> (\<open>tracing.py\<close>), \<open>Fleet\<close> (\<open>fleetd.py\<close>), \<open>Executor\<close>
    (\<open>executor.py\<close>, \<open>oversight.py\<close>, \<open>runlog.py\<close>), \<open>Grants\<close>, \<open>Sandbox\<close>, \<open>Exod\<close>, \<open>Vault\<close> (\<open>exec/\<close>).

  Interfaces
  \<^item> \<open>fresh_tags\<close> and \<open>once\<close> (\<open>Idem\<close>): an operation remembers its key, and a call with a remembered key changes nothing;
    whatever the sequence of calls, a key acts once. Interpreted by the debits, top-ups and recharges of \<open>Credits\<close>, the tax
    of \<open>Rails\<close>, the intelligence payments and the settlement engine.
  \<^item> \<open>double_entry\<close> (\<open>RewardLedger\<close>): posting keeps every currency's total; interpreted by \<open>post\<close>.
  \<^item> \<open>lease_store\<close> (\<open>Lease\<close>): acquire, renew and release of a lease table; interpreted by SQLite and Postgres. Like the
    code, it has no fencing tokens: a holder that goes on writing after its lease ran out is not stopped by the store.
  \<^item> \<open>key_store\<close> (\<open>Custody\<close>, \<open>cwp/keystore.py\<close>): generate, public key, signature, presence and list of the keys of a
    backend; interpreted by the directory and by the token.

  What the lemmas show
  Every operation's result on each branch; the invariants of the ledgers, chains, stores and sessions over any sequence of
  operations; exactness of the split, of the searches and of the composed plans; round trips of texts, proofs and
  receipts; refinements (the group commit by single posts, the staged closure by the blessed one, the daemon's channel by
  its grants); mutual exclusion and crash safety over every interleaving and every torn write; and concrete runs that
  exhibit the limits recorded as findings.

  Parameters and hypotheses
  Hashes are functions (\<open>H\<close>, \<open>Hb\<close>); no theorem assumes them injective: conclusions are "or a collision". Signatures are
  the record \<open>crypto\<close>, with the law that what a key signed verifies, where it is needed. JSON parsing of files, the file
  system (\<open>os_fs\<close>), the regex engine, bash, sockets and provers of proofs of work, the host (\<open>host\<close>), the server's
  surroundings (\<open>gov_env\<close>, \<open>surround\<close>, \<open>channel_env\<close>) are arguments. Hypotheses name what such an argument documents, and
  every theorem with one has a witness with a concrete argument.

  Where the model is coarser than the code
  \<open>Runs\<close> serves a whole message at once; that the check of a step and the append that records it are two holds of the
  lock is modelled in \<open>Races\<close> and \<open>Provenance\<close>, and the properties of sessions are stated there. An operation that raises
  leaves its state as it was: this differs from the code in \<open>budget_post\<close> (which commits and then adds up) and in the
  execution daemon (whose nonce stays spent when the run after it raises). All hosts of \<open>Lease\<close> read one clock. A
  step is named by its raw text, as in the code, so 1 and 01 are two names of one step (a finding). In \<open>Executor\<close> the
  script is compared and scanned once per invocation and each step runs the file as it then is: only the first step
  runs the text that was scanned (\<open>later_step_runs_new_script\<close>), while the porters are checked before every step, on the
  files of that moment.

  Conventions and bounds
  Integers are Python's, as \<open>int\<close>; times are rationals where the code has floats; JSON numbers are integers, and booleans
  are not numbers except where Python's comparison makes them so, which is written out. Strings are lists of characters
  below 256. Reasons of refusals are shortened to their code. Amounts stay below the digit bounds each lemma names
  (\<open>10^26\<close> to \<open>10^34\<close> units), since decimal contexts round above them. Loops end by structure or by a measure; the
  reachability loop is a \<open>partial_function\<close> with a proof that it returns on every finite system, and the search of a
  composed plan has the code's own depth bound.

  Not modelled
  Console output, argument parsing and the self tests each module carries; sockets, threads, TLS and process creation
  (their orderings are modelled as interleavings in \<open>Races\<close>, \<open>Mirror\<close>, \<open>Lease\<close>); the dashboards, diagrams and scaffolding
  under \<open>tool/\<close> and the monitor pages of the server, which format data other theories hold; the kernel's namespaces and
  system-call filters beyond the arguments the sandbox passes; cryptographic primitives, Postgres and SQLite themselves;
  benchmarks, torture harnesses and the reproducible build, which drive the modelled code; the validators of \<open>alchemy.py\<close>,
  which call external provers.
\<close>

end
